(* ===== verification/JS_Prelude.thy ===== *)
theory JS_Prelude
  imports Complex_Main "HOL-Library.AList" "HOL-Library.Multiset" "HOL-Library.Code_Target_Nat"
begin

section \<open>Strings, arrays, maps and sorting of the source language\<close>

text \<open>
  The part of the TypeScript standard library that the modelled components call, with the
  lemmas they share.
  \<^item> A string is a list of UTF-16 code units (\<open>jstring\<close>), as in the language: indices, lengths
    and slices count code units. \<open>lit ''abc''\<close> is a literal.
  \<^item> A \<^verbatim>\<open>Map\<close> is an association list in insertion order with distinct keys:
    \<^verbatim>\<open>get\<close> is \<open>map_of\<close> and \<^verbatim>\<open>set\<close> is \<open>AList.update\<close>, which keeps the place of a key that is
    already there and appends a new one. The interface is the locale \<open>js_map\<close>.
  \<^item> \<open>uniq xs\<close> is the array of a \<^verbatim>\<open>Set\<close> built from an array (first occurrences, in order).
  \<^item> \<open>js_sort\<close> is the stable \<^verbatim>\<open>Array.prototype.sort\<close> with a comparator that returns a
    number; the contract of a comparator is the locale \<open>js_comparator\<close>.
\<close>

named_theorems js_eval \<open>facts that evaluate string functions on literals\<close>

type_synonym jstring = "nat list"

type_synonym ('k, 'v) jmap = "('k \<times> 'v) list"

subsection \<open>Literals and characters\<close>

definition lit :: "string \<Rightarrow> jstring" where
  "lit s = map of_char s"

definition is_ws :: "nat \<Rightarrow> bool" where
  "is_ws c \<longleftrightarrow> (9 \<le> c \<and> c \<le> 13) \<or> c = 32 \<or> c = 160 \<or> c = 5760 \<or> (8192 \<le> c \<and> c \<le> 8202)
     \<or> c = 8232 \<or> c = 8233 \<or> c = 8239 \<or> c = 8287 \<or> c = 12288 \<or> c = 65279"

definition is_digit :: "nat \<Rightarrow> bool" where
  "is_digit c \<longleftrightarrow> 48 \<le> c \<and> c \<le> 57"

text \<open>The regular expression \<^verbatim>\<open>^\d+$\<close>.\<close>

definition all_digits :: "jstring \<Rightarrow> bool" where
  "all_digits s \<longleftrightarrow> s \<noteq> [] \<and> list_all is_digit s"

subsection \<open>String methods\<close>

definition trim_start :: "jstring \<Rightarrow> jstring" where
  "trim_start s = dropWhile is_ws s"

definition trim_end :: "jstring \<Rightarrow> jstring" where
  "trim_end s = rev (dropWhile is_ws (rev s))"

definition trim :: "jstring \<Rightarrow> jstring" where
  "trim s = trim_end (trim_start s)"

definition starts_with :: "jstring \<Rightarrow> jstring \<Rightarrow> bool" where
  "starts_with s p \<longleftrightarrow> take (length p) s = p"

fun str_includes :: "jstring \<Rightarrow> jstring \<Rightarrow> bool" where
  "str_includes [] p \<longleftrightarrow> p = []"
| "str_includes (c # s) p \<longleftrightarrow> starts_with (c # s) p \<or> str_includes s p"

text \<open>\<^verbatim>\<open>s.indexOf(p)\<close> from the start of \<open>s\<close>; \<open>None\<close> is the result \<^verbatim>\<open>-1\<close>.\<close>

fun index_of :: "jstring \<Rightarrow> jstring \<Rightarrow> nat option" where
  "index_of [] p = (if p = [] then Some 0 else None)"
| "index_of (c # s) p =
     (if starts_with (c # s) p then Some 0 else map_option Suc (index_of s p))"

text \<open>\<^verbatim>\<open>s.indexOf(p, i)\<close>\<close>

definition index_of_from :: "jstring \<Rightarrow> jstring \<Rightarrow> nat \<Rightarrow> nat option" where
  "index_of_from s p i = map_option (\<lambda>k. i + k) (index_of (drop i s) p)"

text \<open>\<^verbatim>\<open>s.slice(i, j)\<close> for indices that are not negative.\<close>

definition slice :: "jstring \<Rightarrow> nat \<Rightarrow> nat \<Rightarrow> jstring" where
  "slice s i j = take (j - i) (drop i s)"

text \<open>\<^verbatim>\<open>s.split(c)\<close> for a separator of one code unit: never the empty array.\<close>

fun split_on :: "nat \<Rightarrow> jstring \<Rightarrow> jstring list" where
  "split_on c [] = [[]]"
| "split_on c (x # xs) =
     (if x = c then [] # split_on c xs
      else (case split_on c xs of [] \<Rightarrow> [[x]] | y # ys \<Rightarrow> (x # y) # ys))"

text \<open>\<^verbatim>\<open>xs.join(sep)\<close>\<close>

fun join :: "jstring \<Rightarrow> jstring list \<Rightarrow> jstring" where
  "join sep [] = []"
| "join sep [x] = x"
| "join sep (x # y # ys) = x @ sep @ join sep (y # ys)"

text \<open>\<^verbatim>\<open>String(n)\<close> and \<^verbatim>\<open>Number.parseInt(s, 10)\<close> on a string of digits.\<close>

fun show_nat :: "nat \<Rightarrow> jstring" where
  "show_nat n = (if n < 10 then [48 + n] else show_nat (n div 10) @ [48 + n mod 10])"

declare show_nat.simps [simp del]

definition read_nat :: "jstring \<Rightarrow> nat" where
  "read_nat s = foldl (\<lambda>acc c. 10 * acc + (c - 48)) 0 s"

text \<open>\<^verbatim>\<open>String(n)\<close> of an integer.\<close>

definition show_int :: "int \<Rightarrow> jstring" where
  "show_int n = (if n < 0 then lit ''-'' @ show_nat (nat (- n)) else show_nat (nat n))"

subsection \<open>Arrays, sets and sorting\<close>

fun uniq :: "'a list \<Rightarrow> 'a list" where
  "uniq [] = []"
| "uniq (x # xs) = x # filter (\<lambda>y. y \<noteq> x) (uniq xs)"

fun insert_by :: "('a \<Rightarrow> 'a \<Rightarrow> int) \<Rightarrow> 'a \<Rightarrow> 'a list \<Rightarrow> 'a list" where
  "insert_by cmp x [] = [x]"
| "insert_by cmp x (y # ys) =
     (if cmp x y \<le> 0 then x # y # ys else y # insert_by cmp x ys)"

definition js_sort :: "('a \<Rightarrow> 'a \<Rightarrow> int) \<Rightarrow> 'a list \<Rightarrow> 'a list" where
  "js_sort cmp xs = foldr (insert_by cmp) xs []"

text \<open>\<^verbatim>\<open>xs.findIndex(p)\<close>; \<open>None\<close> is the result \<^verbatim>\<open>-1\<close>.\<close>

fun find_index :: "('a \<Rightarrow> bool) \<Rightarrow> 'a list \<Rightarrow> nat option" where
  "find_index p [] = None"
| "find_index p (x # xs) = (if p x then Some 0 else map_option Suc (find_index p xs))"

text \<open>\<^verbatim>\<open>a ?? b\<close> and, for strings, \<^verbatim>\<open>a || b\<close>.\<close>

definition coalesce :: "'a option \<Rightarrow> 'a \<Rightarrow> 'a" where
  "coalesce a b = (case a of None \<Rightarrow> b | Some x \<Rightarrow> x)"

definition or_str :: "jstring \<Rightarrow> jstring \<Rightarrow> jstring" where
  "or_str a b = (if a = [] then b else a)"

definition opt_or_str :: "jstring option \<Rightarrow> jstring \<Rightarrow> jstring" where
  "opt_or_str a b = or_str (coalesce a []) b"

subsection \<open>Lemmas: literals and trimming\<close>

lemma lit_Nil [simp, js_eval]: "lit [] = []"
  by (simp add: lit_def)

lemma lit_Cons [js_eval]: "lit (c # s) = of_char c # lit s"
  by (simp add: lit_def)

lemma lit_eq_Nil [simp]: "lit s = [] \<longleftrightarrow> s = []"
  by (simp add: lit_def)

lemma length_lit [simp]: "length (lit s) = length s"
  by (simp add: lit_def)

lemma lit_append: "lit (s @ t) = lit s @ lit t"
  by (simp add: lit_def)

lemma lit_inject [simp]: "lit s = lit t \<longleftrightarrow> s = t"
  by (auto simp: lit_def inj_def intro: map_injective)

lemma trim_Nil [simp]: "trim [] = []" "trim_start [] = []" "trim_end [] = []"
  by (simp_all add: trim_def trim_start_def trim_end_def)

lemma trim_start_idem [simp]: "trim_start (trim_start s) = trim_start s"
  by (simp add: trim_start_def)

lemma trim_end_idem [simp]: "trim_end (trim_end s) = trim_end s"
  by (simp add: trim_end_def)

lemma trim_start_Cons: "\<not> is_ws c \<Longrightarrow> trim_start (c # s) = c # s"
  by (simp add: trim_start_def)

lemma trim_end_snoc: "\<not> is_ws c \<Longrightarrow> trim_end (s @ [c]) = s @ [c]"
  by (simp add: trim_end_def)

lemma trim_end_prefix: "\<exists>t. s = trim_end s @ t"
  by (metis rev_append rev_rev_ident takeWhile_dropWhile_id trim_end_def)

lemma trim_start_suffix: "\<exists>t. s = t @ trim_start s"
  by (metis takeWhile_dropWhile_id trim_start_def)

lemma trim_start_hd: "trim_start s \<noteq> [] \<Longrightarrow> \<not> is_ws (hd (trim_start s))"
  by (simp add: trim_start_def hd_dropWhile)

lemma trim_end_last: "trim_end s \<noteq> [] \<Longrightarrow> \<not> is_ws (last (trim_end s))"
  by (simp add: trim_end_def last_rev hd_dropWhile)

lemma trim_start_trim_end: "trim_start (trim_end (trim_start s)) = trim_end (trim_start s)"
proof (cases "trim_end (trim_start s)")
  case (Cons c t)
  obtain u where "trim_start s = trim_end (trim_start s) @ u"
    using trim_end_prefix by blast
  with Cons have "hd (trim_start s) = c" "trim_start s \<noteq> []"
    by auto
  then have "\<not> is_ws c" using trim_start_hd by blast
  with Cons show ?thesis by (simp add: trim_start_Cons)
qed simp

lemma trim_idem [simp]: "trim (trim s) = trim s"
  by (simp add: trim_def trim_start_trim_end)

lemma set_trim: "set (trim s) \<subseteq> set s"
  by (metis (no_types, lifting) Un_subset_iff order_refl set_append subset_trans trim_def
      trim_end_prefix trim_start_suffix)

lemma trim_id: "s \<noteq> [] \<Longrightarrow> \<not> is_ws (hd s) \<Longrightarrow> \<not> is_ws (last s) \<Longrightarrow> trim s = s"
proof -
  assume s: "s \<noteq> []" "\<not> is_ws (hd s)" "\<not> is_ws (last s)"
  from s(1,2) have "trim_start s = s" by (cases s) (simp_all add: trim_start_Cons)
  moreover from s(1,3) have "trim_end s = s"
    by (cases s rule: rev_cases) (simp_all add: trim_end_snoc)
  ultimately show ?thesis by (simp add: trim_def)
qed

lemma trim_no_ws: "\<forall>c \<in> set s. \<not> is_ws c \<Longrightarrow> trim s = s"
  by (cases "s = []") (auto intro!: trim_id)

lemma trim_hd: "trim s \<noteq> [] \<Longrightarrow> \<not> is_ws (hd (trim s))"
  by (metis trim_def trim_start_hd trim_start_trim_end)

lemma trim_last: "trim s \<noteq> [] \<Longrightarrow> \<not> is_ws (last (trim s))"
  by (simp add: trim_def trim_end_last)

subsection \<open>Lemmas: splitting and joining\<close>

lemma split_on_not_Nil [simp]: "split_on c s \<noteq> []"
  by (induction s) (auto split: list.splits)

lemma split_on_no_sep: "c \<notin> set s \<Longrightarrow> split_on c s = [s]"
  by (induction s) auto

lemma split_on_append: "c \<notin> set x \<Longrightarrow> split_on c (x @ c # s) = x # split_on c s"
  by (induction x) auto

lemma split_on_join:
  "xs \<noteq> [] \<Longrightarrow> \<forall>x \<in> set xs. c \<notin> set x \<Longrightarrow> split_on c (join [c] xs) = xs"
  by (induction "[c]" xs rule: join.induct) (auto simp: split_on_no_sep split_on_append)

lemma join_split_on: "join [c] (split_on c s) = s"
proof (induction s)
  case (Cons a s)
  then show ?case
    by (cases "split_on c s"; cases "tl (split_on c s)") (auto simp: neq_Nil_conv)
qed simp

lemma split_on_sep_free: "x \<in> set (split_on c s) \<Longrightarrow> c \<notin> set x"
  by (induction s arbitrary: x) (auto split: if_splits list.splits)

lemma split_on_set: "x \<in> set (split_on c s) \<Longrightarrow> set x \<subseteq> set s"
  by (induction s arbitrary: x) (fastforce split: if_splits list.splits)+

lemma set_join: "set (join sep xs) \<subseteq> set sep \<union> (\<Union>x \<in> set xs. set x)"
  by (induction sep xs rule: join.induct) auto

lemma join_eq_Nil: "join sep xs = [] \<Longrightarrow> x \<in> set xs \<Longrightarrow> x = []"
  by (induction sep xs rule: join.induct) auto

lemma hd_join: "x \<noteq> [] \<Longrightarrow> hd (join sep (x # xs)) = hd x"
  by (cases xs) auto

lemma last_join: "xs \<noteq> [] \<Longrightarrow> last xs \<noteq> [] \<Longrightarrow> last (join sep xs) = last (last xs)"
proof (induction sep xs rule: join.induct)
  case (3 sep x y ys)
  then have "join sep (y # ys) \<noteq> []"
    using join_eq_Nil last_in_set by (metis last_ConsR list.distinct(1))
  with 3 show ?case by simp
qed auto

subsection \<open>Lemmas: decimal numbers\<close>

lemma show_nat_not_Nil [simp]: "show_nat n \<noteq> []"
  by (subst show_nat.simps) simp

lemma show_nat_digits: "\<forall>c \<in> set (show_nat n). is_digit c"
proof (induction n rule: show_nat.induct)
  case (1 n)
  then show ?case
    by (cases "n < 10") (auto simp: show_nat.simps [of n] is_digit_def)
qed

lemma all_digits_show_nat [simp]: "all_digits (show_nat n)"
  using show_nat_digits by (auto simp: all_digits_def list_all_iff)

lemma read_nat_snoc: "read_nat (s @ [c]) = 10 * read_nat s + (c - 48)"
  by (simp add: read_nat_def)

lemma read_show_nat [simp]: "read_nat (show_nat n) = n"
proof (induction n rule: show_nat.induct)
  case (1 n)
  show ?case
  proof (cases "n < 10")
    case True
    then show ?thesis by (simp add: show_nat.simps [of n] read_nat_def)
  next
    case False
    with 1 show ?thesis by (simp add: show_nat.simps [of n] read_nat_snoc)
  qed
qed

lemma show_nat_inject [simp]: "show_nat m = show_nat n \<longleftrightarrow> m = n"
  by (metis read_show_nat)

lemma digit_not_ws: "is_digit c \<Longrightarrow> \<not> is_ws c"
  by (simp add: is_digit_def is_ws_def)

subsection \<open>Lemmas: sets as arrays\<close>

lemma set_uniq [simp]: "set (uniq xs) = set xs"
  by (induction xs) auto

lemma distinct_uniq [simp]: "distinct (uniq xs)"
  by (induction xs) auto

lemma uniq_id: "distinct xs \<Longrightarrow> uniq xs = xs"
  by (induction xs) (auto intro!: filter_True)

lemma uniq_idem [simp]: "uniq (uniq xs) = uniq xs"
  by (simp add: uniq_id)

lemma uniq_eq_Nil [simp]: "uniq xs = [] \<longleftrightarrow> xs = []"
  by (cases xs) auto

subsection \<open>Lemmas: searching\<close>

lemma find_index_None: "find_index p xs = None \<longleftrightarrow> (\<forall>x \<in> set xs. \<not> p x)"
  by (induction xs) auto

lemma find_index_Some:
  "find_index p xs = Some i \<longleftrightarrow> i < length xs \<and> p (xs ! i) \<and> (\<forall>j < i. \<not> p (xs ! j))"
proof (induction xs arbitrary: i)
  case (Cons x xs)
  then show ?case
    by (cases i) (auto simp: less_Suc_eq_0_disj)
qed simp

lemma starts_with_append [simp]: "starts_with (p @ s) p"
  by (simp add: starts_with_def)

lemma starts_with_iff: "starts_with s p \<longleftrightarrow> (\<exists>t. s = p @ t)"
  by (metis append_eq_conv_conj append_take_drop_id starts_with_def)

lemma str_includes_iff: "str_includes s p \<longleftrightarrow> (\<exists>a b. s = a @ p @ b)"
proof (induction s)
  case (Cons c s)
  have "(\<exists>a b. c # s = a @ p @ b) \<longleftrightarrow>
      (\<exists>b. c # s = p @ b) \<or> (\<exists>a b. s = a @ p @ b)"
    by (metis append_Cons append_Nil list.exhaust list.inject)
  with Cons show ?case by (simp add: starts_with_iff)
qed simp

lemma index_of_None: "index_of s p = None \<longleftrightarrow> \<not> str_includes s p"
  by (induction s) auto

lemma index_of_Some: "index_of s p = Some i \<Longrightarrow> s = take i s @ p @ drop (i + length p) s"
proof (induction s arbitrary: i)
  case (Cons c s)
  show ?case
  proof (cases "starts_with (c # s) p")
    case True
    with Cons.prems show ?thesis
      by (metis add_0 append_Nil append_take_drop_id index_of.simps(2) option.inject
          starts_with_def take0)
  next
    case False
    with Cons.prems obtain j where "i = Suc j" "index_of s p = Some j" by auto
    with Cons.IH show ?thesis by (metis add_Suc append_Cons drop_Suc_Cons take_Suc_Cons)
  qed
qed (auto split: if_splits)

lemma index_of_bound: "index_of s p = Some i \<Longrightarrow> i + length p \<le> length s"
proof (induction s arbitrary: i)
  case (Cons c s)
  then show ?case
    by (auto simp: starts_with_iff split: if_splits) (metis length_Cons length_append le_add1)
qed (auto split: if_splits)

subsection \<open>The contract of a sort comparator\<close>

lemma mset_insert_by [simp]: "mset (insert_by cmp x xs) = add_mset x (mset xs)"
  by (induction xs) auto

lemma set_insert_by [simp]: "set (insert_by cmp x xs) = insert x (set xs)"
  by (induction xs) auto

lemma mset_js_sort [simp]: "mset (js_sort cmp xs) = mset xs"
  by (induction xs) (auto simp: js_sort_def)

lemma set_js_sort [simp]: "set (js_sort cmp xs) = set xs"
  by (metis mset_js_sort set_mset_mset)

lemma length_js_sort [simp]: "length (js_sort cmp xs) = length xs"
  by (metis mset_js_sort size_mset)

lemma distinct_js_sort [simp]: "distinct (js_sort cmp xs) = distinct xs"
  by (metis mset_eq_imp_distinct_iff mset_js_sort)

lemma js_sort_Nil [simp]: "js_sort cmp [] = []"
  by (simp add: js_sort_def)

lemma js_sort_Cons: "js_sort cmp (x # xs) = insert_by cmp x (js_sort cmp xs)"
  by (simp add: js_sort_def)

text \<open>
  A comparator orders any two elements and is transitive; then the sorted array has every
  element before those that compare greater, and an array that is already sorted stays as it is.
\<close>

locale js_comparator =
  fixes cmp :: "'a \<Rightarrow> 'a \<Rightarrow> int"
  assumes cmp_total: "0 < cmp a b \<Longrightarrow> cmp b a \<le> 0"
    and cmp_trans: "cmp a b \<le> 0 \<Longrightarrow> cmp b c \<le> 0 \<Longrightarrow> cmp a c \<le> 0"
begin

lemma sorted_insert_by:
  "sorted_wrt (\<lambda>a b. cmp a b \<le> 0) xs \<Longrightarrow> sorted_wrt (\<lambda>a b. cmp a b \<le> 0) (insert_by cmp x xs)"
proof (induction xs)
  case (Cons y ys)
  show ?case
  proof (cases "cmp x y \<le> 0")
    case True
    with Cons.prems show ?thesis by (auto intro: cmp_trans)
  next
    case False
    then have "cmp y x \<le> 0" using cmp_total by force
    with False Cons show ?thesis by auto
  qed
qed simp

lemma sorted_js_sort: "sorted_wrt (\<lambda>a b. cmp a b \<le> 0) (js_sort cmp xs)"
  by (induction xs) (auto simp: js_sort_Cons sorted_insert_by)

lemma js_sort_sorted: "sorted_wrt (\<lambda>a b. cmp a b \<le> 0) xs \<Longrightarrow> js_sort cmp xs = xs"
proof (induction xs)
  case (Cons x xs)
  then show ?case by (cases xs) (auto simp: js_sort_Cons)
qed simp

lemma js_sort_idem: "js_sort cmp (js_sort cmp xs) = js_sort cmp xs"
  by (rule js_sort_sorted) (rule sorted_js_sort)

end

subsection \<open>The interface of an insertion-ordered map\<close>

text \<open>
  What the components rely on of \<^verbatim>\<open>Map\<close>: reading back a stored value, keeping the others, keys
  that occur once, and the order of first insertion.
\<close>

locale js_map =
  fixes get :: "'m \<Rightarrow> 'k \<Rightarrow> 'v option"
    and put :: "'k \<Rightarrow> 'v \<Rightarrow> 'm \<Rightarrow> 'm"
    and keys :: "'m \<Rightarrow> 'k list"
    and empty :: "'m"
  assumes get_empty: "get empty k = None"
    and keys_empty: "keys empty = []"
    and get_put: "get (put k v m) j = (if j = k then Some v else get m j)"
    and keys_put: "keys (put k v m) = (if k \<in> set (keys m) then keys m else keys m @ [k])"
    and in_keys: "k \<in> set (keys m) \<longleftrightarrow> get m k \<noteq> None"
begin

text \<open>
  Accumulating over a list of entries: each entry has a key and changes the value stored there,
  starting from a default. The keys are the distinct keys in order of first occurrence and each
  value is the fold over the entries of that key.
\<close>

definition upsert :: "('e \<Rightarrow> 'k) \<Rightarrow> ('e \<Rightarrow> 'v) \<Rightarrow> ('e \<Rightarrow> 'v \<Rightarrow> 'v) \<Rightarrow> 'e \<Rightarrow> 'm \<Rightarrow> 'm" where
  "upsert key ini upd e m = put (key e) (upd e (case get m (key e) of None \<Rightarrow> ini e | Some v \<Rightarrow> v)) m"

lemma keys_fold_upsert:
  "keys (fold (upsert key ini upd) es m) =
     keys m @ filter (\<lambda>k. k \<notin> set (keys m)) (uniq (map key es))"
proof (induction es arbitrary: m)
  case (Cons e es)
  let ?m = "upsert key ini upd e m"
  have m: "keys ?m = (if key e \<in> set (keys m) then keys m else keys m @ [key e])"
    by (simp add: upsert_def keys_put)
  show ?case
  proof (cases "key e \<in> set (keys m)")
    case True
    with Cons.IH [of ?m] m show ?thesis
      by (auto simp: filter_filter intro!: filter_cong)
  next
    case False
    with Cons.IH [of ?m] m show ?thesis
      by (auto simp: filter_filter intro!: filter_cong)
  qed
qed simp

lemma get_fold_upsert:
  assumes "get m k = Some v"
  shows "get (fold (upsert key ini upd) es m) k = Some (fold upd (filter (\<lambda>e. key e = k) es) v)"
  using assms by (induction es arbitrary: m v) (auto simp: upsert_def get_put)

lemma get_fold_upsert_new:
  assumes "get m k = None"
  shows "get (fold (upsert key ini upd) es m) k =
     (case filter (\<lambda>e. key e = k) es of [] \<Rightarrow> None | e # es' \<Rightarrow> Some (fold upd (e # es') (ini e)))"
  using assms
proof (induction es arbitrary: m)
  case (Cons e es)
  show ?case
  proof (cases "key e = k")
    case True
    with Cons.prems have "get (upsert key ini upd e m) k = Some (upd e (ini e))"
      by (simp add: upsert_def get_put)
    with True show ?thesis by (simp add: get_fold_upsert)
  next
    case False
    with Cons.prems have "get (upsert key ini upd e m) k = None"
      by (simp add: upsert_def get_put)
    with False Cons.IH show ?thesis by simp
  qed
qed simp

end

lemma fst_update: "map fst (AList.update k v m) = (if k \<in> fst ` set m then map fst m else map fst m @ [k])"
  by (induction m) auto

interpretation jmap: js_map map_of AList.update "map fst" "[]"
  by unfold_locales (auto simp: update_conv' fst_update map_of_eq_None_iff image_iff domIff)

end
