(* ===== verification/Http_Status_Rules.thy ===== *)
theory Http_Status_Rules
  imports JS_Prelude
begin

section \<open>HTTP status code rules (\<^verbatim>\<open>web/src/lib/http-status-code-rules.ts\<close>)\<close>

text \<open>
  The panel lets an operator type the status codes that disable a channel or retry a request, as
  single codes and ranges separated by commas. This theory models the parser, the merge of
  overlapping and adjacent ranges and the printer of the normal form. It shows that merging keeps
  the set of codes, that its result is the only canonical list of ranges with that set, and that
  the printed normal form parses back to itself.

  The argument \<open>None\<close> of \<open>parseHttpStatusCodeRules\<close> stands for \<^verbatim>\<open>null\<close> and \<^verbatim>\<open>undefined\<close>; every
  caller passes a string otherwise. The number 65292 is the full-width comma.
\<close>

subsection \<open>Definitions\<close>

record status_range =
  rstart :: nat
  rend :: nat

record parsed_rules =
  ok :: bool
  ranges :: "status_range list"
  tokens :: "jstring list"
  normalized :: jstring
  invalidTokens :: "jstring list"

definition isNumber :: "jstring \<Rightarrow> bool" where
  "isNumber s = all_digits s"

definition isValidCode :: "nat \<Rightarrow> bool" where
  "isValidCode code \<longleftrightarrow> 100 \<le> code \<and> code \<le> 599"

definition parseToken :: "jstring \<Rightarrow> status_range option" where
  "parseToken token =
     (let cleaned = filter (\<lambda>c. \<not> is_ws c) (trim token)
      in if cleaned = [] then None
         else if str_includes cleaned (lit ''-'') then
           (case split_on 45 cleaned of
              a # b # _ \<Rightarrow>
                if \<not> isNumber a \<or> \<not> isNumber b then None
                else if \<not> isValidCode (read_nat a) \<or> \<not> isValidCode (read_nat b)
                        \<or> read_nat a > read_nat b then None
                else Some \<lparr>rstart = read_nat a, rend = read_nat b\<rparr>
            | _ \<Rightarrow> None)
         else if \<not> isNumber cleaned then None
         else if \<not> isValidCode (read_nat cleaned) then None
         else Some \<lparr>rstart = read_nat cleaned, rend = read_nat cleaned\<rparr>)"

definition range_cmp :: "status_range \<Rightarrow> status_range \<Rightarrow> int" where
  "range_cmp a b =
     (if rstart a \<noteq> rstart b then int (rstart a) - int (rstart b)
      else int (rend a) - int (rend b))"

definition merge_step :: "status_range list \<Rightarrow> status_range \<Rightarrow> status_range list" where
  "merge_step merged current =
     (if merged = [] \<or> rstart current > rend (last merged) + 1 then merged @ [current]
      else butlast merged @ [(last merged)\<lparr>rend := max (rend (last merged)) (rend current)\<rparr>])"

definition mergeRanges :: "status_range list \<Rightarrow> status_range list" where
  "mergeRanges rs = (if rs = [] then [] else foldl merge_step [] (js_sort range_cmp rs))"

definition show_range :: "status_range \<Rightarrow> jstring" where
  "show_range r =
     (if rstart r = rend r then show_nat (rstart r)
      else show_nat (rstart r) @ lit ''-'' @ show_nat (rend r))"

definition rule_segments :: "jstring \<Rightarrow> jstring list" where
  "rule_segments raw =
     filter (\<lambda>s. s \<noteq> []) (map trim (split_on 44 (map (\<lambda>c. if c = 65292 then 44 else c) raw)))"

definition parseHttpStatusCodeRules :: "jstring option \<Rightarrow> parsed_rules" where
  "parseHttpStatusCodeRules input =
     (let raw = trim (coalesce input []) in
      if raw = [] then
        \<lparr>ok = True, ranges = [], tokens = [], normalized = [], invalidTokens = []\<rparr>
      else
        let segments = rule_segments raw;
            rs = List.map_filter parseToken segments;
            invalid = filter (\<lambda>s. parseToken s = None) segments
        in if invalid \<noteq> [] then
             \<lparr>ok = False, ranges = [], tokens = [], normalized = raw, invalidTokens = invalid\<rparr>
           else
             let merged = mergeRanges rs; toks = map show_range merged
             in \<lparr>ok = True, ranges = merged, tokens = toks, normalized = join (lit '','') toks,
                 invalidTokens = []\<rparr>)"

subsection \<open>Specification: sets of codes and canonical ranges\<close>

definition codes_of :: "status_range \<Rightarrow> nat set" where
  "codes_of r = {rstart r..rend r}"

definition codes :: "status_range list \<Rightarrow> nat set" where
  "codes rs = (\<Union>r \<in> set rs. codes_of r)"

definition proper :: "status_range \<Rightarrow> bool" where
  "proper r \<longleftrightarrow> rstart r \<le> rend r"

definition canonical :: "status_range list \<Rightarrow> bool" where
  "canonical rs \<longleftrightarrow> (\<forall>r \<in> set rs. proper r) \<and> sorted_wrt (\<lambda>a b. rend a + 1 < rstart b) rs"

definition valid_range :: "status_range \<Rightarrow> bool" where
  "valid_range r \<longleftrightarrow> isValidCode (rstart r) \<and> isValidCode (rend r) \<and> proper r"

interpretation range_order: js_comparator range_cmp
  by unfold_locales (auto simp: range_cmp_def split: if_splits)

subsection \<open>Merging\<close>

lemma codes_simps [simp]:
  "codes [] = {}" "codes (r # rs) = codes_of r \<union> codes rs" "codes (xs @ ys) = codes xs \<union> codes ys"
  by (auto simp: codes_def)

lemma canonical_Nil [simp]: "canonical []"
  by (simp add: canonical_def)

lemma canonical_Cons: "canonical (r # rs) \<longleftrightarrow>
    proper r \<and> (\<forall>x \<in> set rs. rend r + 1 < rstart x) \<and> canonical rs"
  by (auto simp: canonical_def)

lemma canonical_snoc: "canonical (xs @ [r]) \<longleftrightarrow>
    canonical xs \<and> proper r \<and> (\<forall>x \<in> set xs. rend x + 1 < rstart r)"
  by (auto simp: canonical_def sorted_wrt_append)

lemma sorted_by_start: "sorted_wrt (\<lambda>a b. rstart a \<le> rstart b) (js_sort range_cmp rs)"
  by (rule sorted_wrt_mono_rel [OF _ range_order.sorted_js_sort])
     (auto simp: range_cmp_def split: if_splits)

lemma merge_step_canonical:
  assumes "canonical acc" "proper c" "acc \<noteq> [] \<Longrightarrow> rstart (last acc) \<le> rstart c"
  shows "canonical (merge_step acc c)"
    and "codes (merge_step acc c) = codes acc \<union> codes_of c"
    and "merge_step acc c \<noteq> []" "rstart (last (merge_step acc c)) \<le> rstart c"
proof (atomize (full), cases acc rule: rev_cases)
  case Nil
  with assms show "canonical (merge_step acc c) \<and> codes (merge_step acc c) = codes acc \<union> codes_of c
      \<and> merge_step acc c \<noteq> [] \<and> rstart (last (merge_step acc c)) \<le> rstart c"
    by (simp add: merge_step_def canonical_Cons)
next
  case (snoc xs l)
  with assms(1) have xs: "canonical xs" "proper l" "\<forall>x \<in> set xs. rend x + 1 < rstart l"
    by (simp_all add: canonical_snoc)
  from assms(3) snoc have le: "rstart l \<le> rstart c" by simp
  have "\<forall>x \<in> set xs. rend x + 1 < rstart c" using xs(3) le by fastforce
  with xs le assms(2) snoc show "canonical (merge_step acc c)
      \<and> codes (merge_step acc c) = codes acc \<union> codes_of c
      \<and> merge_step acc c \<noteq> [] \<and> rstart (last (merge_step acc c)) \<le> rstart c"
    by (auto simp: merge_step_def canonical_def sorted_wrt_append proper_def codes_of_def)
qed

lemma merge_fold:
  assumes "canonical acc" "\<forall>c \<in> set cs. proper c" "sorted_wrt (\<lambda>a b. rstart a \<le> rstart b) cs"
    and "acc \<noteq> [] \<Longrightarrow> \<forall>c \<in> set cs. rstart (last acc) \<le> rstart c"
  shows "canonical (foldl merge_step acc cs) \<and> codes (foldl merge_step acc cs) = codes acc \<union> codes cs"
  using assms
proof (induction cs arbitrary: acc)
  case (Cons c cs)
  note step = merge_step_canonical [of acc c]
  have "canonical (foldl merge_step (merge_step acc c) cs)
      \<and> codes (foldl merge_step (merge_step acc c) cs) = codes (merge_step acc c) \<union> codes cs"
    using Cons.prems step by (intro Cons.IH) force+
  with step Cons.prems show ?case by auto
qed simp

lemma mergeRanges_fold:
  assumes "\<forall>r \<in> set rs. proper r"
  shows "canonical (mergeRanges rs) \<and> codes (mergeRanges rs) = codes rs"
  using merge_fold [of "[]" "js_sort range_cmp rs"] assms sorted_by_start [of rs]
  by (auto simp: mergeRanges_def codes_def)

lemma canonical_head:
  assumes "canonical (x # xs)"
  shows "codes_of x \<subseteq> codes (x # xs)" "rend x + 1 \<notin> codes (x # xs)"
    and "rstart x \<in> codes (x # xs)" "n \<in> codes (x # xs) \<Longrightarrow> rstart x \<le> n"
    and "codes xs = codes (x # xs) - codes_of x"
proof -
  from assms have x: "proper x" and xs: "\<forall>y \<in> set xs. rend x + 1 < rstart y"
    by (auto simp: canonical_Cons)
  then show "codes_of x \<subseteq> codes (x # xs)" "rstart x \<in> codes (x # xs)"
    by (auto simp: codes_of_def proper_def)
  from xs have later: "m \<in> codes xs \<Longrightarrow> rend x + 1 < m" for m
    by (force simp: codes_def codes_of_def)
  then show "rend x + 1 \<notin> codes (x # xs)" by (auto simp: codes_of_def)
  show "rstart x \<le> n" if "n \<in> codes (x # xs)"
    using that later [of n] x by (auto simp: codes_of_def proper_def)
  show "codes xs = codes (x # xs) - codes_of x"
    using later by (force simp: codes_of_def)
qed

lemma canonical_unique:
  assumes "canonical xs" "canonical ys" "codes xs = codes ys"
  shows "xs = ys"
  using assms
proof (induction xs arbitrary: ys)
  case Nil
  then show ?case using canonical_head(3) by (cases ys) fastforce+
next
  case (Cons x xs)
  then obtain y ys' where ys: "ys = y # ys'"
    using canonical_head(3) by (cases ys) fastforce+
  note hx = canonical_head [OF Cons.prems(1)]
  have cy: "canonical (y # ys')" using Cons.prems(2) ys by simp
  note hy = canonical_head [OF cy]
  have eq: "codes (x # xs) = codes (y # ys')" using Cons.prems(3) ys by simp
  have st: "rstart x = rstart y"
    using hx(3,4) hy(3,4) eq by (metis le_antisym)
  have ends: "rend a < rend b \<Longrightarrow> rstart a = rstart b \<Longrightarrow> canonical (a # as) \<Longrightarrow>
      rend a + 1 \<in> codes_of b" for a b as
    by (auto simp: codes_of_def canonical_Cons proper_def)
  have "\<not> rend x < rend y"
    using ends [of x y] Cons.prems(1) st hx(2) hy(1) eq by auto
  moreover have "\<not> rend y < rend x"
    using ends [of y x] cy st hy(2) hx(1) eq by auto
  ultimately have "x = y" using st by simp
  moreover from this have "codes xs = codes ys'" using hx(5) hy(5) eq by simp
  with Cons.IH Cons.prems cy have "xs = ys'" by (auto simp: canonical_Cons)
  ultimately show ?case using ys by simp
qed

subsection \<open>Printing and parsing tokens\<close>

lemma isNumber_show_nat [simp]: "isNumber (show_nat n)"
  by (simp add: isNumber_def)

lemma digits_clean:
  assumes "\<forall>c \<in> set s. is_digit c \<or> c = 45"
  shows "trim s = s" "filter (\<lambda>c. \<not> is_ws c) s = s" "44 \<notin> set s"
    "map (\<lambda>c. if c = 65292 then 44 else c) s = s"
  using assms digit_not_ws
  by (auto intro!: trim_no_ws map_idI simp: filter_id_conv is_digit_def is_ws_def)

lemma show_range_chars: "\<forall>c \<in> set (show_range r). is_digit c \<or> c = 45"
  using show_nat_digits by (auto simp: show_range_def lit_def)

lemma show_range_not_Nil [simp]: "show_range r \<noteq> []"
  by (simp add: show_range_def)

lemma digits_no_minus: "45 \<notin> set (show_nat n)"
  using show_nat_digits by (fastforce simp: is_digit_def)

lemma includes_minus: "str_includes s [45] \<longleftrightarrow> 45 \<in> set s"
  by (auto simp: str_includes_iff in_set_conv_decomp)

lemma parseToken_show_range:
  assumes "valid_range r"
  shows "parseToken (show_range r) = Some r"
proof -
  note clean = digits_clean [OF show_range_chars, of r]
  show ?thesis
  proof (cases "rstart r = rend r")
    case True
    with assms clean digits_no_minus [of "rend r"] show ?thesis
      by (cases r) (auto simp: parseToken_def show_range_def includes_minus lit_def valid_range_def)
  next
    case False
    have "split_on 45 (show_nat (rstart r) @ 45 # show_nat (rend r)) =
        [show_nat (rstart r), show_nat (rend r)]"
      by (simp add: split_on_append split_on_no_sep digits_no_minus)
    with False assms clean show ?thesis
      by (cases r)
        (auto simp: parseToken_def show_range_def includes_minus lit_def valid_range_def proper_def
          Let_def)
  qed
qed

lemma parseToken_valid: "parseToken t = Some r \<Longrightarrow> valid_range r"
  by (auto simp: parseToken_def valid_range_def proper_def Let_def split: if_splits list.splits)

lemma rule_segments_join:
  "rule_segments (join (lit '','') (map show_range rs)) = map show_range rs"
proof (cases "rs = []")
  case False
  let ?ts = "map show_range rs"
  have chars: "\<forall>t \<in> set ?ts. \<forall>c \<in> set t. is_digit c \<or> c = 45"
    using show_range_chars by auto
  have "c \<in> set (join (lit '','') ?ts) \<Longrightarrow> c \<noteq> 65292" for c
    using set_join [of "lit '',''" ?ts] chars by (fastforce simp: lit_def is_digit_def)
  then have "map (\<lambda>c. if c = 65292 then 44 else c) (join (lit '','') ?ts) = join (lit '','') ?ts"
    by (intro map_idI) auto
  moreover have "split_on 44 (join (lit '','') ?ts) = ?ts"
    using False digits_clean(3) [OF show_range_chars]
    by (simp add: lit_def split_on_join)
  moreover have "map trim ?ts = ?ts"
    using digits_clean(1) [OF show_range_chars] by simp
  ultimately show ?thesis by (auto simp: rule_segments_def)
qed (simp add: rule_segments_def)

lemma map_filter_parse_show:
  "\<forall>r \<in> set rs. valid_range r \<Longrightarrow> List.map_filter parseToken (map show_range rs) = rs"
  by (induction rs) (auto simp: parseToken_show_range List.map_filter_def)

lemma merged_valid:
  assumes "\<forall>r \<in> set rs. valid_range r"
  shows "\<forall>r \<in> set (mergeRanges rs). valid_range r"
proof
  fix r assume r: "r \<in> set (mergeRanges rs)"
  have m: "canonical (mergeRanges rs)" "codes (mergeRanges rs) = codes rs"
    using mergeRanges_fold [of rs] assms by (auto simp: valid_range_def)
  with r have pr: "proper r" by (auto simp: canonical_def)
  have "codes_of r \<subseteq> codes rs"
    using r m(2) by (auto simp: codes_def)
  with pr have "rstart r \<in> codes rs" "rend r \<in> codes rs"
    by (auto simp: codes_of_def proper_def)
  with assms pr show "valid_range r"
    by (force simp: codes_def codes_of_def valid_range_def isValidCode_def)
qed

lemma parsed_ranges_valid:
  "\<forall>r \<in> set (List.map_filter parseToken segs). valid_range r"
  by (auto simp: List.map_filter_def dest: parseToken_valid)

lemma join_tokens_trim: "trim (join (lit '','') (map show_range rs)) = join (lit '','') (map show_range rs)"
proof (cases rs)
  case (Cons r rs')
  let ?ts = "map show_range rs"
  have ne: "join (lit '','') ?ts \<noteq> []"
    using join_eq_Nil [of "lit '',''" ?ts "show_range r"] Cons by auto
  have nws: "\<not> is_ws c" if "c \<in> set (show_range x)" for c x
    using that show_range_chars [of x] digit_not_ws [of c] by (auto simp: is_ws_def [of 45])
  have "hd (join (lit '','') ?ts) \<in> set (show_range r)"
    using Cons by (simp add: hd_join)
  moreover have "last (join (lit '','') ?ts) \<in> set (show_range (last rs))"
    using Cons last_join [of ?ts "lit '',''"] by (simp add: last_map)
  ultimately show ?thesis using ne nws by (intro trim_id) auto
qed simp

lemmas rules_defs = parseHttpStatusCodeRules_def Let_def

lemma ok_iff: "ok (parseHttpStatusCodeRules input) \<longleftrightarrow>
    filter (\<lambda>s. parseToken s = None) (rule_segments (trim (coalesce input []))) = []"
  by (simp add: rules_defs rule_segments_def)

lemma ok_fields:
  assumes "ok (parseHttpStatusCodeRules input)"
  shows "ranges (parseHttpStatusCodeRules input) =
      mergeRanges (List.map_filter parseToken (rule_segments (trim (coalesce input []))))"
    and "parseHttpStatusCodeRules input =
      (let m = ranges (parseHttpStatusCodeRules input); t = map show_range m in
       \<lparr>ok = True, ranges = m, tokens = t, normalized = join (lit '','') t, invalidTokens = []\<rparr>)"
  using assms by (auto simp: rules_defs rule_segments_def mergeRanges_def split: if_splits)

lemma codes_map_filter:
  "codes (List.map_filter parseToken segs) =
     (\<Union>{codes_of r | r s. s \<in> set segs \<and> parseToken s = Some r})"
  by (force simp: codes_def List.map_filter_def)

lemma parse_print:
  assumes "canonical rs" "\<forall>r \<in> set rs. valid_range r"
  shows "parseHttpStatusCodeRules (Some (join (lit '','') (map show_range rs))) =
    \<lparr>ok = True, ranges = rs, tokens = map show_range rs,
     normalized = join (lit '','') (map show_range rs), invalidTokens = []\<rparr>"
proof -
  let ?s = "join (lit '','') (map show_range rs)"
  have "mergeRanges rs = rs"
    using mergeRanges_fold [of rs] assms by (intro canonical_unique) (auto simp: canonical_def)
  moreover have "filter (\<lambda>s. parseToken s = None) (map show_range rs) = []"
    using assms(2) by (auto simp: filter_empty_conv parseToken_show_range)
  moreover have "?s = [] \<Longrightarrow> rs = []"
    using join_eq_Nil [of "lit '',''" "map show_range rs" "show_range (hd rs)"] by (cases rs) auto
  ultimately show ?thesis
    using assms(2)
    by (auto simp: rules_defs coalesce_def join_tokens_trim rule_segments_join
        map_filter_parse_show)
qed

subsection \<open>Properties\<close>

text \<open>
  C19. Merging status code ranges keeps exactly the set of codes, and its result is the unique
  list of sorted, disjoint ranges that do not touch each other with that set of codes.
\<close>

theorem mergeRanges_normal_form:
  assumes "\<forall>r \<in> set rs. proper r"
  shows "canonical (mergeRanges rs) \<and> codes (mergeRanges rs) = codes rs
    \<and> (\<forall>ys. canonical ys \<and> codes ys = codes rs \<longrightarrow> ys = mergeRanges rs)"
  using mergeRanges_fold [OF assms] canonical_unique by metis

theorem mergeRanges_normal_form_witness:
  "mergeRanges [\<lparr>rstart = 500, rend = 503\<rparr>, \<lparr>rstart = 400, rend = 404\<rparr>, \<lparr>rstart = 504, rend = 504\<rparr>]
     = [\<lparr>rstart = 400, rend = 404\<rparr>, \<lparr>rstart = 500, rend = 504\<rparr>]
   \<and> canonical (mergeRanges [\<lparr>rstart = 500, rend = 503\<rparr>, \<lparr>rstart = 400, rend = 404\<rparr>])"
  using mergeRanges_normal_form [of "[\<lparr>rstart = 500, rend = 503\<rparr>, \<lparr>rstart = 400, rend = 404\<rparr>]"]
  by (simp add: proper_def mergeRanges_def js_sort_def range_cmp_def merge_step_def)

text \<open>
  C20. The normal form round-trips: parsing the printed normal form of accepted rules gives the
  same ranges, tokens and normal form again, so saving and reloading the rules changes nothing.
\<close>

theorem parseHttpStatusCodeRules_roundtrip:
  assumes "ok (parseHttpStatusCodeRules input)"
  shows "parseHttpStatusCodeRules (Some (normalized (parseHttpStatusCodeRules input))) =
    parseHttpStatusCodeRules input"
proof -
  let ?rs = "ranges (parseHttpStatusCodeRules input)"
  let ?parsed = "List.map_filter parseToken (rule_segments (trim (coalesce input [])))"
  have valid: "\<forall>r \<in> set ?parsed. valid_range r" by (rule parsed_ranges_valid)
  then have "canonical ?rs" "\<forall>r \<in> set ?rs. valid_range r"
    using mergeRanges_fold [of ?parsed] merged_valid [OF valid] ok_fields(1) [OF assms]
    by (auto simp: valid_range_def)
  from parse_print [OF this] ok_fields(2) [OF assms] show ?thesis
    by (metis (no_types, lifting) parsed_rules.select_convs(4))
qed

theorem parseHttpStatusCodeRules_roundtrip_witness:
  "normalized (parseHttpStatusCodeRules (Some (lit '' 404, 400-402,403 ''))) = lit ''400-404''
   \<and> parseHttpStatusCodeRules (Some (normalized (parseHttpStatusCodeRules (Some (lit '' 404, 400-402,403 '')))))
     = parseHttpStatusCodeRules (Some (lit '' 404, 400-402,403 ''))"
proof -
  have n: "normalized (parseHttpStatusCodeRules (Some (lit '' 404, 400-402,403 ''))) = lit ''400-404''"
    and o: "ok (parseHttpStatusCodeRules (Some (lit '' 404, 400-402,403 '')))"
    by code_simp+
  from n parseHttpStatusCodeRules_roundtrip [OF o] show ?thesis by simp
qed

text \<open>
  C21. Outcome of parsing: the input is accepted exactly when every segment is a valid token; a
  rejected input reports exactly the invalid segments and no range; an accepted one yields
  exactly the union of the codes of its tokens, and never a code outside 100 to 599.
\<close>

theorem parseHttpStatusCodeRules_outcome:
  fixes input :: "jstring option"
  defines "p \<equiv> parseHttpStatusCodeRules input"
    and "segs \<equiv> rule_segments (trim (coalesce input []))"
  shows "(ok p \<longleftrightarrow> (\<forall>s \<in> set segs. parseToken s \<noteq> None))
    \<and> invalidTokens p = filter (\<lambda>s. parseToken s = None) segs
    \<and> (\<not> ok p \<longrightarrow> ranges p = [])
    \<and> (ok p \<longrightarrow> codes (ranges p) = \<Union>{codes_of r | r s. s \<in> set segs \<and> parseToken s = Some r})
    \<and> codes (ranges p) \<subseteq> {100..599}"
proof (intro conjI impI)
  show "ok p \<longleftrightarrow> (\<forall>s \<in> set segs. parseToken s \<noteq> None)"
    by (simp add: p_def segs_def ok_iff filter_empty_conv)
  show "invalidTokens p = filter (\<lambda>s. parseToken s = None) segs"
    by (simp add: p_def segs_def rules_defs rule_segments_def)
  show "ranges p = []" if "\<not> ok p"
    using that by (auto simp: p_def rules_defs split: if_splits)
  let ?parsed = "List.map_filter parseToken segs"
  have valid: "\<forall>r \<in> set ?parsed. valid_range r" by (rule parsed_ranges_valid)
  have m: "codes (mergeRanges ?parsed) = codes ?parsed"
    using mergeRanges_fold [of ?parsed] valid by (auto simp: valid_range_def)
  show eq: "codes (ranges p) = \<Union>{codes_of r | r s. s \<in> set segs \<and> parseToken s = Some r}" if "ok p"
    using that m ok_fields(1) [of input] by (simp add: p_def segs_def codes_map_filter)
  have "codes ?parsed \<subseteq> {100..599}"
    using valid by (fastforce simp: codes_def codes_of_def valid_range_def isValidCode_def)
  then show "codes (ranges p) \<subseteq> {100..599}"
    using \<open>\<not> ok p \<Longrightarrow> ranges p = []\<close> eq by (cases "ok p") (auto simp: codes_map_filter)
qed

theorem parseHttpStatusCodeRules_outcome_witness:
  "\<not> ok (parseHttpStatusCodeRules (Some (lit ''404,abc'')))
   \<and> ranges (parseHttpStatusCodeRules (Some (lit ''404,abc''))) = []
   \<and> codes (ranges (parseHttpStatusCodeRules (Some (lit ''429'')))) =
       \<Union>{codes_of r | r s. s \<in> set (rule_segments (trim (coalesce (Some (lit ''429'')) [])))
            \<and> parseToken s = Some r}"
proof -
  have "\<not> ok (parseHttpStatusCodeRules (Some (lit ''404,abc'')))"
    and "ok (parseHttpStatusCodeRules (Some (lit ''429'')))"
    by code_simp+
  then show ?thesis
    using parseHttpStatusCodeRules_outcome [of "Some (lit ''404,abc'')"]
      parseHttpStatusCodeRules_outcome [of "Some (lit ''429'')"] by blast
qed

text \<open>
  A token with more than two parts is read by its first two parts only: the third part is
  dropped and the token is accepted.
\<close>

lemma parseToken_drops_third_part:
  "parseToken (lit ''200-299-404'') = Some \<lparr>rstart = 200, rend = 299\<rparr>"
  by code_simp

end
