(* ===== verification/JS_Value.thy ===== *)
theory JS_Value
  imports JS_Prelude
begin

section \<open>Values of unknown type\<close>

text \<open>
  Values that the program receives from outside (a parsed response body, a cross-tab message) and
  checks at run time before it uses them. Numbers are exact: \<open>Fin q\<close> is a finite number, and the
  four special values of the language are kept apart, since the checks of the program distinguish
  them. An object is the list of its own enumerable properties; \<open>get_prop\<close> reads one of them. The
  property names that the modelled checks read are not names of array methods, so that reading
  them from an array gives \<^verbatim>\<open>undefined\<close>.
\<close>

datatype jnum = NaN | Infinity | NegInfinity | NegZero | Fin rat

datatype jsval =
    Undefined
  | Null
  | JBool bool
  | JNum jnum
  | JStr jstring
  | JArr "jsval list"
  | JObj "(jstring \<times> jsval) list"

text \<open>The finite value of a number, if it has one.\<close>

fun num_val :: "jnum \<Rightarrow> rat option" where
  "num_val (Fin q) = Some q"
| "num_val NegZero = Some 0"
| "num_val _ = None"

definition num_isFinite :: "jnum \<Rightarrow> bool" where
  "num_isFinite n \<longleftrightarrow> num_val n \<noteq> None"

text \<open>\<^verbatim>\<open>a < b\<close> on numbers: false as soon as one of them is NaN.\<close>

fun num_less :: "jnum \<Rightarrow> jnum \<Rightarrow> bool" where
  "num_less NaN b = False"
| "num_less a NaN = False"
| "num_less Infinity b = False"
| "num_less a Infinity = True"
| "num_less a NegInfinity = False"
| "num_less NegInfinity b = True"
| "num_less a b = (the (num_val a) < the (num_val b))"

definition num_less_eq :: "jnum \<Rightarrow> jnum \<Rightarrow> bool" where
  "num_less_eq a b \<longleftrightarrow> a \<noteq> NaN \<and> b \<noteq> NaN \<and> \<not> num_less b a"

definition num_truthy :: "jnum \<Rightarrow> bool" where
  "num_truthy n \<longleftrightarrow> n \<noteq> NaN \<and> num_val n \<noteq> Some 0"

definition num_isInteger :: "jnum \<Rightarrow> bool" where
  "num_isInteger n = (case num_val n of None \<Rightarrow> False | Some q \<Rightarrow> q = of_int \<lfloor>q\<rfloor>)"

definition of_int_num :: "int \<Rightarrow> jnum" where
  "of_int_num i = Fin (of_int i)"

text \<open>\<^verbatim>\<open>Boolean(v)\<close>\<close>

fun truthy :: "jsval \<Rightarrow> bool" where
  "truthy Undefined = False"
| "truthy Null = False"
| "truthy (JBool b) = b"
| "truthy (JNum n) = num_truthy n"
| "truthy (JStr s) = (s \<noteq> [])"
| "truthy _ = True"

fun typeof_object :: "jsval \<Rightarrow> bool" where
  "typeof_object Null = True"
| "typeof_object (JArr _) = True"
| "typeof_object (JObj _) = True"
| "typeof_object _ = False"

fun get_prop :: "jsval \<Rightarrow> jstring \<Rightarrow> jsval" where
  "get_prop (JObj ps) k = (case map_of ps k of None \<Rightarrow> Undefined | Some v \<Rightarrow> v)"
| "get_prop _ k = Undefined"

fun as_str :: "jsval \<Rightarrow> jstring option" where
  "as_str (JStr s) = Some s"
| "as_str _ = None"

fun as_num :: "jsval \<Rightarrow> jnum option" where
  "as_num (JNum n) = Some n"
| "as_num _ = None"

fun as_bool :: "jsval \<Rightarrow> bool option" where
  "as_bool (JBool b) = Some b"
| "as_bool _ = None"

definition is_nullish :: "jsval \<Rightarrow> bool" where
  "is_nullish v \<longleftrightarrow> v = Undefined \<or> v = Null"

lemma num_less_irrefl [simp]: "\<not> num_less a a"
  by (cases a) auto

lemma num_less_Fin [simp]: "num_less (Fin a) (Fin b) \<longleftrightarrow> a < b"
  by simp

lemma num_less_eq_Fin [simp]: "num_less_eq (Fin a) (Fin b) \<longleftrightarrow> a \<le> b"
  by (auto simp: num_less_eq_def)

lemma num_less_trans: "num_less a b \<Longrightarrow> num_less b c \<Longrightarrow> num_less a c"
  by (cases a; cases b; cases c) auto

lemma num_less_le_trans: "num_less a b \<Longrightarrow> num_less_eq b c \<Longrightarrow> num_less a c"
  by (cases a; cases b; cases c) (auto simp: num_less_eq_def)

lemma num_le_not_less: "num_less a b \<Longrightarrow> \<not> num_less_eq b a"
  by (cases a; cases b) (auto simp: num_less_eq_def)

lemma num_less_truthy: "num_less (of_int_num i) n \<Longrightarrow> 0 \<le> i \<Longrightarrow> num_truthy n"
  by (cases n) (auto simp: of_int_num_def num_truthy_def)

end
