(* ===== verification/Auth_Session.thy ===== *)
theory Auth_Session
  imports JS_Value
begin

section \<open>Authentication state of a browser tab\<close>

text \<open>
  The authentication store (\<^verbatim>\<open>web/src/stores/auth-store.ts\<close>), the run-time checks of
  authentication payloads and the operations that change the store
  (\<^verbatim>\<open>web/src/lib/auth-session.ts\<close>), and the cross-tab events
  (\<^verbatim>\<open>web/src/lib/auth-session-sync.ts\<close>, with the listener of \<^verbatim>\<open>web/src/routes/__root.tsx\<close>).

  The state of a tab is the store, the module variable \<^verbatim>\<open>authEpoch\<close> and the list of the events
  it has published. A check returns the checked value, \<open>None\<close> when it fails; the fields of a user
  object beyond the checked ones are the property list \<open>other_fields\<close>. The random source and
  nonce of an event and the clock are arguments.
\<close>

subsection \<open>Data\<close>

datatype bootstrap_state = Idle | Checking | Complete

record login_session =
  sid :: jstring
  current :: bool
  login_method :: jstring
  ip :: jstring
  user_agent :: jstring
  created_at :: jnum
  last_active_at :: jnum
  expires_at :: jnum

record auth_user =
  user_id :: jnum
  username :: jstring
  role :: jnum
  other_fields :: "(jstring \<times> jsval) list"

record auth_bundle =
  access_token :: jstring
  token_type :: jstring
  access_expires_at :: jnum
  bundle_user :: auth_user
  bundle_session :: login_session

record auth_state =
  user :: "auth_user option"
  accessToken :: "jstring option"
  accessExpiresAt :: "jnum option"
  session :: "login_session option"
  pending2FAFlowToken :: "jstring option"
  bootstrapState :: bootstrap_state

datatype sync_kind = Authenticated_event | Signed_out_event

record tab =
  auth :: auth_state
  authEpoch :: nat
  published :: "(sync_kind \<times> jstring) list"

subsection \<open>The store\<close>

definition initial_auth :: auth_state where
  "initial_auth = \<lparr>user = None, accessToken = None, accessExpiresAt = None, session = None,
     pending2FAFlowToken = None, bootstrapState = Idle\<rparr>"

definition setBundle :: "auth_bundle \<Rightarrow> auth_state \<Rightarrow> auth_state" where
  "setBundle b st = st\<lparr>user := Some (bundle_user b), accessToken := Some (access_token b),
     accessExpiresAt := Some (access_expires_at b), session := Some (bundle_session b),
     pending2FAFlowToken := None, bootstrapState := Complete\<rparr>"

definition setUser :: "auth_user option \<Rightarrow> auth_state \<Rightarrow> auth_state" where
  "setUser u st = st\<lparr>user := u\<rparr>"

definition setPending2FAFlowToken :: "jstring option \<Rightarrow> auth_state \<Rightarrow> auth_state" where
  "setPending2FAFlowToken t st = st\<lparr>pending2FAFlowToken := t\<rparr>"

definition setBootstrapState :: "bootstrap_state \<Rightarrow> auth_state \<Rightarrow> auth_state" where
  "setBootstrapState b st = st\<lparr>bootstrapState := b\<rparr>"

definition reset :: "bootstrap_state \<Rightarrow> auth_state \<Rightarrow> auth_state" where
  "reset b st = st\<lparr>user := None, accessToken := None, accessExpiresAt := None, session := None,
     pending2FAFlowToken := None, bootstrapState := b\<rparr>"

subsection \<open>Checks of received values\<close>

definition isRecord :: "jsval \<Rightarrow> bool" where
  "isRecord v \<longleftrightarrow> truthy v \<and> typeof_object v"

fun properties :: "jsval \<Rightarrow> (jstring \<times> jsval) list" where
  "properties (JObj ps) = ps"
| "properties _ = []"

definition isAuthUser :: "jsval \<Rightarrow> auth_user option" where
  "isAuthUser v =
     (if \<not> isRecord v then None
      else case (as_num (get_prop v (lit ''id'')), as_str (get_prop v (lit ''username'')),
                 as_num (get_prop v (lit ''role''))) of
        (Some i, Some u, Some r) \<Rightarrow>
          if num_isInteger i \<and> num_less (Fin 0) i
          then Some \<lparr>user_id = i, username = u, role = r, other_fields = properties v\<rparr> else None
      | _ \<Rightarrow> None)"

definition isLoginSession :: "jsval \<Rightarrow> login_session option" where
  "isLoginSession v =
     (if \<not> isRecord v then None
      else case (as_str (get_prop v (lit ''sid'')), as_bool (get_prop v (lit ''current'')),
                 as_str (get_prop v (lit ''login_method'')), as_str (get_prop v (lit ''ip'')),
                 as_str (get_prop v (lit ''user_agent'')), as_num (get_prop v (lit ''created_at'')),
                 as_num (get_prop v (lit ''last_active_at'')), as_num (get_prop v (lit ''expires_at''))) of
        (Some s, Some c, Some m, Some i, Some a, Some cr, Some la, Some ex) \<Rightarrow>
          if s \<noteq> [] then Some \<lparr>sid = s, current = c, login_method = m, ip = i, user_agent = a,
            created_at = cr, last_active_at = la, expires_at = ex\<rparr> else None
      | _ \<Rightarrow> None)"

definition hasValidTokenFields :: "jsval \<Rightarrow> (jstring \<times> jstring \<times> jnum) option" where
  "hasValidTokenFields v =
     (case (as_str (get_prop v (lit ''access_token'')), as_str (get_prop v (lit ''token_type'')),
            as_num (get_prop v (lit ''access_expires_at''))) of
        (Some a, Some t, Some e) \<Rightarrow>
          if a \<noteq> [] \<and> t \<noteq> [] \<and> num_isFinite e \<and> num_less (Fin 0) e then Some (a, t, e) else None
      | _ \<Rightarrow> None)"

definition isAuthBundle :: "jsval \<Rightarrow> auth_bundle option" where
  "isAuthBundle v =
     (if \<not> isRecord v then None
      else case (hasValidTokenFields v, isAuthUser (get_prop v (lit ''user'')),
                 isLoginSession (get_prop v (lit ''session''))) of
        (Some (a, t, e), Some u, Some s) \<Rightarrow>
          Some \<lparr>access_token = a, token_type = t, access_expires_at = e,
            bundle_user = u, bundle_session = s\<rparr>
      | _ \<Rightarrow> None)"

record auth_token_rotation =
  rot_access_token :: jstring
  rot_token_type :: jstring
  rot_access_expires_at :: jnum
  rot_session :: login_session

definition isAuthTokenRotation :: "jsval \<Rightarrow> auth_token_rotation option" where
  "isAuthTokenRotation v =
     (if \<not> isRecord v then None
      else case (hasValidTokenFields v, isLoginSession (get_prop v (lit ''session''))) of
        (Some (a, t, e), Some s) \<Rightarrow>
          if t = lit ''Bearer'' \<and> current s
          then Some \<lparr>rot_access_token = a, rot_token_type = t, rot_access_expires_at = e,
            rot_session = s\<rparr> else None
      | _ \<Rightarrow> None)"

subsection \<open>Publishing and applying changes\<close>

definition currentSID :: "tab \<Rightarrow> jstring option" where
  "currentSID w = map_option sid (session (auth w))"

text \<open>An event with an empty session identifier is not published.\<close>

definition publish :: "sync_kind \<Rightarrow> jstring \<Rightarrow> tab \<Rightarrow> tab" where
  "publish k s w = (if s = [] then w else w\<lparr>published := published w @ [(k, s)]\<rparr>)"

definition applyAuthBundle :: "auth_bundle \<Rightarrow> bool \<Rightarrow> tab \<Rightarrow> tab" where
  "applyAuthBundle b synchronizeTabs w =
     (let previousSID = currentSID w;
          w1 = w\<lparr>authEpoch := authEpoch w + 1, auth := setBundle b (auth w)\<rparr>
      in if synchronizeTabs \<and> previousSID \<noteq> Some (sid (bundle_session b))
         then publish Authenticated_event (sid (bundle_session b)) w1 else w1)"

datatype rotation_error = Invalid_rotation | No_active_session | Session_mismatch

definition applyAuthRotation :: "jsval \<Rightarrow> tab \<Rightarrow> rotation_error + tab" where
  "applyAuthRotation v w =
     (case isAuthTokenRotation v of
        None \<Rightarrow> Inl Invalid_rotation
      | Some r \<Rightarrow>
          (case (user (auth w), session (auth w)) of
             (Some u, Some s) \<Rightarrow>
               if sid (rot_session r) \<noteq> sid s then Inl Session_mismatch
               else Inr (applyAuthBundle
                 \<lparr>access_token = rot_access_token r, token_type = rot_token_type r,
                  access_expires_at = rot_access_expires_at r, bundle_user = u,
                  bundle_session = rot_session r\<rparr> False w)
           | _ \<Rightarrow> Inl No_active_session))"

definition clearAuthentication :: "bool \<Rightarrow> bootstrap_state \<Rightarrow> tab \<Rightarrow> tab" where
  "clearAuthentication synchronizeTabs b w =
     (let s = currentSID w;
          w1 = w\<lparr>authEpoch := authEpoch w + 1, auth := reset b (auth w)\<rparr>
      in case s of
           Some x \<Rightarrow> if synchronizeTabs \<and> x \<noteq> [] then publish Signed_out_event x w1 else w1
         | None \<Rightarrow> w1)"

subsection \<open>Cross-tab events\<close>

record sync_event =
  ev_kind :: sync_kind
  ev_sid :: jstring
  ev_source :: jstring
  ev_nonce :: jstring
  ev_timestamp :: jnum

definition isAuthSessionSyncEvent :: "jsval \<Rightarrow> sync_event option" where
  "isAuthSessionSyncEvent v =
     (if \<not> truthy v \<or> \<not> typeof_object v then None
      else case (as_str (get_prop v (lit ''kind'')), as_str (get_prop v (lit ''sid'')),
                 as_str (get_prop v (lit ''source'')), as_str (get_prop v (lit ''nonce'')),
                 as_num (get_prop v (lit ''timestamp''))) of
        (Some k, Some s, Some src, Some n, Some t) \<Rightarrow>
          if (k = lit ''authenticated'' \<or> k = lit ''signed_out'') \<and> s \<noteq> []
          then Some \<lparr>ev_kind = (if k = lit ''authenticated'' then Authenticated_event
                                 else Signed_out_event),
                 ev_sid = s, ev_source = src, ev_nonce = n, ev_timestamp = t\<rparr>
          else None
      | _ \<Rightarrow> None)"

fun kind_name :: "sync_kind \<Rightarrow> jstring" where
  "kind_name Authenticated_event = lit ''authenticated''"
| "kind_name Signed_out_event = lit ''signed_out''"

text \<open>The message that \<^verbatim>\<open>publishAuthSessionEvent\<close> posts on the channel.\<close>

definition publishAuthSessionEvent ::
    "jstring \<Rightarrow> jstring \<Rightarrow> rat \<Rightarrow> sync_kind \<Rightarrow> jstring \<Rightarrow> jsval option" where
  "publishAuthSessionEvent source nonce now k s =
     (if s = [] then None
      else Some (JObj [(lit ''kind'', JStr (kind_name k)), (lit ''sid'', JStr s),
        (lit ''source'', JStr source), (lit ''nonce'', JStr nonce), (lit ''timestamp'', JNum (Fin now))]))"

text \<open>
  \<^verbatim>\<open>deliver\<close> passes an event on when it is well formed, comes from another tab and is less than
  a minute away from the clock of the receiver.
\<close>

definition deliver :: "jstring \<Rightarrow> rat \<Rightarrow> jsval \<Rightarrow> sync_event option" where
  "deliver authSyncSource now v =
     (case isAuthSessionSyncEvent v of
        None \<Rightarrow> None
      | Some e \<Rightarrow>
          if ev_source e \<noteq> authSyncSource \<and>
             (case num_val (ev_timestamp e) of None \<Rightarrow> False | Some t \<Rightarrow> \<bar>now - t\<bar> < 60000)
          then Some e else None)"

datatype ui_effect = Reload | Navigate_sign_in

definition onAuthSessionEvent :: "sync_event \<Rightarrow> tab \<Rightarrow> tab \<times> ui_effect list" where
  "onAuthSessionEvent e w =
     (case ev_kind e of
        Authenticated_event \<Rightarrow>
          if currentSID w = Some (ev_sid e) then (w, [])
          else (case currentSID w of
                  Some s \<Rightarrow> if s \<noteq> [] then (clearAuthentication False Complete w, [Reload])
                            else (w, [Reload])
                | None \<Rightarrow> (w, [Reload]))
      | Signed_out_event \<Rightarrow>
          if currentSID w = Some (ev_sid e) \<and> ev_sid e \<noteq> []
          then (clearAuthentication False Complete w, [Navigate_sign_in]) else (w, []))"

subsection \<open>What can happen in a tab\<close>

text \<open>
  The events of a tab outside a token refresh, each with the code that handles it: a login
  response (checked by \<open>isAuthBundle\<close> before it is applied), signing out, a request that is still
  refused after a refresh, a token rotation that a response carries (an error leaves the store as
  it is), an edit of the user's own profile, the first step of a two-factor login, an event of
  another tab, and the start of the bootstrap check.
\<close>

datatype tab_event =
    Login jsval
  | SignOut
  | Expire
  | Rotate jsval
  | Edit_user auth_user
  | Begin_2fa jstring
  | Remote sync_event
  | Start_check

fun tab_step :: "tab_event \<Rightarrow> tab \<Rightarrow> tab" where
  "tab_step (Login v) w = (case isAuthBundle v of None \<Rightarrow> w | Some b \<Rightarrow> applyAuthBundle b True w)"
| "tab_step SignOut w = clearAuthentication True Complete w"
| "tab_step Expire w = clearAuthentication False Complete w"
| "tab_step (Rotate v) w = (case applyAuthRotation v w of Inl _ \<Rightarrow> w | Inr w' \<Rightarrow> w')"
| "tab_step (Edit_user u) w = w\<lparr>auth := setUser (Some u) (auth w)\<rparr>"
| "tab_step (Begin_2fa t) w = w\<lparr>auth := setPending2FAFlowToken (Some t) (auth w)\<rparr>"
| "tab_step (Remote e) w = fst (onAuthSessionEvent e w)"
| "tab_step Start_check w = w\<lparr>auth := setBootstrapState Checking (auth w)\<rparr>"

definition run_events :: "tab_event list \<Rightarrow> tab \<Rightarrow> tab" where
  "run_events es w = fold tab_step es w"

definition initial_tab :: tab where
  "initial_tab = \<lparr>auth = initial_auth, authEpoch = 0, published = []\<rparr>"

subsection \<open>Invariant of the store\<close>

text \<open>
  The token, its expiry and the session are present together or absent together; when present
  they are usable: a token that is not empty, a finite positive expiry, a session identifier
  that is not empty, and a user.
\<close>

definition auth_inv :: "auth_state \<Rightarrow> bool" where
  "auth_inv st =
     (case (accessToken st, accessExpiresAt st, session st) of
        (None, None, None) \<Rightarrow> True
      | (Some t, Some e, Some s) \<Rightarrow> t \<noteq> [] \<and> num_isFinite e \<and> num_less (Fin 0) e \<and> sid s \<noteq> []
          \<and> user st \<noteq> None
      | _ \<Rightarrow> False)"

definition valid_bundle :: "auth_bundle \<Rightarrow> bool" where
  "valid_bundle b \<longleftrightarrow> access_token b \<noteq> [] \<and> num_isFinite (access_expires_at b)
     \<and> num_less (Fin 0) (access_expires_at b) \<and> sid (bundle_session b) \<noteq> []"

text \<open>The part of the store that authenticates requests.\<close>

definition credentials :: "tab \<Rightarrow> jstring option \<times> jnum option \<times> login_session option" where
  "credentials w = (accessToken (auth w), accessExpiresAt (auth w), session (auth w))"

lemmas store_defs = setBundle_def setUser_def setPending2FAFlowToken_def setBootstrapState_def
  reset_def

lemmas apply_defs = applyAuthBundle_def clearAuthentication_def publish_def Let_def

lemma isLoginSession_sid: "isLoginSession v = Some s \<Longrightarrow> sid s \<noteq> []"
  by (auto simp: isLoginSession_def split: if_splits option.splits)

lemma hasValidTokenFields_Some:
  "hasValidTokenFields v = Some (a, t, e) \<Longrightarrow> a \<noteq> [] \<and> t \<noteq> [] \<and> num_isFinite e \<and> num_less (Fin 0) e"
  by (auto simp: hasValidTokenFields_def split: if_splits option.splits)

lemma isAuthBundle_valid: "isAuthBundle v = Some b \<Longrightarrow> valid_bundle b"
  using hasValidTokenFields_Some [of v] isLoginSession_sid [of "get_prop v (lit ''session'')"]
  by (auto simp: isAuthBundle_def valid_bundle_def split: if_splits option.splits)

lemma isAuthTokenRotation_Some:
  "isAuthTokenRotation v = Some r \<Longrightarrow>
     rot_access_token r \<noteq> [] \<and> num_isFinite (rot_access_expires_at r)
     \<and> num_less (Fin 0) (rot_access_expires_at r) \<and> sid (rot_session r) \<noteq> []
     \<and> rot_token_type r = lit ''Bearer'' \<and> current (rot_session r)"
  using hasValidTokenFields_Some [of v] isLoginSession_sid [of "get_prop v (lit ''session'')"]
  by (auto simp: isAuthTokenRotation_def split: if_splits option.splits)

lemma auth_inv_setters [simp]:
  "valid_bundle b \<Longrightarrow> auth_inv (setBundle b st)"
  "auth_inv (reset bs st)"
  "auth_inv st \<Longrightarrow> auth_inv (setUser (Some u) st)"
  "auth_inv (setPending2FAFlowToken t st) = auth_inv st"
  "auth_inv (setBootstrapState bs st) = auth_inv st"
  by (auto simp: auth_inv_def valid_bundle_def store_defs split: option.splits)

lemma auth_apply [simp]: "auth (applyAuthBundle b sync w) = setBundle b (auth w)"
  by (simp add: apply_defs)

lemma auth_clear [simp]: "auth (clearAuthentication sync bs w) = reset bs (auth w)"
  by (simp add: apply_defs split: option.split)

lemma epoch_apply [simp]: "authEpoch (applyAuthBundle b sync w) = Suc (authEpoch w)"
  by (simp add: apply_defs)

lemma epoch_clear [simp]: "authEpoch (clearAuthentication sync bs w) = Suc (authEpoch w)"
  by (simp add: apply_defs split: option.split)

lemma published_apply_local [simp]: "published (applyAuthBundle b False w) = published w"
  by (simp add: apply_defs)

lemma published_clear_local [simp]: "published (clearAuthentication False bs w) = published w"
  by (simp add: apply_defs split: option.split)

lemma applyAuthRotation_Inr:
  "applyAuthRotation v w = Inr w' \<Longrightarrow>
    \<exists>r u s. isAuthTokenRotation v = Some r \<and> user (auth w) = Some u \<and> session (auth w) = Some s
      \<and> sid (rot_session r) = sid s
      \<and> w' = applyAuthBundle \<lparr>access_token = rot_access_token r, token_type = rot_token_type r,
           access_expires_at = rot_access_expires_at r, bundle_user = u,
           bundle_session = rot_session r\<rparr> False w"
  by (auto simp: applyAuthRotation_def split: option.splits if_splits)

lemma applyAuthRotation_valid:
  "applyAuthRotation v w = Inr w' \<Longrightarrow> \<exists>b. valid_bundle b \<and> w' = applyAuthBundle b False w"
proof -
  assume "applyAuthRotation v w = Inr w'"
  from applyAuthRotation_Inr [OF this] obtain r u where r: "isAuthTokenRotation v = Some r"
    and w': "w' = applyAuthBundle \<lparr>access_token = rot_access_token r, token_type = rot_token_type r,
           access_expires_at = rot_access_expires_at r, bundle_user = u,
           bundle_session = rot_session r\<rparr> False w" by auto
  have "valid_bundle \<lparr>access_token = rot_access_token r, token_type = rot_token_type r,
           access_expires_at = rot_access_expires_at r, bundle_user = u,
           bundle_session = rot_session r\<rparr>"
    using isAuthTokenRotation_Some [OF r] by (simp add: valid_bundle_def)
  with w' show ?thesis by blast
qed

lemma onAuthSessionEvent_cases:
  "fst (onAuthSessionEvent e w) = w \<or> fst (onAuthSessionEvent e w) = clearAuthentication False Complete w"
  by (auto simp: onAuthSessionEvent_def split: sync_kind.split option.split)

lemma tab_step_inv: "auth_inv (auth w) \<Longrightarrow> auth_inv (auth (tab_step e w))"
proof (cases e)
  case (Rotate v)
  assume inv: "auth_inv (auth w)"
  show ?thesis
  proof (cases "applyAuthRotation v w")
    case (Inr w')
    then show ?thesis
      using Rotate applyAuthRotation_valid [OF Inr] by auto
  qed (simp add: Rotate inv)
next
  case (Remote ev)
  assume "auth_inv (auth w)"
  then show ?thesis using Remote onAuthSessionEvent_cases [of ev w] by auto
qed (auto dest: isAuthBundle_valid split: option.splits)

lemma run_events_inv: "auth_inv (auth w) \<Longrightarrow> auth_inv (auth (run_events es w))"
  by (induction es arbitrary: w) (auto simp: run_events_def tab_step_inv)

text \<open>An event that changes the credentials advances the epoch.\<close>

lemma tab_step_epoch:
  "authEpoch w \<le> authEpoch (tab_step e w) \<and>
   (authEpoch (tab_step e w) = authEpoch w \<longrightarrow> credentials (tab_step e w) = credentials w)"
proof (cases e)
  case (Rotate v)
  show ?thesis
  proof (cases "applyAuthRotation v w")
    case (Inr w')
    then show ?thesis using Rotate applyAuthRotation_valid [OF Inr] by auto
  qed (simp add: Rotate)
next
  case (Remote ev)
  then show ?thesis using onAuthSessionEvent_cases [of ev w] by auto
qed (auto simp: credentials_def store_defs split: option.split)

lemma run_events_Nil [simp]: "run_events [] w = w"
  by (simp add: run_events_def)

lemma run_events_Cons [simp]: "run_events (e # es) w = run_events es (tab_step e w)"
  by (simp add: run_events_def)

lemma run_events_epoch:
  "authEpoch w \<le> authEpoch (run_events es w) \<and>
   (authEpoch (run_events es w) = authEpoch w \<longrightarrow> credentials (run_events es w) = credentials w)"
proof (induction es arbitrary: w)
  case (Cons e es)
  from Cons [of "tab_step e w"] tab_step_epoch [of w e] show ?case by auto
qed simp

lemma sync_event_roundtrip:
  assumes "s \<noteq> []"
  shows "\<exists>m. publishAuthSessionEvent src nonce now k s = Some m \<and> isAuthSessionSyncEvent m =
    Some \<lparr>ev_kind = k, ev_sid = s, ev_source = src, ev_nonce = nonce, ev_timestamp = Fin now\<rparr>"
  using assms
  by (cases k) (simp_all add: publishAuthSessionEvent_def isAuthSessionSyncEvent_def)

subsection \<open>Properties\<close>

text \<open>
  C18. Signing out in one tab signs out every other tab with the same session that receives the
  event within a minute: the event is published, passes the checks of the other tab, clears its
  credentials and its user, sends it to the sign-in page, and is not published again.
\<close>

theorem sign_out_reaches_other_tab:
  assumes "currentSID w1 = Some x" "x \<noteq> []" "currentSID w2 = Some x"
    and "own \<noteq> src" "\<bar>now2 - now1\<bar> < 60000"
  shows "published (tab_step SignOut w1) = published w1 @ [(Signed_out_event, x)]
    \<and> (\<exists>m e w2'. publishAuthSessionEvent src nonce now1 Signed_out_event x = Some m
         \<and> deliver own now2 m = Some e
         \<and> onAuthSessionEvent e w2 = (w2', [Navigate_sign_in])
         \<and> credentials w2' = (None, None, None) \<and> user (auth w2') = None
         \<and> published w2' = published w2)"
proof
  show "published (tab_step SignOut w1) = published w1 @ [(Signed_out_event, x)]"
    using assms(1,2) by (simp add: apply_defs)
  let ?e = "\<lparr>ev_kind = Signed_out_event, ev_sid = x, ev_source = src, ev_nonce = nonce,
    ev_timestamp = Fin now1\<rparr>"
  obtain m where m: "publishAuthSessionEvent src nonce now1 Signed_out_event x = Some m"
      "isAuthSessionSyncEvent m = Some ?e"
    using sync_event_roundtrip [OF assms(2)] by blast
  from m(2) assms have "deliver own now2 m = Some ?e" by (simp add: deliver_def)
  moreover have "onAuthSessionEvent ?e w2 = (clearAuthentication False Complete w2, [Navigate_sign_in])"
    using assms by (simp add: onAuthSessionEvent_def)
  ultimately show "\<exists>m e w2'. publishAuthSessionEvent src nonce now1 Signed_out_event x = Some m
         \<and> deliver own now2 m = Some e
         \<and> onAuthSessionEvent e w2 = (w2', [Navigate_sign_in])
         \<and> credentials w2' = (None, None, None) \<and> user (auth w2') = None
         \<and> published w2' = published w2"
    using m(1) by (simp add: credentials_def reset_def)
qed

definition sample_session :: login_session where
  "sample_session = \<lparr>sid = lit ''s1'', current = True, login_method = lit ''password'',
     ip = lit ''::1'', user_agent = lit ''ua'', created_at = Fin 1, last_active_at = Fin 2,
     expires_at = Fin 3\<rparr>"

definition sample_user :: auth_user where
  "sample_user = \<lparr>user_id = Fin 7, username = lit ''root'', role = Fin 100, other_fields = []\<rparr>"

definition sample_bundle :: auth_bundle where
  "sample_bundle = \<lparr>access_token = lit ''tok'', token_type = lit ''Bearer'', access_expires_at = Fin 5000,
     bundle_user = sample_user, bundle_session = sample_session\<rparr>"

definition sample_tab :: tab where
  "sample_tab = applyAuthBundle sample_bundle True initial_tab"

lemma sample_tab_sid: "currentSID sample_tab = Some (lit ''s1'')"
  by (simp add: currentSID_def sample_tab_def setBundle_def sample_bundle_def sample_session_def)

theorem sign_out_reaches_other_tab_witness:
  "\<exists>m e w2'. publishAuthSessionEvent (lit ''tab-a'') (lit ''n'') 1000 Signed_out_event (lit ''s1'') = Some m
     \<and> deliver (lit ''tab-b'') 2000 m = Some e
     \<and> onAuthSessionEvent e sample_tab = (w2', [Navigate_sign_in])
     \<and> credentials w2' = (None, None, None)"
proof -
  have "lit ''s1'' \<noteq> []" "lit ''tab-b'' \<noteq> lit ''tab-a''" "\<bar>2000 - 1000 :: rat\<bar> < 60000"
    by simp_all
  from sign_out_reaches_other_tab [OF sample_tab_sid this(1) sample_tab_sid this(2,3)]
  show ?thesis by blast
qed

text \<open>
  A token rotation in a response is applied only to the session it belongs to: it fails on a
  malformed payload, without an active session, or for another session; when it succeeds, the new
  token and expiry replace the old ones, the user and the session identifier stay, the epoch
  advances and no event goes to the other tabs.
\<close>

theorem applyAuthRotation_outcome:
  "(applyAuthRotation v w = Inl Invalid_rotation \<longleftrightarrow> isAuthTokenRotation v = None)
   \<and> (applyAuthRotation v w = Inl No_active_session \<longleftrightarrow>
        isAuthTokenRotation v \<noteq> None \<and> (user (auth w) = None \<or> session (auth w) = None))
   \<and> (\<forall>w'. applyAuthRotation v w = Inr w' \<longrightarrow>
        (\<exists>r. isAuthTokenRotation v = Some r \<and> currentSID w = Some (sid (rot_session r))
          \<and> credentials w' = (Some (rot_access_token r), Some (rot_access_expires_at r), Some (rot_session r)))
        \<and> user (auth w') = user (auth w) \<and> currentSID w' = currentSID w
        \<and> authEpoch w' = Suc (authEpoch w) \<and> published w' = published w)"
proof (intro conjI allI impI)
  show "applyAuthRotation v w = Inl Invalid_rotation \<longleftrightarrow> isAuthTokenRotation v = None"
    and "applyAuthRotation v w = Inl No_active_session \<longleftrightarrow>
        isAuthTokenRotation v \<noteq> None \<and> (user (auth w) = None \<or> session (auth w) = None)"
    by (auto simp: applyAuthRotation_def split: option.splits)
  fix w' assume "applyAuthRotation v w = Inr w'"
  from applyAuthRotation_Inr [OF this] obtain r u s where
    *: "isAuthTokenRotation v = Some r" "user (auth w) = Some u" "session (auth w) = Some s"
      "sid (rot_session r) = sid s"
      "w' = applyAuthBundle \<lparr>access_token = rot_access_token r, token_type = rot_token_type r,
           access_expires_at = rot_access_expires_at r, bundle_user = u,
           bundle_session = rot_session r\<rparr> False w" by blast
  then show "\<exists>r. isAuthTokenRotation v = Some r \<and> currentSID w = Some (sid (rot_session r))
      \<and> credentials w' = (Some (rot_access_token r), Some (rot_access_expires_at r), Some (rot_session r))"
    by (simp add: currentSID_def credentials_def setBundle_def)
  from * show "user (auth w') = user (auth w)" "currentSID w' = currentSID w"
      "authEpoch w' = Suc (authEpoch w)" "published w' = published w"
    by (simp_all add: currentSID_def setBundle_def)
qed

definition sample_session_val :: jsval where
  "sample_session_val = JObj [(lit ''sid'', JStr (lit ''s1'')), (lit ''current'', JBool True),
     (lit ''login_method'', JStr (lit ''password'')), (lit ''ip'', JStr (lit ''::1'')),
     (lit ''user_agent'', JStr (lit ''ua'')), (lit ''created_at'', JNum (Fin 1)),
     (lit ''last_active_at'', JNum (Fin 2)), (lit ''expires_at'', JNum (Fin 3))]"

definition sample_rotation_val :: jsval where
  "sample_rotation_val = JObj [(lit ''access_token'', JStr (lit ''tok2'')),
     (lit ''token_type'', JStr (lit ''Bearer'')), (lit ''access_expires_at'', JNum (Fin 9000)),
     (lit ''session'', sample_session_val)]"

theorem applyAuthRotation_outcome_witness:
  "\<exists>w'. applyAuthRotation sample_rotation_val sample_tab = Inr w'
     \<and> currentSID w' = Some (lit ''s1'') \<and> accessToken (auth w') = Some (lit ''tok2'')"
proof -
  have rot: "isAuthTokenRotation sample_rotation_val = Some \<lparr>rot_access_token = lit ''tok2'',
      rot_token_type = lit ''Bearer'', rot_access_expires_at = Fin 9000, rot_session = sample_session\<rparr>"
    by (simp add: isAuthTokenRotation_def sample_rotation_val_def sample_session_val_def
        hasValidTokenFields_def isLoginSession_def isRecord_def num_isFinite_def sample_session_def)
  then obtain w' where w': "applyAuthRotation sample_rotation_val sample_tab = Inr w'"
    by (simp add: applyAuthRotation_def sample_tab_def setBundle_def sample_bundle_def)
  with applyAuthRotation_outcome [of sample_rotation_val sample_tab] rot sample_tab_sid
  show ?thesis by (auto simp: credentials_def)
qed

end
