(* ===== verification/Auth_Refresh.thy ===== *)
theory Auth_Refresh
  imports Auth_Session
begin

section \<open>Refreshing the access token (\<^verbatim>\<open>web/src/lib/auth-session.ts\<close>)\<close>

text \<open>
  The refresh runner retries a race a bounded number of times, restarts once on a session
  mismatch and gives up as soon as its epoch is no longer current. It is written against the
  interface \<^verbatim>\<open>AuthRefreshRuntime\<close>: here the record \<open>refresh_runtime\<close> over an arbitrary state.
  Every suspension point of the runner is a call of the runtime: \<open>rt_request n\<close> is the n-th
  request and returns the response with the state after everything else that happened while the
  request was in flight, and \<open>rt_wait n\<close> likewise. Other code of the tab runs at these points
  only, so that quantifying over the runtime covers every interleaving.

  The contract of a runtime is the locale \<open>refresh_contract\<close>; the runtime of a tab
  (\<open>tab_runtime\<close>) is an interpretation of it, for every network and every sequence of events of
  the tab during each suspension.
\<close>

subsection \<open>The runner\<close>

record http_response =
  resp_status :: int
  resp_data :: jsval
  resp_error :: jsval

datatype refresh_error = Superseded | Failed jsval

datatype 'b refresh_outcome =
    Authenticated 'b
  | Anonymous
  | Transient_error refresh_error
  | Out_of_sync "jstring option"

record ('s, 'b) refresh_runtime =
  rt_request :: "nat \<Rightarrow> jstring option \<Rightarrow> 's \<Rightarrow> http_response \<times> 's"
  rt_getExpectedSID :: "'s \<Rightarrow> jstring option"
  rt_parseBundle :: "jsval \<Rightarrow> 'b option"
  rt_acceptBundle :: "'b \<Rightarrow> 's \<Rightarrow> 's"
  rt_clear :: "bool \<Rightarrow> bootstrap_state option \<Rightarrow> 's \<Rightarrow> 's"
  rt_markTransient :: "'s \<Rightarrow> 's"
  rt_wait :: "nat \<Rightarrow> nat \<Rightarrow> 's \<Rightarrow> 's"
  rt_isCurrent :: "('s \<Rightarrow> bool) option"

definition refreshRaceDelays :: "nat list" where
  "refreshRaceDelays = [80, 200, 500]"

definition superseded :: "'b refresh_outcome" where
  "superseded = Transient_error Superseded"

definition is_current :: "('s, 'b) refresh_runtime \<Rightarrow> 's \<Rightarrow> bool" where
  "is_current rt s = (case rt_isCurrent rt of None \<Rightarrow> True | Some f \<Rightarrow> f s)"

text \<open>What the runner reads from a response.\<close>

definition response_data :: "http_response \<Rightarrow> jsval" where
  "response_data r = (if isRecord (resp_data r) then resp_data r else Undefined)"

definition response_code :: "http_response \<Rightarrow> jstring option" where
  "response_code r = as_str (get_prop (response_data r) (lit ''code''))"

definition response_bundle :: "('s, 'b) refresh_runtime \<Rightarrow> http_response \<Rightarrow> 'b option" where
  "response_bundle rt r =
     (if get_prop (response_data r) (lit ''success'') = JBool True
      then rt_parseBundle rt (get_prop (response_data r) (lit ''data'')) else None)"

function run :: "('s, 'b) refresh_runtime \<Rightarrow> nat \<Rightarrow> nat \<Rightarrow> bool \<Rightarrow> 's \<Rightarrow> 'b refresh_outcome \<times> 's" where
  "run rt n raceAttempt allowMismatchRetry s =
     (if \<not> is_current rt s then (superseded, s)
      else let (response, s1) = rt_request rt n (rt_getExpectedSID rt s) s in
      if \<not> is_current rt s1 then (superseded, s1)
      else case response_bundle rt response of
        Some bundle \<Rightarrow> (Authenticated bundle, rt_acceptBundle rt bundle s1)
      | None \<Rightarrow>
          let code = response_code response in
          if resp_status response = 409 \<and> code = Some (lit ''AUTH_REFRESH_RACE'') then
            if raceAttempt < length refreshRaceDelays
            then run rt (Suc n) (Suc raceAttempt) allowMismatchRetry
                   (rt_wait rt n (refreshRaceDelays ! raceAttempt) s1)
            else (Out_of_sync code, rt_clear rt False None s1)
          else if resp_status response = 409 \<and> code = Some (lit ''AUTH_SESSION_MISMATCH'') then
            if allowMismatchRetry
            then run rt (Suc n) 0 False (rt_clear rt False (Some Idle) s1)
            else (Out_of_sync code, rt_clear rt False None s1)
          else if resp_status response = 401 then (Anonymous, rt_clear rt True None s1)
          else if resp_status response = 0 \<or> resp_status response \<ge> 500 \<or> resp_status response = 429
          then (Transient_error (Failed (if is_nullish (resp_error response)
                  then resp_data response else resp_error response)), rt_markTransient rt s1)
          else (Out_of_sync (Some (coalesce code (lit ''AUTH_INVALID_REFRESH_RESPONSE''))),
                rt_clear rt False None s1))"
  by pat_completeness auto
termination
  by (relation "measure (\<lambda>(rt, n, r, m, s). (if m then 4 else 0) + (3 - r))")
     (auto simp: refreshRaceDelays_def)

declare run.simps [simp del]

definition createRefreshRunner :: "('s, 'b) refresh_runtime \<Rightarrow> 's \<Rightarrow> 'b refresh_outcome \<times> 's" where
  "createRefreshRunner rt s = run rt 0 0 True s"

subsection \<open>The runtime of a tab\<close>

datatype network_result =
    Http_ok int jsval
  | Axios_error "(int \<times> jsval) option" jsval
  | Other_error jsval

definition requestRefresh :: "(jstring option \<Rightarrow> network_result) \<Rightarrow> jstring option \<Rightarrow> http_response" where
  "requestRefresh post expectedSID =
     (case post (case expectedSID of Some s \<Rightarrow> (if s = [] then None else Some s) | None \<Rightarrow> None) of
        Http_ok st d \<Rightarrow> \<lparr>resp_status = st, resp_data = d, resp_error = Undefined\<rparr>
      | Other_error e \<Rightarrow> \<lparr>resp_status = 0, resp_data = Undefined, resp_error = e\<rparr>
      | Axios_error None e \<Rightarrow> \<lparr>resp_status = 0, resp_data = Undefined, resp_error = e\<rparr>
      | Axios_error (Some (st, d)) e \<Rightarrow> \<lparr>resp_status = st, resp_data = d, resp_error = e\<rparr>)"

text \<open>
  The surroundings of a refresh: the network, and the events of the tab while the n-th request is
  in flight and during the n-th wait.
\<close>

record refresh_env =
  env_post :: "nat \<Rightarrow> jstring option \<Rightarrow> network_result"
  env_during_request :: "nat \<Rightarrow> tab_event list"
  env_during_wait :: "nat \<Rightarrow> tab_event list"

definition clear_for_refresh :: "bool \<Rightarrow> bootstrap_state option \<Rightarrow> tab \<Rightarrow> tab" where
  "clear_for_refresh synchronizeTabs bs w =
     (if \<not> synchronizeTabs \<and> bs = Some Idle then w\<lparr>auth := reset Idle (auth w)\<rparr>
      else clearAuthentication synchronizeTabs (coalesce bs Complete) w)"

definition tab_runtime :: "refresh_env \<Rightarrow> nat \<Rightarrow> (tab, auth_bundle) refresh_runtime" where
  "tab_runtime env refreshEpoch =
     \<lparr>rt_request = (\<lambda>n s w. (requestRefresh (env_post env n) s, run_events (env_during_request env n) w)),
      rt_getExpectedSID = currentSID,
      rt_parseBundle = isAuthBundle,
      rt_acceptBundle = (\<lambda>b. applyAuthBundle b False),
      rt_clear = clear_for_refresh,
      rt_markTransient = (\<lambda>w. w\<lparr>auth := setBootstrapState Idle (auth w)\<rparr>),
      rt_wait = (\<lambda>n d w. run_events (env_during_wait env n) w),
      rt_isCurrent = Some (\<lambda>w. authEpoch w = refreshEpoch)\<rparr>"

definition runRefresh :: "refresh_env \<Rightarrow> nat \<Rightarrow> tab \<Rightarrow> auth_bundle refresh_outcome \<times> tab" where
  "runRefresh env refreshEpoch w = createRefreshRunner (tab_runtime env refreshEpoch) w"

text \<open>
  A call of \<^verbatim>\<open>refreshAuthentication\<close> when no refresh is in flight; a call during a refresh returns
  the promise of that refresh and changes nothing. The browser lock that serialises the refreshes
  of several tabs is part of the surroundings.
\<close>

definition refreshAuthentication :: "refresh_env \<Rightarrow> tab \<Rightarrow> auth_bundle refresh_outcome \<times> tab" where
  "refreshAuthentication env w = runRefresh env (authEpoch w) w"

definition currentValidAuthBundle :: "int \<Rightarrow> tab \<Rightarrow> auth_bundle option" where
  "currentValidAuthBundle nowSeconds w =
     (case (user (auth w), accessToken (auth w), accessExpiresAt (auth w), session (auth w)) of
        (Some u, Some t, Some e, Some s) \<Rightarrow>
          if t = [] \<or> \<not> num_truthy e \<or> num_less_eq e (of_int_num nowSeconds) then None
          else Some \<lparr>access_token = t, token_type = lit ''Bearer'', access_expires_at = e,
                 bundle_user = u, bundle_session = s\<rparr>
      | _ \<Rightarrow> None)"

definition bootstrapAuthentication ::
    "refresh_env \<Rightarrow> int \<Rightarrow> tab \<Rightarrow> auth_bundle refresh_outcome \<times> tab" where
  "bootstrapAuthentication env nowSeconds w =
     (case currentValidAuthBundle nowSeconds w of
        Some b \<Rightarrow> (Authenticated b, w\<lparr>auth := setBootstrapState Complete (auth w)\<rparr>)
      | None \<Rightarrow>
          let hasStaleSession = (user (auth w) \<noteq> None \<and> session (auth w) \<noteq> None) in
          if bootstrapState (auth w) = Complete \<and> \<not> hasStaleSession then (Anonymous, w)
          else refreshAuthentication env (w\<lparr>auth := setBootstrapState Checking (auth w)\<rparr>))"

definition getCommonHeaders :: "tab \<Rightarrow> (jstring \<times> jstring) list" where
  "getCommonHeaders w =
     [(lit ''Content-Type'', lit ''application/json'')] @
     (case accessToken (auth w) of
        Some t \<Rightarrow> if t = [] then [] else [(lit ''Authorization'', lit ''Bearer '' @ t)]
      | None \<Rightarrow> [])"

datatype header_error = Request_failed refresh_error | Session_expired

text \<open>The clock is read before the refresh and again after it.\<close>

definition token_fresh_after :: "int \<Rightarrow> tab \<Rightarrow> bool" where
  "token_fresh_after t w =
     (case (accessToken (auth w), accessExpiresAt (auth w)) of
        (Some a, Some e) \<Rightarrow> a \<noteq> [] \<and> num_truthy e \<and> num_less (of_int_num t) e
      | _ \<Rightarrow> False)"

definition getFreshAuthHeaders ::
    "refresh_env \<Rightarrow> int \<Rightarrow> int \<Rightarrow> tab \<Rightarrow> (header_error + (jstring \<times> jstring) list) \<times> tab" where
  "getFreshAuthHeaders env nowSeconds laterSeconds w =
     (if token_fresh_after (nowSeconds + 60) w then (Inr (getCommonHeaders w), w)
      else let (outcome, w1) = refreshAuthentication env w in
      case outcome of
        Authenticated _ \<Rightarrow> (Inr (getCommonHeaders w1), w1)
      | _ \<Rightarrow>
          if token_fresh_after laterSeconds w1 then (Inr (getCommonHeaders w1), w1)
          else (Inl (case outcome of Transient_error e \<Rightarrow> Request_failed e | _ \<Rightarrow> Session_expired), w1))"

subsection \<open>An instrumented runtime\<close>

text \<open>
  The runner is polymorphic in the state, so that its actions can be recorded by a runtime that
  logs each call together with whether the epoch was current at that moment.
\<close>

datatype refresh_action =
  Requested | Accepted | Cleared bool "bootstrap_state option" | Marked | Waited nat

type_synonym refresh_log = "(refresh_action \<times> bool) list"

definition instrument :: "('s, 'b) refresh_runtime \<Rightarrow> ('s \<times> refresh_log, 'b) refresh_runtime" where
  "instrument rt =
     \<lparr>rt_request = (\<lambda>n x (s, l). let (r, s') = rt_request rt n x s
        in (r, (s', l @ [(Requested, is_current rt s)]))),
      rt_getExpectedSID = (\<lambda>(s, l). rt_getExpectedSID rt s),
      rt_parseBundle = rt_parseBundle rt,
      rt_acceptBundle = (\<lambda>b (s, l). (rt_acceptBundle rt b s, l @ [(Accepted, is_current rt s)])),
      rt_clear = (\<lambda>y b (s, l). (rt_clear rt y b s, l @ [(Cleared y b, is_current rt s)])),
      rt_markTransient = (\<lambda>(s, l). (rt_markTransient rt s, l @ [(Marked, is_current rt s)])),
      rt_wait = (\<lambda>n d (s, l). (rt_wait rt n d s, l @ [(Waited d, is_current rt s)])),
      rt_isCurrent = map_option (\<lambda>f (s, l). f s) (rt_isCurrent rt)\<rparr>"

definition requests :: "refresh_log \<Rightarrow> nat" where
  "requests l = length (filter (\<lambda>(a, c). a = Requested) l)"

definition waited :: "refresh_log \<Rightarrow> nat" where
  "waited l = sum_list (map (\<lambda>(a, c). case a of Waited d \<Rightarrow> d | _ \<Rightarrow> 0) l)"

text \<open>The requests and the waiting time that are left to the runner.\<close>

definition request_budget :: "nat \<Rightarrow> bool \<Rightarrow> nat" where
  "request_budget r m = (4 - r) + (if m then 4 else 0)"

definition wait_budget :: "nat \<Rightarrow> bool \<Rightarrow> nat" where
  "wait_budget r m = sum_list (drop r refreshRaceDelays) + (if m then 780 else 0)"

lemma log_append [simp]:
  "requests (l @ l') = requests l + requests l'" "waited (l @ l') = waited l + waited l'"
  by (simp_all add: requests_def waited_def)

lemma log_Cons [simp]:
  "requests ((a, c) # l) = (if a = Requested then Suc (requests l) else requests l)"
  "waited ((a, c) # l) = (case a of Waited d \<Rightarrow> d | _ \<Rightarrow> 0) + waited l"
  "requests [] = 0" "waited [] = 0"
  by (simp_all add: requests_def waited_def)

lemma instrument_simps [simp]:
  "is_current (instrument rt) (s, l) = is_current rt s"
  "rt_getExpectedSID (instrument rt) (s, l) = rt_getExpectedSID rt s"
  "response_bundle (instrument rt) r = response_bundle rt r"
  by (auto simp: instrument_def is_current_def response_bundle_def split: option.split)

lemma instrument_ops [simp]:
  "rt_acceptBundle (instrument rt) b (s, l) = (rt_acceptBundle rt b s, l @ [(Accepted, is_current rt s)])"
  "rt_clear (instrument rt) y bs (s, l) = (rt_clear rt y bs s, l @ [(Cleared y bs, is_current rt s)])"
  "rt_markTransient (instrument rt) (s, l) = (rt_markTransient rt s, l @ [(Marked, is_current rt s)])"
  "rt_wait (instrument rt) n d (s, l) = (rt_wait rt n d s, l @ [(Waited d, is_current rt s)])"
  by (simp_all add: instrument_def)

lemma budget_race:
  "r < 3 \<Longrightarrow> Suc (request_budget (Suc r) m) = request_budget r m"
  "r < 3 \<Longrightarrow> refreshRaceDelays ! r + wait_budget (Suc r) m = wait_budget r m"
  by (auto simp: request_budget_def wait_budget_def refreshRaceDelays_def less_Suc_eq
      numeral_3_eq_3)

lemma budget_restart:
  "m \<Longrightarrow> r \<le> 3 \<Longrightarrow> Suc (request_budget 0 False) \<le> request_budget r m"
  "m \<Longrightarrow> wait_budget 0 False \<le> wait_budget r m"
  by (auto simp: request_budget_def wait_budget_def refreshRaceDelays_def)

subsection \<open>One round of the runner\<close>

text \<open>What one response makes the runner do, apart from the runtime.\<close>

datatype 'b decision =
    D_accept 'b
  | D_race
  | D_restart
  | D_clear bool "'b refresh_outcome"
  | D_mark jsval

definition decide :: "'b option \<Rightarrow> http_response \<Rightarrow> nat \<Rightarrow> bool \<Rightarrow> 'b decision" where
  "decide bundle resp r m =
     (case bundle of Some b \<Rightarrow> D_accept b
      | None \<Rightarrow>
        let code = response_code resp in
        if resp_status resp = 409 \<and> code = Some (lit ''AUTH_REFRESH_RACE'')
        then if r < 3 then D_race else D_clear False (Out_of_sync code)
        else if resp_status resp = 409 \<and> code = Some (lit ''AUTH_SESSION_MISMATCH'')
        then if m then D_restart else D_clear False (Out_of_sync code)
        else if resp_status resp = 401 then D_clear True Anonymous
        else if resp_status resp = 0 \<or> resp_status resp \<ge> 500 \<or> resp_status resp = 429
        then D_mark (if is_nullish (resp_error resp) then resp_data resp else resp_error resp)
        else D_clear False
          (Out_of_sync (Some (coalesce code (lit ''AUTH_INVALID_REFRESH_RESPONSE'')))))"

lemma decide_cases:
  "decide b resp r m = D_race \<Longrightarrow> r < 3"
  "decide b resp r m = D_restart \<Longrightarrow> m"
  "decide b resp r m = D_clear y res \<Longrightarrow> (y \<and> res = Anonymous) \<or> (\<not> y \<and> (\<exists>c. res = Out_of_sync c))"
  "decide b resp r m = D_accept x \<Longrightarrow> b = Some x"
  by (auto simp: decide_def Let_def split: option.splits if_splits)

lemma response_bundle_parsed:
  "response_bundle rt resp = Some b \<Longrightarrow> \<exists>v. rt_parseBundle rt v = Some b"
  by (auto simp: response_bundle_def split: if_splits)

lemma run_decide:
  assumes "rt_request rt n (rt_getExpectedSID rt s) s = (resp, s1)"
  shows "run rt n r m s =
    (if \<not> is_current rt s then (superseded, s)
     else if \<not> is_current rt s1 then (superseded, s1)
     else case decide (response_bundle rt resp) resp r m of
       D_accept b \<Rightarrow> (Authenticated b, rt_acceptBundle rt b s1)
     | D_race \<Rightarrow> run rt (Suc n) (Suc r) m (rt_wait rt n (refreshRaceDelays ! r) s1)
     | D_restart \<Rightarrow> run rt (Suc n) 0 False (rt_clear rt False (Some Idle) s1)
     | D_clear y res \<Rightarrow> (res, rt_clear rt y None s1)
     | D_mark e \<Rightarrow> (Transient_error (Failed e), rt_markTransient rt s1))"
  by (subst run.simps) (simp add: assms decide_def Let_def refreshRaceDelays_def split: option.split)

text \<open>The measure of a run: each retry and the restart lower it.\<close>

definition rounds_left :: "nat \<Rightarrow> bool \<Rightarrow> nat" where
  "rounds_left r m = (if m then 4 else 0) + (3 - r)"

lemma rounds_left_less:
  "r < 3 \<Longrightarrow> rounds_left (Suc r) m < rounds_left r m"
  "m \<Longrightarrow> rounds_left 0 False < rounds_left r m"
  by (auto simp: rounds_left_def)

lemma run_instrument:
  assumes "r \<le> 3"
  shows "\<exists>l'. run (instrument rt) n r m (s, l) = (fst (run rt n r m s), (snd (run rt n r m s), l @ l'))
    \<and> list_all snd l' \<and> requests l' \<le> request_budget r m \<and> waited l' \<le> wait_budget r m"
  using assms
proof (induction "rounds_left r m" arbitrary: n r m s l rule: less_induct)
  case less
  obtain resp s1 where req: "rt_request rt n (rt_getExpectedSID rt s) s = (resp, s1)"
    by fastforce
  then have ireq: "rt_request (instrument rt) n (rt_getExpectedSID (instrument rt) (s, l)) (s, l) =
      (resp, (s1, l @ [(Requested, is_current rt s)]))"
    by (simp add: instrument_def)
  note eqs = run_decide [OF req, of r m] run_decide [OF ireq, of r m]
  have b: "1 \<le> request_budget r m" using less.prems by (simp add: request_budget_def)
  show ?case
  proof (cases "is_current rt s \<and> is_current rt s1")
    case False
    with b show ?thesis by (auto simp: eqs)
  next
    case True
    let ?d = "decide (response_bundle rt resp) resp r m"
    show ?thesis
    proof (cases ?d)
      case D_race
      then have r: "r < 3" by (rule decide_cases)
      let ?l = "[(Requested, True), (Waited (refreshRaceDelays ! r), True)]"
      from less.hyps [OF rounds_left_less(1) [OF r], of "Suc n"
          "rt_wait rt n (refreshRaceDelays ! r) s1" "l @ ?l"] True D_race r budget_race [OF r, of m]
      show ?thesis by (fastforce simp: eqs intro: exI [of _ "?l @ _"])
    next
      case D_restart
      then have m: "m" by (rule decide_cases)
      let ?l = "[(Requested, True), (Cleared False (Some Idle), True)]"
      from less.hyps [OF rounds_left_less(2) [OF m], of "Suc n"
          "rt_clear rt False (Some Idle) s1" "l @ ?l"] True D_restart
        budget_restart(1) [OF m less.prems] budget_restart(2) [OF m, of r]
      show ?thesis by (fastforce simp: eqs intro: exI [of _ "?l @ _"])
    qed (use True b in \<open>auto simp: eqs\<close>)
  qed
qed

subsection \<open>The contract of a runtime\<close>

text \<open>
  What the runner relies on: the epoch tells whether the refresh is still current, other code
  never lowers it, accepting a bundle and clearing the authentication advance it, and the reset
  before a restart and the transient mark leave it.
\<close>

locale refresh_contract =
  fixes rt :: "('s, 'b) refresh_runtime"
    and epoch :: "'s \<Rightarrow> nat"
    and start :: nat
  assumes current_iff: "is_current rt s \<longleftrightarrow> epoch s = start"
    and request_mono: "rt_request rt n x s = (r, s') \<Longrightarrow> epoch s \<le> epoch s'"
    and wait_mono: "epoch s \<le> epoch (rt_wait rt n d s)"
    and accept_epoch: "epoch (rt_acceptBundle rt b s) = Suc (epoch s)"
    and clear_epoch: "epoch (rt_clear rt y None s) = Suc (epoch s)"
    and restart_epoch: "epoch (rt_clear rt False (Some Idle) s) = epoch s"
    and mark_epoch: "epoch (rt_markTransient rt s) = epoch s"
begin

text \<open>
  The final state of a run, by outcome: the runner's last action was taken in the starting
  epoch, and a superseded run ends in a later epoch that other code brought about.
\<close>

definition outcome_ok :: "'b refresh_outcome \<times> 's \<Rightarrow> bool" where
  "outcome_ok res =
     (case fst res of
        Authenticated b \<Rightarrow> \<exists>s v. epoch s = start \<and> rt_parseBundle rt v = Some b
          \<and> snd res = rt_acceptBundle rt b s
      | Anonymous \<Rightarrow> \<exists>s. epoch s = start \<and> snd res = rt_clear rt True None s
      | Out_of_sync _ \<Rightarrow> \<exists>s. epoch s = start \<and> snd res = rt_clear rt False None s
      | Transient_error Superseded \<Rightarrow> start < epoch (snd res)
      | Transient_error (Failed _) \<Rightarrow> \<exists>s. epoch s = start \<and> snd res = rt_markTransient rt s)"

lemma run_outcome: "start \<le> epoch s \<Longrightarrow> outcome_ok (run rt n r m s)"
proof (induction "rounds_left r m" arbitrary: n r m s rule: less_induct)
  case less
  obtain resp s1 where req: "rt_request rt n (rt_getExpectedSID rt s) s = (resp, s1)"
    by fastforce
  note eq = run_decide [OF req, of r m]
  from request_mono [OF req] less.prems have s1: "start \<le> epoch s1" by simp
  show ?case
  proof (cases "is_current rt s \<and> is_current rt s1")
    case False
    with less.prems s1 show ?thesis
      by (auto simp: eq current_iff outcome_ok_def superseded_def)
  next
    case True
    let ?d = "decide (response_bundle rt resp) resp r m"
    show ?thesis
    proof (cases ?d)
      case D_race
      then have r: "r < 3" by (rule decide_cases)
      have "start \<le> epoch (rt_wait rt n (refreshRaceDelays ! r) s1)"
        using s1 wait_mono le_trans by blast
      from less.hyps [OF rounds_left_less(1) [OF r] this] True D_race show ?thesis
        by (simp add: eq)
    next
      case D_restart
      then have m: "m" by (rule decide_cases)
      have "start \<le> epoch (rt_clear rt False (Some Idle) s1)"
        using s1 by (simp add: restart_epoch)
      from less.hyps [OF rounds_left_less(2) [OF m] this] True D_restart show ?thesis
        by (simp add: eq)
    next
      case (D_clear y res)
      with decide_cases(3) [OF D_clear] True show ?thesis
        by (auto simp: eq current_iff outcome_ok_def)
    next
      case (D_accept b)
      with decide_cases(4) [OF D_accept] True show ?thesis
        by (auto simp: eq current_iff outcome_ok_def dest: response_bundle_parsed)
    qed (use True in \<open>auto simp: eq current_iff outcome_ok_def\<close>)
  qed
qed

end

text \<open>A property of the state that every operation of the runtime keeps holds after a run.\<close>

locale refresh_invariant = refresh_contract rt epoch start
  for rt :: "('s, 'b) refresh_runtime" and epoch :: "'s \<Rightarrow> nat" and start :: nat +
  fixes inv :: "'s \<Rightarrow> bool"
  assumes request_inv: "inv s \<Longrightarrow> rt_request rt n x s = (r, s') \<Longrightarrow> inv s'"
    and wait_inv: "inv s \<Longrightarrow> inv (rt_wait rt n d s)"
    and accept_inv: "inv s \<Longrightarrow> rt_parseBundle rt v = Some b \<Longrightarrow> inv (rt_acceptBundle rt b s)"
    and clear_inv: "inv s \<Longrightarrow> inv (rt_clear rt y bs s)"
    and mark_inv: "inv s \<Longrightarrow> inv (rt_markTransient rt s)"
begin

lemma run_inv: "inv s \<Longrightarrow> inv (snd (run rt n r m s))"
proof (induction "rounds_left r m" arbitrary: n r m s rule: less_induct)
  case less
  obtain resp s1 where req: "rt_request rt n (rt_getExpectedSID rt s) s = (resp, s1)"
    by fastforce
  note eq = run_decide [OF req, of r m]
  from request_inv [OF less.prems req] have s1: "inv s1" .
  let ?d = "decide (response_bundle rt resp) resp r m"
  show ?case
  proof (cases ?d)
    case D_race
    then have r: "r < 3" by (rule decide_cases)
    from less.hyps [OF rounds_left_less(1) [OF r] wait_inv [OF s1]] less.prems s1 D_race
    show ?thesis by (simp add: eq)
  next
    case D_restart
    then have m: "m" by (rule decide_cases)
    from less.hyps [OF rounds_left_less(2) [OF m] clear_inv [OF s1]] less.prems s1 D_restart
    show ?thesis by (simp add: eq)
  next
    case (D_accept b)
    then obtain v where "rt_parseBundle rt v = Some b"
      using decide_cases(4) response_bundle_parsed by metis
    with accept_inv [OF s1 this] less.prems s1 D_accept show ?thesis by (simp add: eq)
  qed (use less.prems s1 in \<open>simp_all add: eq clear_inv mark_inv\<close>)
qed

end

lemma requestRefresh_tab [simp]:
  "rt_request (tab_runtime env e) n x w = (r, w') \<longleftrightarrow>
     r = requestRefresh (env_post env n) x \<and> w' = run_events (env_during_request env n) w"
  by (auto simp: tab_runtime_def)

interpretation tab_refresh: refresh_contract "tab_runtime env e" authEpoch e for env e
  by unfold_locales
    (auto simp: is_current_def tab_runtime_def clear_for_refresh_def run_events_epoch)

interpretation tab_refresh: refresh_invariant "tab_runtime env e" authEpoch e "\<lambda>w. auth_inv (auth w)"
  for env e
  by unfold_locales
    (auto simp: tab_runtime_def clear_for_refresh_def run_events_inv isAuthBundle_valid)

lemma tab_runtime_ops [simp]:
  "rt_parseBundle (tab_runtime env e) = isAuthBundle"
  "rt_acceptBundle (tab_runtime env e) b = applyAuthBundle b False"
  "rt_clear (tab_runtime env e) y None = clearAuthentication y Complete"
  "rt_markTransient (tab_runtime env e) w = w\<lparr>auth := setBootstrapState Idle (auth w)\<rparr>"
  by (auto simp: tab_runtime_def clear_for_refresh_def coalesce_def)

text \<open>The state of a tab after a refresh, by outcome.\<close>

definition refresh_post :: "tab \<Rightarrow> auth_bundle refresh_outcome \<Rightarrow> tab \<Rightarrow> bool" where
  "refresh_post w res w' =
     (case res of
        Authenticated b \<Rightarrow> valid_bundle b \<and> user (auth w') = Some (bundle_user b)
          \<and> credentials w' = (Some (access_token b), Some (access_expires_at b), Some (bundle_session b))
          \<and> bootstrapState (auth w') = Complete \<and> authEpoch w' = Suc (authEpoch w)
      | Transient_error Superseded \<Rightarrow> authEpoch w < authEpoch w'
      | Transient_error (Failed _) \<Rightarrow> bootstrapState (auth w') = Idle \<and> authEpoch w' = authEpoch w
      | _ \<Rightarrow> user (auth w') = None \<and> credentials w' = (None, None, None)
          \<and> bootstrapState (auth w') = Complete \<and> authEpoch w' = Suc (authEpoch w))"

lemma refresh_post_holds:
  "refresh_post w (fst (refreshAuthentication env w)) (snd (refreshAuthentication env w))"
  using tab_refresh.run_outcome [of "authEpoch w" w env 0 0 True]
  by (auto simp: refreshAuthentication_def runRefresh_def createRefreshRunner_def refresh_post_def
      tab_refresh.outcome_ok_def credentials_def setBundle_def reset_def setBootstrapState_def
      isAuthBundle_valid split: refresh_outcome.splits refresh_error.splits)

lemma refresh_keeps_inv:
  "auth_inv (auth w) \<Longrightarrow> auth_inv (auth (snd (refreshAuthentication env w)))"
  unfolding refreshAuthentication_def runRefresh_def createRefreshRunner_def
  by (rule tab_refresh.run_inv)

lemma common_headers:
  "accessToken (auth w) = Some t \<Longrightarrow> t \<noteq> [] \<Longrightarrow> getCommonHeaders w =
     [(lit ''Content-Type'', lit ''application/json''), (lit ''Authorization'', lit ''Bearer '' @ t)]"
  by (simp add: getCommonHeaders_def)

lemma fresh_token: "token_fresh_after k w \<Longrightarrow> \<exists>t. accessToken (auth w) = Some t \<and> t \<noteq> []"
  by (auto simp: token_fresh_after_def split: option.splits)

subsection \<open>Reachable states of a tab\<close>

text \<open>
  Every change of the store, one at a time: the events of \<open>tab_step\<close>, the three operations that the
  runtime of a refresh gives to the runner, and the two states that the bootstrap sets. They may follow
  each other in any order, so that the states between the steps of a refresh are among the reachable ones.
\<close>

inductive tab_reach :: "tab \<Rightarrow> bool" where
  tab_start: "tab_reach initial_tab"
| tab_event: "tab_reach w \<Longrightarrow> tab_reach (tab_step e w)"
| tab_accept: "tab_reach w \<Longrightarrow> isAuthBundle v = Some b \<Longrightarrow> tab_reach (applyAuthBundle b False w)"
| tab_clear: "tab_reach w \<Longrightarrow> tab_reach (clear_for_refresh y bs w)"
| tab_transient: "tab_reach w \<Longrightarrow> tab_reach (w\<lparr>auth := setBootstrapState Idle (auth w)\<rparr>)"
| tab_valid: "tab_reach w \<Longrightarrow> currentValidAuthBundle now w = Some b \<Longrightarrow>
    tab_reach (w\<lparr>auth := setBootstrapState Complete (auth w)\<rparr>)"

text \<open>
  The invariant: the store is consistent, an event is published only for a named session, and only by
  an operation that advances the epoch.
\<close>

definition tab_inv :: "tab \<Rightarrow> bool" where
  "tab_inv w \<longleftrightarrow> auth_inv (auth w) \<and> list_all (\<lambda>(k, s). s \<noteq> []) (published w) \<and> length (published w) \<le> authEpoch w"

lemma tab_inv_auth: "tab_inv w \<Longrightarrow> auth_inv (st (auth w)) \<Longrightarrow> tab_inv (w\<lparr>auth := st (auth w)\<rparr>)"
  by (simp add: tab_inv_def)

lemma tab_inv_apply: "tab_inv w \<Longrightarrow> valid_bundle b \<Longrightarrow> tab_inv (applyAuthBundle b sync w)"
  by (auto simp: tab_inv_def apply_defs valid_bundle_def [of b] intro: auth_inv_setters(1))

lemma tab_inv_clear: "tab_inv w \<Longrightarrow> tab_inv (clearAuthentication sync bs w)"
  by (auto simp: tab_inv_def apply_defs split: option.split)

lemma tab_inv_step: "tab_inv w \<Longrightarrow> tab_inv (tab_step e w)"
proof (cases e)
  case (Rotate v)
  assume inv: "tab_inv w"
  show ?thesis
  proof (cases "applyAuthRotation v w")
    case (Inr w')
    then show ?thesis
      using Rotate applyAuthRotation_valid [OF Inr] tab_inv_apply [OF inv] by auto
  qed (simp add: Rotate inv)
next
  case (Remote ev)
  assume "tab_inv w"
  then show ?thesis
    using Remote onAuthSessionEvent_cases [of ev w] tab_inv_clear by auto
qed (auto intro!: tab_inv_apply tab_inv_clear tab_inv_auth dest: isAuthBundle_valid simp: tab_inv_def [of w] split: option.splits)

lemma tab_inv_clear_for_refresh: "tab_inv w \<Longrightarrow> tab_inv (clear_for_refresh y bs w)"
  by (auto simp: clear_for_refresh_def tab_inv_clear intro: tab_inv_auth)

lemma tab_inv_bootstrap: "tab_inv w \<Longrightarrow> tab_inv (w\<lparr>auth := setBootstrapState bs (auth w)\<rparr>)"
  by (simp add: tab_inv_def)

lemma tab_reach_tab_inv: "tab_reach w \<Longrightarrow> tab_inv w"
proof (induction rule: tab_reach.induct)
  case tab_start
  then show ?case
    by (simp add: tab_inv_def initial_tab_def initial_auth_def auth_inv_def)
qed (auto intro: tab_inv_step tab_inv_apply tab_inv_clear_for_refresh isAuthBundle_valid tab_inv_bootstrap)

lemma tab_reach_events: "tab_reach w \<Longrightarrow> tab_reach (run_events es w)"
  by (induction es arbitrary: w) (simp_all add: tab_event)

text \<open>A refresh is a sequence of such steps, and so are the bootstrap and the request for headers.\<close>

interpretation tab_refresh_reach: refresh_invariant "tab_runtime env e" authEpoch e tab_reach for env e
  by unfold_locales
    (auto simp: tab_runtime_def tab_reach_events tab_clear tab_transient intro: tab_accept)

lemma refresh_reach: "tab_reach w \<Longrightarrow> tab_reach (snd (refreshAuthentication env w))"
  unfolding refreshAuthentication_def runRefresh_def createRefreshRunner_def
  by (rule tab_refresh_reach.run_inv)

lemma bootstrap_reach: "tab_reach w \<Longrightarrow> tab_reach (snd (bootstrapAuthentication env now w))"
  using tab_event [of w Start_check] refresh_reach
  by (auto simp: bootstrapAuthentication_def Let_def intro: tab_valid split: option.split)

lemma headers_reach: "tab_reach w \<Longrightarrow> tab_reach (snd (getFreshAuthHeaders env now later w))"
  using refresh_reach [of w env]
  by (auto simp: getFreshAuthHeaders_def split: prod.split refresh_outcome.split)

subsection \<open>Properties\<close>

text \<open>
  C1. A refresh ends, whatever the server answers and whatever else happens in the tab: the runner
  sends at most 8 requests and waits at most 1560 milliseconds. Every action it takes on the
  authentication state is taken while its epoch is current, so that it never overwrites a login,
  a sign-out or a rotation that came after its start. Recording the actions does not change what
  the runner does.
\<close>

theorem refresh_runner_bounded:
  "\<exists>log. createRefreshRunner (instrument rt) (s, []) =
       (fst (createRefreshRunner rt s), (snd (createRefreshRunner rt s), log))
     \<and> list_all snd log \<and> requests log \<le> 8 \<and> waited log \<le> 1560"
  using run_instrument [of 0 rt 0 True s "[]"]
  by (simp add: createRefreshRunner_def request_budget_def wait_budget_def refreshRaceDelays_def)

text \<open>
  C2. The state after a refresh of a tab, for every network behaviour and every interleaving with
  other events: an authenticated refresh leaves exactly the returned, valid bundle in the store;
  an anonymous or out-of-sync one leaves no credentials and no user; a superseded one ends in a
  later epoch; a failed one leaves the epoch and lets the next bootstrap try again. The invariant
  of the store is kept.
\<close>

theorem refreshAuthentication_outcome:
  assumes "auth_inv (auth w)"
  shows "refresh_post w (fst (refreshAuthentication env w)) (snd (refreshAuthentication env w))
    \<and> auth_inv (auth (snd (refreshAuthentication env w)))"
  using refresh_post_holds refresh_keeps_inv [OF assms] by blast

text \<open>A server that refuses the first attempt with a race and answers the second with a bundle.\<close>

definition sample_bundle_val :: jsval where
  "sample_bundle_val = JObj [(lit ''access_token'', JStr (lit ''tok'')),
     (lit ''token_type'', JStr (lit ''Bearer'')), (lit ''access_expires_at'', JNum (Fin 5000)),
     (lit ''user'', JObj [(lit ''id'', JNum (Fin 7)), (lit ''username'', JStr (lit ''root'')),
        (lit ''role'', JNum (Fin 100))]),
     (lit ''session'', sample_session_val)]"

definition sample_env :: refresh_env where
  "sample_env = \<lparr>env_post = (\<lambda>n x. if n = 0
       then Axios_error (Some (409, JObj [(lit ''code'', JStr (lit ''AUTH_REFRESH_RACE''))])) Undefined
       else Http_ok 200 (JObj [(lit ''success'', JBool True), (lit ''data'', sample_bundle_val)])),
     env_during_request = (\<lambda>n. []), env_during_wait = (\<lambda>n. [])\<rparr>"

definition sample_login_env :: refresh_env where
  "sample_login_env = sample_env\<lparr>env_during_wait := (\<lambda>n. [Login sample_bundle_val])\<rparr>"

lemma sample_bundle_parsed: "isAuthBundle sample_bundle_val = Some
    (sample_bundle\<lparr>bundle_user := sample_user\<lparr>other_fields :=
       [(lit ''id'', JNum (Fin 7)), (lit ''username'', JStr (lit ''root'')), (lit ''role'', JNum (Fin 100))]\<rparr>\<rparr>)"
  by (simp add: isAuthBundle_def sample_bundle_val_def sample_session_val_def sample_bundle_def
      sample_user_def sample_session_def hasValidTokenFields_def isLoginSession_def isAuthUser_def
      isRecord_def num_isFinite_def num_isInteger_def)

lemma sample_refresh_authenticated:
  "\<exists>b. fst (refreshAuthentication sample_env initial_tab) = Authenticated b \<and> access_token b = lit ''tok''"
  using sample_bundle_parsed
  by (simp add: refreshAuthentication_def runRefresh_def createRefreshRunner_def run.simps
      is_current_def tab_runtime_def requestRefresh_def response_bundle_def response_data_def
      response_code_def isRecord_def sample_env_def refreshRaceDelays_def sample_bundle_def Let_def)

lemma sample_refresh_superseded:
  "fst (refreshAuthentication sample_login_env initial_tab) = superseded"
  using sample_bundle_parsed
  by (simp add: refreshAuthentication_def runRefresh_def createRefreshRunner_def run.simps
      is_current_def tab_runtime_def requestRefresh_def response_bundle_def response_data_def
      response_code_def isRecord_def sample_env_def sample_login_env_def refreshRaceDelays_def Let_def)

lemma initial_tab_inv: "auth_inv (auth initial_tab)"
  by (simp add: initial_tab_def initial_auth_def auth_inv_def)

theorem refreshAuthentication_outcome_witness:
  "(\<exists>b. fst (refreshAuthentication sample_env initial_tab) = Authenticated b
     \<and> accessToken (auth (snd (refreshAuthentication sample_env initial_tab))) = Some (lit ''tok''))
   \<and> authEpoch initial_tab < authEpoch (snd (refreshAuthentication sample_login_env initial_tab))"
  using refreshAuthentication_outcome [OF initial_tab_inv, of sample_env]
    refreshAuthentication_outcome [OF initial_tab_inv, of sample_login_env]
    sample_refresh_authenticated sample_refresh_superseded
  by (auto simp: refresh_post_def credentials_def superseded_def)

text \<open>
  C3. Headers for a stream request always carry the token that is in the store at that moment:
  when headers are returned, they hold a token that is not empty; when they are refused, the
  store has no token that is still valid at the time of the refusal.
\<close>

theorem getFreshAuthHeaders_outcome:
  "case getFreshAuthHeaders env now later w of
     (Inr hs, w') \<Rightarrow> \<exists>t. accessToken (auth w') = Some t \<and> t \<noteq> []
        \<and> hs = [(lit ''Content-Type'', lit ''application/json''), (lit ''Authorization'', lit ''Bearer '' @ t)]
   | (Inl e, w') \<Rightarrow> \<not> token_fresh_after later w' \<and> \<not> token_fresh_after (now + 60) w"
proof -
  obtain res w1 where res: "refreshAuthentication env w = (res, w1)" by fastforce
  have post: "refresh_post w res w1" using refresh_post_holds [of w env] by (simp add: res)
  show ?thesis
  proof (cases "\<exists>b. res = Authenticated b")
    case True
    then obtain b where b: "res = Authenticated b" by blast
    with post have "accessToken (auth w1) = Some (access_token b)" "access_token b \<noteq> []"
      by (simp_all add: refresh_post_def credentials_def valid_bundle_def)
    with b show ?thesis
      by (auto simp: getFreshAuthHeaders_def res common_headers dest: fresh_token)
  next
    case False
    then show ?thesis
      by (auto simp: getFreshAuthHeaders_def res common_headers dest!: fresh_token
          split: refresh_outcome.splits)
  qed
qed

text \<open>
  C4. Bootstrap is sound: an authenticated result means that the store holds the token and the
  session of the returned bundle, and an anonymous result means that the store holds neither a
  token nor a session, whatever happened during the refresh.
\<close>

theorem bootstrapAuthentication_sound:
  assumes "auth_inv (auth w)"
  shows "case bootstrapAuthentication env now w of
      (Authenticated b, w') \<Rightarrow> accessToken (auth w') = Some (access_token b)
         \<and> session (auth w') = Some (bundle_session b)
    | (Anonymous, w') \<Rightarrow> credentials w' = (None, None, None)
    | _ \<Rightarrow> True"
proof (cases "currentValidAuthBundle now w")
  case (Some b)
  then show ?thesis
    by (auto simp: bootstrapAuthentication_def currentValidAuthBundle_def setBootstrapState_def
        split: option.splits if_splits)
next
  case None
  let ?w = "w\<lparr>auth := setBootstrapState Checking (auth w)\<rparr>"
  obtain res w1 where res: "refreshAuthentication env ?w = (res, w1)" by fastforce
  have post: "refresh_post ?w res w1" using refresh_post_holds [of ?w env] by (simp add: res)
  show ?thesis
  proof (cases "bootstrapState (auth w) = Complete \<and> \<not> (user (auth w) \<noteq> None \<and> session (auth w) \<noteq> None)")
    case True
    with assms None show ?thesis
      by (auto simp: bootstrapAuthentication_def auth_inv_def credentials_def split: option.splits)
  next
    case False
    with None res post show ?thesis
      by (auto simp: bootstrapAuthentication_def refresh_post_def credentials_def
          split: refresh_outcome.splits)
  qed
qed

theorem bootstrapAuthentication_sound_witness:
  "\<exists>b w'. bootstrapAuthentication sample_env 1000 sample_tab = (Authenticated b, w')
     \<and> accessToken (auth w') = Some (lit ''tok'') \<and> session (auth w') = Some (bundle_session b)"
proof -
  have inv: "auth_inv (auth sample_tab)"
    by (simp add: sample_tab_def valid_bundle_def sample_bundle_def sample_session_def num_isFinite_def)
  have "currentValidAuthBundle 1000 sample_tab \<noteq> None"
    by (simp add: currentValidAuthBundle_def sample_tab_def setBundle_def sample_bundle_def
        num_truthy_def num_less_eq_def of_int_num_def)
  moreover have "accessToken (auth sample_tab) = Some (lit ''tok'')"
    by (simp add: sample_tab_def setBundle_def sample_bundle_def)
  ultimately show ?thesis
    using bootstrapAuthentication_sound [OF inv, of sample_env 1000]
    by (auto simp: bootstrapAuthentication_def setBootstrapState_def)
qed

text \<open>
  C17. In every state that a tab reaches by any sequence of changes of its store (logins, sign-outs,
  expiries, token rotations, edits of the user, two-factor steps, events of other tabs, and each single
  step of token refreshes and of the bootstrap), the access token, its expiry and the session are present
  together or absent together, a token in the store is usable (not empty, with a finite positive expiry, a
  named session and a user), and the tab has published events of named sessions only, at most one per
  epoch. A whole refresh, a bootstrap and a request for fresh headers lead from such a state to such a
  state, whatever the server answers and whatever happens meanwhile.
\<close>

theorem tab_store_invariant:
  assumes "tab_reach w"
  shows "tab_inv w \<and> tab_reach (snd (refreshAuthentication env w)) \<and>
    tab_reach (snd (bootstrapAuthentication env now w)) \<and> tab_reach (snd (getFreshAuthHeaders env now later w))"
  using tab_reach_tab_inv refresh_reach bootstrap_reach headers_reach assms by blast

theorem tab_store_invariant_witness:
  "tab_inv (tab_step SignOut (tab_step (Login sample_bundle_val) initial_tab)) \<and>
   published (tab_step SignOut (tab_step (Login sample_bundle_val) initial_tab)) =
     [(Authenticated_event, lit ''s1''), (Signed_out_event, lit ''s1'')]"
proof
  have "tab_reach (tab_step SignOut (tab_step (Login sample_bundle_val) initial_tab))"
    by (intro tab_event tab_start)
  then show "tab_inv (tab_step SignOut (tab_step (Login sample_bundle_val) initial_tab))"
    using tab_store_invariant by blast
  show "published (tab_step SignOut (tab_step (Login sample_bundle_val) initial_tab)) =
     [(Authenticated_event, lit ''s1''), (Signed_out_event, lit ''s1'')]"
    using sample_bundle_parsed
    by (simp add: apply_defs currentSID_def setBundle_def initial_tab_def initial_auth_def sample_bundle_def sample_session_def)
qed

end
