(* ===== verification/JS_Json.thy ===== *)
theory JS_Json
  imports JS_Value
begin

section \<open>JSON texts\<close>

text \<open>
  \<^verbatim>\<open>JSON.parse\<close> as the language defines it, on strings of code units: white space, literals,
  strings with escapes, numbers, arrays and objects. \<open>None\<close> stands for the thrown
  \<^verbatim>\<open>SyntaxError\<close>. Numbers are exact (no rounding to a double). A repeated property name keeps its
  first position and takes the last value. The parser recurses on fuel; \<open>json_parse\<close> gives enough
  of it for every text (\<open>parse_value_fuel\<close>).
\<close>

definition is_json_ws :: "nat \<Rightarrow> bool" where
  "is_json_ws c \<longleftrightarrow> c = 32 \<or> c = 9 \<or> c = 10 \<or> c = 13"

definition skip_ws :: "jstring \<Rightarrow> jstring" where
  "skip_ws s = dropWhile is_json_ws s"

definition hex_val :: "nat \<Rightarrow> nat option" where
  "hex_val c = (if 48 \<le> c \<and> c \<le> 57 then Some (c - 48)
     else if 97 \<le> c \<and> c \<le> 102 then Some (c - 87)
     else if 65 \<le> c \<and> c \<le> 70 then Some (c - 55) else None)"

fun hex4 :: "jstring \<Rightarrow> (nat \<times> jstring) option" where
  "hex4 (a # b # c # d # s) =
     (case (hex_val a, hex_val b, hex_val c, hex_val d) of
        (Some a', Some b', Some c', Some d') \<Rightarrow> Some (((a' * 16 + b') * 16 + c') * 16 + d', s)
      | _ \<Rightarrow> None)"
| "hex4 _ = None"

lemma hex4_shorter: "hex4 s = Some (u, s') \<Longrightarrow> length s' < length s"
  by (induction s rule: hex4.induct) (auto split: option.splits)

definition simple_escape :: "nat \<Rightarrow> nat option" where
  "simple_escape c = (if c = 34 \<or> c = 92 \<or> c = 47 then Some c
     else if c = 98 then Some 8 else if c = 102 then Some 12 else if c = 110 then Some 10
     else if c = 114 then Some 13 else if c = 116 then Some 9 else None)"

text \<open>The rest of a string literal after its opening quote.\<close>

function parse_string :: "jstring \<Rightarrow> jstring \<Rightarrow> (jstring \<times> jstring) option" where
  "parse_string acc [] = None"
| "parse_string acc (c # s) =
     (if c = 34 then Some (acc, s)
      else if c = 92 then
        (case s of
           [] \<Rightarrow> None
         | e # s' \<Rightarrow>
             if e = 117 then
               (case hex4 s' of None \<Rightarrow> None | Some (u, s'') \<Rightarrow> parse_string (acc @ [u]) s'')
             else (case simple_escape e of None \<Rightarrow> None | Some u \<Rightarrow> parse_string (acc @ [u]) s'))
      else if c < 32 then None
      else parse_string (acc @ [c]) s)"
  by pat_completeness auto
termination
  by (relation "measure (\<lambda>(a, s). length s)") (auto dest: hex4_shorter)

definition digits_prefix :: "jstring \<Rightarrow> jstring \<times> jstring" where
  "digits_prefix s = (takeWhile is_digit s, dropWhile is_digit s)"

definition parse_exponent :: "jstring \<Rightarrow> (int \<times> jstring) option" where
  "parse_exponent s =
     (case s of
        e # s1 \<Rightarrow>
          if e = 101 \<or> e = 69 then
            (let (neg, s2) = (case s1 of c # s' \<Rightarrow> if c = 45 then (True, s') else if c = 43 then (False, s') else (False, s1)
                              | [] \<Rightarrow> (False, s1));
                 (ds, s3) = digits_prefix s2
             in if ds = [] then None
                else Some (if neg then - int (read_nat ds) else int (read_nat ds), s3))
          else Some (0, s)
      | [] \<Rightarrow> Some (0, s))"

definition power10 :: "int \<Rightarrow> rat" where
  "power10 e = (if e \<ge> 0 then 10 ^ nat e else 1 / 10 ^ nat (- e))"

definition parse_number :: "jstring \<Rightarrow> (jnum \<times> jstring) option" where
  "parse_number s =
     (let (neg, s1) = (case s of c # s' \<Rightarrow> if c = 45 then (True, s') else (False, s) | [] \<Rightarrow> (False, s));
          (ds, s2) = digits_prefix s1
      in if ds = [] \<or> (hd ds = 48 \<and> length ds > 1) then None
         else case (case s2 of
                      c # s3 \<Rightarrow> if c = 46 then (let (fs, s4) = digits_prefix s3 in if fs = [] then None else Some (fs, s4))
                               else Some ([], s2)
                    | [] \<Rightarrow> Some ([], s2)) of
           None \<Rightarrow> None
         | Some (fs, s5) \<Rightarrow>
             (case parse_exponent s5 of
                None \<Rightarrow> None
              | Some (e, s6) \<Rightarrow>
                  let q = rat_of_nat (read_nat (ds @ fs)) * power10 (e - int (length fs))
                  in Some (if neg then (if q = 0 then NegZero else Fin (- q)) else Fin q, s6)))"

definition expect :: "jstring \<Rightarrow> jsval \<Rightarrow> jstring \<Rightarrow> (jsval \<times> jstring) option" where
  "expect w v s = (if starts_with s w then Some (v, drop (length w) s) else None)"

fun parse_value :: "nat \<Rightarrow> jstring \<Rightarrow> (jsval \<times> jstring) option"
  and parse_elements :: "nat \<Rightarrow> jsval list \<Rightarrow> jstring \<Rightarrow> (jsval \<times> jstring) option"
  and parse_members :: "nat \<Rightarrow> (jstring \<times> jsval) list \<Rightarrow> jstring \<Rightarrow> (jsval \<times> jstring) option" where
  "parse_value 0 s = None"
| "parse_value (Suc n) s =
     (case skip_ws s of
        [] \<Rightarrow> None
      | c # s' \<Rightarrow>
          if c = 123 then
            (case skip_ws s' of
               d # s'' \<Rightarrow> if d = 125 then Some (JObj [], s'') else parse_members n [] s'
             | [] \<Rightarrow> None)
          else if c = 91 then
            (case skip_ws s' of
               d # s'' \<Rightarrow> if d = 93 then Some (JArr [], s'') else parse_elements n [] s'
             | [] \<Rightarrow> None)
          else if c = 34 then map_option (\<lambda>(str, r). (JStr str, r)) (parse_string [] s')
          else if c = 116 then expect (lit ''true'') (JBool True) (c # s')
          else if c = 102 then expect (lit ''false'') (JBool False) (c # s')
          else if c = 110 then expect (lit ''null'') Null (c # s')
          else map_option (\<lambda>(x, r). (JNum x, r)) (parse_number (c # s')))"
| "parse_elements 0 acc s = None"
| "parse_elements (Suc n) acc s =
     (case parse_value n s of
        None \<Rightarrow> None
      | Some (v, r) \<Rightarrow>
          (case skip_ws r of
             c # r' \<Rightarrow> if c = 44 then parse_elements n (acc @ [v]) r'
                      else if c = 93 then Some (JArr (acc @ [v]), r') else None
           | [] \<Rightarrow> None))"
| "parse_members 0 acc s = None"
| "parse_members (Suc n) acc s =
     (case skip_ws s of
        c # s' \<Rightarrow>
          if c \<noteq> 34 then None
          else (case parse_string [] s' of
                  None \<Rightarrow> None
                | Some (k, r) \<Rightarrow>
                    (case skip_ws r of
                       c1 # r1 \<Rightarrow>
                         if c1 \<noteq> 58 then None
                         else (case parse_value n r1 of
                                 None \<Rightarrow> None
                               | Some (v, r2) \<Rightarrow>
                                   (case skip_ws r2 of
                                      c2 # r3 \<Rightarrow>
                                        if c2 = 44 then parse_members n (AList.update k v acc) r3
                                        else if c2 = 125 then Some (JObj (AList.update k v acc), r3) else None
                                    | [] \<Rightarrow> None))
                     | [] \<Rightarrow> None))
      | [] \<Rightarrow> None)"

definition json_parse :: "jstring \<Rightarrow> jsval option" where
  "json_parse s =
     (case parse_value (2 * length s + 2) s of
        Some (v, r) \<Rightarrow> if skip_ws r = [] then Some v else None
      | None \<Rightarrow> None)"

subsection \<open>The fuel is enough\<close>

lemma skip_ws_length: "length (skip_ws s) \<le> length s"
  by (simp add: skip_ws_def length_dropWhile_le)

lemma skip_ws_Cons_length: "skip_ws s = c # s' \<Longrightarrow> length s' < length s"
  using skip_ws_length [of s] by simp

lemma parse_string_shorter: "parse_string acc s = Some (k, r) \<Longrightarrow> length r < length s"
  by (induction acc s rule: parse_string.induct)
    (force split: if_splits list.splits option.splits dest: hex4_shorter)+

lemma digits_prefix_length: "digits_prefix s = (ds, r) \<Longrightarrow> length s = length ds + length r"
  by (auto simp: digits_prefix_def simp flip: length_append)

lemma parse_exponent_length: "parse_exponent s = Some (e, r) \<Longrightarrow> length r \<le> length s"
  by (auto simp: parse_exponent_def split: list.splits if_splits prod.splits
      dest!: digits_prefix_length)

lemma parse_number_shorter:
  assumes "parse_number s = Some (x, r)"
  shows "length r < length s"
proof -
  obtain neg s1 where s1: "(case s of c # s' \<Rightarrow> if c = 45 then (True, s') else (False, s) | [] \<Rightarrow> (False, s)) = (neg, s1)"
    by fastforce
  then have l1: "length s1 \<le> length s" by (auto split: list.splits if_splits)
  obtain ds s2 where d: "digits_prefix s1 = (ds, s2)" by fastforce
  with assms s1 have ds: "ds \<noteq> []" by (auto simp: parse_number_def)
  from d ds have l2: "length s2 < length s1" using digits_prefix_length by force
  from assms s1 d ds obtain fs s5 e where
    f: "(case s2 of c # s3 \<Rightarrow> if c = 46 then (let (fs, s4) = digits_prefix s3 in if fs = [] then None else Some (fs, s4))
                               else Some ([], s2)
        | [] \<Rightarrow> Some ([], s2)) = Some (fs, s5)" and e: "parse_exponent s5 = Some (e, r)"
    by (auto simp: parse_number_def Let_def split: option.splits if_splits prod.splits)
  from f have "length s5 \<le> length s2"
    by (auto split: list.splits if_splits prod.splits dest!: digits_prefix_length)
  with l1 l2 parse_exponent_length [OF e] show ?thesis by simp
qed

lemma expect_shorter: "expect w v s = Some (x, r) \<Longrightarrow> w \<noteq> [] \<Longrightarrow> length r < length s"
  by (cases s) (auto simp: expect_def starts_with_def split: if_splits)

lemma parse_shorter:
  "(\<forall>s v r. parse_value n s = Some (v, r) \<longrightarrow> length r < length s)
   \<and> (\<forall>acc s v r. parse_elements n acc s = Some (v, r) \<longrightarrow> length r < length s)
   \<and> (\<forall>acc s v r. parse_members n acc s = Some (v, r) \<longrightarrow> length r < length s)"
proof (induction n)
  case (Suc n)
  have "length r < length s" if "parse_value (Suc n) s = Some (v, r)" for s v r
    using that Suc skip_ws_length [of s]
    by (auto split: list.splits if_splits
        dest!: skip_ws_Cons_length parse_string_shorter parse_number_shorter expect_shorter)
      (fastforce dest: skip_ws_Cons_length parse_string_shorter parse_number_shorter expect_shorter)+
  moreover have "length r < length s" if "parse_elements (Suc n) acc s = Some (v, r)" for acc s v r
    using that Suc
    by (auto split: list.splits if_splits option.splits dest!: skip_ws_Cons_length)
      (meson less_trans)+
  moreover have "length r < length s" if "parse_members (Suc n) acc s = Some (v, r)" for acc s v r
    using that Suc
    by (auto split: list.splits if_splits option.splits dest!: skip_ws_Cons_length parse_string_shorter)
      (meson less_trans)+
  ultimately show ?case by blast
qed simp

lemmas parse_value_shorter = parse_shorter [THEN conjunct1, rule_format]

lemma parse_more_fuel:
  "(\<forall>s. 2 * length s < n \<longrightarrow> parse_value (Suc n) s = parse_value n s)
   \<and> (\<forall>acc s. 2 * length s + 1 < n \<longrightarrow> parse_elements (Suc n) acc s = parse_elements n acc s)
   \<and> (\<forall>acc s. 2 * length s + 1 < n \<longrightarrow> parse_members (Suc n) acc s = parse_members n acc s)"
proof (induction n)
  case (Suc n)
  note IH = Suc [THEN conjunct1, rule_format] Suc [THEN conjunct2, THEN conjunct1, rule_format]
    Suc [THEN conjunct2, THEN conjunct2, rule_format]
  have "parse_value (Suc (Suc n)) s = parse_value (Suc n) s" if "2 * length s < Suc n" for s
  proof (cases "skip_ws s")
    case (Cons c s')
    with skip_ws_Cons_length [OF Cons] that have "2 * length s' + 1 < n" by simp
    then show ?thesis
      by (simp only: parse_value.simps(2) IH Cons list.case)
  qed simp
  moreover have "parse_elements (Suc (Suc n)) acc s = parse_elements (Suc n) acc s"
    if "2 * length s + 1 < Suc n" for acc s
  proof (cases "parse_value n s")
    case (Some p)
    obtain v r where p: "p = (v, r)" by fastforce
    have "2 * length r' + 1 < n" if "skip_ws r = c # r'" for c r'
      using that \<open>2 * length s + 1 < Suc n\<close> Some p parse_value_shorter [of n s v r] skip_ws_Cons_length [of r]
      by fastforce
    then show ?thesis using that Some p IH(1) [of s]
      by (auto simp: parse_elements.simps(2) [of "Suc n" acc s] parse_elements.simps(2) [of n acc s] IH(2)
          simp del: parse_value.simps parse_elements.simps split: list.splits)
  qed (use that IH(1) [of s] in \<open>simp del: parse_value.simps\<close>)
  moreover have "parse_members (Suc (Suc n)) acc s = parse_members (Suc n) acc s"
    if len: "2 * length s + 1 < Suc n" for acc s
  proof -
    have a: "2 * length r1 < n" if "skip_ws s = c # s'" "parse_string [] s' = Some (k, r)" "skip_ws r = c1 # r1"
      for c s' k r c1 r1
      using that len by (fastforce dest!: skip_ws_Cons_length parse_string_shorter)
    have b: "2 * length r3 + 1 < n"
      if "skip_ws s = c # s'" "parse_string [] s' = Some (k, r)" "skip_ws r = c1 # r1"
        "parse_value n r1 = Some (v, r2)" "skip_ws r2 = c2 # r3" for c s' k r c1 r1 v r2 c2 r3
      using that len by (fastforce dest!: skip_ws_Cons_length parse_string_shorter parse_value_shorter)
    show ?thesis
      using a b
      by (auto simp: parse_members.simps(2) [of "Suc n" acc s] parse_members.simps(2) [of n acc s] IH(1) IH(3)
          simp del: parse_value.simps parse_members.simps split: list.splits option.splits)
  qed
  ultimately show ?case by blast
qed simp

text \<open>Every larger amount of fuel gives the same result: the parser never stops for lack of it.\<close>

lemma parse_value_fuel: "2 * length s < n \<Longrightarrow> parse_value (n + k) s = parse_value n s"
  by (induction k) (use parse_more_fuel [THEN conjunct1] in \<open>simp_all del: parse_value.simps\<close>)

end
