(* ===== verification/Playground_Messages.thy ===== *)
theory Playground_Messages
  imports JS_Value
begin

section \<open>Messages of the playground (\<^verbatim>\<open>web/src/features/playground/lib/message\<close>)\<close>

text \<open>
  The messages of a playground conversation and the functions that build, edit, stream into,
  finish and display them. Identifiers come from a third-party generator and times from the
  clock: both are arguments (\<open>now\<close> is the time at which an operation runs, in milliseconds). An
  optional field is an \<open>option\<close>.
\<close>

subsection \<open>Data\<close>

datatype message_role = Role_user | Role_assistant | Role_system

datatype message_status = Status_loading | Status_streaming | Status_complete | Status_error

record message_version =
  version_id :: jstring
  content :: jstring

record reasoning_info =
  reasoning_content :: jstring
  reasoning_duration :: int
  reasoning_startedAt :: "int option"
  reasoning_completedAt :: "int option"
  reasoning_durationMs :: "int option"

record message =
  key :: jstring
  from_role :: message_role
  versions :: "message_version list"
  createdAt :: "int option"
  startedAt :: "int option"
  completedAt :: "int option"
  durationMs :: "int option"
  sources :: "(jstring \<times> jstring) list option"
  reasoning :: "reasoning_info option"
  isReasoningStreaming :: "bool option"
  isReasoningComplete :: "bool option"
  isContentComplete :: "bool option"
  status :: "message_status option"
  errorCode :: "jstring option"

subsection \<open>Versions and construction (\<^verbatim>\<open>message-utils.ts\<close>)\<close>

definition createMessageVersion :: "jstring \<Rightarrow> jstring \<Rightarrow> message_version" where
  "createMessageVersion nanoid c = \<lparr>version_id = nanoid, content = c\<rparr>"

definition getCurrentVersion :: "message \<Rightarrow> message_version" where
  "getCurrentVersion m =
     (case versions m of v # _ \<Rightarrow> v | [] \<Rightarrow> \<lparr>version_id = lit ''default'', content = []\<rparr>)"

definition getMessageContent :: "message \<Rightarrow> jstring" where
  "getMessageContent m = content (getCurrentVersion m)"

definition hasMessageContent :: "message \<Rightarrow> bool" where
  "hasMessageContent m \<longleftrightarrow> trim (getMessageContent m) \<noteq> []"

definition updateCurrentVersionContent :: "message \<Rightarrow> jstring \<Rightarrow> message" where
  "updateCurrentVersionContent m c = m\<lparr>versions := [(getCurrentVersion m)\<lparr>content := c\<rparr>]\<rparr>"

text \<open>The two identifiers are the key of the message and of its version.\<close>

definition createUserMessage :: "jstring \<times> jstring \<Rightarrow> jstring \<Rightarrow> int \<Rightarrow> message" where
  "createUserMessage ids c at_ms =
     \<lparr>key = fst ids, from_role = Role_user, versions = [createMessageVersion (snd ids) c],
      createdAt = Some at_ms, startedAt = None, completedAt = None, durationMs = None, sources = None,
      reasoning = None, isReasoningStreaming = None, isReasoningComplete = None,
      isContentComplete = None, status = None, errorCode = None\<rparr>"

definition createLoadingAssistantMessage :: "jstring \<times> jstring \<Rightarrow> int \<Rightarrow> message" where
  "createLoadingAssistantMessage ids at_ms =
     \<lparr>key = fst ids, from_role = Role_assistant, versions = [createMessageVersion (snd ids) []],
      createdAt = Some at_ms, startedAt = Some at_ms, completedAt = None, durationMs = None, sources = None,
      reasoning = None, isReasoningStreaming = Some False, isReasoningComplete = Some False,
      isContentComplete = Some False, status = Some Status_loading, errorCode = None\<rparr>"

datatype content_part = Text_part jstring | Image_part jstring

definition buildMessageContent :: "jstring \<Rightarrow> jstring list \<Rightarrow> jstring + content_part list" where
  "buildMessageContent txt imageUrls =
     (let validImages = filter (\<lambda>url. trim url \<noteq> []) imageUrls in
      if validImages = [] then Inl txt
      else Inr (Text_part txt # map (\<lambda>url. Image_part (trim url)) validImages))"

fun first_text :: "content_part list \<Rightarrow> jstring" where
  "first_text [] = []"
| "first_text (Text_part t # ps) = t"
| "first_text (Image_part u # ps) = first_text ps"

fun getTextContent :: "jstring + content_part list \<Rightarrow> jstring" where
  "getTextContent (Inl s) = s"
| "getTextContent (Inr ps) = first_text ps"

record api_message =
  api_role :: message_role
  api_content :: jstring

definition formatMessageForAPI :: "message \<Rightarrow> api_message" where
  "formatMessageForAPI m = \<lparr>api_role = from_role m, api_content = content (getCurrentVersion m)\<rparr>"

definition isValidMessage :: "message \<Rightarrow> bool" where
  "isValidMessage m \<longleftrightarrow> versions m \<noteq> [] \<and> \<not> (from_role m = Role_assistant \<and> \<not> hasMessageContent m)"

subsection \<open>Think tags (\<^verbatim>\<open>message-reasoning-utils.ts\<close>)\<close>

definition open_tag :: jstring where
  "open_tag = lit ''<think>''"

definition close_tag :: jstring where
  "close_tag = lit ''</think>''"

lemma tag_lengths [simp]: "length open_tag = 7" "length close_tag = 8"
  by (simp_all add: open_tag_def close_tag_def)

lemma index_of_from_bound: "index_of_from s p i = Some k \<Longrightarrow> i \<le> k \<and> (p \<noteq> [] \<longrightarrow> k + length p \<le> length s)"
  using index_of_bound [of "drop i s" p] by (cases p) (auto simp: index_of_from_def)

function think_loop ::
    "jstring \<Rightarrow> nat \<Rightarrow> jstring list \<Rightarrow> jstring list \<Rightarrow> jstring list \<times> jstring list \<times> bool" where
  "think_loop c currentPos visibleParts reasoningParts =
     (case index_of_from c open_tag currentPos of
        None \<Rightarrow>
          (if currentPos < length c then visibleParts @ [drop currentPos c] else visibleParts,
           reasoningParts, False)
      | Some openPos \<Rightarrow>
          let visible = (if openPos > currentPos then visibleParts @ [slice c currentPos openPos]
                         else visibleParts)
          in case index_of_from c close_tag (openPos + 7) of
               None \<Rightarrow> (visible, reasoningParts @ [drop (openPos + 7) c], True)
             | Some closePos \<Rightarrow>
                 think_loop c (closePos + 8) visible (reasoningParts @ [slice c (openPos + 7) closePos]))"
  by pat_completeness auto
termination
  by (relation "measure (\<lambda>(c, p, v, r). length c - p)")
    (auto dest!: index_of_from_bound simp: close_tag_def open_tag_def)

declare think_loop.simps [simp del]

record parsed_think_tags =
  visibleContent :: jstring
  think_reasoning :: jstring
  hasUnclosedTag :: bool

definition parseThinkTags :: "jstring \<Rightarrow> parsed_think_tags" where
  "parseThinkTags c =
     (if \<not> str_includes c open_tag
      then \<lparr>visibleContent = c, think_reasoning = [], hasUnclosedTag = False\<rparr>
      else case think_loop c 0 [] [] of
        (visibleParts, reasoningParts, unclosed) \<Rightarrow>
          \<lparr>visibleContent = trim (join [] visibleParts),
           think_reasoning = trim (join [10, 10] reasoningParts), hasUnclosedTag = unclosed\<rparr>)"

subsection \<open>Timing (\<^verbatim>\<open>message-timing-utils.ts\<close>)\<close>

definition first_some :: "'a option \<Rightarrow> 'a option \<Rightarrow> 'a \<Rightarrow> 'a" where
  "first_some a b d = coalesce a (coalesce b d)"

definition completeAssistantTiming :: "int \<Rightarrow> message \<Rightarrow> message" where
  "completeAssistantTiming at_ms m =
     (if from_role m \<noteq> Role_assistant then m
      else let st = first_some (startedAt m) (createdAt m) at_ms
           in m\<lparr>startedAt := Some st, completedAt := Some at_ms, durationMs := Some (max 0 (at_ms - st))\<rparr>)"

definition startReasoningTiming :: "int \<Rightarrow> message \<Rightarrow> reasoning_info" where
  "startReasoningTiming at_ms m =
     (case reasoning m of
        None \<Rightarrow> \<lparr>reasoning_content = [], reasoning_duration = 0, reasoning_startedAt = Some at_ms,
                 reasoning_completedAt = None, reasoning_durationMs = None\<rparr>
      | Some r \<Rightarrow> r\<lparr>reasoning_startedAt := Some (coalesce (reasoning_startedAt r) at_ms)\<rparr>)"

text \<open>\<^verbatim>\<open>Math.ceil(ms / 1000)\<close>\<close>

definition ceil_seconds :: "int \<Rightarrow> int" where
  "ceil_seconds ms = - ((- ms) div 1000)"

definition completeReasoningTiming :: "int \<Rightarrow> message \<Rightarrow> message" where
  "completeReasoningTiming at_ms m =
     (case reasoning m of
        None \<Rightarrow> m
      | Some r \<Rightarrow>
          if reasoning_durationMs r \<noteq> None then m
          else let st = first_some (reasoning_startedAt r) (startedAt m) at_ms; d = max 0 (at_ms - st)
               in m\<lparr>reasoning := Some (r\<lparr>reasoning_startedAt := Some st, reasoning_completedAt := Some at_ms,
                      reasoning_durationMs := Some d, reasoning_duration := ceil_seconds d\<rparr>)\<rparr>)"

subsection \<open>Streaming (\<^verbatim>\<open>message-streaming-utils.ts\<close>)\<close>

definition processStreamingContent :: "int \<Rightarrow> message \<Rightarrow> jstring \<Rightarrow> message" where
  "processStreamingContent now m chunk =
     (let fullContent = getMessageContent m @ chunk in
      if reasoning m = None \<and> \<not> str_includes fullContent open_tag
      then (updateCurrentVersionContent m fullContent)\<lparr>isReasoningStreaming := Some False\<rparr>
      else let p = parseThinkTags fullContent;
               finalReasoning = (if think_reasoning p \<noteq> []
                  then Some ((startReasoningTiming now m)\<lparr>reasoning_content := think_reasoning p\<rparr>)
                  else reasoning m)
           in (updateCurrentVersionContent m fullContent)
                \<lparr>reasoning := finalReasoning, isReasoningStreaming := Some (hasUnclosedTag p)\<rparr>)"

datatype chunk_type = Chunk_reasoning | Chunk_content

definition getAppendableChunk :: "jstring \<Rightarrow> jstring \<Rightarrow> jstring" where
  "getAppendableChunk currentContent chunk =
     (if currentContent = [] \<or> \<not> starts_with chunk currentContent then chunk
      else drop (length currentContent) chunk)"

definition applyStreamingChunk :: "int \<Rightarrow> message \<Rightarrow> chunk_type \<Rightarrow> jstring \<Rightarrow> message" where
  "applyStreamingChunk now m typ chunk =
     (if status m = Some Status_error then m
      else case typ of
        Chunk_reasoning \<Rightarrow>
          let r = startReasoningTiming now m;
              appendable = getAppendableChunk (reasoning_content r) chunk
          in m\<lparr>reasoning := Some (r\<lparr>reasoning_content := reasoning_content r @ appendable\<rparr>),
               isReasoningStreaming := Some True, status := Some Status_streaming\<rparr>
      | Chunk_content \<Rightarrow>
          let appendable = getAppendableChunk (getMessageContent m) chunk;
              contentMessage = processStreamingContent now m appendable
          in (if isReasoningStreaming contentMessage = Some True then contentMessage
              else completeReasoningTiming now contentMessage)\<lparr>status := Some Status_streaming\<rparr>)"

definition finalizeMessage :: "int \<Rightarrow> message \<Rightarrow> jstring option \<Rightarrow> message" where
  "finalizeMessage now m apiReasoningContent =
     (let c = getMessageContent m;
          parsed = (if str_includes c open_tag then Some (parseThinkTags c) else None);
          visible = coalesce (map_option visibleContent parsed) c;
          finalReasoning = opt_or_str apiReasoningContent
            (opt_or_str (map_option reasoning_content (reasoning m))
              (coalesce (map_option think_reasoning parsed) []))
      in completeReasoningTiming now
           ((updateCurrentVersionContent m visible)
              \<lparr>reasoning := (if finalReasoning \<noteq> []
                 then Some ((startReasoningTiming now m)\<lparr>reasoning_content := finalReasoning\<rparr>) else None),
               isReasoningStreaming := Some False\<rparr>))"

definition completeAssistantMessage :: "int \<Rightarrow> message \<Rightarrow> message" where
  "completeAssistantMessage now m =
     completeAssistantTiming now ((finalizeMessage now m None)\<lparr>status := Some Status_complete\<rparr>)"

definition isAssistantMessageFinal :: "message \<Rightarrow> bool" where
  "isAssistantMessageFinal m \<longleftrightarrow> status m = Some Status_complete \<or> status m = Some Status_error"

definition isAssistantMessagePending :: "message \<Rightarrow> bool" where
  "isAssistantMessagePending m \<longleftrightarrow> status m = Some Status_loading \<or> status m = Some Status_streaming"

definition isPendingAssistantMessage :: "message \<Rightarrow> bool" where
  "isPendingAssistantMessage m \<longleftrightarrow> from_role m = Role_assistant \<and> isAssistantMessagePending m"

text \<open>A choice of a chat completion response: its content and its reasoning, both optional.\<close>

type_synonym choice = "jstring option \<times> jstring option"

definition applyChatCompletionResponse :: "int \<Rightarrow> message \<Rightarrow> choice list \<Rightarrow> message option" where
  "applyChatCompletionResponse now m choices =
     (case choices of
        [] \<Rightarrow> None
      | (c, r) # _ \<Rightarrow>
          Some (completeAssistantTiming now
            ((finalizeMessage now (updateCurrentVersionContent m (opt_or_str c [])) r)
               \<lparr>status := Some Status_complete\<rparr>)))"

text \<open>The last index with a pending assistant message, as the loop from the end finds it.\<close>

definition last_pending :: "message list \<Rightarrow> nat option" where
  "last_pending ms = map_option (\<lambda>i. length ms - 1 - i) (find_index isPendingAssistantMessage (rev ms))"

definition sanitize_message :: "int \<Rightarrow> (jstring \<Rightarrow> jstring) \<Rightarrow> message \<Rightarrow> message" where
  "sanitize_message now t m =
     (let finalized = finalizeMessage now m None;
          hasReasoning = (case reasoning finalized of None \<Rightarrow> False
                          | Some r \<Rightarrow> trim (reasoning_content r) \<noteq> [])
      in if hasMessageContent finalized \<or> hasReasoning
         then completeAssistantTiming now
           (finalized\<lparr>status := Some Status_complete, isReasoningStreaming := Some False\<rparr>)
         else completeAssistantTiming now
           ((updateCurrentVersionContent finalized
               (t (lit ''Request error occurred'') @ lit '': '' @ t (lit ''Generation was interrupted'')))
              \<lparr>status := Some Status_error, isReasoningStreaming := Some False\<rparr>))"

definition sanitizeMessagesOnLoad :: "int \<Rightarrow> (jstring \<Rightarrow> jstring) \<Rightarrow> message list \<Rightarrow> message list" where
  "sanitizeMessagesOnLoad now t ms =
     (case last_pending ms of
        None \<Rightarrow> ms
      | Some i \<Rightarrow> ms[i := sanitize_message now t (ms ! i)])"

subsection \<open>Updates of the conversation (\<^verbatim>\<open>message-update-utils.ts\<close>, \<^verbatim>\<open>conversation-message-utils.ts\<close>)\<close>

definition updateLastAssistantMessage :: "message list \<Rightarrow> (message \<Rightarrow> message) \<Rightarrow> message list" where
  "updateLastAssistantMessage ms f =
     (if ms = [] \<or> from_role (last ms) \<noteq> Role_assistant then ms else butlast ms @ [f (last ms)])"

definition updateAssistantMessageWithError ::
    "int \<Rightarrow> message list \<Rightarrow> jstring \<Rightarrow> jstring option \<Rightarrow> jstring \<Rightarrow> message list" where
  "updateAssistantMessageWithError now ms errorMessage code title =
     updateLastAssistantMessage ms (\<lambda>m. completeAssistantTiming now
       ((updateCurrentVersionContent m (title @ lit '': '' @ errorMessage))
          \<lparr>status := Some Status_error, isReasoningStreaming := Some False,
           errorCode := (case code of Some c \<Rightarrow> if c = [] then None else Some c | None \<Rightarrow> None)\<rparr>))"

definition appendUserMessagePair ::
    "int \<Rightarrow> jstring \<times> jstring \<Rightarrow> jstring \<times> jstring \<Rightarrow> message list \<Rightarrow> jstring \<Rightarrow> message list" where
  "appendUserMessagePair now ids1 ids2 ms c =
     ms @ [createUserMessage ids1 c now, createLoadingAssistantMessage ids2 now]"

definition createRegeneratedMessages ::
    "int \<Rightarrow> jstring \<times> jstring \<Rightarrow> message list \<Rightarrow> jstring \<Rightarrow> message list option" where
  "createRegeneratedMessages now ids ms messageKey =
     (case find_index (\<lambda>m. key m = messageKey) ms of
        None \<Rightarrow> None
      | Some i \<Rightarrow>
          if from_role (ms ! i) = Role_user
          then Some (take (i + 1) ms @ [createLoadingAssistantMessage ids now])
          else Some (take i ms @ [createLoadingAssistantMessage ids now]))"

definition removeMessageByKey :: "message list \<Rightarrow> jstring \<Rightarrow> message list" where
  "removeMessageByKey ms messageKey = filter (\<lambda>m. key m \<noteq> messageKey) ms"

record edit_result =
  edit_messages :: "message list"
  shouldSend :: bool

definition applyMessageEdit ::
    "int \<Rightarrow> jstring \<times> jstring \<Rightarrow> message list \<Rightarrow> jstring \<Rightarrow> jstring \<Rightarrow> bool \<Rightarrow> edit_result option" where
  "applyMessageEdit now ids ms messageKey c shouldSubmit =
     (case find_index (\<lambda>m. key m = messageKey) ms of
        None \<Rightarrow> None
      | Some i \<Rightarrow>
          let updated = map (\<lambda>m. if key m = messageKey
                then (updateCurrentVersionContent m c)
                       \<lparr>createdAt := (if shouldSubmit then Some now else createdAt m)\<rparr>
                else m) ms
          in if \<not> shouldSubmit \<or> from_role (updated ! i) \<noteq> Role_user
             then Some \<lparr>edit_messages = updated, shouldSend = False\<rparr>
             else Some \<lparr>edit_messages = take (i + 1) updated @ [createLoadingAssistantMessage ids now],
                    shouldSend = True\<rparr>)"

definition getEditingMessageContent :: "message list \<Rightarrow> jstring option \<Rightarrow> jstring" where
  "getEditingMessageContent ms editingKey =
     (case editingKey of
        None \<Rightarrow> []
      | Some k \<Rightarrow> if k = [] then []
          else (case find (\<lambda>m. key m = k) ms of Some m \<Rightarrow> getMessageContent m | None \<Rightarrow> []))"

record render_state =
  alwaysShowActions :: bool
  render_content :: jstring
  isEditing :: bool

definition getChatMessageRenderState :: "message list \<Rightarrow> message \<Rightarrow> nat \<Rightarrow> jstring option \<Rightarrow> render_state" where
  "getChatMessageRenderState ms m i editingKey =
     \<lparr>alwaysShowActions = (int i = int (length ms) - 1 \<and> from_role m = Role_assistant),
      render_content = getMessageContent m, isEditing = (editingKey = Some (key m))\<rparr>"

subsection \<open>Display state of a message (\<^verbatim>\<open>message-content-utils.ts\<close>, action, error and editor utils)\<close>

definition shouldShowMessageLoader :: "message \<Rightarrow> bool \<Rightarrow> jstring \<Rightarrow> bool" where
  "shouldShowMessageLoader m isAssistant versionContent \<longleftrightarrow>
     isAssistant \<and> isReasoningStreaming m \<noteq> Some True
     \<and> (status m = Some Status_loading \<or> (status m = Some Status_streaming \<and> versionContent = []))"

definition shouldShowMessageContent :: "message \<Rightarrow> jstring \<Rightarrow> bool" where
  "shouldShowMessageContent m versionContent \<longleftrightarrow>
     (from_role m = Role_user \<or> isReasoningStreaming m \<noteq> Some True) \<and> length versionContent > 0"

definition getDisplayContent :: "message \<Rightarrow> jstring \<Rightarrow> jstring" where
  "getDisplayContent m versionContent =
     (if from_role m \<noteq> Role_assistant then versionContent
      else if \<not> str_includes versionContent open_tag then versionContent
      else visibleContent (parseThinkTags versionContent))"

record content_state =
  displayContent :: jstring
  hasSources :: bool
  content_isAssistant :: bool
  showLoader :: bool
  showMessageContent :: bool
  content_sources :: "(jstring \<times> jstring) list"
  hasReasoning :: bool
  reasoningContent :: "jstring option"

definition getMessageContentState :: "message \<Rightarrow> jstring \<Rightarrow> content_state" where
  "getMessageContentState m versionContent =
     (let isAssistant = (from_role m = Role_assistant);
          srcs = coalesce (sources m) [];
          rc = (if isAssistant then map_option reasoning_content (reasoning m) else None);
          present = (case rc of None \<Rightarrow> False | Some s \<Rightarrow> s \<noteq> [])
      in \<lparr>displayContent = getDisplayContent m versionContent, hasSources = (length srcs > 0),
          content_isAssistant = isAssistant,
          showLoader = shouldShowMessageLoader m isAssistant versionContent,
          showMessageContent = shouldShowMessageContent m versionContent, content_sources = srcs,
          hasReasoning = present, reasoningContent = (if present then rc else None)\<rparr>)"

record action_state =
  action_content :: jstring
  hasContent :: bool
  action_isAssistant :: bool
  action_isLoading :: bool
  isUser :: bool

definition getMessageActionState :: "message \<Rightarrow> action_state" where
  "getMessageActionState m =
     \<lparr>action_content = getMessageContent m, hasContent = hasMessageContent m,
      action_isAssistant = (from_role m = Role_assistant),
      action_isLoading = (status m = Some Status_loading \<or> status m = Some Status_streaming),
      isUser = (from_role m = Role_user)\<rparr>"

datatype error_kind = Error_generic | Error_model_price

record error_state =
  error_content :: jstring
  error_kind_of :: error_kind
  showSettingsLink :: bool

definition isAdminRole :: "int option \<Rightarrow> bool" where
  "isAdminRole role = (case role of None \<Rightarrow> False | Some r \<Rightarrow> r \<ge> 10)"

definition isErrorMessage :: "message \<Rightarrow> bool" where
  "isErrorMessage m \<longleftrightarrow> status m = Some Status_error"

definition getMessageErrorState :: "message \<Rightarrow> bool \<Rightarrow> error_state option" where
  "getMessageErrorState m isAdmin =
     (if \<not> isErrorMessage m then None
      else let isModelPriceError = (errorCode m = Some (lit ''model_price_error''))
           in Some \<lparr>error_content = or_str (getMessageContent m) (lit ''An unknown error occurred''),
                    error_kind_of = (if isModelPriceError then Error_model_price else Error_generic),
                    showSettingsLink = (isModelPriceError \<and> isAdmin)\<rparr>)"

record editor_state =
  canSave :: bool
  hasChanged :: bool
  showSaveAndSubmit :: bool

definition getMessageEditorState :: "message \<Rightarrow> jstring \<Rightarrow> jstring \<Rightarrow> editor_state" where
  "getMessageEditorState m editText originalText =
     (let hasText = (length (trim editText) > 0); changed = (editText \<noteq> originalText)
      in \<lparr>canSave = (hasText \<and> changed), hasChanged = changed,
          showSaveAndSubmit = (from_role m = Role_user)\<rparr>)"

subsection \<open>Think tags: text and its rendering\<close>

text \<open>
  A text that alternates visible parts and reasoning in tags, with a last visible part and
  possibly a tag that is still open, as it is while the answer streams in.
\<close>

fun render_think :: "(jstring \<times> jstring) list \<Rightarrow> jstring \<Rightarrow> jstring option \<Rightarrow> jstring" where
  "render_think [] rest None = rest"
| "render_think [] rest (Some r) = rest @ open_tag @ r"
| "render_think ((v, r) # bs) rest e = v @ open_tag @ r @ close_tag @ render_think bs rest e"

definition think_free :: "(jstring \<times> jstring) list \<Rightarrow> jstring \<Rightarrow> jstring option \<Rightarrow> bool" where
  "think_free bs rest e \<longleftrightarrow>
     list_all (\<lambda>(v, r). \<not> str_includes v open_tag \<and> \<not> str_includes r close_tag) bs
     \<and> \<not> str_includes rest open_tag
     \<and> (case e of None \<Rightarrow> True | Some r \<Rightarrow> \<not> str_includes r close_tag)"

lemma index_of_first:
  assumes "p \<noteq> []" "hd p \<notin> set (tl p)" "\<not> str_includes v p"
  shows "index_of (v @ p @ rest) p = Some (length v)"
  using assms(3)
proof (induction v)
  case Nil
  with assms(1) show ?case by (cases p) (simp_all add: starts_with_def)
next
  case (Cons c v)
  have "\<not> starts_with (c # v @ p @ rest) p"
  proof
    assume "starts_with (c # v @ p @ rest) p"
    then have p: "p = take (length p) ((c # v) @ p @ rest)" by (simp add: starts_with_def)
    show False
    proof (cases "length p \<le> length (c # v)")
      case True
      have "take (length p) ((c # v) @ p @ rest) = take (length p) (c # v)"
        using True by (simp only: take_append) simp
      with p have "starts_with (c # v) p" unfolding starts_with_def by metis
      with Cons.prems show False by simp
    next
      case False
      then have "p ! length (c # v) = hd p"
        using p assms(1)
        by (metis (no_types, lifting) hd_append2 hd_drop_conv_nth append_eq_conv_conj
            length_append length_greater_0_conv nth_take not_le trans_less_add1)
      moreover have "p ! length (c # v) \<in> set (tl p)"
        using False by (cases p) auto
      ultimately show False using assms(2) by simp
    qed
  qed
  with Cons show ?case by simp
qed

lemma open_tag_props: "open_tag \<noteq> []" "hd open_tag \<notin> set (tl open_tag)"
  and close_tag_props: "close_tag \<noteq> []" "hd close_tag \<notin> set (tl close_tag)"
  by (simp_all add: open_tag_def close_tag_def lit_def)

lemma index_of_from_append: "index_of_from (pre @ s) p (length pre) = map_option ((+) (length pre)) (index_of s p)"
  by (simp add: index_of_from_def)

lemma index_of_not_included: "\<not> str_includes s p \<Longrightarrow> index_of s p = None"
  by (simp add: index_of_None)

lemma slice_mid: "slice (a @ b @ c) (length a) (length a + length b) = b"
  by (simp add: slice_def)

lemma think_loop_render:
  assumes "think_free bs rest e"
  shows "think_loop (pre @ render_think bs rest e) (length pre) vis reas =
    (vis @ filter (\<lambda>v. v \<noteq> []) (map fst bs @ [rest]),
     reas @ map snd bs @ (case e of None \<Rightarrow> [] | Some r \<Rightarrow> [r]), e \<noteq> None)"
  using assms
proof (induction bs arbitrary: pre vis reas)
  case Nil
  show ?case
  proof (cases e)
    case None
    with Nil show ?thesis
      by (subst think_loop.simps)
        (simp add: think_free_def index_of_from_append index_of_not_included)
  next
    case (Some r)
    with Nil have r: "\<not> str_includes r close_tag" and rest: "\<not> str_includes rest open_tag"
      by (simp_all add: think_free_def)
    have o: "index_of_from (pre @ rest @ open_tag @ r) open_tag (length pre) = Some (length pre + length rest)"
      using index_of_first [OF open_tag_props rest, of r] by (simp add: index_of_from_append)
    have c: "index_of_from (pre @ rest @ open_tag @ r) close_tag (length pre + length rest + 7) = None"
      using index_of_from_append [of "pre @ rest @ open_tag" r close_tag] r
      by (simp add: index_of_not_included add.assoc)
    show ?thesis
      using Some o c slice_mid [of pre rest "open_tag @ r"]
      by (subst think_loop.simps) (simp add: Let_def)
  qed
next
  case (Cons b bs)
  obtain v r where b: "b = (v, r)" by fastforce
  let ?tl = "render_think bs rest e"
  let ?c = "pre @ v @ open_tag @ r @ close_tag @ ?tl"
  from Cons.prems b have free: "\<not> str_includes v open_tag" "\<not> str_includes r close_tag"
      and bs: "think_free bs rest e"
    by (auto simp: think_free_def)
  have o: "index_of_from ?c open_tag (length pre) = Some (length pre + length v)"
    using index_of_first [OF open_tag_props free(1)] by (simp add: index_of_from_append)
  have c: "index_of_from ?c close_tag (length pre + length v + 7) = Some (length pre + length v + 7 + length r)"
    using index_of_first [OF close_tag_props free(2), of ?tl]
      index_of_from_append [of "pre @ v @ open_tag" "r @ close_tag @ ?tl" close_tag]
    by (simp add: add.assoc)
  have sl: "slice ?c (length pre) (length pre + length v) = v"
    "slice ?c (length pre + length v + 7) (length pre + length v + 7 + length r) = r"
    using slice_mid [of pre v] slice_mid [of "pre @ v @ open_tag" r "close_tag @ ?tl"]
    by (simp_all add: add.assoc)
  have "think_loop ?c (length pre) vis reas =
      think_loop ?c (length pre + length v + 7 + length r + 8)
        (if v \<noteq> [] then vis @ [v] else vis) (reas @ [r])"
    using o c sl by (subst think_loop.simps) (simp add: Let_def)
  also have "\<dots> = ((if v \<noteq> [] then vis @ [v] else vis) @ filter (\<lambda>v. v \<noteq> []) (map fst bs @ [rest]),
      (reas @ [r]) @ map snd bs @ (case e of None \<Rightarrow> [] | Some r \<Rightarrow> [r]), e \<noteq> None)"
    using Cons.IH [OF bs, of "pre @ v @ open_tag @ r @ close_tag"] by (simp add: add.assoc)
  finally show ?case using b by simp
qed

lemma join_Nil_concat: "join [] xs = concat xs"
  by (induction "[] :: jstring" xs rule: join.induct) auto

lemma concat_filter_not_Nil: "concat (filter (\<lambda>v. v \<noteq> []) xs) = concat xs"
  by (induction xs) auto

lemma render_includes: "bs \<noteq> [] \<or> e \<noteq> None \<Longrightarrow> str_includes (render_think bs rest e) open_tag"
  by (cases "(bs, rest, e)" rule: render_think.cases) (auto simp: str_includes_iff)

text \<open>
  C11. Parsing a text with think tags recovers its parts: the visible text is the concatenation of
  the visible parts, the reasoning is the tagged parts separated by blank lines, both trimmed,
  and a tag that is still open is reported and its text counts as reasoning.
\<close>

theorem parseThinkTags_render:
  assumes "think_free bs rest e" "bs \<noteq> [] \<or> e \<noteq> None"
  shows "parseThinkTags (render_think bs rest e) =
    \<lparr>visibleContent = trim (concat (map fst bs) @ rest),
     think_reasoning = trim (join [10, 10] (map snd bs @ (case e of None \<Rightarrow> [] | Some r \<Rightarrow> [r]))),
     hasUnclosedTag = (e \<noteq> None)\<rparr>"
  using think_loop_render [OF assms(1), of "[]" "[]" "[]"] render_includes [OF assms(2)]
  by (simp add: parseThinkTags_def join_Nil_concat concat_filter_not_Nil)

theorem parseThinkTags_render_witness:
  "parseThinkTags (lit ''Hi <think>plan</think>there<think>mor'') =
     \<lparr>visibleContent = lit ''Hi there'', think_reasoning = lit ''plan'' @ [10, 10] @ lit ''mor'',
      hasUnclosedTag = True\<rparr>"
proof -
  let ?bs = "[(lit ''Hi '', lit ''plan'')]" and ?e = "Some (lit ''mor'')"
  have free: "think_free ?bs (lit ''there'') ?e"
    by code_simp
  have eq: "render_think ?bs (lit ''there'') ?e = lit ''Hi <think>plan</think>there<think>mor''"
    by code_simp
  have "trim (concat (map fst ?bs) @ lit ''there'') = lit ''Hi there''"
    "trim (join [10, 10] (map snd ?bs @ [lit ''mor''])) = lit ''plan'' @ [10, 10] @ lit ''mor''"
    by code_simp+
  with parseThinkTags_render [OF free] show ?thesis unfolding eq by simp
qed

subsection \<open>Streaming an answer\<close>

text \<open>
  What a content chunk does to the text: a chunk that repeats the text received so far is taken
  as cumulative, every other chunk is appended.
\<close>

definition stream_text :: "jstring \<Rightarrow> jstring \<Rightarrow> jstring" where
  "stream_text cur chunk = (if starts_with chunk cur then chunk else cur @ chunk)"

lemma append_appendable: "c @ getAppendableChunk c chunk = stream_text c chunk"
  by (auto simp: getAppendableChunk_def stream_text_def starts_with_def)
    (metis append_take_drop_id)

lemma getMessageContent_update [simp]: "getMessageContent (updateCurrentVersionContent m c) = c"
  by (simp add: getMessageContent_def updateCurrentVersionContent_def getCurrentVersion_def)

lemma getMessageContent_cong [simp]:
  "getMessageContent (m\<lparr>reasoning := r\<rparr>) = getMessageContent m"
  "getMessageContent (m\<lparr>isReasoningStreaming := b\<rparr>) = getMessageContent m"
  "getMessageContent (m\<lparr>status := st\<rparr>) = getMessageContent m"
  "getMessageContent (m\<lparr>errorCode := ec\<rparr>) = getMessageContent m"
  "getMessageContent (m\<lparr>createdAt := t1\<rparr>) = getMessageContent m"
  "getMessageContent (m\<lparr>startedAt := t1\<rparr>) = getMessageContent m"
  "getMessageContent (m\<lparr>completedAt := t2\<rparr>) = getMessageContent m"
  "getMessageContent (m\<lparr>durationMs := d\<rparr>) = getMessageContent m"
  by (simp_all add: getMessageContent_def getCurrentVersion_def)

lemma update_fields [simp]:
  "reasoning (updateCurrentVersionContent m c) = reasoning m"
  "status (updateCurrentVersionContent m c) = status m"
  "from_role (updateCurrentVersionContent m c) = from_role m"
  "key (updateCurrentVersionContent m c) = key m"
  "startedAt (updateCurrentVersionContent m c) = startedAt m"
  "createdAt (updateCurrentVersionContent m c) = createdAt m"
  "isReasoningStreaming (updateCurrentVersionContent m c) = isReasoningStreaming m"
  by (simp_all add: updateCurrentVersionContent_def)

lemma completeReasoningTiming_fields [simp]:
  "getMessageContent (completeReasoningTiming now m) = getMessageContent m"
  "map_option reasoning_content (reasoning (completeReasoningTiming now m)) =
     map_option reasoning_content (reasoning m)"
  "status (completeReasoningTiming now m) = status m"
  "from_role (completeReasoningTiming now m) = from_role m"
  "key (completeReasoningTiming now m) = key m"
  "startedAt (completeReasoningTiming now m) = startedAt m"
  "createdAt (completeReasoningTiming now m) = createdAt m"
  "isReasoningStreaming (completeReasoningTiming now m) = isReasoningStreaming m"
  by (auto simp: completeReasoningTiming_def Let_def split: option.splits)

lemma completeAssistantTiming_fields [simp]:
  "getMessageContent (completeAssistantTiming now m) = getMessageContent m"
  "reasoning (completeAssistantTiming now m) = reasoning m"
  "status (completeAssistantTiming now m) = status m"
  "from_role (completeAssistantTiming now m) = from_role m"
  "key (completeAssistantTiming now m) = key m"
  "isReasoningStreaming (completeAssistantTiming now m) = isReasoningStreaming m"
  by (auto simp: completeAssistantTiming_def Let_def)

lemma processStreamingContent_fields [simp]:
  "getMessageContent (processStreamingContent now m chunk) = getMessageContent m @ chunk"
  "from_role (processStreamingContent now m chunk) = from_role m"
  "key (processStreamingContent now m chunk) = key m"
  by (auto simp: processStreamingContent_def Let_def)

lemma applyStreamingChunk_fields [simp]:
  "from_role (applyStreamingChunk now m typ chunk) = from_role m"
  "key (applyStreamingChunk now m typ chunk) = key m"
  by (auto simp: applyStreamingChunk_def Let_def split: chunk_type.splits)

lemma applyStreamingChunk_content:
  assumes "status m \<noteq> Some Status_error"
  shows "getMessageContent (applyStreamingChunk now m Chunk_content chunk) =
      stream_text (getMessageContent m) chunk"
    and "status (applyStreamingChunk now m Chunk_content chunk) = Some Status_streaming"
  using assms by (simp_all add: applyStreamingChunk_def Let_def append_appendable)

text \<open>The reasoning that a message shows, as text.\<close>

definition reasoning_text :: "message \<Rightarrow> jstring" where
  "reasoning_text m = (case reasoning m of None \<Rightarrow> [] | Some r \<Rightarrow> reasoning_content r)"

lemma reasoning_text_map: "reasoning_text m = coalesce (map_option reasoning_content (reasoning m)) []"
  by (simp add: reasoning_text_def coalesce_def split: option.splits)

lemma reasoning_text_cong [simp]:
  "reasoning_text (m\<lparr>status := st\<rparr>) = reasoning_text m"
  "reasoning_text (m\<lparr>isReasoningStreaming := b\<rparr>) = reasoning_text m"
  "reasoning_text (m\<lparr>reasoning := r\<rparr>) = coalesce (map_option reasoning_content r) []"
  "reasoning_text (updateCurrentVersionContent m c) = reasoning_text m"
  "reasoning_text (completeAssistantTiming now m) = reasoning_text m"
  "reasoning_text (completeReasoningTiming now m) = reasoning_text m"
  by (simp_all add: reasoning_text_map)

lemma parse_no_tag: "\<not> str_includes c open_tag \<Longrightarrow>
    parseThinkTags c = \<lparr>visibleContent = c, think_reasoning = [], hasUnclosedTag = False\<rparr>"
  by (simp add: parseThinkTags_def)

lemma processStreamingContent_reasoning_text:
  "reasoning_text (processStreamingContent now m chunk) =
     or_str (think_reasoning (parseThinkTags (getMessageContent m @ chunk))) (reasoning_text m)"
  by (simp add: processStreamingContent_def Let_def or_str_def parse_no_tag)
    (simp add: coalesce_def reasoning_text_def split: option.splits)

lemma applyStreamingChunk_reasoning_text:
  assumes "status m \<noteq> Some Status_error"
  shows "reasoning_text (applyStreamingChunk now m Chunk_content chunk) =
    or_str (think_reasoning (parseThinkTags (stream_text (getMessageContent m) chunk))) (reasoning_text m)"
  using assms
  by (simp add: applyStreamingChunk_def Let_def append_appendable processStreamingContent_reasoning_text)

definition stream_contents :: "(int \<times> jstring) list \<Rightarrow> message \<Rightarrow> message" where
  "stream_contents ds m = fold (\<lambda>(now, chunk) m. applyStreamingChunk now m Chunk_content chunk) ds m"

definition stream_texts :: "jstring list \<Rightarrow> jstring \<Rightarrow> jstring" where
  "stream_texts chunks c = fold (\<lambda>chunk c. stream_text c chunk) chunks c"

lemma stream_contents_content:
  assumes "status m \<noteq> Some Status_error"
  shows "getMessageContent (stream_contents ds m) = stream_texts (map snd ds) (getMessageContent m)
    \<and> status (stream_contents ds m) \<noteq> Some Status_error
    \<and> from_role (stream_contents ds m) = from_role m \<and> key (stream_contents ds m) = key m"
  using assms
proof (induction ds arbitrary: m)
  case (Cons d ds)
  obtain now chunk where d: "d = (now, chunk)" by fastforce
  let ?m = "applyStreamingChunk now m Chunk_content chunk"
  have "status ?m \<noteq> Some Status_error"
    using applyStreamingChunk_content(2) [OF Cons.prems] by simp
  from Cons.IH [OF this] show ?case
    using applyStreamingChunk_content(1) [OF Cons.prems] d
    by (simp add: stream_contents_def stream_texts_def)
qed (simp add: stream_contents_def stream_texts_def)

lemma stream_contents_snoc:
  "stream_contents (ds @ [(now, chunk)]) m = applyStreamingChunk now (stream_contents ds m) Chunk_content chunk"
  by (simp add: stream_contents_def)

lemma stream_contents_reasoning:
  fixes ds :: "(int \<times> jstring) list"
  assumes "status m \<noteq> Some Status_error" "reasoning m = None" "getMessageContent m = []"
  defines "c \<equiv> stream_texts (map snd ds) []"
  shows "think_reasoning (parseThinkTags c) \<noteq> [] \<Longrightarrow>
    reasoning_text (stream_contents ds m) = think_reasoning (parseThinkTags c)"
proof (cases ds rule: rev_cases)
  case Nil
  assume "think_reasoning (parseThinkTags c) \<noteq> []"
  with Nil show ?thesis by (simp add: c_def stream_texts_def parse_no_tag open_tag_def)
next
  case (snoc ds' d)
  obtain now chunk where d: "d = (now, chunk)" by fastforce
  note s = stream_contents_content [OF assms(1), of ds']
  assume ne: "think_reasoning (parseThinkTags c) \<noteq> []"
  have "c = stream_text (getMessageContent (stream_contents ds' m)) chunk"
    using s snoc d assms(3) by (simp add: c_def stream_texts_def)
  with ne show ?thesis
    using applyStreamingChunk_reasoning_text [of "stream_contents ds' m" now chunk] s snoc d
    by (simp add: stream_contents_snoc or_str_def)
qed

text \<open>A sequence of deltas: none of them repeats all that came before it.\<close>

fun fresh_deltas :: "jstring \<Rightarrow> jstring list \<Rightarrow> bool" where
  "fresh_deltas c [] \<longleftrightarrow> True"
| "fresh_deltas c (d # ds) \<longleftrightarrow> (c = [] \<or> \<not> starts_with d c) \<and> fresh_deltas (c @ d) ds"

lemma stream_texts_fresh: "fresh_deltas c ds \<Longrightarrow> stream_texts ds c = c @ concat ds"
proof (induction ds arbitrary: c)
  case (Cons d ds)
  then have "stream_text c d = c @ d" by (auto simp: stream_text_def starts_with_def)
  with Cons show ?case by (simp add: stream_texts_def)
qed (simp add: stream_texts_def)

lemma stream_texts_cumulative:
  assumes "sorted_wrt (\<lambda>a b. starts_with b a) (c # chunks)"
  shows "stream_texts chunks c = last (c # chunks)"
  using assms
proof (induction chunks arbitrary: c)
  case (Cons d ds)
  then show ?case by (simp add: stream_texts_def stream_text_def)
qed (simp add: stream_texts_def)

lemma finalizeMessage_fields [simp]:
  "getMessageContent (finalizeMessage now m a) = visibleContent (parseThinkTags (getMessageContent m))"
  "isReasoningStreaming (finalizeMessage now m a) = Some False"
  "status (finalizeMessage now m a) = status m"
  "from_role (finalizeMessage now m a) = from_role m"
  "key (finalizeMessage now m a) = key m"
  "reasoning_text (finalizeMessage now m a) = opt_or_str a
     (or_str (reasoning_text m) (think_reasoning (parseThinkTags (getMessageContent m))))"
  by (simp_all add: finalizeMessage_def Let_def parse_no_tag)
    (simp_all add: parse_no_tag reasoning_text_def coalesce_def opt_or_str_def or_str_def split: option.splits)

lemma completeAssistantTiming_duration:
  "from_role m = Role_assistant \<Longrightarrow>
     completedAt (completeAssistantTiming now m) = Some now
     \<and> (\<exists>d \<ge> 0. durationMs (completeAssistantTiming now m) = Some d)"
  by (auto simp: completeAssistantTiming_def Let_def)

lemma stream_contents_timing:
  "startedAt (stream_contents ds m) = startedAt m"
proof (induction ds arbitrary: m)
  case (Cons d ds)
  have "startedAt (applyStreamingChunk now m Chunk_content chunk) = startedAt m" for now chunk
    by (auto simp: applyStreamingChunk_def Let_def processStreamingContent_def)
  with Cons show ?case by (auto simp: stream_contents_def split: prod.split)
qed (simp add: stream_contents_def)

lemma loading_message:
  fixes ids :: "jstring \<times> jstring" and t0 :: int
  defines "l \<equiv> createLoadingAssistantMessage ids t0"
  shows "status l = Some Status_loading" "reasoning l = None" "getMessageContent l = []"
    "from_role l = Role_assistant" "key l = fst ids" "startedAt l = Some t0"
  by (simp_all add: l_def createLoadingAssistantMessage_def getMessageContent_def getCurrentVersion_def
      createMessageVersion_def)

lemma stream_complete:
  fixes ids :: "jstring \<times> jstring" and t0 now :: int
  assumes "stream_texts (map snd ds) [] = c"
  defines "m \<equiv> completeAssistantMessage now (stream_contents ds (createLoadingAssistantMessage ids t0))"
  shows "getMessageContent m = visibleContent (parseThinkTags c)"
    "think_reasoning (parseThinkTags c) \<noteq> [] \<longrightarrow> reasoning_text m = think_reasoning (parseThinkTags c)"
    "key m = fst ids" "status m = Some Status_complete" "isReasoningStreaming m = Some False"
    "durationMs m = Some (max 0 (now - t0))"
proof -
  let ?l = "createLoadingAssistantMessage ids t0"
  have l: "status ?l \<noteq> Some Status_error" by (simp add: loading_message)
  note s = stream_contents_content [OF l, of ds, unfolded loading_message assms(1)]
  show "getMessageContent m = visibleContent (parseThinkTags c)" "key m = fst ids"
    "status m = Some Status_complete" "isReasoningStreaming m = Some False"
    using s by (simp_all add: m_def completeAssistantMessage_def)
  show "think_reasoning (parseThinkTags c) \<noteq> [] \<longrightarrow> reasoning_text m = think_reasoning (parseThinkTags c)"
    using stream_contents_reasoning [OF l loading_message(2,3), of ds] assms(1) s
    by (simp add: m_def completeAssistantMessage_def opt_or_str_def or_str_def coalesce_def)
  have "startedAt (finalizeMessage now (stream_contents ds ?l) None) = Some t0"
    by (simp add: finalizeMessage_def Let_def stream_contents_timing loading_message)
  then show "durationMs m = Some (max 0 (now - t0))"
    using s
    by (simp add: m_def completeAssistantMessage_def completeAssistantTiming_def first_some_def
        coalesce_def Let_def)
qed

text \<open>
  C10. Streaming an answer into the loading message and completing it: however the text was split
  into deltas, the final content is the visible part of the whole text, the reasoning is its
  tagged part, the message is complete, keeps its key and is no longer streaming, and its
  duration is the time from the start of the request to the completion (never negative).
\<close>

theorem streamed_answer:
  fixes ids :: "jstring \<times> jstring" and t0 now :: int
  assumes "fresh_deltas [] (map snd ds)" "concat (map snd ds) = c"
  defines "m \<equiv> completeAssistantMessage now (stream_contents ds (createLoadingAssistantMessage ids t0))"
  shows "getMessageContent m = visibleContent (parseThinkTags c)
    \<and> (think_reasoning (parseThinkTags c) \<noteq> [] \<longrightarrow>
        reasoning_text m = think_reasoning (parseThinkTags c))
    \<and> key m = fst ids \<and> status m = Some Status_complete \<and> isReasoningStreaming m = Some False
    \<and> durationMs m = Some (max 0 (now - t0))"
proof -
  have "stream_texts (map snd ds) [] = c"
    using stream_texts_fresh [OF assms(1)] assms(2) by simp
  from stream_complete [OF this] show ?thesis unfolding m_def by blast
qed

theorem streamed_answer_witness:
  defines "ds \<equiv> [(6, lit ''<thi''), (7, lit ''nk>plan''), (9, lit ''</think>Hi'')]"
  defines "m \<equiv> completeAssistantMessage 15
     (stream_contents ds (createLoadingAssistantMessage (lit ''k'', lit ''v'') 5))"
  shows "getMessageContent m = lit ''Hi'' \<and> reasoning_text m = lit ''plan'' \<and> durationMs m = Some 10"
proof -
  have fresh: "fresh_deltas [] (map snd ds)" unfolding ds_def by code_simp
  have "visibleContent (parseThinkTags (concat (map snd ds))) = lit ''Hi''"
    "think_reasoning (parseThinkTags (concat (map snd ds))) = lit ''plan''"
    unfolding ds_def by code_simp+
  with streamed_answer [OF fresh refl, of 15 "(lit ''k'', lit ''v'')" 5] show ?thesis
    unfolding m_def by simp
qed

text \<open>
  Chunks that each repeat the text so far (cumulative delivery, repeated delivery included)
  leave exactly the last chunk as content.
\<close>

theorem streamed_cumulative:
  assumes "sorted_wrt (\<lambda>a b. starts_with b a) (map snd ds)" "ds \<noteq> []"
  shows "getMessageContent (stream_contents ds (createLoadingAssistantMessage ids t0)) = snd (last ds)"
proof -
  let ?l = "createLoadingAssistantMessage ids t0"
  have l: "status ?l \<noteq> Some Status_error" "getMessageContent ?l = []"
    by (simp_all add: loading_message)
  have "sorted_wrt (\<lambda>a b. starts_with b a) ([] # map snd ds)"
    using assms(1) by (simp add: starts_with_def)
  from stream_texts_cumulative [OF this] show ?thesis
    using stream_contents_content [OF l(1), of ds] l assms(2) by (simp add: last_map)
qed

theorem streamed_cumulative_witness:
  "getMessageContent (stream_contents [(6, lit ''Hel''), (7, lit ''Hello'')]
     (createLoadingAssistantMessage (lit ''k'', lit ''v'') 5)) = lit ''Hello''"
proof -
  have "sorted_wrt (\<lambda>a b. starts_with b a) (map snd [(6 :: int, lit ''Hel''), (7, lit ''Hello'')])"
    by code_simp
  from streamed_cumulative [OF this] show ?thesis by simp
qed

text \<open>
  C27. When a think block is empty and its closing tag arrives in two chunks, the fragment of the
  tag that came first stays as the reasoning of the completed message.
\<close>

theorem streamed_fragment_kept:
  "reasoning_text (completeAssistantMessage now (stream_contents
     [(t1, lit ''<think>''), (t2, lit ''</thi''), (t3, lit ''nk>Hi'')]
     (createLoadingAssistantMessage ids t0))) = lit ''</thi''"
proof -
  let ?l = "createLoadingAssistantMessage ids t0"
  let ?m1 = "stream_contents [(t1, lit ''<think>'')] ?l"
  let ?m2 = "stream_contents ([(t1, lit ''<think>'')] @ [(t2, lit ''</thi'')]) ?l"
  let ?m3 = "stream_contents (([(t1, lit ''<think>'')] @ [(t2, lit ''</thi'')]) @ [(t3, lit ''nk>Hi'')]) ?l"
  have l: "status ?l \<noteq> Some Status_error" "getMessageContent ?l = []"
    by (simp_all add: loading_message)
  note s = stream_contents_content [OF l(1), unfolded l(2)]
  have texts: "stream_texts [lit ''<think>''] [] = lit ''<think>''"
    "stream_text (lit ''<think>'') (lit ''</thi'') = lit ''<think></thi''"
    "stream_texts [lit ''<think>'', lit ''</thi''] [] = lit ''<think></thi''"
    "stream_text (lit ''<think></thi'') (lit ''nk>Hi'') = lit ''<think></think>Hi''"
    "stream_texts [lit ''<think>'', lit ''</thi'', lit ''nk>Hi''] [] = lit ''<think></think>Hi''"
    by code_simp+
  have parses: "think_reasoning (parseThinkTags (lit ''<think></thi'')) = lit ''</thi''"
    "think_reasoning (parseThinkTags (lit ''<think></think>Hi'')) = []"
    by code_simp+
  have "reasoning_text ?m2 = lit ''</thi''"
    using applyStreamingChunk_reasoning_text [of ?m1 t2 "lit ''</thi''"]
      s [of "[(t1, lit ''<think>'')]"] texts parses
    by (simp only: stream_contents_snoc) (simp add: or_str_def)
  then have "reasoning_text ?m3 = lit ''</thi''"
    using applyStreamingChunk_reasoning_text [of ?m2 t3 "lit ''nk>Hi''"]
      s [of "[(t1, lit ''<think>''), (t2, lit ''</thi'')]"] texts parses
    by (simp only: stream_contents_snoc) (simp add: or_str_def stream_contents_snoc [symmetric])
  then show ?thesis
    by (simp add: completeAssistantMessage_def opt_or_str_def or_str_def coalesce_def)
qed

subsection \<open>Conversations\<close>

lemma find_index_rev_last:
  assumes "find_index P (rev xs) = Some i"
  defines "j \<equiv> length xs - 1 - i"
  shows "j < length xs" "P (xs ! j)" "\<forall>k < length xs. j < k \<longrightarrow> \<not> P (xs ! k)"
proof -
  from assms have i: "i < length xs" "P (rev xs ! i)" "\<forall>k < i. \<not> P (rev xs ! k)"
    by (simp_all add: find_index_Some)
  then show "j < length xs" "P (xs ! j)" by (simp_all add: j_def rev_nth)
  show "\<forall>k < length xs. j < k \<longrightarrow> \<not> P (xs ! k)"
  proof (intro allI impI)
    fix k assume k: "k < length xs" "j < k"
    with i(1) have "length xs - 1 - k < i" unfolding j_def by linarith
    with i(3) k show "\<not> P (xs ! k)" by (auto simp: rev_nth)
  qed
qed

lemma last_pending_Some:
  assumes "last_pending ms = Some i"
  shows "i < length ms" "isPendingAssistantMessage (ms ! i)"
    "\<forall>j < length ms. i < j \<longrightarrow> \<not> isPendingAssistantMessage (ms ! j)"
  using assms find_index_rev_last [of isPendingAssistantMessage ms]
  by (auto simp: last_pending_def)

lemma last_pending_None: "last_pending ms = None \<longleftrightarrow> filter isPendingAssistantMessage ms = []"
  by (auto simp: last_pending_def find_index_None filter_empty_conv)

lemma sanitize_message_fields:
  "key (sanitize_message now t m) = key m \<and> from_role (sanitize_message now t m) = from_role m
   \<and> isAssistantMessageFinal (sanitize_message now t m)
   \<and> isReasoningStreaming (sanitize_message now t m) = Some False"
  by (simp add: sanitize_message_def Let_def isAssistantMessageFinal_def)

lemma filter_update_length:
  "i < length xs \<Longrightarrow> P (xs ! i) \<Longrightarrow> \<not> P y \<Longrightarrow>
     length (filter P (xs[i := y])) = length (filter P xs) - 1"
  by (induction xs arbitrary: i) (auto simp: nth_Cons split: nat.splits,
      metis One_nat_def Suc_pred filter_empty_conv length_greater_0_conv nth_mem)

text \<open>
  Loading a stored conversation keeps every message with its key and role and changes at most
  one: the last answer that was still in progress, which becomes complete, or an error when it
  has neither content nor reasoning. Every other message, also an earlier answer in progress,
  stays as it was.
\<close>

theorem sanitizeMessagesOnLoad_outcome:
  fixes ms :: "message list" and now :: int and t :: "jstring \<Rightarrow> jstring"
  defines "ms' \<equiv> sanitizeMessagesOnLoad now t ms"
  shows "map key ms' = map key ms \<and> map from_role ms' = map from_role ms
    \<and> length (filter isPendingAssistantMessage ms') = length (filter isPendingAssistantMessage ms) - 1
    \<and> (\<forall>i < length ms. ms' ! i \<noteq> ms ! i \<longrightarrow> isPendingAssistantMessage (ms ! i)
        \<and> isAssistantMessageFinal (ms' ! i) \<and> isReasoningStreaming (ms' ! i) = Some False
        \<and> list_all (\<lambda>m. \<not> isPendingAssistantMessage m) (drop (Suc i) ms))"
proof (cases "last_pending ms")
  case None
  then have "filter isPendingAssistantMessage ms = []" by (simp add: last_pending_None)
  with None show ?thesis by (simp add: ms'_def sanitizeMessagesOnLoad_def)
next
  case (Some i)
  note p = last_pending_Some [OF Some]
  let ?m = "sanitize_message now t (ms ! i)"
  note f = sanitize_message_fields [of now t "ms ! i"]
  have ms': "ms' = ms[i := ?m]" by (simp add: ms'_def sanitizeMessagesOnLoad_def Some)
  have "\<not> isPendingAssistantMessage ?m"
    using f by (auto simp: isPendingAssistantMessage_def isAssistantMessagePending_def isAssistantMessageFinal_def)
  then have count: "length (filter isPendingAssistantMessage ms') = length (filter isPendingAssistantMessage ms) - 1"
    unfolding ms' using p by (intro filter_update_length)
  have "map key ms' = map key ms" "map from_role ms' = map from_role ms"
    using p(1) f by (simp_all add: ms' map_update list_update_same_conv)
  moreover have "list_all (\<lambda>m. \<not> isPendingAssistantMessage m) (drop (Suc i) ms)"
    using p(3) by (simp add: list_all_length)
  ultimately show ?thesis using f p(1,2) count by (auto simp: ms' nth_list_update)
qed

theorem sanitizeMessagesOnLoad_outcome_witness:
  defines "m \<equiv> createLoadingAssistantMessage (lit ''k'', lit ''v'') 5"
  shows "map key (sanitizeMessagesOnLoad 9 id [m, m]) = [lit ''k'', lit ''k'']
    \<and> length (filter isPendingAssistantMessage (sanitizeMessagesOnLoad 9 id [m, m])) = 1
    \<and> isAssistantMessageFinal (sanitizeMessagesOnLoad 9 id [m, m] ! 1)"
proof -
  have "sanitizeMessagesOnLoad 9 id [m, m] ! 1 \<noteq> m" "filter isPendingAssistantMessage [m, m] = [m, m]" "key m = lit ''k''"
    unfolding m_def by code_simp+
  with sanitizeMessagesOnLoad_outcome [of 9 id "[m, m]"] show ?thesis
    by (auto dest!: spec [of _ "Suc 0"])
qed

text \<open>
  Regenerating an answer fails exactly when no message has the given key. Otherwise it cuts
  the conversation after the question (the chosen message when it is the user's, the message
  before it when it is an answer) and appends one new answer in progress.
\<close>

theorem createRegeneratedMessages_outcome:
  "case createRegeneratedMessages now ids ms k of
     None \<Rightarrow> k \<notin> key ` set ms
   | Some ms' \<Rightarrow> \<exists>before m after. ms = before @ m # after \<and> key m = k \<and> k \<notin> key ` set before
       \<and> ms' = before @ (if from_role m = Role_user then [m] else []) @ [createLoadingAssistantMessage ids now]"
proof (cases "find_index (\<lambda>m. key m = k) ms")
  case None
  then have "k \<notin> key ` set ms" by (auto simp: find_index_None)
  with None show ?thesis by (simp add: createRegeneratedMessages_def)
next
  case (Some i)
  then have i: "i < length ms" "key (ms ! i) = k" "\<forall>j < i. key (ms ! j) \<noteq> k"
    by (simp_all add: find_index_Some)
  then have "k \<notin> key ` set (take i ms)" by (force simp: in_set_conv_nth)
  moreover have "createRegeneratedMessages now ids ms k = Some (take i ms @
      (if from_role (ms ! i) = Role_user then [ms ! i] else []) @ [createLoadingAssistantMessage ids now])"
    using i(1) Some by (simp add: createRegeneratedMessages_def take_Suc_conv_app_nth)
  ultimately show ?thesis
    using id_take_nth_drop [OF i(1)] i(2) by (simp only: option.case) blast
qed

text \<open>
  Saving an edit changes the content of the chosen message and nothing else; submitting an
  edited question also drops everything after it and appends one new answer in progress, to be
  sent. An edit fails exactly when no message has the key.
\<close>

theorem applyMessageEdit_outcome:
  assumes "distinct (map key ms)"
  shows "case applyMessageEdit now ids ms k c submit of
     None \<Rightarrow> k \<notin> key ` set ms
   | Some r \<Rightarrow> \<exists>before m after m'. ms = before @ m # after \<and> key m = k \<and> key m' = k
       \<and> from_role m' = from_role m \<and> getMessageContent m' = c
       \<and> shouldSend r = (submit \<and> from_role m = Role_user)
       \<and> edit_messages r = (if shouldSend r then before @ [m', createLoadingAssistantMessage ids now]
           else before @ m' # after)"
proof (cases "find_index (\<lambda>m. key m = k) ms")
  case None
  then have "k \<notin> key ` set ms" by (auto simp: find_index_None)
  with None show ?thesis by (simp add: applyMessageEdit_def)
next
  case (Some i)
  then have i: "i < length ms" "key (ms ! i) = k" by (simp_all add: find_index_Some)
  define before after m where "before = take i ms" and "after = drop (Suc i) ms" and "m = ms ! i"
  have ms: "ms = before @ m # after" and len: "length before = i"
    using i(1) id_take_nth_drop [OF i(1)] by (simp_all add: before_def after_def m_def)
  let ?m' = "(updateCurrentVersionContent m c)\<lparr>createdAt := (if submit then Some now else createdAt m)\<rparr>"
  have "key m = k" using i(2) by (simp add: m_def)
  moreover have "distinct (map key (before @ m # after))" using assms unfolding ms [symmetric] .
  ultimately have others: "\<forall>x \<in> set before. key x \<noteq> k" "\<forall>x \<in> set after. key x \<noteq> k" "key m = k"
    by (auto simp: image_iff)
  let ?upd = "\<lambda>m. if key m = k then (updateCurrentVersionContent m c)
                 \<lparr>createdAt := (if submit then Some now else createdAt m)\<rparr> else m"
  have "map ?upd before = before" "map ?upd after = after"
    using others by (simp_all add: map_idI)
  then have "map ?upd ms = before @ ?m' # after" unfolding ms using others(3) by simp
  then have "applyMessageEdit now ids ms k c submit = Some
      (if submit \<and> from_role m = Role_user
       then \<lparr>edit_messages = before @ [?m', createLoadingAssistantMessage ids now], shouldSend = True\<rparr>
       else \<lparr>edit_messages = before @ ?m' # after, shouldSend = False\<rparr>)"
    using Some len unfolding applyMessageEdit_def by (simp add: Let_def nth_append)
  moreover have "key ?m' = k" "from_role ?m' = from_role m" "getMessageContent ?m' = c"
    using others(3) by simp_all
  ultimately show ?thesis using ms others(3)
    by (simp only: option.case)
      (intro exI [of _ before] exI [of _ m] exI [of _ after] exI [of _ ?m'] conjI; auto)
qed

theorem applyMessageEdit_outcome_witness:
  defines "u \<equiv> createUserMessage (lit ''u'', lit ''v'') (lit ''hi'') 1"
  shows "map_option (map getMessageContent \<circ> edit_messages)
    (applyMessageEdit 9 (lit ''b'', lit ''w'') [u] (lit ''u'') (lit ''hey'') True) = Some [lit ''hey'', []]"
proof -
  have d: "distinct (map key [u])" by simp
  have k: "key u = lit ''u''" "from_role u = Role_user"
    "getMessageContent (createLoadingAssistantMessage (lit ''b'', lit ''w'') 9) = []"
    unfolding u_def by code_simp+
  note e = applyMessageEdit_outcome [OF d, where now = 9 and ids = "(lit ''b'', lit ''w'')" and k = "lit ''u''"
      and c = "lit ''hey''" and submit = True]
  obtain r where r: "applyMessageEdit 9 (lit ''b'', lit ''w'') [u] (lit ''u'') (lit ''hey'') True = Some r"
    using e k by (cases "applyMessageEdit 9 (lit ''b'', lit ''w'') [u] (lit ''u'') (lit ''hey'') True") auto
  with e k show ?thesis by (auto simp: Cons_eq_append_conv)
qed

end
