(* ===== verification/Stream_Controller.thy ===== *)
theory Stream_Controller
  imports JS_Json Playground_Messages
begin

section \<open>Streaming requests of the playground (\<^verbatim>\<open>use-stream-request.ts\<close>, \<^verbatim>\<open>stream-utils.ts\<close>)\<close>

text \<open>
  The controller that starts one streaming request at a time. Its state is the closure of
  \<^verbatim>\<open>createStreamRequestController\<close>: the active source and the generation, with the sources that
  were created (the generation of the request each belongs to, its \<open>completed\<close> flag and whether it
  was closed), the requests that still wait for their headers and the last value given to
  \<^verbatim>\<open>setStreaming\<close>. The event source is third-party code: its events are arbitrary inputs, also
  after it was closed. A callback is the generation of its request with the call.

  A response is read at its declared type: a text field that is present and is not a string is
  taken as absent.
\<close>

subsection \<open>Parsing of stream events\<close>

definition stream_done_message :: jstring where
  "stream_done_message = lit ''[DONE]''"

definition api_request_error :: jstring where
  "api_request_error = lit ''Request error occurred''"

definition parse_error :: jstring where
  "parse_error = lit ''Error parsing response data''"

definition stream_start_error :: jstring where
  "stream_start_error = lit ''Error establishing connection''"

definition connection_closed :: jstring where
  "connection_closed = lit ''Connection closed''"

text \<open>A text field: \<open>None\<close> when it is absent or empty.\<close>

definition text_field :: "jsval \<Rightarrow> jstring \<Rightarrow> jstring option" where
  "text_field v k = (case as_str (get_prop v k) of None \<Rightarrow> None | Some s \<Rightarrow> if s = [] then None else Some s)"

definition parseStreamErrorDetails :: "jstring option \<Rightarrow> jstring option \<times> jstring" where
  "parseStreamErrorDetails data =
     (let fallbackMessage = opt_or_str data api_request_error in
      if opt_or_str data [] = [] then (None, fallbackMessage)
      else case json_parse (opt_or_str data []) of
        None \<Rightarrow> (None, fallbackMessage)
      | Some parsed \<Rightarrow>
          let err = get_prop parsed (lit ''error'') in
          if \<not> truthy err then (None, fallbackMessage)
          else (text_field err (lit ''code''), opt_or_str (text_field err (lit ''message'')) fallbackMessage))"

text \<open>\<^verbatim>\<open>v?.[0]\<close>\<close>

fun first_elem :: "jsval \<Rightarrow> jsval" where
  "first_elem (JArr (x # _)) = x"
| "first_elem (JStr (c # _)) = JStr [c]"
| "first_elem (JObj ps) = get_prop (JObj ps) (lit ''0'')"
| "first_elem _ = Undefined"

text \<open>\<open>None\<close> is an exception: the text is not JSON, or it is \<^verbatim>\<open>null\<close>.\<close>

definition parseStreamMessageUpdates :: "jstring \<Rightarrow> (chunk_type \<times> jstring) list option" where
  "parseStreamMessageUpdates data =
     (case json_parse data of
        None \<Rightarrow> None
      | Some chunk \<Rightarrow>
          if chunk = Null then None
          else let delta = get_prop (first_elem (get_prop chunk (lit ''choices''))) (lit ''delta'') in
            if \<not> truthy delta then Some []
            else Some ((case text_field delta (lit ''reasoning_content'') of None \<Rightarrow> [] | Some s \<Rightarrow> [(Chunk_reasoning, s)])
                     @ (case text_field delta (lit ''content'') of None \<Rightarrow> [] | Some s \<Rightarrow> [(Chunk_content, s)])))"

definition isStreamDoneMessage :: "jstring \<Rightarrow> bool" where
  "isStreamDoneMessage data \<longleftrightarrow> data = stream_done_message"

definition isStreamClosedReadyState :: "int option \<Rightarrow> bool" where
  "isStreamClosedReadyState readyState \<longleftrightarrow> readyState = Some 2"

definition getStreamReadyStateError :: "int option \<Rightarrow> int option \<Rightarrow> jstring option" where
  "getStreamReadyStateError eventReadyState http_status =
     (case (eventReadyState, http_status) of
        (Some r, Some st) \<Rightarrow>
          if r \<ge> 2 \<and> st \<noteq> 200 then Some (lit ''HTTP '' @ show_int st @ lit '': '' @ connection_closed) else None
      | _ \<Rightarrow> None)"

subsection \<open>The controller\<close>

datatype callback =
    On_update chunk_type jstring
  | On_complete
  | On_error jstring "jstring option"

record source_state =
  request_gen :: nat
  completed :: bool
  closed :: bool

record controller =
  source :: "nat option"
  generation :: nat
  made :: "source_state list"
  waiting :: "nat list"
  streaming :: bool

definition createStreamRequestController :: controller where
  "createStreamRequestController =
     \<lparr>source = None, generation = 0, made = [], waiting = [], streaming = False\<rparr>"

definition close_source :: "nat \<Rightarrow> controller \<Rightarrow> controller" where
  "close_source i c = c\<lparr>made := (made c)[i := (made c ! i)\<lparr>closed := True\<rparr>]\<rparr>"

definition close_opt :: "nat option \<Rightarrow> controller \<Rightarrow> controller" where
  "close_opt s c = (case s of None \<Rightarrow> c | Some i \<Rightarrow> close_source i c)"

definition closeActiveSource :: "nat \<Rightarrow> controller \<Rightarrow> controller" where
  "closeActiveSource target c =
     (let c' = close_source target c in
      if source c' = Some target then c'\<lparr>source := None, streaming := False\<rparr> else c')"

text \<open>\<^verbatim>\<open>send\<close> up to the \<^verbatim>\<open>await\<close> of the headers.\<close>

definition send :: "controller \<Rightarrow> controller" where
  "send c =
     (let g = generation c + 1; previousSource = source c
      in (close_opt previousSource (c\<lparr>generation := g, source := None\<rparr>))
           \<lparr>streaming := False, waiting := waiting c @ [g]\<rparr>)"

definition isCurrent :: "controller \<Rightarrow> nat \<Rightarrow> bool" where
  "isCurrent c i \<longleftrightarrow> generation c = request_gen (made c ! i) \<and> source c = Some i"

definition mark_completed :: "nat \<Rightarrow> controller \<Rightarrow> controller" where
  "mark_completed i c = c\<lparr>made := (made c)[i := (made c ! i)\<lparr>completed := True\<rparr>]\<rparr>"

definition ignored :: "controller \<Rightarrow> nat \<Rightarrow> bool" where
  "ignored c i \<longleftrightarrow> \<not> isCurrent c i \<or> completed (made c ! i)"

definition handleError ::
    "nat \<Rightarrow> jstring \<Rightarrow> jstring option \<Rightarrow> controller \<Rightarrow> controller \<times> (nat \<times> callback) list" where
  "handleError i errorMessage code c =
     (if ignored c i then (c, [])
      else (closeActiveSource i (mark_completed i c), [(request_gen (made c ! i), On_error errorMessage code)]))"

text \<open>
  The rest of \<^verbatim>\<open>send\<close> when the headers of request \<open>g\<close> are there, or failed with the message of an
  error object. \<open>throws\<close> says whether \<^verbatim>\<open>stream()\<close> raises an exception.
\<close>

datatype headers_result = Headers_ok | Headers_failed "jstring option"

definition send_resume ::
    "nat \<Rightarrow> headers_result \<Rightarrow> bool \<Rightarrow> controller \<Rightarrow> controller \<times> (nat \<times> callback) list" where
  "send_resume g res throws c0 =
     (let c = c0\<lparr>waiting := remove1 g (waiting c0)\<rparr> in
      if generation c \<noteq> g then (c, [])
      else case res of
        Headers_failed msg \<Rightarrow> (c, [(g, On_error (coalesce msg stream_start_error) None)])
      | Headers_ok \<Rightarrow>
          let i = length (made c);
              c' = c\<lparr>made := made c @ [\<lparr>request_gen = g, completed = False, closed = False\<rparr>],
                     source := Some i, streaming := True\<rparr>
          in if throws then handleError i stream_start_error None c' else (c', []))"

definition on_message :: "nat \<Rightarrow> jstring option \<Rightarrow> controller \<Rightarrow> controller \<times> (nat \<times> callback) list" where
  "on_message i event_data c =
     (if ignored c i then (c, [])
      else let data = coalesce event_data []; g = request_gen (made c ! i) in
        if isStreamDoneMessage data then (closeActiveSource i (mark_completed i c), [(g, On_complete)])
        else case parseStreamMessageUpdates data of
          Some updates \<Rightarrow> (c, map (\<lambda>(typ, chunk). (g, On_update typ chunk)) updates)
        | None \<Rightarrow> handleError i parse_error None c)"

definition on_error_event ::
    "nat \<Rightarrow> int option \<Rightarrow> jstring option \<Rightarrow> controller \<Rightarrow> controller \<times> (nat \<times> callback) list" where
  "on_error_event i readyState event_data c =
     (if ignored c i then (c, [])
      else if isStreamClosedReadyState readyState then (c, [])
      else case parseStreamErrorDetails event_data of
        (code, errorMessage) \<Rightarrow> handleError i errorMessage code c)"

definition on_readystatechange ::
    "nat \<Rightarrow> int option \<Rightarrow> int option \<Rightarrow> controller \<Rightarrow> controller \<times> (nat \<times> callback) list" where
  "on_readystatechange i eventReadyState http_status c =
     (if ignored c i then (c, [])
      else case getStreamReadyStateError eventReadyState http_status of
        None \<Rightarrow> (c, [])
      | Some errorMessage \<Rightarrow> handleError i errorMessage None c)"

definition cancel :: "bool \<Rightarrow> controller \<Rightarrow> controller" where
  "cancel notify c =
     (let activeSource = source c;
          c' = close_opt activeSource (c\<lparr>generation := generation c + 1, source := None\<rparr>)
      in if notify then c'\<lparr>streaming := False\<rparr> else c')"

definition stop :: "controller \<Rightarrow> controller" where
  "stop c = cancel True c"

definition dispose :: "controller \<Rightarrow> controller" where
  "dispose c = cancel False c"

subsection \<open>Runs of the controller\<close>

datatype stream_event =
    Send
  | Resume nat headers_result bool
  | Message nat "jstring option"
  | Error_event nat "int option" "jstring option"
  | Ready_state nat "int option" "int option"
  | Stop
  | Dispose

text \<open>
  A request resumes only while it waits for its headers, and only a source that was created has
  events.
\<close>

fun stream_step :: "stream_event \<Rightarrow> controller \<Rightarrow> controller \<times> (nat \<times> callback) list" where
  "stream_step Send c = (send c, [])"
| "stream_step (Resume g res throws) c =
     (if g \<in> set (waiting c) then send_resume g res throws c else (c, []))"
| "stream_step (Message i d) c = (if i < length (made c) then on_message i d c else (c, []))"
| "stream_step (Error_event i r d) c = (if i < length (made c) then on_error_event i r d c else (c, []))"
| "stream_step (Ready_state i r st) c = (if i < length (made c) then on_readystatechange i r st c else (c, []))"
| "stream_step Stop c = (stop c, [])"
| "stream_step Dispose c = (dispose c, [])"

fun stream_run :: "stream_event list \<Rightarrow> controller \<Rightarrow> controller \<times> (nat \<times> callback) list" where
  "stream_run [] c = (c, [])"
| "stream_run (e # es) c =
     (let (c1, cbs) = stream_step e c; (c2, rest) = stream_run es c1 in (c2, cbs @ rest))"

fun terminal :: "callback \<Rightarrow> bool" where
  "terminal (On_update _ _) = False"
| "terminal _ = True"

text \<open>A request that may still call back: the newest one, while it waits or its source is active.\<close>

definition live :: "controller \<Rightarrow> nat \<Rightarrow> bool" where
  "live c g \<longleftrightarrow> g = generation c \<and> (g \<in> set (waiting c) \<or> source c \<noteq> None)"

definition stream_inv :: "controller \<Rightarrow> bool" where
  "stream_inv c \<longleftrightarrow>
     (\<forall>g \<in> set (waiting c). g \<le> generation c)
     \<and> distinct (waiting c)
     \<and> (\<forall>i < length (made c). request_gen (made c ! i) \<le> generation c)
     \<and> (\<forall>i < length (made c). source c = Some i \<longleftrightarrow> \<not> closed (made c ! i))
     \<and> (case source c of None \<Rightarrow> True
        | Some i \<Rightarrow> i < length (made c) \<and> request_gen (made c ! i) = generation c
            \<and> \<not> completed (made c ! i) \<and> generation c \<notin> set (waiting c) \<and> streaming c)"

subsection \<open>The invariant and the callbacks of a step\<close>

lemma close_source_fields [simp]:
  "source (close_source i c) = source c" "generation (close_source i c) = generation c"
  "waiting (close_source i c) = waiting c" "streaming (close_source i c) = streaming c"
  "length (made (close_source i c)) = length (made c)"
  by (simp_all add: close_source_def)

lemma close_opt_fields [simp]:
  "source (close_opt s c) = source c" "generation (close_opt s c) = generation c"
  "waiting (close_opt s c) = waiting c" "streaming (close_opt s c) = streaming c"
  "length (made (close_opt s c)) = length (made c)"
  by (simp_all add: close_opt_def split: option.split)

lemma inv_active: "stream_inv c \<Longrightarrow> \<not> ignored c i \<Longrightarrow> i < length (made c) \<and> source c = Some i
    \<and> request_gen (made c ! i) = generation c \<and> generation c \<notin> set (waiting c)"
  by (auto simp: stream_inv_def ignored_def isCurrent_def split: option.splits)

lemma send_inv: "stream_inv c \<Longrightarrow> stream_inv (send c)"
  by (fastforce simp: stream_inv_def send_def Let_def close_opt_def close_source_def nth_list_update
      split: option.splits)

lemma cancel_inv: "stream_inv c \<Longrightarrow> stream_inv (cancel notify c)"
  by (fastforce simp: stream_inv_def cancel_def Let_def close_opt_def close_source_def nth_list_update
      split: option.splits)

lemma finish_inv:
  assumes "stream_inv c" "\<not> ignored c i"
  shows "stream_inv (closeActiveSource i (mark_completed i c))"
    and "\<not> live (closeActiveSource i (mark_completed i c)) g"
    and "generation (closeActiveSource i (mark_completed i c)) = generation c"
  using assms inv_active [OF assms]
  by (auto simp: stream_inv_def closeActiveSource_def mark_completed_def close_source_def Let_def
      nth_list_update live_def split: option.splits)

text \<open>What one step may do, given the state before it.\<close>

definition step_ok :: "controller \<Rightarrow> controller \<times> (nat \<times> callback) list \<Rightarrow> bool" where
  "step_ok c r \<longleftrightarrow>
     stream_inv (fst r) \<and> generation c \<le> generation (fst r)
     \<and> (\<forall>g \<le> generation c. live (fst r) g \<longrightarrow> live c g)
     \<and> (\<forall>(g, cb) \<in> set (snd r). live c g)
     \<and> (\<forall>(g, cb) \<in> set (snd r). terminal cb \<longrightarrow> snd r = [(g, cb)] \<and> \<not> live (fst r) g)"

lemma step_ok_same: "stream_inv c \<Longrightarrow> step_ok c (c, [])"
  by (simp add: step_ok_def)

lemma active_live: "stream_inv c \<Longrightarrow> \<not> ignored c i \<Longrightarrow> live c (request_gen (made c ! i))"
  using inv_active [of c i] by (simp add: live_def)

lemma finish_ok:
  assumes "stream_inv c" "\<not> ignored c i" "terminal cb"
  shows "step_ok c (closeActiveSource i (mark_completed i c), [(request_gen (made c ! i), cb)])"
  using finish_inv [OF assms(1,2)] active_live [OF assms(1,2)] by (simp add: step_ok_def)

lemma handleError_ok: "stream_inv c \<Longrightarrow> step_ok c (handleError i msg code c)"
  by (simp add: handleError_def step_ok_same finish_ok)

lemma step_ok_weaken:
  "step_ok c1 r \<Longrightarrow> generation c1 = generation c \<Longrightarrow> (\<And>g. live c1 g \<Longrightarrow> live c g) \<Longrightarrow> step_ok c r"
  by (fastforce simp: step_ok_def)

lemma send_resume_ok:
  assumes "stream_inv c" "g \<in> set (waiting c)"
  shows "step_ok c (send_resume g res throws c)"
proof -
  let ?c = "c\<lparr>waiting := remove1 g (waiting c)\<rparr>"
  have inv: "stream_inv ?c" using assms by (auto simp: stream_inv_def split: option.splits)
  show ?thesis
  proof (cases "generation c = g \<and> res = Headers_ok")
    case False
    with assms inv show ?thesis
      by (cases res) (auto simp: send_resume_def step_ok_def live_def Let_def stream_inv_def split: option.splits)
  next
    case True
    let ?i = "length (made c)"
    let ?c1 = "?c\<lparr>made := made c @ [\<lparr>request_gen = g, completed = False, closed = False\<rparr>],
                  source := Some ?i, streaming := True\<rparr>"
    have src: "source c = None" using assms True by (auto simp: stream_inv_def split: option.splits)
    have inv1: "stream_inv ?c1"
      using inv src True assms by (auto simp: stream_inv_def nth_append)
    have "step_ok c (?c1, [])"
      using inv1 True assms by (simp add: step_ok_def live_def)
    moreover have "step_ok c (handleError ?i stream_start_error None ?c1)"
      by (rule step_ok_weaken [OF handleError_ok [OF inv1]])
        (use True assms in \<open>simp_all add: live_def\<close>)
    ultimately show ?thesis using True by (simp add: send_resume_def Let_def)
  qed
qed

lemma updates_ok:
  "stream_inv c \<Longrightarrow> live c g \<Longrightarrow> step_ok c (c, map (\<lambda>(typ, chunk). (g, On_update typ chunk)) us)"
  by (auto simp: step_ok_def)

lemma on_message_ok: "stream_inv c \<Longrightarrow> step_ok c (on_message i d c)"
  using active_live [of c i]
  by (simp add: on_message_def Let_def step_ok_same handleError_ok finish_ok updates_ok
      split: option.split)

lemma stream_step_ok: "stream_inv c \<Longrightarrow> step_ok c (stream_step e c)"
proof (cases e)
  case Send
  assume inv: "stream_inv c"
  then have "\<forall>g \<in> set (waiting c). g \<le> generation c" by (simp add: stream_inv_def)
  with Send inv show ?thesis by (simp add: step_ok_def send_inv) (simp add: send_def Let_def live_def)
next
  case Stop
  assume inv: "stream_inv c"
  with Stop show ?thesis
    by (simp add: step_ok_def stop_def cancel_inv) (simp add: cancel_def Let_def live_def)
next
  case Dispose
  assume inv: "stream_inv c"
  with Dispose show ?thesis
    by (simp add: step_ok_def dispose_def cancel_inv) (simp add: cancel_def Let_def live_def)
qed (simp_all add: step_ok_same send_resume_ok on_message_ok handleError_ok on_error_event_def
    on_readystatechange_def split: option.split prod.split)

text \<open>The callbacks of one request.\<close>

definition of_request :: "nat \<Rightarrow> (nat \<times> callback) list \<Rightarrow> callback list" where
  "of_request g cbs = map snd (filter (\<lambda>p. fst p = g) cbs)"

lemma of_request_append: "of_request g (xs @ ys) = of_request g xs @ of_request g ys"
  by (simp add: of_request_def)

text \<open>Callbacks in the right order: updates, then at most one end.\<close>

fun well_ended :: "callback list \<Rightarrow> bool" where
  "well_ended [] \<longleftrightarrow> True"
| "well_ended (cb # cbs) \<longleftrightarrow> (if terminal cb then cbs = [] else well_ended cbs)"

lemma well_ended_append: "list_all (\<lambda>cb. \<not> terminal cb) xs \<Longrightarrow> well_ended (xs @ ys) = well_ended ys"
  by (induction xs) auto

lemma stream_run_Cons:
  "snd (stream_run (e # es) c) = snd (stream_step e c) @ snd (stream_run es (fst (stream_step e c)))"
  "fst (stream_run (e # es) c) = fst (stream_run es (fst (stream_step e c)))"
  by (simp_all split: prod.split)

declare stream_run.simps(2) [simp del]

lemma stream_run_inv: "stream_inv c \<Longrightarrow> stream_inv (fst (stream_run es c))"
proof (induction es arbitrary: c)
  case (Cons e es)
  then show ?case using stream_step_ok [of c e]
    by (simp add: step_ok_def stream_run_Cons)
qed simp

lemma dead_silent:
  assumes "stream_inv c" "g \<le> generation c" "\<not> live c g"
  shows "of_request g (snd (stream_run es c)) = []"
  using assms
proof (induction es arbitrary: c)
  case (Cons e es)
  obtain c1 cbs where s: "stream_step e c = (c1, cbs)" by fastforce
  note ok = stream_step_ok [OF Cons.prems(1), of e, unfolded s step_ok_def, simplified]
  from ok Cons.prems have "of_request g cbs = []"
    by (fastforce simp: of_request_def filter_empty_conv)
  moreover from ok Cons.prems have "of_request g (snd (stream_run es c1)) = []"
    by (intro Cons.IH) auto
  ultimately show ?case using s by (simp add: of_request_append stream_run_Cons)
qed (simp add: of_request_def)

lemma run_well_ended: "stream_inv c \<Longrightarrow> well_ended (of_request g (snd (stream_run es c)))"
proof (induction es arbitrary: c)
  case (Cons e es)
  obtain c1 cbs where s: "stream_step e c = (c1, cbs)" by fastforce
  note ok = stream_step_ok [OF Cons.prems(1), of e, unfolded s step_ok_def, simplified]
  show ?case
  proof (cases "\<exists>cb. (g, cb) \<in> set cbs \<and> terminal cb")
    case True
    then obtain cb where cb: "(g, cb) \<in> set cbs" "terminal cb" by blast
    with ok have "cbs = [(g, cb)]" "\<not> live c1 g" "g \<le> generation c1" "stream_inv c1"
      by (auto simp: live_def)
    with cb s dead_silent [of c1 g es] show ?thesis
      by (simp add: of_request_def stream_run_Cons)
  next
    case False
    then have "list_all (\<lambda>cb. \<not> terminal cb) (of_request g cbs)"
      by (auto simp: of_request_def list_all_iff)
    with ok s Cons.IH [of c1] show ?thesis
      by (simp add: of_request_append well_ended_append stream_run_Cons)
  qed
qed (simp add: of_request_def)

lemma initial_inv: "stream_inv createStreamRequestController"
  by (simp add: stream_inv_def createStreamRequestController_def)

lemma run_callback_gen:
  "stream_inv c \<Longrightarrow> (g, cb) \<in> set (snd (stream_run es c)) \<Longrightarrow> generation c \<le> g"
proof (induction es arbitrary: c)
  case (Cons e es)
  note ok = stream_step_ok [OF Cons.prems(1), of e]
  from Cons.prems(2) consider "(g, cb) \<in> set (snd (stream_step e c))"
    | "(g, cb) \<in> set (snd (stream_run es (fst (stream_step e c))))"
    by (auto simp: stream_run_Cons)
  then show ?case
  proof cases
    case 1
    with ok show ?thesis by (fastforce simp: step_ok_def live_def)
  next
    case 2
    with ok Cons.IH show ?thesis by (fastforce simp: step_ok_def)
  qed
qed simp

subsection \<open>Properties\<close>

text \<open>
  C7. Whatever the event sources, the header requests and the user do, and in whatever order, the
  callbacks of every streaming request are a sequence of updates that is followed by at most one
  completion or error, and nothing comes after it.
\<close>

theorem stream_callbacks_ordered:
  "well_ended (of_request g (snd (stream_run es createStreamRequestController)))"
  by (rule run_well_ended [OF initial_inv])

text \<open>
  C8. The latest request wins: after a new request, a stop or the disposal, the controller calls
  back only for requests that were sent later, also when the headers of an older request arrive
  afterwards or its source still delivers events.
\<close>

theorem stream_latest_wins:
  fixes es :: "stream_event list"
  assumes "e \<in> {Send, Stop, Dispose}"
  defines "c \<equiv> fst (stream_run es createStreamRequestController)"
  shows "\<forall>(g, cb) \<in> set (snd (stream_run es' (fst (stream_step e c)))). generation c < g"
proof -
  have inv: "stream_inv c" unfolding c_def by (rule stream_run_inv [OF initial_inv])
  have "generation (fst (stream_step e c)) = Suc (generation c)"
    using assms(1) by (auto simp: send_def stop_def dispose_def cancel_def Let_def)
  moreover have "stream_inv (fst (stream_step e c))"
    using stream_step_ok [OF inv] by (simp add: step_ok_def)
  ultimately show ?thesis using run_callback_gen by fastforce
qed

theorem stream_latest_wins_witness:
  defines "es \<equiv> [Send, Resume 1 Headers_ok False]"
  defines "c \<equiv> fst (stream_run es createStreamRequestController)"
  defines "es' \<equiv> [Message 0 (Some stream_done_message), Resume 2 (Headers_failed None) False]"
  shows "snd (stream_run es' (fst (stream_step Send c))) = [(2, On_error stream_start_error None)]
    \<and> list_all (\<lambda>p. 1 < fst p) (snd (stream_run es' (fst (stream_step Send c))))"
proof -
  have "snd (stream_run es' (fst (stream_step Send c))) = [(2, On_error stream_start_error None)]"
    unfolding es_def c_def es'_def by code_simp
  moreover have "generation c = 1" unfolding es_def c_def by code_simp
  ultimately show ?thesis
    using stream_latest_wins [of Send es es'] unfolding c_def by (simp add: list_all_iff)
qed

text \<open>
  C22. At most one event source is open at any time, it belongs to the newest request, and the
  interface shows a running stream whenever there is one.
\<close>

theorem stream_single_source:
  fixes es :: "stream_event list"
  defines "c \<equiv> fst (stream_run es createStreamRequestController)"
  shows "(\<forall>i < length (made c). \<not> closed (made c ! i) \<longleftrightarrow> source c = Some i)
    \<and> (source c \<noteq> None \<longrightarrow> streaming c \<and> request_gen (made c ! the (source c)) = generation c)"
proof -
  have "stream_inv c" unfolding c_def by (rule stream_run_inv [OF initial_inv])
  then show ?thesis by (auto simp: stream_inv_def split: option.splits)
qed

theorem stream_single_source_witness:
  defines "c \<equiv> fst (stream_run [Send, Resume 1 Headers_ok False, Send, Resume 2 Headers_ok False]
    createStreamRequestController)"
  shows "source c = Some 1 \<and> closed (made c ! 0) \<and> streaming c"
proof -
  have c: "source c = Some 1" "length (made c) = 2" unfolding c_def by code_simp+
  with stream_single_source [of "[Send, Resume 1 Headers_ok False, Send, Resume 2 Headers_ok False]"]
  show ?thesis unfolding c_def by (auto dest: spec [of _ 0])
qed

text \<open>
  An event of the active source is delivered: the end marker completes the request, a message
  passes on its updates in order, a message that cannot be parsed ends the request with an error;
  after the end the source is closed and no stream is shown.
\<close>

theorem stream_active_delivery:
  fixes es :: "stream_event list"
  defines "c \<equiv> fst (stream_run es createStreamRequestController)"
  assumes "source c = Some i"
  shows "let (c', cbs) = stream_step (Message i (Some d)) c; g = generation c in
    if d = stream_done_message then cbs = [(g, On_complete)] \<and> source c' = None \<and> \<not> streaming c'
    else case parseStreamMessageUpdates d of
      None \<Rightarrow> cbs = [(g, On_error parse_error None)] \<and> source c' = None \<and> \<not> streaming c'
    | Some us \<Rightarrow> cbs = map (\<lambda>(typ, chunk). (g, On_update typ chunk)) us \<and> c' = c"
proof -
  have "stream_inv c" unfolding c_def by (rule stream_run_inv [OF initial_inv])
  with assms(2) have "i < length (made c)" "\<not> ignored c i" "request_gen (made c ! i) = generation c"
    by (auto simp: stream_inv_def ignored_def isCurrent_def)
  with assms(2) show ?thesis
    by (auto simp: on_message_def isStreamDoneMessage_def coalesce_def handleError_def closeActiveSource_def
        mark_completed_def Let_def split: option.split)
qed

theorem stream_active_delivery_witness:
  defines "c \<equiv> fst (stream_run [Send, Resume 1 Headers_ok False] createStreamRequestController)"
  defines "d \<equiv> lit ''{'' @ [34] @ lit ''choices'' @ [34] @ lit '':[{'' @ [34] @ lit ''delta'' @ [34] @ lit '':{''
    @ [34] @ lit ''content'' @ [34] @ lit '':'' @ [34] @ lit ''hi'' @ [34] @ lit ''}}]}''"
  shows "snd (stream_step (Message 0 (Some d)) c) = [(1, On_update Chunk_content (lit ''hi''))]"
proof -
  have c: "source c = Some 0" "generation c = 1" unfolding c_def by code_simp+
  have p: "parseStreamMessageUpdates d = Some [(Chunk_content, lit ''hi'')]" "d \<noteq> stream_done_message"
    unfolding d_def by code_simp+
  from stream_active_delivery [of "[Send, Resume 1 Headers_ok False]" 0 d, folded c_def, OF c(1)]
  show ?thesis using p c(2) by (auto simp: Let_def split: prod.splits if_splits)
qed

end
