(* ===== verification/Chat_Handler.thy ===== *)
theory Chat_Handler
  imports Stream_Controller
begin

section \<open>The chat of the playground (\<^verbatim>\<open>use-chat-handler.ts\<close>, \<^verbatim>\<open>use-playground-conversation.ts\<close>)\<close>

text \<open>
  The handler that sends the conversation, collects the chunks of the answer and writes them into
  the last message. Its refs and states are the record \<open>chat\<close>; the streaming controller is a part
  of it. Updates of the message list are React state updates: an updater is queued and runs at the
  next render, or at once when the queue is empty and React evaluates it eagerly (\<open>eager\<close>, an
  argument of every operation). \<open>inflight\<close> lists the requests without streaming whose
  response is still to come. Updaters read the generation when they run, as in the code.
  Identifiers, times and the translator are arguments. Toasts are not modelled.
\<close>

subsection \<open>Request payload (\<^verbatim>\<open>payload-builder.ts\<close>, \<^verbatim>\<open>request-error-utils.ts\<close>)\<close>

record playground_config =
  cfg_model :: jstring
  cfg_group :: jstring
  cfg_temperature :: rat
  cfg_top_p :: rat
  cfg_max_tokens :: int
  cfg_frequency_penalty :: rat
  cfg_presence_penalty :: rat
  cfg_seed :: "int option"
  cfg_stream :: bool

record parameter_enabled =
  temperature_on :: bool
  top_p_on :: bool
  max_tokens_on :: bool
  frequency_penalty_on :: bool
  presence_penalty_on :: bool
  seed_on :: bool

record chat_request =
  req_model :: jstring
  req_group :: jstring
  req_messages :: "api_message list"
  req_stream :: bool
  req_temperature :: "rat option"
  req_top_p :: "rat option"
  req_max_tokens :: "int option"
  req_frequency_penalty :: "rat option"
  req_presence_penalty :: "rat option"
  req_seed :: "int option"

definition when_on :: "bool \<Rightarrow> 'a \<Rightarrow> 'a option" where
  "when_on b x = (if b then Some x else None)"

definition buildChatCompletionPayload ::
    "message list \<Rightarrow> playground_config \<Rightarrow> parameter_enabled \<Rightarrow> chat_request" where
  "buildChatCompletionPayload ms cfg en =
     \<lparr>req_model = cfg_model cfg, req_group = cfg_group cfg,
      req_messages = map formatMessageForAPI (filter isValidMessage ms), req_stream = cfg_stream cfg,
      req_temperature = when_on (temperature_on en) (cfg_temperature cfg),
      req_top_p = when_on (top_p_on en) (cfg_top_p cfg),
      req_max_tokens = when_on (max_tokens_on en) (cfg_max_tokens cfg),
      req_frequency_penalty = when_on (frequency_penalty_on en) (cfg_frequency_penalty cfg),
      req_presence_penalty = when_on (presence_penalty_on en) (cfg_presence_penalty cfg),
      req_seed = (if seed_on en \<and> cfg_seed cfg \<noteq> None then cfg_seed cfg else None)\<rparr>"

text \<open>A failed request: the error code and the message of the response body, and the message of the error.\<close>

record request_error =
  reply_code :: "jstring option"
  reply_message :: "jstring option"
  error_message :: "jstring option"

definition parseRequestErrorDetails :: "request_error \<Rightarrow> jstring option \<times> jstring" where
  "parseRequestErrorDetails e =
     (case reply_code e of Some c \<Rightarrow> if c = [] then None else Some c | None \<Rightarrow> None,
      opt_or_str (reply_message e) (opt_or_str (error_message e) api_request_error))"

subsection \<open>State and message updates\<close>

record pending_chunks =
  pend_generation :: nat
  pend_content :: jstring
  pend_reasoning :: jstring

datatype updater =
    Upd_flush nat jstring jstring
  | Upd_complete nat
  | Upd_error nat jstring "jstring option" jstring
  | Upd_response nat "choice list"
  | Upd_stopped nat
  | Upd_set "message list"
  | Upd_remove jstring

record chat =
  requestGeneration :: nat
  pendingChunks :: pending_chunks
  flushTimer :: "nat option"
  abortController :: "nat option"
  aborted :: "nat list"
  inflight :: "nat list"
  isRequesting :: bool
  stream :: controller
  stream_callbacks :: "(nat \<times> nat) list"
  messages :: "message list"
  queue :: "updater list"
  rendered :: "message list"
  editingMessageKey :: "jstring option"

text \<open>\<open>now\<close> is the time at which the updater runs, \<open>cur\<close> the generation that it reads then.\<close>

fun run_updater :: "int \<Rightarrow> nat \<Rightarrow> updater \<Rightarrow> message list \<Rightarrow> message list" where
  "run_updater now cur (Upd_flush g c r) prev =
     (if g \<noteq> cur then prev
      else updateLastAssistantMessage prev (\<lambda>m0.
        let m1 = (if r \<noteq> [] then applyStreamingChunk now m0 Chunk_reasoning r else m0)
        in if c \<noteq> [] then applyStreamingChunk now m1 Chunk_content c else m1))"
| "run_updater now cur (Upd_complete g) prev =
     (if g \<noteq> cur then prev
      else updateLastAssistantMessage prev
        (\<lambda>m. if isAssistantMessageFinal m then m else completeAssistantMessage now m))"
| "run_updater now cur (Upd_error g err code title) prev =
     (if g \<noteq> cur then prev else updateAssistantMessageWithError now prev err code title)"
| "run_updater now cur (Upd_response g choices) prev =
     (if g \<noteq> cur then prev
      else updateLastAssistantMessage prev
        (\<lambda>m. coalesce (applyChatCompletionResponse now m choices) m))"
| "run_updater now cur (Upd_stopped g) prev =
     (if g \<noteq> cur then prev
      else updateLastAssistantMessage prev
        (\<lambda>m. if isAssistantMessagePending m then completeAssistantMessage now m else m))"
| "run_updater now cur (Upd_set ms) prev = ms"
| "run_updater now cur (Upd_remove k) prev = removeMessageByKey prev k"

definition onMessageUpdate :: "bool \<Rightarrow> int \<Rightarrow> updater \<Rightarrow> chat \<Rightarrow> chat" where
  "onMessageUpdate eager now u s =
     (if eager \<and> queue s = [] then s\<lparr>messages := run_updater now (requestGeneration s) u (messages s)\<rparr>
      else s\<lparr>queue := queue s @ [u]\<rparr>)"

definition render :: "int \<Rightarrow> chat \<Rightarrow> chat" where
  "render now s =
     (let ms = fold (run_updater now (requestGeneration s)) (queue s) (messages s)
      in s\<lparr>messages := ms, queue := [], rendered := ms\<rparr>)"

subsection \<open>Collecting chunks\<close>

definition mergePendingStreamChunk :: "jstring \<Rightarrow> jstring \<Rightarrow> jstring" where
  "mergePendingStreamChunk currentChunk nextChunk =
     (if currentChunk = [] \<or> \<not> starts_with nextChunk currentChunk then currentChunk @ nextChunk
      else nextChunk)"

definition discardPendingStreamUpdates :: "nat \<Rightarrow> chat \<Rightarrow> chat" where
  "discardPendingStreamUpdates g s =
     s\<lparr>flushTimer := None, pendingChunks := \<lparr>pend_generation = g, pend_content = [], pend_reasoning = []\<rparr>\<rparr>"

definition flushStreamUpdates :: "bool \<Rightarrow> int \<Rightarrow> nat \<Rightarrow> chat \<Rightarrow> chat" where
  "flushStreamUpdates eager now g s0 =
     (if g \<noteq> requestGeneration s0 then s0
      else let s = s0\<lparr>flushTimer := None\<rparr>; p = pendingChunks s in
        if pend_generation p \<noteq> g then s
        else if pend_reasoning p = [] \<and> pend_content p = [] then s
        else onMessageUpdate eager now (Upd_flush g (pend_content p) (pend_reasoning p))
          (s\<lparr>pendingChunks := \<lparr>pend_generation = g, pend_content = [], pend_reasoning = []\<rparr>\<rparr>))"

definition scheduleStreamFlush :: "nat \<Rightarrow> chat \<Rightarrow> chat" where
  "scheduleStreamFlush g s =
     (if g \<noteq> requestGeneration s then s
      else if flushTimer s \<noteq> None then s
      else s\<lparr>flushTimer := Some g\<rparr>)"

definition known_error_messages :: "jstring list" where
  "known_error_messages =
     [api_request_error, lit ''Network connection failed or server not responding'', parse_error,
      stream_start_error, connection_closed, lit ''Generation was interrupted'']"

definition ends_with :: "jstring \<Rightarrow> jstring \<Rightarrow> bool" where
  "ends_with s p \<longleftrightarrow> length p \<le> length s \<and> drop (length s - length p) s = p"

definition getDisplayError :: "(jstring \<Rightarrow> jstring) \<Rightarrow> jstring \<Rightarrow> jstring" where
  "getDisplayError t err =
     (if err \<in> set known_error_messages then t err
      else if ends_with err (lit '': '' @ connection_closed)
        then take (length err - length connection_closed) err @ t connection_closed
      else err)"

definition merge_chunk :: "chunk_type \<Rightarrow> jstring \<Rightarrow> pending_chunks \<Rightarrow> pending_chunks" where
  "merge_chunk typ chunk p =
     (case typ of
        Chunk_content \<Rightarrow> p\<lparr>pend_content := mergePendingStreamChunk (pend_content p) chunk\<rparr>
      | Chunk_reasoning \<Rightarrow> p\<lparr>pend_reasoning := mergePendingStreamChunk (pend_reasoning p) chunk\<rparr>)"

definition handleStreamUpdate :: "nat \<Rightarrow> chunk_type \<Rightarrow> jstring \<Rightarrow> chat \<Rightarrow> chat" where
  "handleStreamUpdate g typ chunk s =
     (if g \<noteq> requestGeneration s then s
      else if pend_generation (pendingChunks s) \<noteq> g then s
      else scheduleStreamFlush g (s\<lparr>pendingChunks := merge_chunk typ chunk (pendingChunks s)\<rparr>))"

definition handleStreamComplete :: "bool \<Rightarrow> int \<Rightarrow> nat \<Rightarrow> chat \<Rightarrow> chat" where
  "handleStreamComplete eager now g s =
     (if g \<noteq> requestGeneration s then s
      else onMessageUpdate eager now (Upd_complete g)
        ((flushStreamUpdates eager now g s)\<lparr>isRequesting := False\<rparr>))"

definition handleStreamError ::
    "bool \<Rightarrow> int \<Rightarrow> (jstring \<Rightarrow> jstring) \<Rightarrow> nat \<Rightarrow> jstring \<Rightarrow> jstring option \<Rightarrow> chat \<Rightarrow> chat" where
  "handleStreamError eager now t g err code s =
     (if g \<noteq> requestGeneration s then s
      else onMessageUpdate eager now (Upd_error g (getDisplayError t err) code (t api_request_error))
        ((flushStreamUpdates eager now g s)\<lparr>isRequesting := False\<rparr>))"

subsection \<open>Sending and stopping\<close>

text \<open>\<^verbatim>\<open>abortControllerRef.current?.abort(); abortControllerRef.current = null\<close>\<close>

definition abort_request :: "chat \<Rightarrow> chat" where
  "abort_request s =
     (case abortController s of
        None \<Rightarrow> s
      | Some g \<Rightarrow> s\<lparr>aborted := aborted s @ [g], abortController := None\<rparr>)"

text \<open>The payload is the one of the conversation that is sent; it is returned with the state.\<close>

definition sendStreamingChat ::
    "message list \<Rightarrow> playground_config \<Rightarrow> parameter_enabled \<Rightarrow> chat \<Rightarrow> chat \<times> chat_request" where
  "sendStreamingChat ms cfg en s0 =
     (let g = requestGeneration s0 + 1;
          s1 = abort_request (s0\<lparr>requestGeneration := g\<rparr>);
          s2 = (discardPendingStreamUpdates g s1)\<lparr>isRequesting := True\<rparr>;
          ctrl = send (stream s2)
      in (s2\<lparr>stream := ctrl, stream_callbacks := AList.update (generation ctrl) g (stream_callbacks s2)\<rparr>,
          buildChatCompletionPayload ms cfg en))"

definition sendNonStreamingChat ::
    "message list \<Rightarrow> playground_config \<Rightarrow> parameter_enabled \<Rightarrow> chat \<Rightarrow> chat \<times> chat_request" where
  "sendNonStreamingChat ms cfg en s0 =
     (let g = requestGeneration s0 + 1;
          s1 = s0\<lparr>requestGeneration := g\<rparr>;
          s2 = discardPendingStreamUpdates g (s1\<lparr>stream := stop (stream s1)\<rparr>);
          s3 = (abort_request s2)\<lparr>abortController := Some g\<rparr>
      in (s3\<lparr>isRequesting := True, inflight := inflight s3 @ [g]\<rparr>, buildChatCompletionPayload ms cfg en))"

datatype completion_result = Completion_ok "choice list" | Completion_failed request_error

text \<open>The rest of \<^verbatim>\<open>sendNonStreamingChat\<close> after its \<^verbatim>\<open>await\<close>, with its \<^verbatim>\<open>finally\<close> block.\<close>

definition nonStreaming_resume ::
    "bool \<Rightarrow> int \<Rightarrow> (jstring \<Rightarrow> jstring) \<Rightarrow> nat \<Rightarrow> completion_result \<Rightarrow> chat \<Rightarrow> chat" where
  "nonStreaming_resume eager now t g res s0 =
     (let s = s0\<lparr>inflight := removeAll g (inflight s0)\<rparr>;
          s1 =
        (if g \<in> set (aborted s) \<or> requestGeneration s \<noteq> g then s
         else case res of
           Completion_ok choices \<Rightarrow>
             if choices = [] then handleStreamError eager now t g api_request_error None s
             else onMessageUpdate eager now (Upd_response g choices) s
         | Completion_failed e \<Rightarrow>
             (case parseRequestErrorDetails e of
                (code, msg) \<Rightarrow> handleStreamError eager now t g msg code s))
      in if requestGeneration s1 = g then s1\<lparr>abortController := None, isRequesting := False\<rparr> else s1)"

definition sendChat ::
    "message list \<Rightarrow> playground_config \<Rightarrow> parameter_enabled \<Rightarrow> chat \<Rightarrow> chat \<times> chat_request" where
  "sendChat ms cfg en s =
     (if cfg_stream cfg then sendStreamingChat ms cfg en s else sendNonStreamingChat ms cfg en s)"

definition stopGeneration :: "bool \<Rightarrow> int \<Rightarrow> chat \<Rightarrow> chat" where
  "stopGeneration eager now s0 =
     (let stoppedGeneration = requestGeneration s0;
          s1 = flushStreamUpdates eager now stoppedGeneration s0;
          idleGeneration = stoppedGeneration + 1;
          s2 = discardPendingStreamUpdates idleGeneration (s1\<lparr>requestGeneration := idleGeneration\<rparr>);
          s3 = abort_request (s2\<lparr>stream := stop (stream s2)\<rparr>)
      in onMessageUpdate eager now (Upd_stopped idleGeneration) (s3\<lparr>isRequesting := False\<rparr>))"

definition unmount :: "chat \<Rightarrow> chat" where
  "unmount s = (abort_request (s\<lparr>requestGeneration := requestGeneration s + 1, flushTimer := None\<rparr>))
     \<lparr>stream := dispose (stream s)\<rparr>"

definition isGenerating :: "chat \<Rightarrow> bool" where
  "isGenerating s \<longleftrightarrow> streaming (stream s) \<or> isRequesting s"

subsection \<open>The conversation\<close>

definition handleSendMessage ::
    "bool \<Rightarrow> int \<Rightarrow> jstring \<times> jstring \<Rightarrow> jstring \<times> jstring \<Rightarrow> playground_config \<Rightarrow> parameter_enabled
      \<Rightarrow> jstring \<Rightarrow> chat \<Rightarrow> chat \<times> chat_request" where
  "handleSendMessage eager now ids1 ids2 cfg en txt s =
     (let nextMessages = appendUserMessagePair now ids1 ids2 (rendered s) txt
      in sendChat nextMessages cfg en (onMessageUpdate eager now (Upd_set nextMessages) s))"

definition handleRegenerateMessage ::
    "bool \<Rightarrow> int \<Rightarrow> jstring \<times> jstring \<Rightarrow> playground_config \<Rightarrow> parameter_enabled \<Rightarrow> jstring \<Rightarrow> chat
      \<Rightarrow> chat \<times> chat_request option" where
  "handleRegenerateMessage eager now ids cfg en k s =
     (case createRegeneratedMessages now ids (rendered s) k of
        None \<Rightarrow> (s, None)
      | Some nextMessages \<Rightarrow>
          (case sendChat nextMessages cfg en (onMessageUpdate eager now (Upd_set nextMessages) s) of
             (s', r) \<Rightarrow> (s', Some r)))"

definition handleEditMessage :: "jstring \<Rightarrow> chat \<Rightarrow> chat" where
  "handleEditMessage k s = s\<lparr>editingMessageKey := Some k\<rparr>"

definition handleEditOpenChange :: "bool \<Rightarrow> chat \<Rightarrow> chat" where
  "handleEditOpenChange opened s = (if \<not> opened then s\<lparr>editingMessageKey := None\<rparr> else s)"

definition applyEdit ::
    "bool \<Rightarrow> int \<Rightarrow> jstring \<times> jstring \<Rightarrow> playground_config \<Rightarrow> parameter_enabled \<Rightarrow> jstring \<Rightarrow> bool \<Rightarrow> chat
      \<Rightarrow> chat \<times> chat_request option" where
  "applyEdit eager now ids cfg en newContent shouldSubmit s =
     (case editingMessageKey s of
        None \<Rightarrow> (s, None)
      | Some k \<Rightarrow>
          if k = [] then (s, None)
          else (case applyMessageEdit now ids (rendered s) k newContent shouldSubmit of
             None \<Rightarrow> (s, None)
           | Some r \<Rightarrow>
               let s1 = onMessageUpdate eager now (Upd_set (edit_messages r)) (s\<lparr>editingMessageKey := None\<rparr>)
               in if shouldSend r then (case sendChat (edit_messages r) cfg en s1 of (s2, req) \<Rightarrow> (s2, Some req))
                  else (s1, None)))"

definition handleDeleteMessage :: "bool \<Rightarrow> int \<Rightarrow> jstring \<Rightarrow> chat \<Rightarrow> chat" where
  "handleDeleteMessage eager now k s = onMessageUpdate eager now (Upd_remove k) s"

subsection \<open>Events from outside\<close>

text \<open>The flush timer fires; a timer that was cleared does not.\<close>

definition fire_timer :: "bool \<Rightarrow> int \<Rightarrow> chat \<Rightarrow> chat" where
  "fire_timer eager now s =
     (case flushTimer s of None \<Rightarrow> s | Some g \<Rightarrow> flushStreamUpdates eager now g s)"

text \<open>A callback of the controller reaches the handler with the generation of its closure.\<close>

definition handle_callback ::
    "bool \<Rightarrow> int \<Rightarrow> (jstring \<Rightarrow> jstring) \<Rightarrow> nat \<times> callback \<Rightarrow> chat \<Rightarrow> chat" where
  "handle_callback eager now t p s =
     (case map_of (stream_callbacks s) (fst p) of
        None \<Rightarrow> s
      | Some g \<Rightarrow>
          (case snd p of
             On_update typ chunk \<Rightarrow> handleStreamUpdate g typ chunk s
           | On_complete \<Rightarrow> handleStreamComplete eager now g s
           | On_error err code \<Rightarrow> handleStreamError eager now t g err code s))"

datatype env_event =
    Env_headers nat headers_result bool
  | Env_message nat "jstring option"
  | Env_error nat "int option" "jstring option"
  | Env_ready nat "int option" "int option"
  | Env_timer
  | Env_response nat completion_result
  | Env_render

fun stream_input :: "env_event \<Rightarrow> stream_event option" where
  "stream_input (Env_headers g r b) = Some (Resume g r b)"
| "stream_input (Env_message i d) = Some (Message i d)"
| "stream_input (Env_error i r d) = Some (Error_event i r d)"
| "stream_input (Env_ready i r st) = Some (Ready_state i r st)"
| "stream_input _ = None"

definition env_step :: "(jstring \<Rightarrow> jstring) \<Rightarrow> bool \<times> int \<times> env_event \<Rightarrow> chat \<Rightarrow> chat" where
  "env_step t ev s =
     (case ev of (eager, now, e) \<Rightarrow>
        case stream_input e of
          Some se \<Rightarrow>
            (case stream_step se (stream s) of
               (c, cbs) \<Rightarrow> fold (handle_callback eager now t) cbs (s\<lparr>stream := c\<rparr>))
        | None \<Rightarrow>
            (case e of
               Env_timer \<Rightarrow> fire_timer eager now s
             | Env_response g res \<Rightarrow>
                 if g \<in> set (inflight s) then nonStreaming_resume eager now t g res s else s
             | _ \<Rightarrow> render now s))"

definition env_run :: "(jstring \<Rightarrow> jstring) \<Rightarrow> (bool \<times> int \<times> env_event) list \<Rightarrow> chat \<Rightarrow> chat" where
  "env_run t evs s = fold (env_step t) evs s"

definition initial_chat :: "message list \<Rightarrow> chat" where
  "initial_chat ms =
     \<lparr>requestGeneration = 0, pendingChunks = \<lparr>pend_generation = 0, pend_content = [], pend_reasoning = []\<rparr>,
      flushTimer = None, abortController = None, aborted = [], inflight = [], isRequesting = False,
      stream = createStreamRequestController, stream_callbacks = [], messages = ms, queue = [],
      rendered = ms, editingMessageKey = None\<rparr>"

subsection \<open>Reachable states\<close>

inductive chat_reach :: "(jstring \<Rightarrow> jstring) \<Rightarrow> chat \<Rightarrow> bool" for t where
  start: "chat_reach t (initial_chat ms)"
| env: "chat_reach t s \<Longrightarrow> chat_reach t (env_step t ev s)"
| user_send: "chat_reach t s \<Longrightarrow> chat_reach t (fst (handleSendMessage eager now ids1 ids2 cfg en txt s))"
| regenerate: "chat_reach t s \<Longrightarrow> chat_reach t (fst (handleRegenerateMessage eager now ids cfg en k s))"
| edit_start: "chat_reach t s \<Longrightarrow> chat_reach t (handleEditMessage k s)"
| edit_open: "chat_reach t s \<Longrightarrow> chat_reach t (handleEditOpenChange opened s)"
| edit: "chat_reach t s \<Longrightarrow> chat_reach t (fst (applyEdit eager now ids cfg en txt submit s))"
| delete: "chat_reach t s \<Longrightarrow> chat_reach t (handleDeleteMessage eager now k s)"
| stopped: "chat_reach t s \<Longrightarrow> chat_reach t (stopGeneration eager now s)"
| unmounted: "chat_reach t s \<Longrightarrow> chat_reach t (unmount s)"

text \<open>No callback and no response belongs to a generation that does not exist yet.\<close>

definition chat_inv :: "chat \<Rightarrow> bool" where
  "chat_inv s \<longleftrightarrow> (\<forall>(cg, g) \<in> set (stream_callbacks s). g \<le> requestGeneration s)
     \<and> (\<forall>g \<in> set (inflight s). g \<le> requestGeneration s) \<and> stream_inv (stream s)"

text \<open>The part of the state that identifies requests; handlers of the current request keep it.\<close>

definition request_part :: "chat \<Rightarrow> nat \<times> (nat \<times> nat) list \<times> nat list \<times> controller" where
  "request_part s = (requestGeneration s, stream_callbacks s, inflight s, stream s)"

lemma request_part_update [simp]: "request_part (onMessageUpdate eager now u s) = request_part s"
  by (simp add: request_part_def onMessageUpdate_def)

lemma request_part_fields [simp]:
  "request_part (s\<lparr>isRequesting := b\<rparr>) = request_part s"
  "request_part (s\<lparr>flushTimer := ft\<rparr>) = request_part s"
  "request_part (s\<lparr>pendingChunks := pc\<rparr>) = request_part s"
  "request_part (s\<lparr>abortController := ac\<rparr>) = request_part s"
  "request_part (s\<lparr>aborted := al\<rparr>) = request_part s"
  "request_part (s\<lparr>messages := ml\<rparr>) = request_part s"
  "request_part (s\<lparr>queue := ql\<rparr>) = request_part s"
  "request_part (s\<lparr>rendered := rl\<rparr>) = request_part s"
  "request_part (s\<lparr>editingMessageKey := ek\<rparr>) = request_part s"
  by (simp_all add: request_part_def)

lemma request_part_handlers [simp]:
  "request_part (flushStreamUpdates eager now g s) = request_part s"
  "request_part (discardPendingStreamUpdates g s) = request_part s"
  "request_part (abort_request s) = request_part s"
  "request_part (handleStreamUpdate g typ chunk s) = request_part s"
  "request_part (handleStreamComplete eager now g s) = request_part s"
  "request_part (handleStreamError eager now t g err code s) = request_part s"
  "request_part (fire_timer eager now s) = request_part s"
  "request_part (render now s) = request_part s"
  "request_part (handle_callback eager now t p s) = request_part s"
  by (simp_all add: flushStreamUpdates_def Let_def discardPendingStreamUpdates_def abort_request_def
      handleStreamUpdate_def scheduleStreamFlush_def handleStreamComplete_def handleStreamError_def
      fire_timer_def render_def handle_callback_def split: option.splits callback.splits)

lemma request_part_callbacks [simp]:
  "request_part (fold (handle_callback eager now t) cbs s) = request_part s"
  by (induction cbs arbitrary: s) simp_all

lemma request_part_eqD:
  "request_part s' = request_part s \<Longrightarrow> requestGeneration s' = requestGeneration s
     \<and> stream_callbacks s' = stream_callbacks s \<and> inflight s' = inflight s \<and> stream s' = stream s"
  by (simp add: request_part_def)

lemmas request_frame = request_part_update [THEN request_part_eqD]
  request_part_handlers [THEN request_part_eqD] request_part_callbacks [THEN request_part_eqD]

lemma env_step_frame:
  "requestGeneration (env_step t ev s) = requestGeneration s
   \<and> stream_callbacks (env_step t ev s) = stream_callbacks s
   \<and> set (inflight (env_step t ev s)) \<subseteq> set (inflight s)
   \<and> (stream_inv (stream s) \<longrightarrow> stream_inv (stream (env_step t ev s)))"
proof -
  obtain eager now e where ev: "ev = (eager, now, e)" by (cases ev)
  have resp: "requestGeneration (nonStreaming_resume eager now t g res s) = requestGeneration s
      \<and> stream_callbacks (nonStreaming_resume eager now t g res s) = stream_callbacks s
      \<and> set (inflight (nonStreaming_resume eager now t g res s)) \<subseteq> set (inflight s)
      \<and> stream (nonStreaming_resume eager now t g res s) = stream s" for g res
    by (auto simp: nonStreaming_resume_def Let_def request_frame split: completion_result.split prod.split)
  show ?thesis
  proof (cases "stream_input e")
    case None
    with ev resp show ?thesis by (cases e) (auto simp: env_step_def request_frame)
  next
    case (Some se)
    with ev stream_step_ok [of "stream s" se] show ?thesis
      by (auto simp: env_step_def request_frame step_ok_def split: prod.split)
  qed
qed

lemma chat_inv_mono:
  assumes "chat_inv s" "requestGeneration s \<le> requestGeneration s'"
    "set (stream_callbacks s') \<subseteq> set (stream_callbacks s) \<union> {(cg, g) |cg g. g \<le> requestGeneration s'}"
    "set (inflight s') \<subseteq> set (inflight s) \<union> {g. g \<le> requestGeneration s'}"
    "stream_inv (stream s')"
  shows "chat_inv s'"
  using assms unfolding chat_inv_def by fastforce

lemma chat_inv_same:
  "chat_inv s \<Longrightarrow> requestGeneration s \<le> requestGeneration s' \<Longrightarrow> stream_callbacks s' = stream_callbacks s
   \<Longrightarrow> set (inflight s') \<subseteq> set (inflight s) \<Longrightarrow> stream_inv (stream s') \<Longrightarrow> chat_inv s'"
  by (rule chat_inv_mono [of s s']) auto

lemma set_update_subset: "set (AList.update k v xs) \<subseteq> set xs \<union> {(k, v)}"
  by (induction xs) auto

lemma sendChat_frame:
  "requestGeneration (fst (sendChat ms cfg en s)) = Suc (requestGeneration s)
   \<and> set (stream_callbacks (fst (sendChat ms cfg en s))) \<subseteq>
       set (stream_callbacks s) \<union> {(cg, Suc (requestGeneration s)) |cg. True}
   \<and> set (inflight (fst (sendChat ms cfg en s))) \<subseteq> set (inflight s) \<union> {Suc (requestGeneration s)}
   \<and> stream (fst (sendChat ms cfg en s)) \<in> {send (stream s), stop (stream s)}"
  using set_update_subset [of _ "Suc (requestGeneration s)" "stream_callbacks s"]
  by (auto simp: sendChat_def sendStreamingChat_def sendNonStreamingChat_def Let_def request_frame)

lemma chat_inv_sendChat:
  assumes "chat_inv s"
  shows "chat_inv (fst (sendChat ms cfg en (onMessageUpdate eager now u s)))"
proof (rule chat_inv_mono [OF assms])
  have u: "requestGeneration (onMessageUpdate eager now u s) = requestGeneration s"
    "stream_callbacks (onMessageUpdate eager now u s) = stream_callbacks s"
    "inflight (onMessageUpdate eager now u s) = inflight s"
    "stream (onMessageUpdate eager now u s) = stream s"
    by (simp_all add: request_frame)
  note f = sendChat_frame [of ms cfg en "onMessageUpdate eager now u s", unfolded u]
  let ?s = "fst (sendChat ms cfg en (onMessageUpdate eager now u s))"
  show "requestGeneration s \<le> requestGeneration ?s" using f by simp
  show "set (stream_callbacks ?s) \<subseteq> set (stream_callbacks s) \<union> {(cg, g) |cg g. g \<le> requestGeneration ?s}"
    using f by fastforce
  show "set (inflight ?s) \<subseteq> set (inflight s) \<union> {g. g \<le> requestGeneration ?s}"
    using f by fastforce
  show "stream_inv (stream ?s)"
    using f assms by (auto simp: chat_inv_def send_inv cancel_inv stop_def)
qed

lemma chat_inv_frame: "request_part s' = request_part s \<Longrightarrow> chat_inv s \<Longrightarrow> chat_inv s'"
  by (simp add: chat_inv_def request_part_def)

lemma stopGeneration_frame:
  "requestGeneration (stopGeneration eager now s) = Suc (requestGeneration s)
   \<and> stream_callbacks (stopGeneration eager now s) = stream_callbacks s
   \<and> inflight (stopGeneration eager now s) = inflight s
   \<and> stream (stopGeneration eager now s) = stop (stream s)"
  by (simp add: stopGeneration_def Let_def request_frame)

lemma chat_reach_inv: "chat_reach t s \<Longrightarrow> chat_inv s"
proof (induction rule: chat_reach.induct)
  case (start ms)
  then show ?case by (simp add: chat_inv_def initial_chat_def initial_inv)
next
  case (env s ev)
  with env_step_frame [of t ev s] show ?case by (metis chat_inv_def chat_inv_same order_refl)
next
  case (user_send s eager now ids1 ids2 cfg en c)
  then show ?case by (simp add: handleSendMessage_def Let_def chat_inv_sendChat)
next
  case (regenerate s eager now ids cfg en k)
  then show ?case
    using chat_inv_sendChat [OF regenerate.IH]
    by (auto simp: handleRegenerateMessage_def split: option.split prod.split) (metis fst_conv)
next
  case (edit s eager now ids cfg en c submit)
  have "chat_inv (s\<lparr>editingMessageKey := None\<rparr>)" using edit.IH by (rule chat_inv_frame [rotated]) simp
  from chat_inv_sendChat [OF this] chat_inv_frame [OF request_part_update this] show ?case
    by (auto simp: applyEdit_def Let_def edit.IH split: option.split prod.split) (metis fst_conv)
next
  case (stopped s eager now)
  show ?case by (rule chat_inv_same [OF stopped.IH]) (use stopped.IH in \<open>simp_all add: stopGeneration_frame chat_inv_def cancel_inv stop_def\<close>)
next
  case (unmounted s)
  show ?case
    by (rule chat_inv_same [OF unmounted.IH])
      (use unmounted.IH in \<open>simp_all add: unmount_def request_frame chat_inv_def cancel_inv dispose_def\<close>)
qed (auto simp: handleEditMessage_def handleEditOpenChange_def handleDeleteMessage_def
    intro: chat_inv_frame [rotated])

subsection \<open>Nothing happens after a stop\<close>

text \<open>A controller that has no request that may still call back.\<close>

definition stream_idle :: "controller \<Rightarrow> bool" where
  "stream_idle c \<longleftrightarrow> source c = None \<and> generation c \<notin> set (waiting c) \<and> \<not> streaming c"

lemma stream_idle_step:
  assumes "stream_idle c" "stream_input e = Some se"
  shows "stream_idle (fst (stream_step se c)) \<and> snd (stream_step se c) = []"
proof -
  have i: "ignored c i" for i using assms(1) by (simp add: stream_idle_def ignored_def isCurrent_def)
  show ?thesis using assms i
    by (cases e) (auto simp: stream_idle_def send_resume_def on_message_def on_error_event_def
        on_readystatechange_def Let_def split: if_splits dest: notin_set_remove1)
qed

lemma stop_idle: "stream_inv c \<Longrightarrow> stream_idle (stop c)"
  by (auto simp: stream_idle_def stop_def cancel_def Let_def stream_inv_def)

definition quiet :: "chat \<Rightarrow> bool" where
  "quiet s \<longleftrightarrow> stream_idle (stream s) \<and> requestGeneration s \<notin> set (inflight s)
     \<and> flushTimer s = None \<and> \<not> isRequesting s"

lemma quiet_step:
  assumes "quiet s"
  shows "quiet (env_step t (eager, now, e) s)
    \<and> (e \<noteq> Env_render \<longrightarrow> messages (env_step t (eager, now, e) s) = messages s
        \<and> queue (env_step t (eager, now, e) s) = queue s)"
proof (cases "stream_input e")
  case None
  with assms show ?thesis
    by (cases e) (auto simp: env_step_def quiet_def fire_timer_def render_def Let_def nonStreaming_resume_def)
next
  case (Some se)
  then have "e \<noteq> Env_render" by auto
  with assms Some stream_idle_step [of "stream s" e se] show ?thesis
    by (auto simp: env_step_def quiet_def split: prod.splits)
qed

text \<open>The last message is not an answer in progress.\<close>

definition last_settled :: "message list \<Rightarrow> bool" where
  "last_settled ms \<longleftrightarrow> ms = [] \<or> \<not> isPendingAssistantMessage (last ms)"

lemma updateLast_settled:
  "last_settled (updateLastAssistantMessage ms
     (\<lambda>m. if isAssistantMessagePending m then completeAssistantMessage now m else m))"
  by (auto simp: last_settled_def updateLastAssistantMessage_def isPendingAssistantMessage_def
      isAssistantMessagePending_def completeAssistantMessage_def)

text \<open>
  After a stop the messages that the next render shows are settled, whatever is still in the
  queue before the final updater.
\<close>

definition settles :: "chat \<Rightarrow> bool" where
  "settles s \<longleftrightarrow> (queue s = [] \<and> last_settled (messages s))
     \<or> (\<exists>q. queue s = q @ [Upd_stopped (requestGeneration s)])"

lemma settles_stop: "settles (stopGeneration eager now s)"
proof -
  have gen: "requestGeneration (abort_request s') = requestGeneration s'" for s'
    by (simp add: request_frame)
  show ?thesis
    by (auto simp: settles_def stopGeneration_def Let_def onMessageUpdate_def updateLast_settled gen
        discardPendingStreamUpdates_def)
qed

lemma settles_render: "settles s \<Longrightarrow> last_settled (messages (render now s))"
  by (auto simp: settles_def render_def Let_def updateLast_settled)

lemma settles_step:
  assumes "quiet s" "settles s"
  shows "settles (env_step t (eager, now, e) s)"
proof (cases "e = Env_render")
  case True
  with settles_render [OF assms(2), of now] show ?thesis
    by (simp add: env_step_def settles_def) (simp add: render_def Let_def)
next
  case False
  with quiet_step [OF assms(1), of t eager now e] assms(2) env_step_frame [of t "(eager, now, e)" s]
  show ?thesis by (simp add: settles_def)
qed

lemma quiet_run: "quiet s \<Longrightarrow> settles s \<Longrightarrow> quiet (env_run t evs s) \<and> settles (env_run t evs s)"
proof (induction evs arbitrary: s)
  case (Cons ev evs)
  obtain eager now e where "ev = (eager, now, e)" by (cases ev)
  with Cons quiet_step [OF Cons.prems(1)] settles_step [OF Cons.prems] show ?case
    by (simp add: env_run_def)
qed (simp add: env_run_def)

lemma quiet_run_fixed:
  "quiet s \<Longrightarrow> queue s = [] \<Longrightarrow> messages (env_run t evs s) = messages s"
proof (induction evs arbitrary: s)
  case (Cons ev evs)
  obtain eager now e where ev: "ev = (eager, now, e)" by (cases ev)
  have "queue (env_step t ev s) = [] \<and> messages (env_step t ev s) = messages s"
    using quiet_step [OF Cons.prems(1), of t eager now e] Cons.prems(2) ev
    by (cases "e = Env_render") (auto simp: env_step_def render_def)
  with Cons quiet_step [OF Cons.prems(1), of t eager now e] ev show ?case
    by (simp add: env_run_def)
qed (simp add: env_run_def)

lemma stop_quiet: "chat_inv s \<Longrightarrow> quiet (stopGeneration eager now s)"
proof -
  assume inv: "chat_inv s"
  have "flushTimer (stopGeneration eager now s) = None \<and> \<not> isRequesting (stopGeneration eager now s)"
    by (simp add: stopGeneration_def Let_def onMessageUpdate_def abort_request_def
        discardPendingStreamUpdates_def split: option.split)
  with inv show ?thesis by (auto simp: quiet_def stopGeneration_frame chat_inv_def stop_idle)
qed

text \<open>
  C6. After the user stops the generation, in any reachable state, nothing that is still under way
  has an effect: whatever events the old requests produce, no request is shown as running, the
  answer that the next render shows is no longer in progress, and after that render the messages
  do not change any more.
\<close>

theorem stop_is_final:
  fixes evs :: "(bool \<times> int \<times> env_event) list" and eager :: bool and now :: int
  assumes "chat_reach t s"
  defines "s1 \<equiv> env_run t evs (stopGeneration eager now s)"
  shows "\<not> isGenerating s1 \<and> last_settled (messages (render now' s1))
    \<and> messages (env_run t evs' (render now' s1)) = messages (render now' s1)"
proof -
  let ?s = "stopGeneration eager now s"
  have "quiet s1 \<and> settles s1"
    unfolding s1_def using stop_quiet [OF chat_reach_inv [OF assms(1)]] settles_stop by (rule quiet_run)
  moreover from this have "quiet (render now' s1)" "queue (render now' s1) = []"
    by (simp_all add: quiet_def render_def Let_def)
  ultimately show ?thesis
    using settles_render quiet_run_fixed by (simp add: isGenerating_def quiet_def stream_idle_def)
qed

definition sample_config :: playground_config where
  "sample_config = \<lparr>cfg_model = lit ''gpt-4o'', cfg_group = lit ''default'', cfg_temperature = 7 / 10,
     cfg_top_p = 1, cfg_max_tokens = 4096, cfg_frequency_penalty = 0, cfg_presence_penalty = 0,
     cfg_seed = None, cfg_stream = True\<rparr>"

definition sample_enabled :: parameter_enabled where
  "sample_enabled = \<lparr>temperature_on = True, top_p_on = True, max_tokens_on = False,
     frequency_penalty_on = True, presence_penalty_on = True, seed_on = False\<rparr>"

text \<open>A question was sent, the stream is open.\<close>

definition sample_chat :: chat where
  "sample_chat = env_step id (False, 1, Env_headers 1 Headers_ok False)
     (env_step id (False, 1, Env_render)
       (fst (handleSendMessage False 1 (lit ''u'', lit ''v'') (lit ''a'', lit ''w'')
          sample_config sample_enabled (lit ''hello'') (initial_chat []))))"

lemma sample_chat_reach: "chat_reach id sample_chat"
  unfolding sample_chat_def by (intro chat_reach.intros)

theorem stop_is_final_witness:
  defines "s1 \<equiv> env_run id [(False, 3, Env_message 0 (Some stream_done_message))]
    (stopGeneration False 2 sample_chat)"
  shows "isGenerating sample_chat \<and> \<not> isGenerating s1
    \<and> map status (messages (render 3 s1)) = [None, Some Status_complete]
    \<and> messages (env_run id [(True, 4, Env_timer)] (render 3 s1)) = messages (render 3 s1)"
proof -
  have "isGenerating sample_chat" "map status (messages (render 3 s1)) = [None, Some Status_complete]"
    unfolding s1_def by code_simp+
  with stop_is_final [OF sample_chat_reach, of "[(False, 3, Env_message 0 (Some stream_done_message))]"
      False 2 3 "[(True, 4, Env_timer)]", folded s1_def]
  show ?thesis by simp
qed

subsection \<open>The answer arrives whole\<close>

text \<open>
  The life of an answer: chunks of content of request \<open>g\<close>, the flush timer and renders, in any
  order. \<open>collected\<close> follows the text that was passed on and the text still pending.
\<close>

datatype feed_event = Feed_chunk jstring | Feed_timer bool int | Feed_render int

fun feed :: "nat \<Rightarrow> feed_event \<Rightarrow> chat \<Rightarrow> chat" where
  "feed g (Feed_chunk d) s = handleStreamUpdate g Chunk_content d s"
| "feed g (Feed_timer eager now) s = fire_timer eager now s"
| "feed g (Feed_render now) s = render now s"

fun collect :: "feed_event \<Rightarrow> jstring \<times> jstring \<Rightarrow> jstring \<times> jstring" where
  "collect (Feed_chunk d) (a, p) = (a, stream_text p d)"
| "collect (Feed_timer eager now) (a, p) = (stream_text a p, [])"
| "collect (Feed_render now) (a, p) = (a, p)"

fun deltas :: "feed_event list \<Rightarrow> jstring list" where
  "deltas [] = []"
| "deltas (Feed_chunk d # es) = d # deltas es"
| "deltas (_ # es) = deltas es"

text \<open>No chunk repeats the pending text, and no batch repeats the text passed on before it.\<close>

definition repeats :: "jstring \<Rightarrow> jstring \<Rightarrow> bool" where
  "repeats cur chunk \<longleftrightarrow> cur \<noteq> [] \<and> chunk \<noteq> [] \<and> starts_with chunk cur"

fun fresh_feed :: "feed_event list \<Rightarrow> jstring \<times> jstring \<Rightarrow> bool" where
  "fresh_feed [] (a, p) \<longleftrightarrow> \<not> repeats a p"
| "fresh_feed (Feed_chunk d # es) (a, p) \<longleftrightarrow> \<not> repeats p d \<and> fresh_feed es (a, p @ d)"
| "fresh_feed (Feed_timer eager now # es) (a, p) \<longleftrightarrow> \<not> repeats a p \<and> fresh_feed es (a @ p, [])"
| "fresh_feed (Feed_render now # es) (a, p) \<longleftrightarrow> fresh_feed es (a, p)"

lemma stream_text_not_repeats: "\<not> repeats a d \<Longrightarrow> stream_text a d = a @ d"
  by (auto simp: repeats_def stream_text_def starts_with_def)

lemma stream_text_Nil [simp]: "stream_text a [] = a" "stream_text [] d = d"
  by (auto simp: stream_text_def starts_with_def)

lemma merge_stream_text: "mergePendingStreamChunk p d = stream_text p d"
  by (auto simp: mergePendingStreamChunk_def stream_text_def starts_with_def)

lemma collect_fresh:
  "fresh_feed es (a, p) \<Longrightarrow> (case fold collect es (a, p) of (a', p') \<Rightarrow> stream_text a' p') = a @ p @ concat (deltas es)"
  by (induction es "(a, p)" arbitrary: a p rule: fresh_feed.induct) (auto simp: stream_text_not_repeats)

definition flushes :: "nat \<Rightarrow> jstring list \<Rightarrow> updater list" where
  "flushes g us = map (\<lambda>c. Upd_flush g c []) us"

lemma stream_contents_append: "stream_contents (xs @ ys) m = stream_contents ys (stream_contents xs m)"
  by (simp add: stream_contents_def)

lemma stream_contents_role [simp]: "from_role (stream_contents ds m) = from_role m"
  by (induction ds arbitrary: m) (auto simp: stream_contents_def split: prod.split)

lemma run_flushes:
  assumes "from_role l = Role_assistant" "[] \<notin> set us"
  shows "fold (run_updater now g) (flushes g us) (base @ [stream_contents ds l]) =
    base @ [stream_contents (ds @ map (Pair now) us) l]"
  using assms(2)
proof (induction us arbitrary: ds)
  case (Cons u us)
  have "run_updater now g (Upd_flush g u []) (base @ [stream_contents ds l]) =
      base @ [stream_contents (ds @ [(now, u)]) l]"
    using Cons.prems assms(1) by (auto simp: updateLastAssistantMessage_def stream_contents_snoc)
  with Cons.IH [of "ds @ [(now, u)]"] Cons.prems show ?case by (simp add: flushes_def)
qed (simp add: flushes_def)

text \<open>
  The invariant while the answer arrives: the message list, once the queue has run, is the
  conversation with the loading message \<open>l\<close> into which the text \<open>a\<close> was streamed; \<open>p\<close> is pending
  and then the timer is set.
\<close>

definition feeding :: "nat \<Rightarrow> message list \<Rightarrow> message \<Rightarrow> jstring \<times> jstring \<Rightarrow> chat \<Rightarrow> bool" where
  "feeding g base l ap s \<longleftrightarrow>
     requestGeneration s = g
     \<and> pendingChunks s = \<lparr>pend_generation = g, pend_content = snd ap, pend_reasoning = []\<rparr>
     \<and> (snd ap \<noteq> [] \<longrightarrow> flushTimer s = Some g) \<and> flushTimer s \<in> {None, Some g}
     \<and> (\<exists>ds us. [] \<notin> set us \<and> stream_texts (map snd ds @ us) [] = fst ap
         \<and> ((messages s = base @ [stream_contents ds l] \<and> queue s = flushes g us)
            \<or> (ds = [] \<and> (\<exists>pre. queue s = pre @ Upd_set (base @ [l]) # flushes g us))))"

lemma stream_texts_snoc: "stream_texts (cs @ [c]) x = stream_text (stream_texts cs x) c"
  by (simp add: stream_texts_def)

lemma feeding_render:
  assumes "feeding g base l ap s" "from_role l = Role_assistant"
  shows "feeding g base l ap (render now s)"
    and "\<exists>ds. stream_texts (map snd ds) [] = fst ap \<and> messages (render now s) = base @ [stream_contents ds l]"
proof -
  from assms(1) obtain ds us where us: "[] \<notin> set us" "stream_texts (map snd ds @ us) [] = fst ap"
    and g: "requestGeneration s = g"
    and q: "(messages s = base @ [stream_contents ds l] \<and> queue s = flushes g us)
            \<or> (ds = [] \<and> (\<exists>pre. queue s = pre @ Upd_set (base @ [l]) # flushes g us))"
    by (auto simp: feeding_def)
  let ?ds = "ds @ map (Pair now) us"
  have texts: "stream_texts (map snd ?ds) [] = fst ap" using us by (simp add: comp_def)
  have "fold (run_updater now g) (queue s) (messages s) = base @ [stream_contents ?ds l]"
    using q run_flushes [OF assms(2) us(1), of now g base ds]
      run_flushes [OF assms(2) us(1), of now g base "[]"] by (auto simp: stream_contents_def)
  then have ms: "messages (render now s) = base @ [stream_contents ?ds l]"
    using g by (simp add: render_def Let_def)
  with texts show "\<exists>ds. stream_texts (map snd ds) [] = fst ap \<and>
      messages (render now s) = base @ [stream_contents ds l]" by blast
  have "queue (render now s) = flushes g []" by (simp add: render_def Let_def flushes_def)
  with ms texts assms(1) show "feeding g base l ap (render now s)"
    unfolding feeding_def
    by (intro conjI exI [of _ ?ds] exI [of _ "[]"]) (auto simp: render_def Let_def)
qed

lemma feeding_flush:
  assumes "feeding g base l (a, p) s" "from_role l = Role_assistant"
  shows "feeding g base l (stream_text a p, []) (flushStreamUpdates eager now g s)"
proof (cases "p = []")
  case True
  with assms(1) show ?thesis by (auto simp: feeding_def flushStreamUpdates_def Let_def)
next
  case False
  let ?s = "s\<lparr>flushTimer := None, pendingChunks := \<lparr>pend_generation = g, pend_content = [], pend_reasoning = []\<rparr>\<rparr>"
  from assms(1) obtain ds us where us: "[] \<notin> set us" "stream_texts (map snd ds @ us) [] = a"
    and q: "(messages s = base @ [stream_contents ds l] \<and> queue s = flushes g us)
            \<or> (ds = [] \<and> (\<exists>pre. queue s = pre @ Upd_set (base @ [l]) # flushes g us))"
    by (auto simp: feeding_def)
  have flush: "flushStreamUpdates eager now g s = onMessageUpdate eager now (Upd_flush g p []) ?s"
    using assms(1) False by (simp add: feeding_def flushStreamUpdates_def Let_def)
  have gen: "requestGeneration s = g" using assms(1) by (simp add: feeding_def)
  show ?thesis
  proof (cases "eager \<and> queue s = []")
    case True
    with q have ms: "messages s = base @ [stream_contents ds l]" "us = []" by (auto simp: flushes_def)
    have "run_updater now g (Upd_flush g p []) (messages s) = base @ [stream_contents (ds @ [(now, p)]) l]"
      using run_flushes [OF assms(2), of "[p]" now g base ds] ms False by (simp add: flushes_def)
    with True ms us gen False flush show ?thesis
      unfolding feeding_def
      by (intro conjI exI [of _ "ds @ [(now, p)]"] exI [of _ "[]"])
        (auto simp: onMessageUpdate_def stream_texts_snoc flushes_def)
  next
    case False
    with q us gen \<open>p \<noteq> []\<close> flush show ?thesis
      unfolding feeding_def
      by (intro conjI exI [of _ ds] exI [of _ "us @ [p]"])
        (auto simp: onMessageUpdate_def stream_texts_snoc flushes_def simp flip: append_assoc)
  qed
qed

lemma feeding_feed:
  assumes "feeding g base l ap s" "from_role l = Role_assistant"
  shows "feeding g base l (collect e ap) (feed g e s)"
proof (cases "(e, ap)" rule: collect.cases)
  case (1 d a p)
  with assms(1) have "feed g e s = scheduleStreamFlush g
      (s\<lparr>pendingChunks := \<lparr>pend_generation = g, pend_content = stream_text p d, pend_reasoning = []\<rparr>\<rparr>)"
    by (simp add: feeding_def handleStreamUpdate_def merge_chunk_def merge_stream_text)
  with assms(1) 1 show ?thesis
    by (auto simp: feeding_def scheduleStreamFlush_def)
next
  case (2 eager now a p)
  show ?thesis
  proof (cases "flushTimer s")
    case None
    then have "p = []" using assms(1) 2 by (auto simp: feeding_def)
    with None 2 assms(1) show ?thesis by (simp add: fire_timer_def)
  next
    case (Some g')
    then have "g' = g" using assms(1) by (simp add: feeding_def)
    with Some 2 feeding_flush [OF _ assms(2), of g base a p s eager now] assms(1) show ?thesis
      by (simp add: fire_timer_def)
  qed
next
  case (3 now a p)
  with feeding_render [OF assms] show ?thesis by simp
qed

lemma feeding_run:
  "feeding g base l ap s \<Longrightarrow> from_role l = Role_assistant \<Longrightarrow>
     feeding g base l (fold collect es ap) (fold (feed g) es s)"
  by (induction es arbitrary: ap s) (simp_all add: feeding_feed)

lemma feeding_start:
  assumes "cfg_stream cfg"
  shows "feeding (requestGeneration s + 1) (rendered s @ [createUserMessage ids1 c t0])
    (createLoadingAssistantMessage ids2 t0) ([], [])
    (fst (handleSendMessage eager t0 ids1 ids2 cfg en c s))"
proof -
  let ?base = "rendered s @ [createUserMessage ids1 c t0]" and ?l = "createLoadingAssistantMessage ids2 t0"
  let ?s = "fst (handleSendMessage eager t0 ids1 ids2 cfg en c s)"
  have next_ms: "appendUserMessagePair t0 ids1 ids2 (rendered s) c = ?base @ [?l]"
    by (simp add: appendUserMessagePair_def)
  have "queue (abort_request x) = queue x" "messages (abort_request x) = messages x" for x
    by (simp_all add: abort_request_def split: option.split)
  then have "(messages ?s = ?base @ [stream_contents [] ?l] \<and> queue ?s = flushes (requestGeneration s + 1) [])
      \<or> (\<exists>pre. queue ?s = pre @ Upd_set (?base @ [?l]) # flushes (requestGeneration s + 1) [])"
    using assms
    by (auto simp: handleSendMessage_def next_ms sendChat_def sendStreamingChat_def Let_def
        discardPendingStreamUpdates_def onMessageUpdate_def stream_contents_def flushes_def)
  moreover have "requestGeneration ?s = requestGeneration s + 1" "flushTimer ?s = None"
    "pendingChunks ?s = \<lparr>pend_generation = requestGeneration s + 1, pend_content = [], pend_reasoning = []\<rparr>"
    using assms
    by (simp_all add: handleSendMessage_def sendChat_def sendStreamingChat_def Let_def
        discardPendingStreamUpdates_def request_frame)
  ultimately show ?thesis
    unfolding feeding_def by (intro conjI exI [of _ "[]"]) (auto simp: stream_texts_def)
qed

lemma stream_contents_pending:
  "isAssistantMessagePending (stream_contents ds (createLoadingAssistantMessage ids t0))"
proof (cases ds rule: rev_cases)
  case Nil
  then show ?thesis by (simp add: stream_contents_def isAssistantMessagePending_def loading_message)
next
  case (snoc ds' d)
  have "status (stream_contents ds' (createLoadingAssistantMessage ids t0)) \<noteq> Some Status_error"
    using stream_contents_content [of "createLoadingAssistantMessage ids t0" ds']
    by (simp add: loading_message)
  from applyStreamingChunk_content(2) [OF this] snoc show ?thesis
    by (cases d) (simp add: stream_contents_snoc isAssistantMessagePending_def)
qed

lemma feeding_complete:
  assumes "feeding g base l (a, p) s" "l = createLoadingAssistantMessage ids t0"
  shows "\<exists>ds time. stream_texts (map snd ds) [] = stream_text a p \<and> time \<in> {now, now'}
    \<and> messages (render now' (handleStreamComplete eager now g s)) =
        base @ [completeAssistantMessage time (stream_contents ds l)]"
proof -
  have l: "from_role l = Role_assistant" using assms(2) by (simp add: loading_message)
  let ?s = "(flushStreamUpdates eager now g s)\<lparr>isRequesting := False\<rparr>"
  have gen: "requestGeneration s = g" using assms(1) by (simp add: feeding_def)
  have f: "feeding g base l (stream_text a p, []) ?s"
    using feeding_flush [OF assms(1) l, of eager now] by (simp add: feeding_def)
  have complete: "run_updater time g (Upd_complete g) (base @ [stream_contents ds l]) =
      base @ [completeAssistantMessage time (stream_contents ds l)]" for time ds
  proof -
    have "\<not> isAssistantMessageFinal (stream_contents ds l)"
      using stream_contents_pending [of ds ids t0] assms(2)
      by (auto simp: isAssistantMessagePending_def isAssistantMessageFinal_def)
    with l show ?thesis by (simp add: updateLastAssistantMessage_def)
  qed
  have h: "handleStreamComplete eager now g s = onMessageUpdate eager now (Upd_complete g) ?s"
    using gen by (simp add: handleStreamComplete_def)
  have gen': "requestGeneration ?s = g" using f by (simp add: feeding_def)
  show ?thesis
  proof (cases "eager \<and> queue ?s = []")
    case True
    with f obtain ds where ds: "stream_texts (map snd ds) [] = stream_text a p"
        "messages ?s = base @ [stream_contents ds l]"
      by (auto simp: feeding_def flushes_def)
    with True h gen' complete [of now ds] show ?thesis
      by (intro exI [of _ ds] exI [of _ now])
        (auto simp: onMessageUpdate_def render_def Let_def)
  next
    case False
    obtain ds where ds: "stream_texts (map snd ds) [] = stream_text a p"
        "messages (render now' ?s) = base @ [stream_contents ds l]"
      using feeding_render(2) [OF f l, of now'] by auto
    have "fold (run_updater now' g) (queue ?s) (messages ?s) = messages (render now' ?s)"
      using gen' by (simp add: render_def Let_def)
    moreover have "onMessageUpdate eager now (Upd_complete g) ?s = ?s\<lparr>queue := queue ?s @ [Upd_complete g]\<rparr>"
      using False by (auto simp: onMessageUpdate_def)
    ultimately have "messages (render now' (handleStreamComplete eager now g s)) =
        run_updater now' g (Upd_complete g) (messages (render now' ?s))"
      using h gen' by (simp add: render_def Let_def del: run_updater.simps)
    with ds complete [of now' ds] show ?thesis by auto
  qed
qed

lemma reply_text:
  fixes es :: "feed_event list" and s :: chat and c :: jstring and cfg :: playground_config
    and en :: parameter_enabled and ids1 ids2 :: "jstring \<times> jstring" and t0 now now' :: int
    and eager eager' :: bool and a p :: jstring
  assumes "cfg_stream cfg" "fold collect es ([], []) = (a, p)"
  defines "s1 \<equiv> fst (handleSendMessage eager t0 ids1 ids2 cfg en c s)"
  defines "g \<equiv> requestGeneration s1"
  defines "s2 \<equiv> render now' (handleStreamComplete eager' now g (fold (feed g) es s1))"
  defines "answer \<equiv> parseThinkTags (stream_text a p)"
  shows "\<exists>m. messages s2 = rendered s @ [createUserMessage ids1 c t0, m] \<and> key m = fst ids2
    \<and> getMessageContent m = visibleContent answer
    \<and> (think_reasoning answer \<noteq> [] \<longrightarrow> reasoning_text m = think_reasoning answer)
    \<and> status m = Some Status_complete \<and> \<not> isRequesting s2"
proof -
  let ?base = "rendered s @ [createUserMessage ids1 c t0]" and ?l = "createLoadingAssistantMessage ids2 t0"
  have start: "feeding g ?base ?l ([], []) s1"
    using feeding_start [OF assms(1), of s ids1 c t0 ids2 eager en] unfolding g_def s1_def
    by (simp add: feeding_def)
  have f: "feeding g ?base ?l (a, p) (fold (feed g) es s1)"
    using feeding_run [OF start loading_message(4), of es] assms(2) by simp
  from feeding_complete [OF f refl, of now now' eager'] obtain ds time where
    ds: "stream_texts (map snd ds) [] = stream_text a p"
      "messages s2 = ?base @ [completeAssistantMessage time (stream_contents ds ?l)]"
    unfolding s2_def by auto
  moreover have "\<not> isRequesting s2"
    using f by (simp add: s2_def render_def Let_def handleStreamComplete_def onMessageUpdate_def feeding_def)
  ultimately show ?thesis
    using stream_complete [OF ds(1), of time ids2 t0] unfolding answer_def by simp
qed

text \<open>
  The text that an answer gets: the batches between two firings of the flush timer, one after the other,
  where a chunk that starts with the whole text pending, or a batch that starts with the whole text before
  it, replaces that text instead of following it.
\<close>

definition received_text :: "feed_event list \<Rightarrow> jstring" where
  "received_text es = (case fold collect es ([], []) of (a, p) \<Rightarrow> stream_text a p)"



text \<open>
  Text that repeats is lost: when two chunks arrive before the next flush and the second one
  starts with the text of the first, as with the two lines of a blank line or a doubled word, the
  answer holds the text of the first chunk only once.
\<close>

theorem repeated_text_lost:
  fixes s :: chat and c d e :: jstring and en :: parameter_enabled
    and ids1 ids2 :: "jstring \<times> jstring" and t0 now now' :: int and eager eager' :: bool
  assumes "cfg_stream cfg"
  defines "s1 \<equiv> fst (handleSendMessage eager t0 ids1 ids2 cfg en c s)"
  defines "g \<equiv> requestGeneration s1"
  defines "s2 \<equiv> render now' (handleStreamComplete eager' now g
    (handleStreamUpdate g Chunk_content (d @ e) (handleStreamUpdate g Chunk_content d s1)))"
  shows "map getMessageContent (messages s2) =
    map getMessageContent (rendered s) @ [c, visibleContent (parseThinkTags (d @ e))]"
proof -
  have ap: "fold collect [Feed_chunk d, Feed_chunk (d @ e)] ([], []) = ([], d @ e)"
    by (simp add: stream_text_def)
  have "getMessageContent (createUserMessage ids1 c t0) = c"
    by (simp add: getMessageContent_def getCurrentVersion_def createUserMessage_def createMessageVersion_def)
  with reply_text [OF assms(1) ap, where s = s and c = c and ?ids1.0 = ids1 and ?ids2.0 = ids2
      and ?t0.0 = t0 and en = en and eager = eager and eager' = eager' and now = now and now' = now'] show ?thesis
    unfolding s2_def g_def s1_def by auto
qed

theorem repeated_text_lost_witness:
  defines "s1 \<equiv> fst (handleSendMessage False 1 (lit ''u'', lit ''v'') (lit ''a'', lit ''w'')
    sample_config sample_enabled (lit ''hi'') (initial_chat []))"
  shows "map getMessageContent (messages (render 5 (handleStreamComplete False 4 1
     (handleStreamUpdate 1 Chunk_content (lit ''ha!'') (handleStreamUpdate 1 Chunk_content (lit ''ha'') s1))))) =
    [lit ''hi'', lit ''ha!'']"
proof -
  have stream: "cfg_stream sample_config" by (simp add: sample_config_def)
  have g: "requestGeneration s1 = 1" unfolding s1_def by code_simp
  have v: "visibleContent (parseThinkTags (lit ''ha'' @ lit ''!'')) = lit ''ha!''"
    "rendered (initial_chat []) = []" by code_simp+
  from repeated_text_lost [OF stream, where s = "initial_chat []" and c = "lit ''hi''"
      and ?ids1.0 = "(lit ''u'', lit ''v'')" and ?ids2.0 = "(lit ''a'', lit ''w'')" and ?t0.0 = 1
      and en = sample_enabled and eager = False and eager' = False and now = 4 and now' = 5
      and d = "lit ''ha''" and e = "lit ''!''", folded s1_def, unfolded g] v
  show ?thesis by (simp add: lit_append [symmetric])
qed

lemma updateLast_snoc:
  "from_role m = Role_assistant \<Longrightarrow> updateLastAssistantMessage (base @ [m]) f = base @ [f m]"
  by (simp add: updateLastAssistantMessage_def)

lemma stopped_updater:
  "run_updater now g (Upd_stopped g) (base @ [stream_contents ds (createLoadingAssistantMessage ids t0)]) =
     base @ [completeAssistantMessage now (stream_contents ds (createLoadingAssistantMessage ids t0))]"
  by (simp add: updateLast_snoc loading_message stream_contents_pending)

lemma feeding_stop:
  assumes f: "feeding g base (createLoadingAssistantMessage ids t0) (a, p) s" and q: "queue s = []"
  shows "\<exists>ds time. stream_texts (map snd ds) [] = (if eager then stream_text a p else a)
    \<and> messages (render now' (stopGeneration eager now s)) =
        base @ [completeAssistantMessage time (stream_contents ds (createLoadingAssistantMessage ids t0))]"
proof -
  let ?l = "createLoadingAssistantMessage ids t0"
  let ?f = "flushStreamUpdates eager now g s"
  have gen: "requestGeneration s = g" using f by (simp add: feeding_def)
  have m: "messages (stopGeneration eager now s) =
        (if eager \<and> queue ?f = [] then run_updater now (Suc g) (Upd_stopped (Suc g)) (messages ?f)
         else messages ?f)
     \<and> queue (stopGeneration eager now s) =
        (if eager \<and> queue ?f = [] then [] else queue ?f @ [Upd_stopped (Suc g)])"
  proof -
    have "queue (abort_request x) = queue x" "messages (abort_request x) = messages x"
      "requestGeneration (abort_request x) = requestGeneration x" for x
      by (simp_all add: abort_request_def split: option.split)
    then show ?thesis
      by (cases eager) (simp_all add: stopGeneration_def Let_def gen onMessageUpdate_def
          discardPendingStreamUpdates_def del: run_updater.simps)
  qed
  have rg: "requestGeneration (stopGeneration eager now s) = Suc g"
    by (simp add: stopGeneration_frame gen)
  show ?thesis
  proof (cases eager)
    case True
    have fl: "feeding g base ?l (stream_text a p, []) ?f"
      by (rule feeding_flush [OF f]) (simp add: loading_message)
    have qf: "queue ?f = []"
      using True q by (simp add: flushStreamUpdates_def Let_def onMessageUpdate_def)
    with fl obtain ds where ds: "stream_texts (map snd ds) [] = stream_text a p"
      "messages ?f = base @ [stream_contents ds ?l]"
      by (auto simp: feeding_def flushes_def)
    with True m qf stopped_updater [of now "Suc g" base ds ids t0] show ?thesis
      by (intro exI [of _ ds] exI [of _ now]) (simp add: render_def Let_def del: run_updater.simps)
  next
    case False
    from f q obtain ds where ds: "stream_texts (map snd ds) [] = a" "messages s = base @ [stream_contents ds ?l]"
      by (auto simp: feeding_def flushes_def)
    have qf: "queue ?f \<in> {[], [Upd_flush g p []]}" "messages ?f = messages s"
      using False q f by (auto simp: flushStreamUpdates_def Let_def onMessageUpdate_def feeding_def)
    then have "fold (run_updater now' (Suc g)) (queue ?f) (messages s) = messages s" by auto
    with False m qf rg ds stopped_updater [of now' "Suc g" base ds ids t0] show ?thesis
      by (intro exI [of _ ds] exI [of _ now']) (simp add: render_def Let_def del: run_updater.simps)
  qed
qed

text \<open>
  C23. Stopping while an answer arrives: the answer is kept as a complete message. The text that
  was received but not yet passed on is kept when React evaluates the flush at once; when the
  flush is left in the queue, it finds a newer generation and that text is lost.
\<close>

theorem stop_keeps_answer:
  fixes es :: "feed_event list" and s :: chat and c :: jstring and cfg :: playground_config and en :: parameter_enabled
    and ids1 ids2 :: "jstring \<times> jstring" and t0 now now' :: int and eager eager' :: bool
  defines "s1 \<equiv> fst (handleSendMessage eager t0 ids1 ids2 cfg en c s)"
  defines "g \<equiv> requestGeneration s1"
  defines "s2 \<equiv> fold (feed g) es s1"
  assumes "cfg_stream cfg" "fold collect es ([], []) = (a, p)" "queue s2 = []"
  shows "\<exists>m. messages (render now' (stopGeneration eager' now s2)) =
      rendered s @ [createUserMessage ids1 c t0, m] \<and> status m = Some Status_complete
    \<and> getMessageContent m = visibleContent (parseThinkTags (if eager' then stream_text a p else a))"
proof -
  let ?base = "rendered s @ [createUserMessage ids1 c t0]" and ?l = "createLoadingAssistantMessage ids2 t0"
  have "feeding g ?base ?l ([], []) s1"
    using feeding_start [OF assms(4), of s ids1 c t0 ids2 eager en] unfolding g_def s1_def
    by (simp add: feeding_def)
  from feeding_run [OF this loading_message(4), of es] assms(5)
  have "feeding g ?base ?l (a, p) s2" unfolding s2_def by simp
  from feeding_stop [OF this assms(6), of eager' now' now] obtain ds time where
    ds: "stream_texts (map snd ds) [] = (if eager' then stream_text a p else a)"
      "messages (render now' (stopGeneration eager' now s2)) =
        ?base @ [completeAssistantMessage time (stream_contents ds ?l)]" by blast
  with stream_complete [OF ds(1), of time ids2 t0] show ?thesis by simp
qed

theorem stop_keeps_answer_witness:
  defines "es \<equiv> [Feed_render 2, Feed_chunk (lit ''Hel''), Feed_timer True 3, Feed_chunk (lit ''lo'')]"
  defines "s2 \<equiv> fold (feed 1) es (fst (handleSendMessage False 1 (lit ''u'', lit ''v'') (lit ''a'', lit ''w'')
    sample_config sample_enabled (lit ''hi'') (initial_chat [])))"
  shows "map getMessageContent (messages (render 5 (stopGeneration True 4 s2))) = [lit ''hi'', lit ''Hello'']
    \<and> map getMessageContent (messages (render 5 (stopGeneration False 4 s2))) = [lit ''hi'', lit ''Hel'']"
proof -
  let ?s1 = "fst (handleSendMessage False 1 (lit ''u'', lit ''v'') (lit ''a'', lit ''w'')
    sample_config sample_enabled (lit ''hi'') (initial_chat []))"
  have stream: "cfg_stream sample_config" by (simp add: sample_config_def)
  have c: "fold collect es ([], []) = (lit ''Hel'', lit ''lo'')" unfolding es_def by code_simp
  have g: "requestGeneration ?s1 = 1" by code_simp
  have q: "queue s2 = []" unfolding s2_def es_def by code_simp
  have v: "visibleContent (parseThinkTags (stream_text (lit ''Hel'') (lit ''lo''))) = lit ''Hello''"
    "visibleContent (parseThinkTags (lit ''Hel'')) = lit ''Hel''" by code_simp+
  have u: "getMessageContent (createUserMessage (lit ''u'', lit ''v'') (lit ''hi'') 1) = lit ''hi''"
    "rendered (initial_chat []) = []" by code_simp+
  note r = stop_keeps_answer [where s = "initial_chat []" and c = "lit ''hi''"
      and ?ids1.0 = "(lit ''u'', lit ''v'')" and ?ids2.0 = "(lit ''a'', lit ''w'')" and ?t0.0 = 1
      and en = sample_enabled and eager = False and now = 4 and now' = 5, OF stream c,
      unfolded g, folded s2_def, OF q]
  from r [of True] r [of False] v u show ?thesis by auto
qed

end
