(* ===== verification/Stream_Refinement.thy ===== *)
theory Stream_Refinement
  imports Stream_Controller
begin

section \<open>The streaming controller refines a latest-request machine\<close>

text \<open>
  What a user of the controller relies on, as a machine of its own: there is one newest request,
  which is being prepared, active or over. Only the newest request has callbacks: updates while it
  is active, and one end that makes it over. A new request and a stop replace it at any time. The
  controller of \<^verbatim>\<open>Stream_Controller\<close>, with its generations, its list of waiting requests and all the
  event sources it ever made, is shown to be a refinement of this machine.

  The interface is the locale \<open>simulation\<close>: a program that runs on events, an invariant, an
  abstraction and a specification that can follow each step.
\<close>

inductive traces :: "('a \<Rightarrow> 'o list \<Rightarrow> 'a \<Rightarrow> bool) \<Rightarrow> 'a \<Rightarrow> 'o list \<Rightarrow> 'a \<Rightarrow> bool" for spec where
  traces_refl: "traces spec s [] s"
| traces_step: "spec s out s' \<Longrightarrow> traces spec s' out' s'' \<Longrightarrow> traces spec s (out @ out') s''"

locale simulation =
  fixes step :: "'e \<Rightarrow> 's \<Rightarrow> 's \<times> 'o list"
    and exec :: "'e list \<Rightarrow> 's \<Rightarrow> 's \<times> 'o list"
    and inv :: "'s \<Rightarrow> bool"
    and abstr :: "'s \<Rightarrow> 'a"
    and spec :: "'a \<Rightarrow> 'o list \<Rightarrow> 'a \<Rightarrow> bool"
  assumes exec_Nil: "exec [] s = (s, [])"
    and exec_Cons: "exec (e # es) s = (fst (exec es (fst (step e s))), snd (step e s) @ snd (exec es (fst (step e s))))"
    and step_inv: "inv s \<Longrightarrow> inv (fst (step e s))"
    and step_sim: "inv s \<Longrightarrow> spec (abstr s) (snd (step e s)) (abstr (fst (step e s)))"
begin

lemma exec_inv: "inv s \<Longrightarrow> inv (fst (exec es s))"
  by (induction es arbitrary: s) (simp_all add: exec_Nil exec_Cons step_inv)

lemma exec_traces: "inv s \<Longrightarrow> traces spec (abstr s) (snd (exec es s)) (abstr (fst (exec es s)))"
proof (induction es arbitrary: s)
  case Nil
  show ?case by (simp add: exec_Nil traces_refl)
next
  case (Cons e es)
  then show ?case
    by (simp add: exec_Cons) (rule traces_step [OF step_sim Cons.IH], use Cons.prems step_inv in auto)
qed

end

subsection \<open>The specification\<close>

datatype phase = Ph_over | Ph_preparing | Ph_active

inductive latest_step :: "nat \<times> phase \<Rightarrow> (nat \<times> callback) list \<Rightarrow> nat \<times> phase \<Rightarrow> bool" where
  begin_request: "latest_step (g, p) [] (Suc g, Ph_preparing)"
| abandon: "latest_step (g, p) [] (Suc g, Ph_over)"
| become_active: "latest_step (g, Ph_preparing) [] (g, Ph_active)"
| fail_early: "latest_step (g, Ph_preparing) [(g, On_error msg code)] (g, Ph_over)"
| deliver_updates: "list_all (\<lambda>(h, cb). h = g \<and> \<not> terminal cb) cbs \<Longrightarrow> latest_step (g, Ph_active) cbs (g, Ph_active)"
| finish: "terminal cb \<Longrightarrow> latest_step (g, Ph_active) [(g, cb)] (g, Ph_over)"
| unchanged: "latest_step s [] s"

definition stream_abs :: "controller \<Rightarrow> nat \<times> phase" where
  "stream_abs c =
     (generation c,
      if generation c \<in> set (waiting c) then Ph_preparing
      else if source c \<noteq> None then Ph_active else Ph_over)"

subsection \<open>The steps of the controller\<close>

lemma finish_abs:
  assumes "stream_inv c" "\<not> ignored c i"
  shows "stream_abs c = (generation c, Ph_active)"
    "stream_abs (closeActiveSource i (mark_completed i c)) = (generation c, Ph_over)"
  using inv_active [OF assms]
  by (auto simp: stream_abs_def closeActiveSource_def mark_completed_def Let_def)

lemma handleError_sim:
  assumes "stream_inv c"
  shows "latest_step (stream_abs c) (snd (handleError i msg code c)) (stream_abs (fst (handleError i msg code c)))"
proof (cases "ignored c i")
  case False
  with finish_abs [OF assms False] inv_active [OF assms False] show ?thesis
    by (simp add: handleError_def latest_step.intros)
qed (simp add: handleError_def unchanged)

lemma on_message_sim:
  assumes "stream_inv c"
  shows "latest_step (stream_abs c) (snd (on_message i d c)) (stream_abs (fst (on_message i d c)))"
proof (cases "ignored c i")
  case False
  note act = finish_abs [OF assms False] inv_active [OF assms False]
  show ?thesis
  proof (cases "parseStreamMessageUpdates (coalesce d [])")
    case None
    with False act handleError_sim [OF assms] show ?thesis
      by (simp add: on_message_def Let_def finish)
  next
    case (Some us)
    have "list_all (\<lambda>(h, cb). h = generation c \<and> \<not> terminal cb)
        (map (\<lambda>(typ, chunk). (generation c, On_update typ chunk)) us)"
      by (auto simp: list_all_iff)
    with Some False act show ?thesis
      by (simp add: on_message_def Let_def finish deliver_updates)
  qed
qed (simp add: on_message_def unchanged)

lemma send_resume_sim:
  assumes "stream_inv c" "g \<in> set (waiting c)"
  shows "latest_step (stream_abs c) (snd (send_resume g res throws c)) (stream_abs (fst (send_resume g res throws c)))"
proof (cases "generation c = g")
  case False
  with assms have "stream_abs (c\<lparr>waiting := remove1 g (waiting c)\<rparr>) = stream_abs c"
    by (auto simp: stream_abs_def stream_inv_def)
  with False show ?thesis by (simp add: send_resume_def Let_def unchanged)
next
  case True
  with assms have g: "g \<notin> set (remove1 g (waiting c))" "source c = None"
    by (auto simp: stream_inv_def split: option.splits)
  from True assms have "stream_abs c = (g, Ph_preparing)" by (simp add: stream_abs_def)
  with True g show ?thesis
    by (cases res) (auto simp: send_resume_def Let_def stream_abs_def handleError_def ignored_def isCurrent_def
        closeActiveSource_def mark_completed_def intro: latest_step.intros)
qed

lemma send_abs: "stream_abs (send c) = (Suc (generation c), Ph_preparing)"
  by (simp add: stream_abs_def send_def Let_def)

lemma cancel_abs: "stream_inv c \<Longrightarrow> stream_abs (cancel notify c) = (Suc (generation c), Ph_over)"
  by (auto simp: stream_abs_def cancel_def Let_def stream_inv_def)

lemma stream_step_sim:
  assumes "stream_inv c"
  shows "latest_step (stream_abs c) (snd (stream_step e c)) (stream_abs (fst (stream_step e c)))"
proof -
  have abs: "stream_abs c = (generation c, snd (stream_abs c))" by (simp add: stream_abs_def)
  have new: "latest_step (stream_abs c) [] (Suc (generation c), p)" if "p \<in> {Ph_preparing, Ph_over}" for p
    using that by (subst abs) (auto intro: latest_step.intros)
  show ?thesis
    using assms handleError_sim [OF assms] new
    by (cases e)
      (simp_all add: unchanged send_abs cancel_abs stop_def dispose_def send_resume_sim on_message_sim
        on_error_event_def on_readystatechange_def split: option.split prod.split)
qed

interpretation stream_sim: simulation stream_step stream_run stream_inv stream_abs latest_step
proof unfold_locales
  show "stream_run [] c = (c, [])" for c by simp
  show "stream_run (e # es) c = (fst (stream_run es (fst (stream_step e c))),
      snd (stream_step e c) @ snd (stream_run es (fst (stream_step e c))))" for e es c
    using stream_run_Cons [of e es c] by (metis prod.collapse)
  show "stream_inv (fst (stream_step e c))" if "stream_inv c" for e c
    using stream_step_ok [OF that] by (simp add: step_ok_def)
qed (rule stream_step_sim)

subsection \<open>Properties\<close>

text \<open>
  C9. The streaming controller refines the latest-request machine: every run, over any sequence of
  requests, header responses, source events, stops and disposals, has exactly the callbacks of a
  trace of that machine, and ends in the state that the trace ends in.
\<close>

theorem stream_refines_latest_request:
  "traces latest_step (0, Ph_over) (snd (stream_run es createStreamRequestController))
     (stream_abs (fst (stream_run es createStreamRequestController)))"
proof -
  have "stream_abs createStreamRequestController = (0, Ph_over)"
    by (simp add: stream_abs_def createStreamRequestController_def)
  with stream_sim.exec_traces [OF initial_inv, of es] show ?thesis by simp
qed

end
