(* ===== verification/Flow_Graph.thy ===== *)
theory Flow_Graph
  imports JS_Json
begin

section \<open>The flow graph of the dashboard (\<^verbatim>\<open>web/src/features/dashboard/lib/flow.ts\<close>)\<close>

text \<open>
  Usage rows become paths of nodes (user, node, token, group, model, channel), paths become the
  nodes and links of a Sankey diagram. Numbers are exact. Row identifiers are integers, row
  metrics are numbers that may be absent or not finite. \<^verbatim>\<open>localeCompare\<close> (\<open>lc\<close>), the default colour
  scheme of the chart library (\<open>scheme\<close>: the colours for a number of entries) and the number
  formatter are arguments. The objects in the maps are updated in place by the code; here the map
  entry is replaced.
\<close>

subsection \<open>Data\<close>

datatype node_kind = K_user | K_node | K_token | K_group | K_model | K_channel

datatype flow_metric = Metric_quota | Metric_tokens | Metric_requests

datatype overflow_mode = Aggregate | Hide

datatype flow_role = Flow_user | Flow_admin | Flow_root

record flow_row =
  user_id :: "int option"
  username :: "jstring option"
  node_name :: "jstring option"
  use_group :: "jstring option"
  token_id :: "int option"
  token_name :: "jstring option"
  channel_id :: "int option"
  channel_name :: "jstring option"
  model_name :: "jstring option"
  token_used :: "jnum option"
  row_count :: "jnum option"
  row_quota :: "jnum option"

record flow_metrics =
  mquota :: rat
  mtokens :: rat
  mrequests :: rat

record path_node =
  pn_id :: jstring
  pn_label :: jstring
  pn_kind :: node_kind

record node_filter =
  nf_kind :: node_kind
  nf_id :: jstring

record link_selection =
  ls_source :: jstring
  ls_target :: jstring

record flow_node =
  n_id :: jstring
  n_label :: jstring
  n_kind :: node_kind
  n_value :: rat
  n_requests :: rat
  n_quota :: rat
  n_tokens :: rat
  n_color :: jstring
  n_colorKey :: jstring
  n_highlighted :: "bool option"
  n_dimmed :: "bool option"

record flow_link =
  l_source :: jstring
  l_target :: jstring
  l_value :: rat
  l_requests :: rat
  l_quota :: rat
  l_tokens :: rat
  l_sourceLabel :: jstring
  l_targetLabel :: jstring
  l_color :: jstring
  l_linkColor :: jstring
  l_linkAlpha :: rat
  l_hoverColor :: jstring
  l_colorKey :: jstring
  l_share :: rat
  l_highlighted :: "bool option"
  l_dimmed :: "bool option"

record flow_graph =
  g_nodes :: "flow_node list"
  g_links :: "flow_link list"

subsection \<open>Nodes of a row\<close>

definition kind_name :: "node_kind \<Rightarrow> jstring" where
  "kind_name k = (case k of K_user \<Rightarrow> lit ''user'' | K_node \<Rightarrow> lit ''node'' | K_token \<Rightarrow> lit ''token''
     | K_group \<Rightarrow> lit ''group'' | K_model \<Rightarrow> lit ''model'' | K_channel \<Rightarrow> lit ''channel'')"

definition other_node_id :: "node_kind \<Rightarrow> jstring" where
  "other_node_id k = kind_name k @ lit '':__other__''"

definition default_other_label :: "node_kind \<Rightarrow> jstring" where
  "default_other_label k = lit ''Other '' @ kind_name k @ lit ''s''"

definition sensitive_kind :: "node_kind \<Rightarrow> bool" where
  "sensitive_kind k \<longleftrightarrow> k \<noteq> K_model"

definition other_node_ids :: "jstring list" where
  "other_node_ids = map other_node_id [K_user, K_node, K_token, K_group, K_model, K_channel]"

definition numberValue :: "jnum option \<Rightarrow> rat" where
  "numberValue v = (case v of None \<Rightarrow> 0 | Some n \<Rightarrow> coalesce (num_val n) 0)"

definition idValue :: "int option \<Rightarrow> int" where
  "idValue v = coalesce v 0"

definition rowMetrics :: "flow_row \<Rightarrow> flow_metrics" where
  "rowMetrics row = \<lparr>mquota = numberValue (row_quota row), mtokens = numberValue (token_used row),
     mrequests = numberValue (row_count row)\<rparr>"

definition metricValue :: "flow_metrics \<Rightarrow> flow_metric \<Rightarrow> rat" where
  "metricValue m metric =
     (case metric of Metric_requests \<Rightarrow> mrequests m | Metric_tokens \<Rightarrow> mtokens m | Metric_quota \<Rightarrow> mquota m)"

definition userNode :: "flow_row \<Rightarrow> path_node" where
  "userNode row =
     (let userID = idValue (user_id row)
      in \<lparr>pn_id = (if userID > 0 then lit ''user:'' @ show_int userID
                   else lit ''user:'' @ opt_or_str (username row) (lit ''unknown'')),
          pn_label = opt_or_str (username row)
            (if userID > 0 then lit ''user-'' @ show_int userID else lit ''Unknown User''),
          pn_kind = K_user\<rparr>)"

definition nodeNameNode :: "flow_row \<Rightarrow> path_node" where
  "nodeNameNode row =
     (let nodeName = opt_or_str (node_name row) (lit ''default-node'')
      in \<lparr>pn_id = lit ''node:'' @ nodeName, pn_label = nodeName, pn_kind = K_node\<rparr>)"

definition deletedTokenLabel :: "(int \<Rightarrow> jstring) option \<Rightarrow> int \<Rightarrow> jstring" where
  "deletedTokenLabel ctx tokenID =
     (if tokenID \<le> 0 then lit ''Unknown Token''
      else case ctx of Some f \<Rightarrow> f tokenID | None \<Rightarrow> lit ''token-'' @ show_int tokenID)"

definition tokenNode :: "(int \<Rightarrow> jstring) option \<Rightarrow> flow_row \<Rightarrow> path_node" where
  "tokenNode ctx row =
     (let tokenID = idValue (token_id row)
      in \<lparr>pn_id = (if tokenID > 0 then lit ''token:'' @ show_int tokenID
                   else lit ''token:'' @ opt_or_str (token_name row) (lit ''unknown'')),
          pn_label = opt_or_str (token_name row) (deletedTokenLabel ctx tokenID), pn_kind = K_token\<rparr>)"

definition groupNode :: "flow_row \<Rightarrow> path_node" where
  "groupNode row =
     (let useGroup = opt_or_str (use_group row) (lit ''unknown'')
      in \<lparr>pn_id = lit ''group:'' @ useGroup, pn_label = useGroup, pn_kind = K_group\<rparr>)"

definition modelNode :: "flow_row \<Rightarrow> path_node" where
  "modelNode row =
     \<lparr>pn_id = lit ''model:'' @ opt_or_str (model_name row) (lit ''unknown''),
      pn_label = opt_or_str (model_name row) (lit ''Unknown Model''), pn_kind = K_model\<rparr>"

definition channelNode :: "flow_row \<Rightarrow> path_node" where
  "channelNode row =
     (let channelID = idValue (channel_id row)
      in \<lparr>pn_id = (if channelID > 0 then lit ''channel:'' @ show_int channelID
                   else lit ''channel:'' @ opt_or_str (channel_name row) (lit ''unknown'')),
          pn_label = opt_or_str (channel_name row)
            (if channelID > 0 then lit ''channel-'' @ show_int channelID else lit ''Unknown''),
          pn_kind = K_channel\<rparr>)"

definition node_builder :: "(int \<Rightarrow> jstring) option \<Rightarrow> node_kind \<Rightarrow> flow_row \<Rightarrow> path_node" where
  "node_builder ctx k row =
     (case k of K_user \<Rightarrow> userNode row | K_node \<Rightarrow> nodeNameNode row | K_token \<Rightarrow> tokenNode ctx row
      | K_group \<Rightarrow> groupNode row | K_model \<Rightarrow> modelNode row | K_channel \<Rightarrow> channelNode row)"

definition getFlowStages :: "flow_role \<Rightarrow> node_kind list" where
  "getFlowStages role =
     (case role of
        Flow_root \<Rightarrow> [K_user, K_node, K_token, K_group, K_model, K_channel]
      | Flow_admin \<Rightarrow> [K_user, K_group, K_model, K_channel]
      | Flow_user \<Rightarrow> [K_token, K_group, K_model])"

definition resolveVisibleStages :: "flow_role \<Rightarrow> node_kind list option \<Rightarrow> node_kind list" where
  "resolveVisibleStages role visibleStages =
     (let stages = getFlowStages role in
      case visibleStages of
        None \<Rightarrow> stages
      | Some visible \<Rightarrow>
          let filtered = filter (\<lambda>stage. stage \<in> set visible) stages
          in if length filtered \<ge> 2 then filtered else stages)"

definition flowPathForStages :: "flow_row \<Rightarrow> node_kind list \<Rightarrow> (int \<Rightarrow> jstring) option \<Rightarrow> path_node list" where
  "flowPathForStages row stages ctx = map (\<lambda>stage. node_builder ctx stage row) stages"

subsection \<open>Colours\<close>

definition default_chart_color :: jstring where
  "default_chart_color = lit ''#1664FF''"

definition colorAt :: "(nat \<Rightarrow> jstring list) \<Rightarrow> nat \<Rightarrow> jstring list option \<Rightarrow> jstring" where
  "colorAt scheme i palette =
     (let colors = (case palette of Some p \<Rightarrow> if length p > 0 then p else scheme (i + 1) | None \<Rightarrow> scheme (i + 1))
      in if length colors = 0 then default_chart_color else colors ! (i mod length colors))"

definition colorPalette :: "(nat \<Rightarrow> jstring list) \<Rightarrow> nat \<Rightarrow> jstring list option \<Rightarrow> jstring list" where
  "colorPalette scheme colorCount palette =
     (let colors = scheme colorCount; default_colors = (if length colors > 0 then colors else [default_chart_color])
      in case palette of Some p \<Rightarrow> if length p > 0 then p else default_colors | None \<Rightarrow> default_colors)"

definition read_hex :: "jstring \<Rightarrow> nat" where
  "read_hex s = foldl (\<lambda>acc c. 16 * acc + coalesce (hex_val c) 0) 0 s"

text \<open>\<^verbatim>\<open>x.toFixed(2)\<close> for a number that is not negative.\<close>

definition to_fixed2 :: "rat \<Rightarrow> jstring" where
  "to_fixed2 x =
     (let n = nat \<lfloor>x * 100 + 1 / 2\<rfloor>
      in show_nat (n div 100) @ lit ''.'' @ show_nat (n mod 100 div 10) @ show_nat (n mod 10))"

definition alphaColor :: "jstring \<Rightarrow> rat \<Rightarrow> jstring \<times> rat" where
  "alphaColor color alpha =
     (let normalized = trim color;
          hex = (if starts_with normalized (lit ''#'') then drop 1 normalized else normalized)
      in if \<not> (length hex = 6 \<and> list_all (\<lambda>c. hex_val c \<noteq> None) hex) then (normalized, alpha)
         else let v = read_hex hex
              in (lit ''rgba('' @ show_nat (v div 65536 mod 256) @ lit '', '' @ show_nat (v div 256 mod 256)
                   @ lit '', '' @ show_nat (v mod 256) @ lit '', '' @ to_fixed2 alpha @ lit '')'', 1))"

definition stableColorMap ::
    "(nat \<Rightarrow> jstring list) \<Rightarrow> jstring list \<Rightarrow> jstring list option \<Rightarrow> (jstring, jstring) jmap" where
  "stableColorMap scheme keys palette =
     (let uniqueKeys = uniq keys; colors = colorPalette scheme (length uniqueKeys) palette
      in map (\<lambda>i. (uniqueKeys ! i, colorAt scheme i (Some colors))) [0..<length uniqueKeys])"

subsection \<open>Filters\<close>

definition filterRows :: "flow_row list \<Rightarrow> jstring list option \<Rightarrow> flow_row list" where
  "filterRows rows selectedUsers =
     (if coalesce selectedUsers [] = [] then rows
      else filter (\<lambda>row. pn_id (userNode row) \<in> set (coalesce selectedUsers [])) rows)"

text \<open>The sets of selected ids by kind, for the kinds that are visible.\<close>

definition normalizeSelectedNodeFilters ::
    "node_filter list option \<Rightarrow> node_kind list \<Rightarrow> (node_kind, jstring list) jmap" where
  "normalizeSelectedNodeFilters selectedNodes stages =
     fold (\<lambda>f filters.
        if nf_kind f \<notin> set stages then filters
        else let selected = coalesce (map_of filters (nf_kind f)) []
             in AList.update (nf_kind f) (if nf_id f \<in> set selected then selected else selected @ [nf_id f]) filters)
       (coalesce selectedNodes []) []"

definition pathMatchesNodeFilters :: "path_node list \<Rightarrow> (node_kind, jstring list) jmap \<Rightarrow> bool" where
  "pathMatchesNodeFilters path filters \<longleftrightarrow>
     list_all (\<lambda>(kind, selectedIds).
        let pathIds = map pn_id (filter (\<lambda>n. pn_kind n = kind) path)
        in pathIds \<noteq> [] \<and> list_ex (\<lambda>i. i \<in> set pathIds) selectedIds) filters"

definition filterRowsByNodes ::
    "flow_row list \<Rightarrow> node_filter list option \<Rightarrow> node_kind list \<Rightarrow> (int \<Rightarrow> jstring) option \<Rightarrow> flow_row list" where
  "filterRowsByNodes rows selectedNodes stages ctx =
     (let filters = normalizeSelectedNodeFilters selectedNodes stages
      in if filters = [] then rows
         else filter (\<lambda>row. pathMatchesNodeFilters (flowPathForStages row stages ctx) filters) rows)"

definition selectedNodeFiltersExceptKind ::
    "node_filter list option \<Rightarrow> node_kind \<Rightarrow> node_filter list option" where
  "selectedNodeFiltersExceptKind selectedNodes kind =
     (let filtered = filter (\<lambda>f. nf_kind f \<noteq> kind) (coalesce selectedNodes [])
      in if length filtered > 0 then Some filtered else None)"

subsection \<open>Nodes and links\<close>

definition addNode ::
    "flow_metric \<Rightarrow> path_node \<Rightarrow> flow_metrics \<Rightarrow> jstring \<Rightarrow> jstring \<Rightarrow> (jstring, flow_node) jmap
      \<Rightarrow> (jstring, flow_node) jmap" where
  "addNode metric pn m color colorKey nodes =
     (let previous = coalesce (map_of nodes (pn_id pn))
            \<lparr>n_id = pn_id pn, n_label = pn_label pn, n_kind = pn_kind pn, n_value = 0, n_requests = 0,
             n_quota = 0, n_tokens = 0, n_color = color, n_colorKey = colorKey,
             n_highlighted = None, n_dimmed = None\<rparr>
      in AList.update (pn_id pn)
           (previous\<lparr>n_value := n_value previous + metricValue m metric,
              n_requests := n_requests previous + mrequests m, n_quota := n_quota previous + mquota m,
              n_tokens := n_tokens previous + mtokens m\<rparr>) nodes)"

definition pathLinkKey :: "path_node \<Rightarrow> path_node \<Rightarrow> jstring" where
  "pathLinkKey s t = pn_id s @ [0] @ pn_id t"

definition linkStableKey :: "flow_link \<Rightarrow> jstring" where
  "linkStableKey l = l_source l @ [0] @ l_target l"

definition addLink ::
    "flow_metric \<Rightarrow> path_node \<Rightarrow> path_node \<Rightarrow> flow_metrics \<Rightarrow> jstring \<Rightarrow> jstring \<Rightarrow> (jstring, flow_link) jmap
      \<Rightarrow> (jstring, flow_link) jmap" where
  "addLink metric s t m color colorKey links =
     (let k = pn_id s @ [0] @ pn_id t;
          previous = coalesce (map_of links k)
            \<lparr>l_source = pn_id s, l_target = pn_id t, l_value = 0, l_requests = 0, l_quota = 0, l_tokens = 0,
             l_sourceLabel = pn_label s, l_targetLabel = pn_label t, l_color = color, l_linkColor = color,
             l_linkAlpha = 1, l_hoverColor = color, l_colorKey = colorKey, l_share = 0,
             l_highlighted = None, l_dimmed = None\<rparr>
      in AList.update k
           (previous\<lparr>l_value := l_value previous + metricValue m metric,
              l_requests := l_requests previous + mrequests m, l_quota := l_quota previous + mquota m,
              l_tokens := l_tokens previous + mtokens m\<rparr>) links)"

text \<open>A comparator chain \<^verbatim>\<open>a || b\<close>, and the comparison of two numbers.\<close>

definition or_else :: "int \<Rightarrow> int \<Rightarrow> int" where
  "or_else a b = (if a \<noteq> 0 then a else b)"

definition desc :: "rat \<Rightarrow> rat \<Rightarrow> int" where
  "desc a b = (if b < a then - 1 else if a < b then 1 else 0)"

definition link_color_cmp :: "(jstring \<Rightarrow> jstring \<Rightarrow> int) \<Rightarrow> flow_link \<Rightarrow> flow_link \<Rightarrow> int" where
  "link_color_cmp lc a b = or_else (desc (l_value a) (l_value b)) (lc (linkStableKey a) (linkStableKey b))"

text \<open>
  The display colour of a link depends on its rank among the links of the same source; links have
  distinct keys, so that the rank is the position of its key in the sorted group.
\<close>

definition link_rank :: "(jstring \<Rightarrow> jstring \<Rightarrow> int) \<Rightarrow> flow_link list \<Rightarrow> flow_link \<Rightarrow> nat \<times> nat" where
  "link_rank lc links l =
     (let sortedLinks = js_sort (link_color_cmp lc) (filter (\<lambda>x. l_source x = l_source l) links)
      in (coalesce (find_index (\<lambda>x. linkStableKey x = linkStableKey l) sortedLinks) 0, length sortedLinks))"

definition assignLinkDisplayColors :: "(jstring \<Rightarrow> jstring \<Rightarrow> int) \<Rightarrow> flow_link list \<Rightarrow> flow_link list" where
  "assignLinkDisplayColors lc links =
     map (\<lambda>l. case link_rank lc links l of (i, n) \<Rightarrow>
        let alpha = (if n = 1 then 34 / 100
                     else 24 / 100 + (rat_of_nat i / rat_of_nat (max (n - 1) 1)) * (2 / 10))
        in case alphaColor (l_color l) alpha of (c, a) \<Rightarrow>
             l\<lparr>l_linkColor := c, l_linkAlpha := a, l_hoverColor := l_color l\<rparr>) links"

definition byValueThenLabel :: "(jstring \<Rightarrow> jstring \<Rightarrow> int) \<Rightarrow> flow_node \<Rightarrow> flow_node \<Rightarrow> int" where
  "byValueThenLabel lc a b = or_else (desc (n_value a) (n_value b)) (lc (n_label a) (n_label b))"

definition buildSummary :: "flow_row list \<Rightarrow> flow_metrics" where
  "buildSummary rows =
     foldl (\<lambda>summary row.
        let m = rowMetrics row
        in \<lparr>mquota = mquota summary + mquota m, mtokens = mtokens summary + mtokens m,
            mrequests = mrequests summary + mrequests m\<rparr>)
       \<lparr>mquota = 0, mtokens = 0, mrequests = 0\<rparr> rows"

subsection \<open>The limit on nodes\<close>

definition normalizeTopNodeLimit :: "jnum option \<Rightarrow> nat option" where
  "normalizeTopNodeLimit limit =
     (case limit of
        None \<Rightarrow> None
      | Some n \<Rightarrow>
          (case num_val n of
             None \<Rightarrow> None
           | Some q \<Rightarrow> let parsed = \<lfloor>q\<rfloor> in if parsed > 0 then Some (nat parsed) else None))"

definition otherFlowNode :: "node_kind \<Rightarrow> (node_kind \<Rightarrow> jstring) option \<Rightarrow> path_node" where
  "otherFlowNode kind labeler =
     \<lparr>pn_id = other_node_id kind,
      pn_label = (case labeler of Some f \<Rightarrow> f kind | None \<Rightarrow> default_other_label kind), pn_kind = kind\<rparr>"

record node_rank =
  rank_node :: path_node
  rank_value :: rat

definition rank_cmp :: "(jstring \<Rightarrow> jstring \<Rightarrow> int) \<Rightarrow> node_rank \<Rightarrow> node_rank \<Rightarrow> int" where
  "rank_cmp lc a b =
     or_else (desc (rank_value a) (rank_value b))
       (or_else (lc (pn_label (rank_node a)) (pn_label (rank_node b)))
          (lc (pn_id (rank_node a)) (pn_id (rank_node b))))"

definition add_rank ::
    "rat \<Rightarrow> path_node \<Rightarrow> (node_kind, (jstring, node_rank) jmap) jmap \<Rightarrow> (node_kind, (jstring, node_rank) jmap) jmap" where
  "add_rank v node totals =
     (case map_of totals (pn_kind node) of
        None \<Rightarrow> totals
      | Some stageTotals \<Rightarrow>
          let current = coalesce (map_of stageTotals (pn_id node)) \<lparr>rank_node = node, rank_value = 0\<rparr>
          in AList.update (pn_kind node)
               (AList.update (pn_id node) (current\<lparr>rank_value := rank_value current + v\<rparr>) stageTotals) totals)"

definition buildTopNodeSets ::
    "(jstring \<Rightarrow> jstring \<Rightarrow> int) \<Rightarrow> flow_row list \<Rightarrow> flow_metric \<Rightarrow> node_kind list \<Rightarrow> nat option
      \<Rightarrow> (int \<Rightarrow> jstring) option \<Rightarrow> (node_kind, jstring list) jmap option" where
  "buildTopNodeSets lc rows metric stages limit ctx =
     (case limit of
        None \<Rightarrow> None
      | Some n \<Rightarrow>
          let totals0 = fold (\<lambda>stage t. AList.update stage [] t) stages [];
              totals = fold (\<lambda>row t. fold (add_rank (metricValue (rowMetrics row) metric))
                         (flowPathForStages row stages ctx) t) rows totals0
          in Some (map (\<lambda>(kind, stageTotals).
               (kind, uniq (map (\<lambda>r. pn_id (rank_node r)) (take n (js_sort (rank_cmp lc) (map snd stageTotals))))))
               totals))"

definition isTopFlowNode :: "path_node \<Rightarrow> (node_kind, jstring list) jmap option \<Rightarrow> bool" where
  "isTopFlowNode node topNodeSets =
     (case topNodeSets of
        None \<Rightarrow> True
      | Some sets \<Rightarrow> (case map_of sets (pn_kind node) of None \<Rightarrow> True | Some ids \<Rightarrow> pn_id node \<in> set ids))"

definition applyTopNodeLimit ::
    "path_node list \<Rightarrow> (node_kind, jstring list) jmap option \<Rightarrow> overflow_mode \<Rightarrow> (node_kind \<Rightarrow> jstring) option
      \<Rightarrow> path_node list option" where
  "applyTopNodeLimit path topNodeSets mode labeler =
     (if topNodeSets = None then Some path
      else if \<not> list_ex (\<lambda>n. \<not> isTopFlowNode n topNodeSets) path then Some path
      else if mode = Hide then None
      else Some (map (\<lambda>n. if isTopFlowNode n topNodeSets then n else otherFlowNode (pn_kind n) labeler) path))"

subsection \<open>Highlights and masks\<close>

definition pathContainsFlowNode :: "path_node list \<Rightarrow> node_filter \<Rightarrow> bool" where
  "pathContainsFlowNode path f \<longleftrightarrow> list_ex (\<lambda>n. pn_kind n = nf_kind f \<and> pn_id n = nf_id f) path"

text \<open>The links of a path: consecutive nodes.\<close>

definition path_links :: "path_node list \<Rightarrow> (path_node \<times> path_node) list" where
  "path_links path = zip path (tl path)"

definition pathContainsFlowLink :: "path_node list \<Rightarrow> link_selection \<Rightarrow> bool" where
  "pathContainsFlowLink path l \<longleftrightarrow>
     list_ex (\<lambda>(s, t). pn_id s = ls_source l \<and> pn_id t = ls_target l) (path_links path)"

type_synonym prepared = "path_node list \<times> flow_metrics"

definition buildFlowHighlightSets ::
    "prepared list \<Rightarrow> node_filter option \<Rightarrow> link_selection option \<Rightarrow> node_kind list
      \<Rightarrow> (jstring list \<times> jstring list) option" where
  "buildFlowHighlightSets preparedPaths activeNode activeLink stages =
     (let nodeActive = (case activeNode of None \<Rightarrow> False | Some f \<Rightarrow> nf_kind f \<in> set stages)
      in if \<not> nodeActive \<and> activeLink = None then None
         else let matchesPath = (\<lambda>path. case activeLink of
                    Some l \<Rightarrow> pathContainsFlowLink path l
                  | None \<Rightarrow> (case activeNode of Some f \<Rightarrow> pathContainsFlowNode path f | None \<Rightarrow> False));
                  matching = filter (\<lambda>p. matchesPath (fst p)) preparedPaths;
                  highlightedNodes = uniq (concat (map (\<lambda>p. map pn_id (fst p)) matching));
                  highlightedLinks = uniq (concat (map (\<lambda>p. map (\<lambda>(s, t). pathLinkKey s t) (path_links (fst p))) matching))
              in if highlightedNodes = [] then None else Some (highlightedNodes, highlightedLinks))"

definition flow_mask_text :: jstring where
  "flow_mask_text = [8226, 8226, 8226, 8226]"

definition maskFlowLabel :: "jstring \<Rightarrow> jstring" where
  "maskFlowLabel label = (if length label = 0 then label else flow_mask_text)"

definition masked_node :: "flow_node \<Rightarrow> bool" where
  "masked_node n \<longleftrightarrow> sensitive_kind (n_kind n) \<and> n_id n \<notin> set other_node_ids"

definition maskFlowGraphLabels ::
    "(jstring, flow_node) jmap \<Rightarrow> (jstring, flow_link) jmap \<Rightarrow> (jstring, flow_node) jmap \<times> (jstring, flow_link) jmap" where
  "maskFlowGraphLabels nodes links =
     (let maskedById = map (\<lambda>(k, n). (n_id n, maskFlowLabel (n_label n))) (filter (\<lambda>(k, n). masked_node n) nodes);
          nodes' = map (\<lambda>(k, n). (k, if masked_node n then n\<lparr>n_label := maskFlowLabel (n_label n)\<rparr> else n)) nodes;
          links' = map (\<lambda>(k, l). (k, l\<lparr>l_sourceLabel := coalesce (map_of maskedById (l_source l)) (l_sourceLabel l),
                      l_targetLabel := coalesce (map_of maskedById (l_target l)) (l_targetLabel l)\<rparr>)) links
      in if maskedById = [] then (nodes', links) else (nodes', links'))"

definition applyFlowHighlights ::
    "(jstring list \<times> jstring list) option \<Rightarrow> flow_node list \<times> flow_link list \<Rightarrow> flow_node list \<times> flow_link list" where
  "applyFlowHighlights highlightSets g =
     (case highlightSets of
        None \<Rightarrow> g
      | Some (hn, hl) \<Rightarrow>
          (map (\<lambda>n. n\<lparr>n_highlighted := Some (n_id n \<in> set hn), n_dimmed := Some (n_id n \<notin> set hn)\<rparr>) (fst g),
           map (\<lambda>l. l\<lparr>l_highlighted := Some (linkStableKey l \<in> set hl),
                       l_dimmed := Some (linkStableKey l \<notin> set hl)\<rparr>) (snd g)))"

subsection \<open>The graph\<close>

record graph_options =
  topNodeLimit :: "jnum option"
  overflowMode :: "overflow_mode option"
  otherNodeLabel :: "(node_kind \<Rightarrow> jstring) option"
  activeNode :: "node_filter option"
  activeLink :: "link_selection option"
  maskSensitive :: bool

definition prepare_paths ::
    "flow_row list \<Rightarrow> node_kind list \<Rightarrow> (int \<Rightarrow> jstring) option \<Rightarrow> (node_kind, jstring list) jmap option
      \<Rightarrow> overflow_mode \<Rightarrow> (node_kind \<Rightarrow> jstring) option \<Rightarrow> prepared list" where
  "prepare_paths rows stages ctx topNodeSets mode labeler =
     List.map_filter (\<lambda>row. map_option (\<lambda>path. (path, rowMetrics row))
       (applyTopNodeLimit (flowPathForStages row stages ctx) topNodeSets mode labeler)) rows"

definition first_ids :: "prepared list \<Rightarrow> jstring list" where
  "first_ids ps = List.map_filter (\<lambda>p. case fst p of [] \<Rightarrow> None
     | n # _ \<Rightarrow> if pn_id n = [] then None else Some (pn_id n)) ps"

definition add_path ::
    "flow_metric \<Rightarrow> (jstring \<Rightarrow> jstring) \<Rightarrow> prepared \<Rightarrow> (jstring, flow_node) jmap \<times> (jstring, flow_link) jmap
      \<Rightarrow> (jstring, flow_node) jmap \<times> (jstring, flow_link) jmap" where
  "add_path metric color p maps =
     (case fst p of
        [] \<Rightarrow> maps
      | node # _ \<Rightarrow>
          let c = color (pn_id node)
          in (fold (\<lambda>n. addNode metric n (snd p) c (pn_id node)) (fst p) (fst maps),
              fold (\<lambda>(s, t). addLink metric s t (snd p) c (pn_id node)) (path_links (fst p)) (snd maps)))"

definition set_shares :: "jstring list \<Rightarrow> flow_link list \<Rightarrow> flow_link list" where
  "set_shares firstStepSources links =
     (let total = sum_list (map l_value (filter (\<lambda>l. l_source l \<in> set firstStepSources) links))
      in map (\<lambda>l. l\<lparr>l_share := (if total > 0 then l_value l / total else 0)\<rparr>) links)"

definition buildFlowGraph ::
    "(jstring \<Rightarrow> jstring \<Rightarrow> int) \<Rightarrow> (nat \<Rightarrow> jstring list) \<Rightarrow> flow_row list \<Rightarrow> flow_metric \<Rightarrow> flow_role
      \<Rightarrow> jstring list option \<Rightarrow> node_kind list option \<Rightarrow> (int \<Rightarrow> jstring) option \<Rightarrow> graph_options \<Rightarrow> flow_graph" where
  "buildFlowGraph lc scheme rows metric role palette visibleStages ctx opts =
     (let stages = resolveVisibleStages role visibleStages;
          topNodeSets = buildTopNodeSets lc rows metric stages (normalizeTopNodeLimit (topNodeLimit opts)) ctx;
          mode = coalesce (overflowMode opts) Aggregate;
          preparedPaths = prepare_paths rows stages ctx topNodeSets mode (otherNodeLabel opts);
          colors = stableColorMap scheme (js_sort lc (first_ids preparedPaths)) palette;
          color = (\<lambda>i. coalesce (map_of colors i) (colorAt scheme 0 palette));
          maps = fold (add_path metric color) preparedPaths ([], []);
          masked = (if maskSensitive opts then maskFlowGraphLabels (fst maps) (snd maps) else maps);
          (nodes, links) = applyFlowHighlights
            (buildFlowHighlightSets preparedPaths (activeNode opts) (activeLink opts) stages)
            (map snd (fst masked), map snd (snd masked));
          flowLinks = js_sort (\<lambda>a b. or_else (lc (l_source a) (l_source b)) (lc (l_target a) (l_target b))) links
      in \<lparr>g_nodes = js_sort (byValueThenLabel lc) nodes,
          g_links = assignLinkDisplayColors lc (set_shares (first_ids preparedPaths) flowLinks)\<rparr>)"

subsection \<open>Filter options and the whole dashboard data\<close>

record user_option =
  uo_value :: jstring
  uo_label :: jstring
  uo_valueLabel :: jstring
  uo_valueRaw :: rat
  uo_color :: jstring

record node_option =
  no_kind :: node_kind
  no_value :: jstring
  no_label :: jstring
  no_valueLabel :: jstring
  no_valueRaw :: rat
  no_color :: jstring

record user_total =
  ut_label :: jstring
  ut_value :: rat
  ut_color :: jstring

definition buildUserFilterOptions ::
    "(jstring \<Rightarrow> jstring \<Rightarrow> int) \<Rightarrow> (nat \<Rightarrow> jstring list) \<Rightarrow> (rat \<Rightarrow> jstring) \<Rightarrow> flow_row list \<Rightarrow> flow_metric
      \<Rightarrow> jstring list option \<Rightarrow> user_option list" where
  "buildUserFilterOptions lc scheme fmt rows metric palette =
     (let colors = stableColorMap scheme (js_sort lc (map (\<lambda>row. pn_id (userNode row)) rows)) palette;
          users = fold (\<lambda>row users.
            let user = userNode row in
            if idValue (user_id row) = 0 \<and> coalesce (username row) [] = [] then users
            else let current = coalesce (map_of users (pn_id user))
                       \<lparr>ut_label = pn_label user, ut_value = 0,
                        ut_color = coalesce (map_of colors (pn_id user)) (colorAt scheme 0 palette)\<rparr>
                 in AList.update (pn_id user)
                      (current\<lparr>ut_value := ut_value current + metricValue (rowMetrics row) metric\<rparr>) users) rows []
      in js_sort (\<lambda>a b. or_else (desc (uo_valueRaw a) (uo_valueRaw b)) (lc (uo_label a) (uo_label b)))
           (map (\<lambda>(v, user). \<lparr>uo_value = v, uo_label = ut_label user, uo_valueLabel = fmt (ut_value user),
                  uo_valueRaw = ut_value user, uo_color = ut_color user\<rparr>) users))"

definition nodeFilterKey :: "node_kind \<Rightarrow> jstring \<Rightarrow> jstring" where
  "nodeFilterKey kind i = kind_name kind @ [0] @ i"

definition stage_totals ::
    "flow_row list \<Rightarrow> flow_metric \<Rightarrow> node_kind \<Rightarrow> (int \<Rightarrow> jstring) option \<Rightarrow> (jstring, node_rank) jmap" where
  "stage_totals rows metric stage ctx =
     fold (\<lambda>row totals.
        let node = node_builder ctx stage row;
            k = nodeFilterKey (pn_kind node) (pn_id node);
            current = coalesce (map_of totals k) \<lparr>rank_node = node, rank_value = 0\<rparr>
        in AList.update k (current\<lparr>rank_value := rank_value current + metricValue (rowMetrics row) metric\<rparr>) totals)
       rows []"

definition stage_order :: "node_kind list \<Rightarrow> node_kind \<Rightarrow> int" where
  "stage_order stages k = int (coalesce (find_index (\<lambda>s. s = k) stages) 0)"

definition buildNodeFilterOptions ::
    "(jstring \<Rightarrow> jstring \<Rightarrow> int) \<Rightarrow> (nat \<Rightarrow> jstring list) \<Rightarrow> (rat \<Rightarrow> jstring) \<Rightarrow> flow_row list \<Rightarrow> flow_metric
      \<Rightarrow> flow_role \<Rightarrow> node_kind list option \<Rightarrow> jstring list option \<Rightarrow> (int \<Rightarrow> jstring) option
      \<Rightarrow> node_filter list option \<Rightarrow> node_option list" where
  "buildNodeFilterOptions lc scheme fmt rows metric role visibleStages palette ctx selectedNodes =
     (let stages = resolveVisibleStages role visibleStages;
          colorIds = uniq (concat (map (\<lambda>row. map pn_id (flowPathForStages row stages ctx)) rows));
          colors = stableColorMap scheme (js_sort lc colorIds) palette;
          options = concat (map (\<lambda>stage.
            let candidateRows = filterRowsByNodes rows (selectedNodeFiltersExceptKind selectedNodes stage) stages ctx
            in map (\<lambda>(k, rank). \<lparr>no_kind = pn_kind (rank_node rank), no_value = pn_id (rank_node rank),
                      no_label = pn_label (rank_node rank), no_valueLabel = fmt (rank_value rank),
                      no_valueRaw = rank_value rank,
                      no_color = coalesce (map_of colors (pn_id (rank_node rank))) (colorAt scheme 0 palette)\<rparr>)
                 (stage_totals candidateRows metric stage ctx)) stages)
      in js_sort (\<lambda>a b.
           or_else (stage_order stages (no_kind a) - stage_order stages (no_kind b))
             (or_else (desc (no_valueRaw a) (no_valueRaw b))
               (or_else (lc (no_label a) (no_label b)) (lc (no_value a) (no_value b))))) options)"

record filter_options =
  fo_users :: "user_option list"
  fo_nodes :: "node_option list"

definition buildFlowFilterOptions ::
    "(jstring \<Rightarrow> jstring \<Rightarrow> int) \<Rightarrow> (nat \<Rightarrow> jstring list) \<Rightarrow> (rat \<Rightarrow> jstring) \<Rightarrow> flow_row list \<Rightarrow> flow_metric
      \<Rightarrow> jstring list option \<Rightarrow> flow_role \<Rightarrow> node_kind list option \<Rightarrow> node_filter list option \<Rightarrow> filter_options" where
  "buildFlowFilterOptions lc scheme fmt rows metric palette role visibleStages selectedNodes =
     \<lparr>fo_users = buildUserFilterOptions lc scheme fmt rows metric palette,
      fo_nodes = buildNodeFilterOptions lc scheme fmt rows metric role visibleStages palette None selectedNodes\<rparr>"

record build_options = graph_options +
  bo_role :: "flow_role option"
  selectedUsers :: "jstring list option"
  selectedNodes :: "node_filter list option"
  bo_palette :: "jstring list option"
  bo_visibleStages :: "node_kind list option"
  bo_deletedTokenLabel :: "(int \<Rightarrow> jstring) option"

record flow_data =
  fd_summary :: flow_metrics
  fd_flow :: flow_graph
  fd_filterOptions :: filter_options

text \<open>The rows that the graph shows: those of the selected users and nodes.\<close>

definition shown_rows :: "flow_row list \<Rightarrow> build_options \<Rightarrow> flow_row list" where
  "shown_rows rows opts =
     filterRowsByNodes (filterRows rows (selectedUsers opts)) (selectedNodes opts)
       (resolveVisibleStages (coalesce (bo_role opts) Flow_user) (bo_visibleStages opts)) (bo_deletedTokenLabel opts)"

definition buildDashboardFlowData ::
    "(jstring \<Rightarrow> jstring \<Rightarrow> int) \<Rightarrow> (nat \<Rightarrow> jstring list) \<Rightarrow> (rat \<Rightarrow> jstring) \<Rightarrow> flow_row list \<Rightarrow> flow_metric
      \<Rightarrow> build_options \<Rightarrow> flow_data" where
  "buildDashboardFlowData lc scheme fmt rows metric opts =
     (let role = coalesce (bo_role opts) Flow_user; palette = bo_palette opts; ctx = bo_deletedTokenLabel opts;
          filteredRows = shown_rows rows opts
      in \<lparr>fd_summary = buildSummary filteredRows,
          fd_flow = buildFlowGraph lc scheme filteredRows metric role palette (bo_visibleStages opts) ctx
            (graph_options.truncate opts),
          fd_filterOptions =
            \<lparr>fo_users = buildUserFilterOptions lc scheme fmt rows metric palette,
             fo_nodes = buildNodeFilterOptions lc scheme fmt (filterRows rows (selectedUsers opts)) metric role
               (bo_visibleStages opts) palette ctx (selectedNodes opts)\<rparr>\<rparr>)"

subsection \<open>Sums over maps\<close>

text \<open>The sum of a value over the entries of a map that satisfy a predicate, and what an update adds.\<close>

definition val_sum :: "('v \<Rightarrow> rat) \<Rightarrow> ('v \<Rightarrow> bool) \<Rightarrow> ('k \<times> 'v) list \<Rightarrow> rat" where
  "val_sum f Q m = sum_list (map f (filter Q (map snd m)))"

lemma val_sum_update:
  assumes "distinct (map fst m)"
  shows "val_sum f Q (AList.update k v m) =
    val_sum f Q m - (case map_of m k of None \<Rightarrow> 0 | Some x \<Rightarrow> if Q x then f x else 0) + (if Q v then f v else 0)"
  using assms
proof (induction m)
  case (Cons p m)
  obtain a b where p: "p = (a, b)" by fastforce
  show ?case
  proof (cases "a = k")
    case True
    with p show ?thesis by (simp add: val_sum_def)
  next
    case False
    with Cons p show ?thesis by (simp add: val_sum_def)
  qed
qed (simp add: val_sum_def)

lemma filter_singleton:
  "distinct xs \<Longrightarrow> x \<in> set xs \<Longrightarrow> (\<And>y. y \<in> set xs \<Longrightarrow> P y \<longleftrightarrow> y = x) \<Longrightarrow> filter P xs = [x]"
  by (induction xs) (auto simp: filter_empty_conv)

text \<open>
  Nodes and links are totals that are accumulated in a map: an event finds or creates the entry of
  its key and adds an amount to it. \<open>tag\<close> is the part of an entry that never changes; events that
  are \<open>ok\<close> and share a key agree on it.
\<close>

locale accumulator =
  fixes key :: "'e \<Rightarrow> 'k" and ini :: "'e \<Rightarrow> 'v" and bump :: "'e \<Rightarrow> 'v \<Rightarrow> 'v"
    and val :: "'v \<Rightarrow> rat" and amount :: "'e \<Rightarrow> rat" and tag :: "'v \<Rightarrow> 't" and etag :: "'e \<Rightarrow> 't"
    and ok :: "'e \<Rightarrow> bool"
  assumes val_ini: "val (ini e) = 0"
    and val_bump: "val (bump e x) = val x + amount e"
    and tag_ini: "tag (ini e) = etag e"
    and tag_bump: "tag (bump e x) = tag x"
    and key_etag: "ok e \<Longrightarrow> ok e' \<Longrightarrow> key e = key e' \<Longrightarrow> etag e = etag e'"
begin

definition acc :: "'e \<Rightarrow> ('k \<times> 'v) list \<Rightarrow> ('k \<times> 'v) list" where
  "acc e m = AList.update (key e) (bump e (coalesce (map_of m (key e)) (ini e))) m"

text \<open>Every entry belongs to an event that was seen.\<close>

definition tagged :: "'e set \<Rightarrow> ('k \<times> 'v) list \<Rightarrow> bool" where
  "tagged E m \<longleftrightarrow> distinct (map fst m) \<and> (\<forall>(k, x) \<in> set m. \<exists>e \<in> E. ok e \<and> key e = k \<and> tag x = etag e)"

lemma tagged_get: "tagged E m \<Longrightarrow> ok e \<Longrightarrow> map_of m (key e) = Some x \<Longrightarrow> tag x = etag e"
proof -
  assume a: "tagged E m" "ok e" "map_of m (key e) = Some x"
  from map_of_SomeD [OF a(3)] a(1) obtain e' where "ok e'" "key e' = key e" "tag x = etag e'"
    unfolding tagged_def by blast
  with key_etag [OF _ a(2)] show ?thesis by simp
qed

lemma tagged_acc:
  assumes "tagged E m" "ok e"
  shows "tagged (insert e E) (acc e m)"
proof -
  let ?v = "bump e (coalesce (map_of m (key e)) (ini e))"
  have "tag ?v = etag e"
    using tagged_get [OF assms]
    by (cases "map_of m (key e)") (simp_all add: coalesce_def tag_bump tag_ini)
  moreover have "set (AList.update (key e) ?v m) \<subseteq> insert (key e, ?v) (set m)"
    by (induction m) auto
  ultimately show ?thesis
    using assms unfolding tagged_def acc_def by (blast intro: distinct_update)
qed

lemma tagged_fold: "tagged E m \<Longrightarrow> list_all ok es \<Longrightarrow> tagged (E \<union> set es) (fold acc es m)"
proof (induction es arbitrary: E m)
  case (Cons e es)
  from Cons.IH [OF tagged_acc [OF Cons.prems(1), of e]] Cons.prems(2) show ?case by simp
qed simp

lemma sum_acc:
  assumes "tagged E m" "ok e"
  shows "val_sum val (\<lambda>x. P (tag x)) (acc e m) = val_sum val (\<lambda>x. P (tag x)) m + (if P (etag e) then amount e else 0)"
proof (cases "map_of m (key e)")
  case None
  with assms show ?thesis
    by (simp add: acc_def val_sum_update tagged_def coalesce_def val_bump val_ini tag_bump tag_ini)
next
  case (Some x)
  with assms tagged_get [OF assms Some] show ?thesis
    by (simp add: acc_def val_sum_update tagged_def coalesce_def val_bump tag_bump)
qed

lemma sum_fold:
  "tagged E m \<Longrightarrow> list_all ok es \<Longrightarrow> val_sum val (\<lambda>x. P (tag x)) (fold acc es m) =
     val_sum val (\<lambda>x. P (tag x)) m + sum_list (map amount (filter (\<lambda>e. P (etag e)) es))"
proof (induction es arbitrary: E m)
  case (Cons e es)
  from Cons.IH [OF tagged_acc [OF Cons.prems(1), of e]] sum_acc [OF Cons.prems(1), of e P] Cons.prems(2)
  show ?case by simp
qed simp

lemma sum_total:
  "list_all ok es \<Longrightarrow> val_sum val (\<lambda>x. P (tag x)) (fold acc es []) =
     sum_list (map amount (filter (\<lambda>e. P (etag e)) es))"
  using sum_fold [of "{}" "[]"] by (simp add: tagged_def val_sum_def)

lemma entry_total:
  assumes "list_all ok es" "(k, x) \<in> set (fold acc es [])"
    "\<And>e e'. ok e \<Longrightarrow> ok e' \<Longrightarrow> etag e = etag e' \<Longrightarrow> key e = key e'"
  shows "val x = sum_list (map amount (filter (\<lambda>e. etag e = tag x) es))"
proof -
  have t: "tagged (set es) (fold acc es [])"
    using tagged_fold [of "{}" "[]" es] assms(1) by (simp add: tagged_def)
  then have d: "distinct (map fst (fold acc es []))" by (simp add: tagged_def)
  have uniq: "p = (k, x)" if p: "p \<in> set (fold acc es [])" "tag (snd p) = tag x" for p
  proof -
    obtain k' x' where p': "p = (k', x')" by fastforce
    from t assms(2) obtain e where e: "ok e" "key e = k" "tag x = etag e" by (fastforce simp: tagged_def)
    from t p p' obtain e' where e': "ok e'" "key e' = k'" "tag x' = etag e'" by (fastforce simp: tagged_def)
    from assms(3) [OF e(1) e'(1)] e e' p p' have "k' = k" by simp
    with p p' assms(2) d show ?thesis by (metis eq_key_imp_eq_value)
  qed
  have "distinct (fold acc es [])" using d by (simp add: distinct_map)
  then have "filter (\<lambda>p. tag (snd p) = tag x) (fold acc es []) = [(k, x)]"
    using assms(2) by (rule filter_singleton) (metis uniq snd_conv)
  then have "val_sum val (\<lambda>y. tag y = tag x) (fold acc es []) = val x"
    by (simp add: val_sum_def filter_map comp_def)
  with sum_total [OF assms(1), of "\<lambda>t. t = tag x"] show ?thesis by simp
qed

end

type_synonym node_event = "path_node \<times> flow_metrics \<times> jstring \<times> jstring"

type_synonym link_event = "(path_node \<times> path_node) \<times> flow_metrics \<times> jstring \<times> jstring"

definition new_node :: "node_event \<Rightarrow> flow_node" where
  "new_node e = (case e of (pn, m, color, colorKey) \<Rightarrow>
     \<lparr>n_id = pn_id pn, n_label = pn_label pn, n_kind = pn_kind pn, n_value = 0, n_requests = 0,
      n_quota = 0, n_tokens = 0, n_color = color, n_colorKey = colorKey,
      n_highlighted = None, n_dimmed = None\<rparr>)"

definition bump_node :: "flow_metric \<Rightarrow> node_event \<Rightarrow> flow_node \<Rightarrow> flow_node" where
  "bump_node metric e n = (case e of (pn, m, _) \<Rightarrow>
     n\<lparr>n_value := n_value n + metricValue m metric, n_requests := n_requests n + mrequests m,
       n_quota := n_quota n + mquota m, n_tokens := n_tokens n + mtokens m\<rparr>)"

definition new_link :: "link_event \<Rightarrow> flow_link" where
  "new_link e = (case e of ((s, t), m, color, colorKey) \<Rightarrow>
     \<lparr>l_source = pn_id s, l_target = pn_id t, l_value = 0, l_requests = 0, l_quota = 0, l_tokens = 0,
      l_sourceLabel = pn_label s, l_targetLabel = pn_label t, l_color = color, l_linkColor = color,
      l_linkAlpha = 1, l_hoverColor = color, l_colorKey = colorKey, l_share = 0,
      l_highlighted = None, l_dimmed = None\<rparr>)"

definition bump_link :: "flow_metric \<Rightarrow> link_event \<Rightarrow> flow_link \<Rightarrow> flow_link" where
  "bump_link metric e l = (case e of (_, m, _) \<Rightarrow>
     l\<lparr>l_value := l_value l + metricValue m metric, l_requests := l_requests l + mrequests m,
       l_quota := l_quota l + mquota m, l_tokens := l_tokens l + mtokens m\<rparr>)"

definition link_event_key :: "link_event \<Rightarrow> jstring" where
  "link_event_key e = pathLinkKey (fst (fst e)) (snd (fst e))"

text \<open>An identifier that starts with the name of its kind and a colon, without a NUL.\<close>

definition wf_node :: "path_node \<Rightarrow> bool" where
  "wf_node n \<longleftrightarrow> (\<exists>r. pn_id n = kind_name (pn_kind n) @ lit '':'' @ r) \<and> 0 \<notin> set (pn_id n)"

lemma sep_split: "c \<notin> set a \<Longrightarrow> c \<notin> set b \<Longrightarrow> a @ c # r = b @ c # r' \<Longrightarrow> a = b \<and> r = r'"
proof (induction a arbitrary: b)
  case Nil
  then show ?case by (cases b) auto
next
  case (Cons x a)
  then show ?case by (cases b) auto
qed

lemma kind_name_inj: "kind_name a = kind_name b \<longleftrightarrow> a = b"
  by (cases a; cases b) (simp_all add: kind_name_def)

lemma kind_name_no_colon: "58 \<notin> set (kind_name k)"
  by (cases k) (simp_all add: kind_name_def lit_def)

lemma wf_node_kind: "wf_node a \<Longrightarrow> wf_node b \<Longrightarrow> pn_id a = pn_id b \<Longrightarrow> pn_kind a = pn_kind b"
proof -
  assume "wf_node a" "wf_node b" "pn_id a = pn_id b"
  then obtain r r' where "kind_name (pn_kind a) @ 58 # r = kind_name (pn_kind b) @ 58 # r'"
    by (auto simp: wf_node_def lit_def)
  from sep_split [OF kind_name_no_colon kind_name_no_colon this] show ?thesis
    by (simp add: kind_name_inj)
qed

interpretation node_acc: accumulator "\<lambda>e. pn_id (fst e)" new_node "bump_node metric" n_value
    "\<lambda>e. metricValue (fst (snd e)) metric" "\<lambda>n. (n_id n, n_kind n)" "\<lambda>e. (pn_id (fst e), pn_kind (fst e))"
    "\<lambda>e. wf_node (fst e)" for metric
  by unfold_locales (auto simp: new_node_def bump_node_def split: prod.splits dest: wf_node_kind)

interpretation link_acc: accumulator link_event_key new_link "bump_link metric" l_value
    "\<lambda>e. metricValue (fst (snd e)) metric" "\<lambda>l. (l_source l, l_target l)"
    "\<lambda>e. (pn_id (fst (fst e)), pn_id (snd (fst e)))"
    "\<lambda>e. wf_node (fst (fst e)) \<and> wf_node (snd (fst e))" for metric
proof unfold_locales
  fix e e' :: link_event
  assume wf: "wf_node (fst (fst e)) \<and> wf_node (snd (fst e))" "wf_node (fst (fst e')) \<and> wf_node (snd (fst e'))"
    and k: "link_event_key e = link_event_key e'"
  from wf have "0 \<notin> set (pn_id (fst (fst e)))" "0 \<notin> set (pn_id (fst (fst e')))"
    by (simp_all add: wf_node_def)
  from sep_split [OF this] k
  show "(pn_id (fst (fst e)), pn_id (snd (fst e))) = (pn_id (fst (fst e')), pn_id (snd (fst e')))"
    unfolding link_event_key_def pathLinkKey_def by simp
qed (auto simp: new_link_def bump_link_def split: prod.splits)

lemma addNode_acc: "addNode metric n m c k = node_acc.acc metric (n, m, c, k)"
  by (rule ext) (simp add: addNode_def node_acc.acc_def new_node_def bump_node_def Let_def)

lemma addLink_acc: "addLink metric s t m c k = link_acc.acc metric ((s, t), m, c, k)"
  by (rule ext) (simp add: addLink_def link_acc.acc_def new_link_def bump_link_def link_event_key_def
      pathLinkKey_def Let_def)

subsection \<open>The maps as totals over paths\<close>

definition path_root :: "prepared \<Rightarrow> jstring" where
  "path_root p = (case fst p of [] \<Rightarrow> [] | n # _ \<Rightarrow> pn_id n)"

definition node_events :: "(jstring \<Rightarrow> jstring) \<Rightarrow> prepared list \<Rightarrow> node_event list" where
  "node_events color ps = concat (map (\<lambda>p. map (\<lambda>n. (n, snd p, color (path_root p), path_root p)) (fst p)) ps)"

definition link_events :: "(jstring \<Rightarrow> jstring) \<Rightarrow> prepared list \<Rightarrow> link_event list" where
  "link_events color ps =
     concat (map (\<lambda>p. map (\<lambda>st. (st, snd p, color (path_root p), path_root p)) (path_links (fst p))) ps)"

lemma add_path_events:
  "add_path metric color p (N, L) =
     (fold (node_acc.acc metric) (node_events color [p]) N, fold (link_acc.acc metric) (link_events color [p]) L)"
proof -
  have pair: "(\<lambda>(s, t). link_acc.acc metric ((s, t), x)) = (\<lambda>st. link_acc.acc metric (st, x))" for x
    by auto
  show ?thesis
    by (cases "fst p") (simp_all add: add_path_def node_events_def link_events_def path_root_def path_links_def
        addNode_acc addLink_acc fold_map comp_def pair Let_def)
qed

lemma add_paths_events:
  "fold (add_path metric color) ps (N, L) =
     (fold (node_acc.acc metric) (node_events color ps) N, fold (link_acc.acc metric) (link_events color ps) L)"
proof (induction ps arbitrary: N L)
  case (Cons p ps)
  have "node_events color (p # ps) = node_events color [p] @ node_events color ps"
    "link_events color (p # ps) = link_events color [p] @ link_events color ps"
    by (simp_all add: node_events_def link_events_def)
  with Cons show ?case by (simp add: add_path_events)
qed (simp add: node_events_def link_events_def)

text \<open>The sum of the metric over paths, each weighted.\<close>

definition path_sum :: "flow_metric \<Rightarrow> (path_node list \<Rightarrow> nat) \<Rightarrow> prepared list \<Rightarrow> rat" where
  "path_sum metric w ps = sum_list (map (\<lambda>p. of_nat (w (fst p)) * metricValue (snd p) metric) ps)"

lemma sum_const: "sum_list (map (\<lambda>_. c) xs) = of_nat (length xs) * (c :: rat)"
  by (induction xs) (simp_all add: algebra_simps)

lemma node_events_sum:
  "sum_list (map (\<lambda>e. metricValue (fst (snd e)) metric) (filter (\<lambda>e. P (pn_id (fst e), pn_kind (fst e))) (node_events color ps)))
   = path_sum metric (\<lambda>path. length (filter (\<lambda>n. P (pn_id n, pn_kind n)) path)) ps"
  by (induction ps)
    (simp_all add: node_events_def path_sum_def filter_map comp_def sum_const)

lemma link_events_sum:
  "sum_list (map (\<lambda>e. metricValue (fst (snd e)) metric)
     (filter (\<lambda>e. P (pn_id (fst (fst e)), pn_id (snd (fst e)))) (link_events color ps)))
   = path_sum metric (\<lambda>path. length (filter (\<lambda>(s, t). P (pn_id s, pn_id t)) (path_links path))) ps"
  by (induction ps)
    (simp_all add: link_events_def path_sum_def filter_map comp_def sum_const case_prod_beta)

lemma zip_tl_fst: "map fst (zip xs (tl xs)) = butlast xs"
  by (cases xs) (simp_all add: map_fst_zip_take butlast_conv_take)

lemma zip_tl_snd: "map snd (zip xs (tl xs)) = tl xs"
  by (cases xs) (simp_all add: map_snd_zip_take)

lemma length_filter_fst: "length (filter (\<lambda>(s, t). P s) (path_links path)) = length (filter P (butlast path))"
  by (simp add: path_links_def case_prod_unfold filter_map comp_def flip: zip_tl_fst)

lemma length_filter_snd: "length (filter (\<lambda>(s, t). P t) (path_links path)) = length (filter P (tl path))"
proof -
  have "length (filter P (map snd (zip path (tl path)))) = length (filter (\<lambda>(s, t). P t) (path_links path))"
    by (simp add: path_links_def case_prod_unfold filter_map comp_def)
  then show ?thesis by (simp only: zip_tl_snd)
qed

definition wf_path :: "node_kind list \<Rightarrow> path_node list \<Rightarrow> bool" where
  "wf_path stages path \<longleftrightarrow> map pn_kind path = stages \<and> list_all wf_node path"

definition node_count :: "jstring \<Rightarrow> path_node list \<Rightarrow> nat" where
  "node_count i path = length (filter (\<lambda>n. pn_id n = i) path)"

lemma in_links_count:
  assumes "wf_path stages path" "wf_node n" "stages \<noteq> []" "pn_kind n \<noteq> hd stages"
  shows "length (filter (\<lambda>(s, t). pn_id t = pn_id n) (path_links path)) = node_count (pn_id n) path"
proof (cases path)
  case (Cons a p)
  with assms have "pn_kind a = hd stages" "wf_node a" by (auto simp: wf_path_def)
  with assms wf_node_kind [of a n] have "pn_id a \<noteq> pn_id n" by auto
  with Cons length_filter_snd [of "\<lambda>t. pn_id t = pn_id n" path] show ?thesis
    by (simp add: node_count_def)
qed (use assms in \<open>simp add: wf_path_def\<close>)

lemma out_links_count:
  assumes "wf_path stages path" "wf_node n" "stages \<noteq> []" "pn_kind n \<noteq> last stages"
  shows "length (filter (\<lambda>(s, t). pn_id s = pn_id n) (path_links path)) = node_count (pn_id n) path"
proof (cases path rule: rev_cases)
  case (snoc p a)
  with assms have "pn_kind a = last stages" "wf_node a" by (auto simp: wf_path_def)
  with assms wf_node_kind [of a n] have "pn_id a \<noteq> pn_id n" by auto
  with snoc length_filter_fst [of "\<lambda>t. pn_id t = pn_id n" path] show ?thesis
    by (simp add: node_count_def)
qed (use assms in \<open>simp add: wf_path_def\<close>)

lemma path_sum_cong: "(\<And>p. p \<in> set ps \<Longrightarrow> w (fst p) = w' (fst p)) \<Longrightarrow> path_sum metric w ps = path_sum metric w' ps"
  unfolding path_sum_def by (induction ps) simp_all

subsection \<open>Well-formed paths\<close>

text \<open>Names in the rows contain no NUL, which separates the two ends in the key of a link.\<close>

definition rows_ok :: "node_kind list \<Rightarrow> (int \<Rightarrow> jstring) option \<Rightarrow> flow_row list \<Rightarrow> bool" where
  "rows_ok stages ctx rows \<longleftrightarrow>
     list_all (\<lambda>row. list_all (\<lambda>n. 0 \<notin> set (pn_id n)) (flowPathForStages row stages ctx)) rows"

lemma node_builder_kind [simp]: "pn_kind (node_builder ctx k row) = k"
  by (cases k) (simp_all add: node_builder_def userNode_def nodeNameNode_def tokenNode_def groupNode_def
      modelNode_def channelNode_def Let_def)

lemma node_builder_prefix: "\<exists>r. pn_id (node_builder ctx k row) = kind_name k @ lit '':'' @ r"
proof -
  have "lit ''user:'' = lit ''user'' @ lit '':''" "lit ''node:'' = lit ''node'' @ lit '':''"
    "lit ''token:'' = lit ''token'' @ lit '':''" "lit ''group:'' = lit ''group'' @ lit '':''"
    "lit ''model:'' = lit ''model'' @ lit '':''" "lit ''channel:'' = lit ''channel'' @ lit '':''"
    by (simp_all add: lit_def)
  then show ?thesis
    by (cases k) (simp_all add: node_builder_def kind_name_def userNode_def nodeNameNode_def tokenNode_def
        groupNode_def modelNode_def channelNode_def Let_def)
qed

lemma other_node_wf: "wf_node (otherFlowNode k labeler)"
  by (cases k) (auto simp: wf_node_def otherFlowNode_def other_node_id_def kind_name_def lit_def)

lemma other_node_kind [simp]: "pn_kind (otherFlowNode k labeler) = k"
  by (simp add: otherFlowNode_def)

lemma flow_path_wf: "rows_ok stages ctx rows \<Longrightarrow> row \<in> set rows \<Longrightarrow> wf_path stages (flowPathForStages row stages ctx)"
  using node_builder_prefix [of ctx _ row]
  by (auto simp: wf_path_def rows_ok_def list_all_iff flowPathForStages_def comp_def wf_node_def)

lemma limited_path_wf:
  "wf_path stages path \<Longrightarrow> applyTopNodeLimit path sets mode labeler = Some path' \<Longrightarrow> wf_path stages path'"
  by (auto simp: applyTopNodeLimit_def wf_path_def list_all_iff other_node_wf other_node_kind split: if_splits)

lemma prepared_wf:
  assumes "rows_ok stages ctx rows" "p \<in> set (prepare_paths rows stages ctx sets mode labeler)"
  shows "wf_path stages (fst p)"
  using assms flow_path_wf limited_path_wf
  by (fastforce simp: prepare_paths_def map_filter_def)

lemma stages_distinct: "distinct (resolveVisibleStages role vis)" "length (resolveVisibleStages role vis) \<ge> 2"
  by (cases role; auto simp: resolveVisibleStages_def getFlowStages_def Let_def split: option.split)+

lemma stages_not_Nil: "resolveVisibleStages role vis \<noteq> []"
  using stages_distinct(2) [of role vis] by auto

subsection \<open>What the last steps keep\<close>

definition node_core :: "flow_node \<Rightarrow> jstring \<times> node_kind \<times> rat" where
  "node_core n = (n_id n, n_kind n, n_value n)"

definition link_core :: "flow_link \<Rightarrow> jstring \<times> jstring \<times> rat" where
  "link_core l = (l_source l, l_target l, l_value l)"

text \<open>The paths that a graph is built from.\<close>

definition graph_paths ::
    "(jstring \<Rightarrow> jstring \<Rightarrow> int) \<Rightarrow> flow_row list \<Rightarrow> flow_metric \<Rightarrow> node_kind list \<Rightarrow> (int \<Rightarrow> jstring) option
      \<Rightarrow> graph_options \<Rightarrow> prepared list" where
  "graph_paths lc rows metric stages ctx opts =
     prepare_paths rows stages ctx
       (buildTopNodeSets lc rows metric stages (normalizeTopNodeLimit (topNodeLimit opts)) ctx)
       (coalesce (overflowMode opts) Aggregate) (otherNodeLabel opts)"

lemma mask_core:
  "map (node_core \<circ> snd) (fst (maskFlowGraphLabels N L)) = map (node_core \<circ> snd) N"
  "map (link_core \<circ> snd) (snd (maskFlowGraphLabels N L)) = map (link_core \<circ> snd) L"
  by (auto simp: maskFlowGraphLabels_def Let_def node_core_def link_core_def)

lemma highlight_core:
  "map node_core (fst (applyFlowHighlights h g)) = map node_core (fst g)"
  "map link_core (snd (applyFlowHighlights h g)) = map link_core (snd g)"
  by (auto simp: applyFlowHighlights_def node_core_def link_core_def split: option.split)

lemma shares_core: "map link_core (set_shares xs ls) = map link_core ls"
  by (simp add: set_shares_def Let_def link_core_def)

lemma colors_core: "map link_core (assignLinkDisplayColors lc ls) = map link_core ls"
  by (simp add: assignLinkDisplayColors_def Let_def link_core_def comp_def case_prod_unfold)

lemma mset_map_sort: "mset (map f (js_sort cmp xs)) = mset (map f xs)"
  by simp

lemma buildFlowGraph_core:
  assumes "ps = graph_paths lc rows metric (resolveVisibleStages role vis) ctx opts"
  shows "\<exists>color. mset (map node_core (g_nodes (buildFlowGraph lc scheme rows metric role palette vis ctx opts))) =
      mset (map (node_core \<circ> snd) (fold (node_acc.acc metric) (node_events color ps) []))
    \<and> mset (map link_core (g_links (buildFlowGraph lc scheme rows metric role palette vis ctx opts))) =
      mset (map (link_core \<circ> snd) (fold (link_acc.acc metric) (link_events color ps) []))"
proof -
  define color where "color = (\<lambda>i. coalesce (map_of (stableColorMap scheme (js_sort lc (first_ids ps)) palette) i)
    (colorAt scheme 0 palette))"
  let ?m = "fold (add_path metric color) ps ([], [])"
  let ?masked = "if maskSensitive opts then maskFlowGraphLabels (fst ?m) (snd ?m) else ?m"
  have "map (node_core \<circ> snd) (fst ?masked) = map (node_core \<circ> snd) (fst ?m)"
    "map (link_core \<circ> snd) (snd ?masked) = map (link_core \<circ> snd) (snd ?m)"
    using mask_core by auto
  then show ?thesis
    using highlight_core
    unfolding buildFlowGraph_def Let_def assms [unfolded graph_paths_def, symmetric] color_def [symmetric]
    by (intro exI [of _ color])
      (simp add: case_prod_unfold mset_map_sort colors_core shares_core add_paths_events comp_def
        del: mset_map)
qed

lemma sum_core:
  assumes "mset (map core xs) = mset (map core ys)" "\<And>x. f x = f' (core x)" "\<And>x. Q x = Q' (core x)"
  shows "sum_list (map f (filter Q xs)) = (sum_list (map f (filter Q ys)) :: rat)"
proof -
  have "sum_list (map f (filter Q zs)) = sum_mset (image_mset f' (filter_mset Q' (mset (map core zs))))" for zs
    by (induction zs) (simp_all add: assms(2,3))
  with assms(1) show ?thesis by simp
qed

lemma node_events_ok: "\<forall>p \<in> set ps. wf_path stages (fst p) \<Longrightarrow> list_all (\<lambda>e. wf_node (fst e)) (node_events color ps)"
  by (auto simp: node_events_def wf_path_def list_all_iff)

lemma path_links_nodes: "(s, t) \<in> set (path_links path) \<Longrightarrow> s \<in> set path \<and> t \<in> set path"
  by (cases path) (auto simp: path_links_def dest: set_zip_leftD set_zip_rightD)

lemma link_events_ok:
  "\<forall>p \<in> set ps. wf_path stages (fst p) \<Longrightarrow>
     list_all (\<lambda>e. wf_node (fst (fst e)) \<and> wf_node (snd (fst e))) (link_events color ps)"
  by (auto simp: link_events_def list_all_iff wf_path_def dest: path_links_nodes)

text \<open>Totals of a graph over its nodes and links are totals over its paths.\<close>

lemma graph_link_sum:
  assumes "rows_ok (resolveVisibleStages role vis) ctx rows"
    and "ps = graph_paths lc rows metric (resolveVisibleStages role vis) ctx opts"
  shows "sum_list (map l_value (filter (\<lambda>l. P (l_source l, l_target l))
      (g_links (buildFlowGraph lc scheme rows metric role palette vis ctx opts)))) =
    path_sum metric (\<lambda>path. length (filter (\<lambda>(s, t). P (pn_id s, pn_id t)) (path_links path))) ps"
proof -
  let ?G = "buildFlowGraph lc scheme rows metric role palette vis ctx opts"
  from buildFlowGraph_core [OF assms(2), of scheme palette] obtain color where
    m: "mset (map link_core (g_links ?G)) =
      mset (map link_core (map snd (fold (link_acc.acc metric) (link_events color ps) [])))"
    by (auto simp: comp_def)
  have "\<forall>p \<in> set ps. wf_path (resolveVisibleStages role vis) (fst p)"
    using prepared_wf [OF assms(1)] unfolding assms(2) graph_paths_def by blast
  note ok = link_events_ok [OF this, of color]
  have "sum_list (map l_value (filter (\<lambda>l. P (l_source l, l_target l)) (g_links ?G))) =
      val_sum l_value (\<lambda>l. P (l_source l, l_target l)) (fold (link_acc.acc metric) (link_events color ps) [])"
    unfolding val_sum_def
    by (rule sum_core [OF m, of _ "\<lambda>(s, t, v). v" _ "\<lambda>(s, t, v). P (s, t)"]) (simp_all add: link_core_def)
  also have "\<dots> = path_sum metric (\<lambda>path. length (filter (\<lambda>(s, t). P (pn_id s, pn_id t)) (path_links path))) ps"
    using link_acc.sum_total [OF ok, of P metric] link_events_sum [of metric P color ps] by simp
  finally show ?thesis .
qed

lemma graph_node_sum:
  assumes "rows_ok (resolveVisibleStages role vis) ctx rows"
    and "ps = graph_paths lc rows metric (resolveVisibleStages role vis) ctx opts"
  shows "sum_list (map n_value (filter (\<lambda>n. P (n_id n, n_kind n))
      (g_nodes (buildFlowGraph lc scheme rows metric role palette vis ctx opts)))) =
    path_sum metric (\<lambda>path. length (filter (\<lambda>n. P (pn_id n, pn_kind n)) path)) ps"
proof -
  let ?G = "buildFlowGraph lc scheme rows metric role palette vis ctx opts"
  from buildFlowGraph_core [OF assms(2), of scheme palette] obtain color where
    m: "mset (map node_core (g_nodes ?G)) =
      mset (map node_core (map snd (fold (node_acc.acc metric) (node_events color ps) [])))"
    by (auto simp: comp_def)
  have "\<forall>p \<in> set ps. wf_path (resolveVisibleStages role vis) (fst p)"
    using prepared_wf [OF assms(1)] unfolding assms(2) graph_paths_def by blast
  note ok = node_events_ok [OF this, of color]
  have "sum_list (map n_value (filter (\<lambda>n. P (n_id n, n_kind n)) (g_nodes ?G))) =
      val_sum n_value (\<lambda>n. P (n_id n, n_kind n)) (fold (node_acc.acc metric) (node_events color ps) [])"
    unfolding val_sum_def
    by (rule sum_core [OF m, of _ "\<lambda>(i, k, v). v" _ "\<lambda>(i, k, v). P (i, k)"]) (simp_all add: node_core_def)
  also have "\<dots> = path_sum metric (\<lambda>path. length (filter (\<lambda>n. P (pn_id n, pn_kind n)) path)) ps"
    using node_acc.sum_total [OF ok, of P metric] node_events_sum [of metric P color ps] by simp
  finally show ?thesis .
qed

lemma graph_node:
  assumes "rows_ok (resolveVisibleStages role vis) ctx rows"
    and "ps = graph_paths lc rows metric (resolveVisibleStages role vis) ctx opts"
    and "n \<in> set (g_nodes (buildFlowGraph lc scheme rows metric role palette vis ctx opts))"
  shows "\<exists>pn. wf_node pn \<and> pn_id pn = n_id n \<and> pn_kind pn = n_kind n \<and> pn \<in> (\<Union>p \<in> set ps. set (fst p))
    \<and> n_value n = path_sum metric (node_count (n_id n)) ps"
proof -
  let ?G = "buildFlowGraph lc scheme rows metric role palette vis ctx opts"
  from buildFlowGraph_core [OF assms(2), of scheme palette] obtain color where
    m: "mset (map node_core (g_nodes ?G)) =
      mset (map (node_core \<circ> snd) (fold (node_acc.acc metric) (node_events color ps) []))" by blast
  have wf: "\<forall>p \<in> set ps. wf_path (resolveVisibleStages role vis) (fst p)"
    using prepared_wf [OF assms(1)] unfolding assms(2) graph_paths_def by blast
  note ok = node_events_ok [OF wf, of color]
  have "node_core n \<in> set (map (node_core \<circ> snd) (fold (node_acc.acc metric) (node_events color ps) []))"
    using assms(3) mset_eq_setD [OF m] by auto
  then obtain k x where x: "(k, x) \<in> set (fold (node_acc.acc metric) (node_events color ps) [])"
      "n_id x = n_id n" "n_kind x = n_kind n" "n_value x = n_value n"
    by (auto simp: node_core_def)
  have "node_acc.tagged (set (node_events color ps)) (fold (node_acc.acc metric) (node_events color ps) [])"
    using node_acc.tagged_fold [of "{}" "[]" "node_events color ps" metric] ok by (simp add: node_acc.tagged_def)
  with x(1) obtain e where e: "e \<in> set (node_events color ps)" "wf_node (fst e)"
      "(n_id x, n_kind x) = (pn_id (fst e), pn_kind (fst e))"
    unfolding node_acc.tagged_def by blast
  have "n_value x = sum_list (map (\<lambda>e. metricValue (fst (snd e)) metric)
      (filter (\<lambda>e. (pn_id (fst e), pn_kind (fst e)) = (n_id x, n_kind x)) (node_events color ps)))"
    by (rule node_acc.entry_total [OF ok x(1)]) simp
  also have "\<dots> = path_sum metric (\<lambda>path. length (filter (\<lambda>m. (pn_id m, pn_kind m) = (n_id x, n_kind x)) path)) ps"
    by (rule node_events_sum)
  also have "\<dots> = path_sum metric (node_count (n_id n)) ps"
  proof (rule path_sum_cong)
    fix p assume "p \<in> set ps"
    then have "wf_node m" if "m \<in> set (fst p)" for m
      using wf that by (auto simp: wf_path_def list_all_iff)
    then have "((pn_id m, pn_kind m) = (n_id x, n_kind x)) = (pn_id m = n_id n)" if "m \<in> set (fst p)" for m
      using that wf_node_kind [of m "fst e"] e x(2) by auto
    then show "length (filter (\<lambda>m. (pn_id m, pn_kind m) = (n_id x, n_kind x)) (fst p)) = node_count (n_id n) (fst p)"
      unfolding node_count_def by (intro arg_cong [of _ _ length] filter_cong) auto
  qed
  finally show ?thesis
    using e x by (intro exI [of _ "fst e"]) (force simp: node_events_def)
qed

lemma graph_ids_distinct:
  assumes "rows_ok (resolveVisibleStages role vis) ctx rows"
  shows "distinct (map n_id (g_nodes (buildFlowGraph lc scheme rows metric role palette vis ctx opts)))"
proof -
  let ?G = "buildFlowGraph lc scheme rows metric role palette vis ctx opts"
  define ps where "ps = graph_paths lc rows metric (resolveVisibleStages role vis) ctx opts"
  from buildFlowGraph_core [OF ps_def, of scheme palette] obtain color where
    m: "mset (map node_core (g_nodes ?G)) =
      mset (map (node_core \<circ> snd) (fold (node_acc.acc metric) (node_events color ps) []))" by blast
  let ?M = "fold (node_acc.acc metric) (node_events color ps) []"
  have "\<forall>p \<in> set ps. wf_path (resolveVisibleStages role vis) (fst p)"
    using prepared_wf [OF assms(1)] unfolding ps_def graph_paths_def by blast
  then have t: "node_acc.tagged (set (node_events color ps)) ?M"
    using node_acc.tagged_fold [of "{}" "[]" "node_events color ps" metric] node_events_ok
    by (simp add: node_acc.tagged_def)
  then have eq: "map (n_id \<circ> snd) ?M = map fst ?M"
    unfolding node_acc.tagged_def by (intro map_cong) auto
  have "distinct (map (n_id \<circ> snd) ?M)" using t unfolding eq by (simp add: node_acc.tagged_def)
  moreover have "mset (map n_id (g_nodes ?G)) = mset (map (n_id \<circ> snd) ?M)"
    using arg_cong [OF m, of "image_mset fst"] by (simp add: node_core_def image_mset.compositionality comp_def)
  ultimately show ?thesis by (metis mset_eq_imp_distinct_iff)
qed

subsection \<open>Properties\<close>


fun code_unit_cmp :: "jstring \<Rightarrow> jstring \<Rightarrow> int" where
  "code_unit_cmp [] [] = 0"
| "code_unit_cmp [] (b # bs) = - 1"
| "code_unit_cmp (a # as) [] = 1"
| "code_unit_cmp (a # as) (b # bs) = (if a < b then - 1 else if b < a then 1 else code_unit_cmp as bs)"

text \<open>Two tokens of one group that use one model.\<close>

definition sample_row :: "int \<Rightarrow> rat \<Rightarrow> flow_row" where
  "sample_row token q =
     \<lparr>user_id = Some 7, username = Some (lit ''ann''), node_name = None, use_group = Some (lit ''g''),
      token_id = Some token, token_name = None, channel_id = None, channel_name = None,
      model_name = Some (lit ''m''), token_used = None, row_count = Some (Fin 1), row_quota = Some (Fin q)\<rparr>"

definition sample_rows :: "flow_row list" where
  "sample_rows = [sample_row 1 2, sample_row 2 3]"

definition sample_opts :: "jnum option \<Rightarrow> bool \<Rightarrow> graph_options" where
  "sample_opts limit masked = \<lparr>topNodeLimit = limit, overflowMode = None, otherNodeLabel = None,
     activeNode = None, activeLink = None, maskSensitive = masked\<rparr>"

definition sample_graph :: "jnum option \<Rightarrow> bool \<Rightarrow> flow_graph" where
  "sample_graph limit masked = buildFlowGraph code_unit_cmp (\<lambda>_. []) sample_rows Metric_quota Flow_user None None None
     (sample_opts limit masked)"

lemma sample_rows_ok: "rows_ok (resolveVisibleStages Flow_user None) None sample_rows"
  by code_simp


lemma summary_metric:
  "metricValue (buildSummary rows) metric = sum_list (map (\<lambda>row. metricValue (rowMetrics row) metric) rows)"
proof -
  let ?step = "\<lambda>summary row. let m = rowMetrics row
        in \<lparr>mquota = mquota summary + mquota m, mtokens = mtokens summary + mtokens m,
            mrequests = mrequests summary + mrequests m\<rparr>"
  have "metricValue (foldl ?step a rows) metric =
      metricValue a metric + sum_list (map (\<lambda>row. metricValue (rowMetrics row) metric) rows)" for a
    by (induction rows arbitrary: a) (simp_all add: Let_def metricValue_def split: flow_metric.split)
  then show ?thesis by (simp add: buildSummary_def metricValue_def split: flow_metric.split)
qed

lemma map_filter_total:
  "(\<And>x. \<exists>y. f x = Some y \<and> h y = g x) \<Longrightarrow> map h (List.map_filter f xs) = map g xs"
proof (induction xs)
  case (Cons x xs)
  from Cons.prems [of x] obtain y where "f x = Some y" "h y = g x" by blast
  with Cons show ?case by (simp add: map_filter_simps)
qed (simp add: map_filter_simps)

lemma all_paths_kept:
  assumes "coalesce (overflowMode opts) Aggregate = Aggregate \<or> normalizeTopNodeLimit (topNodeLimit opts) = None"
  shows "map snd (graph_paths lc rows metric stages ctx opts) = map rowMetrics rows"
proof -
  let ?sets = "buildTopNodeSets lc rows metric stages (normalizeTopNodeLimit (topNodeLimit opts)) ctx"
  have "\<exists>p. applyTopNodeLimit path ?sets (coalesce (overflowMode opts) Aggregate) labeler = Some p" for path labeler
    using assms by (auto simp: applyTopNodeLimit_def buildTopNodeSets_def)
  then have "map snd (prepare_paths rs stages ctx ?sets (coalesce (overflowMode opts) Aggregate) labeler) =
      map rowMetrics rs" for rs labeler
    unfolding prepare_paths_def by (intro map_filter_total) fastforce
  then show ?thesis by (simp add: graph_paths_def)
qed

text \<open>
  C14. The columns of the flow graph agree: the values of the nodes of every column add up to the sum of
  the metric over the rows that are kept. Without a limit on the nodes, or when the nodes beyond it are
  aggregated, all rows are kept and the sum is the total of the summary; when they are hidden, the rows
  with such a node are left out of every column alike.
\<close>

theorem flow_column_totals:
  assumes "rows_ok (resolveVisibleStages role vis) ctx rows" "k \<in> set (resolveVisibleStages role vis)"
  shows "sum_list (map n_value (filter (\<lambda>n. n_kind n = k)
      (g_nodes (buildFlowGraph lc scheme rows metric role palette vis ctx opts)))) =
    sum_list (map (\<lambda>(path, m). metricValue m metric)
      (graph_paths lc rows metric (resolveVisibleStages role vis) ctx opts)) \<and>
    (coalesce (overflowMode opts) Aggregate = Aggregate \<or> normalizeTopNodeLimit (topNodeLimit opts) = None \<longrightarrow>
      sum_list (map (\<lambda>(path, m). metricValue m metric)
        (graph_paths lc rows metric (resolveVisibleStages role vis) ctx opts)) =
      metricValue (buildSummary rows) metric)"
proof -
  let ?stages = "resolveVisibleStages role vis"
  define ps where "ps = graph_paths lc rows metric ?stages ctx opts"
  have "length (filter (\<lambda>n. pn_kind n = k) (fst p)) = 1" if "p \<in> set ps" for p
  proof -
    have "wf_path ?stages (fst p)"
      using prepared_wf [OF assms(1)] that unfolding ps_def graph_paths_def by blast
    then have "?stages = map pn_kind (fst p)" by (simp add: wf_path_def)
    then have "length (filter (\<lambda>n. pn_kind n = k) (fst p)) = length (filter (\<lambda>s. s = k) ?stages)"
      by (simp add: filter_map comp_def)
    also have "filter (\<lambda>s. s = k) ?stages = [k]"
      by (rule filter_singleton [OF stages_distinct(1) assms(2)]) simp
    finally show ?thesis by simp
  qed
  then have "path_sum metric (\<lambda>path. length (filter (\<lambda>n. pn_kind n = k) path)) ps = path_sum metric (\<lambda>_. 1) ps"
    by (rule path_sum_cong)
  also have "\<dots> = sum_list (map (\<lambda>(path, m). metricValue m metric) ps)"
    by (simp add: path_sum_def split_def)
  finally have "sum_list (map n_value (filter (\<lambda>n. n_kind n = k)
      (g_nodes (buildFlowGraph lc scheme rows metric role palette vis ctx opts)))) =
    sum_list (map (\<lambda>(path, m). metricValue m metric) ps)"
    using graph_node_sum [OF assms(1) ps_def, of "\<lambda>(i, k'). k' = k" scheme palette] by simp
  moreover have "sum_list (map (\<lambda>(path, m). metricValue m metric) ps) = metricValue (buildSummary rows) metric"
    if kept: "coalesce (overflowMode opts) Aggregate = Aggregate \<or> normalizeTopNodeLimit (topNodeLimit opts) = None"
  proof -
    have "sum_list (map (\<lambda>(path, m). metricValue m metric) ps) = sum_list (map (\<lambda>m. metricValue m metric) (map snd ps))"
      by (simp add: split_def comp_def)
    also have "\<dots> = metricValue (buildSummary rows) metric"
      unfolding ps_def all_paths_kept [OF kept] by (simp add: summary_metric comp_def)
    finally show ?thesis .
  qed
  ultimately show ?thesis
    unfolding ps_def by blast
qed

theorem flow_column_totals_witness:
  "sum_list (map n_value (filter (\<lambda>n. n_kind n = K_token) (g_nodes (sample_graph (Some (Fin 1)) False)))) = 5"
proof -
  have "K_token \<in> set (resolveVisibleStages Flow_user None)" "metricValue (buildSummary sample_rows) Metric_quota = 5"
    "coalesce (overflowMode (sample_opts (Some (Fin 1)) False)) Aggregate = Aggregate"
    by code_simp+
  with flow_column_totals [OF sample_rows_ok] show ?thesis unfolding sample_graph_def by metis
qed

end
