(* ===== verification/Flow_Display.thy ===== *)
theory Flow_Display
  imports Flow_Graph
begin

section \<open>Shares, limit and mask of the flow graph\<close>

text \<open>
  What the graph of \<open>Flow_Graph\<close> shows: the shares of the first column, the limit on the nodes of a
  column, and the mask that hides sensitive names.
\<close>

subsection \<open>The limit on nodes\<close>

lemma update_keys: "k \<in> set (map fst m) \<Longrightarrow> map fst (AList.update k v m) = map fst m"
  by (auto simp: fst_update)

lemma add_rank_keys: "map fst (add_rank v n totals) = map fst totals"
proof (cases "map_of totals (pn_kind n)")
  case None
  then show ?thesis by (simp add: add_rank_def)
next
  case (Some st)
  then have "pn_kind n \<in> set (map fst totals)" by (force dest: map_of_SomeD)
  with Some show ?thesis by (simp add: add_rank_def Let_def update_keys del: set_map)
qed

lemma fold_keys: "(\<And>x m. map fst (f x m) = map fst m) \<Longrightarrow> map fst (fold f xs m) = map fst m"
  by (induction xs arbitrary: m) simp_all

lemma initial_totals_keys: "distinct stages \<Longrightarrow> set stages \<inter> set (map fst m) = {} \<Longrightarrow>
    map fst (fold (\<lambda>stage t. AList.update stage [] t) stages m) = map fst m @ stages"
proof (induction stages arbitrary: m)
  case (Cons s ss)
  then have "s \<notin> fst ` set m" by auto
  then have "map fst (AList.update s [] m) = map fst m @ [s]" by (simp add: fst_update)
  with Cons show ?case by (auto simp del: set_map)
qed simp

lemma top_sets:
  assumes "distinct stages" "buildTopNodeSets lc rows metric stages (Some n) ctx = Some sets" "k \<in> set stages"
  shows "\<exists>ids. map_of sets k = Some ids \<and> length ids \<le> n"
proof -
  define totals where "totals = fold (\<lambda>row t. fold (add_rank (metricValue (rowMetrics row) metric))
    (flowPathForStages row stages ctx) t) rows (fold (\<lambda>stage t. AList.update stage [] t) stages [])"
  have "map fst totals = stages"
    unfolding totals_def using initial_totals_keys [OF assms(1), of "[]"]
    by (simp add: fold_keys add_rank_keys)
  moreover have "sets = map (\<lambda>(kind, stageTotals). (kind, uniq (map (\<lambda>r. pn_id (rank_node r))
      (take n (js_sort (rank_cmp lc) (map snd stageTotals)))))) totals"
    using assms(2) by (simp add: buildTopNodeSets_def totals_def Let_def)
  ultimately have keys: "map fst sets = stages"
    and len: "\<forall>p \<in> set sets. \<exists>xs. snd p = uniq xs \<and> length xs \<le> n"
    by (auto simp: comp_def case_prod_unfold)
  obtain ids where ids: "map_of sets k = Some ids"
    using assms(3) keys by (metis map_of_eq_None_iff not_None_eq set_map)
  with len obtain xs where "ids = uniq xs" "length xs \<le> n" by (fastforce dest!: map_of_SomeD)
  moreover have "length (uniq xs) \<le> length xs" for xs :: "jstring list"
    by (induction xs) (auto intro: le_trans [OF length_filter_le])
  ultimately show ?thesis using ids le_trans by blast
qed

lemma limited_path_ids:
  assumes "wf_path stages path" "applyTopNodeLimit path (Some sets) mode labeler = Some path'"
    and "m \<in> set path'" "map_of sets (pn_kind m) = Some ids"
  shows "pn_id m \<in> set ids \<or> (mode = Aggregate \<and> pn_id m = other_node_id (pn_kind m))"
  using assms
  by (cases mode) (auto simp: applyTopNodeLimit_def isTopFlowNode_def list_ex_iff otherFlowNode_def
      split: if_splits option.splits)

text \<open>
  C15. A limit bounds every column of the graph: at most as many nodes as it says when the others are hidden, and one
  more, the node for all others, when they are aggregated.
\<close>

theorem flow_column_limit:
  assumes "rows_ok (resolveVisibleStages role vis) ctx rows" "k \<in> set (resolveVisibleStages role vis)"
    and "normalizeTopNodeLimit (topNodeLimit opts) = Some n"
  shows "length (filter (\<lambda>x. n_kind x = k) (g_nodes (buildFlowGraph lc scheme rows metric role palette vis ctx opts)))
    \<le> (if overflowMode opts = Some Hide then n else n + 1)"
proof -
  let ?stages = "resolveVisibleStages role vis" and ?G = "buildFlowGraph lc scheme rows metric role palette vis ctx opts"
  let ?mode = "coalesce (overflowMode opts) Aggregate"
  define ps where "ps = graph_paths lc rows metric ?stages ctx opts"
  obtain sets where sets: "buildTopNodeSets lc rows metric ?stages (Some n) ctx = Some sets"
    by (simp add: buildTopNodeSets_def Let_def)
  obtain ids where ids: "map_of sets k = Some ids" "length ids \<le> n"
    using top_sets [OF stages_distinct(1) sets assms(2)] by blast
  let ?A = "set ids \<union> (if ?mode = Aggregate then {other_node_id k} else {})"
  have "card (set ids) \<le> n" using ids(2) card_length le_trans by blast
  then have card: "card ?A \<le> (if overflowMode opts = Some Hide then n else n + 1)"
    by (cases "overflowMode opts"; cases "the (overflowMode opts)")
      (auto simp: coalesce_def card_insert_if)
  have sub: "n_id x \<in> ?A" if x: "x \<in> set (g_nodes ?G)" "n_kind x = k" for x
  proof -
    from graph_node [OF assms(1) ps_def x(1)] obtain pn p where
      pn: "pn_id pn = n_id x" "pn_kind pn = k" "p \<in> set ps" "pn \<in> set (fst p)" using x(2) by blast
    from pn(3) obtain row where row: "row \<in> set rows"
        "applyTopNodeLimit (flowPathForStages row ?stages ctx) (Some sets) ?mode (otherNodeLabel opts) = Some (fst p)"
      unfolding ps_def graph_paths_def prepare_paths_def assms(3) sets by (auto simp: map_filter_def)
    from limited_path_ids [OF flow_path_wf [OF assms(1) row(1)] row(2) pn(4)] ids(1) pn show ?thesis by auto
  qed
  let ?xs = "filter (\<lambda>x. n_kind x = k) (g_nodes ?G)"
  have "distinct (map n_id ?xs)"
    using graph_ids_distinct [OF assms(1), of lc scheme metric palette opts] by (rule distinct_map_filter)
  then have "length ?xs = card (set (map n_id ?xs))" by (metis distinct_card length_map)
  also have "\<dots> \<le> card ?A"
  proof (rule card_mono)
    show "set (map n_id ?xs) \<subseteq> ?A"
    proof
      fix i assume "i \<in> set (map n_id ?xs)"
      then obtain x where "x \<in> set (g_nodes ?G)" "n_kind x = k" "i = n_id x" by auto
      with sub show "i \<in> ?A" by blast
    qed
  qed simp
  finally show ?thesis using card by simp
qed

theorem flow_column_limit_witness:
  "length (filter (\<lambda>x. n_kind x = K_token) (g_nodes (sample_graph (Some (Fin 1)) False))) \<le> 2"
proof -
  have h: "K_token \<in> set (resolveVisibleStages Flow_user None)"
    "normalizeTopNodeLimit (topNodeLimit (sample_opts (Some (Fin 1)) False)) = Some 1"
    "overflowMode (sample_opts (Some (Fin 1)) False) = None"
    by code_simp+
  from flow_column_limit [OF sample_rows_ok h(1,2), of code_unit_cmp "\<lambda>_. []" Metric_quota None] h(3)
  show ?thesis unfolding sample_graph_def by simp
qed

subsection \<open>Shares\<close>

definition kind_prefix :: "node_kind \<Rightarrow> jstring" where
  "kind_prefix k = kind_name k @ lit '':''"

lemma wf_prefix: "wf_node n \<Longrightarrow> starts_with (pn_id n) (kind_prefix k) \<longleftrightarrow> pn_kind n = k"
proof -
  assume "wf_node n"
  then obtain r where r: "pn_id n = kind_name (pn_kind n) @ 58 # r" by (auto simp: wf_node_def lit_def)
  show ?thesis
  proof
    assume "starts_with (pn_id n) (kind_prefix k)"
    then obtain r' where "kind_name (pn_kind n) @ 58 # r = kind_name k @ 58 # r'"
      using r by (auto simp: starts_with_iff kind_prefix_def lit_def)
    from sep_split [OF kind_name_no_colon kind_name_no_colon this] show "pn_kind n = k"
      by (simp add: kind_name_inj)
  next
    assume "pn_kind n = k"
    with r show "starts_with (pn_id n) (kind_prefix k)"
      by (auto simp: starts_with_iff kind_prefix_def lit_def)
  qed
qed

lemma first_links_count:
  assumes "wf_path stages path" "distinct stages" "length stages \<ge> 2"
  shows "length (filter (\<lambda>(s, t). starts_with (pn_id s) (kind_prefix (hd stages))) (path_links path)) = 1"
proof -
  obtain k ks where st: "stages = k # ks" "ks \<noteq> []"
    using assms(3) by (cases stages; cases "tl stages") auto
  then obtain a p where path: "path = a # p" "pn_kind a = k" "map pn_kind p = ks" "wf_node a" "list_all wf_node p"
    using assms(1) by (cases path) (auto simp: wf_path_def)
  then have "p \<noteq> []" using st by auto
  have "filter (\<lambda>n. starts_with (pn_id n) (kind_prefix k)) (butlast p) = []"
    using path st assms(2)
    by (fastforce simp: filter_empty_conv list_all_iff wf_prefix image_iff dest!: in_set_butlastD)
  with path \<open>p \<noteq> []\<close> st length_filter_fst [of "\<lambda>s. starts_with (pn_id s) (kind_prefix k)" path] show ?thesis
    by (simp add: wf_prefix)
qed

lemma first_ids_map:
  "\<forall>q \<in> set ps. fst q \<noteq> [] \<and> pn_id (hd (fst q)) \<noteq> [] \<Longrightarrow> first_ids ps = map (\<lambda>q. pn_id (hd (fst q))) ps"
proof (induction ps)
  case (Cons q ps)
  then obtain n p where "fst q = n # p" by (cases "fst q") auto
  with Cons show ?case by (simp add: first_ids_def map_filter_simps)
qed (simp add: first_ids_def map_filter_simps)

lemma first_id_iff:
  assumes "\<forall>p \<in> set ps. wf_path stages (fst p)" "distinct stages" "stages \<noteq> []"
    and "p \<in> set ps" "s \<in> set (fst p)"
  shows "starts_with (pn_id s) (kind_prefix (hd stages)) \<longleftrightarrow> pn_id s \<in> set (first_ids ps)"
proof -
  have "fst q \<noteq> [] \<and> pn_id (hd (fst q)) \<noteq> []" if "q \<in> set ps" for q
    using assms(1,3) that by (cases "fst q") (auto simp: wf_path_def wf_node_def lit_def)
  then have first: "i \<in> set (first_ids ps) \<longleftrightarrow> (\<exists>q \<in> set ps. i = pn_id (hd (fst q)))" for i
    by (subst first_ids_map) auto
  have hd_kind: "pn_kind (hd (fst q)) = hd stages \<and> wf_node (hd (fst q))" if "q \<in> set ps" for q
    using assms(1,3) that by (cases "fst q") (auto simp: wf_path_def)
  have wf: "wf_node s" using assms(1,4,5) by (auto simp: wf_path_def list_all_iff)
  show ?thesis
  proof
    assume "starts_with (pn_id s) (kind_prefix (hd stages))"
    then have k: "pn_kind s = hd stages" using wf_prefix [OF wf] by simp
    have "s = hd (fst p)"
    proof (rule ccontr)
      assume "s \<noteq> hd (fst p)"
      then have "s \<in> set (tl (fst p))" using assms(5) by (cases "fst p") auto
      moreover have "map pn_kind (tl (fst p)) = tl stages"
        using assms(1,4) by (auto simp: wf_path_def map_tl)
      ultimately have "pn_kind s \<in> set (tl stages)" by (metis image_eqI set_map)
      with k assms(2,3) show False by (cases stages) auto
    qed
    with assms(4) show "pn_id s \<in> set (first_ids ps)" by (auto simp: first)
  next
    assume "pn_id s \<in> set (first_ids ps)"
    then obtain q where q: "q \<in> set ps" "pn_id s = pn_id (hd (fst q))" by (auto simp: first)
    with hd_kind [OF q(1)] wf_node_kind [OF wf, of "hd (fst q)"] wf_prefix [OF wf] show
      "starts_with (pn_id s) (kind_prefix (hd stages))" by simp
  qed
qed

lemma sum_shares:
  assumes "\<And>l. l \<in> set L \<Longrightarrow> P (l_source l) \<longleftrightarrow> l_source l \<in> set F"
  shows "sum_list (map l_share (filter (\<lambda>l. P (l_source l)) (assignLinkDisplayColors lc (set_shares F L)))) =
    (if sum_list (map l_value (filter (\<lambda>l. P (l_source l)) L)) > 0 then 1 else 0)"
proof -
  define T where "T = sum_list (map l_value (filter (\<lambda>l. l_source l \<in> set F) L))"
  have T: "sum_list (map l_value (filter (\<lambda>l. P (l_source l)) L)) = T"
    unfolding T_def using assms by (metis (no_types, lifting) filter_cong)
  have cong: "sum_list (map l_share (filter (\<lambda>l. P (l_source l)) xs)) = sum_list (map l_share (filter (\<lambda>l. P (l_source l)) ys))"
    if "map (\<lambda>l. (l_source l, l_share l)) xs = map (\<lambda>l. (l_source l, l_share l)) ys" for xs ys
    using that by (induction xs arbitrary: ys) (auto simp: Cons_eq_map_conv)
  have "sum_list (map l_share (filter (\<lambda>l. P (l_source l)) (assignLinkDisplayColors lc (set_shares F L)))) =
      sum_list (map l_share (filter (\<lambda>l. P (l_source l)) (set_shares F L)))"
    by (rule cong) (simp add: assignLinkDisplayColors_def Let_def case_prod_unfold comp_def)
  also have "\<dots> = sum_list (map (\<lambda>l. if T > 0 then l_value l / T else 0) (filter (\<lambda>l. P (l_source l)) L))"
    unfolding T_def set_shares_def Let_def by (simp add: filter_map comp_def)
  also have "\<dots> = (if T > 0 then sum_list (map l_value (filter (\<lambda>l. P (l_source l)) L)) / T else 0)"
    by (induction L) (auto simp: add_divide_distrib)
  also have "\<dots> = (if T > 0 then 1 else 0)" by (simp add: T)
  finally show ?thesis by (simp add: T)
qed

lemma graph_links_shape:
  assumes "ps = graph_paths lc rows metric (resolveVisibleStages role vis) ctx opts"
  shows "\<exists>L color. g_links (buildFlowGraph lc scheme rows metric role palette vis ctx opts) =
      assignLinkDisplayColors lc (set_shares (first_ids ps) L)
    \<and> mset (map link_core L) = mset (map (link_core \<circ> snd) (fold (link_acc.acc metric) (link_events color ps) []))"
proof -
  define color where "color = (\<lambda>i. coalesce (map_of (stableColorMap scheme (js_sort lc (first_ids ps)) palette) i)
    (colorAt scheme 0 palette))"
  let ?m = "fold (add_path metric color) ps ([], [])"
  let ?masked = "if maskSensitive opts then maskFlowGraphLabels (fst ?m) (snd ?m) else ?m"
  let ?h = "buildFlowHighlightSets ps (activeNode opts) (activeLink opts) (resolveVisibleStages role vis)"
  let ?L = "js_sort (\<lambda>a b. or_else (lc (l_source a) (l_source b)) (lc (l_target a) (l_target b)))
    (snd (applyFlowHighlights ?h (map snd (fst ?masked), map snd (snd ?masked))))"
  have "map (link_core \<circ> snd) (snd ?masked) = map (link_core \<circ> snd) (snd ?m)"
    using mask_core(2) by auto
  then have "mset (map link_core ?L) = mset (map (link_core \<circ> snd) (snd ?m))"
    unfolding mset_map_sort using highlight_core(2) [of ?h "(map snd (fst ?masked), map snd (snd ?masked))"]
    by (simp add: comp_def del: mset_map)
  then have "mset (map link_core ?L) = mset (map (link_core \<circ> snd) (fold (link_acc.acc metric) (link_events color ps) []))"
    by (simp add: add_paths_events del: mset_map)
  moreover have "g_links (buildFlowGraph lc scheme rows metric role palette vis ctx opts) =
      assignLinkDisplayColors lc (set_shares (first_ids ps) ?L)"
    unfolding buildFlowGraph_def Let_def assms [unfolded graph_paths_def, symmetric] color_def [symmetric]
    by (simp add: case_prod_unfold)
  ultimately show ?thesis by blast
qed

text \<open>
  Shares are fractions of the whole: unless nodes are hidden, the shares of the links that leave
  the first column add up to 1, or are all 0 when there is nothing to show.
\<close>

theorem flow_shares:
  assumes "rows_ok (resolveVisibleStages role vis) ctx rows"
    and "coalesce (overflowMode opts) Aggregate = Aggregate \<or> normalizeTopNodeLimit (topNodeLimit opts) = None"
  shows "sum_list (map l_share (filter (\<lambda>l. starts_with (l_source l) (kind_prefix (hd (resolveVisibleStages role vis))))
      (g_links (buildFlowGraph lc scheme rows metric role palette vis ctx opts)))) =
    (if metricValue (buildSummary rows) metric > 0 then 1 else 0)"
proof -
  let ?stages = "resolveVisibleStages role vis" and ?G = "buildFlowGraph lc scheme rows metric role palette vis ctx opts"
  let ?P = "\<lambda>i. starts_with i (kind_prefix (hd ?stages))"
  define ps where "ps = graph_paths lc rows metric ?stages ctx opts"
  have wf: "\<forall>p \<in> set ps. wf_path ?stages (fst p)"
    using prepared_wf [OF assms(1)] unfolding ps_def graph_paths_def by blast
  from graph_links_shape [OF ps_def, of scheme palette] obtain L color where
    G: "g_links ?G = assignLinkDisplayColors lc (set_shares (first_ids ps) L)" and
    L: "mset (map link_core L) = mset (map (link_core \<circ> snd) (fold (link_acc.acc metric) (link_events color ps) []))"
    by blast
  have t: "link_acc.tagged (set (link_events color ps)) (fold (link_acc.acc metric) (link_events color ps) [])"
    using link_acc.tagged_fold [of "{}" "[]" "link_events color ps" metric] link_events_ok [OF wf]
    by (simp add: link_acc.tagged_def)
  have iff: "?P (l_source l) \<longleftrightarrow> l_source l \<in> set (first_ids ps)" if "l \<in> set L" for l
  proof -
    have "link_core l \<in> set (map (link_core \<circ> snd) (fold (link_acc.acc metric) (link_events color ps) []))"
      using that mset_eq_setD [OF L] by auto
    then obtain k x where "(k, x) \<in> set (fold (link_acc.acc metric) (link_events color ps) [])" "l_source x = l_source l"
      by (auto simp: link_core_def)
    with t obtain e where e: "e \<in> set (link_events color ps)" "l_source l = pn_id (fst (fst e))"
      unfolding link_acc.tagged_def by fastforce
    then obtain p where "p \<in> set ps" "fst e \<in> set (path_links (fst p))" by (auto simp: link_events_def)
    with path_links_nodes [of "fst (fst e)" "snd (fst e)" "fst p"] e(2)
      first_id_iff [OF wf stages_distinct(1) stages_not_Nil, of p "fst (fst e)"] show ?thesis by simp
  qed
  have "sum_list (map l_value (filter (\<lambda>l. ?P (l_source l)) L)) =
      sum_list (map l_value (filter (\<lambda>l. ?P (l_source l)) (g_links ?G)))"
    unfolding G
    by (rule sum_core [of link_core _ _ _ "\<lambda>(s, t, v). v" _ "\<lambda>(s, t, v). ?P s"])
      (simp_all add: colors_core shares_core link_core_def del: mset_map)
  also have "\<dots> = path_sum metric (\<lambda>path. length (filter (\<lambda>(s, t). ?P (pn_id s)) (path_links path))) ps"
    using graph_link_sum [OF assms(1) ps_def, of "\<lambda>(s, t). ?P s" scheme palette] by (simp add: case_prod_unfold)
  also have "\<dots> = path_sum metric (\<lambda>_. 1) ps"
    by (rule path_sum_cong) (use wf first_links_count [OF _ stages_distinct] in blast)
  also have "\<dots> = sum_list (map (\<lambda>m. metricValue m metric) (map snd ps))"
    by (simp add: path_sum_def comp_def)
  also have "\<dots> = metricValue (buildSummary rows) metric"
    unfolding ps_def all_paths_kept [OF assms(2)] by (simp add: summary_metric comp_def)
  finally show ?thesis unfolding G using sum_shares [OF iff] by simp
qed

theorem flow_shares_witness:
  "sum_list (map l_share (filter (\<lambda>l. starts_with (l_source l) (lit ''token:'')) (g_links (sample_graph None False)))) = 1"
proof -
  have "coalesce (overflowMode (sample_opts None False)) Aggregate = Aggregate"
    "metricValue (buildSummary sample_rows) Metric_quota = 5"
    "kind_prefix (hd (resolveVisibleStages Flow_user None)) = lit ''token:''"
    by code_simp+
  with flow_shares [OF sample_rows_ok, of "sample_opts None False" code_unit_cmp "\<lambda>_. []" Metric_quota None]
  show ?thesis unfolding sample_graph_def by simp
qed

subsection \<open>The mask\<close>

definition node_face :: "flow_node \<Rightarrow> jstring \<times> node_kind \<times> jstring" where
  "node_face n = (n_id n, n_kind n, n_label n)"

definition link_face :: "flow_link \<Rightarrow> jstring \<times> jstring \<times> jstring \<times> jstring" where
  "link_face l = (l_source l, l_target l, l_sourceLabel l, l_targetLabel l)"

lemma face_keep:
  "map node_face (fst (applyFlowHighlights h g)) = map node_face (fst g)"
  "map link_face (snd (applyFlowHighlights h g)) = map link_face (snd g)"
  "map link_face (set_shares xs ls) = map link_face ls"
  "map link_face (assignLinkDisplayColors lc ls) = map link_face ls"
  by (auto simp: applyFlowHighlights_def set_shares_def assignLinkDisplayColors_def Let_def node_face_def
      link_face_def case_prod_unfold split: option.split)

lemma masked_graph_faces:
  assumes "maskSensitive opts"
  shows "\<exists>N L. node_face ` set (g_nodes (buildFlowGraph lc scheme rows metric role palette vis ctx opts)) =
      node_face ` snd ` set (fst (maskFlowGraphLabels N L))
    \<and> link_face ` set (g_links (buildFlowGraph lc scheme rows metric role palette vis ctx opts)) =
      link_face ` snd ` set (snd (maskFlowGraphLabels N L))"
proof -
  define ps where "ps = graph_paths lc rows metric (resolveVisibleStages role vis) ctx opts"
  define color where "color = (\<lambda>i. coalesce (map_of (stableColorMap scheme (js_sort lc (first_ids ps)) palette) i)
    (colorAt scheme 0 palette))"
  let ?m = "fold (add_path metric color) ps ([], [])"
  let ?masked = "maskFlowGraphLabels (fst ?m) (snd ?m)"
  let ?h = "buildFlowHighlightSets ps (activeNode opts) (activeLink opts) (resolveVisibleStages role vis)"
  let ?g = "applyFlowHighlights ?h (map snd (fst ?masked), map snd (snd ?masked))"
  let ?sort = "js_sort (\<lambda>a b. or_else (lc (l_source a) (l_source b)) (lc (l_target a) (l_target b)))"
  have G: "buildFlowGraph lc scheme rows metric role palette vis ctx opts =
      \<lparr>g_nodes = js_sort (byValueThenLabel lc) (fst ?g),
       g_links = assignLinkDisplayColors lc (set_shares (first_ids ps) (?sort (snd ?g)))\<rparr>"
    using assms
    unfolding buildFlowGraph_def Let_def ps_def [unfolded graph_paths_def, symmetric] color_def [symmetric]
    by (simp add: case_prod_unfold)
  have "set (map node_face (fst ?g)) = set (map node_face (map snd (fst ?masked)))"
    by (simp only: face_keep fst_conv)
  then have "node_face ` set (fst ?g) = node_face ` snd ` set (fst ?masked)" by (simp only: set_map)
  moreover have "set (map link_face (assignLinkDisplayColors lc (set_shares (first_ids ps) (?sort (snd ?g))))) =
      set (map link_face (?sort (snd ?g)))"
    by (simp only: face_keep)
  then have "link_face ` set (assignLinkDisplayColors lc (set_shares (first_ids ps) (?sort (snd ?g)))) =
      set (map link_face (snd ?g))"
    by (simp only: set_map set_js_sort)
  moreover have "set (map link_face (snd ?g)) = link_face ` snd ` set (snd ?masked)"
    by (simp only: face_keep snd_conv set_map)
  ultimately show ?thesis unfolding G by (intro exI [of _ "fst ?m"] exI [of _ "snd ?m"]) simp
qed

definition hidden :: "jstring \<Rightarrow> bool" where
  "hidden label \<longleftrightarrow> label = [] \<or> label = flow_mask_text"

lemma hidden_mask: "hidden (maskFlowLabel s)"
  by (simp add: hidden_def maskFlowLabel_def)

definition sensitive_face :: "jstring \<times> node_kind \<times> jstring \<Rightarrow> bool" where
  "sensitive_face f \<longleftrightarrow> sensitive_kind (fst (snd f)) \<and> fst f \<notin> set other_node_ids"

lemma masked_faces:
  assumes "f \<in> node_face ` snd ` set (fst (maskFlowGraphLabels N L))" "sensitive_face f"
  shows "hidden (snd (snd f))"
    and "g \<in> link_face ` snd ` set (snd (maskFlowGraphLabels N L)) \<Longrightarrow>
      (fst g = fst f \<longrightarrow> hidden (fst (snd (snd g)))) \<and> (fst (snd g) = fst f \<longrightarrow> hidden (snd (snd (snd g))))"
proof -
  define M where "M = map (\<lambda>(k, n). (n_id n, maskFlowLabel (n_label n))) (filter (\<lambda>(k, n). masked_node n) N)"
  have nodes: "fst (maskFlowGraphLabels N L) =
      map (\<lambda>(k, n). (k, if masked_node n then n\<lparr>n_label := maskFlowLabel (n_label n)\<rparr> else n)) N"
    by (simp add: maskFlowGraphLabels_def Let_def)
  from assms(1) obtain k n where n: "(k, n) \<in> set N"
      "f = node_face (if masked_node n then n\<lparr>n_label := maskFlowLabel (n_label n)\<rparr> else n)"
    unfolding nodes by auto
  with assms(2) have m: "masked_node n" by (auto simp: sensitive_face_def node_face_def masked_node_def split: if_splits)
  with n show "hidden (snd (snd f))" by (simp add: node_face_def hidden_mask)
  have f: "fst f = n_id n" using n m by (simp add: node_face_def)
  have "(n_id n, maskFlowLabel (n_label n)) \<in> set M" using n(1) m by (force simp: M_def)
  then obtain lab where lab: "map_of M (n_id n) = Some lab" "M \<noteq> []"
    by (metis list.distinct(1) list.set_cases weak_map_of_SomeI)
  then have "hidden lab" by (auto simp: M_def hidden_mask dest!: map_of_SomeD)
  with lab f show "g \<in> link_face ` snd ` set (snd (maskFlowGraphLabels N L)) \<Longrightarrow>
      (fst g = fst f \<longrightarrow> hidden (fst (snd (snd g)))) \<and> (fst (snd g) = fst f \<longrightarrow> hidden (snd (snd (snd g))))"
    unfolding maskFlowGraphLabels_def Let_def M_def [symmetric]
    by (auto simp: link_face_def coalesce_def)
qed

text \<open>
  C16. With the mask on, no name of a user, server node, token, group or channel is shown: the label
  of every such node is the mask text (or empty), and so is its label on every link that leaves or
  enters it. Only the nodes that stand for all others and the models keep their label.
\<close>

theorem flow_mask_hides:
  assumes "maskSensitive opts" "G = buildFlowGraph lc scheme rows metric role palette vis ctx opts"
    and "n \<in> set (g_nodes G)" "sensitive_kind (n_kind n)" "n_id n \<notin> set other_node_ids"
  shows "hidden (n_label n)
    \<and> list_all (\<lambda>l. (l_source l = n_id n \<longrightarrow> hidden (l_sourceLabel l))
        \<and> (l_target l = n_id n \<longrightarrow> hidden (l_targetLabel l))) (g_links G)"
proof -
  from masked_graph_faces [OF assms(1), of lc scheme rows metric role palette vis ctx, folded assms(2)]
  obtain N L where N: "node_face ` set (g_nodes G) = node_face ` snd ` set (fst (maskFlowGraphLabels N L))"
    and L: "link_face ` set (g_links G) = link_face ` snd ` set (snd (maskFlowGraphLabels N L))"
    by (elim exE conjE) (rule that)
  have f: "node_face n \<in> node_face ` snd ` set (fst (maskFlowGraphLabels N L))" using assms(3) N by blast
  have s: "sensitive_face (node_face n)" using assms(4,5) by (simp add: sensitive_face_def node_face_def)
  have "(l_source l = n_id n \<longrightarrow> hidden (l_sourceLabel l)) \<and> (l_target l = n_id n \<longrightarrow> hidden (l_targetLabel l))"
    if "l \<in> set (g_links G)" for l
  proof -
    have "link_face l \<in> link_face ` snd ` set (snd (maskFlowGraphLabels N L))" using that L by blast
    from masked_faces(2) [OF f s this] show ?thesis by (simp add: node_face_def link_face_def)
  qed
  with masked_faces(1) [OF f s] show ?thesis by (simp add: list_all_iff node_face_def)
qed

theorem flow_mask_hides_witness:
  defines "n \<equiv> g_nodes (sample_graph None True) ! 1"
  shows "n_id n = lit ''group:g'' \<and> hidden (n_label n)"
proof -
  have n: "length (g_nodes (sample_graph None True)) > 1" "n_id n = lit ''group:g''" "sensitive_kind (n_kind n)"
    "n_id n \<notin> set other_node_ids" "maskSensitive (sample_opts None True)"
    unfolding n_def by code_simp+
  with flow_mask_hides [OF n(5) sample_graph_def, of n] show ?thesis unfolding n_def by simp
qed

end
