(* ===== verification/Update_Check.thy ===== *)
theory Update_Check
  imports JS_Prelude
begin

section \<open>Update checks (\<^verbatim>\<open>system-settings/utils/version-compare.ts\<close>, \<^verbatim>\<open>maintenance/restart-watcher.ts\<close>)\<close>

text \<open>
  The comparison of version strings that decides whether an update is offered, and the watcher
  that waits for the restarted service and reloads the page. \<^verbatim>\<open>localeCompare\<close> is an argument
  (\<open>lc\<close>). The watcher runs against its injected dependencies: a clock, a sleep and a status probe
  that act on an arbitrary world. Its loop ends only when the clock advances, so it is a partial
  function; that it returns is proved for every clock that a sleep moves forward.
\<close>

subsection \<open>Versions\<close>

datatype version_comparison = V_equal | V_newer | V_older | V_unknown

definition normalizeVersion :: "jstring option \<Rightarrow> jstring" where
  "normalizeVersion raw =
     (case raw of
        None \<Rightarrow> []
      | Some s \<Rightarrow>
          let t = trim s;
              trimmed = (case t of c # r \<Rightarrow> if c = 118 \<or> c = 86 then r else t | [] \<Rightarrow> t)
          in trim (hd (split_on 43 trimmed)))"

text \<open>\<^verbatim>\<open>value.split('-', 2)\<close> keeps the first two parts.\<close>

definition splitVersion :: "jstring \<Rightarrow> jstring list \<times> jstring" where
  "splitVersion v =
     (case split_on 45 v of
        core # pre # _ \<Rightarrow> (split_on 46 core, pre)
      | [core] \<Rightarrow> (split_on 46 core, [])
      | [] \<Rightarrow> (split_on 46 [], []))"

definition isNumeric :: "jstring \<Rightarrow> bool" where
  "isNumeric segment = all_digits segment"

text \<open>
  \<^verbatim>\<open>Number(digits)\<close>: the digits' value, rounded to the nearest double (53 significant bits, ties to
  even). Segments of more than 308 digits, where the double is infinite, are out of the model.
\<close>

fun excess_bits :: "nat \<Rightarrow> nat" where
  "excess_bits n = (if n < 2 ^ 53 then 0 else Suc (excess_bits (n div 2)))"

declare excess_bits.simps [simp del]

definition round_double :: "nat \<Rightarrow> nat" where
  "round_double n =
     (let u = 2 ^ excess_bits n; q = n div u; r = n mod u in
      (if 2 * r > u \<or> (2 * r = u \<and> odd q) then q + 1 else q) * u)"

lemma round_double_exact [simp]: "n < 2 ^ 53 \<Longrightarrow> round_double n = n"
  by (simp add: round_double_def excess_bits.simps [of n])

text \<open>One pass of the loop: go on with \<open>rest\<close> only when the segments are identical.\<close>

definition compare_step :: "(jstring \<Rightarrow> jstring \<Rightarrow> int) \<Rightarrow> jstring \<Rightarrow> jstring \<Rightarrow> int \<Rightarrow> int" where
  "compare_step lc left right rest =
     (if left = right then rest
      else if isNumeric left \<and> isNumeric right then int (round_double (read_nat left)) - int (round_double (read_nat right))
      else lc left right)"

text \<open>The loop over the segments; a segment that is missing counts as \<^verbatim>\<open>'0'\<close>.\<close>

fun compareCores :: "(jstring \<Rightarrow> jstring \<Rightarrow> int) \<Rightarrow> jstring list \<Rightarrow> jstring list \<Rightarrow> int" where
  "compareCores lc [] [] = 0"
| "compareCores lc (l # ls) [] = compare_step lc l (lit ''0'') (compareCores lc ls [])"
| "compareCores lc [] (r # rs) = compare_step lc (lit ''0'') r (compareCores lc [] rs)"
| "compareCores lc (l # ls) (r # rs) = compare_step lc l r (compareCores lc ls rs)"

definition compareVersions :: "(jstring \<Rightarrow> jstring \<Rightarrow> int) \<Rightarrow> jstring option \<Rightarrow> jstring option \<Rightarrow> version_comparison" where
  "compareVersions lc current latest =
     (let currentNormalized = normalizeVersion current; latestNormalized = normalizeVersion latest in
      if currentNormalized = [] \<or> latestNormalized = [] then V_unknown
      else case (splitVersion currentNormalized, splitVersion latestNormalized) of
        ((cc, cp), (lcore, lp)) \<Rightarrow>
          let coreResult = compareCores lc cc lcore in
          if coreResult \<noteq> 0 then (if coreResult > 0 then V_older else V_newer)
          else if cp = lp then V_equal
          else if cp = [] then V_older
          else if lp = [] then V_newer
          else if lc lp cp > 0 then V_newer else V_older)"

subsection \<open>The restart watcher\<close>

record 'w restart_deps =
  previousVersion :: jstring
  readStatus :: "'w \<Rightarrow> jstring option option \<times> 'w"
  sleep :: "int \<Rightarrow> 'w \<Rightarrow> 'w"
  rd_now :: "'w \<Rightarrow> int"
  timeoutMs :: "int option"
  initialDelayMs :: "int option"
  maxDelayMs :: "int option"

datatype restart_outcome = Version_changed jstring | Recovered jstring | Timeout

text \<open>A probe: \<open>None\<close> when it failed or gave no payload, \<open>Some\<close> with the version, if it has one.\<close>

definition snapshot_version :: "jstring option option \<Rightarrow> jstring option" where
  "snapshot_version snap =
     (case snap of Some (Some v) \<Rightarrow> if length v > 0 then Some v else None | _ \<Rightarrow> None)"

text \<open>
  The loop, with the versions that the probes reported so far (\<open>probes\<close>, for the statements
  about it).
\<close>

partial_function (option) watch_loop ::
    "'w restart_deps \<Rightarrow> int \<Rightarrow> int \<Rightarrow> int \<Rightarrow> int \<Rightarrow> nat \<Rightarrow> jstring option list \<Rightarrow> 'w
      \<Rightarrow> (restart_outcome \<times> jstring option list \<times> 'w) option" where
  "watch_loop deps startedAt timeout maxDelay delay okStreak probes w =
     (if \<not> rd_now deps w - startedAt < timeout then Some (Timeout, probes, w)
      else case readStatus deps (sleep deps delay w) of (snap, w') \<Rightarrow>
        let probes' = probes @ [snapshot_version snap] in
        case snapshot_version snap of
          None \<Rightarrow> watch_loop deps startedAt timeout maxDelay (min (delay * 2) maxDelay) 0 probes' w'
        | Some version \<Rightarrow>
            if version \<noteq> previousVersion deps then Some (Version_changed version, probes', w')
            else if okStreak + 1 \<ge> 2 then Some (Recovered version, probes', w')
            else watch_loop deps startedAt timeout maxDelay (min (delay * 2) maxDelay) (okStreak + 1) probes' w')"

declare watch_loop.simps [code]

definition waitForRestartedService ::
    "'w restart_deps \<Rightarrow> 'w \<Rightarrow> (restart_outcome \<times> jstring option list \<times> 'w) option" where
  "waitForRestartedService deps w =
     watch_loop deps (rd_now deps w) (coalesce (timeoutMs deps) 90000) (coalesce (maxDelayMs deps) 15000)
       (coalesce (initialDelayMs deps) 2000) 0 [] w"

definition shouldWatchAfterApply :: "bool \<Rightarrow> bool" where
  "shouldWatchAfterApply ok = ok"

text \<open>The session storage: absent, throwing on access, or holding the last version reloaded for.\<close>

datatype reload_store = No_store | Blocked_store | Reload_store "jstring option"

definition hasReloadedFor :: "jstring \<Rightarrow> reload_store \<Rightarrow> bool" where
  "hasReloadedFor version store =
     (case store of No_store \<Rightarrow> False | Blocked_store \<Rightarrow> False | Reload_store v \<Rightarrow> v = Some version)"

definition markReloadedFor :: "jstring \<Rightarrow> reload_store \<Rightarrow> reload_store" where
  "markReloadedFor version store =
     (case store of No_store \<Rightarrow> No_store | Blocked_store \<Rightarrow> Blocked_store | Reload_store _ \<Rightarrow> Reload_store (Some version))"

text \<open>\<open>reloads\<close> lists the versions that the page was reloaded for.\<close>

definition watchForRestartAndReload ::
    "'w restart_deps \<Rightarrow> reload_store \<times> jstring list \<Rightarrow> 'w
      \<Rightarrow> (restart_outcome \<times> (reload_store \<times> jstring list) \<times> 'w) option" where
  "watchForRestartAndReload deps sr w =
     (case waitForRestartedService deps w of
        None \<Rightarrow> None
      | Some (outcome, probes, w') \<Rightarrow>
          (case (outcome, sr) of
             (Timeout, _) \<Rightarrow> Some (outcome, sr, w')
           | (_, (store, reloads)) \<Rightarrow>
               let version = (case outcome of Version_changed v \<Rightarrow> v | Recovered v \<Rightarrow> v | Timeout \<Rightarrow> []);
                   targetVersion = or_str version (previousVersion deps)
               in if hasReloadedFor targetVersion store then Some (outcome, sr, w')
                  else Some (outcome, (markReloadedFor targetVersion store, reloads @ [targetVersion]), w')))"

subsection \<open>The watcher returns\<close>

text \<open>A clock that a sleep advances by at least its time and that never goes back.\<close>

definition honest_clock :: "'w restart_deps \<Rightarrow> bool" where
  "honest_clock deps \<longleftrightarrow>
     (\<forall>ms w. rd_now deps w + ms \<le> rd_now deps (sleep deps ms w))
     \<and> (\<forall>w. rd_now deps w \<le> rd_now deps (snd (readStatus deps w)))"

text \<open>The number of probes that fit into a time \<open>t\<close> when the delay starts at \<open>d\<close> and doubles up to \<open>m\<close>.\<close>

function max_probes :: "int \<Rightarrow> int \<Rightarrow> int \<Rightarrow> nat" where
  "max_probes t d m =
     (if t \<le> 0 \<or> d \<le> 0 \<or> m \<le> 0 then 0 else Suc (max_probes (t - d) (min (d * 2) m) m))"
  by pat_completeness auto
termination
  by (relation "measure (\<lambda>(t, d, m). nat t)") auto

declare max_probes.simps [simp del]

lemma max_probes_mono: "t \<le> t' \<Longrightarrow> max_probes t d m \<le> max_probes t' d m"
proof (induction t d m arbitrary: t' rule: max_probes.induct)
  case (1 t d m)
  show ?case
  proof (cases "t \<le> 0 \<or> d \<le> 0 \<or> m \<le> 0")
    case True
    then show ?thesis by (simp add: max_probes.simps [of t])
  next
    case False
    with "1.IH" [OF False, of "t' - d"] "1.prems" show ?thesis
      by (simp add: max_probes.simps [of t] max_probes.simps [of t'])
  qed
qed

text \<open>What an outcome says about the versions that the probes reported.\<close>

definition outcome_ok :: "jstring \<Rightarrow> restart_outcome \<Rightarrow> jstring option list \<Rightarrow> bool" where
  "outcome_ok prev out probes =
     (case out of
        Version_changed v \<Rightarrow> v \<noteq> [] \<and> v \<noteq> prev \<and> probes \<noteq> [] \<and> last probes = Some v
          \<and> set (butlast probes) \<subseteq> {None, Some prev}
      | Recovered v \<Rightarrow> v = prev \<and> (\<exists>qs. probes = qs @ [Some prev, Some prev]) \<and> set probes \<subseteq> {None, Some prev}
      | Timeout \<Rightarrow> set probes \<subseteq> {None, Some prev})"

lemma snapshot_version_not_Nil: "snapshot_version s = Some v \<Longrightarrow> v \<noteq> []"
  by (auto simp: snapshot_version_def split: option.splits if_splits)

lemma watch_loop_returns:
  assumes "honest_clock deps" "0 < d" "0 < m" "set probes \<subseteq> {None, Some (previousVersion deps)}"
    and "k = 0 \<or> (k = 1 \<and> probes \<noteq> [] \<and> last probes = Some (previousVersion deps))"
  shows "\<exists>out ps w'. watch_loop deps startedAt timeout m d k probes w = Some (out, probes @ ps, w')
    \<and> length ps \<le> max_probes (timeout - (rd_now deps w - startedAt)) d m
    \<and> outcome_ok (previousVersion deps) out (probes @ ps)
    \<and> (out = Timeout \<longrightarrow> timeout \<le> rd_now deps w' - startedAt)"
  using assms(2,4,5)
proof (induction "nat (timeout - (rd_now deps w - startedAt))" arbitrary: d k probes w rule: less_induct)
  case less
  let ?prev = "previousVersion deps" and ?t = "timeout - (rd_now deps w - startedAt)"
  show ?case
  proof (cases "rd_now deps w - startedAt < timeout")
    case False
    with less.prems show ?thesis by (simp add: watch_loop.simps outcome_ok_def)
  next
    case True
    obtain snap w' where r: "readStatus deps (sleep deps d w) = (snap, w')" by fastforce
    have "rd_now deps w + d \<le> rd_now deps (sleep deps d w)" "rd_now deps (sleep deps d w) \<le> rd_now deps w'"
      using assms(1) r unfolding honest_clock_def by (metis snd_conv)+
    then have clock: "rd_now deps w + d \<le> rd_now deps w'" by simp
    let ?t' = "timeout - (rd_now deps w' - startedAt)" and ?d' = "min (d * 2) m"
    have smaller: "nat ?t' < nat ?t" using clock True less.prems(1) by linarith
    have bound: "Suc (max_probes ?t' ?d' m) \<le> max_probes ?t d m"
      using max_probes_mono [of ?t' "?t - d" ?d' m] clock True less.prems(1) assms(3)
      by (simp add: max_probes.simps [of ?t])
    have go_on: ?thesis if v: "snapshot_version snap = v" and v': "v = None \<or> v = Some ?prev"
      and eq: "watch_loop deps startedAt timeout m d k probes w =
        watch_loop deps startedAt timeout m ?d' k' (probes @ [v]) w'"
      and k': "k' = (if v = None then 0 else 1)" for v k'
    proof -
      have "0 < ?d'" using less.prems(1) assms(3) by simp
      moreover have "set (probes @ [v]) \<subseteq> {None, Some ?prev}" using less.prems(2) v' by auto
      moreover have "k' = 0 \<or> (k' = 1 \<and> probes @ [v] \<noteq> [] \<and> last (probes @ [v]) = Some ?prev)"
        using k' v' by auto
      ultimately obtain out ps w2 where
        "watch_loop deps startedAt timeout m ?d' k' (probes @ [v]) w' = Some (out, (probes @ [v]) @ ps, w2)"
        "length ps \<le> max_probes ?t' ?d' m" "outcome_ok ?prev out ((probes @ [v]) @ ps)"
        "out = Timeout \<longrightarrow> timeout \<le> rd_now deps w2 - startedAt"
        using less.hyps [OF smaller] by blast
      with eq bound show ?thesis by (intro exI [of _ out] exI [of _ "v # ps"] exI [of _ w2]) simp
    qed
    have one: "1 \<le> max_probes ?t d m" using bound by simp
    show ?thesis
    proof (cases "snapshot_version snap")
      case None
      with go_on [OF None] True r show ?thesis by (simp add: watch_loop.simps [of _ _ _ _ d])
    next
      case (Some v)
      show ?thesis
      proof (cases "v = ?prev")
        case False
        with Some True r one less.prems(2) snapshot_version_not_Nil [OF Some] show ?thesis
          by (simp add: watch_loop.simps [of _ _ _ _ d] outcome_ok_def)
      next
        case eq: True
        show ?thesis
        proof (cases "k = 0")
          case True
          with go_on [OF Some, of 1] Some eq \<open>rd_now deps w - startedAt < timeout\<close> r show ?thesis
            by (simp add: watch_loop.simps [of _ _ _ _ d])
        next
          case False
          with less.prems(3) obtain qs where "probes = qs @ [Some ?prev]" "k = 1"
            by (metis append_butlast_last_id)
          with Some eq True r one less.prems(2) show ?thesis
            by (simp add: watch_loop.simps [of _ _ _ _ d] outcome_ok_def)
        qed
      qed
    qed
  qed
qed

text \<open>
  C25. Waiting for the restarted service always ends when the clock advances: after as many probes as
  the doubling delays allow within the timeout (at most 9 with the default settings). A changed
  version is reported exactly as the last probe saw it, and no earlier probe had seen another one;
  recovery is reported only after two consecutive probes with the old version; a timeout only
  after the whole time.
\<close>

theorem waitForRestartedService_outcome:
  assumes "honest_clock deps" "0 < coalesce (initialDelayMs deps) 2000" "0 < coalesce (maxDelayMs deps) 15000"
  shows "\<exists>out ps w'. waitForRestartedService deps w = Some (out, ps, w')
    \<and> length ps \<le> max_probes (coalesce (timeoutMs deps) 90000) (coalesce (initialDelayMs deps) 2000)
        (coalesce (maxDelayMs deps) 15000)
    \<and> outcome_ok (previousVersion deps) out ps
    \<and> (out = Timeout \<longrightarrow> coalesce (timeoutMs deps) 90000 \<le> rd_now deps w' - rd_now deps w)"
  using watch_loop_returns [OF assms, of "[]" 0 "rd_now deps w" "coalesce (timeoutMs deps) 90000" w]
  by (simp add: waitForRestartedService_def)

text \<open>A scripted service: each probe takes the next entry; a sleep advances the clock.\<close>

definition script_deps :: "jstring \<Rightarrow> (int \<times> jstring option option list) restart_deps" where
  "script_deps prev =
     \<lparr>previousVersion = prev,
      readStatus = (\<lambda>(t, xs). case xs of [] \<Rightarrow> (None, (t, [])) | x # xs' \<Rightarrow> (x, (t, xs'))),
      sleep = (\<lambda>ms (t, xs). (t + ms, xs)), rd_now = fst,
      timeoutMs = None, initialDelayMs = None, maxDelayMs = None\<rparr>"

lemma script_honest: "honest_clock (script_deps prev)"
  by (auto simp: honest_clock_def script_deps_def split: list.split)

theorem waitForRestartedService_outcome_witness:
  "\<exists>out ps w'. waitForRestartedService (script_deps (lit ''1.0'')) (0, [None, Some (Some (lit ''1.1''))]) = Some (out, ps, w')
     \<and> length ps \<le> 9 \<and> outcome_ok (lit ''1.0'') out ps"
proof -
  have "max_probes 90000 2000 15000 = 9" by code_simp
  moreover have "coalesce (initialDelayMs (script_deps (lit ''1.0''))) 2000 = 2000"
    "coalesce (maxDelayMs (script_deps (lit ''1.0''))) 15000 = 15000"
    "coalesce (timeoutMs (script_deps (lit ''1.0''))) 90000 = 90000"
    "previousVersion (script_deps (lit ''1.0'')) = lit ''1.0''"
    by (simp_all add: script_deps_def coalesce_def)
  ultimately show ?thesis
    using waitForRestartedService_outcome [OF script_honest, of "lit ''1.0''" "(0, [None, Some (Some (lit ''1.1''))])"]
    by auto
qed

subsection \<open>One reload per version\<close>

text \<open>Watches that run one after the other, each with its own dependencies and world.\<close>

definition watch_runs ::
    "('w restart_deps \<times> 'w) list \<Rightarrow> reload_store \<times> jstring list \<Rightarrow> reload_store \<times> jstring list" where
  "watch_runs ws sr =
     fold (\<lambda>(deps, w) sr. case watchForRestartAndReload deps sr w of
        Some (_, sr', _) \<Rightarrow> sr' | None \<Rightarrow> sr) ws sr"

definition reload_inv :: "reload_store \<times> jstring list \<Rightarrow> bool" where
  "reload_inv sr \<longleftrightarrow> fst sr = Reload_store (if snd sr = [] then None else Some (last (snd sr))) \<and> distinct_adj (snd sr)"

lemma distinct_adj_snoc: "distinct_adj xs \<Longrightarrow> xs = [] \<or> last xs \<noteq> x \<Longrightarrow> distinct_adj (xs @ [x])"
  by (auto simp: distinct_adj_append_iff)

lemma reload_inv_step:
  assumes "reload_inv sr" "watchForRestartAndReload deps sr w = Some (out, sr', w')"
  shows "reload_inv sr'"
proof -
  obtain store reloads where sr: "sr = (store, reloads)" by fastforce
  have "sr' = sr \<or> (\<exists>v. \<not> hasReloadedFor v store \<and> sr' = (markReloadedFor v store, reloads @ [v]))"
    using assms(2) unfolding watchForRestartAndReload_def sr
    by (auto simp: Let_def split: option.splits restart_outcome.splits if_splits)
  with assms(1) sr show ?thesis
    by (auto simp: reload_inv_def hasReloadedFor_def markReloadedFor_def intro!: distinct_adj_snoc split: if_splits)
qed

text \<open>
  With session storage the page is never reloaded twice in a row for the same version, however
  many watches run and whatever their services answer.
\<close>

theorem reload_once_per_version:
  "distinct_adj (snd (watch_runs ws (Reload_store None, [])))"
proof -
  have "reload_inv (watch_runs ws sr)" if "reload_inv sr" for sr
    using that unfolding watch_runs_def
  proof (induction ws arbitrary: sr)
    case (Cons dw ws)
    obtain deps w where dw: "dw = (deps, w)" by fastforce
    show ?case
    proof (cases "watchForRestartAndReload deps sr w")
      case None
      with Cons dw show ?thesis by simp
    next
      case (Some r)
      obtain out sr' w' where r: "r = (out, sr', w')" by (cases r)
      from Cons.IH [OF reload_inv_step [OF Cons.prems Some [unfolded r]]] show ?thesis
        using Some r dw by simp
    qed
  qed simp
  then show ?thesis by (simp add: reload_inv_def)
qed

subsection \<open>Comparing releases\<close>

text \<open>A release number, printed, and its segment at an index; a missing segment counts as 0.\<close>

definition print_version :: "nat list \<Rightarrow> jstring" where
  "print_version ns = join (lit ''.'') (map show_nat ns)"

definition segment :: "nat list \<Rightarrow> nat \<Rightarrow> nat" where
  "segment ns i = (if i < length ns then ns ! i else 0)"

definition release_less :: "nat list \<Rightarrow> nat list \<Rightarrow> bool" where
  "release_less a b \<longleftrightarrow> list_ex (\<lambda>i. segment a i < segment b i
     \<and> list_all (\<lambda>j. segment a j = segment b j) [0..<i]) [0..<max (length a) (length b)]"

definition release_eq :: "nat list \<Rightarrow> nat list \<Rightarrow> bool" where
  "release_eq a b \<longleftrightarrow> list_all (\<lambda>i. segment a i = segment b i) [0..<max (length a) (length b)]"

lemma release_less_Nil [simp]: "\<not> release_less [] []" "release_eq [] []"
  by (simp_all add: release_less_def release_eq_def)

lemma release_less_iff:
  "release_less a b \<longleftrightarrow> (\<exists>i<max (length a) (length b). segment a i < segment b i \<and> (\<forall>j<i. segment a j = segment b j))"
  by (auto simp: release_less_def list_ex_iff list_all_iff)

lemma release_eq_iff:
  "release_eq a b \<longleftrightarrow> (\<forall>i<max (length a) (length b). segment a i = segment b i)"
  by (auto simp: release_eq_def list_all_iff)

lemma segment_step:
  "release_less a b \<longleftrightarrow> hd (a @ [0]) < hd (b @ [0]) \<or> (hd (a @ [0]) = hd (b @ [0]) \<and> release_less (tl a) (tl b))"
  "release_eq a b \<longleftrightarrow> hd (a @ [0]) = hd (b @ [0]) \<and> release_eq (tl a) (tl b)"
  if "a \<noteq> [] \<or> b \<noteq> []"
proof -
  have seg: "segment xs 0 = hd (xs @ [0])" "segment xs (Suc i) = segment (tl xs) i" for xs i
    by (cases xs; simp add: segment_def)+
  have len: "max (length a) (length b) = Suc (max (length (tl a)) (length (tl b)))"
    using that by (cases a; cases b) auto
  show "release_less a b \<longleftrightarrow> hd (a @ [0]) < hd (b @ [0]) \<or> (hd (a @ [0]) = hd (b @ [0]) \<and> release_less (tl a) (tl b))"
    unfolding release_less_iff len Ex_less_Suc2 All_less_Suc2 seg by auto
  show "release_eq a b \<longleftrightarrow> hd (a @ [0]) = hd (b @ [0]) \<and> release_eq (tl a) (tl b)"
    unfolding release_eq_iff len All_less_Suc2 seg by auto
qed

lemma zero_lit: "lit ''0'' = show_nat 0"
  by code_simp

lemma compare_step_nat:
  "x < 2 ^ 53 \<Longrightarrow> y < 2 ^ 53 \<Longrightarrow>
   compare_step lc (show_nat x) (show_nat y) rest = (if x = y then rest else int x - int y)"
  by (simp add: compare_step_def isNumeric_def)

abbreviation doubles :: "nat list \<Rightarrow> bool" where
  "doubles ns \<equiv> list_all (\<lambda>n. n < 2 ^ 53) ns"

lemma compareCores_release:
  "doubles a \<Longrightarrow> doubles b \<Longrightarrow>
   (compareCores lc (map show_nat a) (map show_nat b) < 0 \<longleftrightarrow> release_less a b)
   \<and> (compareCores lc (map show_nat a) (map show_nat b) = 0 \<longleftrightarrow> release_eq a b)"
proof (induction a arbitrary: b)
  case Nil
  then show ?case
  proof (induction b)
    case (Cons y b)
    then show ?case
      using segment_step [of "[]" "y # b"] by (auto simp: zero_lit compare_step_nat)
  qed simp
next
  case (Cons x a)
  show ?case
  proof (cases b)
    case Nil
    then show ?thesis
      using Cons.IH [of "[]"] Cons.prems segment_step [of "x # a" "[]"]
      by (auto simp: zero_lit compare_step_nat)
  next
    case b: (Cons y ys)
    then show ?thesis
      using Cons.IH [of ys] Cons.prems segment_step [of "x # a" "y # ys"]
      by (auto simp: compare_step_nat)
  qed
qed

lemma print_version_chars: "\<forall>c \<in> set (print_version ns). is_digit c \<or> c = 46"
  using show_nat_digits set_join [of "lit ''.''" "map show_nat ns"]
  by (auto simp: print_version_def lit_def)

lemma print_version_not_Nil: "ns \<noteq> [] \<Longrightarrow> print_version ns \<noteq> []"
  using join_eq_Nil [of "lit ''.''" "map show_nat ns" "show_nat (hd ns)"]
  by (auto simp: print_version_def)

lemma normalizeVersion_print:
  assumes "pre \<in> {[], lit ''v'', lit ''V''}" and "ns \<noteq> []"
  shows "normalizeVersion (Some (pre @ print_version ns)) = print_version ns"
proof -
  have plain: "\<forall>c \<in> set (print_version ns). \<not> is_ws c \<and> c \<noteq> 43 \<and> c \<noteq> 118 \<and> c \<noteq> 86"
    using print_version_chars by (fastforce simp: is_ws_def is_digit_def)
  have pre: "\<forall>c \<in> set pre. \<not> is_ws c"
    using assms by (auto simp: lit_def is_ws_def)
  have "trim (pre @ print_version ns) = pre @ print_version ns" "trim (print_version ns) = print_version ns"
    using plain pre by (auto intro!: trim_no_ws)
  moreover have "split_on 43 (print_version ns) = [print_version ns]"
    using plain by (auto intro!: split_on_no_sep)
  moreover obtain c r where "print_version ns = c # r" "c \<noteq> 118" "c \<noteq> 86"
    using plain print_version_not_Nil [OF assms(2)] by (metis list.set_intros(1) neq_Nil_conv)
  ultimately show ?thesis
    using assms(1) by (auto simp: normalizeVersion_def lit_def)
qed

lemma splitVersion_print:
  assumes "ns \<noteq> []"
  shows "splitVersion (print_version ns) = (map show_nat ns, [])"
proof -
  have "45 \<notin> set (print_version ns)"
    using print_version_chars by (fastforce simp: is_digit_def)
  moreover have "\<forall>x \<in> set (map show_nat ns). 46 \<notin> set x"
    using show_nat_digits by (fastforce simp: is_digit_def)
  with assms have "split_on 46 (join [46] (map show_nat ns)) = map show_nat ns"
    by (intro split_on_join) auto
  ultimately show ?thesis
    by (simp add: splitVersion_def split_on_no_sep) (simp add: print_version_def lit_def)
qed

text \<open>
  C24. For dotted numeric versions, with or without the v that release tags carry,
  compareVersions is the numeric comparison of the segments, a missing segment counting as zero:
  an update is offered exactly when the latest release is greater, and equality is reported exactly
  when both denote the same release. No locale comparison is involved.
\<close>

theorem compareVersions_release:
  assumes "a \<noteq> []" and "b \<noteq> []" and "doubles a" and "doubles b"
    and "pre \<in> {[], lit ''v'', lit ''V''}" and "pre' \<in> {[], lit ''v'', lit ''V''}"
  shows "compareVersions lc (Some (pre @ print_version a)) (Some (pre' @ print_version b)) =
     (if release_eq a b then V_equal else if release_less a b then V_newer else V_older)"
proof -
  let ?r = "compareCores lc (map show_nat a) (map show_nat b)"
  have "compareVersions lc (Some (pre @ print_version a)) (Some (pre' @ print_version b)) =
      (if ?r = 0 then V_equal else if ?r < 0 then V_newer else V_older)"
    unfolding compareVersions_def normalizeVersion_print [OF assms(5,1)] normalizeVersion_print [OF assms(6,2)]
    by (simp add: print_version_not_Nil assms(1,2) splitVersion_print [OF assms(1)] splitVersion_print [OF assms(2)])
  then show ?thesis
    by (simp add: compareCores_release [OF assms(3,4)])
qed

theorem compareVersions_release_witness:
  "compareVersions (\<lambda>_ _. 0) (Some ([] @ print_version [0, 9, 12])) (Some (lit ''v'' @ print_version [0, 10])) =
     (if release_eq [0, 9, 12] [0, 10] then V_equal else if release_less [0, 9, 12] [0, 10] then V_newer else V_older)"
  by (rule compareVersions_release) auto

text \<open>
  Segments that are numerically equal but written differently (a leading zero) end the comparison:
  the later segments are not looked at, so a newer patch release is reported as equal.\<close>

theorem compareVersions_leading_zero:
  "compareVersions lc (Some (lit ''1.01.5'')) (Some (lit ''1.1.7'')) = V_equal"
proof -
  have norm: "normalizeVersion (Some (lit ''1.01.5'')) = lit ''1.01.5''"
    "normalizeVersion (Some (lit ''1.1.7'')) = lit ''1.1.7''"
    "lit ''1.01.5'' \<noteq> []" "lit ''1.1.7'' \<noteq> []"
    by code_simp+
  have split: "splitVersion (lit ''1.01.5'') = ([lit ''1'', lit ''01'', lit ''5''], [])"
    "splitVersion (lit ''1.1.7'') = ([lit ''1'', lit ''1'', lit ''7''], [])"
    by code_simp+
  have nums: "isNumeric (lit ''01'')" "isNumeric (lit ''1'')" "read_nat (lit ''01'') = 1" "read_nat (lit ''1'') = 1"
    "lit ''01'' \<noteq> lit ''1''"
    by code_simp+
  show ?thesis
    by (simp add: compareVersions_def norm split compare_step_def nums)
qed

text \<open>Of a pre-release with a second dash only the first part is compared.\<close>

theorem compareVersions_second_dash:
  "compareVersions lc (Some (lit ''1.0.0-beta-1'')) (Some (lit ''1.0.0-beta-2'')) = V_equal"
  by code_simp

end
