(* ===== verification/JS_Stringify.thy ===== *)
theory JS_Stringify
  imports JS_Json
begin

section \<open>Printing JSON texts\<close>

text \<open>
  \<^verbatim>\<open>JSON.stringify(v, null, gap)\<close> on values without cycles and methods, as the language defines it:
  the quoting of strings (escapes, lone surrogates), the omission of \<^verbatim>\<open>undefined\<close> properties, and the
  layout with and without a gap. How a finite number is printed is an argument (\<open>num\<close>); what the
  proofs need of it is that the parser of \<^verbatim>\<open>JS_Json\<close> reads it back. The main fact is that parsing
  what was printed gives the JSON view of the value.
\<close>

definition hex_digit :: "nat \<Rightarrow> nat" where
  "hex_digit d = (if d < 10 then 48 + d else 87 + d)"

definition unicode_escape :: "nat \<Rightarrow> jstring" where
  "unicode_escape c =
     [92, 117, hex_digit (c div 4096 mod 16), hex_digit (c div 256 mod 16), hex_digit (c div 16 mod 16),
      hex_digit (c mod 16)]"

definition short_escape :: "nat \<Rightarrow> nat option" where
  "short_escape c = (if c = 34 \<or> c = 92 then Some c
     else if c = 8 then Some 98 else if c = 12 then Some 102 else if c = 10 then Some 110
     else if c = 13 then Some 114 else if c = 9 then Some 116 else None)"

abbreviation lead_surrogate :: "nat \<Rightarrow> bool" where
  "lead_surrogate c \<equiv> 55296 \<le> c \<and> c \<le> 56319"

abbreviation trail_surrogate :: "nat \<Rightarrow> bool" where
  "trail_surrogate c \<equiv> 56320 \<le> c \<and> c \<le> 57343"

fun quote_units :: "jstring \<Rightarrow> jstring" where
  "quote_units [] = []"
| "quote_units (c # s) =
     (case short_escape c of
        Some e \<Rightarrow> 92 # e # quote_units s
      | None \<Rightarrow>
          if c < 32 \<or> trail_surrogate c then unicode_escape c @ quote_units s
          else if lead_surrogate c
          then (case s of
                  [] \<Rightarrow> unicode_escape c
                | d # s' \<Rightarrow> if trail_surrogate d then c # d # quote_units s'
                           else unicode_escape c @ quote_units s)
          else c # quote_units s)"

definition json_quote :: "jstring \<Rightarrow> jstring" where
  "json_quote s = 34 # quote_units s @ [34]"

text \<open>
  The text of a list of parts between two brackets: on one line without a gap, else one part per
  line behind the new indentation.
\<close>

definition json_wrap :: "nat \<Rightarrow> nat \<Rightarrow> jstring \<Rightarrow> jstring \<Rightarrow> jstring list \<Rightarrow> jstring" where
  "json_wrap lb rb gap ind parts =
     (if parts = [] then [lb, rb]
      else if gap = [] then lb # join [44] parts @ [rb]
      else lb # 10 # (ind @ gap) @ join (44 # 10 # ind @ gap) parts @ 10 # ind @ [rb])"

definition json_colon :: "jstring \<Rightarrow> jstring" where
  "json_colon gap = (if gap = [] then [58] else [58, 32])"

fun json_ser :: "(rat \<Rightarrow> jstring) \<Rightarrow> jstring \<Rightarrow> jstring \<Rightarrow> jsval \<Rightarrow> jstring option" where
  "json_ser num gap ind Undefined = None"
| "json_ser num gap ind Null = Some (lit ''null'')"
| "json_ser num gap ind (JBool b) = Some (if b then lit ''true'' else lit ''false'')"
| "json_ser num gap ind (JNum n) =
     Some (case num_val n of None \<Rightarrow> lit ''null'' | Some q \<Rightarrow> num q)"
| "json_ser num gap ind (JStr s) = Some (json_quote s)"
| "json_ser num gap ind (JArr vs) =
     Some (json_wrap 91 93 gap ind
       (map (\<lambda>v. coalesce (json_ser num gap (ind @ gap) v) (lit ''null'')) vs))"
| "json_ser num gap ind (JObj ps) =
     Some (json_wrap 123 125 gap ind
       (concat (map (\<lambda>(k, v). case json_ser num gap (ind @ gap) v of
          None \<Rightarrow> [] | Some t \<Rightarrow> [json_quote k @ json_colon gap @ t]) ps)))"

definition json_stringify :: "(rat \<Rightarrow> jstring) \<Rightarrow> jstring \<Rightarrow> jsval \<Rightarrow> jstring option" where
  "json_stringify num gap v = json_ser num gap [] v"

text \<open>The JSON view of a value; \<open>None\<close> when it has none.\<close>

fun json_view :: "jsval \<Rightarrow> jsval option" where
  "json_view Undefined = None"
| "json_view Null = Some Null"
| "json_view (JBool b) = Some (JBool b)"
| "json_view (JNum n) = Some (case num_val n of None \<Rightarrow> Null | Some q \<Rightarrow> JNum (Fin q))"
| "json_view (JStr s) = Some (JStr s)"
| "json_view (JArr vs) = Some (JArr (map (\<lambda>v. coalesce (json_view v) Null) vs))"
| "json_view (JObj ps) =
     Some (JObj (concat (map (\<lambda>(k, v). case json_view v of None \<Rightarrow> [] | Some x \<Rightarrow> [(k, x)]) ps)))"

text \<open>Objects have each property once, and the finite numbers of a value are read back from their print.\<close>

definition delim :: "jstring \<Rightarrow> bool" where
  "delim r \<longleftrightarrow> r = [] \<or> hd r = 44 \<or> hd r = 93 \<or> hd r = 125 \<or> is_json_ws (hd r)"

definition prints_num :: "(rat \<Rightarrow> jstring) \<Rightarrow> rat \<Rightarrow> bool" where
  "prints_num num q \<longleftrightarrow> num q \<noteq> [] \<and> (is_digit (hd (num q)) \<or> hd (num q) = 45)
     \<and> (\<forall>r. delim r \<longrightarrow> parse_number (num q @ r) = Some (Fin q, r))"

fun json_ok :: "(rat \<Rightarrow> jstring) \<Rightarrow> jsval \<Rightarrow> bool" where
  "json_ok num (JNum n) = (case num_val n of None \<Rightarrow> True | Some q \<Rightarrow> prints_num num q)"
| "json_ok num (JArr vs) = (\<forall>v \<in> set vs. json_ok num v)"
| "json_ok num (JObj ps) = (distinct (map fst ps) \<and> (\<forall>(k, v) \<in> set ps. json_ok num v))"
| "json_ok num _ = True"

subsection \<open>Strings\<close>

lemma hex_val_digit: "d < 16 \<Longrightarrow> hex_val (hex_digit d) = Some d"
  by (auto simp: hex_val_def hex_digit_def)

lemma hex4_escape:
  assumes "c < 65536"
  shows "hex4 (hex_digit (c div 4096 mod 16) # hex_digit (c div 256 mod 16) # hex_digit (c div 16 mod 16)
    # hex_digit (c mod 16) # r) = Some (c, r)"
proof -
  have "((c div 4096 mod 16 * 16 + c div 256 mod 16) * 16 + c div 16 mod 16) * 16 + c mod 16 = c"
  proof -
    have "c div 256 = c div 16 div 16" "c div 4096 = c div 16 div 16 div 16"
      by (simp_all flip: div_mult2_eq)
    moreover have "c div 4096 mod 16 = c div 4096"
      using assms by (simp add: less_mult_imp_div_less)
    ultimately show ?thesis
      by (metis div_mult_mod_eq)
  qed
  then show ?thesis by (simp only: hex4.simps hex_val_digit mod_less_divisor zero_less_numeral option.case prod.case)
qed

lemma short_escape_inverse: "short_escape c = Some e \<Longrightarrow> simple_escape e = Some c \<and> e \<noteq> 117"
  by (auto simp: short_escape_def simple_escape_def split: if_splits)

lemma parse_string_escape:
  assumes "c < 65536"
  shows "parse_string acc (unicode_escape c @ r) = parse_string (acc @ [c]) r"
  using hex4_escape [OF assms] by (simp add: unicode_escape_def)

lemma parse_string_plain:
  "short_escape c = None \<Longrightarrow> 32 \<le> c \<Longrightarrow> parse_string acc (c # r) = parse_string (acc @ [c]) r"
  by (auto simp: short_escape_def split: if_splits)

lemma quote_units_cases:
  assumes "short_escape c = None"
  obtains "c < 65536" "quote_units (c # s) = unicode_escape c @ quote_units s"
  | "32 \<le> c" "quote_units (c # s) = c # quote_units s"
  | d t where "s = d # t" "32 \<le> c" "trail_surrogate d" "quote_units (c # s) = c # d # quote_units t"
proof -
  consider (esc) "c < 32 \<or> trail_surrogate c" | (lead) "lead_surrogate c" | (plain) "32 \<le> c" "\<not> trail_surrogate c" "\<not> lead_surrogate c"
    by linarith
  then show thesis
  proof cases
    case lead
    then show ?thesis
    proof (cases s)
      case Nil
      with lead assms show ?thesis by (intro that(1)) simp_all
    next
      case (Cons d t)
      with lead assms show ?thesis
        by (cases "trail_surrogate d") (auto intro: that(1) that(3) simp del: quote_units.simps(2) simp: quote_units.simps(2) [of c])
    qed
  qed (use assms in \<open>auto intro: that(1) that(2)\<close>)
qed

lemma parse_string_quote: "parse_string acc (quote_units s @ 34 # r) = Some (acc @ s, r)"
proof (induction s arbitrary: acc rule: measure_induct_rule [of length])
  case (less s)
  show ?case
  proof (cases s)
    case s: (Cons c s')
    have IH: "parse_string acc (quote_units t @ 34 # r) = Some (acc @ t, r)" if "length t \<le> length s'" for t acc
      using less [of t acc] that s by simp
    show ?thesis
    proof (cases "short_escape c")
      case (Some e)
      with short_escape_inverse [OF Some] s IH [of s'] show ?thesis by simp
    next
      case None
      then show ?thesis
      proof (cases rule: quote_units_cases [of c s'])
        case (3 d t)
        then have "short_escape d = None" by (auto simp: short_escape_def)
        with 3 None s IH [of t] show ?thesis
          by (simp add: parse_string_plain del: parse_string.simps(2) quote_units.simps(2))
      qed (use None s IH [of s'] in
        \<open>simp_all add: parse_string_escape parse_string_plain del: parse_string.simps(2) quote_units.simps(2)\<close>)
    qed
  qed simp
qed

subsection \<open>Values\<close>

definition parses :: "jsval \<Rightarrow> jstring \<Rightarrow> bool" where
  "parses v t \<longleftrightarrow> t \<noteq> [] \<and> \<not> is_json_ws (hd t) \<and> hd t \<noteq> 93 \<and> (\<exists>n0. \<forall>n \<ge> n0. \<forall>r. delim r \<longrightarrow> parse_value n (t @ r) = Some (v, r))"

abbreviation all_ws :: "jstring \<Rightarrow> bool" where
  "all_ws w \<equiv> \<forall>c \<in> set w. is_json_ws c"

lemma skip_ws_append [simp]: "all_ws w \<Longrightarrow> skip_ws (w @ s) = skip_ws s"
  by (simp add: skip_ws_def)

lemma skip_ws_Cons [simp]: "skip_ws (c # s) = (if is_json_ws c then skip_ws s else c # s)"
  by (simp add: skip_ws_def)

lemma parse_value_ws [simp]: "all_ws w \<Longrightarrow> parse_value n (w @ s) = parse_value n s"
  by (cases n) simp_all

lemma delim_ws: "all_ws w \<Longrightarrow> c \<in> {44, 93, 125} \<Longrightarrow> delim (w @ c # r)"
  by (cases w) (auto simp: delim_def)

lemma not_json_ws [simp]: "\<not> is_json_ws 34" "\<not> is_json_ws 44" "\<not> is_json_ws 58" "\<not> is_json_ws 91" "\<not> is_json_ws 93"
  "\<not> is_json_ws 123" "\<not> is_json_ws 125" "\<not> is_json_ws 45" "is_json_ws 10" "is_json_ws 32"
  "\<not> is_json_ws 110" "\<not> is_json_ws 116" "\<not> is_json_ws 102"
  by (simp_all add: is_json_ws_def)

lemma parses_elements:
  assumes "list_all2 parses vs ts" "ts \<noteq> []" "all_ws w" "all_ws w'"
  shows "\<exists>n0. \<forall>n \<ge> n0. \<forall>acc r.
    parse_elements n acc (w @ join (44 # w) ts @ w' @ 93 # r) = Some (JArr (acc @ vs), r)"
  using assms(1,2)
proof (induction rule: list_all2_induct)
  case (Cons v vs t ts)
  obtain n1 where n1: "\<And>n r. n \<ge> n1 \<Longrightarrow> delim r \<Longrightarrow> parse_value n (t @ r) = Some (v, r)"
    using Cons.hyps(1) by (auto simp: parses_def)
  show ?case
  proof (cases "ts = []")
    case True
    with Cons.hyps(2) have [simp]: "vs = []" by simp
    have "parse_elements n acc (w @ t @ w' @ 93 # r) = Some (JArr (acc @ [v]), r)" if "n \<ge> Suc n1" for n acc r
      using that n1 [of "n - 1" "w' @ 93 # r"] assms(3,4) delim_ws [OF assms(4), of 93 r]
      by (cases n) simp_all
    with True show ?thesis by auto
  next
    case False
    then obtain n2 where n2: "\<And>n acc r. n \<ge> n2 \<Longrightarrow>
        parse_elements n acc (w @ join (44 # w) ts @ w' @ 93 # r) = Some (JArr (acc @ vs), r)"
      using Cons.IH by blast
    have j: "join (44 # w) (t # ts) = t @ 44 # w @ join (44 # w) ts"
      using False by (cases ts) simp_all
    have "parse_elements n acc (w @ join (44 # w) (t # ts) @ w' @ 93 # r) = Some (JArr (acc @ v # vs), r)"
      if "n \<ge> Suc (max n1 n2)" for n acc r
      using that n1 [of "n - 1" "44 # w @ join (44 # w) ts @ w' @ 93 # r"] n2 [of "n - 1" "acc @ [v]" r] assms(3)
      by (cases n) (simp_all add: j delim_def)
    then show ?thesis by blast
  qed
qed simp

definition member_text :: "jstring \<Rightarrow> jstring \<times> jstring \<Rightarrow> jstring" where
  "member_text gap = (\<lambda>(k, t). json_quote k @ json_colon gap @ t)"

lemma parse_colon:
  assumes "\<And>r. delim r \<Longrightarrow> parse_value n (t @ r) = Some (v, r)" "delim r"
  shows "parse_members (Suc n) acc (member_text gap (k, t) @ r) =
    (case skip_ws r of
       c2 # r3 \<Rightarrow> if c2 = 44 then parse_members n (AList.update k v acc) r3
                 else if c2 = 125 then Some (JObj (AList.update k v acc), r3) else None
     | [] \<Rightarrow> None)"
proof -
  have "parse_value n ([32] @ t @ r) = parse_value n (t @ r)" by (rule parse_value_ws) simp
  with assms show ?thesis
    by (simp add: member_text_def json_quote_def json_colon_def parse_string_quote)
qed

lemma parse_members_ws: "all_ws w \<Longrightarrow> parse_members n acc (w @ s) = parse_members n acc s"
  by (cases n) simp_all

lemma parses_members:
  assumes "list_all2 (\<lambda>(k, v) (k', t). k = k' \<and> parses v t) ps ts" "ts \<noteq> []" "all_ws w" "all_ws w'"
    "distinct (map fst ps)"
  shows "\<exists>n0. \<forall>n \<ge> n0. \<forall>acc r. fst ` set acc \<inter> fst ` set ps = {} \<longrightarrow>
    parse_members n acc (w @ join (44 # w) (map (member_text gap) ts) @ w' @ 125 # r) = Some (JObj (acc @ ps), r)"
  using assms(1,2,5)
proof (induction rule: list_all2_induct)
  case (Cons p ps u ts)
  obtain k v t where p: "p = (k, v)" "u = (k, t)" and "parses v t"
    using Cons.hyps(1) by (cases p; cases u) auto
  then obtain n1 where n1: "\<And>n r. n \<ge> n1 \<Longrightarrow> delim r \<Longrightarrow> parse_value n (t @ r) = Some (v, r)"
    by (auto simp: parses_def)
  have upd: "AList.update k v acc = acc @ [(k, v)]" if "k \<notin> fst ` set acc" for acc :: "(jstring \<times> jsval) list"
    using that by (induction acc) auto
  show ?case
  proof (cases "ts = []")
    case True
    with Cons.hyps(2) have [simp]: "ps = []" by simp
    have "parse_members n acc (w @ member_text gap u @ w' @ 125 # r) = Some (JObj (acc @ [p]), r)"
      if "n \<ge> Suc n1" "k \<notin> fst ` set acc" for n acc r
      using that parse_colon [of "n - 1" t v "w' @ 125 # r" acc gap k] n1 assms(3,4) delim_ws [OF assms(4), of 125 r]
      by (cases n) (simp_all add: p parse_members_ws upd del: parse_members.simps)
    with True p show ?thesis by (intro exI [of _ "Suc n1"]) (auto simp del: parse_members.simps)
  next
    case False
    let ?rest = "\<lambda>r. w @ join (44 # w) (map (member_text gap) ts) @ w' @ 125 # r"
    have "distinct (map fst ps)" using Cons.prems by simp
    from Cons.IH [OF False this] obtain n2 where n2: "\<And>n acc r. n \<ge> n2 \<Longrightarrow> fst ` set acc \<inter> fst ` set ps = {} \<Longrightarrow>
        parse_members n acc (?rest r) = Some (JObj (acc @ ps), r)"
      by blast
    have j: "join (44 # w) (map (member_text gap) (u # ts)) @ w' @ 125 # r = member_text gap u @ 44 # ?rest r" for r
      using False by (cases ts) simp_all
    have "parse_members n acc (w @ member_text gap u @ 44 # ?rest r) = Some (JObj (acc @ p # ps), r)"
      if "n \<ge> Suc (max n1 n2)" "fst ` set acc \<inter> fst ` set (p # ps) = {}" for n acc r
      using that parse_colon [of "n - 1" t v "44 # ?rest r" acc gap k] n1 n2 [of "n - 1" "acc @ [p]" r] assms(3) Cons.prems
      by (cases n) (auto simp: delim_def p parse_members_ws upd simp del: parse_members.simps)
    then show ?thesis unfolding j by blast
  qed
qed simp

lemma parses_wrap:
  assumes "all_ws gap" "all_ws ind"
  shows "list_all2 parses vs ts \<Longrightarrow> parses (JArr vs) (json_wrap 91 93 gap ind ts)"
    and "list_all2 (\<lambda>(k, v) (k', t). k = k' \<and> parses v t) ps us \<Longrightarrow> distinct (map fst ps) \<Longrightarrow>
      parses (JObj ps) (json_wrap 123 125 gap ind (map (member_text gap) us))"
proof -
  define w where "w = (if gap = [] then [] else 10 # ind @ gap)"
  define w' where "w' = (if gap = [] then [] else 10 # ind)"
  have ws: "all_ws w" "all_ws w'" using assms by (auto simp: w_def w'_def)
  have wrap: "json_wrap lb rb gap ind xs @ r = lb # w @ join (44 # w) xs @ w' @ rb # r" if "xs \<noteq> []" for lb rb xs r
    using that by (auto simp: json_wrap_def w_def w'_def)
  have empty: "parses (JArr []) [91, 93]" "parses (JObj []) [123, 125]"
    unfolding parses_def by (auto intro!: exI [of _ "1::nat"] simp: Suc_le_eq gr0_conv_Suc)
  show "parses (JArr vs) (json_wrap 91 93 gap ind ts)" if *: "list_all2 parses vs ts"
  proof (cases "ts = []")
    case True
    with * empty(1) show ?thesis by (simp add: json_wrap_def)
  next
    case False
    then obtain n0 where n0: "\<And>n acc r. n \<ge> n0 \<Longrightarrow>
        parse_elements n acc (w @ join (44 # w) ts @ w' @ 93 # r) = Some (JArr (acc @ vs), r)"
      using parses_elements [OF * False ws] by blast
    have "parse_value n (json_wrap 91 93 gap ind ts @ r) = Some (JArr vs, r)" if "n \<ge> Suc n0" for n r
    proof -
      obtain m where m: "n = Suc m" "m \<ge> n0" using \<open>n \<ge> Suc n0\<close> by (cases n) auto
      obtain t ts' where ts: "ts = t # ts'" using False by (cases ts) auto
      with * have "t \<noteq> []" "\<not> is_json_ws (hd t)" "hd t \<noteq> 93" by (auto simp: parses_def list_all2_Cons2)
      then obtain c s' where "skip_ws (w @ join (44 # w) ts @ w' @ 93 # r) = c # s'" "c \<noteq> 93"
        using ws by (cases ts'; cases t) (auto simp: ts)
      then show ?thesis
        using n0 [OF m(2), of "[]" r] by (simp add: wrap [OF False] m)
    qed
    moreover have "json_wrap 91 93 gap ind ts = 91 # w @ join (44 # w) ts @ w' @ [93]"
      using wrap [OF False, of 91 93 "[]"] by simp
    ultimately show ?thesis unfolding parses_def by auto
  qed
  show "parses (JObj ps) (json_wrap 123 125 gap ind (map (member_text gap) us))"
    if *: "list_all2 (\<lambda>(k, v) (k', t). k = k' \<and> parses v t) ps us" "distinct (map fst ps)"
  proof (cases "us = []")
    case True
    with * empty(2) show ?thesis by (simp add: json_wrap_def)
  next
    case False
    then obtain n0 where n0: "\<And>n r. n \<ge> n0 \<Longrightarrow>
        parse_members n [] (w @ join (44 # w) (map (member_text gap) us) @ w' @ 125 # r) = Some (JObj ps, r)"
      using parses_members [OF *(1) False ws *(2), of gap] by force
    have "parse_value n (json_wrap 123 125 gap ind (map (member_text gap) us) @ r) = Some (JObj ps, r)" if "n \<ge> Suc n0" for n r
    proof -
      obtain m where m: "n = Suc m" "m \<ge> n0" using \<open>n \<ge> Suc n0\<close> by (cases n) auto
      obtain k t us' where us: "us = (k, t) # us'" using False by (cases us) auto
      obtain s' where "skip_ws (w @ join (44 # w) (map (member_text gap) us) @ w' @ 125 # r) = 34 # s'"
        using ws by (cases us') (auto simp: us member_text_def json_quote_def)
      with n0 [OF m(2), of r] False show ?thesis
        by (simp add: wrap m)
    qed
    moreover have "json_wrap 123 125 gap ind (map (member_text gap) us) = 123 # w @ join (44 # w) (map (member_text gap) us) @ w' @ [125]"
      using wrap [of "map (member_text gap) us" 123 125 "[]"] False by simp
    ultimately show ?thesis unfolding parses_def by auto
  qed
qed

lemma parses_num:
  assumes "prints_num num q"
  shows "parses (JNum (Fin q)) (num q)"
proof -
  obtain c s where c: "num q = c # s" "is_digit c \<or> c = 45"
    using assms by (cases "num q") (auto simp: prints_num_def)
  then have cs: "\<not> is_json_ws c" "c \<notin> {123, 91, 34, 116, 102, 110, 93}"
    by (auto simp: is_json_ws_def is_digit_def)
  have "parse_value n (num q @ r) = Some (JNum (Fin q), r)" if "n \<ge> 1" "delim r" for n r
    using that assms cs by (cases n) (auto simp: prints_num_def c)
  with c cs show ?thesis unfolding parses_def by auto
qed

lemma parses_literal:
  "parses Null (lit ''null'')" "parses (JBool True) (lit ''true'')" "parses (JBool False) (lit ''false'')"
  by (auto simp: parses_def lit_def expect_def starts_with_def Suc_le_eq gr0_conv_Suc intro!: exI [of _ "1::nat"])

lemma parses_string: "parses (JStr s) (json_quote s)"
  by (auto simp: parses_def json_quote_def parse_string_quote Suc_le_eq gr0_conv_Suc intro!: exI [of _ "1::nat"])

lemma json_ser_None: "json_ser num gap ind v = None \<longleftrightarrow> v = Undefined" "json_view v = None \<longleftrightarrow> v = Undefined"
  by (cases v; simp)+

lemma parses_ser:
  assumes "all_ws gap"
  shows "all_ws ind \<Longrightarrow> json_ok num v \<Longrightarrow> v \<noteq> Undefined \<Longrightarrow> parses (the (json_view v)) (the (json_ser num gap ind v))"
proof (induction v arbitrary: ind)
  case (JNum n)
  then show ?case by (auto intro: parses_num parses_literal split: option.splits)
next
  case (JArr vs)
  have "list_all2 parses (map (\<lambda>v. coalesce (json_view v) Null) vs)
      (map (\<lambda>v. coalesce (json_ser num gap (ind @ gap) v) (lit ''null'')) vs)"
  proof (unfold list.rel_map, rule list.rel_refl_strong)
    fix v assume "v \<in> set vs"
    then have "v \<noteq> Undefined \<Longrightarrow> parses (the (json_view v)) (the (json_ser num gap (ind @ gap) v))"
      using JArr.IH [of v "ind @ gap"] JArr.prems assms by auto
    then show "parses (coalesce (json_view v) Null) (coalesce (json_ser num gap (ind @ gap) v) (lit ''null''))"
      by (cases "v = Undefined") (auto simp: coalesce_def parses_literal json_ser_None split: option.splits)
  qed
  then show ?case using parses_wrap(1) [OF assms JArr.prems(1)] by simp
next
  case (JObj ps)
  let ?view = "\<lambda>ps. concat (map (\<lambda>(k, v). case json_view v of None \<Rightarrow> [] | Some x \<Rightarrow> [(k, x)]) ps)"
  let ?us = "\<lambda>ps. concat (map (\<lambda>(k, v). case json_ser num gap (ind @ gap) v of None \<Rightarrow> [] | Some t \<Rightarrow> [(k, t)]) ps)"
  have texts: "concat (map (\<lambda>(k, v). case json_ser num gap (ind @ gap) v of
          None \<Rightarrow> [] | Some t \<Rightarrow> [json_quote k @ json_colon gap @ t]) qs) = map (member_text gap) (?us qs)" for qs
    by (induction qs) (auto simp: member_text_def split: option.splits)
  have "list_all2 (\<lambda>(k, v) (k', t). k = k' \<and> parses v t) (?view qs) (?us qs)" if "set qs \<subseteq> set ps" for qs
    using that
  proof (induction qs)
    case (Cons q qs)
    obtain k v where q: "q = (k, v)" by fastforce
    with Cons.prems have "(k, v) \<in> set ps" by simp
    then have "parses (the (json_view v)) (the (json_ser num gap (ind @ gap) v))" if "v \<noteq> Undefined"
      using JObj.IH [of "(k, v)" v "ind @ gap"] JObj.prems assms that by fastforce
    with Cons q show ?case
      by (cases "v = Undefined") (auto simp: json_ser_None split: option.splits)
  qed simp
  moreover have "map fst (?view qs) = map fst (filter (\<lambda>q. json_view (snd q) \<noteq> None) qs)" for qs
    by (induction qs) (auto split: option.splits)
  then have "distinct (map fst (?view ps))"
    using JObj.prems(2) distinct_map_filter [of fst ps "\<lambda>q. json_view (snd q) \<noteq> None"]
    unfolding json_ok.simps by metis
  ultimately show ?case
    using parses_wrap(2) [OF assms JObj.prems(1), of "?view ps" "?us ps"] JObj.prems(2) by (simp add: texts)
qed (simp_all add: parses_literal parses_string)

text \<open>Parsing what was printed gives the JSON view of the value.\<close>

lemma json_parse_stringify:
  assumes "all_ws gap" and "json_ok num v" and "json_stringify num gap v = Some t"
  shows "json_parse t = json_view v"
proof -
  have v: "v \<noteq> Undefined" using assms(3) by (auto simp: json_stringify_def)
  then have "parses (the (json_view v)) t"
    using parses_ser [OF assms(1) _ assms(2), of "[]"] assms(3) by (simp add: json_stringify_def)
  then obtain n0 where "\<And>n. n \<ge> n0 \<Longrightarrow> parse_value n t = Some (the (json_view v), [])"
    unfolding parses_def by (metis append_Nil2 delim_def)
  then have "parse_value (2 * length t + 2 + n0) t = Some (the (json_view v), [])"
    by (meson le_add2)
  then have "parse_value (2 * length t + 2) t = Some (the (json_view v), [])"
    using parse_value_fuel [of t "2 * length t + 2" n0] by simp
  then show ?thesis
    using v json_ser_None(2) [of v] by (auto simp: json_parse_def skip_ws_def simp del: parse_value.simps)
qed

subsection \<open>Values and their views\<close>

text \<open>A value and its JSON view have the same text.\<close>

lemma json_ser_view: "json_view v = Some w \<Longrightarrow> json_ser num gap ind w = json_ser num gap ind v"
proof (induction num gap ind v arbitrary: w rule: json_ser.induct)
  case (6 num gap ind vs)
  have "json_ser num gap (ind @ gap) (coalesce (json_view v) Null) = Some (coalesce (json_ser num gap (ind @ gap) v) (lit ''null''))"
    if "v \<in> set vs" for v
  proof (cases "json_view v")
    case None
    then show ?thesis using json_ser_None(2) by (auto simp: coalesce_def)
  next
    case (Some x)
    then have "json_ser num gap (ind @ gap) v \<noteq> None" using json_ser_None by (metis option.distinct(1))
    then show ?thesis using Some 6(1) [OF that Some] by (auto simp: coalesce_def)
  qed
  then have "map (\<lambda>v. coalesce (json_ser num gap (ind @ gap) (coalesce (json_view v) Null)) (lit ''null'')) vs
    = map (\<lambda>v. coalesce (json_ser num gap (ind @ gap) v) (lit ''null'')) vs" by (simp add: coalesce_def)
  then show ?case using 6(2) by (auto simp: comp_def intro!: arg_cong [where f = "json_wrap 91 93 gap ind"])
next
  case (7 num gap ind ps)
  let ?f = "\<lambda>(k, v). case json_ser num gap (ind @ gap) v of None \<Rightarrow> [] | Some t \<Rightarrow> [json_quote k @ json_colon gap @ t]"
  let ?g = "\<lambda>(k, v). case json_view v of None \<Rightarrow> [] | Some x \<Rightarrow> [(k, x)]"
  have one: "concat (map ?f (?g p)) = ?f p" if "p \<in> set ps" for p
  proof -
    obtain k v where p: "p = (k, v)" by (cases p)
    show ?thesis
    proof (cases "json_view v")
      case None
      then have "json_ser num gap (ind @ gap) v = None" using json_ser_None by metis
      then show ?thesis using None p by simp
    next
      case (Some x)
      then have "json_ser num gap (ind @ gap) x = json_ser num gap (ind @ gap) v" using 7(1) that p by blast
      then show ?thesis using Some p by (simp split: option.split)
    qed
  qed
  have "concat (map ?f (concat (map ?g ps))) = concat (map ?f ps)"
    using one by (induction ps) auto
  then show ?case using 7(2) by auto
qed (auto split: option.splits)

lemma json_stringify_view: "json_view v = Some w \<Longrightarrow> json_stringify num gap w = json_stringify num gap v"
  by (simp add: json_stringify_def json_ser_view)

text \<open>The view of an object whose properties all have one.\<close>

definition view_props :: "(jstring \<times> jsval) list \<Rightarrow> (jstring \<times> jsval) list" where
  "view_props ps = map (\<lambda>(k, v). (k, coalesce (json_view v) Null)) ps"

lemma json_view_props:
  "\<forall>(k, v) \<in> set ps. v \<noteq> Undefined \<Longrightarrow> json_view (JObj ps) = Some (JObj (view_props ps))"
proof -
  assume a: "\<forall>(k, v) \<in> set ps. v \<noteq> Undefined"
  have "concat (map (\<lambda>(k, v). case json_view v of None \<Rightarrow> [] | Some x \<Rightarrow> [(k, x)]) ps) = view_props ps"
    using a
  proof (induction ps)
    case (Cons p ps)
    obtain k v where p: "p = (k, v)" by (cases p)
    then obtain x where "json_view v = Some x" using Cons.prems json_ser_None(2) by fastforce
    then show ?case using Cons p by (simp add: view_props_def coalesce_def)
  qed (simp add: view_props_def)
  then show ?thesis by simp
qed

lemma map_of_view_props: "map_of (view_props ps) k = map_option (\<lambda>v. coalesce (json_view v) Null) (map_of ps k)"
  by (induction ps) (auto simp: view_props_def)

lemma view_props_id: "json_view (JObj ps) = Some (JObj ps) \<Longrightarrow> (k, v) \<in> set ps \<Longrightarrow> json_view v = Some v"
proof -
  let ?g = "\<lambda>(k, v). case json_view v of None \<Rightarrow> [] | Some x \<Rightarrow> [(k, x)]"
  have len: "length (concat (map ?g qs)) \<le> length qs" for qs by (induction qs) (auto split: option.splits)
  have "concat (map ?g ps) = ps \<Longrightarrow> (k, v) \<in> set ps \<Longrightarrow> json_view v = Some v"
  proof (induction ps)
    case (Cons p ps)
    obtain k' v' where p: "p = (k', v')" by (cases p)
    show ?case
    proof (cases "json_view v'")
      case None
      then have "concat (map ?g ps) = p # ps" using Cons.prems(1) p by simp
      then show ?thesis using len [of ps] by simp
    next
      case (Some x)
      then have "x = v'" "concat (map ?g ps) = ps" using Cons.prems(1) p by simp_all
      then show ?thesis using Cons Some p by auto
    qed
  qed simp
  then show "json_view (JObj ps) = Some (JObj ps) \<Longrightarrow> (k, v) \<in> set ps \<Longrightarrow> json_view v = Some v" by simp
qed

lemma json_view_idem: "json_view v = Some w \<Longrightarrow> json_view w = Some w"
proof (induction v arbitrary: w rule: json_view.induct)
  case (6 vs)
  have "coalesce (json_view (coalesce (json_view v) Null)) Null = coalesce (json_view v) Null" if "v \<in> set vs" for v
    using 6(1) [OF that] by (cases "json_view v") (auto simp: coalesce_def)
  then show ?case using 6(2) by auto
next
  case (7 ps)
  let ?g = "\<lambda>(k, v). case json_view v of None \<Rightarrow> [] | Some x \<Rightarrow> [(k, x)]"
  have "concat (map ?g (?g p)) = ?g p" if "p \<in> set ps" for p
    using 7(1) that by (cases p) (force split: option.splits)
  then have "concat (map ?g (concat (map ?g ps))) = concat (map ?g ps)" by (induction ps) auto
  then show ?case using 7(2) by auto
qed (auto split: option.splits)

lemma view_props_update:
  "view_props (AList.update k v ps) = AList.update k (coalesce (json_view v) Null) (view_props ps)"
  by (induction ps) (auto simp: view_props_def)

lemma view_props_idem: "view_props (view_props ps) = view_props ps"
proof -
  have "coalesce (json_view (coalesce (json_view v) Null)) Null = coalesce (json_view v) Null" for v
    using json_view_idem [of v] by (cases "json_view v") (auto simp: coalesce_def)
  then show ?thesis by (auto simp: view_props_def)
qed

end
