(* ===== verification/Json_Clone.thy ===== *)
theory Json_Clone
  imports JS_Stringify
begin

section \<open>Deep copies (\<^verbatim>\<open>web/src/lib/json-clone.ts\<close>)\<close>

text \<open>
  \<^verbatim>\<open>cloneJsonValue\<close> walks a graph of objects with the stack of the objects it is inside of. Objects
  live in a heap, so that shared and circular structures are those of the program: a value is a
  primitive or a reference, an object an array, a function, a boxed primitive or a list of own
  properties, each with the \<^verbatim>\<open>toJSON\<close> method it has or inherits; the heap also has the method that
  \<^verbatim>\<open>BigInt.prototype\<close> may have been given. The copy is a tree, as all its objects are fresh.
  A reference outside the heap does not occur; the code path for it is that of a circular one.
  The recursion ends because the stack never holds an object twice.

  The reference is \<^verbatim>\<open>JSON.parse(JSON.stringify(value))\<close>, with the serialisation of the language
  standard on the same heaps (\<open>serialize\<close>, with its own preparation of a value) and the parser of
  \<^verbatim>\<open>JS_Json\<close>.
\<close>

datatype hval =
    V_undefined
  | V_null
  | V_bool bool
  | V_num jnum
  | V_str jstring
  | V_bigint int
  | V_symbol
  | V_ref nat

datatype hshape =
    H_array "hval list"
  | H_object "(jstring \<times> hval) list"
  | H_function
  | H_boxed hval

record hobj =
  shape :: hshape
  toJSON :: "(jstring \<Rightarrow> hval) option"

record heap =
  objects :: "hobj list"
  bigint_toJSON :: "(int \<Rightarrow> jstring \<Rightarrow> hval) option"

datatype clone_error = BigInt_error | Circular_error | No_representation

text \<open>The shape behind a value, if it is a reference\<close>

definition shape_of :: "heap \<Rightarrow> hval \<Rightarrow> hshape option" where
  "shape_of h v = (case v of V_ref a \<Rightarrow> if a < length (objects h) then Some (shape (objects h ! a)) else None | _ \<Rightarrow> None)"

definition toJSON_of :: "heap \<Rightarrow> hval \<Rightarrow> (jstring \<Rightarrow> hval) option" where
  "toJSON_of h v =
     (case v of
        V_ref a \<Rightarrow> if a < length (objects h) then toJSON (objects h ! a) else None
      | V_bigint i \<Rightarrow> map_option (\<lambda>f. f i) (bigint_toJSON h)
      | _ \<Rightarrow> None)"

subsection \<open>The copy\<close>

text \<open>The first step: the method is called on what \<^verbatim>\<open>typeof\<close> calls an object or a bigint, not on a function.\<close>

definition apply_toJSON :: "heap \<Rightarrow> jstring \<Rightarrow> hval \<Rightarrow> hval" where
  "apply_toJSON h key v =
     (if shape_of h v = Some H_function then v
      else case toJSON_of h v of None \<Rightarrow> v | Some f \<Rightarrow> f key)"

text \<open>The second step: instances of \<^verbatim>\<open>Number\<close>, \<^verbatim>\<open>String\<close> and \<^verbatim>\<open>Boolean\<close> are unwrapped.\<close>

definition unbox :: "heap \<Rightarrow> hval \<Rightarrow> hval" where
  "unbox h v =
     (case shape_of h v of
        Some (H_boxed p) \<Rightarrow> (case p of V_num n \<Rightarrow> p | V_str s \<Rightarrow> p | V_bool b \<Rightarrow> p | _ \<Rightarrow> v)
      | _ \<Rightarrow> v)"

definition prepare :: "heap \<Rightarrow> jstring \<Rightarrow> hval \<Rightarrow> hval" where
  "prepare h key v = unbox h (apply_toJSON h key v)"

text \<open>The branches of the \<^verbatim>\<open>switch\<close>; \<open>None\<close> is the marker \<^verbatim>\<open>OMIT\<close>. A reference is left to the caller.\<close>

fun convert_primitive :: "hval \<Rightarrow> clone_error + jsval option" where
  "convert_primitive V_null = Inr (Some Null)"
| "convert_primitive (V_str s) = Inr (Some (JStr s))"
| "convert_primitive (V_bool b) = Inr (Some (JBool b))"
| "convert_primitive (V_num n) =
     Inr (Some (if \<not> num_isFinite n then Null else if n = NegZero then JNum (Fin 0) else JNum n))"
| "convert_primitive (V_bigint i) = Inl BigInt_error"
| "convert_primitive _ = Inr None"

text \<open>Assigning \<^verbatim>\<open>result['__proto__']\<close> calls the setter of the prototype: no own property arises.\<close>

definition set_own :: "jstring \<Rightarrow> jsval \<Rightarrow> (jstring \<times> jsval) list \<Rightarrow> (jstring \<times> jsval) list" where
  "set_own k x ps = (if k = lit ''__proto__'' then ps else (k, x) # ps)"

function convertToJsonValue :: "heap \<Rightarrow> nat list \<Rightarrow> jstring \<Rightarrow> hval \<Rightarrow> clone_error + jsval option"
  and convert_items :: "heap \<Rightarrow> nat list \<Rightarrow> nat \<Rightarrow> hval list \<Rightarrow> clone_error + jsval list"
  and convert_props :: "heap \<Rightarrow> nat list \<Rightarrow> (jstring \<times> hval) list \<Rightarrow> clone_error + (jstring \<times> jsval) list" where
  "convertToJsonValue h ancestors key value =
     (case prepare h key value of
        V_ref a \<Rightarrow>
          if shape_of h (V_ref a) = Some H_function then Inr None
          else if a \<in> set ancestors \<or> a \<ge> length (objects h) then Inl Circular_error
          else (case shape (objects h ! a) of
              H_array vs \<Rightarrow> map_sum id (\<lambda>xs. Some (JArr xs)) (convert_items h (a # ancestors) 0 vs)
            | H_object ps \<Rightarrow> map_sum id (\<lambda>xs. Some (JObj xs)) (convert_props h (a # ancestors) ps)
            | _ \<Rightarrow> Inr (Some (JObj [])))
      | v \<Rightarrow> convert_primitive v)"
| "convert_items h ancestors index [] = Inr []"
| "convert_items h ancestors index (v # vs) =
     (case convertToJsonValue h ancestors (show_nat index) v of
        Inl e \<Rightarrow> Inl e
      | Inr item \<Rightarrow> map_sum id (\<lambda>xs. coalesce item Null # xs) (convert_items h ancestors (Suc index) vs))"
| "convert_props h ancestors [] = Inr []"
| "convert_props h ancestors ((k, v) # ps) =
     (case convertToJsonValue h ancestors k v of
        Inl e \<Rightarrow> Inl e
      | Inr item \<Rightarrow> map_sum id (\<lambda>xs. case item of None \<Rightarrow> xs | Some x \<Rightarrow> set_own k x xs) (convert_props h ancestors ps))"
  by pat_completeness auto
termination
  by (relation "measures [
        \<lambda>x. case x of Inl (h, anc, k, v) \<Rightarrow> card ({..<length (objects h)} - set anc)
            | Inr (Inl (h, anc, i, vs)) \<Rightarrow> card ({..<length (objects h)} - set anc)
            | Inr (Inr (h, anc, ps)) \<Rightarrow> card ({..<length (objects h)} - set anc),
        \<lambda>x. case x of Inl _ \<Rightarrow> 0 | Inr (Inl (h, anc, i, vs)) \<Rightarrow> Suc (length vs)
            | Inr (Inr (h, anc, ps)) \<Rightarrow> Suc (length ps)]")
    (auto simp: card_gt_0_iff subset_iff not_le intro!: diff_less)

definition cloneJsonValue :: "heap \<Rightarrow> hval \<Rightarrow> clone_error + jsval" where
  "cloneJsonValue h v =
     (case convertToJsonValue h [] [] v of
        Inl e \<Rightarrow> Inl e
      | Inr None \<Rightarrow> Inl No_representation
      | Inr (Some x) \<Rightarrow> Inr x)"

subsection \<open>The reference\<close>

text \<open>
  \<^verbatim>\<open>JSON.stringify(value)\<close> of the language standard: \<^verbatim>\<open>SerializeJSONProperty\<close> with its stack,
  \<^verbatim>\<open>SerializeJSONArray\<close> and \<^verbatim>\<open>SerializeJSONObject\<close>, without a replacer and without a gap.
\<close>

text \<open>
  In the standard the method of every object and of a bigint is called, of a function too, and the
  primitives of \<^verbatim>\<open>Number\<close>, \<^verbatim>\<open>String\<close>, \<^verbatim>\<open>Boolean\<close> and \<^verbatim>\<open>BigInt\<close> objects are taken out.
\<close>

definition std_toJSON :: "heap \<Rightarrow> jstring \<Rightarrow> hval \<Rightarrow> hval" where
  "std_toJSON h key v = (case toJSON_of h v of None \<Rightarrow> v | Some f \<Rightarrow> f key)"

definition std_unbox :: "heap \<Rightarrow> hval \<Rightarrow> hval" where
  "std_unbox h v =
     (case shape_of h v of
        Some (H_boxed p) \<Rightarrow> (case p of V_num n \<Rightarrow> p | V_str s \<Rightarrow> p | V_bool b \<Rightarrow> p | V_bigint i \<Rightarrow> p | _ \<Rightarrow> v)
      | _ \<Rightarrow> v)"

definition std_prepare :: "heap \<Rightarrow> jstring \<Rightarrow> hval \<Rightarrow> hval" where
  "std_prepare h key v = std_unbox h (std_toJSON h key v)"

fun serialize_primitive :: "(rat \<Rightarrow> jstring) \<Rightarrow> hval \<Rightarrow> clone_error + jstring option" where
  "serialize_primitive num V_null = Inr (Some (lit ''null''))"
| "serialize_primitive num (V_bool b) = Inr (Some (if b then lit ''true'' else lit ''false''))"
| "serialize_primitive num (V_str s) = Inr (Some (json_quote s))"
| "serialize_primitive num (V_num n) =
     Inr (Some (case num_val n of None \<Rightarrow> lit ''null'' | Some q \<Rightarrow> num q))"
| "serialize_primitive num (V_bigint i) = Inl BigInt_error"
| "serialize_primitive num _ = Inr None"

function serialize :: "(rat \<Rightarrow> jstring) \<Rightarrow> heap \<Rightarrow> nat list \<Rightarrow> jstring \<Rightarrow> hval \<Rightarrow> clone_error + jstring option"
  and serialize_items :: "(rat \<Rightarrow> jstring) \<Rightarrow> heap \<Rightarrow> nat list \<Rightarrow> nat \<Rightarrow> hval list \<Rightarrow> clone_error + jstring list"
  and serialize_props :: "(rat \<Rightarrow> jstring) \<Rightarrow> heap \<Rightarrow> nat list \<Rightarrow> (jstring \<times> hval) list \<Rightarrow> clone_error + jstring list" where
  "serialize num h stack key value =
     (case std_prepare h key value of
        V_ref a \<Rightarrow>
          if shape_of h (V_ref a) = Some H_function then Inr None
          else if a \<in> set stack \<or> a \<ge> length (objects h) then Inl Circular_error
          else (case shape (objects h ! a) of
              H_array vs \<Rightarrow> map_sum id (\<lambda>ts. Some (json_wrap 91 93 [] [] ts)) (serialize_items num h (a # stack) 0 vs)
            | H_object ps \<Rightarrow> map_sum id (\<lambda>ts. Some (json_wrap 123 125 [] [] ts)) (serialize_props num h (a # stack) ps)
            | _ \<Rightarrow> Inr (Some (json_wrap 123 125 [] [] [])))
      | v \<Rightarrow> serialize_primitive num v)"
| "serialize_items num h stack index [] = Inr []"
| "serialize_items num h stack index (v # vs) =
     (case serialize num h stack (show_nat index) v of
        Inl e \<Rightarrow> Inl e
      | Inr t \<Rightarrow> map_sum id (\<lambda>ts. coalesce t (lit ''null'') # ts) (serialize_items num h stack (Suc index) vs))"
| "serialize_props num h stack [] = Inr []"
| "serialize_props num h stack ((k, v) # ps) =
     (case serialize num h stack k v of
        Inl e \<Rightarrow> Inl e
      | Inr t \<Rightarrow> map_sum id (\<lambda>ts. case t of None \<Rightarrow> ts | Some u \<Rightarrow> (json_quote k @ 58 # u) # ts)
                  (serialize_props num h stack ps))"
  by pat_completeness auto
termination
  by (relation "measures [
        \<lambda>x. case x of Inl (n, h, anc, k, v) \<Rightarrow> card ({..<length (objects h)} - set anc)
            | Inr (Inl (n, h, anc, i, vs)) \<Rightarrow> card ({..<length (objects h)} - set anc)
            | Inr (Inr (n, h, anc, ps)) \<Rightarrow> card ({..<length (objects h)} - set anc),
        \<lambda>x. case x of Inl _ \<Rightarrow> 0 | Inr (Inl (n, h, anc, i, vs)) \<Rightarrow> Suc (length vs)
            | Inr (Inr (n, h, anc, ps)) \<Rightarrow> Suc (length ps)]")
    (auto simp: card_gt_0_iff subset_iff not_le intro!: diff_less)

definition json_roundtrip :: "(rat \<Rightarrow> jstring) \<Rightarrow> heap \<Rightarrow> hval \<Rightarrow> clone_error + jsval" where
  "json_roundtrip num h v =
     (case serialize num h [] [] v of
        Inl e \<Rightarrow> Inl e
      | Inr None \<Rightarrow> Inl No_representation
      | Inr (Some t) \<Rightarrow> (case json_parse t of None \<Rightarrow> Inl No_representation | Some x \<Rightarrow> Inr x))"

text \<open>
  What the heaps of the program have: numbers that are read back from their print, and each property of
  an object once.
\<close>

definition val_ok :: "(rat \<Rightarrow> jstring) \<Rightarrow> hval \<Rightarrow> bool" where
  "val_ok num v = (case v of V_num n \<Rightarrow> json_ok num (JNum n) | _ \<Rightarrow> True)"

definition shape_ok :: "(rat \<Rightarrow> jstring) \<Rightarrow> hshape \<Rightarrow> bool" where
  "shape_ok num s =
     (case s of
        H_array vs \<Rightarrow> list_all (val_ok num) vs
      | H_object ps \<Rightarrow> distinct (map fst ps) \<and> list_all (val_ok num) (map snd ps)
      | H_boxed p \<Rightarrow> val_ok num p
      | H_function \<Rightarrow> True)"

definition heap_ok :: "(rat \<Rightarrow> jstring) \<Rightarrow> heap \<Rightarrow> bool" where
  "heap_ok num h \<longleftrightarrow>
     (\<forall>ob \<in> set (objects h). shape_ok num (shape ob) \<and> (case toJSON ob of None \<Rightarrow> True | Some f \<Rightarrow> \<forall>k. val_ok num (f k))) \<and>
     (case bigint_toJSON h of None \<Rightarrow> True | Some f \<Rightarrow> \<forall>i k. val_ok num (f i k))"

text \<open>Where the copy and the standard part: a function with a method \<^verbatim>\<open>toJSON\<close>, and a boxed bigint.\<close>

definition common_object :: "hobj \<Rightarrow> bool" where
  "common_object ob \<longleftrightarrow> (shape ob = H_function \<longrightarrow> toJSON ob = None) \<and> (\<forall>i. shape ob \<noteq> H_boxed (V_bigint i))"

text \<open>A value without the properties called \<^verbatim>\<open>__proto__\<close>, inside as well\<close>

fun drop_proto :: "jsval \<Rightarrow> jsval" where
  "drop_proto (JObj ps) =
     JObj (concat (map (\<lambda>(k, x). if k = lit ''__proto__'' then [] else [(k, drop_proto x)]) ps))"
| "drop_proto (JArr xs) = JArr (map drop_proto xs)"
| "drop_proto x = x"

subsection \<open>The copy is the round trip\<close>

definition json_plain :: "(rat \<Rightarrow> jstring) \<Rightarrow> jsval \<Rightarrow> bool" where
  "json_plain num x \<longleftrightarrow> json_view x = Some x \<and> json_ok num x"

definition json_text :: "(rat \<Rightarrow> jstring) \<Rightarrow> jsval \<Rightarrow> jstring" where
  "json_text num x = the (json_ser num [] [] x)"

lemma heap_okD:
  assumes "heap_ok num h" "a < length (objects h)"
  shows "shape_ok num (shape (objects h ! a))" "toJSON (objects h ! a) = Some f \<Longrightarrow> val_ok num (f k)"
  using assms nth_mem [of a "objects h"] unfolding heap_ok_def by fastforce+

lemma val_ok_prepare:
  assumes "heap_ok num h" "val_ok num v"
  shows "val_ok num (prepare h k v)"
proof -
  have "val_ok num (f k)" if "toJSON_of h v = Some f" for f
    using that heap_okD(2) [OF assms(1)] assms(1)
    by (cases v) (auto simp: toJSON_of_def heap_ok_def split: if_splits)
  then have 1: "val_ok num (apply_toJSON h k v)"
    using assms(2) by (simp add: apply_toJSON_def split: option.split)
  have "val_ok num (unbox h u)" if "val_ok num u" for u
    using that heap_okD(1) [OF assms(1)]
    by (cases u) (force simp: unbox_def shape_of_def shape_ok_def split: hshape.splits hval.splits)+
  with 1 show ?thesis by (simp add: prepare_def)
qed

lemma prepare_common:
  assumes "list_all common_object (objects h)"
  shows "std_prepare h k v = prepare h k v"
proof -
  have ob: "common_object (objects h ! a)" if "a < length (objects h)" for a
    using assms that by (simp add: list_all_length)
  have 1: "std_toJSON h k v = apply_toJSON h k v"
    using ob by (cases v) (auto simp: std_toJSON_def apply_toJSON_def shape_of_def toJSON_of_def common_object_def split: if_splits)
  have "std_unbox h u = unbox h u" for u
    using ob by (cases u) (auto simp: std_unbox_def unbox_def shape_of_def common_object_def split: hshape.splits hval.splits)
  with 1 show ?thesis
    by (simp add: std_prepare_def prepare_def)
qed

lemma json_plain_not_Undefined [simp]: "\<not> json_plain num Undefined"
  by (simp add: json_plain_def)

lemma json_ser_text: "json_plain num x \<Longrightarrow> json_ser num [] [] x = Some (json_text num x)"
  by (cases x) (auto simp: json_text_def json_plain_def)

lemma convert_primitive_text:
  assumes "val_ok num v" "\<And>a. v \<noteq> V_ref a"
  shows "serialize_primitive num v = map_sum id (map_option (json_text num)) (convert_primitive v)
    \<and> (\<forall>x. convert_primitive v = Inr (Some x) \<longrightarrow> json_plain num x)"
proof (cases v)
  case (V_num n)
  with assms show ?thesis
    by (cases n) (auto simp: json_text_def json_plain_def val_ok_def num_isFinite_def)
qed (use assms in \<open>auto simp: json_text_def json_plain_def\<close>)

lemma json_plain_arr:
  assumes "list_all (json_plain num) xs"
  shows "json_plain num (JArr xs)" "json_text num (JArr xs) = json_wrap 91 93 [] [] (map (json_text num) xs)"
proof -
  have "map (\<lambda>v. coalesce (json_view v) Null) xs = xs"
    using assms by (induction xs) (auto simp: json_plain_def coalesce_def)
  with assms show "json_plain num (JArr xs)" by (auto simp: json_plain_def list_all_iff)
  have "map (\<lambda>v. coalesce (json_ser num [] [] v) (lit ''null'')) xs = map (json_text num) xs"
    using assms by (induction xs) (auto simp: json_ser_text coalesce_def)
  then show "json_text num (JArr xs) = json_wrap 91 93 [] [] (map (json_text num) xs)"
    by (simp only: json_text_def [of num "JArr xs"] json_ser.simps append_Nil option.sel)
qed

lemma json_plain_obj:
  assumes "list_all (json_plain num) (map snd ps)" "distinct (map fst ps)"
  shows "json_plain num (JObj ps)"
    "json_text num (JObj ps) = json_wrap 123 125 [] [] (map (\<lambda>(k, x). json_quote k @ 58 # json_text num x) ps)"
proof -
  have "concat (map (\<lambda>(k, v). case json_view v of None \<Rightarrow> [] | Some x \<Rightarrow> [(k, x)]) ps) = ps"
    using assms(1) by (induction ps) (auto simp: json_plain_def)
  with assms show "json_plain num (JObj ps)" by (auto simp: json_plain_def list_all_iff)
  have "concat (map (\<lambda>(k, v). case json_ser num [] [] v of None \<Rightarrow> [] | Some t \<Rightarrow> [json_quote k @ json_colon [] @ t]) ps)
      = map (\<lambda>(k, x). json_quote k @ 58 # json_text num x) ps"
    using assms(1) by (induction ps) (auto simp: json_ser_text json_colon_def)
  then show "json_text num (JObj ps) = json_wrap 123 125 [] [] (map (\<lambda>(k, x). json_quote k @ 58 # json_text num x) ps)"
    by (simp add: json_text_def [of num "JObj ps"])
qed

text \<open>
  The two walks agree: the text is that of a value \<open>r\<close> in JSON form, or the error is the same, and the
  copy is \<open>r\<close> without its properties \<^verbatim>\<open>__proto__\<close>.
\<close>

definition same_value :: "(rat \<Rightarrow> jstring) \<Rightarrow> clone_error + jsval option \<Rightarrow> clone_error + jstring option \<Rightarrow> bool" where
  "same_value num c t \<longleftrightarrow> (\<exists>r. t = map_sum id (map_option (json_text num)) r
     \<and> c = map_sum id (map_option drop_proto) r \<and> (\<forall>x. r = Inr (Some x) \<longrightarrow> json_plain num x))"

definition same_items :: "(rat \<Rightarrow> jstring) \<Rightarrow> clone_error + jsval list \<Rightarrow> clone_error + jstring list \<Rightarrow> bool" where
  "same_items num c t \<longleftrightarrow> (\<exists>r. t = map_sum id (map (json_text num)) r
     \<and> c = map_sum id (map drop_proto) r \<and> (\<forall>xs. r = Inr xs \<longrightarrow> list_all (json_plain num) xs))"

definition drop_proto_props :: "(jstring \<times> jsval) list \<Rightarrow> (jstring \<times> jsval) list" where
  "drop_proto_props ps = concat (map (\<lambda>(k, x). if k = lit ''__proto__'' then [] else [(k, drop_proto x)]) ps)"

definition same_props ::
    "(rat \<Rightarrow> jstring) \<Rightarrow> jstring list \<Rightarrow> clone_error + (jstring \<times> jsval) list \<Rightarrow> clone_error + jstring list \<Rightarrow> bool" where
  "same_props num ks c t \<longleftrightarrow> (\<exists>r. t = map_sum id (map (\<lambda>(k, x). json_quote k @ 58 # json_text num x)) r
     \<and> c = map_sum id drop_proto_props r
     \<and> (\<forall>xs. r = Inr xs \<longrightarrow> list_all (json_plain num) (map snd xs) \<and> distinct (map fst xs)
          \<and> set (map fst xs) \<subseteq> set ks))"

lemma json_text_null [simp]: "json_text num Null = lit ''null''" "json_plain num Null"
  by (simp_all add: json_text_def json_plain_def)

lemma same_value_error: "same_value num (Inl e) (Inl e)"
  unfolding same_value_def by (rule exI [of _ "Inl e"]) simp

lemma same_value_omit: "same_value num (Inr None) (Inr None)"
  unfolding same_value_def by (rule exI [of _ "Inr None"]) simp

lemma same_value_empty: "same_value num (Inr (Some (JObj []))) (Inr (Some (json_wrap 123 125 [] [] [])))"
  unfolding same_value_def by (rule exI [of _ "Inr (Some (JObj []))"]) (simp add: json_plain_obj)

lemma same_value_primitive:
  assumes "val_ok num v" "\<And>a. v \<noteq> V_ref a"
  shows "same_value num (convert_primitive v) (serialize_primitive num v)"
proof -
  have "drop_proto x = x" if "convert_primitive v = Inr (Some x)" for x
    using that by (cases v) (auto split: if_splits)
  then have "map_sum id (map_option drop_proto) (convert_primitive v) = convert_primitive v"
    by (cases "convert_primitive v") (auto simp: option.map_id0 intro: option.exhaust split: option.split, metis option.exhaust option.map(1, 2))
  then show ?thesis
    using convert_primitive_text [OF assms] unfolding same_value_def by metis
qed

lemma same_value_array:
  assumes "same_items num c t"
  shows "same_value num (map_sum id (\<lambda>xs. Some (JArr xs)) c) (map_sum id (\<lambda>ts. Some (json_wrap 91 93 [] [] ts)) t)"
proof -
  obtain r where r: "t = map_sum id (map (json_text num)) r" "c = map_sum id (map drop_proto) r"
    "\<And>xs. r = Inr xs \<Longrightarrow> list_all (json_plain num) xs"
    using assms unfolding same_items_def by blast
  show ?thesis
    unfolding same_value_def
    by (rule exI [of _ "map_sum id (\<lambda>xs. Some (JArr xs)) r"]) (cases r; use r in \<open>auto simp: json_plain_arr\<close>)
qed

lemma same_value_object:
  assumes "same_props num ks c t"
  shows "same_value num (map_sum id (\<lambda>xs. Some (JObj xs)) c) (map_sum id (\<lambda>ts. Some (json_wrap 123 125 [] [] ts)) t)"
proof -
  obtain r where r: "t = map_sum id (map (\<lambda>(k, x). json_quote k @ 58 # json_text num x)) r" "c = map_sum id drop_proto_props r"
    "\<And>xs. r = Inr xs \<Longrightarrow> list_all (json_plain num) (map snd xs) \<and> distinct (map fst xs)"
    using assms unfolding same_props_def by blast
  show ?thesis
    unfolding same_value_def
    by (rule exI [of _ "map_sum id (\<lambda>xs. Some (JObj xs)) r"])
      (cases r; use r in \<open>auto simp: json_plain_obj drop_proto_props_def\<close>)
qed

lemma convert_serialize:
  assumes "heap_ok num h" "list_all common_object (objects h)"
  shows "val_ok num v \<Longrightarrow> same_value num (convertToJsonValue h anc k v) (serialize num h anc k v)"
    and "list_all (val_ok num) vs \<Longrightarrow> same_items num (convert_items h anc i vs) (serialize_items num h anc i vs)"
    and "list_all (val_ok num) (map snd ps) \<Longrightarrow> distinct (map fst ps) \<Longrightarrow>
      same_props num (map fst ps) (convert_props h anc ps) (serialize_props num h anc ps)"
  using assms
proof (induction h anc k v and h anc i vs and h anc ps rule: convertToJsonValue_convert_items_convert_props.induct)
  case (1 h anc k v)
  have ok: "val_ok num (prepare h k v)" using val_ok_prepare 1 by blast
  have prep: "std_prepare h k v = prepare h k v"
    using prepare_common 1 by blast
  show ?case
  proof (cases "\<exists>a. prepare h k v = V_ref a")
    case False
    then have "convertToJsonValue h anc k v = convert_primitive (prepare h k v)"
      "serialize num h anc k v = serialize_primitive num (prepare h k v)"
      by (cases "prepare h k v"; simp add: prep)+
    then show ?thesis
      using same_value_primitive [OF ok] False by simp
  next
    case True
    then obtain a where a: "prepare h k v = V_ref a" by blast
    consider "shape_of h (V_ref a) = Some H_function" | "shape_of h (V_ref a) \<noteq> Some H_function" "a \<in> set anc \<or> a \<ge> length (objects h)"
      | "shape_of h (V_ref a) \<noteq> Some H_function" "\<not> (a \<in> set anc \<or> a \<ge> length (objects h))"
      by blast
    then show ?thesis
    proof cases
      case 1
      with a prep show ?thesis by (simp add: same_value_omit)
    next
      case 2
      with a prep show ?thesis by (simp add: same_value_error)
    next
      case 3
      then have sh: "shape_ok num (shape (objects h ! a))" using heap_okD(1) 1 by simp
      show ?thesis
      proof (cases "shape (objects h ! a)")
        case (H_array vs)
        with 1(1) [OF a 3 H_array] sh 1(4, 5) have
          "same_items num (convert_items h (a # anc) 0 vs) (serialize_items num h (a # anc) 0 vs)"
          by (simp add: shape_ok_def)
        from same_value_array [OF this] a 3 prep H_array show ?thesis by simp
      next
        case (H_object ps)
        with 1(2) [OF a 3 H_object] sh 1(4, 5) have
          "same_props num (map fst ps) (convert_props h (a # anc) ps) (serialize_props num h (a # anc) ps)"
          by (simp add: shape_ok_def)
        from same_value_object [OF this] a 3 prep H_object show ?thesis by simp
      next
        case (H_boxed p)
        with a 3 prep show ?thesis by (simp add: same_value_empty)
      next
        case H_function
        with a 3 show ?thesis by (simp add: shape_of_def)
      qed
    qed
  qed
next
  case (2 h anc i)
  show ?case
    unfolding same_items_def by (rule exI [of _ "Inr []"]) simp
next
  case (3 h anc i v vs)
  then have "same_value num (convertToJsonValue h anc (show_nat i) v) (serialize num h anc (show_nat i) v)"
    by simp
  then obtain r where r: "serialize num h anc (show_nat i) v = map_sum id (map_option (json_text num)) r"
    "convertToJsonValue h anc (show_nat i) v = map_sum id (map_option drop_proto) r" "\<And>x. r = Inr (Some x) \<Longrightarrow> json_plain num x"
    unfolding same_value_def by blast
  show ?case
  proof (cases r)
    case (Inl e)
    then show ?thesis
      unfolding same_items_def using r by (intro exI [of _ "Inl e"]) (simp del: convertToJsonValue.simps serialize.simps)
  next
    case (Inr item)
    with 3 r have "same_items num (convert_items h anc (Suc i) vs) (serialize_items num h anc (Suc i) vs)"
      by (simp del: convertToJsonValue.simps serialize.simps)
    then obtain q where q: "serialize_items num h anc (Suc i) vs = map_sum id (map (json_text num)) q"
      "convert_items h anc (Suc i) vs = map_sum id (map drop_proto) q" "\<And>xs. q = Inr xs \<Longrightarrow> list_all (json_plain num) xs"
      unfolding same_items_def by blast
    show ?thesis
      unfolding same_items_def
      by (rule exI [of _ "map_sum id (\<lambda>xs. coalesce item Null # xs) q"])
        (cases q; cases item; use r q Inr in \<open>auto simp: coalesce_def simp del: convertToJsonValue.simps serialize.simps\<close>)
  qed
next
  case (4 h anc)
  show ?case
    unfolding same_props_def by (rule exI [of _ "Inr []"]) (simp add: drop_proto_props_def)
next
  case (5 h anc k v ps)
  then have "same_value num (convertToJsonValue h anc k v) (serialize num h anc k v)"
    by simp
  then obtain r where r: "serialize num h anc k v = map_sum id (map_option (json_text num)) r"
    "convertToJsonValue h anc k v = map_sum id (map_option drop_proto) r" "\<And>x. r = Inr (Some x) \<Longrightarrow> json_plain num x"
    unfolding same_value_def by blast
  show ?case
  proof (cases r)
    case (Inl e)
    then show ?thesis
      unfolding same_props_def using r by (intro exI [of _ "Inl e"]) (simp del: convertToJsonValue.simps serialize.simps)
  next
    case (Inr item)
    with 5 r have "same_props num (map fst ps) (convert_props h anc ps) (serialize_props num h anc ps)"
      by (simp del: convertToJsonValue.simps serialize.simps)
    then obtain q where q: "serialize_props num h anc ps = map_sum id (map (\<lambda>(k, x). json_quote k @ 58 # json_text num x)) q"
      "convert_props h anc ps = map_sum id drop_proto_props q"
      "\<And>xs. q = Inr xs \<Longrightarrow> list_all (json_plain num) (map snd xs) \<and> distinct (map fst xs) \<and> set (map fst xs) \<subseteq> set (map fst ps)"
      unfolding same_props_def by blast
    show ?thesis
      unfolding same_props_def
      by (rule exI [of _ "map_sum id (\<lambda>xs. case item of None \<Rightarrow> xs | Some x \<Rightarrow> (k, x) # xs) q"])
        (cases q; cases item; use r q Inr 5(4) in
          \<open>auto simp: set_own_def drop_proto_props_def simp del: convertToJsonValue.simps serialize.simps\<close>)
  qed
qed

subsection \<open>Properties\<close>

text \<open>
  C26. cloneJsonValue against JSON.parse after JSON.stringify, whose semantics its documentation promises.
  On every heap without functions that have a method toJSON and without boxed bigints, with shared and
  circular structures, methods toJSON of objects and of bigints, boxed primitives, functions, symbols,
  undefined and numbers without a JSON form: it fails exactly when the round trip fails, for the same
  reason, and otherwise returns the result of the round trip without its properties called __proto__
  (so the very result when there is no such property). In particular it always returns, circular structures
  included.
\<close>

theorem cloneJsonValue_roundtrip:
  assumes "heap_ok num h" and "val_ok num v" and "list_all common_object (objects h)"
  shows "cloneJsonValue h v = map_sum id drop_proto (json_roundtrip num h v)"
proof -
  obtain r where r: "serialize num h [] [] v = map_sum id (map_option (json_text num)) r"
    "convertToJsonValue h [] [] v = map_sum id (map_option drop_proto) r" "\<And>x. r = Inr (Some x) \<Longrightarrow> json_plain num x"
    using convert_serialize(1) [OF assms(1, 3, 2)] unfolding same_value_def by blast
  have parse: "json_parse (json_text num x) = Some x" if "json_plain num x" for x
    using that json_parse_stringify [of "[]" num x "json_text num x"] json_ser_text [OF that]
    by (simp add: json_plain_def json_stringify_def)
  show ?thesis
  proof (cases r)
    case (Inr item)
    then show ?thesis
      using r parse by (cases item) (auto simp: cloneJsonValue_def json_roundtrip_def simp del: convertToJsonValue.simps serialize.simps)
  qed (use r in \<open>simp add: cloneJsonValue_def json_roundtrip_def del: convertToJsonValue.simps serialize.simps\<close>)
qed

text \<open>A heap with a date, a shared object, a function, a number that is not finite, and a cycle.\<close>

definition sample_heap :: heap where
  "sample_heap = \<lparr>objects =
     [\<lparr>shape = H_object [(lit ''when'', V_ref 1), (lit ''n'', V_num NaN), (lit ''f'', V_ref 4),
         (lit ''list'', V_ref 2)], toJSON = None\<rparr>,
      \<lparr>shape = H_object [], toJSON = Some (\<lambda>k. V_str (lit ''2026-01-01''))\<rparr>,
      \<lparr>shape = H_array [V_undefined, V_ref 1, V_bool True], toJSON = None\<rparr>,
      \<lparr>shape = H_object [(lit ''self'', V_ref 3)], toJSON = None\<rparr>,
      \<lparr>shape = H_function, toJSON = None\<rparr>], bigint_toJSON = None\<rparr>"

theorem cloneJsonValue_roundtrip_witness:
  "cloneJsonValue sample_heap (V_ref 0) =
     Inr (JObj [(lit ''when'', JStr (lit ''2026-01-01'')), (lit ''n'', Null),
       (lit ''list'', JArr [Null, JStr (lit ''2026-01-01''), JBool True])])
   \<and> cloneJsonValue sample_heap (V_ref 0) = map_sum id drop_proto (json_roundtrip (\<lambda>_. []) sample_heap (V_ref 0))
   \<and> map_sum id drop_proto (json_roundtrip (\<lambda>_. []) sample_heap (V_ref 3)) = Inl Circular_error"
proof -
  have ok: "heap_ok (\<lambda>_. []) sample_heap" "val_ok (\<lambda>_. []) (V_ref a)" "list_all common_object (objects sample_heap)" for a
    by (simp_all add: heap_ok_def sample_heap_def shape_ok_def val_ok_def lit_def common_object_def)
  have "cloneJsonValue sample_heap (V_ref 0) =
     Inr (JObj [(lit ''when'', JStr (lit ''2026-01-01'')), (lit ''n'', Null),
       (lit ''list'', JArr [Null, JStr (lit ''2026-01-01''), JBool True])])"
    by code_simp
  moreover have "cloneJsonValue sample_heap (V_ref 3) = Inl Circular_error"
    by code_simp
  ultimately show ?thesis
    using cloneJsonValue_roundtrip [OF ok] by simp
qed

text \<open>
  The three divergences: a property called \<^verbatim>\<open>__proto__\<close>, which \<^verbatim>\<open>JSON.parse\<close> creates as an own property,
  is lost; a boxed bigint, at which the standard throws, becomes an empty object; and a function with a
  method \<^verbatim>\<open>toJSON\<close>, which the standard calls, is left out.
\<close>

lemma cloneJsonValue_divergences:
  "cloneJsonValue \<lparr>objects = [\<lparr>shape = H_object [(lit ''__proto__'', V_bool True), (lit ''a'', V_null)], toJSON = None\<rparr>],
     bigint_toJSON = None\<rparr> (V_ref 0) = Inr (JObj [(lit ''a'', Null)])
   \<and> json_roundtrip (\<lambda>_. []) \<lparr>objects = [\<lparr>shape = H_object [(lit ''__proto__'', V_bool True), (lit ''a'', V_null)], toJSON = None\<rparr>],
     bigint_toJSON = None\<rparr> (V_ref 0) = Inr (JObj [(lit ''__proto__'', JBool True), (lit ''a'', Null)])
   \<and> cloneJsonValue \<lparr>objects = [\<lparr>shape = H_boxed (V_bigint 1), toJSON = None\<rparr>], bigint_toJSON = None\<rparr> (V_ref 0) = Inr (JObj [])
   \<and> json_roundtrip (\<lambda>_. []) \<lparr>objects = [\<lparr>shape = H_boxed (V_bigint 1), toJSON = None\<rparr>], bigint_toJSON = None\<rparr> (V_ref 0) = Inl BigInt_error
   \<and> cloneJsonValue \<lparr>objects = [\<lparr>shape = H_array [V_ref 1], toJSON = None\<rparr>, \<lparr>shape = H_function, toJSON = Some (\<lambda>k. V_bool True)\<rparr>],
     bigint_toJSON = None\<rparr> (V_ref 0) = Inr (JArr [Null])
   \<and> json_roundtrip (\<lambda>_. []) \<lparr>objects = [\<lparr>shape = H_array [V_ref 1], toJSON = None\<rparr>, \<lparr>shape = H_function, toJSON = Some (\<lambda>k. V_bool True)\<rparr>],
     bigint_toJSON = None\<rparr> (V_ref 0) = Inr (JArr [JBool True])"
  by (intro conjI; code_simp)

end
