(* ===== verification/JS_Convert.thy ===== *)
theory JS_Convert
  imports JS_Stringify
begin

section \<open>Conversions between values, strings and numbers\<close>

text \<open>
  \<^verbatim>\<open>String(v)\<close> and \<^verbatim>\<open>Number(v)\<close> on values without methods of their own. How a finite number is
  printed is an argument (\<open>num\<close>, the same one that \<^verbatim>\<open>JSON.stringify\<close> takes). Numbers read from text
  are exact.
\<close>

subsection \<open>To strings\<close>

text \<open>\<^verbatim>\<open>String(n)\<close> of a number\<close>

definition num_string :: "(rat \<Rightarrow> jstring) \<Rightarrow> jnum \<Rightarrow> jstring" where
  "num_string num n =
     (case n of
        NaN \<Rightarrow> lit ''NaN''
      | Infinity \<Rightarrow> lit ''Infinity''
      | NegInfinity \<Rightarrow> lit ''-Infinity''
      | NegZero \<Rightarrow> num 0
      | Fin q \<Rightarrow> num q)"

text \<open>\<^verbatim>\<open>String(v)\<close> of a parsed value, for a printing of numbers.\<close>

fun js_string :: "(jnum \<Rightarrow> jstring) \<Rightarrow> jsval \<Rightarrow> jstring" where
  "js_string ns (JStr s) = s"
| "js_string ns (JBool b) = (if b then lit ''true'' else lit ''false'')"
| "js_string ns (JNum n) = ns n"
| "js_string ns Null = lit ''null''"
| "js_string ns Undefined = lit ''undefined''"
| "js_string ns (JArr vs) = join [44] (map (\<lambda>v. if is_nullish v then [] else js_string ns v) vs)"
| "js_string ns (JObj ps) = lit ''[object Object]''"

text \<open>An object with a property of its own named \<^verbatim>\<open>toString\<close> cannot be converted: a \<^verbatim>\<open>TypeError\<close>.\<close>

fun string_throws :: "jsval \<Rightarrow> bool" where
  "string_throws (JArr vs) \<longleftrightarrow> list_ex string_throws vs"
| "string_throws (JObj ps) \<longleftrightarrow> lit ''toString'' \<in> fst ` set ps"
| "string_throws v \<longleftrightarrow> False"

text \<open>\<^verbatim>\<open>String(v)\<close>, \<open>None\<close> when it throws.\<close>

definition to_string :: "(rat \<Rightarrow> jstring) \<Rightarrow> jsval \<Rightarrow> jstring option" where
  "to_string num v = (if string_throws v then None else Some (js_string (num_string num) v))"

subsection \<open>To numbers\<close>

text \<open>A value in base \<open>b\<close>; \<open>None\<close> when a character is not a digit of that base, or there is none.\<close>

definition radix_digits :: "nat \<Rightarrow> jstring \<Rightarrow> nat option" where
  "radix_digits b s =
     (if s = [] then None
      else fold (\<lambda>c acc. case acc of None \<Rightarrow> None
        | Some n \<Rightarrow> (case hex_val c of None \<Rightarrow> None | Some d \<Rightarrow> if d < b then Some (b * n + d) else None)) s (Some 0))"

definition nat_num :: "nat option \<Rightarrow> jnum" where
  "nat_num n = (case n of None \<Rightarrow> NaN | Some k \<Rightarrow> Fin (of_nat k))"

text \<open>Digits, an optional fraction (one of both may be empty) and an optional exponent.\<close>

definition unsigned_decimal :: "jstring \<Rightarrow> rat option" where
  "unsigned_decimal s =
     (let ip = takeWhile is_digit s; r = dropWhile is_digit s;
          fp = (case r of c # r' \<Rightarrow> if c = 46 then takeWhile is_digit r' else [] | [] \<Rightarrow> []);
          r2 = (case r of c # r' \<Rightarrow> if c = 46 then dropWhile is_digit r' else r | [] \<Rightarrow> []);
          m = of_nat (read_nat (ip @ fp)) * power10 (- int (length fp))
      in if ip = [] \<and> fp = [] then None
         else (case r2 of
                 [] \<Rightarrow> Some m
               | e # r3 \<Rightarrow>
                   if e = 101 \<or> e = 69 then
                     (let neg = (r3 \<noteq> [] \<and> hd r3 = 45);
                          ds = (if r3 \<noteq> [] \<and> (hd r3 = 45 \<or> hd r3 = 43) then tl r3 else r3)
                      in if all_digits ds
                         then Some (m * power10 (if neg then - int (read_nat ds) else int (read_nat ds)))
                         else None)
                   else None))"

definition signed_num :: "bool \<Rightarrow> jstring \<Rightarrow> jnum" where
  "signed_num neg s =
     (if s = lit ''Infinity'' then (if neg then NegInfinity else Infinity)
      else case unsigned_decimal s of
             None \<Rightarrow> NaN
           | Some q \<Rightarrow> if neg then (if q = 0 then NegZero else Fin (- q)) else Fin q)"

text \<open>\<^verbatim>\<open>Number(s)\<close> of a string\<close>

definition string_num :: "jstring \<Rightarrow> jnum" where
  "string_num s =
     (let t = trim s in
      case t of
        [] \<Rightarrow> Fin 0
      | c # r \<Rightarrow>
          if c = 48 \<and> r \<noteq> [] \<and> hd r \<in> {120, 88} then nat_num (radix_digits 16 (tl r))
          else if c = 48 \<and> r \<noteq> [] \<and> hd r \<in> {111, 79} then nat_num (radix_digits 8 (tl r))
          else if c = 48 \<and> r \<noteq> [] \<and> hd r \<in> {98, 66} then nat_num (radix_digits 2 (tl r))
          else if c = 45 then signed_num True r
          else if c = 43 then signed_num False r
          else signed_num False t)"

text \<open>\<^verbatim>\<open>Number(v)\<close>, \<open>None\<close> when it throws.\<close>

definition to_number :: "(rat \<Rightarrow> jstring) \<Rightarrow> jsval \<Rightarrow> jnum option" where
  "to_number num v =
     (case v of
        Undefined \<Rightarrow> Some NaN
      | Null \<Rightarrow> Some (Fin 0)
      | JBool b \<Rightarrow> Some (Fin (if b then 1 else 0))
      | JNum n \<Rightarrow> Some n
      | JStr s \<Rightarrow> Some (string_num s)
      | _ \<Rightarrow> map_option string_num (to_string num v))"

subsection \<open>Properties of objects\<close>

text \<open>\<^verbatim>\<open>obj[k] = v\<close> and \<^verbatim>\<open>delete obj[k]\<close> on the properties of an object.\<close>

abbreviation set_key :: "string \<Rightarrow> jsval \<Rightarrow> (jstring \<times> jsval) list \<Rightarrow> (jstring \<times> jsval) list" where
  "set_key k v \<equiv> AList.update (lit k) v"

abbreviation del_key :: "string \<Rightarrow> (jstring \<times> jsval) list \<Rightarrow> (jstring \<times> jsval) list" where
  "del_key k \<equiv> AList.delete (lit k)"

abbreviation fld :: "jsval \<Rightarrow> string \<Rightarrow> jsval" where
  "fld v k \<equiv> get_prop v (lit k)"

text \<open>\<^verbatim>\<open>typeof v === 'object' && v !== null && !Array.isArray(v)\<close>\<close>

fun is_object :: "jsval \<Rightarrow> bool" where
  "is_object (JObj _) \<longleftrightarrow> True"
| "is_object _ \<longleftrightarrow> False"

text \<open>\<^verbatim>\<open>a || b\<close> on values\<close>

definition or_val :: "jsval \<Rightarrow> jsval \<Rightarrow> jsval" where
  "or_val a b = (if truthy a then a else b)"

text \<open>\<^verbatim>\<open>typeof v === 'string' ? v : d\<close>\<close>

definition str_or :: "jsval \<Rightarrow> jstring \<Rightarrow> jstring" where
  "str_or v d = coalesce (as_str v) d"

end
