(* ===== verification/Advanced_Custom.thy ===== *)
theory Advanced_Custom
  imports JS_Convert
begin

section \<open>Advanced custom channels (\<^verbatim>\<open>web/src/features/channels/lib/advanced-custom.ts\<close>)\<close>

text \<open>
  The routes of an advanced custom channel: tables of converters, paths and templates, parsing,
  normalising, validating and summarising a configuration. A configuration comes from a JSON text,
  so it is a value of unknown type (\<open>jsval\<close>) and every function that can raise a
  \<^verbatim>\<open>TypeError\<close> returns an option, \<open>None\<close> standing for the exception. The URL parser of the
  platform is an argument (\<open>parse_url\<close>: host and protocol, or failure).
\<close>

subsection \<open>Tables\<close>

definition CHANNEL_TYPE_ADVANCED_CUSTOM :: nat where
  "CHANNEL_TYPE_ADVANCED_CUSTOM = 58"

definition ADVANCED_CUSTOM_MODEL_LIST_PATH :: jstring where
  "ADVANCED_CUSTOM_MODEL_LIST_PATH = lit ''/v1/models''"

definition ADVANCED_CUSTOM_MODEL_LIST_LABEL :: jstring where
  "ADVANCED_CUSTOM_MODEL_LIST_LABEL = lit ''OpenAI Models''"

record converter_option =
  co_value :: jstring
  co_label :: jstring
  co_triggerLabel :: jstring

definition ADVANCED_CUSTOM_CONVERTER_OPTIONS :: "converter_option list" where
  "ADVANCED_CUSTOM_CONVERTER_OPTIONS =
    [\<lparr>co_value = lit ''none'', co_label = lit ''Native forwarding'',
       co_triggerLabel = lit ''Native forwarding''\<rparr>,
     \<lparr>co_value = lit ''anthropic_messages_to_openai_chat_completions'', co_label = lit ''Anthropic Messages to OpenAI Chat'',
       co_triggerLabel = lit ''To OpenAI Chat''\<rparr>,
     \<lparr>co_value = lit ''openai_chat_completions_to_anthropic_messages'', co_label = lit ''OpenAI Chat to Anthropic Messages'',
       co_triggerLabel = lit ''To Anthropic Messages''\<rparr>,
     \<lparr>co_value = lit ''openai_chat_completions_to_openai_responses'', co_label = lit ''OpenAI Chat to OpenAI Responses'',
       co_triggerLabel = lit ''To OpenAI Responses''\<rparr>,
     \<lparr>co_value = lit ''openai_responses_to_openai_chat_completions'', co_label = lit ''OpenAI Responses to OpenAI Chat'',
       co_triggerLabel = lit ''To OpenAI Chat''\<rparr>,
     \<lparr>co_value = lit ''openai_responses_to_gemini_generate_content'', co_label = lit ''OpenAI Responses to Gemini Generate Content'',
       co_triggerLabel = lit ''To Gemini Generate Content''\<rparr>,
     \<lparr>co_value = lit ''gemini_generate_content_to_openai_chat_completions'', co_label = lit ''Gemini Generate Content to OpenAI Chat'',
       co_triggerLabel = lit ''To OpenAI Chat''\<rparr>,
     \<lparr>co_value = lit ''openai_chat_completions_to_gemini_generate_content'', co_label = lit ''OpenAI Chat to Gemini Generate Content'',
       co_triggerLabel = lit ''To Gemini Generate Content''\<rparr>]"

definition ADVANCED_CUSTOM_AUTH_MODE_OPTIONS :: "(jstring \<times> jstring) list" where
  "ADVANCED_CUSTOM_AUTH_MODE_OPTIONS =
    [(lit ''default'', lit ''Default Bearer''), (lit ''none'', lit ''No Auth''),
     (lit ''header'', lit ''Header''), (lit ''query'', lit ''Query'')]"

text \<open>The incoming paths with their labels.\<close>

definition ADVANCED_CUSTOM_INCOMING_PATH_OPTIONS :: "(jstring \<times> jstring) list" where
  "ADVANCED_CUSTOM_INCOMING_PATH_OPTIONS =
    [(lit ''/v1/chat/completions'', lit ''OpenAI Chat''),
     (lit ''/v1/responses'', lit ''OpenAI Responses''),
     (lit ''/v1/responses/compact'', lit ''OpenAI Responses Compact''),
     (lit ''/v1/alpha/search'', lit ''OpenAI Alpha Search''),
     (ADVANCED_CUSTOM_MODEL_LIST_PATH, ADVANCED_CUSTOM_MODEL_LIST_LABEL),
     (lit ''/v1/embeddings'', lit ''OpenAI Embeddings''),
     (lit ''/v1/images/generations'', lit ''OpenAI Image Generations''),
     (lit ''/v1/images/edits'', lit ''OpenAI Image Edits''),
     (lit ''/v1/completions'', lit ''OpenAI Completions''),
     (lit ''/v1/audio/speech'', lit ''OpenAI Audio Speech''),
     (lit ''/v1/audio/transcriptions'', lit ''OpenAI Audio Transcriptions''),
     (lit ''/v1/audio/translations'', lit ''OpenAI Audio Translations''),
     (lit ''/v1/rerank'', lit ''OpenAI Rerank''),
     (lit ''/v1/realtime'', lit ''OpenAI Realtime''),
     (lit ''/v1/messages'', lit ''Claude Messages''),
     (lit ''/v1beta/models/{model}:generateContent'', lit ''Gemini Generate Content''),
     (lit ''/v1beta/models/{model}:embedContent'', lit ''Gemini Embed Content''),
     (lit ''/v1beta/models/{model}:batchEmbedContents'', lit ''Gemini Batch Embed Contents'')]"

definition ADVANCED_CUSTOM_ROUTE_SUMMARY_LABELS :: "(jstring, jstring) jmap" where
  "ADVANCED_CUSTOM_ROUTE_SUMMARY_LABELS =
     [(lit ''/v1/chat/completions'', lit ''OpenAI Chat''),
      (ADVANCED_CUSTOM_MODEL_LIST_PATH, ADVANCED_CUSTOM_MODEL_LIST_LABEL)]"

definition ADVANCED_CUSTOM_MODEL_REGEX_PREFIX :: jstring where
  "ADVANCED_CUSTOM_MODEL_REGEX_PREFIX = lit ''re:''"

definition openAIChatPath :: jstring where
  "openAIChatPath = lit ''/v1/chat/completions''"

definition openAIResponsesPath :: jstring where
  "openAIResponsesPath = lit ''/v1/responses''"

definition claudeMessagesPath :: jstring where
  "claudeMessagesPath = lit ''/v1/messages''"

definition geminiGenerateContentPath :: jstring where
  "geminiGenerateContentPath = lit ''/v1beta/models/{model}:generateContent''"

text \<open>An authentication record with its three properties.\<close>

definition auth_of :: "string \<Rightarrow> string \<Rightarrow> string \<Rightarrow> jsval" where
  "auth_of t n v = JObj [(lit ''type'', JStr (lit t)), (lit ''name'', JStr (lit n)), (lit ''value'', JStr (lit v))]"

definition bearerHeaderAuth :: jsval where
  "bearerHeaderAuth = auth_of ''header'' ''Authorization'' ''Bearer {api_key}''"

definition apiKeyHeaderAuth :: jsval where
  "apiKeyHeaderAuth = auth_of ''header'' ''x-api-key'' ''{api_key}''"

definition geminiQueryAuth :: jsval where
  "geminiQueryAuth = auth_of ''query'' ''key'' ''{api_key}''"

definition route_of :: "jstring \<Rightarrow> jstring \<Rightarrow> jstring \<Rightarrow> jsval \<Rightarrow> jsval" where
  "route_of incoming upstream converter auth =
     JObj ([(lit ''incoming_path'', JStr incoming), (lit ''upstream_path'', JStr upstream),
       (lit ''converter'', JStr converter)] @ (if auth = Undefined then [] else [(lit ''auth'', auth)]))"

definition config_of :: "jsval list \<Rightarrow> jsval" where
  "config_of routes = JObj [(lit ''advanced_routes'', JArr routes)]"

record template_option =
  to_value :: jstring
  to_label :: jstring
  to_config :: jsval

definition ADVANCED_CUSTOM_TEMPLATE_OPTIONS :: "template_option list" where
  "ADVANCED_CUSTOM_TEMPLATE_OPTIONS =
    [\<lparr>to_value = lit ''official_openai_chat'', to_label = lit ''Official OpenAI Chat'',
       to_config = config_of [
         route_of (lit ''/v1/chat/completions'')
           (lit ''/v1/chat/completions'') (lit ''none'') bearerHeaderAuth]\<rparr>,
     \<lparr>to_value = lit ''official_openai_responses'', to_label = lit ''Official OpenAI Responses'',
       to_config = config_of [
         route_of (lit ''/v1/responses'')
           (lit ''/v1/responses'') (lit ''none'') bearerHeaderAuth]\<rparr>,
     \<lparr>to_value = lit ''official_openai_embeddings'', to_label = lit ''Official OpenAI Embeddings'',
       to_config = config_of [
         route_of (lit ''/v1/embeddings'')
           (lit ''/v1/embeddings'') (lit ''none'') bearerHeaderAuth]\<rparr>,
     \<lparr>to_value = lit ''official_openai_images'', to_label = lit ''Official OpenAI Images'',
       to_config = config_of [
         route_of (lit ''/v1/images/generations'')
           (lit ''/v1/images/generations'') (lit ''none'') bearerHeaderAuth,
         route_of (lit ''/v1/images/edits'')
           (lit ''/v1/images/edits'') (lit ''none'') bearerHeaderAuth]\<rparr>,
     \<lparr>to_value = lit ''official_claude_messages'', to_label = lit ''Official Claude Messages'',
       to_config = config_of [
         route_of (lit ''/v1/messages'')
           (lit ''/v1/messages'') (lit ''none'') apiKeyHeaderAuth]\<rparr>,
     \<lparr>to_value = lit ''official_gemini_native'', to_label = lit ''Official Gemini Native'',
       to_config = config_of [
         route_of (lit ''/v1beta/models/{model}:generateContent'')
           (lit ''/v1beta/models/{model}:generateContent'') (lit ''none'') geminiQueryAuth,
         route_of (lit ''/v1beta/models/{model}:embedContent'')
           (lit ''/v1beta/models/{model}:embedContent'') (lit ''none'') geminiQueryAuth,
         route_of (lit ''/v1beta/models/{model}:batchEmbedContents'')
           (lit ''/v1beta/models/{model}:batchEmbedContents'') (lit ''none'') geminiQueryAuth]\<rparr>,
     \<lparr>to_value = lit ''official_gemini_from_openai_chat'', to_label = lit ''Official Gemini from OpenAI Chat'',
       to_config = config_of [
         route_of (lit ''/v1/chat/completions'')
           (lit ''/v1beta/models/{model}:generateContent'') (lit ''openai_chat_completions_to_gemini_generate_content'') geminiQueryAuth]\<rparr>]"

text \<open>A template is a tree of JSON values: its deep copy is its JSON view.\<close>

definition cloneAdvancedCustomConfig :: "jsval \<Rightarrow> jsval" where
  "cloneAdvancedCustomConfig config = coalesce (json_view config) Undefined"

definition getAdvancedCustomTemplateConfig :: "jstring \<Rightarrow> jsval" where
  "getAdvancedCustomTemplateConfig templateKey =
     cloneAdvancedCustomConfig (to_config
       (coalesce (find (\<lambda>option. to_value option = templateKey) ADVANCED_CUSTOM_TEMPLATE_OPTIONS)
          (hd ADVANCED_CUSTOM_TEMPLATE_OPTIONS)))"

definition createAdvancedCustomRoute :: jsval where
  "createAdvancedCustomRoute = route_of openAIChatPath openAIChatPath (lit ''none'') Undefined"

definition createAdvancedCustomConfig :: jsval where
  "createAdvancedCustomConfig = config_of [createAdvancedCustomRoute]"

subsection \<open>Converters and paths\<close>

definition isConverterPathAllowed :: "jstring \<Rightarrow> jstring \<Rightarrow> bool" where
  "isConverterPathAllowed incomingPath converter =
     (if converter = lit ''none'' then True
      else if incomingPath = lit ''/v1/alpha/search'' then False
      else if converter = lit ''anthropic_messages_to_openai_chat_completions''
      then incomingPath = lit ''/v1/messages''
      else if converter = lit ''openai_chat_completions_to_anthropic_messages''
            \<or> converter = lit ''openai_chat_completions_to_openai_responses''
            \<or> converter = lit ''openai_chat_completions_to_gemini_generate_content''
      then incomingPath = lit ''/v1/chat/completions''
      else if converter = lit ''openai_responses_to_openai_chat_completions''
      then incomingPath = lit ''/v1/responses''
      else if converter = lit ''openai_responses_to_gemini_generate_content''
      then incomingPath = lit ''/v1/responses''
      else str_includes incomingPath (lit '':generateContent'')
        \<or> str_includes incomingPath (lit '':streamGenerateContent''))"

definition isAdvancedCustomIncomingPathAllowed :: "jstring \<Rightarrow> jstring \<Rightarrow> bool" where
  "isAdvancedCustomIncomingPathAllowed incomingPath converter = isConverterPathAllowed incomingPath converter"

definition getAdvancedCustomIncomingPathOptions :: "jstring \<Rightarrow> (jstring \<times> jstring) list" where
  "getAdvancedCustomIncomingPathOptions converter =
     filter (\<lambda>option. isConverterPathAllowed (fst option) converter) ADVANCED_CUSTOM_INCOMING_PATH_OPTIONS"

definition getDefaultAdvancedCustomIncomingPath :: "jstring \<Rightarrow> jstring" where
  "getDefaultAdvancedCustomIncomingPath converter =
     (case getAdvancedCustomIncomingPathOptions converter of
        (value, _) # _ \<Rightarrow> or_str value (lit ''/v1/chat/completions'')
      | [] \<Rightarrow> lit ''/v1/chat/completions'')"

definition getAdvancedCustomConverterOptions :: "jstring \<Rightarrow> converter_option list" where
  "getAdvancedCustomConverterOptions incomingPath =
     (let normalizedIncomingPath = trim incomingPath in
      filter (\<lambda>option. co_value option = lit ''none'' \<or> isConverterPathAllowed normalizedIncomingPath (co_value option))
        ADVANCED_CUSTOM_CONVERTER_OPTIONS)"

definition getAdvancedCustomIncomingPathLabel :: "jstring \<Rightarrow> jstring" where
  "getAdvancedCustomIncomingPathLabel value =
     (case find (\<lambda>option. fst option = value) ADVANCED_CUSTOM_INCOMING_PATH_OPTIONS of
        Some option \<Rightarrow> or_str (snd option) value
      | None \<Rightarrow> value)"

definition getAdvancedCustomNativeAuth :: "jstring \<Rightarrow> jsval" where
  "getAdvancedCustomNativeAuth incomingPath =
     (if incomingPath = claudeMessagesPath then apiKeyHeaderAuth
      else if str_includes incomingPath (lit '':generateContent'')
           \<or> str_includes incomingPath (lit '':streamGenerateContent'')
           \<or> str_includes incomingPath (lit '':embedContent'')
           \<or> str_includes incomingPath (lit '':batchEmbedContents'')
      then geminiQueryAuth
      else bearerHeaderAuth)"

record converter_defaults =
  cd_upstream_path :: jstring
  cd_auth :: jsval

definition getAdvancedCustomConverterDefaults :: "jstring \<Rightarrow> jstring \<Rightarrow> converter_defaults" where
  "getAdvancedCustomConverterDefaults converter incomingPath =
     (let normalizedIncomingPath = or_str (trim incomingPath) (getDefaultAdvancedCustomIncomingPath converter) in
      if converter = lit ''none''
      then \<lparr>cd_upstream_path = normalizedIncomingPath, cd_auth = getAdvancedCustomNativeAuth normalizedIncomingPath\<rparr>
      else if converter = lit ''anthropic_messages_to_openai_chat_completions''
           \<or> converter = lit ''gemini_generate_content_to_openai_chat_completions''
           \<or> converter = lit ''openai_responses_to_openai_chat_completions''
      then \<lparr>cd_upstream_path = openAIChatPath, cd_auth = bearerHeaderAuth\<rparr>
      else if converter = lit ''openai_chat_completions_to_openai_responses''
      then \<lparr>cd_upstream_path = openAIResponsesPath, cd_auth = bearerHeaderAuth\<rparr>
      else if converter = lit ''openai_chat_completions_to_anthropic_messages''
      then \<lparr>cd_upstream_path = claudeMessagesPath, cd_auth = apiKeyHeaderAuth\<rparr>
      else if converter = lit ''openai_chat_completions_to_gemini_generate_content''
           \<or> converter = lit ''openai_responses_to_gemini_generate_content''
      then \<lparr>cd_upstream_path = geminiGenerateContentPath, cd_auth = geminiQueryAuth\<rparr>
      else \<lparr>cd_upstream_path = or_str normalizedIncomingPath openAIChatPath,
             cd_auth = getAdvancedCustomNativeAuth normalizedIncomingPath\<rparr>)"

text \<open>The incoming path is optional.\<close>

definition getAdvancedCustomUpstreamPathPlaceholder :: "jstring \<Rightarrow> jstring option \<Rightarrow> jstring" where
  "getAdvancedCustomUpstreamPathPlaceholder converter incomingPath =
     cd_upstream_path (getAdvancedCustomConverterDefaults converter
       (coalesce incomingPath (getDefaultAdvancedCustomIncomingPath converter)))"

subsection \<open>Normalising\<close>

text \<open>\<^verbatim>\<open>v.trim()\<close> raises a \<^verbatim>\<open>TypeError\<close> unless \<open>v\<close> is a string; \<^verbatim>\<open>v?.trim()\<close> lets \<open>undefined\<close> and \<open>null\<close> pass.\<close>

fun trim_val :: "jsval \<Rightarrow> jstring option" where
  "trim_val (JStr s) = Some (trim s)"
| "trim_val _ = None"

definition opt_trim_val :: "jsval \<Rightarrow> jstring option" where
  "opt_trim_val v = (if is_nullish v then Some [] else trim_val v)"

definition getAdvancedCustomRouteUpstreamPath :: "jsval \<Rightarrow> jstring option" where
  "getAdvancedCustomRouteUpstreamPath route =
     trim_val (or_val (get_prop route (lit ''upstream_path'')) (JStr []))"

definition normalizeAdvancedCustomRouteModels :: "jsval \<Rightarrow> jstring list option" where
  "normalizeAdvancedCustomRouteModels models =
     (case models of
        JArr ms \<Rightarrow> map_option (filter (\<lambda>m. m \<noteq> [])) (those (map trim_val ms))
      | _ \<Rightarrow> Some [])"

text \<open>A route that is \<open>null\<close> has no properties to read.\<close>

definition normalizeAdvancedCustomRoute :: "jsval \<Rightarrow> jsval option" where
  "normalizeAdvancedCustomRoute route =
     (if is_nullish route then None
      else case (getAdvancedCustomRouteUpstreamPath route, normalizeAdvancedCustomRouteModels (get_prop route (lit ''models''))) of
        (Some upstream, Some models) \<Rightarrow>
          let auth = get_prop route (lit ''auth'') in
          Some (JObj
            ([(lit ''incoming_path'', or_val (get_prop route (lit ''incoming_path'')) (JStr [])),
              (lit ''upstream_path'', JStr upstream),
              (lit ''converter'', or_val (get_prop route (lit ''converter'')) (JStr (lit ''none'')))]
             @ (if models \<noteq> [] then [(lit ''models'', JArr (map JStr models))] else [])
             @ (if truthy auth
                then [(lit ''auth'', JObj
                       [(lit ''type'', get_prop auth (lit ''type'')),
                        (lit ''name'', or_val (get_prop auth (lit ''name'')) (JStr [])),
                        (lit ''value'', or_val (get_prop auth (lit ''value'')) (JStr []))])]
                else [])))
      | _ \<Rightarrow> None)"

definition normalizeAdvancedCustomConfig :: "jsval \<Rightarrow> jsval option" where
  "normalizeAdvancedCustomConfig config =
     (case get_prop config (lit ''advanced_routes'') of
        JArr routes \<Rightarrow> map_option config_of (those (map normalizeAdvancedCustomRoute routes))
      | _ \<Rightarrow> Some (config_of []))"

text \<open>\<open>None\<close> is the result \<open>null\<close>; the exceptions of parsing and normalising are caught.\<close>

definition parseAdvancedCustomConfig :: "jstring option \<Rightarrow> jsval option" where
  "parseAdvancedCustomConfig value =
     (case value of
        None \<Rightarrow> None
      | Some t \<Rightarrow>
          if trim t = [] then None
          else case json_parse t of
            Some (JObj ps) \<Rightarrow> normalizeAdvancedCustomConfig (JObj ps)
          | _ \<Rightarrow> None)"

definition stringifyAdvancedCustomConfig :: "(rat \<Rightarrow> jstring) \<Rightarrow> jsval \<Rightarrow> jstring option" where
  "stringifyAdvancedCustomConfig num config =
     Option.bind (normalizeAdvancedCustomConfig config) (json_stringify num [32, 32])"

definition parseAdvancedCustomRouteModels :: "jstring \<Rightarrow> jstring list" where
  "parseAdvancedCustomRouteModels value = uniq (filter (\<lambda>m. m \<noteq> []) (map trim (split_on 44 value)))"

datatype model_rule_kind = Exact | Regex

definition getAdvancedCustomModelRuleKind :: "jstring \<Rightarrow> model_rule_kind" where
  "getAdvancedCustomModelRuleKind modelRule =
     (if starts_with modelRule ADVANCED_CUSTOM_MODEL_REGEX_PREFIX then Regex else Exact)"

definition getAdvancedCustomRegexModelPattern :: "jstring \<Rightarrow> jstring" where
  "getAdvancedCustomRegexModelPattern modelRule = drop (length ADVANCED_CUSTOM_MODEL_REGEX_PREFIX) modelRule"

subsection \<open>Validating\<close>

text \<open>The result of a validation: \<open>null\<close>, an error with its route, or an exception.\<close>

datatype verdict = Accepted | Rejected "nat option" jstring | Raised

text \<open>What the routes of one incoming path have claimed so far.\<close>

record path_state =
  catchAllIndex :: "nat option"
  ps_models :: "(jstring, nat) jmap"

type_synonym route_table = "(jstring, path_state) jmap"

fun claim_models ::
    "nat \<Rightarrow> jstring list \<Rightarrow> jstring list \<Rightarrow> (jstring, nat) jmap \<Rightarrow> jstring + (jstring, nat) jmap" where
  "claim_models routeIndex [] seenInRoute st = Inr st"
| "claim_models routeIndex (model # models) seenInRoute st =
     (if getAdvancedCustomModelRuleKind model = Regex \<and> getAdvancedCustomRegexModelPattern model = []
      then Inl (lit ''Model regex cannot be empty'')
      else if model \<in> set seenInRoute then Inl (lit ''Duplicate model in route models'')
      else if map_of st model \<noteq> None then Inl (lit ''Route models must be unique for the same incoming path'')
      else claim_models routeIndex models (model # seenInRoute) (AList.update model routeIndex st))"

definition validateAdvancedCustomRouteModels ::
    "nat \<Rightarrow> jstring \<Rightarrow> jstring list \<Rightarrow> route_table \<Rightarrow> jstring + route_table" where
  "validateAdvancedCustomRouteModels routeIndex incomingPath models routeModelsByPath =
     (let st = coalesce (map_of routeModelsByPath incomingPath) \<lparr>catchAllIndex = None, ps_models = []\<rparr> in
      if models = [] then
        (if catchAllIndex st \<noteq> None
         then Inl (lit ''Only one catch-all route is allowed for the same incoming path'')
         else Inr (AList.update incomingPath (st\<lparr>catchAllIndex := Some routeIndex\<rparr>) routeModelsByPath))
      else if catchAllIndex st \<noteq> None
      then Inl (lit ''Catch-all route must be last for the same incoming path'')
      else map_sum id (\<lambda>ms. AList.update incomingPath (st\<lparr>ps_models := ms\<rparr>) routeModelsByPath)
             (claim_models routeIndex models [] (ps_models st)))"

definition isFullHttpURLOrAbsolutePath :: "(jstring \<Rightarrow> (jstring \<times> jstring) option) \<Rightarrow> jstring \<Rightarrow> bool" where
  "isFullHttpURLOrAbsolutePath parse_url value =
     (if starts_with value (lit ''/'') then \<not> starts_with value (lit ''//'')
      else case parse_url value of
        None \<Rightarrow> False
      | Some (host, protocol) \<Rightarrow> host \<noteq> [] \<and> (protocol = lit ''http:'' \<or> protocol = lit ''https:''))"

definition isAdvancedCustomConverter :: "jsval \<Rightarrow> bool" where
  "isAdvancedCustomConverter value =
     list_ex (\<lambda>option. JStr (co_value option) = value) ADVANCED_CUSTOM_CONVERTER_OPTIONS"

text \<open>The outer option is the exception, the inner one the error message.\<close>

definition validateRouteAuth :: "jsval \<Rightarrow> jstring option option" where
  "validateRouteAuth auth =
     (if \<not> truthy auth then Some None
      else let type = get_prop auth (lit ''type'') in
      if type = JStr (lit ''none'') then Some None
      else if type \<noteq> JStr (lit ''header'') \<and> type \<noteq> JStr (lit ''query'') then Some (Some (lit ''Auth type is invalid''))
      else case opt_trim_val (get_prop auth (lit ''name'')) of
        None \<Rightarrow> None
      | Some name \<Rightarrow>
          if name = [] then Some (Some (lit ''Auth name is required''))
          else case opt_trim_val (get_prop auth (lit ''value'')) of
            None \<Rightarrow> None
          | Some value \<Rightarrow>
              if value = [] then Some (Some (lit ''Auth value is required'')) else Some None)"

text \<open>The checks of a route on the model list path, before the index is remembered and after.\<close>

definition model_list_error :: "bool \<Rightarrow> jstring list \<Rightarrow> jsval \<Rightarrow> jstring \<Rightarrow> jstring option" where
  "model_list_error seen routeModels converter upstreamPath =
     (if seen then Some (lit ''Only one OpenAI Models route is allowed'')
      else if routeModels \<noteq> [] then Some (lit ''OpenAI Models route does not support client model rules'')
      else if converter \<noteq> JStr (lit ''none'') then Some (lit ''OpenAI Models route must use native forwarding'')
      else if str_includes upstreamPath (lit ''{model}'')
      then Some (lit ''OpenAI Models upstream path must not contain {model}'')
      else None)"

text \<open>The checks of a route after its models: upstream path, converter and authentication.\<close>

definition validate_target :: "(jstring \<Rightarrow> (jstring \<times> jstring) option) \<Rightarrow> jstring \<Rightarrow> jstring \<Rightarrow> jsval \<Rightarrow> jsval \<Rightarrow> jstring option option" where
  "validate_target parse_url incomingPath upstreamPath converter auth =
     (if upstreamPath = [] then Some (Some (lit ''Upstream path is required''))
      else if \<not> isFullHttpURLOrAbsolutePath parse_url upstreamPath
      then Some (Some (lit ''Upstream path must be a full URL or a path starting with /''))
      else if \<not> isAdvancedCustomConverter converter then Some (Some (lit ''Converter is not registered''))
      else if \<not> isConverterPathAllowed incomingPath (coalesce (as_str converter) [])
      then Some (Some (lit ''Converter does not match incoming path''))
      else validateRouteAuth auth)"

text \<open>The loop over the routes, with the table of claimed models and whether a model list route was seen.\<close>

fun validate_routes ::
    "(jstring \<Rightarrow> (jstring \<times> jstring) option) \<Rightarrow> nat \<Rightarrow> jsval list \<Rightarrow> route_table \<Rightarrow> nat option \<Rightarrow> verdict" where
  "validate_routes parse_url index [] routeModelsByPath modelListRouteIndex = Accepted"
| "validate_routes parse_url index (route # routes) routeModelsByPath modelListRouteIndex =
     (case (opt_trim_val (get_prop route (lit ''incoming_path'')), getAdvancedCustomRouteUpstreamPath route,
            normalizeAdvancedCustomRouteModels (get_prop route (lit ''models''))) of
        (Some incomingPath, Some upstreamPath, Some routeModels) \<Rightarrow>
          let converter = or_val (get_prop route (lit ''converter'')) (JStr (lit ''none''));
              onList = (incomingPath = ADVANCED_CUSTOM_MODEL_LIST_PATH);
              listError = (if onList then model_list_error (modelListRouteIndex \<noteq> None) routeModels converter upstreamPath
                           else None)
          in
          if incomingPath = [] then Rejected (Some index) (lit ''Incoming path is required'')
          else if \<not> starts_with incomingPath (lit ''/'')
          then Rejected (Some index) (lit ''Incoming path must start with /'')
          else if str_includes incomingPath (lit ''?'')
          then Rejected (Some index) (lit ''Incoming path must not include query'')
          else (case listError of
              Some msg \<Rightarrow> Rejected (Some index) msg
            | None \<Rightarrow>
                (case validateAdvancedCustomRouteModels index incomingPath routeModels routeModelsByPath of
                   Inl msg \<Rightarrow> Rejected (Some index) msg
                 | Inr table \<Rightarrow>
                     (case validate_target parse_url incomingPath upstreamPath converter (get_prop route (lit ''auth'')) of
                        None \<Rightarrow> Raised
                      | Some (Some msg) \<Rightarrow> Rejected (Some index) msg
                      | Some None \<Rightarrow>
                          validate_routes parse_url (Suc index) routes table
                            (if onList then Some index else modelListRouteIndex))))
      | _ \<Rightarrow> Raised)"

definition config_routes :: "jsval \<Rightarrow> jsval list" where
  "config_routes config = (case get_prop config (lit ''advanced_routes'') of JArr rs \<Rightarrow> rs | _ \<Rightarrow> [])"

definition validateAdvancedCustomConfig ::
    "(jstring \<Rightarrow> (jstring \<times> jstring) option) \<Rightarrow> jsval option \<Rightarrow> verdict" where
  "validateAdvancedCustomConfig parse_url config =
     (case config of
        None \<Rightarrow> Rejected None (lit ''Advanced custom configuration is required'')
      | Some c \<Rightarrow>
          (case normalizeAdvancedCustomConfig c of
             None \<Rightarrow> Raised
           | Some normalized \<Rightarrow>
               let routes = config_routes normalized in
               if routes = [] then Rejected None (lit ''Advanced custom configuration requires at least one route'')
               else validate_routes parse_url 0 routes [] None))"

subsection \<open>Reading a configuration\<close>

definition hasValidAdvancedCustomModelListRoute ::
    "(jstring \<Rightarrow> (jstring \<times> jstring) option) \<Rightarrow> jsval option \<Rightarrow> bool option" where
  "hasValidAdvancedCustomModelListRoute parse_url config =
     (case config of
        None \<Rightarrow> Some False
      | Some c \<Rightarrow>
          (case validateAdvancedCustomConfig parse_url config of
             Raised \<Rightarrow> None
           | Rejected _ _ \<Rightarrow> Some False
           | Accepted \<Rightarrow>
               map_option (\<lambda>normalized. list_ex (\<lambda>route.
                   opt_trim_val (get_prop route (lit ''incoming_path'')) = Some ADVANCED_CUSTOM_MODEL_LIST_PATH)
                 (config_routes normalized)) (normalizeAdvancedCustomConfig c)))"

definition advancedCustomConfigUsesRelativeUpstreamPath :: "jsval option \<Rightarrow> bool option" where
  "advancedCustomConfigUsesRelativeUpstreamPath config =
     (case config of
        None \<Rightarrow> Some False
      | Some c \<Rightarrow>
          map_option (\<lambda>normalized. list_ex (\<lambda>route.
              starts_with (coalesce (getAdvancedCustomRouteUpstreamPath route) []) (lit ''/''))
            (config_routes normalized)) (normalizeAdvancedCustomConfig c))"

text \<open>
  The labels are looked up among the own names of the table. In the program a path that is the name of an
  inherited property (\<^verbatim>\<open>constructor\<close>, \<^verbatim>\<open>toString\<close>) finds the function of that name, which is no text and has no
  place in \<open>jstring\<close>; such a path does not begin with a slash, so validation refuses its route.
\<close>

definition getAdvancedCustomRouteSummaryLabel :: "jsval \<Rightarrow> jstring option option" where
  "getAdvancedCustomRouteSummaryLabel route =
     map_option (\<lambda>incomingPath.
         if incomingPath = [] then None
         else Some (opt_or_str (map_of ADVANCED_CUSTOM_ROUTE_SUMMARY_LABELS incomingPath)
                (getAdvancedCustomIncomingPathLabel incomingPath)))
       (opt_trim_val (get_prop route (lit ''incoming_path'')))"

record custom_stats =
  routeCount :: nat
  valid :: bool
  routeTypeLabels :: "jstring list"

definition getAdvancedCustomStats ::
    "(jstring \<Rightarrow> (jstring \<times> jstring) option) \<Rightarrow> jstring option \<Rightarrow> custom_stats option" where
  "getAdvancedCustomStats parse_url value =
     (case parseAdvancedCustomConfig value of
        None \<Rightarrow> Some \<lparr>routeCount = 0, valid = False, routeTypeLabels = []\<rparr>
      | Some config \<Rightarrow>
          (case normalizeAdvancedCustomConfig config of
             None \<Rightarrow> None
           | Some normalized \<Rightarrow>
               (case (those (map getAdvancedCustomRouteSummaryLabel (config_routes normalized)),
                      validateAdvancedCustomConfig parse_url (Some normalized)) of
                  (Some labels, verdict) \<Rightarrow>
                    if verdict = Raised then None
                    else Some \<lparr>routeCount = length (config_routes normalized), valid = (verdict = Accepted),
                       routeTypeLabels = uniq (filter (\<lambda>l. l \<noteq> []) (map (\<lambda>l. coalesce l []) labels))\<rparr>
                | (None, _) \<Rightarrow> None)))"

text \<open>A route of the editor, whose authentication is an object or missing.\<close>

definition getAdvancedCustomAuthMode :: "jsval \<Rightarrow> jsval" where
  "getAdvancedCustomAuthMode route =
     or_val (get_prop (get_prop route (lit ''auth'')) (lit ''type'')) (JStr (lit ''default''))"

definition buildAdvancedCustomAuth :: "jstring \<Rightarrow> jsval \<Rightarrow> jsval" where
  "buildAdvancedCustomAuth mode previousAuth =
     (if mode = lit ''default'' then Undefined
      else if mode = lit ''none'' then JObj [(lit ''type'', JStr (lit ''none''))]
      else if mode = lit ''header'' then
        JObj [(lit ''type'', JStr (lit ''header'')),
          (lit ''name'', or_val (get_prop previousAuth (lit ''name'')) (JStr (lit ''Authorization''))),
          (lit ''value'', or_val (get_prop previousAuth (lit ''value'')) (JStr (lit ''Bearer {api_key}'')))]
      else
        JObj [(lit ''type'', JStr (lit ''query'')),
          (lit ''name'', or_val (get_prop previousAuth (lit ''name'')) (JStr (lit ''api_key''))),
          (lit ''value'', or_val (get_prop previousAuth (lit ''value'')) (JStr (lit ''{api_key}'')))])"

subsection \<open>What a valid configuration is\<close>

text \<open>The trimmed incoming path, the models, the upstream path and the converter of a route.\<close>

definition path_of :: "jsval \<Rightarrow> jstring" where
  "path_of r = coalesce (opt_trim_val (get_prop r (lit ''incoming_path''))) []"

definition models_of :: "jsval \<Rightarrow> jstring list" where
  "models_of r = coalesce (normalizeAdvancedCustomRouteModels (get_prop r (lit ''models''))) []"

definition upstream_of :: "jsval \<Rightarrow> jstring" where
  "upstream_of r = coalesce (getAdvancedCustomRouteUpstreamPath r) []"

definition converter_of :: "jsval \<Rightarrow> jsval" where
  "converter_of r = or_val (get_prop r (lit ''converter'')) (JStr (lit ''none''))"

definition filled :: "jsval \<Rightarrow> bool" where
  "filled v \<longleftrightarrow> (case v of JStr s \<Rightarrow> trim s \<noteq> [] | _ \<Rightarrow> False)"

definition auth_ok :: "jsval \<Rightarrow> bool" where
  "auth_ok a \<longleftrightarrow> truthy a \<longrightarrow>
     get_prop a (lit ''type'') = JStr (lit ''none'')
     \<or> (get_prop a (lit ''type'') = JStr (lit ''header'') \<or> get_prop a (lit ''type'') = JStr (lit ''query''))
       \<and> filled (get_prop a (lit ''name'')) \<and> filled (get_prop a (lit ''value''))"

definition empty_regex :: "jstring \<Rightarrow> bool" where
  "empty_regex m \<longleftrightarrow> m = ADVANCED_CUSTOM_MODEL_REGEX_PREFIX"

text \<open>A route on its own.\<close>

definition route_ok :: "(jstring \<Rightarrow> (jstring \<times> jstring) option) \<Rightarrow> jsval \<Rightarrow> bool" where
  "route_ok parse_url r \<longleftrightarrow>
     getAdvancedCustomRouteUpstreamPath r \<noteq> None
     \<and> normalizeAdvancedCustomRouteModels (get_prop r (lit ''models'')) \<noteq> None
     \<and> filled (get_prop r (lit ''incoming_path''))
     \<and> starts_with (path_of r) (lit ''/'') \<and> \<not> str_includes (path_of r) (lit ''?'')
     \<and> distinct (models_of r) \<and> \<not> list_ex empty_regex (models_of r)
     \<and> upstream_of r \<noteq> [] \<and> isFullHttpURLOrAbsolutePath parse_url (upstream_of r)
     \<and> (\<exists>option \<in> set ADVANCED_CUSTOM_CONVERTER_OPTIONS. converter_of r = JStr (co_value option)
          \<and> isConverterPathAllowed (path_of r) (co_value option))
     \<and> auth_ok (get_prop r (lit ''auth''))
     \<and> (path_of r = ADVANCED_CUSTOM_MODEL_LIST_PATH \<longrightarrow>
          models_of r = [] \<and> converter_of r = JStr (lit ''none'') \<and> \<not> str_includes (upstream_of r) (lit ''{model}''))"

text \<open>An earlier route and a later one: a catch-all route is the last of its path, and models are claimed once.\<close>

definition compatible :: "jsval \<Rightarrow> jsval \<Rightarrow> bool" where
  "compatible q r \<longleftrightarrow> path_of q = path_of r \<longrightarrow>
     models_of q \<noteq> [] \<and> set (models_of q) \<inter> set (models_of r) = {}"

lemma empty_regex_iff:
  "getAdvancedCustomModelRuleKind m = Regex \<and> getAdvancedCustomRegexModelPattern m = [] \<longleftrightarrow> empty_regex m"
  by (auto simp: getAdvancedCustomModelRuleKind_def getAdvancedCustomRegexModelPattern_def empty_regex_def starts_with_def)

lemma claim_models_ok:
  "(\<exists>st'. claim_models i ms seen st = Inr st') \<longleftrightarrow>
     distinct ms \<and> \<not> list_ex empty_regex ms \<and> set ms \<inter> set seen = {} \<and> set ms \<inter> fst ` set st = {}"
  "claim_models i ms seen st = Inr st' \<Longrightarrow> fst ` set st' = set ms \<union> fst ` set st"
  by (induction ms arbitrary: seen st)
    (auto simp: empty_regex_iff map_of_eq_None_iff dom_update split: if_splits)

text \<open>What the routes before have claimed of a path.\<close>

definition catch_all_at :: "jsval list \<Rightarrow> jstring \<Rightarrow> bool" where
  "catch_all_at pre p \<longleftrightarrow> (\<exists>q \<in> set pre. path_of q = p \<and> models_of q = [])"

definition models_at :: "jsval list \<Rightarrow> jstring \<Rightarrow> jstring set" where
  "models_at pre p = (\<Union>q \<in> {q \<in> set pre. path_of q = p}. set (models_of q))"

lemma claimed_snoc [simp]:
  "catch_all_at (pre @ [r]) p \<longleftrightarrow> catch_all_at pre p \<or> path_of r = p \<and> models_of r = []"
  "models_at (pre @ [r]) p = (if path_of r = p then models_at pre p \<union> set (models_of r) else models_at pre p)"
  by (auto simp: catch_all_at_def models_at_def)

lemma unclaimed:
  assumes "\<forall>q \<in> set pre. path_of q \<noteq> p"
  shows "\<not> catch_all_at pre p" "models_at pre p = {}"
  using assms by (auto simp: catch_all_at_def models_at_def)

definition table_inv :: "jsval list \<Rightarrow> route_table \<Rightarrow> nat option \<Rightarrow> bool" where
  "table_inv pre table mli \<longleftrightarrow>
     (\<forall>p. case map_of table p of
            None \<Rightarrow> \<forall>q \<in> set pre. path_of q \<noteq> p
          | Some st \<Rightarrow> (catchAllIndex st \<noteq> None \<longleftrightarrow> catch_all_at pre p)
              \<and> fst ` set (ps_models st) = models_at pre p)
     \<and> (mli \<noteq> None \<longleftrightarrow> (\<exists>q \<in> set pre. path_of q = ADVANCED_CUSTOM_MODEL_LIST_PATH))"

text \<open>The state of a path in the table, or the empty one.\<close>

definition state_at :: "route_table \<Rightarrow> jstring \<Rightarrow> path_state" where
  "state_at table p = coalesce (map_of table p) \<lparr>catchAllIndex = None, ps_models = []\<rparr>"

lemma table_inv_state:
  assumes "table_inv pre table mli"
  shows "catchAllIndex (state_at table p) \<noteq> None \<longleftrightarrow> catch_all_at pre p"
    "fst ` set (ps_models (state_at table p)) = models_at pre p"
proof -
  note inv = assms [unfolded table_inv_def, THEN conjunct1, rule_format, of p]
  show "catchAllIndex (state_at table p) \<noteq> None \<longleftrightarrow> catch_all_at pre p"
    using inv by (cases "map_of table p") (auto simp: state_at_def coalesce_def unclaimed)
  show "fst ` set (ps_models (state_at table p)) = models_at pre p"
    using inv by (cases "map_of table p") (auto simp: state_at_def coalesce_def unclaimed)
qed

lemma table_inv_update:
  assumes "table_inv pre table mli"
    and "catchAllIndex st \<noteq> None \<longleftrightarrow> catch_all_at (pre @ [r]) (path_of r)"
    and "fst ` set (ps_models st) = models_at (pre @ [r]) (path_of r)"
    and "mli' \<noteq> None \<longleftrightarrow> mli \<noteq> None \<or> path_of r = ADVANCED_CUSTOM_MODEL_LIST_PATH"
  shows "table_inv (pre @ [r]) (AList.update (path_of r) st table) mli'"
  unfolding table_inv_def
proof (intro conjI allI)
  fix p
  note inv = assms(1) [unfolded table_inv_def, THEN conjunct1, rule_format, of p]
  show "case map_of (AList.update (path_of r) st table) p of
      None \<Rightarrow> \<forall>q \<in> set (pre @ [r]). path_of q \<noteq> p
    | Some st \<Rightarrow> (catchAllIndex st \<noteq> None \<longleftrightarrow> catch_all_at (pre @ [r]) p)
        \<and> fst ` set (ps_models st) = models_at (pre @ [r]) p"
  proof (cases "p = path_of r")
    case True
    with assms(2,3) show ?thesis by (simp add: update_conv')
  next
    case False
    then have "path_of r \<noteq> p" by simp
    with False inv show ?thesis by (cases "map_of table p") (simp_all add: update_conv')
  qed
qed (use assms in \<open>auto simp: table_inv_def\<close>)

lemma validate_models_ok:
  assumes "table_inv pre table mli"
    and "mli' \<noteq> None \<longleftrightarrow> mli \<noteq> None \<or> path_of r = ADVANCED_CUSTOM_MODEL_LIST_PATH"
  shows "(\<exists>t. validateAdvancedCustomRouteModels i (path_of r) (models_of r) table = Inr t) \<longleftrightarrow>
      distinct (models_of r) \<and> \<not> list_ex empty_regex (models_of r) \<and> (\<forall>q \<in> set pre. compatible q r)"
    "validateAdvancedCustomRouteModels i (path_of r) (models_of r) table = Inr t \<Longrightarrow> table_inv (pre @ [r]) t mli'"
proof -
  let ?st = "state_at table (path_of r)"
  note st = table_inv_state [OF assms(1), of "path_of r"]
  have val: "validateAdvancedCustomRouteModels i (path_of r) (models_of r) table =
      (if models_of r = [] then
        (if catchAllIndex ?st \<noteq> None
         then Inl (lit ''Only one catch-all route is allowed for the same incoming path'')
         else Inr (AList.update (path_of r) (?st\<lparr>catchAllIndex := Some i\<rparr>) table))
      else if catchAllIndex ?st \<noteq> None
      then Inl (lit ''Catch-all route must be last for the same incoming path'')
      else map_sum id (\<lambda>ms. AList.update (path_of r) (?st\<lparr>ps_models := ms\<rparr>) table)
             (claim_models i (models_of r) [] (ps_models ?st)))"
    by (simp add: validateAdvancedCustomRouteModels_def state_at_def Let_def)
  have comp: "(\<forall>q \<in> set pre. compatible q r) \<longleftrightarrow>
      catchAllIndex ?st = None \<and> set (models_of r) \<inter> fst ` set (ps_models ?st) = {}"
    unfolding st(2) using st(1) by (auto simp: compatible_def catch_all_at_def models_at_def)
  show "(\<exists>t. validateAdvancedCustomRouteModels i (path_of r) (models_of r) table = Inr t) \<longleftrightarrow>
      distinct (models_of r) \<and> \<not> list_ex empty_regex (models_of r) \<and> (\<forall>q \<in> set pre. compatible q r)"
    unfolding val comp using claim_models_ok(1) [of i "models_of r" "[]" "ps_models ?st"]
    by (cases "claim_models i (models_of r) [] (ps_models ?st)") auto
  show "table_inv (pre @ [r]) t mli'" if "validateAdvancedCustomRouteModels i (path_of r) (models_of r) table = Inr t"
  proof (cases "models_of r = []")
    case True
    with that val have "t = AList.update (path_of r) (?st\<lparr>catchAllIndex := Some i\<rparr>) table"
      by (auto split: if_splits)
    moreover have "table_inv (pre @ [r]) (AList.update (path_of r) (?st\<lparr>catchAllIndex := Some i\<rparr>) table) mli'"
      by (rule table_inv_update [OF assms(1) _ _ assms(2)]) (use True st in simp_all)
    ultimately show ?thesis by simp
  next
    case False
    with that val obtain ms where ms: "claim_models i (models_of r) [] (ps_models ?st) = Inr ms"
      and t: "t = AList.update (path_of r) (?st\<lparr>ps_models := ms\<rparr>) table"
      by (cases "claim_models i (models_of r) [] (ps_models ?st)") (auto split: if_splits)
    from claim_models_ok(2) [OF ms] st False show ?thesis
      unfolding t by (intro table_inv_update [OF assms(1) _ _ assms(2)]) auto
  qed
qed

lemma filled_iff: "filled v \<longleftrightarrow> (\<exists>t. opt_trim_val v = Some t \<and> t \<noteq> [])"
  by (cases v) (auto simp: filled_def opt_trim_val_def is_nullish_def)

lemma validateRouteAuth_ok: "validateRouteAuth a = Some None \<longleftrightarrow> auth_ok a"
proof -
  have "lit ''header'' \<noteq> lit ''none''" "lit ''query'' \<noteq> lit ''none''" by (simp_all add: lit_def)
  then show ?thesis
    unfolding validateRouteAuth_def auth_ok_def filled_iff Let_def
    by (cases "opt_trim_val (get_prop a (lit ''name''))"; cases "opt_trim_val (get_prop a (lit ''value''))") auto
qed

lemma validate_target_ok:
  "validate_target url p u c a = Some None \<longleftrightarrow>
     u \<noteq> [] \<and> isFullHttpURLOrAbsolutePath url u
     \<and> (\<exists>opt \<in> set ADVANCED_CUSTOM_CONVERTER_OPTIONS. c = JStr (co_value opt) \<and> isConverterPathAllowed p (co_value opt))
     \<and> auth_ok a"
proof (cases "isAdvancedCustomConverter c")
  case True
  then obtain opt where opt: "opt \<in> set ADVANCED_CUSTOM_CONVERTER_OPTIONS" "c = JStr (co_value opt)"
    by (auto simp: isAdvancedCustomConverter_def list_ex_iff)
  then have "(\<exists>opt \<in> set ADVANCED_CUSTOM_CONVERTER_OPTIONS. c = JStr (co_value opt) \<and> isConverterPathAllowed p (co_value opt))
      \<longleftrightarrow> isConverterPathAllowed p (co_value opt)"
    by auto
  with True opt(2) show ?thesis
    by (simp add: validate_target_def validateRouteAuth_ok coalesce_def)
next
  case False
  then show ?thesis
    by (auto simp: validate_target_def isAdvancedCustomConverter_def list_ex_iff)
qed

lemma validate_route_step:
  assumes "table_inv pre table mli" and "\<forall>q \<in> set pre. route_ok url q"
    and onList: "onList = (path_of r = ADVANCED_CUSTOM_MODEL_LIST_PATH)"
    and rest: "\<And>t. route_ok url r \<Longrightarrow> table_inv (pre @ [r]) t (if onList then Some i else mli) \<Longrightarrow>
      validate_routes url (Suc i) rs t (if onList then Some i else mli) = Accepted \<longleftrightarrow> X"
  shows "validate_routes url i (r # rs) table mli = Accepted \<longleftrightarrow>
    route_ok url r \<and> (\<forall>q \<in> set pre. compatible q r) \<and> X"
proof (cases "\<exists>ip up ms. opt_trim_val (get_prop r (lit ''incoming_path'')) = Some ip
    \<and> getAdvancedCustomRouteUpstreamPath r = Some up
    \<and> normalizeAdvancedCustomRouteModels (get_prop r (lit ''models'')) = Some ms")
  case False
  then have "validate_routes url i (r # rs) table mli = Raised" by (auto split: option.split)
  moreover have "\<not> route_ok url r" using False by (auto simp: route_ok_def filled_iff)
  ultimately show ?thesis by simp
next
  case True
  then obtain ip up ms where
    parts: "opt_trim_val (get_prop r (lit ''incoming_path'')) = Some ip" "getAdvancedCustomRouteUpstreamPath r = Some up"
      "normalizeAdvancedCustomRouteModels (get_prop r (lit ''models'')) = Some ms" by blast
  then have of: "path_of r = ip" "upstream_of r = up" "models_of r = ms"
    by (simp_all add: path_of_def upstream_of_def models_of_def coalesce_def)
  let ?mli = "if onList then Some i else mli"
  note ok = validate_models_ok [OF assms(1), of ?mli r i, unfolded of]
  have mli: "?mli \<noteq> None \<longleftrightarrow> mli \<noteq> None \<or> ip = ADVANCED_CUSTOM_MODEL_LIST_PATH"
    using assms(3) of by auto
  have seen: "\<not> (\<forall>q \<in> set pre. compatible q r)" if "mli \<noteq> None" "onList"
  proof -
    from that assms(1) obtain q where q: "q \<in> set pre" "path_of q = ADVANCED_CUSTOM_MODEL_LIST_PATH"
      by (auto simp: table_inv_def)
    with assms(2) have "models_of q = []" by (auto simp: route_ok_def)
    with q that(2) assms(3) show ?thesis by (auto simp: compatible_def)
  qed
  have route: "route_ok url r \<longleftrightarrow> ip \<noteq> [] \<and> starts_with ip (lit ''/'') \<and> \<not> str_includes ip (lit ''?'')
      \<and> (onList \<longrightarrow> ms = [] \<and> converter_of r = JStr (lit ''none'') \<and> \<not> str_includes up (lit ''{model}''))
      \<and> distinct ms \<and> \<not> list_ex empty_regex ms
      \<and> validate_target url ip up (converter_of r) (get_prop r (lit ''auth'')) = Some None"
    unfolding route_ok_def validate_target_ok filled_iff parts of assms(3) by auto
  have step: "validate_routes url i (r # rs) table mli = Accepted \<longleftrightarrow>
      ip \<noteq> [] \<and> starts_with ip (lit ''/'') \<and> \<not> str_includes ip (lit ''?'')
      \<and> (onList \<longrightarrow> model_list_error (mli \<noteq> None) ms (converter_of r) up = None)
      \<and> (\<exists>t. validateAdvancedCustomRouteModels i ip ms table = Inr t
           \<and> validate_target url ip up (converter_of r) (get_prop r (lit ''auth'')) = Some None
           \<and> validate_routes url (Suc i) rs t ?mli = Accepted)"
  proof (cases "ip = [] \<or> \<not> starts_with ip (lit ''/'') \<or> str_includes ip (lit ''?'')
      \<or> (onList \<and> model_list_error (mli \<noteq> None) ms (converter_of r) up \<noteq> None)")
    case True
    then show ?thesis
      unfolding validate_routes.simps parts prod.case option.case Let_def converter_of_def [symmetric]
        onList [unfolded of, symmetric]
      by auto
  next
    case False
    then show ?thesis
      unfolding validate_routes.simps parts prod.case option.case Let_def converter_of_def [symmetric]
        onList [unfolded of, symmetric]
      by (cases "validateAdvancedCustomRouteModels i ip ms table";
          cases "validate_target url ip up (converter_of r) (get_prop r (lit ''auth''))")
        (auto simp: option.case_eq_if)
  qed
  have lists: "model_list_error (mli \<noteq> None) ms (converter_of r) up = None \<longleftrightarrow>
      mli = None \<and> ms = [] \<and> converter_of r = JStr (lit ''none'') \<and> \<not> str_includes up (lit ''{model}'')"
    by (simp add: model_list_error_def)
  have found: "(\<exists>t. validateAdvancedCustomRouteModels i ip ms table = Inr t \<and> T \<and> validate_routes url (Suc i) rs t ?mli = Accepted)
      \<longleftrightarrow> distinct ms \<and> \<not> list_ex empty_regex ms \<and> (\<forall>q \<in> set pre. compatible q r) \<and> T \<and> X"
    if "route_ok url r" for T
    using ok(1) [OF mli] ok(2) [OF mli] rest [OF that] by metis
  have found': "distinct ms \<and> \<not> list_ex empty_regex ms" if "validateAdvancedCustomRouteModels i ip ms table = Inr t" for t
    using ok(1) [OF mli] that by blast
  show ?thesis
  proof (cases "route_ok url r")
    case True
    then show ?thesis unfolding step found [OF True] lists using route seen by blast
  next
    case False
    then show ?thesis unfolding step lists using route found' by blast
  qed
qed

lemma validate_routes_ok:
  "table_inv pre table mli \<Longrightarrow> \<forall>q \<in> set pre. route_ok url q \<Longrightarrow>
   validate_routes url i rs table mli = Accepted \<longleftrightarrow>
     list_all (route_ok url) rs \<and> sorted_wrt compatible rs \<and> (\<forall>q \<in> set pre. \<forall>r \<in> set rs. compatible q r)"
proof (induction rs arbitrary: pre table mli i)
  case (Cons r rs)
  have "validate_routes url i (r # rs) table mli = Accepted \<longleftrightarrow>
    route_ok url r \<and> (\<forall>q \<in> set pre. compatible q r) \<and>
    (list_all (route_ok url) rs \<and> sorted_wrt compatible rs \<and> (\<forall>q \<in> set (pre @ [r]). \<forall>r \<in> set rs. compatible q r))"
  proof (rule validate_route_step [OF Cons.prems refl])
    fix t
    let ?mli = "if path_of r = ADVANCED_CUSTOM_MODEL_LIST_PATH then Some i else mli"
    assume "route_ok url r" and inv: "table_inv (pre @ [r]) t ?mli"
    with Cons.prems(2) have "\<forall>q \<in> set (pre @ [r]). route_ok url q" by simp
    then show "validate_routes url (Suc i) rs t ?mli = Accepted \<longleftrightarrow>
        list_all (route_ok url) rs \<and> sorted_wrt compatible rs \<and> (\<forall>q \<in> set (pre @ [r]). \<forall>r \<in> set rs. compatible q r)"
      by (rule Cons.IH [OF inv])
  qed
  then show ?case by auto
qed simp

subsection \<open>Properties\<close>

text \<open>
  C27. A configuration is accepted exactly when it has routes, every route is well formed on its own
  (absolute path without a query, upstream path that is a path or a http URL, registered converter
  that fits the path, complete authentication, distinct models, a native model list route) and the
  routes of one path fit together: a catch-all route is the last one of its path and every model
  is claimed once. Everything else is rejected or raises an exception.
\<close>

theorem validateAdvancedCustomConfig_accepts:
  "validateAdvancedCustomConfig url (Some c) = Accepted \<longleftrightarrow>
     (case normalizeAdvancedCustomConfig c of
        None \<Rightarrow> False
      | Some n \<Rightarrow> config_routes n \<noteq> [] \<and> list_all (route_ok url) (config_routes n)
          \<and> sorted_wrt compatible (config_routes n))"
proof (cases "normalizeAdvancedCustomConfig c")
  case (Some n)
  have "table_inv [] [] None" by (simp add: table_inv_def)
  from validate_routes_ok [OF this, of url 0 "config_routes n"] Some show ?thesis
    by (auto simp: validateAdvancedCustomConfig_def Let_def)
qed (simp add: validateAdvancedCustomConfig_def)

definition default_config :: "jstring \<Rightarrow> jsval" where
  "default_config converter =
     (let path = getDefaultAdvancedCustomIncomingPath converter; d = getAdvancedCustomConverterDefaults converter path
      in config_of [route_of path (cd_upstream_path d) converter (cd_auth d)])"

definition default_paths :: "jstring list" where
  "default_paths = [openAIChatPath, claudeMessagesPath, openAIChatPath, openAIChatPath, openAIResponsesPath,
     openAIResponsesPath, geminiGenerateContentPath, openAIChatPath]"

definition default_targets :: "converter_defaults list" where
  "default_targets = map (\<lambda>(p, a). \<lparr>cd_upstream_path = p, cd_auth = a\<rparr>)
     [(openAIChatPath, bearerHeaderAuth), (openAIChatPath, bearerHeaderAuth), (claudeMessagesPath, apiKeyHeaderAuth),
      (openAIResponsesPath, bearerHeaderAuth), (openAIChatPath, bearerHeaderAuth),
      (geminiGenerateContentPath, geminiQueryAuth), (openAIChatPath, bearerHeaderAuth),
      (geminiGenerateContentPath, geminiQueryAuth)]"

lemma default_path_eval:
  "map (\<lambda>opt. getDefaultAdvancedCustomIncomingPath (co_value opt)) ADVANCED_CUSTOM_CONVERTER_OPTIONS = default_paths"
  by code_simp

lemma default_target_eval:
  "map2 (\<lambda>opt p. getAdvancedCustomConverterDefaults (co_value opt) p) ADVANCED_CUSTOM_CONVERTER_OPTIONS default_paths
     = default_targets"
  by code_simp

lemma default_config_valid:
  "list_all (\<lambda>(opt, p, d). validateAdvancedCustomConfig url
       (Some (config_of [route_of p (cd_upstream_path d) (co_value opt) (cd_auth d)])) = Accepted)
     (zip ADVANCED_CUSTOM_CONVERTER_OPTIONS (zip default_paths default_targets))"
  by code_simp

lemma default_configs:
  assumes "map f os = ps" and "map2 g os ps = ts"
    and "list_all (\<lambda>(opt, p, d). P opt p d) (zip os (zip ps ts))" and "opt \<in> set os"
  shows "P opt (f opt) (g opt (f opt))"
proof -
  obtain i where i: "i < length os" "os ! i = opt" using assms(4) by (auto simp: in_set_conv_nth)
  with assms(1,2) have "ps ! i = f opt" "ts ! i = g opt (f opt)" "length ps = length os" "length ts = length os"
    by auto
  with assms(3) i show ?thesis by (auto simp: list_all_length)
qed

text \<open>
  What the editor offers is valid: every template, found again under its key, the configuration
  of a new channel, and for every converter the route made of its default path, its default upstream
  path and its default authentication. A converter is offered for a path exactly when it is
  registered and validation accepts it there.
\<close>

theorem offered_configurations_valid:
  "list_all (\<lambda>t. getAdvancedCustomTemplateConfig (to_value t) = to_config t
       \<and> validateAdvancedCustomConfig url (Some (to_config t)) = Accepted) ADVANCED_CUSTOM_TEMPLATE_OPTIONS
   \<and> validateAdvancedCustomConfig url (Some createAdvancedCustomConfig) = Accepted
   \<and> list_all (\<lambda>opt. validateAdvancedCustomConfig url (Some (default_config (co_value opt))) = Accepted)
       ADVANCED_CUSTOM_CONVERTER_OPTIONS
   \<and> (opt \<in> set (getAdvancedCustomConverterOptions path) \<longleftrightarrow>
        opt \<in> set ADVANCED_CUSTOM_CONVERTER_OPTIONS \<and> isAdvancedCustomIncomingPathAllowed (trim path) (co_value opt))"
proof (intro conjI)
  show "list_all (\<lambda>t. getAdvancedCustomTemplateConfig (to_value t) = to_config t
       \<and> validateAdvancedCustomConfig url (Some (to_config t)) = Accepted) ADVANCED_CUSTOM_TEMPLATE_OPTIONS"
    by code_simp
  show "validateAdvancedCustomConfig url (Some createAdvancedCustomConfig) = Accepted"
    by code_simp
  show "list_all (\<lambda>opt. validateAdvancedCustomConfig url (Some (default_config (co_value opt))) = Accepted)
       ADVANCED_CUSTOM_CONVERTER_OPTIONS"
    using default_configs [where P = "\<lambda>opt p d. validateAdvancedCustomConfig url
        (Some (config_of [route_of p (cd_upstream_path d) (co_value opt) (cd_auth d)])) = Accepted",
        OF default_path_eval default_target_eval default_config_valid]
    by (simp add: list_all_iff default_config_def Let_def)
  show "opt \<in> set (getAdvancedCustomConverterOptions path) \<longleftrightarrow>
        opt \<in> set ADVANCED_CUSTOM_CONVERTER_OPTIONS \<and> isAdvancedCustomIncomingPathAllowed (trim path) (co_value opt)"
    by (auto simp: getAdvancedCustomConverterOptions_def isAdvancedCustomIncomingPathAllowed_def isConverterPathAllowed_def Let_def)
qed

subsection \<open>Saving and loading\<close>

text \<open>Values of the declared types: a property that is declared as a string is a string or missing.\<close>

definition str_or_missing :: "jsval \<Rightarrow> bool" where
  "str_or_missing v \<longleftrightarrow> (case v of JStr _ \<Rightarrow> True | Undefined \<Rightarrow> True | _ \<Rightarrow> False)"

definition typed_auth :: "jsval \<Rightarrow> bool" where
  "typed_auth a \<longleftrightarrow> (case a of
      JObj _ \<Rightarrow> str_or_missing (get_prop a (lit ''type'')) \<and> str_or_missing (get_prop a (lit ''name''))
        \<and> str_or_missing (get_prop a (lit ''value''))
    | Undefined \<Rightarrow> True
    | _ \<Rightarrow> False)"

definition typed_models :: "jsval \<Rightarrow> bool" where
  "typed_models m \<longleftrightarrow> (case m of JArr vs \<Rightarrow> list_all (\<lambda>v. as_str v \<noteq> None) vs | Undefined \<Rightarrow> True | _ \<Rightarrow> False)"

definition typed_route :: "jsval \<Rightarrow> bool" where
  "typed_route r \<longleftrightarrow> (case r of
      JObj _ \<Rightarrow> str_or_missing (get_prop r (lit ''incoming_path'')) \<and> str_or_missing (get_prop r (lit ''upstream_path''))
        \<and> str_or_missing (get_prop r (lit ''converter'')) \<and> typed_models (get_prop r (lit ''models''))
        \<and> typed_auth (get_prop r (lit ''auth''))
    | _ \<Rightarrow> False)"

lemma those_map_Some: "those (map f xs) = Some ys \<longleftrightarrow> list_all2 (\<lambda>x y. f x = Some y) xs ys"
  by (induction xs arbitrary: ys) (auto simp: list_all2_Cons1 split: option.splits)

lemma normalize_models_idem: "\<forall>m \<in> set ms. trim m = m \<and> m \<noteq> [] \<Longrightarrow>
    normalizeAdvancedCustomRouteModels (JArr (map JStr ms)) = Some ms"
proof -
  assume "\<forall>m \<in> set ms. trim m = m \<and> m \<noteq> []"
  then have "those (map trim_val (map JStr ms)) = Some ms" "filter (\<lambda>m. m \<noteq> []) ms = ms"
    by (auto simp: those_map_Some list_all2_map1 list.rel_refl_strong)
  then show ?thesis by (simp add: normalizeAdvancedCustomRouteModels_def del: map_map)
qed

lemma normalize_models_clean:
  assumes "normalizeAdvancedCustomRouteModels v = Some ms"
  shows "\<forall>m \<in> set ms. trim m = m \<and> m \<noteq> []"
proof -
  have "trim m = m" if "those (map trim_val vs) = Some ys" "m \<in> set ys" for vs ys m
  proof -
    from that obtain v where "trim_val v = Some m"
      by (auto simp: those_map_Some list_all2_conv_all_nth in_set_conv_nth)
    then show ?thesis by (cases v) auto
  qed
  with assms show ?thesis
    by (auto simp: normalizeAdvancedCustomRouteModels_def split: jsval.splits)
qed

text \<open>The normal form of a typed route.\<close>

definition norm_auth :: "jsval \<times> jstring \<times> jstring \<Rightarrow> jsval" where
  "norm_auth = (\<lambda>(t, n, v). JObj [(lit ''type'', t), (lit ''name'', JStr n), (lit ''value'', JStr v)])"

definition norm_route :: "jstring \<Rightarrow> jstring \<Rightarrow> jstring \<Rightarrow> jstring list \<Rightarrow> (jsval \<times> jstring \<times> jstring) option \<Rightarrow> jsval" where
  "norm_route ip up c ms ao =
     JObj ([(lit ''incoming_path'', JStr ip), (lit ''upstream_path'', JStr up), (lit ''converter'', JStr c)]
       @ (if ms \<noteq> [] then [(lit ''models'', JArr (map JStr ms))] else [])
       @ (case ao of None \<Rightarrow> [] | Some a \<Rightarrow> [(lit ''auth'', norm_auth a)]))"

definition norm_ok :: "jstring \<Rightarrow> jstring \<Rightarrow> jstring list \<Rightarrow> (jsval \<times> jstring \<times> jstring) option \<Rightarrow> bool" where
  "norm_ok up c ms ao \<longleftrightarrow> trim up = up \<and> c \<noteq> [] \<and> (\<forall>m \<in> set ms. trim m = m \<and> m \<noteq> [])
     \<and> (case ao of None \<Rightarrow> True | Some a \<Rightarrow> str_or_missing (fst a))"

lemma str_or_missing_cases:
  assumes "str_or_missing v"
  obtains s where "v = JStr s" | "v = Undefined"
  using assms by (cases v) (auto simp: str_or_missing_def)

lemma or_val_str:
  assumes "str_or_missing v"
  obtains s where "or_val v (JStr d) = JStr s" "d \<noteq> [] \<Longrightarrow> s \<noteq> []"
proof -
  have "\<exists>s. or_val v (JStr d) = JStr s \<and> (d \<noteq> [] \<longrightarrow> s \<noteq> [])"
    using assms by (cases rule: str_or_missing_cases) (auto simp: or_val_def)
  with that show thesis by blast
qed

lemma typed_models_some:
  assumes "typed_models v"
  shows "\<exists>ms. normalizeAdvancedCustomRouteModels v = Some ms"
proof (cases v)
  case (JArr vs)
  have "\<exists>ys. those (map trim_val vs) = Some ys" if "list_all (\<lambda>v. as_str v \<noteq> None) vs" for vs
    using that
  proof (induction vs)
    case (Cons x vs)
    then show ?case by (cases x) auto
  qed simp
  with JArr assms show ?thesis by (auto simp: typed_models_def normalizeAdvancedCustomRouteModels_def)
qed (use assms in \<open>auto simp: typed_models_def normalizeAdvancedCustomRouteModels_def\<close>)

lemma normalize_typed_route:
  assumes "typed_route r"
  obtains ip up c ms ao where "normalizeAdvancedCustomRoute r = Some (norm_route ip up c ms ao)" "norm_ok up c ms ao"
proof -
  have r: "\<not> is_nullish r" "str_or_missing (get_prop r (lit ''incoming_path''))"
    "str_or_missing (get_prop r (lit ''upstream_path''))" "str_or_missing (get_prop r (lit ''converter''))"
    "typed_models (get_prop r (lit ''models''))" "typed_auth (get_prop r (lit ''auth''))"
    using assms by (cases r; simp add: typed_route_def is_nullish_def)+
  obtain ip where ip: "or_val (get_prop r (lit ''incoming_path'')) (JStr []) = JStr ip"
    using or_val_str [OF r(2)] by metis
  obtain up where up: "or_val (get_prop r (lit ''upstream_path'')) (JStr []) = JStr up"
    using or_val_str [OF r(3)] by metis
  obtain c where c: "or_val (get_prop r (lit ''converter'')) (JStr (lit ''none'')) = JStr c" "c \<noteq> []"
    using or_val_str [OF r(4), of "lit ''none''"] by (auto simp: lit_def)
  obtain ms where ms: "normalizeAdvancedCustomRouteModels (get_prop r (lit ''models'')) = Some ms"
    using typed_models_some [OF r(5)] by blast
  let ?a = "get_prop r (lit ''auth'')"
  have up': "getAdvancedCustomRouteUpstreamPath r = Some (trim up)"
    by (simp add: getAdvancedCustomRouteUpstreamPath_def up)
  show thesis
  proof (cases "truthy ?a")
    case False
    with r(1) ip up' c ms show ?thesis
      by (intro that [of ip "trim up" c ms None])
        (simp_all add: normalizeAdvancedCustomRoute_def norm_route_def norm_ok_def normalize_models_clean [OF ms])
  next
    case True
    then have a: "str_or_missing (get_prop ?a (lit ''type''))" "str_or_missing (get_prop ?a (lit ''name''))"
      "str_or_missing (get_prop ?a (lit ''value''))"
      using r(6) by (cases ?a; simp add: typed_auth_def)+
    obtain n where n: "or_val (get_prop ?a (lit ''name'')) (JStr []) = JStr n" using or_val_str [OF a(2)] by metis
    obtain v where v: "or_val (get_prop ?a (lit ''value'')) (JStr []) = JStr v" using or_val_str [OF a(3)] by metis
    show ?thesis
      using r(1) ip up' c ms True a(1) n v
      by (intro that [of ip "trim up" c ms "Some (get_prop ?a (lit ''type''), n, v)"])
        (simp_all add: normalizeAdvancedCustomRoute_def norm_route_def norm_ok_def norm_auth_def normalize_models_clean [OF ms])
  qed
qed

lemma norm_route_view:
  assumes "norm_ok up c ms ao"
  shows "\<exists>v. json_view (norm_route ip up c ms ao) = Some v
    \<and> normalizeAdvancedCustomRoute v = Some (norm_route ip up c ms ao)"
proof -
  let ?ao = "map_option (\<lambda>(t, n, v). JObj ((if t = Undefined then [] else [(lit ''type'', t)])
    @ [(lit ''name'', JStr n), (lit ''value'', JStr v)])) ao"
  let ?v = "JObj ([(lit ''incoming_path'', JStr ip), (lit ''upstream_path'', JStr up), (lit ''converter'', JStr c)]
       @ (if ms \<noteq> [] then [(lit ''models'', JArr (map JStr ms))] else [])
       @ (case ?ao of None \<Rightarrow> [] | Some a \<Rightarrow> [(lit ''auth'', a)]))"
  have view_models: "json_view (JArr (map JStr ms)) = Some (JArr (map JStr ms))"
    by (simp add: coalesce_def)
  have view_auth: "json_view (norm_auth a) = Some (the (map_option (\<lambda>(t, n, v). JObj ((if t = Undefined then [] else [(lit ''type'', t)])
    @ [(lit ''name'', JStr n), (lit ''value'', JStr v)])) (Some a)))" if "str_or_missing (fst a)" for a
    using that by (cases a) (auto simp: norm_auth_def elim: str_or_missing_cases)
  have "json_view (norm_route ip up c ms ao) = Some ?v"
    using assms view_auth by (cases ao) (auto simp: norm_route_def norm_ok_def coalesce_def)
  moreover have "normalizeAdvancedCustomRoute ?v = Some (norm_route ip up c ms ao)"
  proof -
    have gets: "get_prop ?v (lit ''incoming_path'') = JStr ip" "get_prop ?v (lit ''upstream_path'') = JStr up"
      "get_prop ?v (lit ''converter'') = JStr c"
      "get_prop ?v (lit ''models'') = (if ms \<noteq> [] then JArr (map JStr ms) else Undefined)"
      "get_prop ?v (lit ''auth'') = coalesce ?ao Undefined"
      by (cases ao; cases ms; simp add: lit_def coalesce_def)+
    have models: "normalizeAdvancedCustomRouteModels (if ms \<noteq> [] then JArr (map JStr ms) else Undefined) = Some ms"
      using normalize_models_idem [of ms] assms
      by (cases ms) (auto simp: norm_ok_def normalizeAdvancedCustomRouteModels_def)
    have upstream: "getAdvancedCustomRouteUpstreamPath ?v = Some up"
      unfolding getAdvancedCustomRouteUpstreamPath_def gets using assms by (cases up) (auto simp: or_val_def norm_ok_def)
    have or_str_id: "or_val (JStr x) (JStr []) = JStr x" for x by (auto simp: or_val_def)
    show ?thesis
    proof (cases ao)
      case None
      with assms show ?thesis
        unfolding normalizeAdvancedCustomRoute_def models upstream gets prod.case option.case Let_def or_str_id
        by (auto simp: norm_route_def or_val_def is_nullish_def norm_ok_def coalesce_def)
    next
      case (Some a)
      obtain t n v where a: "a = (t, n, v)" by (cases a)
      let ?o = "JObj ((if t = Undefined then [] else [(lit ''type'', t)]) @ [(lit ''name'', JStr n), (lit ''value'', JStr v)])"
      have o: "coalesce ?ao Undefined = ?o" by (simp add: Some a coalesce_def)
      have props: "get_prop ?o (lit ''type'') = t" "get_prop ?o (lit ''name'') = JStr n" "get_prop ?o (lit ''value'') = JStr v"
        by (simp_all add: lit_def)
      have "truthy ?o" by simp
      with assms show ?thesis
        unfolding normalizeAdvancedCustomRoute_def models upstream gets prod.case option.case Let_def o props or_str_id
        by (auto simp: norm_route_def norm_auth_def or_val_def is_nullish_def norm_ok_def Some a)
    qed
  qed
  ultimately show ?thesis by blast
qed

lemma norm_route_json_ok: "norm_ok up c ms ao \<Longrightarrow> json_ok num (norm_route ip up c ms ao)"
  by (cases ao) (auto simp: norm_route_def norm_ok_def norm_auth_def lit_def elim!: str_or_missing_cases)

lemma normalize_config_routes:
  "normalizeAdvancedCustomConfig c = map_option config_of (those (map normalizeAdvancedCustomRoute (config_routes c)))"
  by (auto simp: normalizeAdvancedCustomConfig_def config_routes_def split: jsval.split)

lemma normalize_typed_routes:
  "list_all typed_route rs \<Longrightarrow> \<exists>ns vs. those (map normalizeAdvancedCustomRoute rs) = Some ns
     \<and> list_all (json_ok num) ns \<and> map json_view ns = map Some vs
     \<and> those (map normalizeAdvancedCustomRoute vs) = Some ns"
proof (induction rs)
  case (Cons r rs)
  then obtain ns vs where rest: "those (map normalizeAdvancedCustomRoute rs) = Some ns" "list_all (json_ok num) ns"
    "map json_view ns = map Some vs" "those (map normalizeAdvancedCustomRoute vs) = Some ns" by auto
  from Cons.prems have "typed_route r" by simp
  then obtain ip up c ms ao where n: "normalizeAdvancedCustomRoute r = Some (norm_route ip up c ms ao)" "norm_ok up c ms ao"
    by (rule normalize_typed_route)
  from norm_route_view [OF n(2)] obtain v where "json_view (norm_route ip up c ms ao) = Some v"
    "normalizeAdvancedCustomRoute v = Some (norm_route ip up c ms ao)" by blast
  with rest n norm_route_json_ok [OF n(2)] show ?case
    by (intro exI [of _ "norm_route ip up c ms ao # ns"] exI [of _ "v # vs"]) simp
qed simp

lemma trim_not_Nil: "c \<in> set s \<Longrightarrow> \<not> is_ws c \<Longrightarrow> trim s \<noteq> []"
proof -
  assume c: "c \<in> set s" "\<not> is_ws c"
  then have "c \<in> set (trim_start s)"
    by (induction s) (auto simp: trim_start_def)
  with c(2) show ?thesis
    by (auto simp: trim_def trim_end_def dropWhile_eq_Nil_conv)
qed

text \<open>The normal form of a typed configuration, its JSON view and its text all load as the normal form.\<close>

lemma typed_config_text:
  assumes "list_all typed_route (config_routes c)"
  shows "\<exists>n v t. normalizeAdvancedCustomConfig c = Some n \<and> json_ok num n \<and> json_view n = Some v \<and> truthy v
    \<and> normalizeAdvancedCustomConfig v = Some n \<and> json_stringify num [32, 32] n = Some t
    \<and> parseAdvancedCustomConfig (Some t) = Some n"
proof -
  obtain ns vs where ns: "those (map normalizeAdvancedCustomRoute (config_routes c)) = Some ns"
    "list_all (json_ok num) ns" "map json_view ns = map Some vs"
    "those (map normalizeAdvancedCustomRoute vs) = Some ns"
    using normalize_typed_routes [OF assms] by blast
  let ?n = "config_of ns"
  have n: "normalizeAdvancedCustomConfig c = Some ?n"
    by (simp add: normalize_config_routes ns)
  obtain t where t: "json_stringify num [32, 32] ?n = Some t"
    by (simp add: json_stringify_def config_of_def)
  have "map (\<lambda>v. coalesce (json_view v) Null) ns = map (\<lambda>x. coalesce x Null) (map json_view ns)"
    by simp
  also have "\<dots> = vs" unfolding ns(3) by (simp add: coalesce_def comp_def)
  finally have view: "json_view ?n = Some (config_of vs)" by (simp add: config_of_def)
  have ok: "json_ok num ?n" using ns(2) by (auto simp: config_of_def list_all_iff)
  have "json_parse t = json_view ?n"
    by (rule json_parse_stringify [OF _ ok t]) auto
  moreover have "trim t \<noteq> []"
  proof (rule trim_not_Nil)
    show "123 \<in> set t" using t by (auto simp: json_stringify_def config_of_def json_wrap_def)
  qed (simp add: is_ws_def)
  moreover have routes: "config_routes (config_of vs) = vs"
    by (simp add: config_routes_def config_of_def)
  moreover have "normalizeAdvancedCustomConfig (config_of vs) = Some ?n"
    by (simp add: normalize_config_routes routes ns(4))
  ultimately have "parseAdvancedCustomConfig (Some t) = Some ?n \<and> normalizeAdvancedCustomConfig (config_of vs) = Some ?n"
    using view by (simp add: parseAdvancedCustomConfig_def) (simp add: config_of_def)
  moreover have "truthy (config_of vs)" by (simp add: config_of_def)
  ultimately show ?thesis using n view ok t by blast
qed

text \<open>
  C28. Saving and loading: a configuration whose properties have their declared types (or are missing)
  has a normal form, its text parses, and loading the text gives the normal form again, whatever the
  paths, models and authentication contain.
\<close>

theorem advancedCustomConfig_roundtrip:
  assumes "list_all typed_route (config_routes c)"
  shows "\<exists>n t. normalizeAdvancedCustomConfig c = Some n \<and> stringifyAdvancedCustomConfig num c = Some t
    \<and> parseAdvancedCustomConfig (Some t) = Some n"
  using typed_config_text [OF assms, of num] by (auto simp: stringifyAdvancedCustomConfig_def)

definition sample_config :: jsval where
  "sample_config = config_of
     [JObj [(lit ''incoming_path'', JStr (lit ''/v1/messages'')), (lit ''upstream_path'', JStr (lit '' /chat '')),
        (lit ''models'', JArr [JStr (lit '' claude''), JStr []]), (lit ''auth'', JObj [(lit ''type'', JStr (lit ''none''))])],
      createAdvancedCustomRoute]"

theorem advancedCustomConfig_roundtrip_witness:
  "\<exists>n t. normalizeAdvancedCustomConfig sample_config = Some n
    \<and> stringifyAdvancedCustomConfig (\<lambda>_. []) sample_config = Some t
    \<and> parseAdvancedCustomConfig (Some t) = Some n"
proof -
  have "list_all typed_route (config_routes sample_config)" by code_simp
  from advancedCustomConfig_roundtrip [OF this] show ?thesis .
qed

lemma norm_route_props:
  "get_prop (norm_route ip up c ms ao) (lit ''incoming_path'') = JStr ip"
  "get_prop (norm_route ip up c ms ao) (lit ''upstream_path'') = JStr up"
  "get_prop (norm_route ip up c ms ao) (lit ''models'') = (if ms \<noteq> [] then JArr (map JStr ms) else Undefined)"
  "get_prop (norm_route ip up c ms ao) (lit ''auth'') = (case ao of None \<Rightarrow> Undefined | Some a \<Rightarrow> norm_auth a)"
  by (cases ao; cases ms; simp add: norm_route_def lit_def)+

definition readable :: "jsval \<Rightarrow> bool" where
  "readable r \<longleftrightarrow> opt_trim_val (get_prop r (lit ''incoming_path'')) \<noteq> None
     \<and> getAdvancedCustomRouteUpstreamPath r \<noteq> None
     \<and> normalizeAdvancedCustomRouteModels (get_prop r (lit ''models'')) \<noteq> None
     \<and> validateRouteAuth (get_prop r (lit ''auth'')) \<noteq> None"

lemma norm_route_readable: "norm_ok up c ms ao \<Longrightarrow> readable (norm_route ip up c ms ao)"
proof -
  assume ok: "norm_ok up c ms ao"
  have trims: "opt_trim_val (JStr s) = Some (trim s)" for s by (simp add: opt_trim_val_def is_nullish_def)
  have "validateRouteAuth (norm_auth (t, n, v)) \<noteq> None" for t n v
  proof -
    have "get_prop (norm_auth (t, n, v)) (lit ''name'') = JStr n" "get_prop (norm_auth (t, n, v)) (lit ''value'') = JStr v"
      by (simp_all add: norm_auth_def lit_def)
    then show ?thesis by (simp add: validateRouteAuth_def trims Let_def)
  qed
  moreover have "validateRouteAuth Undefined \<noteq> None" by (simp add: validateRouteAuth_def)
  ultimately have "validateRouteAuth (case ao of None \<Rightarrow> Undefined | Some a \<Rightarrow> norm_auth a) \<noteq> None"
    by (metis option.case_eq_if prod_cases3)
  moreover have "normalizeAdvancedCustomRouteModels (if ms \<noteq> [] then JArr (map JStr ms) else Undefined) \<noteq> None"
    using normalize_models_idem [of ms] ok by (auto simp: norm_ok_def normalizeAdvancedCustomRouteModels_def)
  moreover have "getAdvancedCustomRouteUpstreamPath (norm_route ip up c ms ao) \<noteq> None"
    by (simp add: getAdvancedCustomRouteUpstreamPath_def norm_route_props or_val_def)
  ultimately show ?thesis
    unfolding readable_def norm_route_props trims by simp
qed

lemma validate_routes_not_raised:
  "list_all readable rs \<Longrightarrow> validate_routes url i rs table mli \<noteq> Raised"
proof (induction rs arbitrary: i table mli)
  case (Cons r rs)
  then obtain ip up ms where parts: "opt_trim_val (get_prop r (lit ''incoming_path'')) = Some ip"
    "getAdvancedCustomRouteUpstreamPath r = Some up"
    "normalizeAdvancedCustomRouteModels (get_prop r (lit ''models'')) = Some ms"
    and auth: "validateRouteAuth (get_prop r (lit ''auth'')) \<noteq> None"
    by (auto simp: readable_def)
  let ?target = "validate_target url ip up (or_val (get_prop r (lit ''converter'')) (JStr (lit ''none''))) (get_prop r (lit ''auth''))"
  have "?target \<noteq> None" using auth by (simp add: validate_target_def)
  then obtain e where "?target = Some e" by blast
  note target = this
  show ?case
    unfolding validate_routes.simps parts prod.case option.case Let_def target
    using Cons by (simp split: option.split sum.split)
qed simp

lemma typed_routes_readable:
  "list_all typed_route rs \<Longrightarrow> \<exists>ns. those (map normalizeAdvancedCustomRoute rs) = Some ns \<and> list_all readable ns"
proof (induction rs)
  case (Cons r rs)
  then obtain ns where ns: "those (map normalizeAdvancedCustomRoute rs) = Some ns" "list_all readable ns" by auto
  from Cons.prems have "typed_route r" by simp
  then obtain ip up c ms ao where "normalizeAdvancedCustomRoute r = Some (norm_route ip up c ms ao)" "norm_ok up c ms ao"
    by (rule normalize_typed_route)
  with ns norm_route_readable show ?case by simp
qed simp

text \<open>
  C29. Type safety: on a configuration whose properties have their declared types, or are missing,
  validating never raises an exception; it accepts or names an error. The same holds for the
  questions whether it has a valid model list route and whether it uses relative upstream paths.
\<close>

theorem typed_configuration_safe:
  assumes "list_all typed_route (config_routes c)"
  shows "validateAdvancedCustomConfig url (Some c) \<noteq> Raised
    \<and> hasValidAdvancedCustomModelListRoute url (Some c) \<noteq> None
    \<and> advancedCustomConfigUsesRelativeUpstreamPath (Some c) \<noteq> None"
proof -
  obtain ns where ns: "those (map normalizeAdvancedCustomRoute (config_routes c)) = Some ns" "list_all readable ns"
    using typed_routes_readable [OF assms] by blast
  then have n: "normalizeAdvancedCustomConfig c = Some (config_of ns)" "config_routes (config_of ns) = ns"
    by (simp_all add: normalize_config_routes) (simp add: config_routes_def config_of_def)
  have "validateAdvancedCustomConfig url (Some c) \<noteq> Raised"
    using validate_routes_not_raised [OF ns(2)] by (simp add: validateAdvancedCustomConfig_def n Let_def)
  then show ?thesis
    by (auto simp: hasValidAdvancedCustomModelListRoute_def advancedCustomConfigUsesRelativeUpstreamPath_def n split: verdict.split)
qed

theorem typed_configuration_safe_witness:
  "validateAdvancedCustomConfig (\<lambda>_. None) (Some sample_config) \<noteq> Raised
    \<and> hasValidAdvancedCustomModelListRoute (\<lambda>_. None) (Some sample_config) \<noteq> None
    \<and> advancedCustomConfigUsesRelativeUpstreamPath (Some sample_config) \<noteq> None"
proof -
  have "list_all typed_route (config_routes sample_config)" by code_simp
  from typed_configuration_safe [OF this] show ?thesis .
qed

text \<open>
  A text in which a path is a number is loaded without an error, and the validation of the loaded
  configuration raises an exception that the summary of the channel does not catch.
\<close>

lemma stats_raise_on_typed_errors:
  assumes "json_parse t = Some (config_of [JObj [(lit ''incoming_path'', JNum (Fin 5))]])" and "trim t \<noteq> []"
  shows "\<exists>n. parseAdvancedCustomConfig (Some t) = Some n \<and> validateAdvancedCustomConfig url (Some n) = Raised"
    and "getAdvancedCustomStats url (Some t) = None"
proof -
  let ?n = "config_of [JObj [(lit ''incoming_path'', JNum (Fin 5)), (lit ''upstream_path'', JStr []), (lit ''converter'', JStr (lit ''none''))]]"
  have norm: "normalizeAdvancedCustomConfig (config_of [JObj [(lit ''incoming_path'', JNum (Fin 5))]]) = Some ?n"
    "normalizeAdvancedCustomConfig ?n = Some ?n"
    "those (map getAdvancedCustomRouteSummaryLabel (config_routes ?n)) = None"
    "validateAdvancedCustomConfig url (Some ?n) = Raised"
    by code_simp+
  have parsed: "parseAdvancedCustomConfig (Some t) = Some ?n"
    using assms norm(1) by (simp add: parseAdvancedCustomConfig_def config_of_def)
  then show "\<exists>n. parseAdvancedCustomConfig (Some t) = Some n \<and> validateAdvancedCustomConfig url (Some n) = Raised"
    using norm(4) by blast
  show "getAdvancedCustomStats url (Some t) = None"
    unfolding getAdvancedCustomStats_def parsed option.case norm(2,3) by simp
qed

end
