(* ===== verification/Ratio_Sync.thy ===== *)
theory Ratio_Sync
  imports JS_Value
begin

section \<open>Upstream ratio synchronisation (\<^verbatim>\<open>system-settings/models/upstream-ratio-sync-helpers.ts\<close>)\<close>

text \<open>
  The administrator compares the prices of models with those of upstream sources and selects, model
  by model, which upstream values to take over. Objects with string keys are association lists in
  insertion order; a draft that the code mutates in a map is written back to the map. Upstream
  values are numbers or strings, the marker \<^verbatim>\<open>'same'\<close>, \<open>null\<close> or missing, hence of type \<open>jsval\<close>.
  Names of \<^verbatim>\<open>Object.prototype\<close> as model names are not modelled.
\<close>

subsection \<open>Fields\<close>

definition OFFICIAL_CHANNEL_ID :: int where "OFFICIAL_CHANNEL_ID = -100"

definition OFFICIAL_CHANNEL_NAME :: jstring where
  "OFFICIAL_CHANNEL_NAME = [23448, 26041, 20493, 29575, 39044, 35774]"

definition MODELS_DEV_PRESET_ID :: int where "MODELS_DEV_PRESET_ID = -101"

definition MODELS_DEV_PRESET_NAME :: jstring where
  "MODELS_DEV_PRESET_NAME = lit ''models.dev '' @ [20215, 26684, 39044, 35774]"

definition RATIO_TYPE_OPTIONS :: "(jstring \<times> jstring) list" where
  "RATIO_TYPE_OPTIONS =
     [(lit ''Model ratio'', lit ''model_ratio''), (lit ''Completion ratio'', lit ''completion_ratio''),
      (lit ''Cache ratio'', lit ''cache_ratio''), (lit ''Create cache ratio'', lit ''create_cache_ratio''),
      (lit ''Image ratio'', lit ''image_ratio''), (lit ''Audio ratio'', lit ''audio_ratio''),
      (lit ''Audio completion ratio'', lit ''audio_completion_ratio''), (lit ''Fixed price'', lit ''model_price''),
      (lit ''Expression billing'', lit ''billing_expr'')]"

record ratio_difference =
  rd_current :: jsval
  upstreams :: "(jstring, jsval) jmap"
  confidence :: "(jstring, bool) jmap"

type_synonym model_differences = "(jstring, ratio_difference) jmap"
type_synonym model_resolution = "(jstring, jsval) jmap"
type_synonym resolutions_map = "(jstring, model_resolution) jmap"

record resolution_selection =
  sel_model :: jstring
  sel_ratioType :: jstring
  sel_value :: jsval
  sel_sourceName :: jstring

definition RATIO_SYNC_FIELDS :: "jstring list" where
  "RATIO_SYNC_FIELDS =
     [lit ''model_ratio'', lit ''completion_ratio'', lit ''cache_ratio'', lit ''create_cache_ratio'',
      lit ''image_ratio'', lit ''audio_ratio'', lit ''audio_completion_ratio'']"

definition SYNC_FIELD_ORDER :: "jstring list" where
  "SYNC_FIELD_ORDER = RATIO_SYNC_FIELDS @ [lit ''model_price'', lit ''billing_mode'', lit ''billing_expr'']"

definition NUMERIC_SYNC_FIELDS :: "jstring list" where
  "NUMERIC_SYNC_FIELDS = RATIO_SYNC_FIELDS @ [lit ''model_price'']"

definition getSyncFieldLabel :: "jstring \<Rightarrow> (jstring \<Rightarrow> jstring) \<Rightarrow> jstring" where
  "getSyncFieldLabel ratioType t =
     (case find (\<lambda>opt. snd opt = ratioType) RATIO_TYPE_OPTIONS of
        Some opt \<Rightarrow> t (fst opt)
      | None \<Rightarrow> ratioType)"

definition getOrderedRatioTypes :: "model_differences \<Rightarrow> jstring option \<Rightarrow> jstring list" where
  "getOrderedRatioTypes ratioTypes fltr =
     (let keys = map fst ratioTypes;
          ordered = filter (\<lambda>f. f \<in> set keys) SYNC_FIELD_ORDER @ filter (\<lambda>f. f \<notin> set SYNC_FIELD_ORDER) keys
      in case fltr of
           None \<Rightarrow> ordered
         | Some w \<Rightarrow> if w = [] \<or> w = lit ''__all__'' then ordered else filter (\<lambda>f. f = w) ordered)"

text \<open>\<^verbatim>\<open>ratioTypes[field]?.upstreams?.[sourceName]\<close>\<close>

definition upstream_value :: "model_differences \<Rightarrow> jstring \<Rightarrow> jstring \<Rightarrow> jsval" where
  "upstream_value ratioTypes field sourceName =
     (case map_of ratioTypes field of
        None \<Rightarrow> Undefined
      | Some d \<Rightarrow> coalesce (map_of (upstreams d) sourceName) Undefined)"

definition isSelectableUpstreamValue :: "jsval \<Rightarrow> bool" where
  "isSelectableUpstreamValue v \<longleftrightarrow> v \<noteq> Null \<and> v \<noteq> Undefined \<and> v \<noteq> JStr (lit ''same'')"

definition getPreferredSyncField :: "model_differences \<Rightarrow> jstring \<Rightarrow> jstring \<Rightarrow> jstring" where
  "getPreferredSyncField ratioTypes ratioType sourceName =
     (let exprValue = upstream_value ratioTypes (lit ''billing_expr'') sourceName in
      if ratioType \<noteq> lit ''billing_expr'' \<and> exprValue \<noteq> Null \<and> exprValue \<noteq> Undefined \<and> exprValue \<noteq> JStr (lit ''same'')
      then lit ''billing_expr'' else ratioType)"

definition getVisibleRatioTypesForSource :: "model_differences \<Rightarrow> jstring \<Rightarrow> jstring option \<Rightarrow> jstring list" where
  "getVisibleRatioTypesForSource ratioTypes sourceName fltr =
     filter (\<lambda>rt. getPreferredSyncField ratioTypes rt sourceName = rt) (getOrderedRatioTypes ratioTypes fltr)"

definition getAlignedRatioTypes :: "model_differences \<Rightarrow> jstring list \<Rightarrow> jstring option \<Rightarrow> jstring list" where
  "getAlignedRatioTypes ratioTypes sourceNames fltr =
     (let ordered = getOrderedRatioTypes ratioTypes fltr in
      if sourceNames = [] then ordered
      else let visible = concat (map (\<lambda>s. getVisibleRatioTypesForSource ratioTypes s fltr) sourceNames)
           in filter (\<lambda>rt. rt \<in> set visible) ordered)"

datatype billing_category = Price | Ratio | Tiered

definition getBillingCategory :: "jstring \<Rightarrow> billing_category" where
  "getBillingCategory ratioType =
     (if ratioType = lit ''model_price'' then Price
      else if ratioType = lit ''billing_mode'' \<or> ratioType = lit ''billing_expr'' then Tiered
      else Ratio)"

definition preset_label :: "jstring \<Rightarrow> int \<Rightarrow> jstring" where
  "preset_label name i = name @ lit ''('' @ show_int i @ lit '')''"

definition getUpstreamDisplayName :: "jstring \<Rightarrow> jstring" where
  "getUpstreamDisplayName sourceName =
     (if sourceName = preset_label OFFICIAL_CHANNEL_NAME OFFICIAL_CHANNEL_ID then OFFICIAL_CHANNEL_NAME
      else if sourceName = preset_label MODELS_DEV_PRESET_NAME MODELS_DEV_PRESET_ID then MODELS_DEV_PRESET_NAME
      else sourceName)"

subsection \<open>Selecting\<close>

definition getDraftModelResolution :: "(jstring, model_resolution) jmap \<Rightarrow> resolutions_map \<Rightarrow> jstring \<Rightarrow> model_resolution" where
  "getDraftModelResolution drafts resolutions model =
     (case map_of drafts model of
        Some existingDraft \<Rightarrow> existingDraft
      | None \<Rightarrow> coalesce (map_of resolutions model) [])"

text \<open>The type and the value that a selection stands for.\<close>

definition resolveResolutionSelection ::
    "(jstring, model_differences) jmap \<Rightarrow> resolution_selection \<Rightarrow> resolution_selection" where
  "resolveResolutionSelection differences selection =
     (let modelDiffs = map_of differences (sel_model selection);
          preferredType = getPreferredSyncField (coalesce modelDiffs []) (sel_ratioType selection) (sel_sourceName selection);
          preferredValue =
            (if preferredType = sel_ratioType selection then sel_value selection
             else let v = upstream_value (coalesce modelDiffs []) preferredType (sel_sourceName selection)
                  in if is_nullish v then sel_value selection else v)
      in selection\<lparr>sel_ratioType := preferredType, sel_value := preferredValue\<rparr>)"

text \<open>The fields of one model after a resolved selection.\<close>

definition draft_after :: "model_differences option \<Rightarrow> resolution_selection \<Rightarrow> model_resolution \<Rightarrow> model_resolution" where
  "draft_after modelDiffs s res =
     (let category = getBillingCategory (sel_ratioType s);
          kept = filter (\<lambda>(rt, v). \<not> (category \<noteq> Tiered \<and> getBillingCategory rt \<noteq> Tiered \<and> getBillingCategory rt \<noteq> category)) res;
          set1 = AList.update (sel_ratioType s) (sel_value s) kept
      in if category = Tiered \<and> modelDiffs \<noteq> None then
           let modeVal = upstream_value (the modelDiffs) (lit ''billing_mode'') (sel_sourceName s);
               exprVal = upstream_value (the modelDiffs) (lit ''billing_expr'') (sel_sourceName s);
               set2 = (if isSelectableUpstreamValue modeVal then AList.update (lit ''billing_mode'') modeVal set1
                       else if sel_ratioType s = lit ''billing_expr''
                       then AList.update (lit ''billing_mode'') (JStr (lit ''tiered_expr'')) set1
                       else set1)
           in if isSelectableUpstreamValue exprVal then AList.update (lit ''billing_expr'') exprVal set2 else set2
         else set1)"

definition applyResolutionSelectionToDraft ::
    "resolutions_map \<Rightarrow> (jstring, model_differences) jmap \<Rightarrow> resolution_selection
      \<Rightarrow> (jstring, model_resolution) jmap \<Rightarrow> (jstring, model_resolution) jmap" where
  "applyResolutionSelectionToDraft resolutions differences selection drafts =
     AList.update (sel_model selection)
       (draft_after (map_of differences (sel_model selection)) (resolveResolutionSelection differences selection)
          (getDraftModelResolution drafts resolutions (sel_model selection))) drafts"

text \<open>\<^verbatim>\<open>drafts.forEach\<close>: an empty draft deletes the model.\<close>

definition write_draft :: "jstring \<times> model_resolution \<Rightarrow> resolutions_map \<Rightarrow> resolutions_map" where
  "write_draft = (\<lambda>(model, draft) next. if draft = [] then AList.delete model next else AList.update model draft next)"

definition applyResolutionSelections ::
    "resolutions_map \<Rightarrow> (jstring, model_differences) jmap \<Rightarrow> resolution_selection list \<Rightarrow> resolutions_map" where
  "applyResolutionSelections resolutions differences selections =
     (if selections = [] then resolutions
      else fold write_draft (fold (applyResolutionSelectionToDraft resolutions differences) selections []) resolutions)"

definition applyResolutionSelection ::
    "resolutions_map \<Rightarrow> (jstring, model_differences) jmap \<Rightarrow> resolution_selection \<Rightarrow> resolutions_map" where
  "applyResolutionSelection resolutions differences selection =
     applyResolutionSelections resolutions differences [selection]"

definition selection_key :: "resolution_selection \<Rightarrow> jstring" where
  "selection_key s = sel_model s @ [0] @ sel_ratioType s"

definition effective_step ::
    "(jstring, model_differences) jmap \<Rightarrow> resolution_selection \<Rightarrow> (jstring, resolution_selection) jmap
      \<Rightarrow> (jstring, resolution_selection) jmap" where
  "effective_step differences selection effectiveByKey =
     (let resolved = resolveResolutionSelection differences selection;
          category = getBillingCategory (sel_ratioType resolved);
          kept = (if category \<noteq> Tiered
                  then filter (\<lambda>(key, existing). \<not> (sel_model existing = sel_model resolved
                         \<and> getBillingCategory (sel_ratioType existing) \<noteq> Tiered
                         \<and> getBillingCategory (sel_ratioType existing) \<noteq> category)) effectiveByKey
                  else effectiveByKey)
      in AList.update (selection_key resolved) resolved kept)"

definition getEffectiveResolutionSelections ::
    "(jstring, model_differences) jmap \<Rightarrow> resolution_selection list \<Rightarrow> resolution_selection list" where
  "getEffectiveResolutionSelections differences selections =
     map snd (fold (effective_step differences) selections [])"

subsection \<open>Removing\<close>

type_synonym removal_plan = "(jstring, jstring list) jmap"

definition remove_field :: "jstring \<Rightarrow> model_resolution \<Rightarrow> model_resolution" where
  "remove_field ratioType draft =
     (let d1 = AList.delete ratioType draft;
          d2 = (if ratioType = lit ''billing_expr'' then AList.delete (lit ''billing_mode'') d1 else d1)
      in if ratioType = lit ''billing_mode'' then AList.delete (lit ''billing_expr'') d2 else d2)"

definition plan_step :: "resolutions_map \<Rightarrow> jstring \<times> jstring list \<Rightarrow> resolutions_map \<Rightarrow> resolutions_map" where
  "plan_step resolutions = (\<lambda>(model, ratioTypes) next.
     case map_of resolutions model of
       None \<Rightarrow> next
     | Some current \<Rightarrow> write_draft (model, fold remove_field ratioTypes current) next)"

definition applyResolutionRemovalPlan :: "resolutions_map \<Rightarrow> removal_plan \<Rightarrow> resolutions_map" where
  "applyResolutionRemovalPlan resolutions plan =
     (if plan = [] then resolutions else fold (plan_step resolutions) plan resolutions)"

definition add_removal :: "jstring \<times> jstring \<Rightarrow> removal_plan \<Rightarrow> removal_plan" where
  "add_removal = (\<lambda>(model, ratioType) plan.
     AList.update model
       (case map_of plan model of
          Some rts \<Rightarrow> if ratioType \<in> set rts then rts else rts @ [ratioType]
        | None \<Rightarrow> [ratioType]) plan)"

definition applyResolutionRemovals :: "resolutions_map \<Rightarrow> (jstring \<times> jstring) list \<Rightarrow> resolutions_map" where
  "applyResolutionRemovals resolutions removals =
     (if removals = [] then resolutions
      else applyResolutionRemovalPlan resolutions (fold add_removal removals []))"

definition deleteResolutionField :: "resolutions_map \<Rightarrow> jstring \<Rightarrow> jstring \<Rightarrow> resolutions_map" where
  "deleteResolutionField resolutions model ratioType = applyResolutionRemovals resolutions [(model, ratioType)]"

subsection \<open>Price or ratio\<close>

definition has_category :: "billing_category \<Rightarrow> model_resolution \<Rightarrow> bool" where
  "has_category c res \<longleftrightarrow> list_ex (\<lambda>(rt, v). getBillingCategory rt = c) res"

text \<open>A model is billed by a fixed price or by ratios, not by both.\<close>

definition exclusive :: "model_resolution \<Rightarrow> bool" where
  "exclusive res \<longleftrightarrow> \<not> (has_category Price res \<and> has_category Ratio res)"

definition resolution_of :: "resolutions_map \<Rightarrow> jstring \<Rightarrow> jstring \<Rightarrow> jsval option" where
  "resolution_of rs model rt = Option.bind (map_of rs model) (\<lambda>res. map_of res rt)"

lemma has_category_iff: "has_category c res \<longleftrightarrow> (\<exists>rt \<in> fst ` set res. getBillingCategory rt = c)"
  by (force simp: has_category_def list_ex_iff)

lemma category_tiered [simp]:
  "getBillingCategory (lit ''billing_mode'') = Tiered" "getBillingCategory (lit ''billing_expr'') = Tiered"
  by (simp_all add: getBillingCategory_def lit_def)

lemma map_of_filter_key: "map_of (filter (\<lambda>(k, v). P k) xs) k = (if P k then map_of xs k else None)"
  by (induction xs) auto

lemma keys_draft_after:
  "fst ` set (draft_after d s res) \<subseteq>
     {rt \<in> fst ` set res. \<not> (getBillingCategory (sel_ratioType s) \<noteq> Tiered \<and> getBillingCategory rt \<noteq> Tiered
        \<and> getBillingCategory rt \<noteq> getBillingCategory (sel_ratioType s))}
     \<union> {sel_ratioType s} \<union> {rt. getBillingCategory rt = Tiered}"
proof -
  have upd: "fst ` set (AList.update k v xs) = insert k (fst ` set xs)" for k :: jstring and v :: jsval and xs
    using dom_update [of k v xs] by auto
  show ?thesis
    unfolding draft_after_def Let_def by (auto simp: upd split: if_splits)
qed

lemma draft_after_category:
  assumes "has_category c (draft_after d s res)" "c \<noteq> Tiered"
  shows "if getBillingCategory (sel_ratioType s) = Tiered then has_category c res else c = getBillingCategory (sel_ratioType s)"
proof -
  from assms(1) obtain rt where rt: "rt \<in> fst ` set (draft_after d s res)" "getBillingCategory rt = c"
    unfolding has_category_iff by blast
  from rt(1) keys_draft_after [of d s res] have
    "(rt \<in> fst ` set res \<and> \<not> (getBillingCategory (sel_ratioType s) \<noteq> Tiered \<and> getBillingCategory rt \<noteq> Tiered
        \<and> getBillingCategory rt \<noteq> getBillingCategory (sel_ratioType s)))
     \<or> rt = sel_ratioType s \<or> getBillingCategory rt = Tiered" by blast
  with rt(2) assms(2) show ?thesis unfolding has_category_iff by auto
qed

lemma draft_after_exclusive:
  assumes "exclusive res"
  shows "exclusive (draft_after d s res)"
proof (cases "getBillingCategory (sel_ratioType s) = Tiered")
  case True
  with draft_after_category [of _ d s res] assms show ?thesis by (auto simp: exclusive_def)
next
  case False
  with draft_after_category [of Price d s res] draft_after_category [of Ratio d s res] show ?thesis
    by (auto simp: exclusive_def)
qed

lemma draft_after_value:
  assumes "getBillingCategory rt \<noteq> Tiered"
  shows "map_of (draft_after d s res) rt =
    (if rt = sel_ratioType s then Some (sel_value s)
     else if getBillingCategory (sel_ratioType s) \<noteq> Tiered \<and> getBillingCategory rt \<noteq> getBillingCategory (sel_ratioType s)
     then None else map_of res rt)"
proof -
  have "rt \<noteq> lit ''billing_mode''" "rt \<noteq> lit ''billing_expr''" using assms by auto
  with assms show ?thesis
    by (simp add: draft_after_def Let_def update_conv' map_of_filter_key)
qed

subsection \<open>Drafts\<close>

lemma write_drafts:
  "distinct (map fst ds) \<Longrightarrow> map_of (fold write_draft ds rs) m =
     (case map_of ds m of None \<Rightarrow> map_of rs m | Some d \<Rightarrow> if d = [] then None else Some d)"
proof (induction ds arbitrary: rs)
  case (Cons p ds)
  obtain m' d where p: "p = (m', d)" by fastforce
  from Cons have IH: "map_of (fold write_draft ds (write_draft p rs)) m =
     (case map_of ds m of None \<Rightarrow> map_of (write_draft p rs) m | Some d \<Rightarrow> if d = [] then None else Some d)" by simp
  from Cons.prems p have "m = m' \<Longrightarrow> map_of ds m = None" by (auto simp: map_of_eq_None_iff)
  with IH p show ?case
    by (auto simp: write_draft_def update_conv' delete_conv' split: option.splits)
qed simp

lemma set_update_cases: "x \<in> set (AList.update k v xs) \<Longrightarrow> x = (k, v) \<or> x \<in> set xs"
  by (induction xs) (auto split: if_splits)

lemma set_write_drafts:
  "(m, res) \<in> set (fold write_draft ds rs) \<Longrightarrow> (m, res) \<in> set rs \<or> (m, res) \<in> set ds"
proof (induction ds arbitrary: rs)
  case (Cons p ds)
  obtain m' d where p: "p = (m', d)" by fastforce
  have "(m, res) \<in> set (write_draft p rs) \<Longrightarrow> (m, res) \<in> set rs \<or> (m, res) = p"
    by (auto simp: p write_draft_def AList.delete_eq dest!: set_update_cases split: if_splits)
  with Cons.IH [of "write_draft p rs"] Cons.prems show ?case by auto
qed simp

definition drafts_ok :: "(jstring, model_resolution) jmap \<Rightarrow> bool" where
  "drafts_ok ds \<longleftrightarrow> distinct (map fst ds) \<and> (\<forall>(m, res) \<in> set ds. exclusive res)"

lemma drafts_ok_step:
  assumes "drafts_ok ds" and "\<forall>(m, res) \<in> set rs. exclusive res"
  shows "drafts_ok (applyResolutionSelectionToDraft rs dmap s ds)"
proof -
  have "exclusive (getDraftModelResolution ds rs m)" for m
    using assms by (auto simp: getDraftModelResolution_def drafts_ok_def coalesce_def exclusive_def has_category_def
        split: option.splits dest!: map_of_SomeD)
  then show ?thesis
    using assms(1) by (auto simp: drafts_ok_def applyResolutionSelectionToDraft_def distinct_update
        intro: draft_after_exclusive dest!: set_update_cases)
qed

subsection \<open>Effective selections\<close>

definition typed_selection :: "resolution_selection \<Rightarrow> bool" where
  "typed_selection s \<longleftrightarrow> sel_ratioType s \<in> set SYNC_FIELD_ORDER"

lemma fields_no_nul: "rt \<in> set SYNC_FIELD_ORDER \<Longrightarrow> 0 \<notin> set rt"
  by (auto simp: SYNC_FIELD_ORDER_def RATIO_SYNC_FIELDS_def lit_def)

lemma nul_split: "a @ 0 # b = a' @ 0 # b' \<Longrightarrow> 0 \<notin> set b \<Longrightarrow> 0 \<notin> set b' \<Longrightarrow> a = a' \<and> b = b'"
  for a b :: jstring
proof (induction a arbitrary: a')
  case Nil
  then show ?case by (cases a') auto
next
  case (Cons c a)
  then show ?case by (cases a') auto
qed

lemma selection_key_inject:
  "typed_selection s \<Longrightarrow> typed_selection s' \<Longrightarrow> selection_key s = selection_key s' \<Longrightarrow>
     sel_model s = sel_model s' \<and> sel_ratioType s = sel_ratioType s'"
  using nul_split [of "sel_model s" "sel_ratioType s" "sel_model s'" "sel_ratioType s'"]
  by (auto simp: selection_key_def typed_selection_def dest: fields_no_nul)

lemma resolve_typed: "typed_selection s \<Longrightarrow> typed_selection (resolveResolutionSelection dmap s)"
  by (auto simp: typed_selection_def resolveResolutionSelection_def getPreferredSyncField_def Let_def SYNC_FIELD_ORDER_def)

lemma resolve_model [simp]: "sel_model (resolveResolutionSelection dmap s) = sel_model s"
  by (simp add: resolveResolutionSelection_def Let_def)

definition held :: "(jstring, model_resolution) jmap \<Rightarrow> resolution_selection \<Rightarrow> bool" where
  "held ds s \<longleftrightarrow> getBillingCategory (sel_ratioType s) = Tiered
     \<or> resolution_of ds (sel_model s) (sel_ratioType s) = Some (sel_value s)"

definition effective_inv :: "(jstring, resolution_selection) jmap \<Rightarrow> (jstring, model_resolution) jmap \<Rightarrow> bool" where
  "effective_inv eff ds \<longleftrightarrow> distinct (map fst eff) \<and>
     (\<forall>(key, s) \<in> set eff. key = selection_key s \<and> typed_selection s \<and> held ds s)"

lemma effective_inv_step:
  assumes "effective_inv eff ds" and "typed_selection s"
  shows "effective_inv (effective_step dmap s eff) (applyResolutionSelectionToDraft rs dmap s ds)"
proof -
  let ?r = "resolveResolutionSelection dmap s"
  let ?old = "getDraftModelResolution ds rs (sel_model s)"
  let ?new = "draft_after (map_of dmap (sel_model s)) ?r ?old"
  let ?ds = "applyResolutionSelectionToDraft rs dmap s ds"
  have ds: "resolution_of ?ds m rt = (if m = sel_model s then map_of ?new rt else resolution_of ds m rt)" for m rt
    by (simp add: applyResolutionSelectionToDraft_def resolution_of_def update_conv')
  have r: "typed_selection ?r" using resolve_typed assms(2) by blast
  have held_r: "held ?ds ?r"
    unfolding held_def ds by (cases "getBillingCategory (sel_ratioType ?r) = Tiered") (simp_all add: draft_after_value)
  have keep: "held ?ds e" if e: "typed_selection e" "held ds e" "selection_key e \<noteq> selection_key ?r"
    and cat: "\<not> (getBillingCategory (sel_ratioType ?r) \<noteq> Tiered \<and> sel_model e = sel_model s
       \<and> getBillingCategory (sel_ratioType e) \<noteq> Tiered
       \<and> getBillingCategory (sel_ratioType e) \<noteq> getBillingCategory (sel_ratioType ?r))" for e
  proof (cases "sel_model e = sel_model s \<and> getBillingCategory (sel_ratioType e) \<noteq> Tiered")
    case True
    then have "sel_ratioType e \<noteq> sel_ratioType ?r" using e(3) by (auto simp: selection_key_def)
    moreover have "map_of ?old (sel_ratioType e) = Some (sel_value e)"
      using e(2) True by (auto simp: held_def resolution_of_def getDraftModelResolution_def split: bind_splits)
    ultimately show ?thesis
      using True cat by (simp add: held_def ds draft_after_value)
  qed (use e(2) in \<open>auto simp: held_def ds\<close>)
  have upd: "x \<in> set (AList.update k v xs) \<Longrightarrow> x = (k, v) \<or> x \<in> set xs \<and> fst x \<noteq> k"
    if "distinct (map fst xs)" for x k v and xs :: "(jstring, resolution_selection) jmap"
    using that by (induction xs) (auto split: if_splits)
  define kept where "kept = (if getBillingCategory (sel_ratioType ?r) \<noteq> Tiered
      then filter (\<lambda>(key, existing). \<not> (sel_model existing = sel_model ?r
             \<and> getBillingCategory (sel_ratioType existing) \<noteq> Tiered
             \<and> getBillingCategory (sel_ratioType existing) \<noteq> getBillingCategory (sel_ratioType ?r))) eff
      else eff)"
  have eff: "effective_step dmap s eff = AList.update (selection_key ?r) ?r kept"
    by (simp add: effective_step_def kept_def Let_def)
  have kept: "distinct (map fst kept)"
    using assms(1) by (simp add: kept_def effective_inv_def distinct_map_filter)
  have "key = selection_key e \<and> typed_selection e \<and> held ?ds e" if "(key, e) \<in> set (effective_step dmap s eff)" for key e
    using that [unfolded eff, THEN upd [OF kept]]
  proof (elim disjE conjE)
    assume "(key, e) = (selection_key ?r, ?r)"
    with r held_r show ?thesis by simp
  next
    assume in_kept: "(key, e) \<in> set kept" and "fst (key, e) \<noteq> selection_key ?r"
    moreover from in_kept have "(key, e) \<in> set eff" by (auto simp: kept_def split: if_splits)
    with assms(1) have "key = selection_key e" "typed_selection e" "held ds e" by (auto simp: effective_inv_def)
    moreover from in_kept have "\<not> (getBillingCategory (sel_ratioType ?r) \<noteq> Tiered \<and> sel_model e = sel_model s
       \<and> getBillingCategory (sel_ratioType e) \<noteq> Tiered
       \<and> getBillingCategory (sel_ratioType e) \<noteq> getBillingCategory (sel_ratioType ?r))"
      by (auto simp: kept_def split: if_splits)
    ultimately show ?thesis using keep by simp
  qed
  moreover have "distinct (map fst (effective_step dmap s eff))"
    unfolding eff by (rule distinct_update [OF kept])
  ultimately show ?thesis by (auto simp: effective_inv_def)
qed

lemma selections_inv:
  assumes "\<forall>(m, res) \<in> set rs. exclusive res"
  shows "list_all typed_selection sels \<Longrightarrow> effective_inv eff ds \<Longrightarrow> drafts_ok ds \<Longrightarrow>
    effective_inv (fold (effective_step dmap) sels eff) (fold (applyResolutionSelectionToDraft rs dmap) sels ds)
    \<and> drafts_ok (fold (applyResolutionSelectionToDraft rs dmap) sels ds)"
proof (induction sels arbitrary: eff ds)
  case (Cons s sels)
  then have "typed_selection s" "list_all typed_selection sels" by simp_all
  with Cons.IH [of "effective_step dmap s eff" "applyResolutionSelectionToDraft rs dmap s ds"]
    effective_inv_step [OF Cons.prems(2)] drafts_ok_step [OF Cons.prems(3) assms] show ?case by simp
qed simp

lemma nonempty_draft:
  assumes "drafts_ok ds" "held ds s" "getBillingCategory (sel_ratioType s) \<noteq> Tiered"
  shows "resolution_of (fold write_draft ds rs) (sel_model s) (sel_ratioType s) = Some (sel_value s)"
  using assms write_drafts [of ds rs "sel_model s"]
  by (auto simp: held_def resolution_of_def drafts_ok_def split: bind_splits option.splits)

subsection \<open>Properties\<close>

text \<open>
  Taking over upstream values in bulk: whatever selections are made, for whatever differences, no
  model ends up with both a fixed price and ratios when none had both before, and the selections
  that the table shows as effective are what the resolutions hold: for every effective price or
  ratio, the resolution of its model has exactly that value in that field.
\<close>

theorem applyResolutionSelections_consistent:
  assumes "list_all typed_selection selections" and "list_all (\<lambda>(m, res). exclusive res) resolutions"
  shows "list_all (\<lambda>(m, res). exclusive res) (applyResolutionSelections resolutions differences selections)
    \<and> list_all (\<lambda>s. getBillingCategory (sel_ratioType s) = Tiered
         \<or> resolution_of (applyResolutionSelections resolutions differences selections) (sel_model s) (sel_ratioType s)
             = Some (sel_value s))
       (getEffectiveResolutionSelections differences selections)"
proof (cases "selections = []")
  case True
  with assms show ?thesis by (simp add: applyResolutionSelections_def getEffectiveResolutionSelections_def)
next
  case False
  let ?ds = "fold (applyResolutionSelectionToDraft resolutions differences) selections []"
  let ?eff = "fold (effective_step differences) selections []"
  have ex: "\<forall>(m, res) \<in> set resolutions. exclusive res" using assms(2) by (simp add: list_all_iff)
  have inv: "effective_inv ?eff ?ds" "drafts_ok ?ds"
    using selections_inv [OF ex assms(1), of "[]" "[]"] by (simp_all add: effective_inv_def drafts_ok_def)
  have "exclusive res" if "(m, res) \<in> set (fold write_draft ?ds resolutions)" for m res
    using set_write_drafts [OF that] ex inv(2) by (auto simp: drafts_ok_def)
  moreover have "getBillingCategory (sel_ratioType s) = Tiered
      \<or> resolution_of (fold write_draft ?ds resolutions) (sel_model s) (sel_ratioType s) = Some (sel_value s)"
    if "s \<in> snd ` set ?eff" for s
    using that inv nonempty_draft by (fastforce simp: effective_inv_def)
  ultimately show ?thesis
    using False by (auto simp: applyResolutionSelections_def getEffectiveResolutionSelections_def list_all_iff)
qed

definition sample_selection :: "string \<Rightarrow> rat \<Rightarrow> resolution_selection" where
  "sample_selection rt v = \<lparr>sel_model = lit ''gpt'', sel_ratioType = lit rt, sel_value = JNum (Fin v), sel_sourceName = lit ''src''\<rparr>"

theorem applyResolutionSelections_consistent_witness:
  defines "sels \<equiv> [sample_selection ''model_price'' 2, sample_selection ''model_ratio'' 3, sample_selection ''cache_ratio'' 1]"
  shows "applyResolutionSelections [] [] sels = [(lit ''gpt'', [(lit ''model_ratio'', JNum (Fin 3)), (lit ''cache_ratio'', JNum (Fin 1))])]
    \<and> list_all (\<lambda>(m, res). exclusive res) (applyResolutionSelections [] [] sels)
    \<and> map sel_ratioType (getEffectiveResolutionSelections [] sels) = [lit ''model_ratio'', lit ''cache_ratio'']"
proof -
  have "list_all typed_selection sels" "list_all (\<lambda>(m, res). exclusive res) ([] :: resolutions_map)"
    unfolding sels_def by code_simp+
  from applyResolutionSelections_consistent [OF this, of "[]"] show ?thesis
    unfolding sels_def by (intro conjI) (code_simp, simp, code_simp)
qed

end
