(* ===== verification/Model_Mapping.thy ===== *)
theory Model_Mapping
  imports JS_Json
begin

section \<open>Model lists and mappings of a channel (\<^verbatim>\<open>channels/lib/model-mapping-validation.ts\<close>)\<close>

text \<open>
  The list of models of a channel is a text with commas, its mapping a JSON text that redirects
  models. A \<^verbatim>\<open>Set\<close> is the list of its elements in insertion order.
\<close>

definition parseModelsString :: "jstring \<Rightarrow> jstring list" where
  "parseModelsString modelsStr =
     (if modelsStr = [] then [] else filter (\<lambda>m. m \<noteq> []) (map trim (split_on 44 modelsStr)))"

definition formatModelsArray :: "jstring list \<Rightarrow> jstring" where
  "formatModelsArray models = join [44] (uniq models)"

definition normalizeModelName :: "jstring \<Rightarrow> jstring" where
  "normalizeModelName model = trim model"

text \<open>The properties of the object that a text denotes, if it denotes one.\<close>

definition mapping_object :: "jstring \<Rightarrow> (jstring \<times> jsval) list option" where
  "mapping_object t = (case json_parse t of Some (JObj ps) \<Rightarrow> Some ps | _ \<Rightarrow> None)"

definition extractMappingSourceModels :: "jstring \<Rightarrow> jstring list" where
  "extractMappingSourceModels modelMapping =
     (let trimmed = trim modelMapping in
      if trimmed = [] then []
      else case mapping_object trimmed of
        None \<Rightarrow> []
      | Some ps \<Rightarrow> uniq (filter (\<lambda>k. k \<noteq> []) (map (\<lambda>p. trim (fst p)) ps)))"

definition extractRedirectModels :: "jstring \<Rightarrow> jstring list" where
  "extractRedirectModels modelMapping =
     (let trimmed = trim modelMapping in
      if trimmed = [] then []
      else case mapping_object trimmed of
        None \<Rightarrow> []
      | Some ps \<Rightarrow> uniq (filter (\<lambda>v. v \<noteq> [])
          (map (\<lambda>p. case as_str (snd p) of Some s \<Rightarrow> trim s | None \<Rightarrow> []) ps)))"

definition hasModelConfigChanged :: "jstring list \<Rightarrow> jstring \<Rightarrow> jstring list \<Rightarrow> jstring \<Rightarrow> bool" where
  "hasModelConfigChanged currentModels currentModelMapping initialModels initialModelMapping =
     (if initialModels = [] \<and> initialModelMapping = [] then True
      else if length currentModels \<noteq> length initialModels then True
      else if list_ex (\<lambda>i. currentModels ! i \<noteq> initialModels ! i) [0..<length currentModels] then True
      else trim currentModelMapping \<noteq> trim initialModelMapping)"

definition findMissingModelsInMapping :: "jstring \<Rightarrow> jstring list \<Rightarrow> jstring list" where
  "findMissingModelsInMapping modelMapping currentModels =
     (if modelMapping = [] \<or> trim modelMapping = [] then []
      else case mapping_object modelMapping of
        None \<Rightarrow> []
      | Some ps \<Rightarrow>
          let modelSet = map normalizeModelName currentModels
          in uniq (filter (\<lambda>key. key \<noteq> [] \<and> key \<notin> set modelSet) (map (\<lambda>p. normalizeModelName (fst p)) ps)))"

datatype mapping_check = Mapping_valid | Mapping_error jstring

definition validateModelMappingJson :: "jstring \<Rightarrow> mapping_check" where
  "validateModelMappingJson modelMapping =
     (if modelMapping = [] \<or> trim modelMapping = [] then Mapping_valid
      else case json_parse modelMapping of
        None \<Rightarrow> Mapping_error (lit ''Model mapping must be valid JSON format'')
      | Some (JObj ps) \<Rightarrow>
          if list_ex (\<lambda>p. as_str (snd p) = None) ps
          then Mapping_error (lit ''Model mapping values must be strings'') else Mapping_valid
      | Some _ \<Rightarrow> Mapping_error (lit ''Model mapping must be a valid JSON object''))"

record model_categories =
  normalizedCurrentModels :: "jstring list"
  normalizedRedirectModels :: "jstring list"
  classificationSet :: "jstring list"
  redirectOnlySet :: "jstring list"

definition categorizeModelsWithRedirect :: "jstring list \<Rightarrow> jstring list \<Rightarrow> model_categories" where
  "categorizeModelsWithRedirect currentModels redirectModels =
     (let cur = uniq (filter (\<lambda>m. m \<noteq> []) (map normalizeModelName currentModels));
          red = uniq (filter (\<lambda>m. m \<noteq> []) (map normalizeModelName redirectModels))
      in \<lparr>normalizedCurrentModels = cur, normalizedRedirectModels = red, classificationSet = uniq (cur @ red),
          redirectOnlySet = uniq (filter (\<lambda>m. m \<notin> set cur) red)\<rparr>)"

subsection \<open>Properties\<close>

lemma parseModelsString_clean:
  assumes "m \<in> set (parseModelsString s)"
  shows "m \<noteq> []" "trim m = m" "44 \<notin> set m"
proof -
  from assms obtain x where x: "x \<in> set (split_on 44 s)" "m = trim x" "m \<noteq> []"
    by (auto simp: parseModelsString_def split: if_splits)
  then show "m \<noteq> []" "trim m = m" by simp_all
  show "44 \<notin> set m" using x split_on_sep_free [OF x(1)] set_trim [of x] by auto
qed

lemma parse_format_models:
  assumes "\<forall>m \<in> set ms. m \<noteq> [] \<and> trim m = m \<and> 44 \<notin> set m"
  shows "parseModelsString (formatModelsArray ms) = uniq ms"
proof (cases "ms = []")
  case False
  have "split_on 44 (join [44] (uniq ms)) = uniq ms"
    using assms False by (intro split_on_join) auto
  moreover have "join [44] (uniq ms) \<noteq> []"
    using assms False join_eq_Nil [of "[44]" "uniq ms" "hd ms"] by auto
  moreover have "map trim (uniq ms) = uniq ms" "filter (\<lambda>m. m \<noteq> []) (uniq ms) = uniq ms"
    using assms by (auto intro: map_idI)
  ultimately show ?thesis by (simp add: parseModelsString_def formatModelsArray_def)
qed (simp add: parseModelsString_def formatModelsArray_def)

definition missing_keys :: "jstring \<Rightarrow> jstring list \<Rightarrow> jstring set" where
  "missing_keys t models =
     (case mapping_object t of
        None \<Rightarrow> {}
      | Some ps \<Rightarrow> if trim t = [] then {} else {k \<in> (\<lambda>p. trim (fst p)) ` set ps. k \<noteq> [] \<and> k \<notin> set (map trim models)})"

lemma findMissing_set: "set (findMissingModelsInMapping t models) = missing_keys t models"
  by (cases "t = []"; cases "mapping_object t")
    (simp_all add: findMissingModelsInMapping_def missing_keys_def normalizeModelName_def Let_def)

text \<open>
  Completing the model list of a channel: the missing models that are offered are distinct and not
  in the list yet; once they are added nothing is missing, and every source of the mapping is in the
  list. Printing a model list and parsing it again gives the list without its repetitions, so that
  the completed list survives being stored as text.
\<close>

theorem model_list_completion:
  fixes t s :: jstring and models :: "jstring list"
  defines "missing \<equiv> findMissingModelsInMapping (trim t) models"
  shows "distinct missing \<and> set missing \<inter> set (map trim models) = {}
    \<and> findMissingModelsInMapping (trim t) (models @ missing) = []
    \<and> set (extractMappingSourceModels t) \<subseteq> set (map trim (models @ missing))
    \<and> parseModelsString (formatModelsArray (parseModelsString s)) = uniq (parseModelsString s)"
proof (intro conjI)
  show "distinct missing" "set missing \<inter> set (map trim models) = {}"
    by (auto simp: missing_def findMissingModelsInMapping_def normalizeModelName_def Let_def split: option.splits)
  have trimmed: "trim m = m" if "m \<in> set missing" for m
    using that by (auto simp: missing_def findMissingModelsInMapping_def normalizeModelName_def Let_def
        split: option.splits if_splits)
  then have ms: "map trim missing = missing" by (simp add: map_idI)
  show "findMissingModelsInMapping (trim t) (models @ missing) = []"
  proof -
    have "k \<in> set (map trim (models @ missing))" if "k \<in> missing_keys (trim t) models" for k
      using that findMissing_set [of "trim t" models] unfolding map_append ms by (simp add: missing_def)
    moreover have "missing_keys (trim t) (models @ missing) \<subseteq> missing_keys (trim t) models - set (map trim (models @ missing))"
      by (auto simp: missing_keys_def split: option.splits)
    ultimately have "missing_keys (trim t) (models @ missing) = {}" by blast
    then show ?thesis using findMissing_set [of "trim t" "models @ missing"] by simp
  qed
  show "set (extractMappingSourceModels t) \<subseteq> set (map trim (models @ missing))"
    unfolding map_append ms
    by (auto simp: extractMappingSourceModels_def missing_def findMissingModelsInMapping_def normalizeModelName_def Let_def
        split: option.splits)
  show "parseModelsString (formatModelsArray (parseModelsString s)) = uniq (parseModelsString s)"
    using parseModelsString_clean by (intro parse_format_models) blast
qed

end
