(* ===== verification/Billing_Expr.thy ===== *)
theory Billing_Expr
  imports JS_Convert
begin

section \<open>Billing expressions (\<^verbatim>\<open>web/src/features/pricing/lib/billing-expr.ts\<close>)\<close>

text \<open>
  A billing expression is a text: a base price, multiplied by request rules that depend on
  parameters, headers and the time. The editor parses the rules, builds their text and combines it
  with the base. Every regular expression of the source is a function on strings here; where a
  regular expression backtracks, at most one split of the text can match, since a quoted name has
  no quote inside and a number no space. A result is an \<open>attempt\<close>: a value, \<open>null\<close>, or a thrown
  error. How a number is converted to a string (inside arrays only) is an argument.
\<close>

subsection \<open>Variables and constants\<close>

record billing_var =
  bv_key :: jstring
  bv_field :: "jstring option"
  bv_tierField :: "jstring option"
  bv_label :: jstring
  bv_shortLabel :: jstring
  bv_side :: jstring
  bv_isBase :: bool
  bv_isConditionOnly :: bool
  bv_group :: "jstring option"

definition BILLING_VARS :: "billing_var list" where
  "BILLING_VARS =
    [\<lparr>bv_key = lit ''p'', bv_field = Some (lit ''inputPrice''), bv_tierField = Some (lit ''input_unit_cost''),
       bv_label = lit ''Input price'', bv_shortLabel = lit ''Input'', bv_side = lit ''input'',
       bv_isBase = True, bv_isConditionOnly = False, bv_group = None\<rparr>,
     \<lparr>bv_key = lit ''c'', bv_field = Some (lit ''outputPrice''), bv_tierField = Some (lit ''output_unit_cost''),
       bv_label = lit ''Completion price'', bv_shortLabel = lit ''Output'', bv_side = lit ''output'',
       bv_isBase = True, bv_isConditionOnly = False, bv_group = None\<rparr>,
     \<lparr>bv_key = lit ''len'', bv_field = None, bv_tierField = None,
       bv_label = lit ''Input length'', bv_shortLabel = lit ''Length'', bv_side = lit ''condition'',
       bv_isBase = False, bv_isConditionOnly = True, bv_group = None\<rparr>,
     \<lparr>bv_key = lit ''cr'', bv_field = Some (lit ''cacheReadPrice''), bv_tierField = Some (lit ''cache_read_unit_cost''),
       bv_label = lit ''Cache read price'', bv_shortLabel = lit ''Cache Read'', bv_side = lit ''input'',
       bv_isBase = False, bv_isConditionOnly = False, bv_group = Some (lit ''cache'')\<rparr>,
     \<lparr>bv_key = lit ''cc'', bv_field = Some (lit ''cacheCreatePrice''), bv_tierField = Some (lit ''cache_create_unit_cost''),
       bv_label = lit ''Cache create price'', bv_shortLabel = lit ''Cache Write'', bv_side = lit ''input'',
       bv_isBase = False, bv_isConditionOnly = False, bv_group = Some (lit ''cache'')\<rparr>,
     \<lparr>bv_key = lit ''cc1h'', bv_field = Some (lit ''cacheCreate1hPrice''), bv_tierField = Some (lit ''cache_create_1h_unit_cost''),
       bv_label = lit ''Cache create (1h) price'', bv_shortLabel = lit ''Cache Write (1h)'', bv_side = lit ''input'',
       bv_isBase = False, bv_isConditionOnly = False, bv_group = Some (lit ''cache'')\<rparr>,
     \<lparr>bv_key = lit ''img'', bv_field = Some (lit ''imagePrice''), bv_tierField = Some (lit ''image_unit_cost''),
       bv_label = lit ''Image input price'', bv_shortLabel = lit ''Image In'', bv_side = lit ''input'',
       bv_isBase = False, bv_isConditionOnly = False, bv_group = Some (lit ''media'')\<rparr>,
     \<lparr>bv_key = lit ''img_o'', bv_field = Some (lit ''imageOutputPrice''), bv_tierField = Some (lit ''image_output_unit_cost''),
       bv_label = lit ''Image output price'', bv_shortLabel = lit ''Image Out'', bv_side = lit ''output'',
       bv_isBase = False, bv_isConditionOnly = False, bv_group = Some (lit ''media'')\<rparr>,
     \<lparr>bv_key = lit ''ai'', bv_field = Some (lit ''audioInputPrice''), bv_tierField = Some (lit ''audio_input_unit_cost''),
       bv_label = lit ''Audio input price'', bv_shortLabel = lit ''Audio In'', bv_side = lit ''input'',
       bv_isBase = False, bv_isConditionOnly = False, bv_group = Some (lit ''media'')\<rparr>,
     \<lparr>bv_key = lit ''ao'', bv_field = Some (lit ''audioOutputPrice''), bv_tierField = Some (lit ''audio_output_unit_cost''),
       bv_label = lit ''Audio output price'', bv_shortLabel = lit ''Audio Out'', bv_side = lit ''output'',
       bv_isBase = False, bv_isConditionOnly = False, bv_group = Some (lit ''media'')\<rparr>]"

definition BILLING_PRICING_VARS :: "billing_var list" where
  "BILLING_PRICING_VARS = filter (\<lambda>v. \<not> bv_isConditionOnly v) BILLING_VARS"

definition BILLING_VAR_KEY_TO_FIELD :: "(jstring, jstring) jmap" where
  "BILLING_VAR_KEY_TO_FIELD = map (\<lambda>v. (bv_key v, coalesce (bv_field v) [])) BILLING_PRICING_VARS"

definition BILLING_EXTRA_VARS :: "billing_var list" where
  "BILLING_EXTRA_VARS = filter (\<lambda>v. \<not> bv_isBase v \<and> \<not> bv_isConditionOnly v) BILLING_VARS"

text \<open>Pairs of a tier field and the variable of the expression.\<close>

definition BILLING_CACHE_VAR_MAP :: "(jstring \<times> jstring) list" where
  "BILLING_CACHE_VAR_MAP = map (\<lambda>v. (coalesce (bv_tierField v) [], bv_key v)) BILLING_EXTRA_VARS"

definition TIME_FUNCS :: "jstring list" where
  "TIME_FUNCS = [lit ''hour'', lit ''minute'', lit ''weekday'', lit ''month'', lit ''day'']"

definition COMMON_TIMEZONES :: "(jstring \<times> jstring) list" where
  "COMMON_TIMEZONES =
     [(lit ''Asia/Shanghai'', lit ''UTC+8 Shanghai (Asia/Shanghai)''),
      (lit ''UTC'', lit ''UTC''),
      (lit ''America/New_York'', lit ''UTC-5 New York (America/New_York)''),
      (lit ''America/Los_Angeles'', lit ''UTC-8 Los Angeles (America/Los_Angeles)''),
      (lit ''America/Chicago'', lit ''UTC-6 Chicago (America/Chicago)''),
      (lit ''Europe/London'', lit ''UTC+0 London (Europe/London)''),
      (lit ''Europe/Berlin'', lit ''UTC+1 Berlin (Europe/Berlin)''),
      (lit ''Asia/Tokyo'', lit ''UTC+9 Tokyo (Asia/Tokyo)''),
      (lit ''Asia/Singapore'', lit ''UTC+8 Singapore (Asia/Singapore)''),
      (lit ''Asia/Seoul'', lit ''UTC+9 Seoul (Asia/Seoul)''),
      (lit ''Australia/Sydney'', lit ''UTC+10 Sydney (Australia/Sydney)'')]"

datatype request_condition =
    Time_condition (timeFunc: jstring) (timezone: jstring) (t_mode: jstring) (t_value: jstring)
      (rangeStart: jstring) (rangeEnd: jstring)
  | PH_condition (ph_source: jstring) (ph_path: jstring) (ph_mode: jstring) (ph_value: jstring)

record request_rule_group =
  conditions :: "request_condition list"
  multiplier :: jstring

datatype 'a attempt = Match 'a | No_match | Throws

subsection \<open>Numbers and literals\<close>

text \<open>The character class \<^verbatim>\<open>[\d.eE+-]\<close>.\<close>

definition num_char :: "nat \<Rightarrow> bool" where
  "num_char c \<longleftrightarrow> is_digit c \<or> c = 46 \<or> c = 101 \<or> c = 69 \<or> c = 43 \<or> c = 45"

definition is_num_text :: "jstring \<Rightarrow> bool" where
  "is_num_text s \<longleftrightarrow> s \<noteq> [] \<and> list_all num_char s"

definition exponent_ok :: "jstring \<Rightarrow> bool" where
  "exponent_ok s =
     (case s of
        [] \<Rightarrow> True
      | e # r \<Rightarrow> (e = 101 \<or> e = 69)
          \<and> all_digits (case r of c # r' \<Rightarrow> if c = 43 \<or> c = 45 then r' else r | [] \<Rightarrow> r))"

definition NUMERIC_LITERAL_REGEX :: "jstring \<Rightarrow> bool" where
  "NUMERIC_LITERAL_REGEX s =
     (let s1 = (case s of c # r \<Rightarrow> if c = 45 then r else s | [] \<Rightarrow> s);
          ds = takeWhile is_digit s1; r = dropWhile is_digit s1
      in if ds \<noteq> [] then exponent_ok (case r of c # r' \<Rightarrow> if c = 46 then dropWhile is_digit r' else r | [] \<Rightarrow> r)
         else (case r of
                 c # r' \<Rightarrow> c = 46 \<and> takeWhile is_digit r' \<noteq> [] \<and> exponent_ok (dropWhile is_digit r')
               | [] \<Rightarrow> False))"

definition line_terminator :: "nat \<Rightarrow> bool" where
  "line_terminator c \<longleftrightarrow> c = 10 \<or> c = 13 \<or> c = 8232 \<or> c = 8233"

text \<open>The result \<open>Null\<close> is \<open>null\<close>, of a text that is not a literal or denotes \<open>null\<close>.\<close>

definition parseExprLiteral :: "jstring \<Rightarrow> jsval" where
  "parseExprLiteral raw =
     (let t = trim raw in
      if t = lit ''true'' \<or> t = lit ''false'' then JStr t
      else if NUMERIC_LITERAL_REGEX t then JStr t
      else coalesce (json_parse t) Null)"

subsection \<open>Versions and labels\<close>

definition stripExprVersion :: "jstring \<Rightarrow> nat \<times> jstring" where
  "stripExprVersion exprStr =
     (case exprStr of
        [] \<Rightarrow> (1, [])
      | c # r \<Rightarrow>
          if c = 118 \<and> takeWhile is_digit r \<noteq> [] \<and> starts_with (dropWhile is_digit r) [58]
          then (read_nat (takeWhile is_digit r), tl (dropWhile is_digit r))
          else (1, exprStr))"

text \<open>The two replacements of comparison signs: an optional equals sign after it is swallowed.\<close>

fun fold_signs :: "nat list \<Rightarrow> nat list \<Rightarrow> nat \<Rightarrow> jstring \<Rightarrow> jstring" where
  "fold_signs signs single target [] = []"
| "fold_signs signs single target (c # s) =
     (if c \<in> set signs then
        target # (case s of
                    d # s' \<Rightarrow> if d = 61 \<or> d = 65309 then fold_signs signs single target s' else fold_signs signs single target s
                  | [] \<Rightarrow> [])
      else if c \<in> set single then target # fold_signs signs single target s
      else c # fold_signs signs single target s)"

definition normalizeTierLabel :: "(jstring \<Rightarrow> jstring) \<Rightarrow> jstring option \<Rightarrow> jstring" where
  "normalizeTierLabel toLowerCase label =
     (case label of
        None \<Rightarrow> []
      | Some l \<Rightarrow>
          if l = [] then []
          else toLowerCase (filter (\<lambda>c. \<not> is_ws c)
            (fold_signs [62, 65310] [8805] 62 (fold_signs [60, 65308] [8804] 60 l))))"

subsection \<open>Splitting at the top level\<close>

definition paren_step :: "nat \<Rightarrow> int \<Rightarrow> int" where
  "paren_step c depth = (if c = 40 then depth + 1 else if c = 41 then depth - 1 else depth)"

text \<open>The loop of both splitting functions; \<open>cur\<close> is the slice from the start of the current part.\<close>

function split_top :: "jstring \<Rightarrow> int \<Rightarrow> jstring \<Rightarrow> jstring \<Rightarrow> jstring list" where
  "split_top sep depth cur [] = [cur]"
| "split_top sep depth cur (c # s) =
     (let d = paren_step c depth in
      if d = 0 \<and> starts_with (c # s) sep then cur # split_top sep d [] (drop (length sep - 1) s)
      else split_top sep d (cur @ [c]) s)"
  by pat_completeness auto
termination
  by (relation "measure (\<lambda>(sep, d, cur, s). length s)") auto

definition splitTopLevelMultiply :: "jstring \<Rightarrow> jstring list" where
  "splitTopLevelMultiply expr = filter (\<lambda>p. p \<noteq> []) (map trim (split_top (lit '' * '') 0 [] expr))"

definition splitTopLevelAnd :: "jstring \<Rightarrow> jstring list" where
  "splitTopLevelAnd expr = filter (\<lambda>p. p \<noteq> []) (map trim (split_top (lit '' && '') 0 [] expr))"

subsection \<open>Parsing conditions\<close>

definition strip_prefix :: "jstring \<Rightarrow> jstring \<Rightarrow> jstring option" where
  "strip_prefix p s = (if starts_with s p then Some (drop (length p) s) else None)"

text \<open>A call \<^verbatim>\<open>name("arg")\<close> at the start of a text: the name, the argument and the rest.\<close>

definition parse_call :: "jstring list \<Rightarrow> jstring \<Rightarrow> (jstring \<times> jstring \<times> jstring) option" where
  "parse_call names s =
     (case find (\<lambda>f. starts_with s (f @ [40, 34])) names of
        None \<Rightarrow> None
      | Some f \<Rightarrow>
          let r = drop (length f + 2) s; arg = takeWhile (\<lambda>c. c \<noteq> 34) r; r' = dropWhile (\<lambda>c. c \<noteq> 34) r
          in if arg \<noteq> [] \<and> starts_with r' [34, 41] then Some (f, arg, drop 2 r') else None)"

definition call_text :: "jstring \<Rightarrow> jstring \<Rightarrow> jstring" where
  "call_text f arg = f @ [40, 34] @ arg @ [34, 41]"

text \<open>\<^verbatim>\<open>F("TZ") >= N || F("TZ") < M\<close>\<close>

definition match_range :: "jstring \<Rightarrow> request_condition option" where
  "match_range s =
     (case parse_call TIME_FUNCS s of
        None \<Rightarrow> None
      | Some (f, tz, r) \<Rightarrow>
          (case strip_prefix (lit '' >= '') r of
             None \<Rightarrow> None
           | Some r1 \<Rightarrow>
               (case strip_prefix (lit '' || '' @ call_text f tz @ lit '' < '') (dropWhile num_char r1) of
                  None \<Rightarrow> None
                | Some m \<Rightarrow>
                    if takeWhile num_char r1 \<noteq> [] \<and> is_num_text m
                    then Some (Time_condition f tz (lit ''range'') [] (takeWhile num_char r1) m) else None)))"

text \<open>\<^verbatim>\<open>F("TZ") op N\<close> with one of the three operators.\<close>

definition match_time_op :: "jstring \<Rightarrow> request_condition option" where
  "match_time_op s =
     (case parse_call TIME_FUNCS s of
        None \<Rightarrow> None
      | Some (f, tz, r) \<Rightarrow>
          (case find (\<lambda>(p, mode). starts_with r p)
                  [(lit '' == '', lit ''eq''), (lit '' >= '', lit ''gte''), (lit '' < '', lit ''lt'')] of
             None \<Rightarrow> None
           | Some (p, mode) \<Rightarrow>
               if is_num_text (drop (length p) r) then Some (Time_condition f tz mode (drop (length p) r) [] []) else None))"

definition tryParseTimeCondition :: "jstring \<Rightarrow> request_condition option" where
  "tryParseTimeCondition expr =
     (case match_range expr of
        Some c \<Rightarrow> Some c
      | None \<Rightarrow>
          (case (if length expr \<ge> 2 \<and> hd expr = 40 \<and> last expr = 41 then match_range (butlast (tl expr)) else None) of
             Some c \<Rightarrow> Some c
           | None \<Rightarrow> match_time_op expr))"

text \<open>The inside of \<^verbatim>\<open>"(?:[^"\\]|\\.)*"\<close>.\<close>

fun escaped_body :: "jstring \<Rightarrow> bool" where
  "escaped_body [] \<longleftrightarrow> True"
| "escaped_body (c # s) \<longleftrightarrow>
     (if c = 34 then False
      else if c = 92 then (case s of d # s' \<Rightarrow> \<not> line_terminator d \<and> escaped_body s' | [] \<Rightarrow> False)
      else escaped_body s)"

definition is_string_literal :: "jstring \<Rightarrow> bool" where
  "is_string_literal s \<longleftrightarrow> length s \<ge> 2 \<and> hd s = 34 \<and> last s = 34 \<and> escaped_body (butlast (tl s))"

text \<open>\<^verbatim>\<open>has(source("X"), LIT)\<close>: the name and the literal.\<close>

definition match_has :: "jstring \<Rightarrow> jstring \<Rightarrow> (jstring \<times> jstring) option" where
  "match_has source s =
     (case strip_prefix (lit ''has('') s of
        None \<Rightarrow> None
      | Some r \<Rightarrow>
          (case parse_call [source] r of
             None \<Rightarrow> None
           | Some (_, x, r1) \<Rightarrow>
               (case strip_prefix (lit '', '') r1 of
                  None \<Rightarrow> None
                | Some r2 \<Rightarrow>
                    if r2 \<noteq> [] \<and> last r2 = 41 \<and> is_string_literal (butlast r2) then Some (x, butlast r2) else None)))"

definition contains_condition :: "jstring \<Rightarrow> jstring \<times> jstring \<Rightarrow> request_condition attempt" where
  "contains_condition source = (\<lambda>(path, l).
     case json_parse l of
       None \<Rightarrow> Throws
     | Some (JStr v) \<Rightarrow> Match (PH_condition source path (lit ''contains'') v)
     | Some _ \<Rightarrow> Throws)"

text \<open>\<^verbatim>\<open>source("X") tail\<close> with a fixed tail.\<close>

definition match_exact :: "jstring \<Rightarrow> jstring \<Rightarrow> jstring \<Rightarrow> jstring option" where
  "match_exact source tail s =
     (case parse_call [source] s of
        Some (_, x, r) \<Rightarrow> if r = tail then Some x else None
      | None \<Rightarrow> None)"

text \<open>\<^verbatim>\<open>param("X") != nil && \<close> at the start: the name and the rest.\<close>

definition match_guard :: "jstring \<Rightarrow> (jstring \<times> jstring) option" where
  "match_guard s =
     (case parse_call [lit ''param''] s of
        None \<Rightarrow> None
      | Some (_, x, r) \<Rightarrow> map_option (\<lambda>r'. (x, r')) (strip_prefix (lit '' != nil && '') r))"

definition param_has :: "jstring \<Rightarrow> (jstring \<times> jstring) option" where
  "param_has s =
     (case match_guard s of
        None \<Rightarrow> None
      | Some (x, r) \<Rightarrow>
          (case match_has (lit ''param'') r of
             Some (y, l) \<Rightarrow> if x = y then Some (x, l) else None
           | None \<Rightarrow> None))"

definition param_compare :: "jstring \<Rightarrow> request_condition option" where
  "param_compare s =
     (case match_guard s of
        None \<Rightarrow> None
      | Some (x, r) \<Rightarrow>
          (case parse_call [lit ''param''] r of
             None \<Rightarrow> None
           | Some (_, y, r1) \<Rightarrow>
               (case find (\<lambda>(p, mode). starts_with r1 p)
                       [(lit '' > '', lit ''gt''), (lit '' >= '', lit ''gte''), (lit '' < '', lit ''lt''), (lit '' <= '', lit ''lte'')] of
                  None \<Rightarrow> None
                | Some (p, mode) \<Rightarrow>
                    if x = y \<and> is_num_text (drop (length p) r1)
                    then Some (PH_condition (lit ''param'') x mode (drop (length p) r1)) else None)))"

definition equals_condition :: "(jnum \<Rightarrow> jstring) \<Rightarrow> jstring \<Rightarrow> request_condition attempt" where
  "equals_condition ns s =
     (case parse_call [lit ''param'', lit ''header''] s of
        None \<Rightarrow> No_match
      | Some (f, x, r) \<Rightarrow>
          (case strip_prefix (lit '' == '') r of
             None \<Rightarrow> No_match
           | Some v \<Rightarrow>
               if v = [] \<or> list_ex line_terminator v then No_match
               else if parseExprLiteral v = Null then No_match
               else if string_throws (parseExprLiteral v) then Throws
               else Match (PH_condition f x (lit ''eq'') (js_string ns (parseExprLiteral v)))))"

definition tryParseRequestCondition :: "(jnum \<Rightarrow> jstring) \<Rightarrow> jstring \<Rightarrow> request_condition attempt" where
  "tryParseRequestCondition ns expr =
     (case tryParseTimeCondition expr of
        Some tc \<Rightarrow> Match tc
      | None \<Rightarrow>
     (case match_exact (lit ''header'') (lit '' != '' @ [34, 34]) expr of
        Some x \<Rightarrow> Match (PH_condition (lit ''header'') x (lit ''exists'') [])
      | None \<Rightarrow>
     (case match_exact (lit ''param'') (lit '' != nil'') expr of
        Some x \<Rightarrow> Match (PH_condition (lit ''param'') x (lit ''exists'') [])
      | None \<Rightarrow>
     (case match_has (lit ''header'') expr of
        Some m \<Rightarrow> contains_condition (lit ''header'') m
      | None \<Rightarrow>
     (case param_has expr of
        Some m \<Rightarrow> contains_condition (lit ''param'') m
      | None \<Rightarrow>
     (case param_compare expr of
        Some c \<Rightarrow> Match c
      | None \<Rightarrow> equals_condition ns expr))))))"

text \<open>Parsing each element, up to the first that fails or throws.\<close>

fun attempt_all :: "('a \<Rightarrow> 'b attempt) \<Rightarrow> 'a list \<Rightarrow> 'b list attempt" where
  "attempt_all f [] = Match []"
| "attempt_all f (x # xs) =
     (case f x of
        Throws \<Rightarrow> Throws
      | No_match \<Rightarrow> No_match
      | Match y \<Rightarrow> (case attempt_all f xs of Throws \<Rightarrow> Throws | No_match \<Rightarrow> No_match | Match ys \<Rightarrow> Match (y # ys)))"

definition ends_with_text :: "jstring \<Rightarrow> jstring \<Rightarrow> bool" where
  "ends_with_text s p \<longleftrightarrow> length p \<le> length s \<and> drop (length s - length p) s = p"

text \<open>\<^verbatim>\<open>(C ? N : 1)\<close>: the condition and the multiplier.\<close>

definition match_factor :: "jstring \<Rightarrow> (jstring \<times> jstring) option" where
  "match_factor part =
     (if starts_with part [40] \<and> ends_with_text part (lit '' : 1)'') \<and> length part \<ge> 6 then
        let mid = take (length part - 6) (drop 1 part);
            n = rev (takeWhile num_char (rev mid));
            r = take (length mid - length n) mid
        in if n \<noteq> [] \<and> ends_with_text r (lit '' ? '') \<and> length r > 3 then Some (take (length r - 3) r, n) else None
      else None)"

definition tryParseRuleGroupFactor :: "(jnum \<Rightarrow> jstring) \<Rightarrow> jstring \<Rightarrow> request_rule_group attempt" where
  "tryParseRuleGroupFactor ns part =
     (case match_factor part of
        None \<Rightarrow> No_match
      | Some (conditionStr, factor) \<Rightarrow>
          (case attempt_all (\<lambda>ap. tryParseRequestCondition ns (trim ap)) (splitTopLevelAnd conditionStr) of
             Throws \<Rightarrow> Throws
           | No_match \<Rightarrow> No_match
           | Match cs \<Rightarrow> if cs = [] then No_match else Match \<lparr>conditions = cs, multiplier = factor\<rparr>))"

definition tryParseRequestRuleExpr :: "(jnum \<Rightarrow> jstring) \<Rightarrow> jstring \<Rightarrow> request_rule_group list attempt" where
  "tryParseRequestRuleExpr ns expr =
     (let trimmed = trim expr in
      if trimmed = [] then Match []
      else attempt_all (tryParseRuleGroupFactor ns) (splitTopLevelMultiply trimmed))"

subsection \<open>Combining and splitting\<close>

fun outer_scan :: "int \<Rightarrow> jstring \<Rightarrow> bool" where
  "outer_scan depth [] \<longleftrightarrow> depth = 0"
| "outer_scan depth (c # s) \<longleftrightarrow>
     (let d = paren_step c depth in if d = 0 \<and> s \<noteq> [] then False else outer_scan d s)"

definition hasFullOuterParens :: "jstring \<Rightarrow> bool" where
  "hasFullOuterParens expr \<longleftrightarrow> starts_with expr [40] \<and> expr \<noteq> [] \<and> last expr = 41 \<and> outer_scan 0 expr"

lemma length_trim_le: "length (trim s) \<le> length s"
  using length_dropWhile_le [of is_ws "rev (dropWhile is_ws s)"] length_dropWhile_le [of is_ws s]
  by (simp add: trim_def trim_end_def trim_start_def)

function unwrap_loop :: "jstring \<Rightarrow> jstring" where
  "unwrap_loop current =
     (if hasFullOuterParens current then unwrap_loop (trim (butlast (tl current))) else current)"
  by pat_completeness auto
termination
proof (relation "measure length")
  fix current :: jstring
  assume "hasFullOuterParens current"
  then have "current \<noteq> []" by (simp add: hasFullOuterParens_def)
  then show "(trim (butlast (tl current)), current) \<in> measure length"
    using length_trim_le [of "butlast (tl current)"] by (cases current) auto
qed simp

declare unwrap_loop.simps [simp del]

definition unwrapOuterParens :: "jstring \<Rightarrow> jstring" where
  "unwrapOuterParens expr = unwrap_loop (trim expr)"

record split_expr =
  billingExpr :: jstring
  requestRuleExpr :: jstring

text \<open>The rule parts and the base parts, in order.\<close>

fun classify_parts :: "(jnum \<Rightarrow> jstring) \<Rightarrow> jstring list \<Rightarrow> (jstring list \<times> jstring list) attempt" where
  "classify_parts ns [] = Match ([], [])"
| "classify_parts ns (part # parts) =
     (case tryParseRequestRuleExpr ns part of
        Throws \<Rightarrow> Throws
      | parsed \<Rightarrow>
          (case classify_parts ns parts of
             Match (rs, bs) \<Rightarrow>
               (case parsed of
                  Match (g # gs) \<Rightarrow> Match (part # rs, bs)
                | _ \<Rightarrow> Match (rs, part # bs))
           | _ \<Rightarrow> Throws))"

definition splitBillingExprAndRequestRules :: "(jnum \<Rightarrow> jstring) \<Rightarrow> jstring \<Rightarrow> split_expr attempt" where
  "splitBillingExprAndRequestRules ns expr =
     (let trimmed = trim expr; parts = splitTopLevelMultiply trimmed in
      if trimmed = [] then Match \<lparr>billingExpr = [], requestRuleExpr = []\<rparr>
      else if length parts \<le> 1 then Match \<lparr>billingExpr = trimmed, requestRuleExpr = []\<rparr>
      else (case classify_parts ns parts of
          Match (ruleParts, baseParts) \<Rightarrow>
            if ruleParts = [] \<or> length baseParts \<noteq> 1 then Match \<lparr>billingExpr = trimmed, requestRuleExpr = []\<rparr>
            else Match \<lparr>billingExpr = unwrapOuterParens (hd baseParts), requestRuleExpr = join (lit '' * '') ruleParts\<rparr>
        | _ \<Rightarrow> Throws))"

definition combineBillingExpr :: "jstring \<Rightarrow> jstring \<Rightarrow> jstring" where
  "combineBillingExpr baseExpr rulesExpr =
     (let base = trim baseExpr; rules = trim rulesExpr in
      if base = [] then [] else if rules = [] then base
      else lit ''('' @ base @ lit '') * '' @ rules)"

subsection \<open>Building\<close>

definition createEmptyCondition :: request_condition where
  "createEmptyCondition = PH_condition (lit ''param'') [] (lit ''eq'') []"

definition createEmptyTimeCondition :: request_condition where
  "createEmptyTimeCondition = Time_condition (lit ''hour'') (lit ''Asia/Shanghai'') (lit ''gte'') [] [] []"

definition createEmptyRuleGroup :: request_rule_group where
  "createEmptyRuleGroup = \<lparr>conditions = [createEmptyCondition], multiplier = []\<rparr>"

text \<open>Modes with their labels.\<close>

definition getRequestRuleMatchOptions :: "jstring \<Rightarrow> (jstring \<times> jstring) list" where
  "getRequestRuleMatchOptions source =
     (if source = lit ''time'' then
        [(lit ''eq'', lit ''Equals''), (lit ''gte'', lit ''Greater than or equal''), (lit ''lt'', lit ''Less than''),
         (lit ''range'', lit ''Overnight range'')]
      else
        let base = [(lit ''eq'', lit ''Equals''), (lit ''contains'', lit ''Contains''), (lit ''exists'', lit ''Exists'')]
        in if source = lit ''header'' then base
           else base @ [(lit ''gt'', lit ''Greater than''), (lit ''gte'', lit ''Greater than or equal''),
                        (lit ''lt'', lit ''Less than''), (lit ''lte'', lit ''Less than or equal'')])"

definition isTimeFunc :: "jstring \<Rightarrow> bool" where
  "isTimeFunc v \<longleftrightarrow> v \<in> set TIME_FUNCS"

text \<open>On conditions whose properties are all present.\<close>

definition normalizeCondition :: "request_condition \<Rightarrow> request_condition" where
  "normalizeCondition cond =
     (case cond of
        Time_condition f tz mode v rs re \<Rightarrow>
          Time_condition (if isTimeFunc f then f else lit ''hour'') (or_str tz (lit ''Asia/Shanghai''))
            (if mode \<in> fst ` set (getRequestRuleMatchOptions (lit ''time'')) then mode else lit ''gte'') v rs re
      | PH_condition src path mode v \<Rightarrow>
          let source = (if src = lit ''header'' then lit ''header'' else lit ''param'')
          in PH_condition source path
               (if mode \<in> fst ` set (getRequestRuleMatchOptions source) then mode else lit ''eq'') v)"

definition buildExprLiteral :: "jstring \<Rightarrow> jstring \<Rightarrow> jstring" where
  "buildExprLiteral mode value =
     (let t = trim value in
      if mode = lit ''contains'' then json_quote t
      else if t = lit ''true'' \<or> t = lit ''false'' then t
      else if NUMERIC_LITERAL_REGEX t then t
      else json_quote t)"

definition buildTimeConditionExpr :: "request_condition \<Rightarrow> jstring" where
  "buildTimeConditionExpr cond =
     (case normalizeCondition cond of
        Time_condition f tz mode value rs re \<Rightarrow>
          let fn = f @ lit ''('' @ json_quote tz @ lit '')'' in
          if mode = lit ''range'' then
            let s = trim rs; e = trim re in
            if \<not> NUMERIC_LITERAL_REGEX s \<or> \<not> NUMERIC_LITERAL_REGEX e then []
            else fn @ lit '' >= '' @ s @ lit '' || '' @ fn @ lit '' < '' @ e
          else
            let v = trim value in
            if \<not> NUMERIC_LITERAL_REGEX v then []
            else fn @ lit '' '' @ opt_or_str (map_of [(lit ''eq'', lit ''==''), (lit ''gte'', lit ''>=''), (lit ''lt'', lit ''<'')] mode)
                   (lit ''=='') @ lit '' '' @ v
      | _ \<Rightarrow> [])"

definition buildRequestConditionExpr :: "request_condition \<Rightarrow> jstring" where
  "buildRequestConditionExpr cond =
     (case normalizeCondition cond of
        Time_condition _ _ _ _ _ _ \<Rightarrow> buildTimeConditionExpr cond
      | PH_condition source p mode value \<Rightarrow>
          let path = trim p in
          if path = [] then []
          else let sourceExpr = source @ lit ''('' @ json_quote path @ lit '')'' in
            if mode = lit ''exists''
            then sourceExpr @ (if source = lit ''header'' then lit '' != '' @ [34, 34] else lit '' != nil'')
            else if mode = lit ''contains'' then
              (if source = lit ''header'' then lit ''has('' @ sourceExpr @ lit '', '' @ buildExprLiteral mode value @ lit '')''
               else sourceExpr @ lit '' != nil && has('' @ sourceExpr @ lit '', '' @ buildExprLiteral mode value @ lit '')'')
            else (case map_of [(lit ''gt'', lit ''>''), (lit ''gte'', lit ''>=''), (lit ''lt'', lit ''<''), (lit ''lte'', lit ''<='')] mode of
                Some op \<Rightarrow>
                  let numText = trim value in
                  if \<not> NUMERIC_LITERAL_REGEX numText then []
                  else sourceExpr @ lit '' != nil && '' @ sourceExpr @ lit '' '' @ op @ lit '' '' @ numText
              | None \<Rightarrow> sourceExpr @ lit '' == '' @ buildExprLiteral mode value))"

definition buildRuleGroupFactor :: "request_rule_group \<Rightarrow> jstring" where
  "buildRuleGroupFactor grp =
     (let factor = trim (multiplier grp);
          condExprs = filter (\<lambda>e. e \<noteq> []) (map buildRequestConditionExpr (conditions grp))
      in if \<not> NUMERIC_LITERAL_REGEX factor then []
         else if condExprs = [] then []
         else let combined =
                (if length condExprs = 1 then hd condExprs
                 else join (lit '' && '') (map (\<lambda>e. if str_includes e (lit '' || '') then lit ''('' @ e @ lit '')'' else e) condExprs))
              in lit ''('' @ combined @ lit '' ? '' @ factor @ lit '' : 1)'')"

definition buildRequestRuleExpr :: "request_rule_group list \<Rightarrow> jstring" where
  "buildRequestRuleExpr groups = join (lit '' * '') (filter (\<lambda>f. f \<noteq> []) (map buildRuleGroupFactor groups))"

end
