(* ===== verification/Billing_Roundtrip.thy ===== *)
theory Billing_Roundtrip
  imports Billing_Expr
begin

section \<open>Billing expressions survive the editor\<close>

text \<open>
  Which rules the editor of \<^verbatim>\<open>web/src/features/pricing/lib/billing-expr.ts\<close> reads back from its own
  text. The first part follows the nesting of parentheses through the two splitting functions; the
  second reads back numbers, quoted texts, calls and conditions; the third puts groups, rules and
  the base price together. The last part is about the conditions that are not read back.
\<close>

subsection \<open>Nesting\<close>

text \<open>Every character of the text leaves the nesting positive; a balanced text returns to where it began.\<close>

fun above :: "int \<Rightarrow> jstring \<Rightarrow> bool" where
  "above d [] \<longleftrightarrow> True"
| "above d (c # s) \<longleftrightarrow> paren_step c d > 0 \<and> above (paren_step c d) s"

definition bal :: "jstring \<Rightarrow> bool" where
  "bal s \<longleftrightarrow> above 1 s \<and> fold paren_step s 1 = 1"

lemma paren_step_shift: "paren_step c (d + k) = paren_step c d + k"
  by (simp add: paren_step_def)

lemma fold_paren_shift: "fold paren_step s (d + k) = fold paren_step s d + k"
  by (induction s arbitrary: d) (simp_all add: paren_step_shift)

lemma above_mono: "above d s \<Longrightarrow> d \<le> e \<Longrightarrow> above e s"
proof (induction s arbitrary: d e)
  case (Cons c s)
  have "paren_step c d \<le> paren_step c e" using Cons.prems(2) by (simp add: paren_step_def)
  moreover from this have "above (paren_step c e) s" using Cons.prems(1) Cons.IH by auto
  ultimately show ?case using Cons.prems(1) by simp
qed simp

lemma above_append: "above d (s @ t) \<longleftrightarrow> above d s \<and> above (fold paren_step s d) t"
  by (induction s arbitrary: d) auto

lemma bal_fold: "bal s \<Longrightarrow> fold paren_step s d = d"
  using fold_paren_shift [of s 1 "d - 1"] by (simp add: bal_def)

lemma bal_above: "bal s \<Longrightarrow> 0 < d \<Longrightarrow> above d s"
  using above_mono [of 1 s d] by (simp add: bal_def)

lemma bal_append: "bal s \<Longrightarrow> bal t \<Longrightarrow> bal (s @ t)"
  by (simp add: bal_def above_append)

lemma bal_Nil: "bal []"
  by (simp add: bal_def)

lemma bal_Cons: "c \<noteq> 40 \<Longrightarrow> c \<noteq> 41 \<Longrightarrow> bal (c # s) \<longleftrightarrow> bal s"
  by (simp add: bal_def paren_step_def)

lemma bal_wrap: "bal s \<Longrightarrow> bal t \<Longrightarrow> bal (40 # s @ 41 # t)"
  using bal_above [of s 2] bal_fold [of s 2] by (simp add: bal_def above_append paren_step_def)

lemma bal_plain: "40 \<notin> set s \<Longrightarrow> 41 \<notin> set s \<Longrightarrow> bal s"
  by (induction s) (auto simp: bal_Nil bal_Cons)

subsection \<open>Splitting what was joined\<close>

declare split_top.simps(2) [simp del]

lemma split_top_above:
  "above d s \<Longrightarrow> split_top sep d cur (s @ r) = split_top sep (fold paren_step s d) (cur @ s) r"
  by (induction s arbitrary: d cur) (simp_all add: split_top.simps Let_def)

lemma split_top_wrapped:
  assumes "bal x"
  shows "split_top (32 # sep) 0 cur (40 # x @ 41 # r) = split_top (32 # sep) 0 (cur @ 40 # x @ [41]) r"
  using bal_above [OF assms, of 1] bal_fold [OF assms, of 1]
  by (simp add: split_top.simps(2) Let_def paren_step_def split_top_above starts_with_def)

lemma split_top_quiet:
  "m \<notin> set s \<Longrightarrow> r = [] \<or> hd r \<noteq> m
    \<Longrightarrow> split_top (32 # m # t) d cur (s @ r) = split_top (32 # m # t) (fold paren_step s d) (cur @ s) r"
proof (induction s arbitrary: d cur)
  case (Cons c s)
  have "\<not> starts_with (c # s @ r) (32 # m # t)"
    using Cons.prems by (cases s; cases r) (auto simp: starts_with_def)
  then show ?case using Cons by (simp add: split_top.simps(2) Let_def)
qed simp

lemma split_top_sep:
  "split_top (32 # sep) 0 cur (32 # sep @ r) = cur # split_top (32 # sep) 0 [] r"
  by (simp add: split_top.simps(2) Let_def paren_step_def starts_with_def)

definition wrapped :: "jstring \<Rightarrow> bool" where
  "wrapped p \<longleftrightarrow> (\<exists>x. p = 40 # x @ [41] \<and> bal x)"

lemma split_top_join_wrapped:
  "ps \<noteq> [] \<Longrightarrow> \<forall>p \<in> set ps. wrapped p \<Longrightarrow> split_top (32 # sep) 0 [] (join (32 # sep) ps) = ps"
proof (induction ps rule: induct_list012)
  case (2 p)
  then obtain x where "p = 40 # x @ [41]" "bal x" by (auto simp: wrapped_def)
  then show ?case using split_top_wrapped [of x sep "[]" "[]"] by simp
next
  case (3 p q ps)
  then obtain x where "p = 40 # x @ [41]" "bal x" by (auto simp: wrapped_def)
  then show ?case using 3 split_top_wrapped [of x sep "[]"] by (simp add: split_top_sep)
qed simp

lemma split_top_join_quiet:
  "ps \<noteq> [] \<Longrightarrow> m \<noteq> 32 \<Longrightarrow> \<forall>p \<in> set ps. m \<notin> set p \<and> bal p
    \<Longrightarrow> split_top (32 # m # t) 0 [] (join (32 # m # t) ps) = ps"
proof (induction ps rule: induct_list012)
  case (2 p)
  then show ?case using split_top_quiet [of m p "[]" t 0 "[]"] by simp
next
  case (3 p q ps)
  then show ?case
    using split_top_quiet [of m p "32 # m # t @ join (32 # m # t) (q # ps)" t 0 "[]"]
      split_top_sep [of "m # t" p "join (32 # m # t) (q # ps)"] by (simp add: bal_fold)
qed simp

subsection \<open>Numbers and plain texts\<close>

lemma digit_num_char: "is_digit c \<Longrightarrow> num_char c"
  by (simp add: num_char_def)

lemma exponent_num_chars: "exponent_ok s \<Longrightarrow> list_all num_char s"
  by (cases s; cases "tl s")
    (auto simp: exponent_ok_def all_digits_def num_char_def list_all_iff split: if_splits)

lemma split_digits: "(\<forall>c \<in> set (dropWhile is_digit s). num_char c) \<Longrightarrow> \<forall>c \<in> set s. num_char c"
  using takeWhile_dropWhile_id [of is_digit s] set_takeWhileD [of _ is_digit s] digit_num_char
  by (metis Un_iff set_append)

lemma unsigned_num_text:
  assumes "let ds = takeWhile is_digit s; r = dropWhile is_digit s
    in if ds \<noteq> [] then exponent_ok (case r of c # r' \<Rightarrow> if c = 46 then dropWhile is_digit r' else r | [] \<Rightarrow> r)
       else (case r of
               c # r' \<Rightarrow> c = 46 \<and> takeWhile is_digit r' \<noteq> [] \<and> exponent_ok (dropWhile is_digit r')
             | [] \<Rightarrow> False)"
  shows "is_num_text s"
proof -
  define r where "r = dropWhile is_digit s"
  have ne: "s \<noteq> []" using assms by auto
  have "\<forall>c \<in> set r. num_char c"
  proof (cases r)
    case (Cons c r')
    show ?thesis
    proof (cases "c = 46")
      case True
      then have "list_all num_char (dropWhile is_digit r')"
        using assms Cons by (auto simp: r_def [symmetric] Let_def intro: exponent_num_chars split: if_splits)
      then show ?thesis using split_digits [of r'] True Cons by (auto simp: list_all_iff num_char_def)
    next
      case False
      then have "exponent_ok r" using assms Cons by (auto simp: r_def [symmetric] Let_def split: if_splits)
      then show ?thesis using exponent_num_chars by (auto simp: list_all_iff)
    qed
  qed simp
  then show ?thesis using split_digits [of s] ne by (auto simp: r_def is_num_text_def list_all_iff)
qed

lemma numeric_num_text:
  assumes "NUMERIC_LITERAL_REGEX s"
  shows "is_num_text s"
proof (cases "s \<noteq> [] \<and> hd s = 45")
  case True
  then obtain r where s: "s = 45 # r" by (cases s) auto
  have "is_num_text r"
    by (rule unsigned_num_text) (use assms s in \<open>simp add: NUMERIC_LITERAL_REGEX_def\<close>)
  then show ?thesis using s by (simp add: is_num_text_def num_char_def)
next
  case False
  then have "(case s of c # r \<Rightarrow> if c = 45 then r else s | [] \<Rightarrow> s) = s" by (cases s) auto
  then show ?thesis
    using assms unsigned_num_text [of s] by (simp only: NUMERIC_LITERAL_REGEX_def Let_def)
qed

lemma num_char_facts: "num_char c \<Longrightarrow> \<not> is_ws c \<and> c \<noteq> 40 \<and> c \<noteq> 41 \<and> c \<noteq> 38 \<and> c \<noteq> 124 \<and> c \<noteq> 34 \<and> \<not> line_terminator c"
  by (auto simp: num_char_def is_ws_def is_digit_def line_terminator_def)

lemma num_text_facts:
  assumes "is_num_text s"
  shows "trim s = s" and "bal s" and "38 \<notin> set s" and "124 \<notin> set s" and "s \<noteq> []" and "\<not> list_ex line_terminator s"
    and "takeWhile num_char s = s" and "dropWhile num_char s = []" and "\<not> is_ws (last s)"
    and "takeWhile num_char (s @ 32 # r) = s" and "dropWhile num_char (s @ 32 # r) = 32 # r"
proof -
  have c: "c \<in> set s \<Longrightarrow> num_char c" for c using assms by (auto simp: is_num_text_def list_all_iff)
  note f = c [THEN num_char_facts]
  show "trim s = s" using f by (intro trim_no_ws) auto
  show "bal s" using f by (intro bal_plain) auto
  show "38 \<notin> set s" "124 \<notin> set s" "\<not> list_ex line_terminator s" using f by (auto simp: list_ex_iff)
  show ne: "s \<noteq> []" using assms by (simp add: is_num_text_def)
  show "takeWhile num_char s = s" "dropWhile num_char s = []" using c by auto
  show "\<not> is_ws (last s)" using f ne by auto
  have n: "\<not> num_char 32" by (simp add: num_char_def is_digit_def)
  show "takeWhile num_char (s @ 32 # r) = s" "dropWhile num_char (s @ 32 # r) = 32 # r"
    using c n by (simp_all add: takeWhile_append dropWhile_append)
qed

text \<open>Characters that stand for themselves in a literal and mean nothing to the splitting functions.\<close>

definition plain_char :: "nat \<Rightarrow> bool" where
  "plain_char c \<longleftrightarrow> 32 \<le> c \<and> \<not> (55296 \<le> c \<and> c \<le> 57343)
     \<and> c \<noteq> 34 \<and> c \<noteq> 92 \<and> c \<noteq> 40 \<and> c \<noteq> 41 \<and> c \<noteq> 38 \<and> c \<noteq> 124 \<and> c \<noteq> 8232 \<and> c \<noteq> 8233"

definition plain :: "jstring \<Rightarrow> bool" where
  "plain s \<longleftrightarrow> list_all plain_char s"

lemma plain_quote: "plain s \<Longrightarrow> json_quote s = 34 # s @ [34]"
proof -
  have "plain s \<Longrightarrow> quote_units s = s"
    by (induction s) (auto simp: plain_def plain_char_def short_escape_def)
  then show "plain s \<Longrightarrow> json_quote s = 34 # s @ [34]" by (simp add: json_quote_def)
qed

lemma plain_escaped_body: "plain s \<Longrightarrow> escaped_body s"
  by (induction s) (auto simp: plain_def plain_char_def)

lemma plain_facts:
  assumes "plain s"
  shows "bal s" and "38 \<notin> set s" and "124 \<notin> set s" and "34 \<notin> set s" and "\<not> list_ex line_terminator s"
proof -
  have c: "c \<in> set s \<Longrightarrow> plain_char c" for c using assms by (auto simp: plain_def list_all_iff)
  have n: "\<not> plain_char 34" "\<not> plain_char 38" "\<not> plain_char 40" "\<not> plain_char 41" "\<not> plain_char 124"
    by (simp_all add: plain_char_def)
  show "bal s" using c n by (intro bal_plain) blast+
  show "38 \<notin> set s" "124 \<notin> set s" "34 \<notin> set s" using c n by blast+
  have "plain_char c \<Longrightarrow> \<not> line_terminator c" for c by (auto simp: plain_char_def line_terminator_def)
  then show "\<not> list_ex line_terminator s" using c by (auto simp: list_ex_iff)
qed

lemma json_parse_quote: "json_parse (json_quote s) = Some (JStr s)"
  using json_parse_stringify [of "[]" "\<lambda>_. []" "JStr s"] by (simp add: json_stringify_def)

text \<open>The literal of an equality.\<close>

definition eq_text :: "jstring \<Rightarrow> jstring" where
  "eq_text v = buildExprLiteral (lit ''eq'') v"

lemma eq_text_cases:
  assumes "plain v" and "trim v = v"
  obtains "eq_text v = v" "v = lit ''true'' \<or> v = lit ''false'' \<or> NUMERIC_LITERAL_REGEX v"
  | "eq_text v = 34 # v @ [34]"
proof (cases "v = lit ''true'' \<or> v = lit ''false'' \<or> NUMERIC_LITERAL_REGEX v")
  case True
  then have "eq_text v = v" using assms(2) by (auto simp: eq_text_def buildExprLiteral_def)
  then show ?thesis using that(1) True by blast
next
  case False
  then have "eq_text v = 34 # v @ [34]"
    using assms by (simp add: eq_text_def buildExprLiteral_def plain_quote)
  then show ?thesis by (rule that(2))
qed

lemma eq_text_facts:
  assumes "plain v" and "trim v = v"
  shows "bal (eq_text v)" and "38 \<notin> set (eq_text v)" and "124 \<notin> set (eq_text v)" and "eq_text v \<noteq> []"
    and "\<not> list_ex line_terminator (eq_text v)" and "\<not> is_ws (last (eq_text v))"
    and "parseExprLiteral (eq_text v) = JStr v"
proof -
  note p = plain_facts [OF assms(1)]
  have ws: "\<not> is_ws 34" by (simp add: is_ws_def)
  have "bal (eq_text v) \<and> 38 \<notin> set (eq_text v) \<and> 124 \<notin> set (eq_text v) \<and> eq_text v \<noteq> []
    \<and> \<not> list_ex line_terminator (eq_text v) \<and> \<not> is_ws (last (eq_text v)) \<and> parseExprLiteral (eq_text v) = JStr v"
    using assms
  proof (cases rule: eq_text_cases)
    case 1
    then have "v \<noteq> []" by (auto simp: NUMERIC_LITERAL_REGEX_def lit_def)
    then have "\<not> is_ws (last v)" using trim_last [of v] assms(2) by simp
    moreover have "parseExprLiteral v = JStr v" using 1(2) assms(2) by (auto simp: parseExprLiteral_def)
    ultimately show ?thesis using 1(1) p \<open>v \<noteq> []\<close> by simp
  next
    case 2
    have t: "trim (34 # v @ [34]) = 34 # v @ [34]" using ws by (intro trim_id) auto
    have n: "\<not> NUMERIC_LITERAL_REGEX (34 # v @ [34])" by (simp add: NUMERIC_LITERAL_REGEX_def is_digit_def)
    have "parseExprLiteral (34 # v @ [34]) = JStr v"
      using json_parse_quote [of v] plain_quote [OF assms(1)] t n
      by (simp add: parseExprLiteral_def Let_def coalesce_def lit_def)
    moreover have "bal (34 # v @ [34])"
      using bal_append [OF p(1), of "[34]"] by (simp add: bal_Cons bal_Nil)
    ultimately show ?thesis using 2 p ws by (simp add: line_terminator_def)
  qed
  then show "bal (eq_text v)" "38 \<notin> set (eq_text v)" "124 \<notin> set (eq_text v)" "eq_text v \<noteq> []"
    "\<not> list_ex line_terminator (eq_text v)" "\<not> is_ws (last (eq_text v))" "parseExprLiteral (eq_text v) = JStr v"
    by blast+
qed

subsection \<open>Calls\<close>

lemma parse_call_hit:
  assumes "find (\<lambda>g. starts_with (call_text f x @ r) (g @ [40, 34])) names = Some f" and "34 \<notin> set x" and "x \<noteq> []"
  shows "parse_call names (call_text f x @ r) = Some (f, x, r)"
proof -
  have "c \<in> set x \<Longrightarrow> c \<noteq> 34" for c using assms(2) by auto
  then have "takeWhile (\<lambda>c. c \<noteq> 34) (x @ 34 # 41 # r) = x" and "dropWhile (\<lambda>c. c \<noteq> 34) (x @ 34 # 41 # r) = 34 # 41 # r"
    by simp_all
  then show ?thesis using assms(1,3) by (simp add: parse_call_def call_text_def starts_with_def)
qed

lemma parse_call_miss: "find (\<lambda>g. starts_with s (g @ [40, 34])) names = None \<Longrightarrow> parse_call names s = None"
  by (simp add: parse_call_def)

lemma parse_call_time:
  assumes "f \<in> set TIME_FUNCS" and "34 \<notin> set x" and "x \<noteq> []"
  shows "parse_call TIME_FUNCS (call_text f x @ r) = Some (f, x, r)"
proof (rule parse_call_hit [OF _ assms(2,3)])
  consider "f = lit ''hour''" | "f = lit ''minute''" | "f = lit ''weekday''" | "f = lit ''month''" | "f = lit ''day''"
    using assms(1) by (auto simp: TIME_FUNCS_def)
  then show "find (\<lambda>g. starts_with (call_text f x @ r) (g @ [40, 34])) TIME_FUNCS = Some f"
    by cases (simp_all add: TIME_FUNCS_def call_text_def starts_with_def lit_def)
qed

lemma parse_call_one: "34 \<notin> set x \<Longrightarrow> x \<noteq> [] \<Longrightarrow> parse_call [f] (call_text f x @ r) = Some (f, x, r)"
  by (rule parse_call_hit) (simp_all add: call_text_def starts_with_def)

lemma parse_call_source:
  assumes "f = lit ''param'' \<or> f = lit ''header''" and "34 \<notin> set x" and "x \<noteq> []"
  shows "parse_call [lit ''param'', lit ''header''] (call_text f x @ r) = Some (f, x, r)"
  by (rule parse_call_hit [OF _ assms(2,3)])
    (use assms(1) in \<open>auto simp: call_text_def starts_with_def lit_def\<close>)

lemma parse_call_not_time: "hd s \<noteq> 104 \<or> (length s \<ge> 2 \<and> s ! 1 \<noteq> 111) \<Longrightarrow> hd s \<notin> {109, 119, 100} \<Longrightarrow> s \<noteq> [] \<Longrightarrow> parse_call TIME_FUNCS s = None"
  by (rule parse_call_miss) (cases s; cases "tl s"; auto simp: TIME_FUNCS_def starts_with_def lit_def)

lemma parse_call_other:
  "parse_call [lit ''header''] (call_text (lit ''param'') x @ r) = None"
  "parse_call [lit ''param''] (call_text (lit ''header'') x @ r) = None"
  "parse_call [lit ''header''] (lit ''has('' @ r) = None"
  "parse_call [lit ''param''] (lit ''has('' @ r) = None"
  "parse_call [lit ''param'', lit ''header''] (lit ''has('' @ r) = None"
  by (rule parse_call_miss; simp add: call_text_def starts_with_def lit_def)+

lemma not_time:
  "src = lit ''param'' \<or> src = lit ''header'' \<Longrightarrow> tryParseTimeCondition (call_text src x @ r) = None"
  "tryParseTimeCondition (lit ''has('' @ r) = None"
proof -
  show "tryParseTimeCondition (call_text src x @ r) = None" if "src = lit ''param'' \<or> src = lit ''header''"
  proof -
    have "parse_call TIME_FUNCS (call_text src x @ r) = None"
      by (rule parse_call_not_time) (use that in \<open>auto simp: call_text_def lit_def\<close>)
    moreover have "hd (call_text src x @ r) \<noteq> 40" using that by (auto simp: call_text_def lit_def)
    ultimately show ?thesis by (simp add: tryParseTimeCondition_def match_range_def match_time_op_def)
  qed
  have "parse_call TIME_FUNCS (lit ''has('' @ r) = None"
    by (rule parse_call_not_time) (auto simp: lit_def)
  then show "tryParseTimeCondition (lit ''has('' @ r) = None"
    by (simp add: tryParseTimeCondition_def match_range_def match_time_op_def lit_def)
qed

lemma strip_prefix_append [simp]: "strip_prefix p (p @ s) = Some s"
  by (simp add: strip_prefix_def)

subsection \<open>Parsing what was built\<close>

lemma parse_range:
  assumes "f \<in> set TIME_FUNCS" and "34 \<notin> set tz" and "tz \<noteq> []" and "is_num_text a" and "is_num_text b"
  shows "match_range (call_text f tz @ lit '' >= '' @ a @ lit '' || '' @ call_text f tz @ lit '' < '' @ b)
    = Some (Time_condition f tz (lit ''range'') [] a b)"
proof -
  let ?r = "lit '' || '' @ call_text f tz @ lit '' < '' @ b"
  obtain t where t: "?r = 32 # t" by (simp add: lit_def)
  have "takeWhile num_char (a @ ?r) = a" "dropWhile num_char (a @ ?r) = ?r"
    unfolding t using num_text_facts(10,11) [OF assms(4)] by blast+
  moreover have "strip_prefix (lit '' || '' @ call_text f tz @ lit '' < '') ?r = Some b"
    using strip_prefix_append [of "lit '' || '' @ call_text f tz @ lit '' < ''" b] by simp
  ultimately show ?thesis
    using parse_call_time [OF assms(1-3)] num_text_facts(5) [OF assms(4)] assms(5) by (simp add: match_range_def)
qed

lemma parse_time_op:
  assumes "f \<in> set TIME_FUNCS" and "34 \<notin> set tz" and "tz \<noteq> []" and "is_num_text v"
    and "(p, mode) \<in> set [(lit '' == '', lit ''eq''), (lit '' >= '', lit ''gte''), (lit '' < '', lit ''lt'')]"
  shows "tryParseTimeCondition (call_text f tz @ p @ v) = Some (Time_condition f tz mode v [] [])"
proof -
  let ?s = "call_text f tz @ p @ v"
  note c = parse_call_time [OF assms(1-3)]
  have "strip_prefix (lit '' >= '') (p @ v) \<in> {None, Some v}"
    using assms(5) by (auto simp: strip_prefix_def starts_with_def lit_def)
  then consider "strip_prefix (lit '' >= '') (p @ v) = None" | "strip_prefix (lit '' >= '') (p @ v) = Some v" by auto
  then have "match_range ?s = None"
  proof cases
    case 2
    have "strip_prefix (lit '' || '' @ t) [] = None" for t by (simp add: strip_prefix_def starts_with_def lit_def)
    then show ?thesis by (simp add: match_range_def c 2 num_text_facts(8) [OF assms(4)])
  qed (simp add: match_range_def c)
  moreover have "hd ?s \<noteq> 40" using assms(1) by (auto simp: TIME_FUNCS_def call_text_def lit_def)
  moreover have "match_time_op ?s = Some (Time_condition f tz mode v [] [])"
    using assms(4,5) by (auto simp: match_time_op_def c starts_with_def lit_def)
  ultimately show ?thesis by (simp add: tryParseTimeCondition_def)
qed

lemma parse_range_time:
  assumes "f \<in> set TIME_FUNCS" and "34 \<notin> set tz" and "tz \<noteq> []" and "is_num_text a" and "is_num_text b"
    and s: "s = call_text f tz @ lit '' >= '' @ a @ lit '' || '' @ call_text f tz @ lit '' < '' @ b"
  shows "tryParseTimeCondition s = Some (Time_condition f tz (lit ''range'') [] a b)"
    and "tryParseTimeCondition (40 # s @ [41]) = Some (Time_condition f tz (lit ''range'') [] a b)"
proof -
  note m = parse_range [OF assms(1-5), folded s]
  show "tryParseTimeCondition s = Some (Time_condition f tz (lit ''range'') [] a b)"
    by (simp add: tryParseTimeCondition_def m)
  have "parse_call TIME_FUNCS (40 # s @ [41]) = None" by (rule parse_call_not_time) auto
  then have "match_range (40 # s @ [41]) = None" by (simp add: match_range_def)
  then show "tryParseTimeCondition (40 # s @ [41]) = Some (Time_condition f tz (lit ''range'') [] a b)"
    by (simp add: tryParseTimeCondition_def m)
qed

lemma parse_exists:
  assumes "34 \<notin> set x" and "x \<noteq> []"
  shows "tryParseRequestCondition ns (call_text (lit ''header'') x @ lit '' != '' @ [34, 34])
      = Match (PH_condition (lit ''header'') x (lit ''exists'') [])"
    and "tryParseRequestCondition ns (call_text (lit ''param'') x @ lit '' != nil'')
      = Match (PH_condition (lit ''param'') x (lit ''exists'') [])"
  by (simp_all add: tryParseRequestCondition_def not_time match_exact_def parse_call_one [OF assms] parse_call_other)

lemma parse_eq:
  assumes "34 \<notin> set x" and "x \<noteq> []" and "src = lit ''param'' \<or> src = lit ''header''" and "plain v" and "trim v = v"
  shows "tryParseRequestCondition ns (call_text src x @ lit '' == '' @ eq_text v) = Match (PH_condition src x (lit ''eq'') v)"
proof -
  let ?s = "call_text src x @ lit '' == '' @ eq_text v"
  have h: "match_has (lit ''header'') ?s = None"
    using assms(3) by (auto simp: match_has_def strip_prefix_def starts_with_def lit_def call_text_def)
  have n: "strip_prefix (lit '' != nil && '') (lit '' == '' @ t) = None" "lit '' == '' @ t \<noteq> lit '' != '' @ [34, 34]"
    "lit '' == '' @ t \<noteq> lit '' != nil''" for t
    by (simp_all add: strip_prefix_def starts_with_def lit_def)
  note one = parse_call_one [OF assms(1,2)]
  have g: "match_guard ?s = None"
    using assms(3) by (elim disjE) (simp_all add: match_guard_def parse_call_other one n)
  have e: "match_exact (lit ''header'') (lit '' != '' @ [34, 34]) ?s = None" "match_exact (lit ''param'') (lit '' != nil'') ?s = None"
    using assms(3) by (elim disjE; simp only: match_exact_def parse_call_other one n option.case prod.case if_False)+
  have "equals_condition ns ?s = Match (PH_condition src x (lit ''eq'') v)"
    using eq_text_facts [OF assms(4,5)] by (simp add: equals_condition_def parse_call_source [OF assms(3,1,2)])
  then show ?thesis
    using not_time(1) [OF assms(3)] h g e by (simp add: tryParseRequestCondition_def param_has_def param_compare_def)
qed

lemma parse_contains:
  assumes "34 \<notin> set x" and "x \<noteq> []" and "plain v"
  shows "tryParseRequestCondition ns (lit ''has('' @ call_text (lit ''header'') x @ lit '', '' @ json_quote v @ [41])
    = Match (PH_condition (lit ''header'') x (lit ''contains'') v)"
proof -
  have "is_string_literal (json_quote v)"
    using plain_escaped_body [OF assms(3)] by (simp add: plain_quote [OF assms(3)] is_string_literal_def)
  then have "match_has (lit ''header'') (lit ''has('' @ call_text (lit ''header'') x @ lit '', '' @ json_quote v @ [41])
    = Some (x, json_quote v)"
    by (simp add: match_has_def parse_call_one [OF assms(1,2)] butlast_append)
  then show ?thesis
    by (simp add: tryParseRequestCondition_def not_time(2) match_exact_def parse_call_other contains_condition_def json_parse_quote)
qed

subsection \<open>The text of a condition\<close>

text \<open>
  The conditions that the editor's own text carries back: names, zones and values without quotes,
  backslashes, parentheses, ampersands and bars, numbers where numbers are compared, and the unused
  fields empty.
\<close>

fun cond_ok :: "request_condition \<Rightarrow> bool" where
  "cond_ok (Time_condition f tz mode v a b) \<longleftrightarrow> f \<in> set TIME_FUNCS \<and> tz \<noteq> [] \<and> plain tz
     \<and> (if mode = lit ''range'' then v = [] \<and> NUMERIC_LITERAL_REGEX a \<and> NUMERIC_LITERAL_REGEX b
        else mode \<in> set [lit ''eq'', lit ''gte'', lit ''lt''] \<and> NUMERIC_LITERAL_REGEX v \<and> a = [] \<and> b = [])"
| "cond_ok (PH_condition src x mode v) \<longleftrightarrow> x \<noteq> [] \<and> plain x \<and> trim x = x \<and> plain v \<and> trim v = v
     \<and> (if mode = lit ''exists'' then (src = lit ''param'' \<or> src = lit ''header'') \<and> v = []
        else if mode = lit ''contains'' then src = lit ''header''
        else mode = lit ''eq'' \<and> (src = lit ''param'' \<or> src = lit ''header''))"

definition group_ok :: "request_rule_group \<Rightarrow> bool" where
  "group_ok g \<longleftrightarrow> conditions g \<noteq> [] \<and> list_all cond_ok (conditions g) \<and> NUMERIC_LITERAL_REGEX (multiplier g)"

text \<open>What a part of a conjunction has to be for the parser to find it again.\<close>

definition and_part :: "(jnum \<Rightarrow> jstring) \<Rightarrow> request_condition \<Rightarrow> jstring \<Rightarrow> bool" where
  "and_part ns c s \<longleftrightarrow> bal s \<and> 38 \<notin> set s \<and> s \<noteq> [] \<and> trim s = s \<and> tryParseRequestCondition ns s = Match c"

lemma and_partI:
  assumes "bal s" and "38 \<notin> set s" and "s \<noteq> []" and "\<not> is_ws (hd s)" and "\<not> is_ws (last s)"
    and "tryParseRequestCondition ns s = Match c"
  shows "and_part ns c s"
  using assms by (simp add: and_part_def trim_id)

lemma build_time_fn: "plain tz \<Longrightarrow> f @ lit ''('' @ json_quote tz @ lit '')'' @ r = call_text f tz @ r"
  by (simp add: plain_quote call_text_def lit_def)

definition quiet_name :: "jstring \<Rightarrow> bool" where
  "quiet_name f \<longleftrightarrow> bal f \<and> 38 \<notin> set f \<and> 124 \<notin> set f \<and> f \<noteq> [] \<and> \<not> is_ws (hd f)"

lemma quiet_names: "f \<in> set TIME_FUNCS \<Longrightarrow> quiet_name f" "f = lit ''param'' \<or> f = lit ''header'' \<Longrightarrow> quiet_name f"
  by (auto simp: quiet_name_def TIME_FUNCS_def lit_def bal_Cons bal_Nil is_ws_def)

lemma call_text_facts:
  assumes "quiet_name f" and "plain x"
  shows "bal (call_text f x)" and "38 \<notin> set (call_text f x)" and "124 \<notin> set (call_text f x)"
    and "\<not> is_ws (hd (call_text f x @ r))" and "call_text f x \<noteq> []"
proof -
  show "bal (call_text f x)"
    using assms(1) bal_append [of f "40 # 34 # x @ [34, 41]"] bal_wrap [of "34 # x @ [34]" "[]"]
      bal_append [of x "[34]"] plain_facts(1) [OF assms(2)]
    by (simp add: call_text_def bal_Cons bal_Nil quiet_name_def)
  show "38 \<notin> set (call_text f x)" "124 \<notin> set (call_text f x)"
    using assms(1) plain_facts(2,3) [OF assms(2)] by (auto simp: call_text_def quiet_name_def)
  show "\<not> is_ws (hd (call_text f x @ r))" "call_text f x \<noteq> []"
    using assms(1) by (simp_all add: call_text_def quiet_name_def)
qed

lemma build_range:
  assumes "f \<in> set TIME_FUNCS" and "tz \<noteq> []" and "plain tz" and "NUMERIC_LITERAL_REGEX a" and "NUMERIC_LITERAL_REGEX b"
  shows "buildRequestConditionExpr (Time_condition f tz (lit ''range'') v a b)
    = call_text f tz @ lit '' >= '' @ a @ lit '' || '' @ call_text f tz @ lit '' < '' @ b"
proof -
  have t: "trim a = a" "trim b = b" using assms(4,5) numeric_num_text num_text_facts(1) by blast+
  have "normalizeCondition (Time_condition f tz (lit ''range'') v a b) = Time_condition f tz (lit ''range'') v a b"
    using assms(1,2) by (simp add: normalizeCondition_def isTimeFunc_def getRequestRuleMatchOptions_def or_str_def)
  then show ?thesis
    using assms(4,5) by (simp add: buildRequestConditionExpr_def buildTimeConditionExpr_def t build_time_fn [OF assms(3)])
qed

lemma build_time_op:
  assumes "f \<in> set TIME_FUNCS" and "tz \<noteq> []" and "plain tz" and "NUMERIC_LITERAL_REGEX v"
    and "mode \<in> set [lit ''eq'', lit ''gte'', lit ''lt'']"
  obtains p where "buildRequestConditionExpr (Time_condition f tz mode v a b) = call_text f tz @ p @ v"
    and "(p, mode) \<in> set [(lit '' == '', lit ''eq''), (lit '' >= '', lit ''gte''), (lit '' < '', lit ''lt'')]"
proof -
  have t: "trim v = v" using assms(4) numeric_num_text num_text_facts(1) by blast
  have n: "normalizeCondition (Time_condition f tz mode v a b) = Time_condition f tz mode v a b"
    using assms(1,2,5) by (auto simp: normalizeCondition_def isTimeFunc_def getRequestRuleMatchOptions_def or_str_def)
  note build = buildRequestConditionExpr_def buildTimeConditionExpr_def t build_time_fn [OF assms(3)] opt_or_str_def
    or_str_def coalesce_def
  consider "mode = lit ''eq''" | "mode = lit ''gte''" | "mode = lit ''lt''" using assms(5) by auto
  then show ?thesis
  proof cases
    case 1
    show ?thesis by (rule that [of "lit '' == ''"]) (use 1 n assms(4) in \<open>simp_all add: build\<close>, simp add: lit_def)
  next
    case 2
    show ?thesis by (rule that [of "lit '' >= ''"]) (use 2 n assms(4) in \<open>simp_all add: build\<close>, simp add: lit_def)
  next
    case 3
    show ?thesis by (rule that [of "lit '' < ''"]) (use 3 n assms(4) in \<open>simp_all add: build\<close>, simp add: lit_def)
  qed
qed

lemma build_source:
  assumes "x \<noteq> []" and "plain x" and "trim x = x"
  shows "buildRequestConditionExpr (PH_condition (lit ''header'') x (lit ''exists'') v) = call_text (lit ''header'') x @ lit '' != '' @ [34, 34]"
    and "buildRequestConditionExpr (PH_condition (lit ''param'') x (lit ''exists'') v) = call_text (lit ''param'') x @ lit '' != nil''"
    and "trim v = v \<Longrightarrow> buildRequestConditionExpr (PH_condition (lit ''header'') x (lit ''contains'') v)
      = lit ''has('' @ call_text (lit ''header'') x @ lit '', '' @ json_quote v @ [41]"
    and "src = lit ''param'' \<or> src = lit ''header'' \<Longrightarrow> buildRequestConditionExpr (PH_condition src x (lit ''eq'') v)
      = call_text src x @ lit '' == '' @ eq_text v"
proof -
  have n: "normalizeCondition (PH_condition src x m v) = PH_condition src x m v"
    if "src = lit ''param'' \<or> src = lit ''header''" "m \<in> set [lit ''eq'', lit ''contains'', lit ''exists'']" for src m
    using that by (auto simp: normalizeCondition_def getRequestRuleMatchOptions_def)
  have b: "src @ lit ''('' @ json_quote x @ lit '')'' @ r = call_text src x @ r" for src r
    using assms(2) by (simp add: plain_quote call_text_def lit_def)
  show "buildRequestConditionExpr (PH_condition (lit ''header'') x (lit ''exists'') v) = call_text (lit ''header'') x @ lit '' != '' @ [34, 34]"
    by (simp add: buildRequestConditionExpr_def n assms(1,3) b)
  show "buildRequestConditionExpr (PH_condition (lit ''param'') x (lit ''exists'') v) = call_text (lit ''param'') x @ lit '' != nil''"
    by (simp add: buildRequestConditionExpr_def n assms(1,3) b)
  show "trim v = v \<Longrightarrow> buildRequestConditionExpr (PH_condition (lit ''header'') x (lit ''contains'') v)
      = lit ''has('' @ call_text (lit ''header'') x @ lit '', '' @ json_quote v @ [41]"
    by (simp add: buildRequestConditionExpr_def n assms(1,3) b buildExprLiteral_def) (simp add: lit_def)
  show "src = lit ''param'' \<or> src = lit ''header'' \<Longrightarrow> buildRequestConditionExpr (PH_condition src x (lit ''eq'') v)
      = call_text src x @ lit '' == '' @ eq_text v"
    by (auto simp: buildRequestConditionExpr_def n assms(1,3) b eq_text_def)
qed


text \<open>Every well-formed condition is found again, in parentheses too where the editor adds them.\<close>

lemma and_part_range:
  assumes "f \<in> set TIME_FUNCS" and "tz \<noteq> []" and "plain tz" and "NUMERIC_LITERAL_REGEX a" and "NUMERIC_LITERAL_REGEX b"
    and s: "s = buildRequestConditionExpr (Time_condition f tz (lit ''range'') [] a b)"
  shows "and_part ns (Time_condition f tz (lit ''range'') [] a b) s"
    and "and_part ns (Time_condition f tz (lit ''range'') [] a b) (40 # s @ [41])"
proof -
  note e = s [unfolded build_range [OF assms(1-5)]]
  note c = call_text_facts [OF quiet_names(1) [OF assms(1)] assms(3)]
  note a = num_text_facts [OF numeric_num_text [OF assms(4)]] and b = num_text_facts [OF numeric_num_text [OF assms(5)]]
  note p = parse_range_time [OF assms(1) plain_facts(4) [OF assms(3)] assms(2) numeric_num_text [OF assms(4)] numeric_num_text [OF assms(5)] e]
  have lits: "bal (lit '' >= '')" "bal (lit '' || '')" "bal (lit '' < '')"
    "38 \<notin> set (lit '' >= '')" "38 \<notin> set (lit '' || '')" "38 \<notin> set (lit '' < '')"
    by (simp_all add: lit_def bal_Cons bal_Nil)
  have bal: "bal s" using c(1) a(2) b(2) lits by (simp add: e bal_append)
  have amp: "38 \<notin> set s" using c(2) a(3) b(3) lits by (simp add: e)
  have ne: "s \<noteq> []" using c(5) by (simp add: e)
  have "\<not> is_ws (hd s)" using c(4) by (simp add: e)
  moreover have "\<not> is_ws (last s)" using b(5,9) by (simp add: e)
  ultimately show "and_part ns (Time_condition f tz (lit ''range'') [] a b) s"
    using bal amp ne by (intro and_partI) (simp_all add: tryParseRequestCondition_def p(1))
  show "and_part ns (Time_condition f tz (lit ''range'') [] a b) (40 # s @ [41])"
    using bal amp bal_wrap [OF bal, of "[]"]
    by (intro and_partI) (simp_all add: tryParseRequestCondition_def p(2) bal_Nil is_ws_def)
qed

lemma and_part_time_op:
  assumes "f \<in> set TIME_FUNCS" and "tz \<noteq> []" and "plain tz" and "NUMERIC_LITERAL_REGEX v"
    and "mode \<in> set [lit ''eq'', lit ''gte'', lit ''lt'']"
    and s: "s = buildRequestConditionExpr (Time_condition f tz mode v [] [])"
  shows "and_part ns (Time_condition f tz mode v [] []) s" and "124 \<notin> set s"
proof -
  obtain p where "buildRequestConditionExpr (Time_condition f tz mode v [] []) = call_text f tz @ p @ v"
    and p: "(p, mode) \<in> set [(lit '' == '', lit ''eq''), (lit '' >= '', lit ''gte''), (lit '' < '', lit ''lt'')]"
    by (rule build_time_op [OF assms(1-5)])
  then have e: "s = call_text f tz @ p @ v" using s by simp
  note c = call_text_facts [OF quiet_names(1) [OF assms(1)] assms(3)]
  note v = num_text_facts [OF numeric_num_text [OF assms(4)]]
  have q: "bal p \<and> 38 \<notin> set p \<and> 124 \<notin> set p" using p by (auto simp: lit_def bal_Cons bal_Nil)
  show "124 \<notin> set s" using q c(3) v(4) by (simp add: e)
  have "tryParseTimeCondition s = Some (Time_condition f tz mode v [] [])"
    unfolding e by (rule parse_time_op [OF assms(1) plain_facts(4) [OF assms(3)] assms(2) numeric_num_text [OF assms(4)] p])
  then show "and_part ns (Time_condition f tz mode v [] []) s"
    using q c v by (intro and_partI) (simp_all add: tryParseRequestCondition_def e bal_append)
qed

lemma and_part_source:
  assumes "cond_ok (PH_condition src x mode v)" and s: "s = buildRequestConditionExpr (PH_condition src x mode v)"
  shows "and_part ns (PH_condition src x mode v) s \<and> 124 \<notin> set s"
proof -
  have x: "x \<noteq> []" "plain x" "trim x = x" and v: "plain v" "trim v = v" using assms(1) by auto
  note b = build_source [OF x] and q = plain_facts(4) [OF x(2)]
  note c = call_text_facts [OF quiet_names(2) x(2)]
  consider (he) "src = lit ''header''" "mode = lit ''exists''" "v = []"
    | (pe) "src = lit ''param''" "mode = lit ''exists''" "v = []"
    | (has) "src = lit ''header''" "mode = lit ''contains''"
    | (eq) "src = lit ''param'' \<or> src = lit ''header''" "mode = lit ''eq''"
  proof (cases "mode = lit ''exists''")
    case True
    then show ?thesis using assms(1) he pe by (simp only: cond_ok.simps simp_thms if_True) blast
  next
    case False
    note ne = this
    show ?thesis
    proof (cases "mode = lit ''contains''")
      case True
      then show ?thesis using assms(1) ne has by (simp only: cond_ok.simps simp_thms if_True if_False)
    next
      case False
      then show ?thesis using assms(1) ne eq by (simp only: cond_ok.simps simp_thms if_False)
    qed
  qed
  then show ?thesis
  proof cases
    case he
    have l: "bal (lit '' != '' @ [34, 34])" "38 \<notin> set (lit '' != '')" "124 \<notin> set (lit '' != '')" "\<not> is_ws 34"
      by (simp_all add: lit_def bal_Cons bal_Nil is_ws_def)
    have e: "s = call_text (lit ''header'') x @ lit '' != '' @ [34, 34]" using s he b(1) by simp
    have "and_part ns (PH_condition src x mode v) s"
      using c [of "lit ''header''"] l he parse_exists(1) [OF q x(1)] by (intro and_partI) (simp_all add: e bal_append)
    then show ?thesis using l c(3) [of "lit ''header''"] by (simp add: e)
  next
    case pe
    have l: "bal (lit '' != nil'')" "38 \<notin> set (lit '' != nil'')" "124 \<notin> set (lit '' != nil'')" "\<not> is_ws (last (lit '' != nil''))"
      by (simp_all add: lit_def bal_Cons bal_Nil is_ws_def)
    have e: "s = call_text (lit ''param'') x @ lit '' != nil''" using s pe b(2) by simp
    have "and_part ns (PH_condition src x mode v) s"
      using c [of "lit ''param''"] l pe parse_exists(2) [OF q x(1)] by (intro and_partI) (simp_all add: e bal_append)
    then show ?thesis using l c(3) [of "lit ''param''"] by (simp add: e)
  next
    case has
    let ?body = "call_text (lit ''header'') x @ lit '', '' @ json_quote v"
    have l: "bal (lit '', '')" "38 \<notin> set (lit '', '')" "124 \<notin> set (lit '', '')" "\<not> is_ws 41"
      by (simp_all add: lit_def bal_Cons bal_Nil is_ws_def)
    have j: "bal (json_quote v)" "38 \<notin> set (json_quote v)" "124 \<notin> set (json_quote v)"
      using plain_facts(1-3) [OF v(1)] bal_append [of v "[34]"] by (simp_all add: plain_quote [OF v(1)] bal_Cons bal_Nil)
    have e: "s = lit ''has('' @ ?body @ [41]" using s has b(3) [OF v(2)] by simp
    have e': "s = [104, 97, 115] @ 40 # ?body @ [41]" by (simp add: e lit_def)
    have "bal ?body" using c(1) [of "lit ''header''"] l(1) j(1) by (simp add: bal_append)
    then have "bal s" using bal_wrap [of ?body "[]"] by (simp add: e' bal_Cons bal_Nil)
    moreover have "38 \<notin> set s \<and> 124 \<notin> set s" using c(2,3) [of "lit ''header''"] l j by (auto simp: e')
    moreover have "tryParseRequestCondition ns s = Match (PH_condition src x mode v)"
      using parse_contains [OF q x(1) v(1)] has by (simp add: e)
    ultimately show ?thesis using l(4) by (auto intro!: and_partI simp: e' is_ws_def)
  next
    case eq
    have l: "bal (lit '' == '')" "38 \<notin> set (lit '' == '')" "124 \<notin> set (lit '' == '')"
      by (simp_all add: lit_def bal_Cons bal_Nil)
    have e: "s = call_text src x @ lit '' == '' @ eq_text v" using s eq b(4) [OF eq(1)] by simp
    note t = eq_text_facts [OF v]
    have "and_part ns (PH_condition src x mode v) s"
      using c [OF eq(1)] l t eq parse_eq [OF q x(1) eq(1) v] by (intro and_partI) (simp_all add: e bal_append)
    then show ?thesis using l t(3) c(3) [OF eq(1)] by (simp add: e)
  qed
qed

definition wrap_or :: "jstring \<Rightarrow> jstring" where
  "wrap_or e = (if str_includes e (lit '' || '') then lit ''('' @ e @ lit '')'' else e)"

lemma wrap_or_quiet: "124 \<notin> set s \<Longrightarrow> wrap_or s = s"
proof -
  have "124 \<in> set (lit '' || '')" by (simp add: lit_def)
  then show "124 \<notin> set s \<Longrightarrow> wrap_or s = s" by (auto simp: wrap_or_def str_includes_iff)
qed

lemma condition_parts:
  assumes "cond_ok c"
  shows "and_part ns c (buildRequestConditionExpr c)" and "and_part ns c (wrap_or (buildRequestConditionExpr c))"
proof -
  let ?s = "buildRequestConditionExpr c"
  have "and_part ns c ?s \<and> and_part ns c (wrap_or ?s)"
  proof (cases c)
    case (PH_condition src x mode v)
    then show ?thesis using and_part_source [of src x mode v ?s ns] assms wrap_or_quiet by simp
  next
    case (Time_condition f tz mode v a b)
    have w: "f \<in> set TIME_FUNCS" "tz \<noteq> []" "plain tz" using assms Time_condition by simp_all
    show ?thesis
    proof (cases "mode = lit ''range''")
      case True
      have r: "v = []" "NUMERIC_LITERAL_REGEX a" "NUMERIC_LITERAL_REGEX b" using assms Time_condition True by simp_all
      show ?thesis
        using and_part_range [OF w r(2,3), of ?s ns] Time_condition True r(1) by (simp add: wrap_or_def) (simp add: lit_def)
    next
      case False
      have r: "NUMERIC_LITERAL_REGEX v" "mode \<in> set [lit ''eq'', lit ''gte'', lit ''lt'']" "a = []" "b = []"
        using assms Time_condition False by simp_all
      show ?thesis using and_part_time_op(1) [OF w r(1,2) refl, of ns] and_part_time_op(2) [OF w r(1,2) refl] Time_condition r(3,4) wrap_or_quiet by simp
    qed
  qed
  then show "and_part ns c ?s" "and_part ns c (wrap_or ?s)" by blast+
qed

subsection \<open>Conditions behind a guard\<close>

text \<open>The conditions on a parameter whose text begins with a check that the parameter is there.\<close>

fun guarded_ok :: "request_condition \<Rightarrow> bool" where
  "guarded_ok (Time_condition f tz mode v a b) \<longleftrightarrow> False"
| "guarded_ok (PH_condition src x mode v) \<longleftrightarrow> src = lit ''param'' \<and> x \<noteq> [] \<and> plain x \<and> trim x = x
     \<and> (if mode = lit ''contains'' then plain v \<and> trim v = v
        else mode \<in> set [lit ''gt'', lit ''gte'', lit ''lt'', lit ''lte''] \<and> NUMERIC_LITERAL_REGEX v)"

definition guard_text :: "jstring \<Rightarrow> jstring" where
  "guard_text x = call_text (lit ''param'') x @ lit '' != nil''"

lemma build_guarded:
  assumes "guarded_ok c"
  obtains r where "buildRequestConditionExpr c = join (lit '' && '') [guard_text (ph_path c), r]"
    and "bal r" and "38 \<notin> set r" and "124 \<notin> set r" and "r \<noteq> []" and "trim r = r" and "\<And>ns. tryParseRequestCondition ns r = No_match"
proof -
  obtain x mode v where c: "c = PH_condition (lit ''param'') x mode v" using assms by (cases c) auto
  have x: "x \<noteq> []" "plain x" "trim x = x" using assms c by simp_all
  note q = plain_facts(4) [OF x(2)]
  note t = call_text_facts [OF quiet_names(2) x(2), of "lit ''param''"]
  note one = parse_call_one [OF q x(1)]
  have b: "lit ''param'' @ lit ''('' @ json_quote x @ lit '')'' @ r = call_text (lit ''param'') x @ r" for r
    using x(2) by (simp add: plain_quote call_text_def lit_def)
  show ?thesis
  proof (cases "mode = lit ''contains''")
    case True
    have v: "plain v" "trim v = v" using assms c True by simp_all
    let ?body = "call_text (lit ''param'') x @ lit '', '' @ json_quote v" and ?r = "lit ''has('' @ call_text (lit ''param'') x @ lit '', '' @ json_quote v @ [41]"
    have n: "normalizeCondition c = c" by (simp add: c True normalizeCondition_def getRequestRuleMatchOptions_def)
    have l: "bal (lit '', '')" "38 \<notin> set (lit '', '')" "124 \<notin> set (lit '', '')" by (simp_all add: lit_def bal_Cons bal_Nil)
    have j: "bal (json_quote v)" "38 \<notin> set (json_quote v)" "124 \<notin> set (json_quote v)"
      using plain_facts(1-3) [OF v(1)] bal_append [of v "[34]"] by (simp_all add: plain_quote [OF v(1)] bal_Cons bal_Nil)
    have e': "?r = [104, 97, 115] @ 40 # ?body @ [41]" by (simp add: lit_def)
    have "bal ?body" using t(1) l(1) j(1) by (simp add: bal_append)
    then have "bal ?r" using bal_wrap [of ?body "[]"] by (simp only: e') (simp add: bal_Cons bal_Nil)
    moreover have "38 \<notin> set ?r" "124 \<notin> set ?r" unfolding e' using t(2,3) l j by simp_all
    moreover have "trim ?r = ?r" unfolding e' by (rule trim_id) (simp_all add: is_ws_def)
    moreover have "match_has (lit ''header'') ?r = None" by (simp add: match_has_def parse_call_other)
    then have "tryParseRequestCondition ns ?r = No_match" for ns
      by (simp add: tryParseRequestCondition_def not_time(2) match_exact_def parse_call_other param_has_def param_compare_def
          match_guard_def equals_condition_def)
    moreover have "buildRequestConditionExpr c = join (lit '' && '') [guard_text (ph_path c), ?r]"
      using v(2) x by (simp add: c True buildRequestConditionExpr_def n [unfolded c True] b buildExprLiteral_def guard_text_def) (simp add: lit_def)
    ultimately show ?thesis using that [of ?r] by simp
  next
    case False
    have v: "NUMERIC_LITERAL_REGEX v" and m: "mode \<in> set [lit ''gt'', lit ''gte'', lit ''lt'', lit ''lte'']"
      using assms c False by simp_all
    note w = num_text_facts [OF numeric_num_text [OF v]]
    obtain p where p: "map_of [(lit ''gt'', lit ''>''), (lit ''gte'', lit ''>=''), (lit ''lt'', lit ''<''), (lit ''lte'', lit ''<='')] mode = Some p"
      and f: "p \<in> set [lit ''>'', lit ''>='', lit ''<'', lit ''<='']" and ne: "mode \<noteq> lit ''exists''"
      using m by auto
    let ?r = "call_text (lit ''param'') x @ lit '' '' @ p @ lit '' '' @ v"
    have n: "normalizeCondition c = c"
      using m by (auto simp: c normalizeCondition_def getRequestRuleMatchOptions_def)
    have pl: "bal (lit '' '' @ p @ lit '' '')" "38 \<notin> set p" "124 \<notin> set p" using f by (auto simp: lit_def bal_Cons bal_Nil)
    have np: "strip_prefix (lit '' == '') (lit '' '' @ p @ t) = None" "strip_prefix (lit '' != nil && '') (lit '' '' @ p @ t) = None"
      "lit '' '' @ p @ t \<noteq> lit '' != nil''" for t
      using f by (auto simp: strip_prefix_def starts_with_def lit_def)
    have "bal ?r" using bal_append [OF t(1) bal_append [OF pl(1) w(2)]] by simp
    moreover have "38 \<notin> set ?r" "124 \<notin> set ?r" using t(2,3) pl(2,3) w(3,4) by (simp_all add: lit_def)
    moreover have "trim ?r = ?r" by (rule trim_id) (use t(4,5) w(5,9) in simp_all)
    moreover have "match_has (lit ''header'') ?r = None" "match_guard ?r = None" "match_exact (lit ''param'') (lit '' != nil'') ?r = None"
      by (simp_all only: match_guard_def match_exact_def one np option.case prod.case if_False option.map)
        (simp add: match_has_def strip_prefix_def starts_with_def call_text_def lit_def)
    then have "tryParseRequestCondition ns ?r = No_match" for ns
      by (simp add: tryParseRequestCondition_def not_time(1) match_exact_def [of "lit ''header''"] parse_call_other param_has_def
          param_compare_def equals_condition_def parse_call_source q x(1) np)
    moreover have "buildRequestConditionExpr c = join (lit '' && '') [guard_text (ph_path c), ?r]"
      using x v by (simp add: c buildRequestConditionExpr_def n [unfolded c] ne False b p w(1) guard_text_def del: map_of.simps)
        (simp add: lit_def)
    ultimately show ?thesis using that [of ?r] t(5) by simp
  qed
qed


subsection \<open>Groups and rules\<close>

lemma join_bal: "bal sep \<Longrightarrow> \<forall>p \<in> set ps. bal p \<Longrightarrow> bal (join sep ps)"
  by (induction ps rule: induct_list012) (simp_all add: bal_Nil bal_append)

lemma trimmed_parts: "\<forall>p \<in> set ps. p \<noteq> [] \<and> trim p = p \<Longrightarrow> filter (\<lambda>p. p \<noteq> []) (map trim ps) = ps"
  by (induction ps) auto

lemma attempt_all_map: "\<forall>x \<in> set xs. f (g x) = Match x \<Longrightarrow> attempt_all f (map g xs) = Match xs"
  by (induction xs) simp_all

lemma attempt_all_cong: "(\<And>x. x \<in> set xs \<Longrightarrow> f x = g x) \<Longrightarrow> attempt_all f xs = attempt_all g xs"
  by (induction xs) (auto split: attempt.splits)

text \<open>
  The rules that the editor builds: conditions of the menus on plain texts and numbers. Of these the
  parser reads the ones that satisfy \<open>cond_ok\<close>; the text of the others is taken for two conditions.
\<close>

definition cond_built :: "request_condition \<Rightarrow> bool" where
  "cond_built c \<longleftrightarrow> cond_ok c \<or> guarded_ok c"

definition group_built :: "request_rule_group \<Rightarrow> bool" where
  "group_built g \<longleftrightarrow> conditions g \<noteq> [] \<and> list_all cond_built (conditions g) \<and> NUMERIC_LITERAL_REGEX (multiplier g)"

lemma guarded_not_ok: "guarded_ok c \<Longrightarrow> \<not> cond_ok c"
  by (cases c) (auto split: if_splits)

lemma group_ok_built: "group_ok g \<Longrightarrow> group_built g"
  by (auto simp: group_ok_def group_built_def cond_built_def list_all_iff)

lemma group_ok_iff: "group_built g \<Longrightarrow> group_ok g \<longleftrightarrow> list_all cond_ok (conditions g)"
  by (auto simp: group_ok_def group_built_def)

definition quiet_part :: "jstring \<Rightarrow> bool" where
  "quiet_part q \<longleftrightarrow> 38 \<notin> set q \<and> bal q \<and> q \<noteq> [] \<and> trim q = q"

text \<open>The parts that the parser sees in the text of a condition\<close>

lemma cond_parts:
  assumes "cond_built c" and h: "h = buildRequestConditionExpr \<or> h = wrap_or \<circ> buildRequestConditionExpr"
  shows "\<exists>ps. h c = join (lit '' && '') ps \<and> ps \<noteq> [] \<and> list_all quiet_part ps
    \<and> (\<forall>ns. attempt_all (\<lambda>ap. tryParseRequestCondition ns (trim ap)) ps = (if cond_ok c then Match [c] else No_match))"
proof (cases "cond_ok c")
  case True
  then have p: "and_part ns c (h c)" for ns
    using condition_parts h by auto
  then have "quiet_part (h c)" "trim (h c) = h c" and "tryParseRequestCondition ns (h c) = Match c" for ns
    by (auto simp: quiet_part_def and_part_def)
  then show ?thesis
    using True by (intro exI [of _ "[h c]"]) simp
next
  case False
  then have g: "guarded_ok c"
    using assms(1) by (simp add: cond_built_def)
  obtain r where e: "buildRequestConditionExpr c = join (lit '' && '') [guard_text (ph_path c), r]"
    and r: "bal r" "38 \<notin> set r" "124 \<notin> set r" "r \<noteq> []" "trim r = r" "\<And>ns. tryParseRequestCondition ns r = No_match"
    using build_guarded [OF g] by blast
  let ?x = "ph_path c" let ?g = "guard_text ?x"
  have x: "?x \<noteq> []" "plain ?x" using g by (cases c; simp)+
  note t = call_text_facts [OF quiet_names(2) x(2), of "lit ''param''"]
  have q: "bal ?g" "38 \<notin> set ?g" "124 \<notin> set ?g" "?g \<noteq> []" "trim ?g = ?g"
    using t by (auto simp: guard_text_def lit_def bal_Cons bal_Nil is_ws_def intro!: bal_append trim_id)
  have pg: "tryParseRequestCondition ns ?g = Match (PH_condition (lit ''param'') ?x (lit ''exists'') [])" for ns
    unfolding guard_text_def by (rule parse_exists(2) [OF plain_facts(4) [OF x(2)] x(1)])
  have "124 \<notin> set (buildRequestConditionExpr c)"
    unfolding e using q(3) r(3) by (simp add: lit_def)
  then have "h c = buildRequestConditionExpr c"
    using h wrap_or_quiet by auto
  then show ?thesis
    unfolding e using q r pg False by (intro exI [of _ "[?g, r]"]) (simp add: quiet_part_def)
qed

lemma join_append: "ps \<noteq> [] \<Longrightarrow> qs \<noteq> [] \<Longrightarrow> join sep (ps @ qs) = join sep ps @ sep @ join sep qs"
proof (induction ps rule: induct_list012)
  case (2 p)
  then show ?case by (cases qs) simp_all
qed simp_all

lemma attempt_all_append:
  "attempt_all f (xs @ ys) =
     (case attempt_all f xs of
        Throws \<Rightarrow> Throws
      | No_match \<Rightarrow> No_match
      | Match us \<Rightarrow> (case attempt_all f ys of Throws \<Rightarrow> Throws | No_match \<Rightarrow> No_match | Match vs \<Rightarrow> Match (us @ vs)))"
  by (induction xs) (auto split: attempt.split)

lemma conditions_parts:
  assumes "list_all cond_built cs" and "cs \<noteq> []"
    and h: "h = buildRequestConditionExpr \<or> h = wrap_or \<circ> buildRequestConditionExpr"
  shows "\<exists>ps. join (lit '' && '') (map h cs) = join (lit '' && '') ps \<and> ps \<noteq> [] \<and> list_all quiet_part ps
    \<and> (\<forall>ns. attempt_all (\<lambda>ap. tryParseRequestCondition ns (trim ap)) ps = (if list_all cond_ok cs then Match cs else No_match))"
  using assms(1,2)
proof (induction cs)
  case (Cons c cs)
  obtain ps where p: "h c = join (lit '' && '') ps" "ps \<noteq> []" "list_all quiet_part ps"
    and pa: "\<And>ns. attempt_all (\<lambda>ap. tryParseRequestCondition ns (trim ap)) ps = (if cond_ok c then Match [c] else No_match)"
    using cond_parts [OF _ h, of c] Cons.prems(1) by auto
  show ?case
  proof (cases "cs = []")
    case True
    then show ?thesis
      using p pa by (intro exI [of _ ps]) simp
  next
    case False
    then obtain qs where q: "join (lit '' && '') (map h cs) = join (lit '' && '') qs" "qs \<noteq> []" "list_all quiet_part qs"
      and qa: "\<And>ns. attempt_all (\<lambda>ap. tryParseRequestCondition ns (trim ap)) qs = (if list_all cond_ok cs then Match cs else No_match)"
      using Cons by auto
    have "join (lit '' && '') (map h (c # cs)) = join (lit '' && '') (ps @ qs)"
      using p(1,2) q(1,2) False by (cases cs) (simp_all add: join_append)
    then show ?thesis
      using p(2,3) q(3) pa qa by (intro exI [of _ "ps @ qs"]) (simp add: attempt_all_append)
  qed
qed simp

text \<open>The texts of the conditions of a group, each in parentheses where it needs them.\<close>

definition and_texts :: "request_condition list \<Rightarrow> jstring list" where
  "and_texts cs = map (if length cs = 1 then buildRequestConditionExpr else wrap_or \<circ> buildRequestConditionExpr) cs"

lemma quiet_join_not_Nil: "ps \<noteq> [] \<Longrightarrow> list_all quiet_part ps \<Longrightarrow> join sep ps \<noteq> []"
  using join_eq_Nil [of sep ps] by (cases ps) (auto simp: quiet_part_def)

lemma factor_text:
  assumes "group_built g"
  shows "buildRuleGroupFactor g = 40 # (join (lit '' && '') (and_texts (conditions g)) @ lit '' ? '' @ multiplier g @ lit '' : 1'') @ [41]"
proof -
  let ?es = "map buildRequestConditionExpr (conditions g)"
  have ne: "conditions g \<noteq> []" and ok: "list_all cond_built (conditions g)" and n: "NUMERIC_LITERAL_REGEX (multiplier g)"
    using assms by (simp_all add: group_built_def)
  have "buildRequestConditionExpr c \<noteq> []" if "c \<in> set (conditions g)" for c
  proof -
    have "cond_built c"
      using ok that by (simp add: list_all_iff)
    from cond_parts [OF this disjI1 [OF refl]] obtain ps
      where "buildRequestConditionExpr c = join (lit '' && '') ps" "ps \<noteq> []" "list_all quiet_part ps"
      by blast
    then show ?thesis
      using quiet_join_not_Nil by (simp only: not_False_eq_True)
  qed
  then have f: "filter (\<lambda>e. e \<noteq> []) ?es = ?es" by (simp add: filter_id_conv)
  have t: "trim (multiplier g) = multiplier g" using num_text_facts(1) numeric_num_text n by blast
  have "(if length ?es = 1 then hd ?es else join (lit '' && '') (map wrap_or ?es)) = join (lit '' && '') (and_texts (conditions g))"
  proof (cases "length (conditions g) = 1")
    case True
    then obtain c where "conditions g = [c]" by (auto simp: length_Suc_conv)
    then show ?thesis by (simp add: and_texts_def)
  qed (simp add: and_texts_def)
  moreover have "buildRuleGroupFactor g = lit ''('' @ (if length ?es = 1 then hd ?es else join (lit '' && '') (map wrap_or ?es))
      @ lit '' ? '' @ multiplier g @ lit '' : 1)''"
    using ne n by (simp only: buildRuleGroupFactor_def Let_def f t wrap_or_def [abs_def] map_is_Nil_conv if_False not_True_eq_False simp_thms)
  ultimately show ?thesis by (simp add: lit_def)
qed

lemma match_factor_text:
  assumes "is_num_text n" and "cs \<noteq> []"
  shows "match_factor (40 # (cs @ lit '' ? '' @ n @ lit '' : 1'') @ [41]) = Some (cs, n)"
proof -
  let ?part = "40 # (cs @ lit '' ? '' @ n @ lit '' : 1'') @ [41]" and ?mid = "cs @ lit '' ? '' @ n"
  have part: "?part = (40 # ?mid) @ lit '' : 1)''" by (simp add: lit_def)
  have len: "length ?part = length ?mid + 6" by simp
  have "ends_with_text ?part (lit '' : 1)'')" unfolding part by (simp add: ends_with_text_def)
  moreover have take_mid: "take (length m) (m @ x) = m" for m x :: jstring by simp
  have "length ?part - 6 = length ?mid" "drop 1 ?part = ?mid @ lit '' : 1)''" by (simp_all add: lit_def)
  then have mid: "take (length ?part - 6) (drop 1 ?part) = ?mid" by (simp only: take_mid)
  have r: "is_num_text (rev n)" using assms(1) by (simp add: is_num_text_def)
  have "rev ?mid = rev n @ 32 # rev (cs @ [32, 63])" by (simp add: lit_def)
  then have tw: "rev (takeWhile num_char (rev ?mid)) = n" by (simp only: num_text_facts(10) [OF r] rev_rev_ident)
  have rest: "take (length ?mid - length n) ?mid = cs @ lit '' ? ''" by simp
  have e: "ends_with_text (cs @ lit '' ? '') (lit '' ? '')" by (simp add: ends_with_text_def)
  have tk: "take (length (cs @ lit '' ? '') - 3) (cs @ lit '' ? '') = cs" by simp
  have "starts_with ?part [40]" by (simp add: starts_with_def)
  moreover have "length ?part \<ge> 6" "length (cs @ lit '' ? '') > 3" using assms(2) by simp_all
  ultimately show ?thesis
    using num_text_facts(5) [OF assms(1)] unfolding match_factor_def Let_def mid tw rest tk by (simp only: e simp_thms if_True)
qed

lemma group_factor:
  assumes "group_built g"
  shows "tryParseRuleGroupFactor ns (buildRuleGroupFactor g) = (if group_ok g then Match g else No_match)"
    and "wrapped (buildRuleGroupFactor g)"
proof -
  let ?cs = "conditions g"
  let ?h = "if length ?cs = 1 then buildRequestConditionExpr else wrap_or \<circ> buildRequestConditionExpr"
  have ne: "?cs \<noteq> []" and built: "list_all cond_built ?cs" and n: "is_num_text (multiplier g)"
    using assms numeric_num_text by (simp_all add: group_built_def)
  have "?h = buildRequestConditionExpr \<or> ?h = wrap_or \<circ> buildRequestConditionExpr"
    by simp
  from conditions_parts [OF built ne this] obtain ps where
    j: "join (lit '' && '') (and_texts ?cs) = join (lit '' && '') ps" and ps: "ps \<noteq> []" "list_all quiet_part ps"
    and all: "\<And>ns. attempt_all (\<lambda>ap. tryParseRequestCondition ns (trim ap)) ps = (if list_all cond_ok ?cs then Match ?cs else No_match)"
    unfolding and_texts_def by blast
  have parts: "38 \<notin> set p \<and> bal p \<and> p \<noteq> [] \<and> trim p = p" if "p \<in> set ps" for p
    using that ps(2) by (auto simp: list_all_iff quiet_part_def)
  have sep: "lit '' && '' = 32 # 38 # [38, 32]" by (simp add: lit_def)
  have "split_top (lit '' && '') 0 [] (join (lit '' && '') ps) = ps"
    unfolding sep by (rule split_top_join_quiet) (use ps(1) parts in auto)
  then have split: "splitTopLevelAnd (join (lit '' && '') ps) = ps"
    using trimmed_parts [of ps] parts by (simp add: splitTopLevelAnd_def)
  note jne = quiet_join_not_Nil [OF ps, of "lit '' && ''"]
  show "tryParseRuleGroupFactor ns (buildRuleGroupFactor g) = (if group_ok g then Match g else No_match)"
    unfolding group_ok_iff [OF assms]
    by (simp add: tryParseRuleGroupFactor_def factor_text [OF assms] j match_factor_text [OF n jne, simplified] split all ne)
  have "bal (join (lit '' && '') ps)"
    by (rule join_bal) (use parts in \<open>auto simp: lit_def bal_Cons bal_Nil\<close>)
  moreover have "bal (lit '' ? '')" "bal (lit '' : 1'')" by (simp_all add: lit_def bal_Cons bal_Nil)
  ultimately show "wrapped (buildRuleGroupFactor g)"
    using num_text_facts(2) [OF n] unfolding factor_text [OF assms] j wrapped_def by (blast intro: bal_append)
qed

lemma wrapped_trim: "wrapped p \<Longrightarrow> p \<noteq> [] \<and> trim p = p"
  by (auto simp: wrapped_def is_ws_def intro!: trim_id)

lemma split_multiply_wrapped: "ps \<noteq> [] \<Longrightarrow> \<forall>p \<in> set ps. wrapped p \<Longrightarrow> splitTopLevelMultiply (join (lit '' * '') ps) = ps"
proof -
  assume "ps \<noteq> []" "\<forall>p \<in> set ps. wrapped p"
  moreover have "lit '' * '' = 32 # [42, 32]" by (simp add: lit_def)
  ultimately show ?thesis
    using split_top_join_wrapped [of ps "[42, 32]"] trimmed_parts [of ps] wrapped_trim by (simp add: splitTopLevelMultiply_def)
qed

lemma join_wrapped_trim: "ps \<noteq> [] \<Longrightarrow> \<forall>p \<in> set ps. wrapped p \<Longrightarrow> trim (join sep ps) = join sep ps \<and> join sep ps \<noteq> []"
proof -
  assume ps: "ps \<noteq> []" "\<forall>p \<in> set ps. wrapped p"
  then obtain p q where p: "ps = p # q" "p \<noteq> []" "\<not> is_ws (hd p)" by (cases ps) (auto simp: wrapped_def is_ws_def)
  from ps last_in_set [of ps] have "wrapped (last ps)" by blast
  then have l: "last ps \<noteq> []" "\<not> is_ws (last (last ps))" by (auto simp: wrapped_def is_ws_def)
  have "join sep ps \<noteq> []" using p(2) join_eq_Nil [of sep ps p] by (auto simp: p(1))
  then show ?thesis using hd_join [OF p(2), of sep q] last_join [OF ps(1) l(1), of sep] p l by (auto intro!: trim_id)
qed

lemma rules_text: "list_all group_built gs \<Longrightarrow> buildRequestRuleExpr gs = join (lit '' * '') (map buildRuleGroupFactor gs)"
proof -
  assume "list_all group_built gs"
  then have "\<forall>f \<in> set (map buildRuleGroupFactor gs). f \<noteq> []"
    using group_factor(2) wrapped_trim by (auto simp: list_all_iff)
  then show ?thesis by (simp add: buildRequestRuleExpr_def)
qed

lemma attempt_all_filter:
  "\<forall>x \<in> set xs. f (g x) = (if P x then Match x else No_match) \<Longrightarrow>
    attempt_all f (map g xs) = (if list_all P xs then Match xs else No_match)"
  by (induction xs) auto

lemma rules_read:
  assumes "list_all group_built gs"
  shows "tryParseRequestRuleExpr ns (buildRequestRuleExpr gs) = (if list_all group_ok gs then Match gs else No_match)"
proof (cases "gs = []")
  case True
  then show ?thesis by (simp add: tryParseRequestRuleExpr_def buildRequestRuleExpr_def)
next
  case False
  let ?ps = "map buildRuleGroupFactor gs"
  have w: "?ps \<noteq> []" "\<forall>p \<in> set ?ps. wrapped p" using False assms group_factor(2) by (auto simp: list_all_iff)
  have "attempt_all (tryParseRuleGroupFactor ns) ?ps = (if list_all group_ok gs then Match gs else No_match)"
    by (rule attempt_all_filter) (use assms group_factor(1) in \<open>auto simp: list_all_iff\<close>)
  then show ?thesis
    using join_wrapped_trim [OF w, of "lit '' * ''"] split_multiply_wrapped [OF w]
    by (simp add: tryParseRequestRuleExpr_def rules_text [OF assms])
qed

subsection \<open>The base and the rules\<close>

lemma classify_rules:
  "list_all group_built gs \<Longrightarrow> classify_parts ns (map buildRuleGroupFactor gs) =
    Match (map buildRuleGroupFactor (filter group_ok gs), map buildRuleGroupFactor (filter (\<lambda>g. \<not> group_ok g) gs))"
proof (induction gs)
  case (Cons g gs)
  then have "tryParseRequestRuleExpr ns (buildRuleGroupFactor g) = (if group_ok g then Match [g] else No_match)"
    using rules_read [of "[g]" ns] rules_text [of "[g]"] by simp
  then show ?case using Cons by simp
qed simp

lemma outer_scan_above: "above d s \<Longrightarrow> fold paren_step s d = 1 \<Longrightarrow> outer_scan d (s @ [41])"
  by (induction s arbitrary: d) (auto simp: Let_def paren_step_def)

lemma unwrap_wrapped: "bal b \<Longrightarrow> unwrapOuterParens (40 # b @ [41]) = unwrapOuterParens b"
proof -
  assume b: "bal b"
  have "trim (40 # b @ [41]) = 40 # b @ [41]" by (rule trim_id) (simp_all add: is_ws_def)
  moreover have "hasFullOuterParens (40 # b @ [41])"
    using outer_scan_above [of 1 b] bal_above [OF b, of 1] bal_fold [OF b, of 1]
    by (simp add: hasFullOuterParens_def starts_with_def Let_def paren_step_def)
  ultimately show ?thesis by (simp add: unwrapOuterParens_def unwrap_loop.simps [of "40 # b @ [41]"])
qed

text \<open>A base that is not itself the text of a factor.\<close>

definition base_ok :: "jstring \<Rightarrow> bool" where
  "base_ok b \<longleftrightarrow> trim b \<noteq> [] \<and> bal (trim b) \<and> \<not> ends_with_text (trim b) (lit '' : 1'')"

lemma base_no_rule:
  assumes "bal b" and "\<not> ends_with_text b (lit '' : 1'')"
  shows "tryParseRequestRuleExpr ns (40 # b @ [41]) = No_match"
proof -
  have w: "wrapped (40 # b @ [41])" using assms(1) by (auto simp: wrapped_def)
  have "ends_with_text (40 # b @ [41]) (lit '' : 1)'') \<Longrightarrow> length (40 # b @ [41]) \<ge> 6 \<Longrightarrow> ends_with_text b (lit '' : 1'')"
  proof -
    assume e: "ends_with_text (40 # b @ [41]) (lit '' : 1)'')" and l: "length (40 # b @ [41]) \<ge> 6"
    have "length (40 # b @ [41]) - length (lit '' : 1)'') = Suc (length b - 4)" using l by simp
    then have "drop (length b - 4) b @ [41] = lit '' : 1)''" using e l by (simp add: ends_with_text_def)
    moreover have "lit '' : 1)'' = lit '' : 1'' @ [41]" by (simp add: lit_def)
    ultimately have "drop (length b - 4) b @ [41] = lit '' : 1'' @ [41]" by simp
    then show "ends_with_text b (lit '' : 1'')" using l by (simp add: ends_with_text_def numeral_eq_Suc)
  qed
  then have "match_factor (40 # b @ [41]) = None" using assms(2) unfolding match_factor_def by (meson)
  then have "tryParseRuleGroupFactor ns (40 # b @ [41]) = No_match" by (simp add: tryParseRuleGroupFactor_def)
  then show ?thesis
    using split_multiply_wrapped [of "[40 # b @ [41]]"] w wrapped_trim [OF w] by (simp add: tryParseRequestRuleExpr_def)
qed



end
