(* ===== verification/JS_Regex.thy ===== *)
theory JS_Regex
  imports JS_Value
begin

section \<open>Regular expressions of the source language\<close>

text \<open>
  A matcher for the regular expressions that the modelled code composes at run time. A state has the
  text before the current position (reversed), the text after it and the captures; \<open>rx r m\<close> lists the
  states in which \<open>r\<close> can end, in the order in which the backtracking matcher tries them, so that the
  first one is the result of a match. An iteration of \<open>Star\<close> that consumes nothing is refused, as the
  language does.
\<close>

type_synonym captures = "(nat \<times> jstring) list"
type_synonym mstate = "jstring \<times> jstring \<times> captures"

datatype regex =
    Eps
  | Cls "nat \<Rightarrow> bool"
  | Seq regex regex
  | Alt regex regex
  | Star regex
  | Grp nat regex
  | Bol
  | Eol
  | WordB

definition is_word :: "nat \<Rightarrow> bool" where
  "is_word c \<longleftrightarrow> is_digit c \<or> 65 \<le> c \<and> c \<le> 90 \<or> 97 \<le> c \<and> c \<le> 122 \<or> c = 95"

definition word_at :: "jstring \<Rightarrow> bool" where
  "word_at s \<longleftrightarrow> s \<noteq> [] \<and> is_word (hd s)"

function rx :: "regex \<Rightarrow> mstate \<Rightarrow> mstate list" where
  "rx Eps (b, s, cs) = [(b, s, cs)]"
| "rx (Cls P) (b, s, cs) = (case s of c # t \<Rightarrow> if P c then [(c # b, t, cs)] else [] | [] \<Rightarrow> [])"
| "rx (Seq r q) (b, s, cs) = concat (map (rx q) (rx r (b, s, cs)))"
| "rx (Alt r q) (b, s, cs) = rx r (b, s, cs) @ rx q (b, s, cs)"
| "rx (Star r) (b, s, cs) =
     concat (map (\<lambda>m. if length (fst (snd m)) < length s then rx (Star r) m else []) (rx r (b, s, cs))) @ [(b, s, cs)]"
| "rx (Grp n r) (b, s, cs) = map (\<lambda>(b', s', cs'). (b', s', (n, take (length s - length s') s) # cs')) (rx r (b, s, cs))"
| "rx Bol (b, s, cs) = (if b = [] then [(b, s, cs)] else [])"
| "rx Eol (b, s, cs) = (if s = [] then [(b, s, cs)] else [])"
| "rx WordB (b, s, cs) = (if word_at b \<noteq> word_at s then [(b, s, cs)] else [])"
  by pat_completeness auto
termination
  by (relation "measures [\<lambda>(r, m). size r, \<lambda>(r, m). length (fst (snd m))]") auto

text \<open>Literal text, \<^verbatim>\<open>r?\<close>, \<^verbatim>\<open>r+\<close>, \<^verbatim>\<open>\s*\<close> and the class of the characters of a number\<close>

definition ch :: "nat \<Rightarrow> regex" where
  "ch c = Cls (\<lambda>x. x = c)"

definition text_rx :: "jstring \<Rightarrow> regex" where
  "text_rx t = foldr (\<lambda>c r. Seq (ch c) r) t Eps"

definition opt_rx :: "regex \<Rightarrow> regex" where
  "opt_rx r = Alt r Eps"

definition plus_rx :: "regex \<Rightarrow> regex" where
  "plus_rx r = Seq r (Star r)"

definition ws_rx :: regex where
  "ws_rx = Star (Cls is_ws)"

text \<open>A sequence and a choice of several\<close>

definition seqs :: "regex list \<Rightarrow> regex" where
  "seqs rs = foldr Seq rs Eps"

fun alts :: "regex list \<Rightarrow> regex" where
  "alts [r] = r"
| "alts (r # rs) = Alt r (alts rs)"
| "alts [] = Cls (\<lambda>_. False)"

subsection \<open>Matching a text\<close>

text \<open>\<^verbatim>\<open>s.match(re)\<close> without \<^verbatim>\<open>g\<close>: the captures of the first position that matches, with the match itself under 0.\<close>

fun search_rx :: "regex \<Rightarrow> jstring \<Rightarrow> jstring \<Rightarrow> (jstring \<times> mstate) option" where
  "search_rx r b s =
     (case rx r (b, s, []) of
        m # _ \<Rightarrow> Some (s, m)
      | [] \<Rightarrow> (case s of [] \<Rightarrow> None | c # t \<Rightarrow> search_rx r (c # b) t))"

declare search_rx.simps [simp del]

definition match_rx :: "regex \<Rightarrow> jstring \<Rightarrow> captures option" where
  "match_rx r s = (case search_rx r [] s of Some (_, _, _, cs) \<Rightarrow> Some cs | None \<Rightarrow> None)"

text \<open>
  \<^verbatim>\<open>while ((m = re.exec(s)) !== null)\<close> with \<^verbatim>\<open>g\<close>: the captures of all matches, from left to right. (A match
  of nothing would repeat for ever; it ends the list here. The expressions used consume text.)
\<close>

lemma search_rx_length: "search_rx r b s = Some (t, m) \<Longrightarrow> length t \<le> length s"
proof (induction s arbitrary: b)
  case (Cons c s)
  then show ?case
    by (auto simp: search_rx.simps [of r b "c # s"] split: list.splits) force
qed (auto simp: search_rx.simps split: list.splits)

function all_rx :: "regex \<Rightarrow> jstring \<Rightarrow> jstring \<Rightarrow> captures list" where
  "all_rx r b s =
     (case search_rx r b s of
        None \<Rightarrow> []
      | Some (t, b', s', cs) \<Rightarrow> if length s' < length s then cs # all_rx r b' s' else [cs])"
  by pat_completeness auto
termination
  by (relation "measure (\<lambda>(r, b, s). length s)") auto

declare all_rx.simps [simp del]

text \<open>\<^verbatim>\<open>s.split(re)\<close> for an expression without captures that consumes text\<close>

function split_rx :: "regex \<Rightarrow> jstring \<Rightarrow> jstring \<Rightarrow> jstring list" where
  "split_rx r b s =
     (case search_rx r b s of
        None \<Rightarrow> [s]
      | Some (t, b', s', cs) \<Rightarrow>
          if length s' < length s then take (length s - length t) s # split_rx r b' s' else [s])"
  by pat_completeness auto
termination
  by (relation "measure (\<lambda>(r, b, s). length s)") auto

declare split_rx.simps [simp del]

subsection \<open>The first result\<close>

text \<open>\<open>goes r m m'\<close>: the matcher ends in \<open>m'\<close> if what follows accepts it.\<close>

definition goes :: "regex \<Rightarrow> mstate \<Rightarrow> mstate \<Rightarrow> bool" where
  "goes r m m' \<longleftrightarrow> (\<exists>ms. rx r m = m' # ms)"

lemma rx_Seq [simp]: "rx (Seq r q) m = concat (map (rx q) (rx r m))"
  by (cases m) simp

lemma rx_Seq_fun: "rx (Seq r q) = (\<lambda>m. concat (map (rx q) (rx r m)))"
  by (rule ext) simp

lemma rx_Alt [simp]: "rx (Alt r q) m = rx r m @ rx q m"
  by (cases m) simp

lemma rx_Eps [simp]: "rx Eps m = [m]"
  by (cases m) simp

lemma goes_Eps: "goes Eps m m"
  by (simp add: goes_def)

lemma goes_Seq: "goes r m m1 \<Longrightarrow> goes q m1 m2 \<Longrightarrow> goes (Seq r q) m m2"
  by (auto simp: goes_def)

lemma goes_Alt1: "goes r m m1 \<Longrightarrow> goes (Alt r q) m m1"
  by (auto simp: goes_def)

lemma goes_Alt2: "rx r m = [] \<Longrightarrow> goes q m m1 \<Longrightarrow> goes (Alt r q) m m1"
  by (auto simp: goes_def)

lemma goes_Cls: "P c \<Longrightarrow> goes (Cls P) (b, c # s, cs) (c # b, s, cs)"
  by (simp add: goes_def)

lemma goes_Grp: "goes r (b, t @ s, cs) (b', s, cs') \<Longrightarrow> goes (Grp n r) (b, t @ s, cs) (b', s, (n, t) # cs')"
  by (auto simp: goes_def)

lemma goes_Star_stop: "rx r m = [] \<Longrightarrow> goes (Star r) m m"
  by (cases m) (simp add: goes_def)

lemma goes_Star_step:
  "goes r (b, s, cs) (b', s', cs') \<Longrightarrow> length s' < length s \<Longrightarrow> goes (Star r) (b', s', cs') m \<Longrightarrow> goes (Star r) (b, s, cs) m"
  by (auto simp: goes_def)

lemma goes_text: "goes (text_rx t) (b, t @ s, cs) (rev t @ b, s, cs)"
proof (induction t arbitrary: b)
  case (Cons c t)
  show ?case
    using goes_Seq [OF goes_Cls [of "\<lambda>x. x = c"] Cons.IH] by (simp add: text_rx_def ch_def)
qed (simp add: text_rx_def goes_Eps)

text \<open>A run of characters of a class\<close>

lemma goes_run:
  assumes "\<forall>c \<in> set u. P c" "s = [] \<or> \<not> P (hd s)"
  shows "goes (Star (Cls P)) (b, u @ s, cs) (rev u @ b, s, cs)"
  using assms
proof (induction u arbitrary: b)
  case Nil
  then show ?case
    by (cases s) (auto intro!: goes_Star_stop)
next
  case (Cons c u)
  then have "goes (Star (Cls P)) (c # b, u @ s, cs) (rev u @ c # b, s, cs)"
    by simp
  then show ?case
    using Cons.prems by (auto intro!: goes_Star_step [OF goes_Cls])
qed

lemma goes_run1:
  assumes "u \<noteq> []" "\<forall>c \<in> set u. P c" "s = [] \<or> \<not> P (hd s)"
  shows "goes (plus_rx (Cls P)) (b, u @ s, cs) (rev u @ b, s, cs)"
proof -
  obtain c u' where u: "u = c # u'"
    using assms(1) by (cases u) auto
  show ?thesis
    using goes_Seq [OF goes_Cls goes_run, of P c u' P s b cs] assms u by (simp add: plus_rx_def)
qed

subsection \<open>No result\<close>

lemma rx_Cls_fail: "s = [] \<or> \<not> P (hd s) \<Longrightarrow> rx (Cls P) (b, s, cs) = []"
  by (cases s) auto

lemma rx_Seq_fail: "rx r m = [] \<Longrightarrow> rx (Seq r q) m = []"
  by simp

lemma rx_Seq_Cls: "rx (Seq (Cls P) q) (b, c # s, cs) = (if P c then rx q (c # b, s, cs) else [])"
  by simp

text \<open>White space followed by a character that is none: only one split of the text can match.\<close>

lemma rx_ws_then:
  assumes "\<And>c. P c \<Longrightarrow> \<not> is_ws c"
  shows "rx (Seq ws_rx (Seq (Cls P) q)) (b, s, cs) =
    (case dropWhile is_ws s of c # t \<Rightarrow> if P c then rx q (c # rev (takeWhile is_ws s) @ b, t, cs) else [] | [] \<Rightarrow> [])"
  unfolding ws_rx_def
proof (induction s arbitrary: b)
  case (Cons c s)
  show ?case
  proof (cases "is_ws c")
    case True
    then have "\<not> P c"
      using assms by blast
    have step: "rx (Star (Cls is_ws)) (b, c # s, cs) = rx (Star (Cls is_ws)) (c # b, s, cs) @ [(b, c # s, cs)]"
      using True by (subst rx.simps(5)) simp
    have runs: "takeWhile is_ws (c # s) = c # takeWhile is_ws s" "dropWhile is_ws (c # s) = dropWhile is_ws s"
      using True by simp_all
    show ?thesis
      using Cons.IH [of "c # b"] \<open>\<not> P c\<close> unfolding rx_Seq step runs rev.simps append_assoc append_Cons append_Nil
      by simp
  next
    case False
    then show ?thesis
      by simp
  qed
qed simp

lemma rx_space:
  assumes "s = [] \<or> \<not> is_ws (hd s)"
  shows "rx (Seq ws_rx r) (b, 32 # s, cs) = rx r (32 # b, s, cs) @ rx r (b, 32 # s, cs)"
proof -
  have 32: "is_ws 32"
    by (simp add: is_ws_def)
  have "rx (Cls is_ws) (32 # b, s, cs) = []"
    using assms by (rule rx_Cls_fail)
  then have "rx ws_rx (b, 32 # s, cs) = [(32 # b, s, cs), (b, 32 # s, cs)]"
    unfolding ws_rx_def using 32 by (subst rx.simps(5)) (simp add: rx.simps(5) [of _ "32 # b"] del: rx.simps(5))
  then show ?thesis
    by simp
qed

lemma search_rx_here: "goes r (b, s, []) m \<Longrightarrow> search_rx r b s = Some (s, m)"
  by (auto simp: goes_def search_rx.simps)

lemma search_rx_skip: "rx r (b, c # s, []) = [] \<Longrightarrow> search_rx r b (c # s) = search_rx r (c # b) s"
  by (simp add: search_rx.simps [of r b])

lemma search_rx_end: "rx r (b, [], []) = [] \<Longrightarrow> search_rx r b [] = None"
  by (simp add: search_rx.simps)

subsection \<open>Expressions that take a text\<close>

text \<open>\<open>takes r t s cs cs'\<close>: wherever it stands, before \<open>s\<close> the expression first takes \<open>t\<close>.\<close>

definition takes :: "regex \<Rightarrow> jstring \<Rightarrow> jstring \<Rightarrow> captures \<Rightarrow> captures \<Rightarrow> bool" where
  "takes r t s cs cs' \<longleftrightarrow> (\<forall>b. goes r (b, t @ s, cs) (rev t @ b, s, cs'))"

lemma takes_Eps: "takes Eps [] s cs cs"
  by (simp add: takes_def goes_Eps)

lemma takes_Seq: "takes r t (u @ s) cs cs1 \<Longrightarrow> takes q u s cs1 cs2 \<Longrightarrow> takes (Seq r q) (t @ u) s cs cs2"
  unfolding takes_def by (auto intro: goes_Seq)

lemma takes_seqs_Nil: "takes (seqs []) [] s cs cs"
  by (simp add: seqs_def takes_Eps)

lemma takes_seqs_Cons:
  "takes r t (u @ s) cs cs1 \<Longrightarrow> takes (seqs rs) u s cs1 cs2 \<Longrightarrow> takes (seqs (r # rs)) (t @ u) s cs cs2"
  by (simp add: seqs_def takes_Seq)

lemma concat_map_concat: "concat (map f (concat (map g xs))) = concat (map (\<lambda>x. concat (map f (g x))) xs)"
  by (induction xs) simp_all

lemma rx_seqs_append: "rx (seqs (ps @ qs)) m = concat (map (rx (seqs qs)) (rx (seqs ps) m))"
proof (induction ps arbitrary: m)
  case (Cons r ps)
  have "rx (seqs (ps @ qs)) = (\<lambda>m. concat (map (rx (seqs qs)) (rx (seqs ps) m)))"
    by (rule ext) (rule Cons.IH)
  then show ?case
    by (simp add: seqs_def concat_map_concat)
qed (simp add: seqs_def)

lemma takes_seqs_append:
  "takes (seqs rs) t (u @ s) cs cs1 \<Longrightarrow> takes (seqs qs) u s cs1 cs2 \<Longrightarrow> takes (seqs (rs @ qs)) (t @ u) s cs cs2"
  unfolding takes_def goes_def
proof
  fix b
  assume "\<forall>b. \<exists>ms. rx (seqs rs) (b, t @ u @ s, cs) = (rev t @ b, u @ s, cs1) # ms"
    and "\<forall>b. \<exists>ms. rx (seqs qs) (b, u @ s, cs1) = (rev u @ b, s, cs2) # ms"
  then obtain ms ns where "rx (seqs rs) (b, t @ u @ s, cs) = (rev t @ b, u @ s, cs1) # ms"
    "rx (seqs qs) (rev t @ b, u @ s, cs1) = (rev u @ rev t @ b, s, cs2) # ns"
    by blast
  then show "\<exists>ms. rx (seqs (rs @ qs)) (b, (t @ u) @ s, cs) = (rev (t @ u) @ b, s, cs2) # ms"
    by (simp add: rx_seqs_append)
qed

lemma takes_text: "takes (text_rx t) t s cs cs"
  by (simp add: takes_def goes_text)

lemma takes_ch: "takes (ch c) [c] s cs cs"
  by (simp add: takes_def ch_def goes_def)

lemma takes_run: "\<forall>c \<in> set u. P c \<Longrightarrow> s = [] \<or> \<not> P (hd s) \<Longrightarrow> takes (Star (Cls P)) u s cs cs"
  by (simp add: takes_def goes_run)

lemma takes_run1: "u \<noteq> [] \<Longrightarrow> \<forall>c \<in> set u. P c \<Longrightarrow> s = [] \<or> \<not> P (hd s) \<Longrightarrow> takes (plus_rx (Cls P)) u s cs cs"
  by (simp add: takes_def goes_run1)

lemma takes_ws: "s = [] \<or> \<not> is_ws (hd s) \<Longrightarrow> takes ws_rx [] s cs cs"
  using takes_run [of "[]" is_ws] by (simp add: ws_rx_def)

lemma takes_space: "s = [] \<or> \<not> is_ws (hd s) \<Longrightarrow> takes ws_rx [32] s cs cs"
  unfolding ws_rx_def by (rule takes_run) (simp_all add: is_ws_def)

lemma takes_Grp: "takes r t s cs cs' \<Longrightarrow> takes (Grp n r) t s cs ((n, t) # cs')"
  unfolding takes_def by (blast intro: goes_Grp)

lemma takes_opt: "takes r t s cs cs' \<Longrightarrow> takes (opt_rx r) t s cs cs'"
  unfolding takes_def opt_rx_def by (blast intro: goes_Alt1)

lemma takes_opt_none: "(\<And>b. rx r (b, s, cs) = []) \<Longrightarrow> takes (opt_rx r) [] s cs cs"
  unfolding takes_def opt_rx_def by (auto intro: goes_Alt2 goes_Eps)

lemma takes_Alt2: "(\<And>b. rx r (b, t @ s, cs) = []) \<Longrightarrow> takes q t s cs cs' \<Longrightarrow> takes (Alt r q) t s cs cs'"
  unfolding takes_def by (blast intro: goes_Alt2)

lemma takes_Star_stop: "(\<And>b. rx r (b, s, cs) = []) \<Longrightarrow> takes (Star r) [] s cs cs"
  by (simp add: takes_def goes_Star_stop)

lemma takes_Star_step:
  "takes r t (u @ s) cs cs1 \<Longrightarrow> t \<noteq> [] \<Longrightarrow> takes (Star r) u s cs1 cs2 \<Longrightarrow> takes (Star r) (t @ u) s cs cs2"
  unfolding takes_def by (auto intro: goes_Star_step)

subsection \<open>Expressions that need a first character\<close>

definition starts_in :: "(nat \<Rightarrow> bool) \<Rightarrow> regex \<Rightarrow> bool" where
  "starts_in P r \<longleftrightarrow> (\<forall>b s cs. s = [] \<or> \<not> P (hd s) \<longrightarrow> rx r (b, s, cs) = [])"

lemma starts_inD: "starts_in P r \<Longrightarrow> s = [] \<or> \<not> P (hd s) \<Longrightarrow> rx r (b, s, cs) = []"
  by (auto simp: starts_in_def)

lemma starts_in_Cls: "starts_in P (Cls P)"
  by (auto simp: starts_in_def split: list.split)

lemma starts_in_Seq: "starts_in P r \<Longrightarrow> starts_in P (Seq r q)"
  by (simp add: starts_in_def)

lemma starts_in_seqs: "starts_in P r \<Longrightarrow> starts_in P (seqs (r # rs))"
  by (simp add: seqs_def starts_in_Seq)

lemma starts_in_Grp: "starts_in P r \<Longrightarrow> starts_in P (Grp n r)"
  by (simp add: starts_in_def)

lemma starts_in_plus: "starts_in P r \<Longrightarrow> starts_in P (plus_rx r)"
  by (simp add: plus_rx_def starts_in_Seq)

lemma starts_in_Alt: "starts_in P r \<Longrightarrow> starts_in P q \<Longrightarrow> starts_in P (Alt r q)"
  by (simp add: starts_in_def)

lemma starts_in_opt_seqs: "starts_in P r \<Longrightarrow> starts_in P (seqs rs) \<Longrightarrow> starts_in P (seqs (opt_rx r # rs))"
  by (simp add: starts_in_def seqs_def opt_rx_def)

lemma starts_in_text: "P c \<Longrightarrow> starts_in P (text_rx (c # t))"
  unfolding starts_in_def text_rx_def ch_def by (auto simp: neq_Nil_conv)

lemma starts_in_mono: "starts_in P r \<Longrightarrow> (\<And>c. P c \<Longrightarrow> Q c) \<Longrightarrow> starts_in Q r"
  unfolding starts_in_def by blast

lemma ws_then_fail:
  assumes "starts_in P r" "\<And>c. P c \<Longrightarrow> \<not> is_ws c" "dropWhile is_ws s = [] \<or> \<not> P (hd (dropWhile is_ws s))"
  shows "rx (Seq ws_rx r) (b, s, cs) = []"
  unfolding ws_rx_def using assms(3)
proof (induction s arbitrary: b)
  case Nil
  then show ?case
    using starts_inD [OF assms(1)] by simp
next
  case (Cons c s)
  have here: "rx r (b, c # s, cs) = []"
  proof (rule starts_inD [OF assms(1)])
    show "c # s = [] \<or> \<not> P (hd (c # s))"
      using assms(2) [of c] Cons.prems by (cases "is_ws c") auto
  qed
  show ?case
  proof (cases "is_ws c")
    case True
    have step: "rx (Star (Cls is_ws)) (b, c # s, cs) = rx (Star (Cls is_ws)) (c # b, s, cs) @ [(b, c # s, cs)]"
      using True by (subst rx.simps(5)) simp
    show ?thesis
      using Cons.IH [of "c # b"] Cons.prems True here unfolding rx_Seq step by simp
  next
    case False
    then show ?thesis
      using here by simp
  qed
qed

lemma ws_seqs_fail:
  assumes "starts_in P (seqs rs)" "\<And>c. P c \<Longrightarrow> \<not> is_ws c" "dropWhile is_ws s = [] \<or> \<not> P (hd (dropWhile is_ws s))"
  shows "rx (seqs (ws_rx # rs)) (b, s, cs) = []"
  using ws_then_fail [OF assms] by (simp add: seqs_def)

text \<open>A name followed by white space and \<open>c\<close>, against another name\<close>

lemma name_fail:
  assumes names: "\<forall>x \<in> set v. is_word x" "\<forall>x \<in> set w. is_word x" "v \<noteq> w" and c: "\<not> is_word c" "\<not> is_ws c"
    and s: "s \<noteq> [] \<Longrightarrow> \<not> is_word (hd s)"
  shows "rx (Seq (text_rx v) (Seq ws_rx (Seq (ch c) q))) (b, w @ s, cs) = []"
  using names
proof (induction v arbitrary: w b)
  case Nil
  then obtain x w' where w: "w = x # w'" "is_word x"
    by (cases w) auto
  have "\<not> is_ws x"
    using w(2) by (auto simp: is_word_def is_ws_def is_digit_def)
  then have "dropWhile is_ws (w @ s) = w @ s" "hd (w @ s) \<noteq> c"
    using w c(1) by auto
  then have "rx (Seq ws_rx (Seq (ch c) q)) (b, w @ s, cs) = []"
    using c(2) by (intro ws_then_fail [where P = "\<lambda>x. x = c"]) (auto simp: ch_def intro: starts_in_Seq starts_in_Cls)
  then show ?case
    by (simp add: text_rx_def)
next
  case (Cons y v)
  show ?case
  proof (cases w)
    case Nil
    have "s = [] \<or> hd s \<noteq> y"
      using s Cons.prems(1) by auto
    then show ?thesis
      using Nil starts_inD [OF starts_in_text [of "\<lambda>x. x = y" y v]] by simp
  next
    case (Cons x w')
    then show ?thesis
      using Cons.IH [of w' "x # b"] Cons.prems by (simp add: text_rx_def ch_def)
  qed
qed

subsection \<open>Searching\<close>

text \<open>The end of a match is a suffix of its start.\<close>

lemma rx_suffix: "m' \<in> set (rx r m) \<Longrightarrow> \<exists>u. fst (snd m) = u @ fst (snd m')"
proof (induction r m arbitrary: m' rule: rx.induct)
  case (2 P b s cs)
  then show ?case
    by (auto split: list.splits if_splits)
next
  case (3 r q b s cs)
  then obtain m1 where m1: "m1 \<in> set (rx r (b, s, cs))" "m' \<in> set (rx q m1)"
    by auto
  then obtain u w where "s = u @ fst (snd m1)" "fst (snd m1) = w @ fst (snd m')"
    using 3(1) [OF m1(1)] 3(2) [of m1 m'] by fastforce
  then show ?case
    by simp
next
  case (5 r b s cs)
  then consider "m' = (b, s, cs)" | m1 where "m1 \<in> set (rx r (b, s, cs))" "length (fst (snd m1)) < length s" "m' \<in> set (rx (Star r) m1)"
    by (auto split: if_splits)
  then show ?case
  proof cases
    case 2
    then obtain u w where "s = u @ fst (snd m1)" "fst (snd m1) = w @ fst (snd m')"
      using 5(1) [of m1] 5(2) [of m1 m'] by fastforce
    then show ?thesis
      by simp
  qed simp
next
  case (6 n r b s cs)
  then show ?case
    by fastforce
qed (auto split: if_splits)

lemma rx_set: "m' \<in> set (rx r (b, s, cs)) \<Longrightarrow> \<exists>u b' s' cs'. m' = (b', s', cs') \<and> s = u @ s'"
  using rx_suffix [of m' r "(b, s, cs)"] by (cases m') auto

lemma rx_Seq_none:
  assumes "\<And>u b' s' cs'. s = u @ s' \<Longrightarrow> rx q (b', s', cs') = []"
  shows "rx (Seq r q) (b, s, cs) = []"
proof -
  have "rx q m = []" if m: "m \<in> set (rx r (b, s, cs))" for m
  proof -
    obtain u b' s' cs' where "m = (b', s', cs')" "s = u @ s'"
      using rx_set [OF m] by blast
    then show ?thesis
      using assms by simp
  qed
  then show ?thesis
    by simp
qed

text \<open>An expression without a result at any suffix is not found.\<close>

lemma search_rx_none:
  "(\<And>u b' s'. s = u @ s' \<Longrightarrow> rx r (b', s', []) = []) \<Longrightarrow> search_rx r b s = None"
proof (induction s arbitrary: b)
  case Nil
  then show ?case
    by (simp add: search_rx_end)
next
  case (Cons c s)
  have "search_rx r (c # b) s = None"
    by (rule Cons.IH) (metis Cons.prems append_Cons)
  moreover have "rx r (b, c # s, []) = []"
    using Cons.prems [of "[]" "c # s"] by simp
  ultimately show ?case
    by (simp add: search_rx_skip)
qed

lemma search_rx_Bol: "b \<noteq> [] \<Longrightarrow> search_rx (seqs (Bol # rs)) b s = None"
proof (induction s arbitrary: b)
  case Nil
  then show ?case
    by (simp add: search_rx_end seqs_def)
next
  case (Cons c s)
  then show ?case
    by (simp add: search_rx_skip seqs_def)
qed

lemma match_rx_Bol_none: "rx (seqs (Bol # rs)) ([], s, []) = [] \<Longrightarrow> match_rx (seqs (Bol # rs)) s = None"
  using search_rx_Bol [of _ rs] by (cases s) (simp_all add: match_rx_def search_rx_end search_rx_skip)

lemma match_rx_goes: "goes r ([], s, []) (b, s', cs) \<Longrightarrow> match_rx r s = Some cs"
  using search_rx_here [of r "[]" s "(b, s', cs)"] by (simp add: match_rx_def)

lemma match_rx_Bol:
  assumes "takes (seqs rs) s [] [] cs"
  shows "match_rx (seqs (Bol # rs)) s = Some cs"
proof (rule match_rx_goes)
  have "goes (seqs rs) ([], s @ [], []) (rev s @ [], [], cs)"
    using assms unfolding takes_def by blast
  then show "goes (seqs (Bol # rs)) ([], s, []) (rev s, [], cs)"
    by (simp add: goes_def seqs_def)
qed

text \<open>Skipping a text in which the expression never starts\<close>

lemma search_rx_after:
  assumes "\<And>c s b. c \<in> set u \<Longrightarrow> rx r (b, c # s, []) = []"
  shows "search_rx r b (u @ s) = search_rx r (rev u @ b) s"
  using assms by (induction u arbitrary: b) (simp_all add: search_rx_skip)

lemma search_rx_past:
  assumes "\<And>u1 u2 b. u = u1 @ u2 \<Longrightarrow> u2 \<noteq> [] \<Longrightarrow> rx r (b, u2 @ s, []) = []"
  shows "search_rx r b (u @ s) = search_rx r (rev u @ b) s"
  using assms
proof (induction u arbitrary: b)
  case (Cons c u)
  have "rx r (b, (c # u) @ s, []) = []"
    by (rule Cons.prems [of "[]"]) simp_all
  moreover have "search_rx r (c # b) (u @ s) = search_rx r (rev u @ c # b) s"
    by (rule Cons.IH) (metis Cons.prems append_Cons)
  ultimately show ?case
    by (simp add: search_rx_skip)
qed simp

text \<open>
  All matches of a text of parts with separators between them and a tail. \<open>B\<close> holds of the text before
  every part and \<open>S\<close> of the text after it.
\<close>

lemma all_rx_parts:
  assumes part: "\<And>t c b s. (t, c) \<in> set ps \<Longrightarrow> B b \<Longrightarrow> S s \<Longrightarrow> t \<noteq> [] \<and> goes r (b, t @ s, []) (rev t @ b, s, c)"
    and sepB: "\<And>b. B (rev sep @ b)" and sepS: "\<And>s. S (sep @ s)" and tailS: "S tail"
    and skip: "\<And>c s b. c \<in> set sep \<Longrightarrow> rx r (b, c # s, []) = []" and none: "\<And>b. search_rx r b tail = None"
    and b: "B b"
  shows "all_rx r b (join sep (map fst ps) @ tail) = map snd ps"
proof -
  have step: "all_rx r b (u @ t @ s) = c # all_rx r (rev t @ rev u @ b) s"
    if "set u \<subseteq> set sep" "t \<noteq> []" "goes r (rev u @ b, t @ s, []) (rev t @ rev u @ b, s, c)" for b u t s c
  proof -
    have "search_rx r b (u @ t @ s) = Some (t @ s, rev t @ rev u @ b, s, c)"
      using search_rx_after [of u r b "t @ s"] skip that(1) search_rx_here [OF that(3)] by auto
    then show ?thesis
      using that(2) by (subst all_rx.simps) simp
  qed
  have end_: "all_rx r b tail = []" for b
    using none by (simp add: all_rx.simps)
  have main: "all_rx r b (u @ join sep (map fst qs) @ tail) = map snd qs"
    if "qs \<noteq> []" "set qs \<subseteq> set ps" "B (rev u @ b)" "set u \<subseteq> set sep" for b u qs
    using that
  proof (induction qs arbitrary: b u)
    case (Cons p qs)
    obtain t c where p: "p = (t, c)"
      by (cases p)
    have pt: "t \<noteq> [] \<and> goes r (b, t @ s, []) (rev t @ b, s, c)" if "B b" "S s" for b s
      using part [of t c] Cons.prems(2) p that by auto
    show ?case
    proof (cases qs)
      case Nil
      then show ?thesis
        using step [of u t b tail c] pt [OF Cons.prems(3) tailS] Cons.prems(4) p end_ by simp
    next
      case (Cons q qs')
      have joined: "u @ join sep (map fst (p # qs)) @ tail = u @ t @ sep @ join sep (map fst qs) @ tail"
        by (simp add: Cons p)
      have "all_rx r (rev t @ rev u @ b) (sep @ join sep (map fst qs) @ tail) = map snd qs"
        using Cons.IH [of sep] Cons.prems Cons sepB by simp
      then show ?thesis
        unfolding joined using step [of u t b "sep @ join sep (map fst qs) @ tail" c] pt [OF Cons.prems(3) sepS] Cons.prems(4) p
        by simp
    qed
  qed simp
  show ?thesis
    using main [of ps "[]" b] end_ b by (cases "ps = []") simp_all
qed

end
