(* ===== verification/Tier_Expr.thy ===== *)
theory Tier_Expr
  imports Billing_Expr JS_Regex
begin

section \<open>Tiers of billing expressions (\<^verbatim>\<open>pricing/lib/tier-expr.ts\<close>, \<^verbatim>\<open>billing-expr.ts\<close>)\<close>

text \<open>
  A tiered price as the visual editor holds it, its text, and the two parsers: the one of the editor,
  which must read back what it wrote, and the one of the price pages. Regular expressions are matched by
  \<open>rx\<close>. The prices of a tier are an association list from the names of the fields to numbers; a missing
  field has no entry. How a finite number is printed is an argument.
\<close>

subsection \<open>Data\<close>

datatype cache_mode = Timed | Generic

record tier_condition =
  tc_var :: jstring
  tc_op :: jstring
  tc_value :: jsval

record visual_tier =
  vt_label :: jstring
  vt_conditions :: "tier_condition list"
  vt_cache_mode :: cache_mode
  vt_costs :: "(jstring \<times> jnum) list"

text \<open>\<^verbatim>\<open>Partial<VisualTier>\<close>\<close>

record partial_tier =
  pv_label :: "jstring option"
  pv_conditions :: "tier_condition list option"
  pv_cache_mode :: "cache_mode option"
  pv_costs :: "(jstring \<times> jnum) list"

type_synonym visual_config = "visual_tier list"

definition as_partial :: "visual_tier \<Rightarrow> partial_tier" where
  "as_partial t = \<lparr>pv_label = Some (vt_label t), pv_conditions = Some (vt_conditions t),
     pv_cache_mode = Some (vt_cache_mode t), pv_costs = vt_costs t\<rparr>"

text \<open>\<^verbatim>\<open>Number(x) || 0\<close> of a field\<close>

definition number_or_zero :: "jnum option \<Rightarrow> jnum" where
  "number_or_zero n = (case n of Some k \<Rightarrow> if num_truthy k then k else Fin 0 | None \<Rightarrow> Fin 0)"

definition cost :: "(jstring \<times> jnum) list \<Rightarrow> string \<Rightarrow> jnum" where
  "cost cs k = number_or_zero (map_of cs (lit k))"

definition extra_cost_fields :: "jstring list" where
  "extra_cost_fields = [lit ''cache_read_unit_cost'', lit ''cache_create_unit_cost'', lit ''cache_create_1h_unit_cost'',
     lit ''image_unit_cost'', lit ''image_output_unit_cost'', lit ''audio_input_unit_cost'', lit ''audio_output_unit_cost'']"

subsection \<open>Normal forms\<close>

definition getTierCacheMode :: "partial_tier \<Rightarrow> cache_mode" where
  "getTierCacheMode tier =
     (case pv_cache_mode tier of
        Some m \<Rightarrow> m
      | None \<Rightarrow>
          if num_less (Fin 0) (coalesce (map_of (pv_costs tier) (lit ''cache_create_1h_unit_cost'')) NaN) then Timed else Generic)"

definition normalizeVisualTier :: "partial_tier \<Rightarrow> visual_tier" where
  "normalizeVisualTier tier =
     \<lparr>vt_label = coalesce (pv_label tier) [],
      vt_conditions = coalesce (pv_conditions tier) [],
      vt_cache_mode = coalesce (pv_cache_mode tier) (getTierCacheMode tier),
      vt_costs =
        [(lit ''input_unit_cost'', coalesce (map_of (pv_costs tier) (lit ''input_unit_cost'')) (Fin 0)),
         (lit ''output_unit_cost'', coalesce (map_of (pv_costs tier) (lit ''output_unit_cost'')) (Fin 0))] @
        map (\<lambda>f. (f, number_or_zero (map_of (pv_costs tier) f))) extra_cost_fields\<rparr>"

definition empty_tier :: partial_tier where
  "empty_tier = \<lparr>pv_label = None, pv_conditions = None, pv_cache_mode = None, pv_costs = []\<rparr>"

definition createDefaultVisualConfig :: visual_config where
  "createDefaultVisualConfig =
     [normalizeVisualTier \<lparr>pv_label = Some (lit ''base''), pv_conditions = Some [], pv_cache_mode = Some Generic,
        pv_costs = [(lit ''input_unit_cost'', Fin 0), (lit ''output_unit_cost'', Fin 0)]\<rparr>]"

definition normalizeVisualConfig :: "visual_config option \<Rightarrow> visual_config" where
  "normalizeVisualConfig config =
     (case config of
        Some (t # ts) \<Rightarrow> map (\<lambda>tier. normalizeVisualTier (as_partial tier)) (t # ts)
      | _ \<Rightarrow> createDefaultVisualConfig)"

subsection \<open>The text of a configuration\<close>

definition condition_complete :: "tier_condition \<Rightarrow> bool" where
  "condition_complete c \<longleftrightarrow> tc_var c \<noteq> [] \<and> tc_op c \<noteq> [] \<and> \<not> is_nullish (tc_value c) \<and> tc_value c \<noteq> JStr []"

definition condition_text :: "(rat \<Rightarrow> jstring) \<Rightarrow> tier_condition \<Rightarrow> jstring" where
  "condition_text num c = tc_var c @ lit '' '' @ tc_op c @ lit '' '' @ js_string (num_string num) (tc_value c)"

definition buildConditionStr :: "(rat \<Rightarrow> jstring) \<Rightarrow> tier_condition list \<Rightarrow> jstring" where
  "buildConditionStr num conds =
     join (lit '' && '') (map (condition_text num) (filter condition_complete conds))"

definition price_part :: "(rat \<Rightarrow> jstring) \<Rightarrow> jstring \<Rightarrow> jnum \<Rightarrow> jstring" where
  "price_part num v n = v @ lit '' * '' @ num_string num n"

definition buildTierBodyExpr :: "(rat \<Rightarrow> jstring) \<Rightarrow> visual_tier \<Rightarrow> jstring" where
  "buildTierBodyExpr num tier =
     join (lit '' + '')
       ([price_part num (lit ''p'') (cost (vt_costs tier) ''input_unit_cost''),
         price_part num (lit ''c'') (cost (vt_costs tier) ''output_unit_cost'')] @
        concat (map (\<lambda>(field, v).
          let n = number_or_zero (map_of (vt_costs tier) field) in if num_truthy n then [price_part num v n] else [])
          BILLING_CACHE_VAR_MAP))"

definition tier_text :: "(rat \<Rightarrow> jstring) \<Rightarrow> jstring \<Rightarrow> visual_tier \<Rightarrow> jstring" where
  "tier_text num label tier = lit ''tier('' @ 34 # label @ 34 # lit '', '' @ buildTierBodyExpr num tier @ lit '')''"

text \<open>The parts of a configuration of several tiers; \<open>i\<close> counts the tiers from 1.\<close>

fun tier_parts :: "(rat \<Rightarrow> jstring) \<Rightarrow> nat \<Rightarrow> visual_tier list \<Rightarrow> jstring list" where
  "tier_parts num i [] = []"
| "tier_parts num i (tier # tiers) =
     (let body = tier_text num (or_str (vt_label tier) (lit ''tier_'' @ show_nat i)) tier;
          cond = buildConditionStr num (vt_conditions tier)
      in (if tiers \<noteq> [] \<and> cond \<noteq> [] then cond @ lit '' ? '' @ body else body) # tier_parts num (Suc i) tiers)"

definition generateExprFromVisualConfig :: "(rat \<Rightarrow> jstring) \<Rightarrow> visual_config option \<Rightarrow> jstring" where
  "generateExprFromVisualConfig num config =
     (case config of
        None \<Rightarrow> lit ''p * 0 + c * 0''
      | Some [] \<Rightarrow> lit ''p * 0 + c * 0''
      | Some [tier] \<Rightarrow>
          (let body = tier_text num (or_str (vt_label tier) (lit ''default'')) tier;
               cond = buildConditionStr num (vt_conditions tier)
           in if cond \<noteq> [] then cond @ lit '' ? '' @ body @ lit '' : p * 0 + c * 0'' else body)
      | Some tiers \<Rightarrow> join (lit '' : '') (tier_parts num 1 tiers))"

subsection \<open>Expressions\<close>

text \<open>The character class \<^verbatim>\<open>[\d.eE+]\<close>\<close>

definition bound_char :: "nat \<Rightarrow> bool" where
  "bound_char c \<longleftrightarrow> is_digit c \<or> c = 46 \<or> c = 101 \<or> c = 69 \<or> c = 43"

definition cond_var_rx :: regex where
  "cond_var_rx = alts [text_rx (lit ''p''), text_rx (lit ''c''), text_rx (lit ''len'')]"

definition cond_op_rx :: regex where
  "cond_op_rx = alts [text_rx (lit ''<''), text_rx (lit ''<=''), text_rx (lit ''>''), text_rx (lit ''>='')]"

definition bound_rx :: regex where
  "bound_rx = plus_rx (Cls bound_char)"

definition cond_rx :: regex where
  "cond_rx = seqs [cond_var_rx, ws_rx, cond_op_rx, ws_rx, bound_rx]"

definition condGroup :: regex where
  "condGroup = Grp 1 (Seq cond_rx (Star (seqs [ws_rx, text_rx (lit ''&&''), ws_rx, cond_rx])))"

definition tier_head_rx :: "nat \<Rightarrow> regex" where
  "tier_head_rx n = seqs [text_rx (lit ''tier('' @ [34]), Grp n (Star (Cls (\<lambda>c. c \<noteq> 34))), text_rx (34 # lit '',''), ws_rx]"

definition opt_cond_rx :: regex where
  "opt_cond_rx = opt_rx (seqs [condGroup, ws_rx, text_rx (lit ''?''), ws_rx])"

definition price_rx :: "jstring \<Rightarrow> nat \<Rightarrow> regex" where
  "price_rx v n = seqs [text_rx v, ws_rx, ch 42, ws_rx, Grp n (plus_rx (Cls num_char))]"

definition plus_sign_rx :: regex where
  "plus_sign_rx = seqs [ws_rx, ch 43, ws_rx]"

text \<open>\<^verbatim>\<open>bodyPat\<close>; its captures are numbered from \<open>n\<close>.\<close>

definition optCacheStr :: "nat \<Rightarrow> regex list" where
  "optCacheStr n = map (\<lambda>(i, (f, v)). opt_rx (Seq plus_sign_rx (price_rx v (n + i)))) (List.enumerate 0 BILLING_CACHE_VAR_MAP)"

definition bodyPat :: "nat \<Rightarrow> regex" where
  "bodyPat n = seqs ([price_rx (lit ''p'') n, plus_sign_rx, price_rx (lit ''c'') (n + 1)] @ optCacheStr (n + 2))"

definition singleRe :: regex where
  "singleRe = seqs [Bol, tier_head_rx 1, bodyPat 2, text_rx (lit '')''), Eol]"

definition visualTierRe :: regex where
  "visualTierRe = seqs [opt_cond_rx, tier_head_rx 2, bodyPat 3, text_rx (lit '')'')]"

definition tierRe :: regex where
  "tierRe = seqs [opt_cond_rx, tier_head_rx 2, Grp 3 (plus_rx (Cls (\<lambda>c. c \<noteq> 41))), text_rx (lit '')'')]"

definition and_rx :: regex where
  "and_rx = seqs [ws_rx, text_rx (lit ''&&''), ws_rx]"

definition condRe :: regex where
  "condRe = seqs [Bol, Grp 1 cond_var_rx, ws_rx, Grp 2 cond_op_rx, ws_rx, Grp 3 bound_rx, Eol]"

definition BILLING_VAR_REGEX :: regex where
  "BILLING_VAR_REGEX = seqs [WordB, Grp 1 (alts (map (\<lambda>v. text_rx (bv_key v)) BILLING_PRICING_VARS)), ws_rx, ch 42, ws_rx,
     Grp 2 (plus_rx (Cls num_char))]"

subsection \<open>The parsers\<close>

definition cap :: "captures \<Rightarrow> nat \<Rightarrow> jstring" where
  "cap cs n = coalesce (map_of cs n) []"

definition parse_condition :: "jstring \<Rightarrow> (jstring \<times> jstring \<times> jnum) option" where
  "parse_condition cp = map_option (\<lambda>cm. (cap cm 1, cap cm 2, string_num (cap cm 3))) (match_rx condRe (trim cp))"

definition parse_conditions :: "jstring \<Rightarrow> (jstring \<times> jstring \<times> jnum) list" where
  "parse_conditions condStr = (if condStr = [] then [] else List.map_filter parse_condition (split_rx and_rx [] condStr))"

definition visual_condition :: "jstring \<times> jstring \<times> jnum \<Rightarrow> tier_condition" where
  "visual_condition c = \<lparr>tc_var = fst c, tc_op = fst (snd c), tc_value = JNum (snd (snd c))\<rparr>"

text \<open>The tier of a match; its price captures are numbered from \<open>n\<close>.\<close>

definition matched_tier :: "captures \<Rightarrow> nat \<Rightarrow> jstring \<Rightarrow> tier_condition list \<Rightarrow> visual_tier" where
  "matched_tier cs n label conds =
     normalizeVisualTier
       \<lparr>pv_label = Some label, pv_conditions = Some conds, pv_cache_mode = None,
        pv_costs =
          [(lit ''input_unit_cost'', string_num (cap cs n)), (lit ''output_unit_cost'', string_num (cap cs (n + 1)))] @
          List.map_filter (\<lambda>(i, (field, v)). map_option (\<lambda>t. (field, string_num t)) (map_of cs (n + 2 + i)))
            (List.enumerate 0 BILLING_CACHE_VAR_MAP)\<rparr>"

definition without_ws :: "jstring \<Rightarrow> jstring" where
  "without_ws s = filter (\<lambda>c. \<not> is_ws c) s"

definition tryParseVisualConfig :: "(rat \<Rightarrow> jstring) \<Rightarrow> jstring option \<Rightarrow> visual_config option" where
  "tryParseVisualConfig num exprStr =
     (let body = snd (stripExprVersion (coalesce exprStr [])) in
      if coalesce exprStr [] = [] then None
      else
        case match_rx singleRe body of
          Some simple \<Rightarrow> Some (normalizeVisualConfig (Some [matched_tier simple 2 (cap simple 1) []]))
        | None \<Rightarrow>
            let tiers = map (\<lambda>m. matched_tier m 3 (cap m 2) (map visual_condition (parse_conditions (cap m 1)))) (all_rx visualTierRe [] body);
                cfg = normalizeVisualConfig (Some tiers)
            in if tiers = [] then None
               else if without_ws (generateExprFromVisualConfig num (Some cfg)) \<noteq> without_ws body then None
               else Some cfg)"

subsection \<open>The parser of the price pages\<close>

record parsed_tier =
  pt_label :: jstring
  pt_conditions :: "(jstring \<times> jstring \<times> jnum) list"
  pt_prices :: "(jstring \<times> jnum) list"

definition parseTierBody :: "jstring \<Rightarrow> (jstring \<times> jnum) list" where
  "parseTierBody bodyStr =
     (let coeffs = fold (\<lambda>m cs. if map_of cs (cap m 1) = None then cs @ [(cap m 1, string_num (cap m 2))] else cs)
            (all_rx BILLING_VAR_REGEX [] bodyStr) []
      in map (\<lambda>(varName, field). (field, number_or_zero (map_of coeffs varName))) BILLING_VAR_KEY_TO_FIELD)"

definition parseTiersFromExpr :: "jstring \<Rightarrow> parsed_tier list" where
  "parseTiersFromExpr exprStr =
     (if exprStr = [] then []
      else map (\<lambda>m. \<lparr>pt_label = cap m 2, pt_conditions = parse_conditions (cap m 1), pt_prices = parseTierBody (cap m 3)\<rparr>)
        (all_rx tierRe [] (snd (stripExprVersion exprStr))))"

definition ESTIMATOR_VARS :: "(jstring \<times> jstring) list" where
  "ESTIMATOR_VARS = [(lit ''cr'', lit ''cacheReadTokens''), (lit ''cc'', lit ''cacheCreateTokens''),
     (lit ''cc1h'', lit ''cacheCreate1hTokens''), (lit ''img'', lit ''imageTokens''), (lit ''img_o'', lit ''imageOutputTokens''),
     (lit ''ai'', lit ''audioInputTokens''), (lit ''ao'', lit ''audioOutputTokens'')]"

definition exprUsesExtraVars :: "jstring \<Rightarrow> bool" where
  "exprUsesExtraVars exprStr \<longleftrightarrow>
     exprStr \<noteq> [] \<and> match_rx (seqs [WordB, Grp 1 (alts (map (\<lambda>f. text_rx (fst f)) ESTIMATOR_VARS)), WordB]) exprStr \<noteq> None"

end
