(* ===== verification/Tier_Matches.thy ===== *)
theory Tier_Matches
  imports Tier_Expr
begin

section \<open>The matches of the text of tiers\<close>

text \<open>
  A configuration that the visual editor can hold is read back from its text by both parsers. The proofs
  follow the text piece by piece (\<open>takes\<close>): every piece of the regular expression first takes the piece
  of the text that was written for it.
\<close>

subsection \<open>Numbers\<close>

text \<open>A number whose text has the characters of a number and is read as the number\<close>

definition tier_prints :: "(rat \<Rightarrow> jstring) \<Rightarrow> rat \<Rightarrow> bool" where
  "tier_prints num q \<longleftrightarrow> num q \<noteq> [] \<and> list_all num_char (num q) \<and> string_num (num q) = Fin q"

lemma num_char_not_ws: "num_char c \<Longrightarrow> \<not> is_ws c"
  by (auto simp: num_char_def is_ws_def is_digit_def)

lemma bound_char_not_ws: "bound_char c \<Longrightarrow> \<not> is_ws c"
  by (auto simp: bound_char_def is_ws_def is_digit_def)

lemma hd_not_ws: "N \<noteq> [] \<Longrightarrow> \<forall>c \<in> set N. P c \<Longrightarrow> (\<And>c. P c \<Longrightarrow> \<not> is_ws c) \<Longrightarrow> N @ s = [] \<or> \<not> is_ws (hd (N @ s))"
  by (cases N) auto

subsection \<open>Prices\<close>

lemma star_text: "lit '' * '' = [32, 42, 32]" and plus_text: "lit '' + '' = [32, 43, 32]"
  by (simp_all add: lit_def)

lemma takes_price:
  assumes "N \<noteq> []" "\<forall>c \<in> set N. num_char c" "s = [] \<or> \<not> num_char (hd s)"
  shows "takes (price_rx v n) (v @ lit '' * '' @ N) s cs ((n, N) # cs)"
proof -
  have "takes (price_rx v n) (v @ [32] @ [42] @ [32] @ N @ []) s cs ((n, N) # cs)"
    unfolding price_rx_def
    by (rule takes_seqs_Cons [OF takes_text], rule takes_seqs_Cons [OF takes_space], simp add: is_ws_def,
        rule takes_seqs_Cons [OF takes_ch], rule takes_seqs_Cons [OF takes_space],
        use hd_not_ws [OF assms(1, 2) num_char_not_ws] in simp,
        rule takes_seqs_Cons [OF takes_Grp [OF takes_run1] takes_seqs_Nil], use assms in simp_all)
  then show ?thesis
    by (simp add: star_text)
qed

lemma takes_plus_sign:
  assumes "s \<noteq> []" "\<not> is_ws (hd s)"
  shows "takes plus_sign_rx (lit '' + '') s cs cs"
proof -
  have "takes plus_sign_rx ([32] @ [43] @ [32] @ []) s cs cs"
    unfolding plus_sign_rx_def
    by (rule takes_seqs_Cons [OF takes_space], simp add: is_ws_def, rule takes_seqs_Cons [OF takes_ch],
        rule takes_seqs_Cons [OF takes_space takes_seqs_Nil], use assms in simp)
  then show ?thesis
    by (simp add: plus_text)
qed

text \<open>The optional prices: those whose variable is not in the text take nothing.\<close>

definition opt_price :: "nat \<times> jstring \<times> jstring \<Rightarrow> nat \<Rightarrow> regex" where
  "opt_price e n = opt_rx (Seq plus_sign_rx (price_rx (snd (snd e)) (n + fst e)))"

definition extra_text :: "(rat \<Rightarrow> jstring) \<Rightarrow> (jstring \<Rightarrow> jnum) \<Rightarrow> jstring \<times> jstring \<Rightarrow> jstring" where
  "extra_text num f e = (if num_truthy (f (fst e)) then lit '' + '' @ price_part num (snd e) (f (fst e)) else [])"

definition extra_caps :: "(rat \<Rightarrow> jstring) \<Rightarrow> (jstring \<Rightarrow> jnum) \<Rightarrow> nat \<Rightarrow> nat \<times> jstring \<times> jstring \<Rightarrow> captures" where
  "extra_caps num f n e =
     (if num_truthy (f (fst (snd e))) then [(n + fst e, num_string num (f (fst (snd e))))] else [])"

definition name_ok :: "jstring \<Rightarrow> bool" where
  "name_ok v \<longleftrightarrow> v \<noteq> [] \<and> (\<forall>c \<in> set v. is_word c)"

lemma word_not_ws: "is_word c \<Longrightarrow> \<not> is_ws c"
  by (auto simp: is_word_def is_ws_def is_digit_def)

lemma plus_sign_assoc: "rx (Seq plus_sign_rx r) m = rx (Seq ws_rx (Seq (ch 43) (Seq ws_rx r))) m"
  by (simp add: plus_sign_rx_def seqs_def concat_map_concat rx_Seq_fun)

text \<open>A price of another variable, or the closing parenthesis, is not taken.\<close>

lemma opt_price_fail:
  assumes "name_ok v"
    and "hd s = 41 \<and> s \<noteq> [] \<or> (\<exists>w t. s = lit '' + '' @ w @ lit '' * '' @ t \<and> name_ok w \<and> w \<noteq> v)"
  shows "rx (Seq plus_sign_rx (price_rx v n)) (b, s, cs) = []"
  using assms(2)
proof
  assume s: "hd s = 41 \<and> s \<noteq> []"
  then have "dropWhile is_ws s = s"
    by (cases s) (auto simp: is_ws_def)
  then show ?thesis
    unfolding plus_sign_assoc using s
    by (intro ws_then_fail [where P = "\<lambda>x. x = 43"]) (auto simp: ch_def is_ws_def intro: starts_in_Seq starts_in_Cls)
next
  assume "\<exists>w t. s = lit '' + '' @ w @ lit '' * '' @ t \<and> name_ok w \<and> w \<noteq> v"
  then obtain w t where s: "s = lit '' + '' @ w @ lit '' * '' @ t \<and> name_ok w \<and> w \<noteq> v"
    by blast
  then obtain x w' where w: "w = x # w'" "is_word x"
    by (cases w) (auto simp: name_ok_def)
  have word: "\<forall>c \<in> set v. is_word c" "\<forall>c \<in> set w. is_word c" "v \<noteq> w"
    using assms(1) s by (auto simp: name_ok_def)
  have price: "price_rx v n = Seq (text_rx v) (Seq ws_rx (Seq (ch 42) (seqs [ws_rx, Grp n (plus_rx (Cls num_char))])))"
    by (simp add: price_rx_def seqs_def)
  have name: "rx (price_rx v n) (b, w @ lit '' * '' @ t, cs) = []" for b
    unfolding price using word by (intro name_fail) (auto simp: is_word_def is_digit_def is_ws_def star_text)
  obtain y v' where v: "v = y # v'" "is_word y"
    using assms(1) by (cases v) (auto simp: name_ok_def)
  have "starts_in is_word (text_rx v)"
    unfolding v(1) using v(2) by (rule starts_in_text)
  then have blank: "rx (price_rx v n) (b, 32 # u, cs) = []" for b u
    unfolding price by (intro starts_inD [where P = is_word] starts_in_Seq) (auto simp: is_word_def is_digit_def)
  have "rx (Seq ws_rx (price_rx v n)) (b, 32 # w @ lit '' * '' @ t, cs) = []" for b
    using rx_space [of "w @ lit '' * '' @ t" "price_rx v n" b cs] w word_not_ws name blank by simp
  then show ?thesis
    unfolding plus_sign_assoc using s rx_ws_then [where P = "\<lambda>x. x = 43"]
    by (simp add: plus_text ch_def is_ws_def del: rx_Seq rx.simps(3))
qed

text \<open>The texts of the prices of a tier\<close>

definition price_ok :: "(rat \<Rightarrow> jstring) \<Rightarrow> jnum \<Rightarrow> bool" where
  "price_ok num n \<longleftrightarrow> (case n of Fin q \<Rightarrow> tier_prints num q | _ \<Rightarrow> False)"

lemma price_ok_text:
  assumes "price_ok num n"
  shows "num_string num n \<noteq> []" "\<forall>c \<in> set (num_string num n). num_char c" "string_num (num_string num n) = n"
  using assms by (auto simp: price_ok_def tier_prints_def num_string_def list_all_iff split: jnum.splits)

lemma takes_extras:
  assumes "\<forall>e \<in> set es. name_ok (snd (snd e)) \<and> price_ok num (f (fst (snd e)))" "distinct (map (\<lambda>e. snd (snd e)) es)"
    "s \<noteq> []" "hd s = 41"
  shows "takes (seqs (map (\<lambda>e. opt_price e n) es)) (concat (map (\<lambda>e. extra_text num f (snd e)) es)) s cs
    (concat (map (extra_caps num f n) (rev es)) @ cs)"
  using assms(1, 2)
proof (induction es arbitrary: cs)
  case Nil
  then show ?case
    by (simp add: takes_seqs_Nil)
next
  case (Cons e es)
  note prems = Cons.prems
  let ?rest = "concat (map (\<lambda>e. extra_text num f (snd e)) es) @ s"
  obtain i k v where e: "e = (i, k, v)"
    by (cases e) auto
  have v: "name_ok v" "price_ok num (f k)"
    using Cons.prems(1) e by auto
  have rest: "hd ?rest = 41 \<and> ?rest \<noteq> [] \<or> (\<exists>w t. ?rest = lit '' + '' @ w @ lit '' * '' @ t \<and> name_ok w \<and> w \<noteq> v)"
  proof -
    have "hd (concat (map (\<lambda>e. extra_text num f (snd e)) ds) @ s) = 41 \<and> concat (map (\<lambda>e. extra_text num f (snd e)) ds) @ s \<noteq> [] \<or>
        (\<exists>w t. concat (map (\<lambda>e. extra_text num f (snd e)) ds) @ s = lit '' + '' @ w @ lit '' * '' @ t \<and> name_ok w \<and> w \<noteq> v)"
      if "set ds \<subseteq> set es" for ds
      using that
    proof (induction ds)
      case Nil
      then show ?case
        using assms(3, 4) by simp
    next
      case (Cons d ds)
      show ?case
      proof (cases "num_truthy (f (fst (snd d)))")
        case True
        have "name_ok (snd (snd d))" "snd (snd d) \<noteq> v"
          using Cons.prems prems e by auto
        with True show ?thesis
          by (auto simp: extra_text_def price_part_def)
      next
        case False
        then show ?thesis
          using Cons by (simp add: extra_text_def)
      qed
    qed
    then show ?thesis
      by blast
  qed
  have IH: "takes (seqs (map (\<lambda>e. opt_price e n) es)) (concat (map (\<lambda>e. extra_text num f (snd e)) es)) s cs1
      (concat (map (extra_caps num f n) (rev es)) @ cs1)" for cs1
    using prems by (intro Cons.IH) auto
  show ?case
  proof (cases "num_truthy (f k)")
    case True
    let ?N = "num_string num (f k)"
    note N = price_ok_text [OF v(2)]
    have hd: "?rest = [] \<or> \<not> num_char (hd ?rest)"
      using rest by (auto simp: num_char_def is_digit_def plus_text)
    have "\<not> is_ws (hd v)"
      using v(1) word_not_ws by (cases v) (auto simp: name_ok_def)
    then have "takes (opt_price e n) (lit '' + '' @ v @ lit '' * '' @ ?N) ?rest cs ((n + i, ?N) # cs)"
      unfolding opt_price_def e
      using takes_opt [OF takes_Seq [OF takes_plus_sign takes_price [OF N(1, 2) hd, of v "n + i" cs]]] v(1)
      by (simp add: name_ok_def)
    moreover have "extra_text num f (snd e) = lit '' + '' @ v @ lit '' * '' @ ?N" "extra_caps num f n e = [(n + i, ?N)]"
      using True by (simp_all add: e extra_text_def extra_caps_def price_part_def)
    ultimately show ?thesis
      using takes_seqs_Cons [of "opt_price e n" "lit '' + '' @ v @ lit '' * '' @ ?N" _ s cs, OF _ IH] by simp
  next
    case False
    have "takes (opt_price e n) [] ?rest cs cs"
      unfolding opt_price_def e snd_conv fst_conv
      by (rule takes_opt_none, rule opt_price_fail [OF v(1) rest])
    moreover have "extra_text num f (snd e) = []" "extra_caps num f n e = []"
      using False by (simp_all add: e extra_text_def extra_caps_def)
    ultimately show ?thesis
      using takes_seqs_Cons [of "opt_price e n" "[]" _ s cs, OF _ IH] by simp
  qed
qed

lemma join_plus: "join sep (x # xs) = x @ concat (map (\<lambda>y. sep @ y) xs)"
  by (induction xs arbitrary: x) simp_all

text \<open>The prices of a tier and their text\<close>

definition tier_price :: "visual_tier \<Rightarrow> jstring \<Rightarrow> jnum" where
  "tier_price t k = number_or_zero (map_of (vt_costs t) k)"

definition price_fields :: "jstring list" where
  "price_fields = lit ''input_unit_cost'' # lit ''output_unit_cost'' # map fst BILLING_CACHE_VAR_MAP"

definition tier_prices_ok :: "(rat \<Rightarrow> jstring) \<Rightarrow> visual_tier \<Rightarrow> bool" where
  "tier_prices_ok num t \<longleftrightarrow> list_all (\<lambda>k. price_ok num (tier_price t k)) price_fields"

lemma cache_vars: "BILLING_CACHE_VAR_MAP =
   [(lit ''cache_read_unit_cost'', lit ''cr''), (lit ''cache_create_unit_cost'', lit ''cc''),
    (lit ''cache_create_1h_unit_cost'', lit ''cc1h''), (lit ''image_unit_cost'', lit ''img''),
    (lit ''image_output_unit_cost'', lit ''img_o''), (lit ''audio_input_unit_cost'', lit ''ai''),
    (lit ''audio_output_unit_cost'', lit ''ao'')]"
  by (simp add: BILLING_CACHE_VAR_MAP_def BILLING_EXTRA_VARS_def BILLING_VARS_def coalesce_def)

lemma body_text:
  "buildTierBodyExpr num t =
     price_part num (lit ''p'') (tier_price t (lit ''input_unit_cost'')) @ lit '' + '' @
     price_part num (lit ''c'') (tier_price t (lit ''output_unit_cost'')) @
     concat (map (extra_text num (tier_price t)) BILLING_CACHE_VAR_MAP)"
proof -
  have "concat (map (\<lambda>y. lit '' + '' @ y) (concat (map (\<lambda>(field, v).
      let n = number_or_zero (map_of (vt_costs t) field) in if num_truthy n then [price_part num v n] else []) es))) =
    concat (map (extra_text num (tier_price t)) es)" for es
    by (induction es) (auto simp: Let_def extra_text_def tier_price_def)
  then show ?thesis
    by (simp add: buildTierBodyExpr_def join_plus cost_def tier_price_def del: join.simps)
qed

definition extra_entries :: "(nat \<times> jstring \<times> jstring) list" where
  "extra_entries = List.enumerate 0 BILLING_CACHE_VAR_MAP"

lemma extra_entries: "extra_entries =
   [(0, lit ''cache_read_unit_cost'', lit ''cr''), (1, lit ''cache_create_unit_cost'', lit ''cc''),
    (2, lit ''cache_create_1h_unit_cost'', lit ''cc1h''), (3, lit ''image_unit_cost'', lit ''img''),
    (4, lit ''image_output_unit_cost'', lit ''img_o''), (5, lit ''audio_input_unit_cost'', lit ''ai''),
    (6, lit ''audio_output_unit_cost'', lit ''ao'')]"
  by (simp add: extra_entries_def cache_vars)

text \<open>The captures of the prices, the last one first\<close>

definition body_caps :: "(rat \<Rightarrow> jstring) \<Rightarrow> visual_tier \<Rightarrow> nat \<Rightarrow> captures" where
  "body_caps num t n =
     concat (map (extra_caps num (tier_price t) (n + 2)) (rev extra_entries)) @
     [(n + 1, num_string num (tier_price t (lit ''output_unit_cost''))), (n, num_string num (tier_price t (lit ''input_unit_cost'')))]"

lemma extras_hd:
  assumes "s \<noteq> []" "hd s = 41"
  shows "concat (map (\<lambda>e. extra_text num f (snd e)) ds) @ s \<noteq> []"
    "hd (concat (map (\<lambda>e. extra_text num f (snd e)) ds) @ s) \<in> {32, 41}"
proof -
  have "concat (map (\<lambda>e. extra_text num f (snd e)) ds) @ s \<noteq> [] \<and>
      hd (concat (map (\<lambda>e. extra_text num f (snd e)) ds) @ s) \<in> {32, 41}"
    using assms by (induction ds) (simp_all add: extra_text_def plus_text)
  then show "concat (map (\<lambda>e. extra_text num f (snd e)) ds) @ s \<noteq> []"
    "hd (concat (map (\<lambda>e. extra_text num f (snd e)) ds) @ s) \<in> {32, 41}"
    by blast+
qed

lemma takes_bodyPat:
  assumes "tier_prices_ok num t" "s \<noteq> []" "hd s = 41"
  shows "takes (bodyPat n) (buildTierBodyExpr num t) s cs (body_caps num t n @ cs)"
proof -
  let ?f = "tier_price t"
  let ?P = "num_string num (?f (lit ''input_unit_cost''))"
  let ?C = "num_string num (?f (lit ''output_unit_cost''))"
  let ?E = "concat (map (\<lambda>e. extra_text num ?f (snd e)) extra_entries)"
  let ?opts = "map (\<lambda>e. opt_price e (n + 2)) extra_entries"
  have ok: "price_ok num (?f (lit ''input_unit_cost''))" "price_ok num (?f (lit ''output_unit_cost''))"
    "\<forall>e \<in> set extra_entries. name_ok (snd (snd e)) \<and> price_ok num (?f (fst (snd e)))"
    using assms(1) by (auto simp: tier_prices_ok_def price_fields_def cache_vars extra_entries name_ok_def is_word_def is_digit_def lit_def)
  have dist: "distinct (map (\<lambda>e. snd (snd e)) extra_entries)"
    by (simp add: extra_entries)
  have E: "?E @ s \<noteq> []" "hd (?E @ s) \<in> {32, 41}"
    by (rule extras_hd [OF assms(2, 3)])+
  have c: "takes (seqs (price_rx (lit ''c'') (n + 1) # ?opts)) ((lit ''c'' @ lit '' * '' @ ?C) @ ?E) s cs1
      (concat (map (extra_caps num ?f (n + 2)) (rev extra_entries)) @ (n + 1, ?C) # cs1)" for cs1
    by (rule takes_seqs_Cons [OF takes_price takes_extras])
      (use ok dist E assms price_ok_text [OF ok(2)] in \<open>auto simp: num_char_def is_digit_def\<close>)
  have p: "takes (seqs (price_rx (lit ''p'') n # plus_sign_rx # price_rx (lit ''c'') (n + 1) # ?opts))
      ((lit ''p'' @ lit '' * '' @ ?P) @ lit '' + '' @ (lit ''c'' @ lit '' * '' @ ?C) @ ?E) s cs
      (concat (map (extra_caps num ?f (n + 2)) (rev extra_entries)) @ (n + 1, ?C) # (n, ?P) # cs)"
    by (rule takes_seqs_Cons [OF takes_price takes_seqs_Cons [OF takes_plus_sign c]])
      (use price_ok_text [OF ok(1)] in \<open>auto simp: num_char_def is_digit_def plus_text lit_def is_ws_def\<close>)
  have opts: "optCacheStr (n + 2) = ?opts"
    unfolding optCacheStr_def opt_price_def extra_entries_def by (rule map_cong) auto
  have extra: "concat (map (extra_text num ?f) BILLING_CACHE_VAR_MAP) = ?E"
    by (simp add: cache_vars extra_entries)
  show ?thesis
    using p unfolding bodyPat_def opts body_text extra price_part_def body_caps_def by simp
qed

subsection \<open>The call of a tier\<close>

lemma takes_tier_head:
  assumes "34 \<notin> set label" "s \<noteq> []" "\<not> is_ws (hd s)"
  shows "takes (tier_head_rx n) (lit ''tier('' @ 34 # label @ 34 # lit '', '') s cs ((n, label) # cs)"
proof -
  have "takes (tier_head_rx n) ((lit ''tier('' @ [34]) @ label @ (34 # lit '','') @ [32] @ []) s cs ((n, label) # cs)"
    unfolding tier_head_rx_def
    by (rule takes_seqs_Cons [OF takes_text], rule takes_seqs_Cons [OF takes_Grp [OF takes_run]],
        use assms(1) in fastforce, simp, rule takes_seqs_Cons [OF takes_text], rule takes_seqs_Cons [OF takes_space takes_seqs_Nil],
        use assms(2, 3) in simp)
  then show ?thesis
    by (simp add: lit_def)
qed

lemma body_text_hd: "buildTierBodyExpr num t @ s \<noteq> []" "hd (buildTierBodyExpr num t @ s) = 112"
  by (simp_all add: body_text price_part_def lit_def)

lemma takes_tier:
  assumes "34 \<notin> set label" "tier_prices_ok num t"
    and rs: "takes (seqs rs) u s (body_caps num t m @ (n, label) # cs) cs'"
  shows "takes (seqs ([tier_head_rx n, bodyPat m, text_rx (lit '')'')] @ rs)) (tier_text num label t @ u) s cs cs'"
proof -
  have "takes (seqs [tier_head_rx n, bodyPat m, text_rx (lit '')'')])
      ((lit ''tier('' @ 34 # label @ 34 # lit '', '') @ buildTierBodyExpr num t @ lit '')'' @ []) (u @ s) cs
      (body_caps num t m @ (n, label) # cs)"
    by (rule takes_seqs_Cons [OF takes_tier_head takes_seqs_Cons [OF takes_bodyPat takes_seqs_Cons [OF takes_text takes_seqs_Nil]]])
      (use assms body_text_hd [of num t] in \<open>simp_all add: is_ws_def lit_def\<close>)
  from takes_seqs_append [OF this rs] show ?thesis
    by (simp add: tier_text_def lit_def)
qed

subsection \<open>Conditions\<close>

text \<open>A condition of the editor: one of the three variables, one of the four comparisons and a number that is printed in the characters of a bound\<close>

definition tier_vars :: "jstring list" where
  "tier_vars = [lit ''p'', lit ''c'', lit ''len'']"

definition tier_ops :: "jstring list" where
  "tier_ops = [lit ''<'', lit ''<='', lit ''>'', lit ''>='']"

definition condition_ok :: "(rat \<Rightarrow> jstring) \<Rightarrow> tier_condition \<Rightarrow> bool" where
  "condition_ok num c \<longleftrightarrow> tc_var c \<in> set tier_vars \<and> tc_op c \<in> set tier_ops \<and>
     (case tc_value c of JNum (Fin q) \<Rightarrow> tier_prints num q \<and> list_all bound_char (num q) | _ \<Rightarrow> False)"

lemma condition_okE:
  assumes "condition_ok num c"
  obtains q where "tc_value c = JNum (Fin q)" "tier_prints num q" "list_all bound_char (num q)"
  using assms by (auto simp: condition_ok_def split: jsval.splits jnum.splits)

text \<open>A name, with or without a group\<close>

definition grp_opt :: "nat option \<Rightarrow> regex \<Rightarrow> regex" where
  "grp_opt g r = (case g of Some n \<Rightarrow> Grp n r | None \<Rightarrow> r)"

definition with_cap :: "nat option \<Rightarrow> jstring \<Rightarrow> captures \<Rightarrow> captures" where
  "with_cap g t cs = (case g of Some n \<Rightarrow> (n, t) # cs | None \<Rightarrow> cs)"

lemma takes_grp_opt: "takes r t s cs cs' \<Longrightarrow> takes (grp_opt g r) t s cs (with_cap g t cs')"
  by (cases g) (simp_all add: grp_opt_def with_cap_def takes_Grp)

lemma rx_grp_Alt: "rx (grp_opt g (Alt a b)) m = rx (grp_opt g a) m @ rx (grp_opt g b) m"
  by (cases m; cases g) (simp_all add: grp_opt_def)

lemma rx_text: "rx (text_rx t) (b, t @ s, cs) = [(rev t @ b, s, cs)]"
  by (induction t arbitrary: b) (simp_all add: text_rx_def ch_def)

lemma rx_grp_text: "rx (grp_opt g (text_rx t)) (b, t @ s, cs) = [(rev t @ b, s, with_cap g t cs)]"
  by (cases g) (simp_all add: grp_opt_def with_cap_def rx_text)

lemma rx_grp_fail: "rx r m = [] \<Longrightarrow> rx (grp_opt g r) m = []"
  by (cases m; cases g) (simp_all add: grp_opt_def)

lemma text_fail: "s = [] \<or> hd s \<noteq> c \<Longrightarrow> rx (text_rx (c # t)) (b, s, cs) = []"
  using starts_inD [OF starts_in_text [of "\<lambda>x. x = c"]] by blast

lemma rx_grp_text_fail: "s = [] \<or> hd s \<noteq> c \<Longrightarrow> rx (grp_opt g (text_rx (c # t))) (b, s, cs) = []"
  by (rule rx_grp_fail [OF text_fail])

lemma takes_cond_var:
  assumes "v \<in> set tier_vars" "takes q u s (with_cap g v cs) cs'"
  shows "takes (Seq (grp_opt g cond_var_rx) q) (v @ u) s cs cs'"
proof -
  have step: "\<exists>ms. rx q (rev v @ b, u @ s, with_cap g v cs) = (rev u @ rev v @ b, s, cs') # ms" for b
    using assms(2) by (simp add: takes_def goes_def)
  have hit: "rx (grp_opt g (text_rx v)) (b, v @ u @ s, cs) = [(rev v @ b, u @ s, with_cap g v cs)]" for b
    by (rule rx_grp_text)
  consider "v = lit ''p''" | "v = lit ''c''" | "v = lit ''len''"
    using assms(1) by (auto simp: tier_vars_def)
  then show ?thesis
    using step hit
    by cases (auto simp: takes_def goes_def cond_var_rx_def rx_grp_Alt lit_def rx_grp_text_fail)
qed

text \<open>\<^verbatim>\<open><\<close> is tried before \<^verbatim>\<open><=\<close>; what has to follow a comparison refuses the sign that is left.\<close>

lemma takes_cond_op:
  assumes "op \<in> set tier_ops" "takes q u s (with_cap g op cs) cs'"
    and fails: "\<And>b t cs. rx q (b, 61 # t, cs) = []"
  shows "takes (Seq (grp_opt g cond_op_rx) q) (op @ u) s cs cs'"
proof -
  have "\<exists>ms. rx q (rev op @ b, u @ s, with_cap g op cs) = (rev u @ rev op @ b, s, cs') # ms" for b
    using assms(2) by (simp add: takes_def goes_def)
  then obtain f where step: "rx q (rev op @ b, u @ s, with_cap g op cs) = (rev u @ rev op @ b, s, cs') # f b" for b
    by metis
  have hit: "rx (grp_opt g (text_rx [60])) (b, 60 # t, cs) = [(60 # b, t, with_cap g [60] cs)]"
    "rx (grp_opt g (text_rx [62])) (b, 62 # t, cs) = [(62 # b, t, with_cap g [62] cs)]"
    "rx (grp_opt g (text_rx [60, 61])) (b, 60 # 61 # t, cs) = [(61 # 60 # b, t, with_cap g [60, 61] cs)]"
    "rx (grp_opt g (text_rx [62, 61])) (b, 62 # 61 # t, cs) = [(61 # 62 # b, t, with_cap g [62, 61] cs)]" for b t cs
    using rx_grp_text [of g "[60]" b t cs] rx_grp_text [of g "[62]" b t cs] rx_grp_text [of g "[60, 61]" b t cs]
      rx_grp_text [of g "[62, 61]" b t cs] by simp_all
  consider "op = lit ''<''" | "op = lit ''<=''" | "op = lit ''>''" | "op = lit ''>=''"
    using assms(1) by (auto simp: tier_ops_def)
  then show ?thesis
    using step by cases (auto simp: takes_def goes_def cond_op_rx_def rx_grp_Alt lit_def rx_grp_text_fail hit fails)
qed

text \<open>The tail of a condition and the number\<close>

definition bound_grp :: "nat option \<Rightarrow> regex" where
  "bound_grp g = grp_opt g bound_rx"

lemma starts_in_grp: "starts_in P r \<Longrightarrow> starts_in P (grp_opt g r)"
  by (cases g) (simp_all add: grp_opt_def starts_in_Grp)

lemma bound_fail:
  "rx (seqs (ws_rx # bound_grp g # rs)) (b, 61 # t, cs) = []"
  by (rule ws_seqs_fail [where P = bound_char])
    (auto simp: bound_grp_def bound_rx_def bound_char_not_ws bound_char_def is_digit_def is_ws_def
      intro!: starts_in_seqs starts_in_grp starts_in_plus starts_in_Cls)

text \<open>All forms of a condition: inside a group or alone, with a group around every part or around none\<close>

definition cond_pat :: "nat option \<Rightarrow> nat option \<Rightarrow> nat option \<Rightarrow> regex list \<Rightarrow> regex" where
  "cond_pat g h k rs =
     Seq (grp_opt g cond_var_rx) (Seq ws_rx (Seq (grp_opt h cond_op_rx) (seqs (ws_rx # bound_grp k # rs))))"

lemma condition_text_ok:
  assumes "condition_ok num c"
  obtains q where "tc_value c = JNum (Fin q)" "condition_text num c = tc_var c @ [32] @ tc_op c @ [32] @ num q"
    "num q \<noteq> []" "\<forall>x \<in> set (num q). bound_char x" "string_num (num q) = Fin q"
proof (rule condition_okE [OF assms])
  fix q
  assume q: "tc_value c = JNum (Fin q)" "tier_prints num q" "list_all bound_char (num q)"
  show thesis
    by (rule that [of q])
      (use q in \<open>simp_all add: condition_text_def num_string_def tier_prints_def list_all_iff lit_def\<close>)
qed

lemma takes_cond_pat:
  assumes c: "condition_ok num c" and s: "u @ s = [] \<or> \<not> bound_char (hd (u @ s))"
    and rs: "takes (seqs rs) u s
      (with_cap k (js_string (num_string num) (tc_value c)) (with_cap h (tc_op c) (with_cap g (tc_var c) cs))) cs'"
  shows "takes (cond_pat g h k rs) (condition_text num c @ u) s cs cs'"
proof -
  obtain q where q: "tc_value c = JNum (Fin q)" "condition_text num c = tc_var c @ [32] @ tc_op c @ [32] @ num q"
    "num q \<noteq> []" "\<forall>x \<in> set (num q). bound_char x" "string_num (num q) = Fin q"
    by (rule condition_text_ok [OF c])
  have "num q @ u @ s = [] \<or> \<not> is_ws (hd (num q @ u @ s))"
    by (rule hd_not_ws [OF q(3, 4) bound_char_not_ws])
  then have bound: "takes (seqs (ws_rx # bound_grp k # rs)) ([32] @ num q @ u) s
      (with_cap h (tc_op c) (with_cap g (tc_var c) cs)) cs'"
    unfolding bound_grp_def bound_rx_def using q rs s
    by (intro takes_seqs_Cons [OF takes_space] takes_seqs_Cons [OF takes_grp_opt [OF takes_run1]])
      (simp_all add: num_string_def)
  have op: "tc_op c \<in> set tier_ops" "\<not> is_ws (hd (tc_op c))" "tc_op c \<noteq> []"
    using c by (auto simp: condition_ok_def tier_ops_def is_ws_def lit_def)
  have "takes (Seq ws_rx (Seq (grp_opt h cond_op_rx) (seqs (ws_rx # bound_grp k # rs))))
      ([32] @ tc_op c @ [32] @ num q @ u) s (with_cap g (tc_var c) cs) cs'"
    by (rule takes_Seq [OF takes_space takes_cond_op [OF op(1) bound bound_fail]]) (use op in simp)
  then have "takes (cond_pat g h k rs) (tc_var c @ [32] @ tc_op c @ [32] @ num q @ u) s cs cs'"
    unfolding cond_pat_def by (rule takes_cond_var [rotated]) (use c in \<open>simp add: condition_ok_def\<close>)
  then show ?thesis
    by (simp add: q(2))
qed

lemma cond_rx_pat: "cond_rx = cond_pat None None None []"
  by (simp add: cond_rx_def cond_pat_def grp_opt_def bound_grp_def seqs_def)

lemma takes_cond:
  assumes "condition_ok num c" "s = [] \<or> \<not> bound_char (hd s)"
  shows "takes cond_rx (condition_text num c) s cs cs"
  using takes_cond_pat [where u = "[]" and g = None and h = None and k = None and rs = "[]", OF assms(1)] assms(2)
  unfolding cond_rx_pat by (simp add: with_cap_def takes_seqs_Nil)

lemma and_text: "lit '' && '' = [32] @ lit ''&&'' @ [32]" and ask_text: "lit '' ? '' = [32] @ lit ''?'' @ [32]"
  by (simp_all add: lit_def)

lemma condition_hd:
  assumes "condition_ok num c"
  shows "condition_text num c @ s \<noteq> []" "hd (condition_text num c @ s) \<in> {112, 99, 108}"
    "\<not> is_ws (hd (condition_text num c @ s))"
  using assms by (auto simp: condition_ok_def tier_vars_def condition_text_def lit_def is_ws_def)

lemma takes_and_cond:
  assumes "condition_ok num c" "s = [] \<or> \<not> bound_char (hd s)"
  shows "takes (seqs [ws_rx, text_rx (lit ''&&''), ws_rx, cond_rx]) (lit '' && '' @ condition_text num c) s cs cs"
proof -
  have "takes (seqs [ws_rx, text_rx (lit ''&&''), ws_rx, cond_rx])
      ([32] @ lit ''&&'' @ [32] @ condition_text num c @ []) s cs cs"
    by (rule takes_seqs_Cons [OF takes_space takes_seqs_Cons [OF takes_text takes_seqs_Cons [OF takes_space
          takes_seqs_Cons [OF takes_cond takes_seqs_Nil]]]])
      (use assms condition_hd [OF assms(1)] in \<open>simp_all add: lit_def is_ws_def [of 38]\<close>)
  then show ?thesis
    by (simp add: and_text)
qed

lemma and_cond_fail: "rx (seqs [ws_rx, text_rx (lit ''&&''), ws_rx, cond_rx]) (b, 32 # 63 # s, cs) = []"
  by (rule ws_seqs_fail [where P = "\<lambda>x. x = 38"]) (auto simp: lit_def is_ws_def intro!: starts_in_seqs starts_in_text)

lemma takes_and_conds:
  assumes "list_all (condition_ok num) ds"
  shows "takes (Star (seqs [ws_rx, text_rx (lit ''&&''), ws_rx, cond_rx]))
    (concat (map (\<lambda>y. lit '' && '' @ y) (map (condition_text num) ds))) (32 # 63 # s) cs cs"
  using assms
proof (induction ds)
  case Nil
  then show ?case
    by (simp add: takes_Star_stop and_cond_fail)
next
  case (Cons d ds)
  have "takes (Star (seqs [ws_rx, text_rx (lit ''&&''), ws_rx, cond_rx]))
      ((lit '' && '' @ condition_text num d) @ concat (map (\<lambda>y. lit '' && '' @ y) (map (condition_text num) ds)))
      (32 # 63 # s) cs cs"
    by (rule takes_Star_step [OF takes_and_cond])
      (use Cons in \<open>cases ds; simp add: lit_def bound_char_def is_digit_def\<close>)+
  then show ?case
    by simp
qed

definition conds_text :: "(rat \<Rightarrow> jstring) \<Rightarrow> tier_condition list \<Rightarrow> jstring" where
  "conds_text num ds = join (lit '' && '') (map (condition_text num) ds)"

lemma takes_condGroup:
  assumes "list_all (condition_ok num) ds" "ds \<noteq> []"
  shows "takes condGroup (conds_text num ds) (32 # 63 # s) cs ((1, conds_text num ds) # cs)"
proof -
  obtain c ds' where ds: "ds = c # ds'"
    using assms(2) by (cases ds) auto
  let ?T = "concat (map (\<lambda>y. lit '' && '' @ y) (map (condition_text num) ds'))"
  have parts: "conds_text num ds = condition_text num c @ ?T"
    by (simp add: ds conds_text_def join_plus del: join.simps)
  have "takes (Seq cond_rx (Star (seqs [ws_rx, text_rx (lit ''&&''), ws_rx, cond_rx]))) (condition_text num c @ ?T)
      (32 # 63 # s) cs cs"
    by (rule takes_Seq [OF takes_cond takes_and_conds])
      (use assms ds in \<open>cases ds'; simp add: lit_def bound_char_def is_digit_def\<close>)+
  from takes_Grp [OF this] show ?thesis
    unfolding condGroup_def parts .
qed

lemma takes_opt_cond:
  assumes "list_all (condition_ok num) ds" "ds \<noteq> []" "s \<noteq> []" "\<not> is_ws (hd s)"
  shows "takes opt_cond_rx (conds_text num ds @ lit '' ? '') s cs ((1, conds_text num ds) # cs)"
proof -
  have "takes (seqs [condGroup, ws_rx, text_rx (lit ''?''), ws_rx]) (conds_text num ds @ [32] @ lit ''?'' @ [32] @ []) s cs
      ((1, conds_text num ds) # cs)"
  proof (rule takes_seqs_Cons)
    show "takes condGroup (conds_text num ds) (([32] @ lit ''?'' @ [32] @ []) @ s) cs ((1, conds_text num ds) # cs)"
      using takes_condGroup [OF assms(1, 2), of "32 # s" cs] by (simp add: lit_def)
    show "takes (seqs [ws_rx, text_rx (lit ''?''), ws_rx]) ([32] @ lit ''?'' @ [32] @ []) s ((1, conds_text num ds) # cs)
        ((1, conds_text num ds) # cs)"
      by (rule takes_seqs_Cons [OF takes_space takes_seqs_Cons [OF takes_text takes_seqs_Cons [OF takes_space takes_seqs_Nil]]])
        (use assms(3, 4) in \<open>simp_all add: is_ws_def [of 63] lit_def\<close>)
  qed
  then show ?thesis
    unfolding opt_cond_rx_def ask_text by (intro takes_opt) simp
qed

definition cond_start :: "nat \<Rightarrow> bool" where
  "cond_start c \<longleftrightarrow> c \<in> {112, 99, 108}"

lemma starts_in_condGroup: "starts_in cond_start (seqs (condGroup # rs))"
  unfolding condGroup_def cond_rx_def cond_var_rx_def alts.simps
  by (intro starts_in_seqs starts_in_Grp starts_in_Seq starts_in_Alt)
    (simp_all add: lit_def starts_in_text cond_start_def)

lemma takes_no_cond: "takes opt_cond_rx [] (116 # s) cs cs"
  unfolding opt_cond_rx_def
  by (rule takes_opt_none, rule starts_inD [OF starts_in_condGroup]) (simp add: cond_start_def)

subsection \<open>The matches of the editor\<close>

definition tier_label_ok :: "jstring \<Rightarrow> bool" where
  "tier_label_ok label \<longleftrightarrow> 34 \<notin> set label"

lemma tier_text_hd: "tier_text num label t @ s = 116 # tl (tier_text num label t @ s)"
  by (simp add: tier_text_def lit_def)

lemma takes_visual_tier:
  assumes "tier_label_ok label" "tier_prices_ok num t"
  shows "takes visualTierRe (tier_text num label t) s [] (body_caps num t 3 @ [(2, label)])"
proof -
  have "takes (seqs (opt_cond_rx # [tier_head_rx 2, bodyPat 3, text_rx (lit '')'')] @ [])) ([] @ tier_text num label t @ []) s []
      (body_caps num t 3 @ (2, label) # [])"
    by (rule takes_seqs_Cons [OF _ takes_tier [OF _ assms(2) takes_seqs_Nil]])
      (use takes_no_cond tier_text_hd [of num label t s] assms(1) in \<open>simp_all add: tier_label_ok_def, metis\<close>)
  then show ?thesis
    by (simp add: visualTierRe_def)
qed

lemma takes_visual_cond_tier:
  assumes "tier_label_ok label" "tier_prices_ok num t" "list_all (condition_ok num) ds" "ds \<noteq> []"
  shows "takes visualTierRe (conds_text num ds @ lit '' ? '' @ tier_text num label t) s []
    (body_caps num t 3 @ [(2, label), (1, conds_text num ds)])"
proof -
  have "takes (seqs (opt_cond_rx # [tier_head_rx 2, bodyPat 3, text_rx (lit '')'')] @ []))
      ((conds_text num ds @ lit '' ? '') @ tier_text num label t @ []) s []
      (body_caps num t 3 @ (2, label) # (1, conds_text num ds) # [])"
    by (rule takes_seqs_Cons [OF takes_opt_cond [OF assms(3, 4)] takes_tier [OF _ assms(2) takes_seqs_Nil]])
      (use assms(1) in \<open>simp_all add: tier_label_ok_def tier_text_def lit_def is_ws_def\<close>)
  then show ?thesis
    by (simp add: visualTierRe_def)
qed

lemma starts_in_tier_head: "starts_in (\<lambda>c. c = 116) (seqs (tier_head_rx n # rs))"
  unfolding tier_head_rx_def lit_def by (intro starts_in_seqs) (simp add: starts_in_text)

lemma tier_rx_none:
  assumes "116 \<notin> set s"
  shows "rx (seqs (opt_cond_rx # tier_head_rx n # rs)) (b, s, cs) = []"
proof -
  have "rx (Seq opt_cond_rx (seqs (tier_head_rx n # rs))) (b, s, cs) = []"
    by (rule rx_Seq_none, rule starts_inD [OF starts_in_tier_head]) (use assms in \<open>auto dest: hd_in_set\<close>)
  then show ?thesis
    by (simp add: seqs_def)
qed

lemma tier_rx_skip:
  assumes "\<not> cond_start c" "c \<noteq> 116"
  shows "rx (seqs (opt_cond_rx # tier_head_rx n # rs)) (b, c # s, cs) = []"
proof -
  have "rx (seqs [condGroup, ws_rx, text_rx (lit ''?''), ws_rx]) (b, c # s, cs) = []"
    by (rule starts_inD [OF starts_in_condGroup]) (use assms in simp)
  moreover have "rx (seqs (tier_head_rx n # rs)) (b, c # s, cs) = []"
    by (rule starts_inD [OF starts_in_tier_head]) (use assms in simp)
  ultimately show ?thesis
    by (simp add: opt_cond_rx_def opt_rx_def seqs_def [of "_ # tier_head_rx n # rs"]) (simp add: seqs_def)
qed

text \<open>The tail of a single tier with conditions\<close>

definition no_tier_tail :: jstring where
  "no_tier_tail = lit '' : p * 0 + c * 0''"

text \<open>A tier of a text: its conditions, its label and its prices\<close>

definition tier_piece :: "(rat \<Rightarrow> jstring) \<Rightarrow> tier_condition list \<times> jstring \<times> visual_tier \<Rightarrow> jstring" where
  "tier_piece num p = (if fst p = [] then tier_text num (fst (snd p)) (snd (snd p))
     else conds_text num (fst p) @ lit '' ? '' @ tier_text num (fst (snd p)) (snd (snd p)))"

definition piece_ok :: "(rat \<Rightarrow> jstring) \<Rightarrow> tier_condition list \<times> jstring \<times> visual_tier \<Rightarrow> bool" where
  "piece_ok num p \<longleftrightarrow> list_all (condition_ok num) (fst p) \<and> tier_label_ok (fst (snd p)) \<and> tier_prices_ok num (snd (snd p))"

definition head_caps :: "(rat \<Rightarrow> jstring) \<Rightarrow> tier_condition list \<times> jstring \<times> visual_tier \<Rightarrow> captures" where
  "head_caps num p = (2, fst (snd p)) # (if fst p = [] then [] else [(1, conds_text num (fst p))])"

lemma takes_visual_piece:
  assumes "piece_ok num p"
  shows "takes visualTierRe (tier_piece num p) s [] (body_caps num (snd (snd p)) 3 @ head_caps num p)"
  using assms takes_visual_tier takes_visual_cond_tier by (simp add: piece_ok_def tier_piece_def head_caps_def)

lemma tier_piece_nonempty: "tier_piece num p \<noteq> []"
  by (simp add: tier_piece_def tier_text_def lit_def)

lemma all_visual_tiers:
  assumes "list_all (piece_ok num) ps" "116 \<notin> set tail"
  shows "all_rx visualTierRe b (join (lit '' : '') (map (tier_piece num) ps) @ tail) =
    map (\<lambda>p. body_caps num (snd (snd p)) 3 @ head_caps num p) ps"
proof -
  let ?caps = "\<lambda>p. body_caps num (snd (snd p)) 3 @ head_caps num p"
  have skip: "rx visualTierRe (b, c # s, []) = []" if "c \<in> set (lit '' : '')" for c s b
    unfolding visualTierRe_def by (rule tier_rx_skip) (use that in \<open>auto simp: lit_def cond_start_def\<close>)
  have none: "search_rx visualTierRe b tail = None" for b
    unfolding visualTierRe_def by (rule search_rx_none, rule tier_rx_none) (use assms(2) in auto)
  have piece: "t \<noteq> [] \<and> goes visualTierRe (b, t @ s, []) (rev t @ b, s, c)"
    if "(t, c) \<in> set (map (\<lambda>p. (tier_piece num p, ?caps p)) ps)" for t c b s
    using that assms(1) takes_visual_piece by (auto simp: tier_piece_nonempty list_all_iff takes_def)
  have "all_rx visualTierRe b (join (lit '' : '') (map fst (map (\<lambda>p. (tier_piece num p, ?caps p)) ps)) @ tail) =
    map snd (map (\<lambda>p. (tier_piece num p, ?caps p)) ps)"
    by (rule all_rx_parts [where B = "\<lambda>_. True" and S = "\<lambda>_. True"]) (use skip none piece in auto)
  then show ?thesis
    by (simp add: comp_def)
qed

end
