(* ===== verification/Tier_Roundtrip.thy ===== *)
theory Tier_Roundtrip
  imports Tier_Matches
begin

section \<open>Reading tiers back from their text\<close>

text \<open>
  What the visual editor writes it reads back: the tiers, with the labels that the text gives unnamed ones
  and the cache mode that the prices imply. The price pages read the same labels, conditions and prices.
\<close>

subsection \<open>Conditions\<close>

lemma condition_last:
  assumes "condition_ok num c"
  shows "condition_text num c \<noteq> []" "\<not> is_ws (last (condition_text num c))" "38 \<notin> set (condition_text num c)"
proof -
  obtain q where q: "tc_value c = JNum (Fin q)" "condition_text num c = tc_var c @ [32] @ tc_op c @ [32] @ num q"
    "num q \<noteq> []" "\<forall>x \<in> set (num q). bound_char x"
    by (rule condition_text_ok [OF assms])
  show "condition_text num c \<noteq> []"
    by (simp add: q(2))
  show "\<not> is_ws (last (condition_text num c))"
    using q(3, 4) bound_char_not_ws by (simp add: q(2))
  show "38 \<notin> set (condition_text num c)"
    using assms q(4) by (auto simp: q(2) condition_ok_def tier_vars_def tier_ops_def lit_def bound_char_def is_digit_def)
qed

lemma and_rx_fail:
  assumes "u \<noteq> []" "38 \<notin> set u" "\<not> is_ws (last u)"
  shows "rx and_rx (b, u @ s, cs) = []"
  unfolding and_rx_def
proof (rule ws_seqs_fail [where P = "\<lambda>x. x = 38"])
  have "\<exists>x \<in> set u. \<not> is_ws x"
    using assms by (metis last_in_set)
  then have "dropWhile is_ws (u @ s) = dropWhile is_ws u @ s" "dropWhile is_ws u \<noteq> []"
    by (auto simp: dropWhile_append dropWhile_eq_Nil_conv)
  then show "dropWhile is_ws (u @ s) = [] \<or> hd (dropWhile is_ws (u @ s)) \<noteq> 38"
    using assms(2) by (metis hd_append2 hd_in_set set_dropWhileD)
qed (auto simp: lit_def is_ws_def intro!: starts_in_seqs starts_in_text)

lemma search_and:
  assumes "condition_ok num c"
  shows "search_rx and_rx b (condition_text num c @ s) = search_rx and_rx (rev (condition_text num c) @ b) s"
proof (rule search_rx_past)
  fix u1 u2 b
  assume "condition_text num c = u1 @ u2" "u2 \<noteq> []"
  then show "rx and_rx (b, u2 @ s, []) = []"
    using condition_last [OF assms] by (intro and_rx_fail) (auto simp: Un_iff)
qed

lemma split_conds:
  assumes "list_all (condition_ok num) ds" "ds \<noteq> []"
  shows "split_rx and_rx b (conds_text num ds) = map (condition_text num) ds"
  using assms
proof (induction ds arbitrary: b)
  case (Cons c ds)
  have c: "condition_ok num c"
    using Cons.prems by simp
  show ?case
  proof (cases ds)
    case Nil
    have "rx and_rx (b', [], []) = []" for b'
      unfolding and_rx_def by (rule ws_seqs_fail [where P = "\<lambda>x. x = 38"])
        (auto simp: lit_def is_ws_def intro!: starts_in_seqs starts_in_text)
    then have "search_rx and_rx b (condition_text num c) = None"
      using search_and [OF c, of b "[]"] by (simp add: search_rx_end)
    then show ?thesis
      by (simp add: Nil conds_text_def split_rx.simps)
  next
    case Nil': (Cons d ds')
    let ?rest = "conds_text num ds"
    have rest: "?rest = condition_text num d @ concat (map (\<lambda>y. lit '' && '' @ y) (map (condition_text num) ds'))"
      by (simp add: Nil' conds_text_def join_plus del: join.simps)
    have hd: "\<not> is_ws (hd ?rest)"
      unfolding rest using Cons.prems Nil' by (intro condition_hd(3)) simp
    have parts: "conds_text num (c # ds) = condition_text num c @ lit '' && '' @ ?rest"
      by (simp add: Nil' conds_text_def)
    have "takes and_rx ([32] @ lit ''&&'' @ [32] @ []) ?rest [] []"
      unfolding and_rx_def
      by (rule takes_seqs_Cons [OF takes_space takes_seqs_Cons [OF takes_text takes_seqs_Cons [OF takes_space takes_seqs_Nil]]])
        (use hd in \<open>simp_all add: lit_def is_ws_def [of 38]\<close>)
    then have "search_rx and_rx b (conds_text num (c # ds)) =
        Some (lit '' && '' @ ?rest, rev (lit '' && '') @ rev (condition_text num c) @ b, ?rest, [])"
      unfolding parts search_and [OF c] by (intro search_rx_here) (simp add: takes_def and_text)
    then show ?thesis
      unfolding split_rx.simps [of _ b] using Cons.IH Cons.prems Nil' parts by (simp add: lit_def)
  qed
qed simp

lemma cond_pat_seqs:
  "cond_pat g h k rs = seqs (grp_opt g cond_var_rx # ws_rx # grp_opt h cond_op_rx # ws_rx # bound_grp k # rs)"
  by (simp add: cond_pat_def seqs_def)

lemma parse_condition_text:
  assumes "condition_ok num c"
  shows "map_option visual_condition (parse_condition (condition_text num c)) = Some c"
proof -
  obtain q where q: "tc_value c = JNum (Fin q)" "condition_text num c = tc_var c @ [32] @ tc_op c @ [32] @ num q"
    "num q \<noteq> []" "\<forall>x \<in> set (num q). bound_char x" "string_num (num q) = Fin q"
    by (rule condition_text_ok [OF assms])
  have trimmed: "trim (condition_text num c) = condition_text num c"
    using condition_last [OF assms] condition_hd(3) [OF assms, of "[]"] by (intro trim_id) simp_all
  have "takes (cond_pat (Some 1) (Some 2) (Some 3) [Eol]) (condition_text num c @ []) [] []
      [(3, num q), (2, tc_op c), (1, tc_var c)]"
    by (rule takes_cond_pat [OF assms]) (simp_all add: q(1) with_cap_def num_string_def takes_def goes_def seqs_def)
  then have "match_rx condRe (condition_text num c) = Some [(3, num q), (2, tc_op c), (1, tc_var c)]"
    unfolding cond_pat_seqs condRe_def by (intro match_rx_Bol) (simp add: grp_opt_def bound_grp_def)
  then show ?thesis
    by (simp add: parse_condition_def trimmed cap_def visual_condition_def coalesce_def q(1, 5))
qed

lemma parse_conditions_text:
  assumes "list_all (condition_ok num) ds"
  shows "map visual_condition (parse_conditions (conds_text num ds)) = ds"
proof (cases "ds = []")
  case True
  then show ?thesis
    by (simp add: conds_text_def parse_conditions_def)
next
  case False
  then have nonempty: "conds_text num ds \<noteq> []"
    using assms condition_last(1) [of num "hd ds"] by (cases ds) (simp_all add: conds_text_def join_plus del: join.simps)
  have "map visual_condition (List.map_filter parse_condition (map (condition_text num) ds)) = ds"
    using assms
  proof (induction ds)
    case (Cons c ds)
    then show ?case
      using parse_condition_text [of num c] by (auto simp: map_filter_simps)
  qed (simp add: map_filter_simps)
  then show ?thesis
    by (simp add: parse_conditions_def nonempty split_conds [OF assms False])
qed

subsection \<open>The tier of a match\<close>

lemma extra_caps_map:
  assumes "distinct (map fst es)"
  shows "map_of (concat (map (extra_caps num f n) es) @ cs) k =
    (case map_of (map (\<lambda>e. (n + fst e, e)) es) k of
       Some e \<Rightarrow> if num_truthy (f (fst (snd e))) then Some (num_string num (f (fst (snd e)))) else map_of cs k
     | None \<Rightarrow> map_of cs k)"
  using assms
proof (induction es)
  case (Cons e es)
  have "map_of (map (\<lambda>e. (n + fst e, e)) es) (n + fst e) = None"
    using Cons.prems by (auto simp: map_of_eq_None_iff image_iff)
  then show ?case
    using Cons by (auto simp: extra_caps_def)
qed simp

lemma extra_entries_rev: "distinct (map fst (rev extra_entries))"
  by (simp add: extra_entries)

lemma body_caps_map:
  "k < n \<Longrightarrow> map_of (body_caps num t n @ cs) k = map_of cs k"
  "map_of (body_caps num t n @ cs) n = Some (num_string num (tier_price t (lit ''input_unit_cost'')))"
  "map_of (body_caps num t n @ cs) (Suc n) = Some (num_string num (tier_price t (lit ''output_unit_cost'')))"
  unfolding body_caps_def append_assoc extra_caps_map [OF extra_entries_rev] by (simp_all add: extra_entries)

lemma body_caps_extra:
  assumes "e \<in> set extra_entries" "\<forall>k \<ge> n. map_of cs k = None"
  shows "map_of (body_caps num t n @ cs) (n + 2 + fst e) =
    (if num_truthy (tier_price t (fst (snd e))) then Some (num_string num (tier_price t (fst (snd e)))) else None)"
proof -
  have "distinct (map fst (map (\<lambda>e. (n + 2 + fst e, e)) (rev extra_entries)))"
    by (simp add: extra_entries)
  then have here: "map_of (map (\<lambda>e. (n + 2 + fst e, e)) (rev extra_entries)) (n + 2 + fst e) = Some e"
    using assms(1) by (intro map_of_is_SomeI) auto
  show ?thesis
    unfolding body_caps_def append_assoc extra_caps_map [OF extra_entries_rev] here using assms(2) by simp
qed

text \<open>The tier that the text of a tier says\<close>

definition restored_tier :: "tier_condition list \<times> jstring \<times> visual_tier \<Rightarrow> visual_tier" where
  "restored_tier p = (let price = tier_price (snd (snd p)) in
     \<lparr>vt_label = fst (snd p), vt_conditions = fst p,
      vt_cache_mode = (if num_less (Fin 0) (price (lit ''cache_create_1h_unit_cost'')) then Timed else Generic),
      vt_costs = map (\<lambda>k. (k, price k)) price_fields\<rparr>)"

lemma map_of_filter_map:
  assumes "distinct (map (\<lambda>e. fst (snd e)) es)" "e \<in> set es"
  shows "map_of (List.map_filter (\<lambda>e. if P (fst (snd e)) then Some (fst (snd e), g (fst (snd e))) else None) es) (fst (snd e)) =
    (if P (fst (snd e)) then Some (g (fst (snd e))) else None)"
proof -
  have out: "map_of (List.map_filter (\<lambda>e. if P (fst (snd e)) then Some (fst (snd e), g (fst (snd e))) else None) es) k = None"
    if "k \<notin> set (map (\<lambda>e. fst (snd e)) es)" for k es
    using that by (induction es) (auto simp: map_filter_simps)
  show ?thesis
    using assms by (induction es) (auto simp: map_filter_simps out)
qed

lemma number_or_zero_idem: "number_or_zero (Some (number_or_zero n)) = number_or_zero n"
  by (simp add: number_or_zero_def num_truthy_def split: option.split)

lemma extra_fields: "map fst BILLING_CACHE_VAR_MAP = extra_cost_fields"
  by (simp add: cache_vars extra_cost_fields_def)

lemma tier_price_idem: "number_or_zero (Some (tier_price t k)) = tier_price t k"
  by (simp add: tier_price_def number_or_zero_idem)

lemma tier_price_falsy: "\<not> num_truthy (tier_price t k) \<Longrightarrow> tier_price t k = Fin 0"
  using tier_price_idem [of t k] by (simp add: number_or_zero_def)

lemma tier_price_text:
  assumes "tier_prices_ok num t" "k \<in> set price_fields"
  shows "string_num (num_string num (tier_price t k)) = tier_price t k"
  using assms price_ok_text(3) by (simp add: tier_prices_ok_def list_all_iff)

text \<open>The prices that a match stores\<close>

definition matched_costs :: "visual_tier \<Rightarrow> (jstring \<times> jnum) list" where
  "matched_costs t =
     [(lit ''input_unit_cost'', tier_price t (lit ''input_unit_cost'')), (lit ''output_unit_cost'', tier_price t (lit ''output_unit_cost''))] @
     List.map_filter (\<lambda>e. if num_truthy (tier_price t (fst (snd e))) then Some (fst (snd e), tier_price t (fst (snd e))) else None) extra_entries"

lemma map_filter_cong': "(\<And>x. x \<in> set xs \<Longrightarrow> f x = g x) \<Longrightarrow> List.map_filter f xs = List.map_filter g xs"
  by (induction xs) (auto simp: map_filter_simps split: option.split)

lemma matched_extra:
  assumes "tier_prices_ok num t" "\<forall>k \<ge> n. map_of cs k = None"
  shows "List.map_filter (\<lambda>(i, (field, v)). map_option (\<lambda>t. (field, string_num t)) (map_of (body_caps num t n @ cs) (n + 2 + i))) extra_entries =
    List.map_filter (\<lambda>e. if num_truthy (tier_price t (fst (snd e))) then Some (fst (snd e), tier_price t (fst (snd e))) else None) extra_entries"
proof (rule map_filter_cong')
  fix e
  assume e: "e \<in> set extra_entries"
  then have "fst (snd e) \<in> set price_fields"
    by (auto simp: extra_entries price_fields_def cache_vars)
  then show "(case e of (i, (field, v)) \<Rightarrow> map_option (\<lambda>t. (field, string_num t)) (map_of (body_caps num t n @ cs) (n + 2 + i))) =
    (if num_truthy (tier_price t (fst (snd e))) then Some (fst (snd e), tier_price t (fst (snd e))) else None)"
    using body_caps_extra [OF e assms(2), of num t] tier_price_text [OF assms(1)] by (cases e) simp
qed

lemma matched_costs_map:
  "k \<in> set extra_cost_fields \<Longrightarrow>
     map_of (matched_costs t) k = (if num_truthy (tier_price t k) then Some (tier_price t k) else None)"
proof -
  assume k: "k \<in> set extra_cost_fields"
  have "extra_cost_fields = map (\<lambda>e. fst (snd e)) extra_entries"
    by (simp add: extra_entries extra_cost_fields_def)
  then obtain e where e: "e \<in> set extra_entries" "k = fst (snd e)"
    using k by (metis (no_types, lifting) imageE set_map)
  have "distinct (map (\<lambda>e. fst (snd e)) extra_entries)"
    by (simp add: extra_entries)
  then have "map_of (List.map_filter (\<lambda>e. if num_truthy (tier_price t (fst (snd e))) then Some (fst (snd e), tier_price t (fst (snd e))) else None) extra_entries) k =
      (if num_truthy (tier_price t k) then Some (tier_price t k) else None)"
    unfolding e(2) using e(1) by (rule map_of_filter_map [where P = "\<lambda>k. num_truthy (tier_price t k)" and g = "tier_price t"])
  moreover have "k \<noteq> lit ''input_unit_cost''" "k \<noteq> lit ''output_unit_cost''"
    using k by (auto simp: extra_cost_fields_def lit_def)
  ultimately show ?thesis
    by (simp add: matched_costs_def)
qed

lemma matched_tier_restored:
  assumes "tier_prices_ok num t" "\<forall>k \<ge> n. map_of cs k = None"
  shows "matched_tier (body_caps num t n @ cs) n label ds = restored_tier (ds, label, t)"
proof -
  have main: "cap (body_caps num t n @ cs) n = num_string num (tier_price t (lit ''input_unit_cost''))"
    "cap (body_caps num t n @ cs) (n + 1) = num_string num (tier_price t (lit ''output_unit_cost''))"
    by (simp_all add: cap_def coalesce_def body_caps_map del: map_of_append)
  have "matched_tier (body_caps num t n @ cs) n label ds =
    normalizeVisualTier \<lparr>pv_label = Some label, pv_conditions = Some ds, pv_cache_mode = None, pv_costs = matched_costs t\<rparr>"
    unfolding matched_tier_def main extra_entries_def [symmetric] matched_extra [OF assms] matched_costs_def
    using tier_price_text [OF assms(1)] by (simp add: price_fields_def)
  moreover have "number_or_zero (map_of (matched_costs t) k) = tier_price t k" if "k \<in> set extra_cost_fields" for k
    using matched_costs_map [OF that] tier_price_falsy [of t k] by (simp add: number_or_zero_def)
  moreover have "num_less (Fin 0) (coalesce (map_of (matched_costs t) (lit ''cache_create_1h_unit_cost'')) NaN) =
      num_less (Fin 0) (tier_price t (lit ''cache_create_1h_unit_cost''))"
    using matched_costs_map [of "lit ''cache_create_1h_unit_cost''" t] tier_price_falsy [of t "lit ''cache_create_1h_unit_cost''"]
    by (cases "num_truthy (tier_price t (lit ''cache_create_1h_unit_cost''))") (simp_all add: extra_cost_fields_def coalesce_def)
  ultimately show ?thesis
    by (simp add: normalizeVisualTier_def getTierCacheMode_def restored_tier_def Let_def coalesce_def price_fields_def extra_fields
        matched_costs_def)
qed

lemma restored_costs:
  "k \<in> set price_fields \<Longrightarrow> map_of (vt_costs (restored_tier p)) k = Some (tier_price (snd (snd p)) k)"
  by (simp add: restored_tier_def Let_def map_of_map_restrict)

lemma restored_price:
  "k \<in> set price_fields \<Longrightarrow> tier_price (restored_tier p) k = tier_price (snd (snd p)) k"
  unfolding tier_price_def [of "restored_tier p"] by (simp add: restored_costs tier_price_idem)

lemma normalize_restored: "normalizeVisualTier (as_partial (restored_tier p)) = restored_tier p"
proof -
  let ?price = "tier_price (snd (snd p))"
  have costs: "vt_costs (restored_tier p) = map (\<lambda>k. (k, ?price k)) price_fields"
    by (simp add: restored_tier_def Let_def)
  have extra: "number_or_zero (map_of (vt_costs (restored_tier p)) k) = ?price k" if "k \<in> set extra_cost_fields" for k
    using restored_costs [of k p] that by (simp add: price_fields_def extra_fields tier_price_idem)
  have "map (\<lambda>f. (f, number_or_zero (map_of (vt_costs (restored_tier p)) f))) extra_cost_fields =
      map (\<lambda>k. (k, ?price k)) extra_cost_fields"
    by (rule map_cong) (simp_all add: extra)
  moreover have "map_of (vt_costs (restored_tier p)) (lit ''input_unit_cost'') = Some (?price (lit ''input_unit_cost''))"
    "map_of (vt_costs (restored_tier p)) (lit ''output_unit_cost'') = Some (?price (lit ''output_unit_cost''))"
    by (rule restored_costs, simp add: price_fields_def)+
  ultimately show ?thesis
    by (intro visual_tier.equality)
      (simp_all add: normalizeVisualTier_def as_partial_def coalesce_def costs price_fields_def extra_fields)
qed

subsection \<open>The pieces of a configuration\<close>

text \<open>The conditions, the label in the text and the prices of every tier; unnamed tiers are numbered.\<close>

fun numbered_pieces :: "nat \<Rightarrow> visual_tier list \<Rightarrow> (tier_condition list \<times> jstring \<times> visual_tier) list" where
  "numbered_pieces i [] = []"
| "numbered_pieces i (t # ts) =
     (vt_conditions t, or_str (vt_label t) (lit ''tier_'' @ show_nat i), t) # numbered_pieces (Suc i) ts"

definition tier_pieces :: "visual_config \<Rightarrow> (tier_condition list \<times> jstring \<times> visual_tier) list" where
  "tier_pieces cfg =
     (case cfg of [t] \<Rightarrow> [(vt_conditions t, or_str (vt_label t) (lit ''default''), t)] | _ \<Rightarrow> numbered_pieces 1 cfg)"

text \<open>
  What the visual editor can edit: every tier but the last one has conditions, the last one of several has
  none, labels have no quotation mark, and the numbers are printed in the characters that the expressions
  accept.
\<close>

definition tier_ok :: "(rat \<Rightarrow> jstring) \<Rightarrow> visual_tier \<Rightarrow> bool" where
  "tier_ok num t \<longleftrightarrow> list_all (condition_ok num) (vt_conditions t) \<and> tier_label_ok (vt_label t) \<and> tier_prices_ok num t"

definition editable_config :: "(rat \<Rightarrow> jstring) \<Rightarrow> visual_config \<Rightarrow> bool" where
  "editable_config num cfg \<longleftrightarrow> cfg \<noteq> [] \<and> list_all (tier_ok num) cfg \<and>
     list_all (\<lambda>t. vt_conditions t \<noteq> []) (butlast cfg) \<and> (length cfg > 1 \<longrightarrow> vt_conditions (last cfg) = [])"

text \<open>The configuration that the text of a configuration says\<close>

definition restored_config :: "visual_config \<Rightarrow> visual_config" where
  "restored_config cfg = map restored_tier (tier_pieces cfg)"

lemma build_conds: "list_all (condition_ok num) ds \<Longrightarrow> buildConditionStr num ds = conds_text num ds"
proof -
  assume ok: "list_all (condition_ok num) ds"
  have "condition_complete c" if "condition_ok num c" for c
    using that by (auto simp: condition_ok_def condition_complete_def tier_vars_def tier_ops_def lit_def is_nullish_def
        split: jsval.splits jnum.splits)
  then have "filter condition_complete ds = ds"
    using ok by (simp add: list_all_iff)
  then show ?thesis
    by (simp add: buildConditionStr_def conds_text_def)
qed

lemma conds_text_Nil: "list_all (condition_ok num) ds \<Longrightarrow> conds_text num ds = [] \<longleftrightarrow> ds = []"
  using condition_last(1) [of num "hd ds"]
  by (cases ds) (simp_all add: conds_text_def join_plus del: join.simps, simp)

lemma numbered_text:
  assumes "list_all (tier_ok num) ts" "list_all (\<lambda>t. vt_conditions t \<noteq> []) (butlast ts)" "ts \<noteq> []" "vt_conditions (last ts) = []"
  shows "tier_parts num i ts = map (tier_piece num) (numbered_pieces i ts)"
  using assms
proof (induction ts arbitrary: i)
  case (Cons t ts)
  then have cond: "buildConditionStr num (vt_conditions t) = conds_text num (vt_conditions t)"
    by (intro build_conds) (simp add: tier_ok_def)
  show ?case
  proof (cases "ts = []")
    case True
    then show ?thesis
      using Cons.prems by (simp add: tier_piece_def)
  next
    case False
    then show ?thesis
      using Cons conds_text_Nil [of num "vt_conditions t"] by (simp add: cond tier_piece_def tier_ok_def Let_def)
  qed
qed simp

definition config_tail :: "visual_config \<Rightarrow> jstring" where
  "config_tail cfg = (case cfg of [t] \<Rightarrow> if vt_conditions t = [] then [] else no_tier_tail | _ \<Rightarrow> [])"

lemma config_text:
  assumes "editable_config num cfg"
  shows "generateExprFromVisualConfig num (Some cfg) = join (lit '' : '') (map (tier_piece num) (tier_pieces cfg)) @ config_tail cfg"
proof -
  consider t where "cfg = [t]" | "length cfg > 1"
    using assms by (cases cfg; cases "tl cfg") (auto simp: editable_config_def)
  then show ?thesis
  proof cases
    case (1 t)
    have ok: "list_all (condition_ok num) (vt_conditions t)"
      using assms 1 by (simp add: editable_config_def tier_ok_def)
    show ?thesis
      using conds_text_Nil [OF ok]
      by (simp add: 1 generateExprFromVisualConfig_def build_conds [OF ok] tier_pieces_def tier_piece_def config_tail_def no_tier_tail_def)
  next
    case 2
    then obtain t u ts where cfg: "cfg = t # u # ts"
      by (cases cfg; cases "tl cfg") auto
    have "tier_parts num 1 cfg = map (tier_piece num) (numbered_pieces 1 cfg)"
      using assms 2 by (intro numbered_text) (auto simp: editable_config_def)
    then show ?thesis
      by (simp add: cfg generateExprFromVisualConfig_def tier_pieces_def config_tail_def)
  qed
qed

lemma numbered_ok: "list_all (tier_ok num) ts \<Longrightarrow> list_all (piece_ok num) (numbered_pieces i ts)"
proof (induction ts arbitrary: i)
  case (Cons t ts)
  have "34 \<notin> set (show_nat i)"
    using show_nat_digits [of i] by (auto simp: is_digit_def)
  then show ?case
    using Cons by (simp add: tier_ok_def piece_ok_def tier_label_ok_def or_str_def lit_def)
qed simp

lemma pieces_ok: "editable_config num cfg \<Longrightarrow> list_all (piece_ok num) (tier_pieces cfg)"
  using numbered_ok [of num cfg 1]
  by (auto simp: editable_config_def tier_pieces_def tier_ok_def piece_ok_def tier_label_ok_def or_str_def lit_def split: list.split)

text \<open>The text of a restored configuration is the same.\<close>

lemma restored_prices_ok: "tier_prices_ok num (restored_tier p) = tier_prices_ok num (snd (snd p))"
  unfolding tier_prices_ok_def list_all_iff by (simp add: restored_price)

lemma restored_text: "tier_text num label (restored_tier p) = tier_text num label (snd (snd p))"
proof -
  have "map (extra_text num (tier_price (restored_tier p))) BILLING_CACHE_VAR_MAP =
      map (extra_text num (tier_price (snd (snd p)))) BILLING_CACHE_VAR_MAP"
    by (rule map_cong) (auto simp: extra_text_def restored_price price_fields_def)
  then have extras: "concat (map (extra_text num (tier_price (restored_tier p))) BILLING_CACHE_VAR_MAP) =
      concat (map (extra_text num (tier_price (snd (snd p)))) BILLING_CACHE_VAR_MAP)"
    by (rule arg_cong)
  show ?thesis
    unfolding tier_text_def body_text extras by (simp add: restored_price price_fields_def)
qed

lemma restored_fields: "vt_label (restored_tier p) = fst (snd p)" "vt_conditions (restored_tier p) = fst p"
  by (simp_all add: restored_tier_def Let_def)

lemma numbered_restored:
  "list_all (\<lambda>p. fst (snd p) \<noteq> []) ps \<Longrightarrow>
     numbered_pieces i (map restored_tier ps) = map (\<lambda>p. (fst p, fst (snd p), restored_tier p)) ps"
  by (induction ps arbitrary: i) (simp_all add: restored_fields or_str_def)

lemma numbered_named: "list_all (\<lambda>p. fst (snd p) \<noteq> []) (numbered_pieces i ts)"
  by (induction ts arbitrary: i) (simp_all add: or_str_def lit_def)

lemma pieces_named: "list_all (\<lambda>p. fst (snd p) \<noteq> []) (tier_pieces cfg)"
  using numbered_named [of 1 cfg] by (auto simp: tier_pieces_def or_str_def lit_def split: list.split)

lemma restored_pieces:
  "tier_pieces (restored_config cfg) = map (\<lambda>p. (fst p, fst (snd p), restored_tier p)) (tier_pieces cfg)"
proof -
  have "tier_pieces (map restored_tier ps) = map (\<lambda>p. (fst p, fst (snd p), restored_tier p)) ps"
    if "list_all (\<lambda>p. fst (snd p) \<noteq> []) ps" for ps
    using numbered_restored [OF that, of 1] that
    by (auto simp: tier_pieces_def restored_fields or_str_def split: list.split)
  then show ?thesis
    using pieces_named [of cfg] by (simp add: restored_config_def)
qed

lemma numbered_conditions: "map fst (numbered_pieces i ts) = map vt_conditions ts"
  by (induction ts arbitrary: i) simp_all

lemma restored_conditions: "map vt_conditions (restored_config cfg) = map vt_conditions cfg"
proof -
  have "map fst (tier_pieces cfg) = map vt_conditions cfg"
    using numbered_conditions [of 1 cfg] by (auto simp: tier_pieces_def split: list.split)
  then show ?thesis
    by (simp add: restored_config_def restored_fields comp_def)
qed

definition conditions_shape :: "tier_condition list list \<Rightarrow> bool" where
  "conditions_shape cs \<longleftrightarrow> cs \<noteq> [] \<and> list_all (\<lambda>c. c \<noteq> []) (butlast cs) \<and> (length cs > 1 \<longrightarrow> last cs = [])"

lemma editable_shape:
  "editable_config num cfg \<longleftrightarrow> list_all (tier_ok num) cfg \<and> conditions_shape (map vt_conditions cfg)"
  by (cases "cfg = []") (auto simp: editable_config_def conditions_shape_def last_map map_butlast [symmetric] list_all_iff)

lemma restored_editable:
  assumes "editable_config num cfg"
  shows "editable_config num (restored_config cfg)"
proof -
  have "list_all (tier_ok num) (restored_config cfg)"
    using pieces_ok [OF assms]
    by (auto simp: restored_config_def list_all_iff tier_ok_def piece_ok_def restored_fields restored_prices_ok)
  then show ?thesis
    using assms by (simp add: editable_shape restored_conditions)
qed

lemma config_tail_conditions: "map vt_conditions cfg = map vt_conditions cfg' \<Longrightarrow> config_tail cfg = config_tail cfg'"
  by (auto simp: config_tail_def split: list.split)

lemma restored_generate:
  assumes "editable_config num cfg"
  shows "generateExprFromVisualConfig num (Some (restored_config cfg)) = generateExprFromVisualConfig num (Some cfg)"
proof -
  have "map (tier_piece num) (tier_pieces (restored_config cfg)) = map (tier_piece num) (tier_pieces cfg)"
    unfolding restored_pieces by (simp add: tier_piece_def restored_text)
  then show ?thesis
    unfolding config_text [OF assms] config_text [OF restored_editable [OF assms]]
    using config_tail_conditions [OF restored_conditions] by simp
qed

lemma normalize_config:
  "ps \<noteq> [] \<Longrightarrow> normalizeVisualConfig (Some (map restored_tier ps)) = map restored_tier ps"
  by (cases ps) (simp_all add: normalizeVisualConfig_def normalize_restored)

text \<open>The first character of a text\<close>

lemma piece_hd:
  assumes "piece_ok num p"
  shows "hd (tier_piece num p @ s) \<in> {112, 99, 108, 116}" "fst p \<noteq> [] \<Longrightarrow> hd (tier_piece num p @ s) \<noteq> 116"
proof -
  have conds: "hd (tier_piece num p @ s) \<in> {112, 99, 108}" if nonempty: "fst p \<noteq> []"
  proof -
    obtain c ds where ds: "fst p = c # ds"
      using nonempty by (cases "fst p") auto
    then have c: "condition_ok num c"
      using assms by (simp add: piece_ok_def)
    have "\<exists>u. tier_piece num p @ s = condition_text num c @ u"
      by (simp add: tier_piece_def ds conds_text_def join_plus del: join.simps)
    then obtain u where u: "tier_piece num p @ s = condition_text num c @ u"
      by blast
    show ?thesis
      unfolding u by (rule condition_hd(2) [OF c])
  qed
  have none: "hd (tier_piece num p @ s) = 116" if "fst p = []"
    using that by (simp add: tier_piece_def tier_text_def lit_def)
  show "hd (tier_piece num p @ s) \<in> {112, 99, 108, 116}"
    using conds none by (cases "fst p = []") auto
  show "fst p \<noteq> [] \<Longrightarrow> hd (tier_piece num p @ s) \<noteq> 116"
    using conds by auto
qed

subsection \<open>The visual editor reads back what it writes\<close>

lemma strip_none: "s \<noteq> [] \<Longrightarrow> hd s \<noteq> 118 \<Longrightarrow> snd (stripExprVersion s) = s"
  by (cases s) (simp_all add: stripExprVersion_def)

lemma generated_body:
  assumes "editable_config num cfg"
  shows "generateExprFromVisualConfig num (Some cfg) \<noteq> [] \<and>
    snd (stripExprVersion (generateExprFromVisualConfig num (Some cfg))) = generateExprFromVisualConfig num (Some cfg)"
proof -
  obtain p ps where ps: "tier_pieces cfg = p # ps"
    using assms by (cases cfg; cases "tl cfg") (auto simp: editable_config_def tier_pieces_def)
  have p: "piece_ok num p"
    using pieces_ok [OF assms] ps by simp
  obtain rest where E: "generateExprFromVisualConfig num (Some cfg) = tier_piece num p @ rest"
    unfolding config_text [OF assms] ps by (simp add: join_plus del: join.simps)
  show ?thesis
    unfolding E using piece_hd(1) [OF p, of rest] strip_none [of "tier_piece num p @ rest"] by (auto simp: tier_piece_nonempty)
qed

lemma single_match:
  assumes "tier_label_ok label" "tier_prices_ok num t"
  shows "match_rx singleRe (tier_text num label t) = Some (body_caps num t 2 @ [(1, label)])"
proof -
  have "takes (seqs [Eol]) [] [] (body_caps num t 2 @ [(1, label)]) (body_caps num t 2 @ [(1, label)])"
    by (simp add: takes_def goes_def seqs_def)
  then have "takes (seqs ([tier_head_rx 1, bodyPat 2, text_rx (lit '')'')] @ [Eol])) (tier_text num label t @ []) [] []
      (body_caps num t 2 @ [(1, label)])"
    using assms by (intro takes_tier) (simp_all add: tier_label_ok_def)
  then show ?thesis
    unfolding singleRe_def by (intro match_rx_Bol) simp
qed

lemma single_no_match:
  assumes "s \<noteq> []" "hd s \<noteq> 116"
  shows "match_rx singleRe s = None"
proof -
  have "rx (seqs (tier_head_rx 1 # [bodyPat 2, text_rx (lit '')''), Eol])) ([], s, []) = []"
    by (rule starts_inD [OF starts_in_tier_head]) (use assms in simp)
  then show ?thesis
    unfolding singleRe_def by (intro match_rx_Bol_none) (simp add: seqs_def)
qed

lemma piece_matched:
  assumes "piece_ok num p"
  shows "(let m = body_caps num (snd (snd p)) 3 @ head_caps num p
     in matched_tier m 3 (cap m 2) (map visual_condition (parse_conditions (cap m 1)))) = restored_tier p"
proof -
  let ?m = "body_caps num (snd (snd p)) 3 @ head_caps num p"
  have label: "cap ?m 2 = fst (snd p)"
    by (simp add: cap_def body_caps_map head_caps_def coalesce_def del: map_of_append)
  have "cap ?m 1 = conds_text num (fst p)"
    by (simp add: cap_def body_caps_map head_caps_def coalesce_def conds_text_def del: map_of_append)
  then have "map visual_condition (parse_conditions (cap ?m 1)) = fst p"
    using assms parse_conditions_text [of num "fst p"] by (simp add: piece_ok_def)
  moreover have "\<forall>k \<ge> 3. map_of (head_caps num p) k = None"
    by (simp add: head_caps_def)
  ultimately show ?thesis
    using assms matched_tier_restored [of num "snd (snd p)" 3 "head_caps num p"] label
    by (simp add: Let_def piece_ok_def del: append_assoc)
qed

lemma read_back_visual:
  assumes "editable_config num cfg"
  shows "tryParseVisualConfig num (Some (generateExprFromVisualConfig num (Some cfg))) = Some (restored_config cfg)"
proof -
  let ?E = "generateExprFromVisualConfig num (Some cfg)"
  let ?ps = "tier_pieces cfg"
  obtain p ps where ps: "?ps = p # ps"
    using assms by (cases cfg; cases "tl cfg") (auto simp: editable_config_def tier_pieces_def)
  have p: "piece_ok num p"
    using pieces_ok [OF assms] ps by simp
  obtain rest where E: "?E = tier_piece num p @ rest"
    unfolding config_text [OF assms] ps by (simp add: join_plus del: join.simps)
  have nonempty: "?E \<noteq> []" and body: "snd (stripExprVersion ?E) = ?E"
    using generated_body [OF assms] by simp_all
  show ?thesis
  proof (cases "length cfg = 1 \<and> fst p = []")
    case True
    then obtain t where t: "cfg = [t]"
      by (cases cfg) auto
    have p_eq: "p = ([], or_str (vt_label t) (lit ''default''), t)"
      using ps True t by (auto simp: tier_pieces_def)
    have "?E = tier_text num (fst (snd p)) t"
      unfolding config_text [OF assms] by (use p_eq True t in \<open>simp add: tier_pieces_def tier_piece_def config_tail_def\<close>) (use ps in \<open>simp add: t tier_pieces_def\<close>)
    then have "match_rx singleRe ?E = Some (body_caps num t 2 @ [(1, fst (snd p))])"
      using p p_eq by (simp add: single_match piece_ok_def)
    moreover have "cap (body_caps num t 2 @ [(1, fst (snd p))]) 1 = fst (snd p)"
      by (simp add: cap_def body_caps_map coalesce_def del: map_of_append)
    moreover have "matched_tier (body_caps num t 2 @ [(1, fst (snd p))]) 2 (fst (snd p)) [] = restored_tier p"
      using matched_tier_restored [of num t 2 "[(1, fst (snd p))]" "fst (snd p)" "[]"] p p_eq by (simp add: piece_ok_def)
    moreover have "restored_config cfg = [restored_tier p]"
      using ps t by (simp add: restored_config_def tier_pieces_def)
    ultimately show ?thesis
      using normalize_config [of "[p]"] by (simp add: tryParseVisualConfig_def coalesce_def nonempty body Let_def)
  next
    case False
    have "fst p \<noteq> []"
      using False assms ps by (cases cfg; cases "tl cfg") (auto simp: editable_config_def tier_pieces_def)
    then have none: "match_rx singleRe ?E = None"
      using piece_hd(2) [OF p, of rest] by (intro single_no_match [OF nonempty]) (simp add: E)
    have "116 \<notin> set (config_tail cfg)"
      by (auto simp: config_tail_def no_tier_tail_def lit_def split: list.split)
    then have "all_rx visualTierRe [] ?E = map (\<lambda>p. body_caps num (snd (snd p)) 3 @ head_caps num p) ?ps"
      unfolding config_text [OF assms] by (rule all_visual_tiers [OF pieces_ok [OF assms]])
    moreover have "map (\<lambda>p. let m = body_caps num (snd (snd p)) 3 @ head_caps num p
        in matched_tier m 3 (cap m 2) (map visual_condition (parse_conditions (cap m 1)))) ?ps = restored_config cfg"
      unfolding restored_config_def by (rule map_cong [OF refl piece_matched]) (use pieces_ok [OF assms] in \<open>simp add: list_all_iff\<close>)
    ultimately have tiers: "map (\<lambda>m. matched_tier m 3 (cap m 2) (map visual_condition (parse_conditions (cap m 1)))) (all_rx visualTierRe [] ?E) =
        restored_config cfg"
      by (simp add: comp_def Let_def)
    have "restored_config cfg \<noteq> []" "normalizeVisualConfig (Some (restored_config cfg)) = restored_config cfg"
      using ps normalize_config [of ?ps] by (simp_all add: restored_config_def)
    moreover have "coalesce (Some ?E) [] = ?E"
      by (simp add: coalesce_def)
    ultimately show ?thesis
      unfolding tryParseVisualConfig_def Let_def by (simp only: nonempty body none tiers option.case restored_generate [OF assms]) simp
  qed
qed

text \<open>
  What the visual editor writes it reads back. For every configuration that it can hold (named or
  unnamed tiers, any number of them, conditions on the three variables with the four comparisons, prices
  that are printed in digits), the expression that \<open>generateExprFromVisualConfig\<close> composes is read by
  \<open>tryParseVisualConfig\<close> as the same tiers: the same conditions, the same price in every field, the label
  that the text has, the cache mode that the prices imply; and composing that configuration gives the same
  expression again.
\<close>

theorem tryParseVisualConfig_generate:
  assumes "editable_config num cfg"
  shows "tryParseVisualConfig num (Some (generateExprFromVisualConfig num (Some cfg))) = Some (restored_config cfg) \<and>
    map vt_conditions (restored_config cfg) = map vt_conditions cfg \<and>
    map (\<lambda>t. map (tier_price t) price_fields) (restored_config cfg) = map (\<lambda>t. map (tier_price t) price_fields) cfg \<and>
    generateExprFromVisualConfig num (Some (restored_config cfg)) = generateExprFromVisualConfig num (Some cfg)"
proof -
  have "map (\<lambda>p. snd (snd p)) (numbered_pieces i ts) = ts" for i ts
    by (induction ts arbitrary: i) simp_all
  from this [of 1 cfg] have "map (\<lambda>p. snd (snd p)) (tier_pieces cfg) = cfg"
    by (auto simp: tier_pieces_def split: list.split)
  then have "map (\<lambda>t. map (tier_price t) price_fields) cfg =
      map (\<lambda>t. map (tier_price t) price_fields) (map (\<lambda>p. snd (snd p)) (tier_pieces cfg))"
    by simp
  also have "\<dots> = map (\<lambda>t. map (tier_price t) price_fields) (restored_config cfg)"
    by (simp add: restored_config_def restored_price)
  finally show ?thesis
    using read_back_visual [OF assms] restored_conditions restored_generate [OF assms] by simp
qed

definition sample_tier :: "string \<Rightarrow> tier_condition list \<Rightarrow> jnum \<Rightarrow> visual_tier" where
  "sample_tier label ds n = \<lparr>vt_label = lit label, vt_conditions = ds, vt_cache_mode = Generic,
     vt_costs = [(lit ''input_unit_cost'', n), (lit ''output_unit_cost'', Fin 7), (lit ''cache_read_unit_cost'', Fin 3)]\<rparr>"

definition sample_num :: "rat \<Rightarrow> jstring" where
  "sample_num q = (if q = 3 then lit ''3'' else if q = 7 then lit ''7'' else if q = 0 then lit ''0'' else lit ''200000'')"

lemma tryParseVisualConfig_generate_witness:
  "let cfg = [sample_tier ''base'' [\<lparr>tc_var = lit ''len'', tc_op = lit ''<='', tc_value = JNum (Fin 200000)\<rparr>] (Fin 3), sample_tier [] [] (Fin 7)]
   in generateExprFromVisualConfig sample_num (Some cfg) =
        lit ''len <= 200000 ? tier('' @ 34 # lit ''base'' @ 34 # lit '', p * 3 + c * 7 + cr * 3) : tier('' @ 34 # lit ''tier_2'' @ 34 # lit '', p * 7 + c * 7 + cr * 3)'' \<and>
      tryParseVisualConfig sample_num (Some (generateExprFromVisualConfig sample_num (Some cfg))) = Some (restored_config cfg)"
proof -
  let ?cfg = "[sample_tier ''base'' [\<lparr>tc_var = lit ''len'', tc_op = lit ''<='', tc_value = JNum (Fin 200000)\<rparr>] (Fin 3), sample_tier [] [] (Fin 7)]"
  have "editable_config sample_num ?cfg"
    by code_simp
  from tryParseVisualConfig_generate [OF this] have "tryParseVisualConfig sample_num (Some (generateExprFromVisualConfig sample_num (Some ?cfg))) =
      Some (restored_config ?cfg)"
    by (rule conjunct1)
  moreover have "generateExprFromVisualConfig sample_num (Some ?cfg) =
        lit ''len <= 200000 ? tier('' @ 34 # lit ''base'' @ 34 # lit '', p * 3 + c * 7 + cr * 3) : tier('' @ 34 # lit ''tier_2'' @ 34 # lit '', p * 7 + c * 7 + cr * 3)''"
    by code_simp
  ultimately show ?thesis
    by (simp add: Let_def)
qed

end
