(* ===== verification/Tier_Prices.thy ===== *)
theory Tier_Prices
  imports Tier_Roundtrip
begin

section \<open>The price pages read the tiers of the visual editor\<close>

text \<open>
  \<^verbatim>\<open>parseTiersFromExpr\<close> finds the tiers of a composed expression, and \<^verbatim>\<open>parseTierBody\<close> in each of them the
  price of every variable; a variable whose name starts another one's is told from it by the character
  that has to follow.
\<close>

subsection \<open>One of several names\<close>

lemma rx_text_cases:
  "rx (text_rx v) (b, s, cs) = (if take (length v) s = v then [(rev v @ b, drop (length v) s, cs)] else [])"
proof (induction v arbitrary: b s)
  case Nil
  then show ?case
    by (simp add: text_rx_def)
next
  case (Cons c v)
  then show ?case
    by (cases s) (simp_all add: text_rx_def ch_def)
qed

lemma rx_grp_text_cases:
  "rx (grp_opt g (text_rx v)) (b, s, cs) =
     (if take (length v) s = v then [(rev v @ b, drop (length v) s, with_cap g v cs)] else [])"
proof (cases "take (length v) s = v")
  case True
  then have "s = v @ drop (length v) s"
    by (metis append_take_drop_id)
  then show ?thesis
    using True rx_grp_text [of g v b "drop (length v) s" cs] by simp
next
  case False
  then show ?thesis
    by (simp add: rx_grp_fail rx_text_cases)
qed

lemma grp_name_fail:
  assumes "\<And>cs. rx (Seq (text_rx v) q) (b, s, cs) = []"
  shows "rx (Seq (grp_opt g (text_rx v)) q) (b, s, cs) = []"
  using assms [of "with_cap g v cs"] by (simp add: rx_grp_text_cases rx_text_cases split: if_splits)

lemma takes_names:
  assumes "list_all name_ok vs" "v \<in> set vs" "u @ s \<noteq> []" "\<not> is_word (hd (u @ s))" "\<not> is_word c" "\<not> is_ws c"
    and q: "takes (Seq ws_rx (Seq (ch c) q)) u s (with_cap g v cs) cs'"
  shows "takes (Seq (grp_opt g (alts (map text_rx vs))) (Seq ws_rx (Seq (ch c) q))) (v @ u) s cs cs'"
proof -
  let ?q = "Seq ws_rx (Seq (ch c) q)"
  have step: "\<exists>ms. rx ?q (rev v @ b, u @ s, with_cap g v cs) = (rev u @ rev v @ b, s, cs') # ms" for b
    using q by (simp add: takes_def goes_def)
  have hit: "rx (grp_opt g (text_rx v)) (b, v @ u @ s, cs) = [(rev v @ b, u @ s, with_cap g v cs)]" for b
    by (rule rx_grp_text)
  have fails: "rx (Seq (grp_opt g (text_rx w)) ?q) (b, v @ u @ s, cs) = []" if w: "name_ok w" "w \<noteq> v" for w b
  proof (rule grp_name_fail)
    have "name_ok v"
      using assms(1, 2) by (simp add: list_all_iff)
    then show "rx (Seq (text_rx w) ?q) (b, v @ u @ s, cs) = []" for cs
      using w assms(3-6) by (intro name_fail) (auto simp: name_ok_def)
  qed
  have "\<exists>ms. rx (Seq (grp_opt g (alts (map text_rx ws))) ?q) (b, v @ u @ s, cs) = (rev u @ rev v @ b, s, cs') # ms"
    if "list_all name_ok ws" "v \<in> set ws" for ws b
    using that
  proof (induction ws)
    case (Cons w ws)
    show ?case
    proof (cases "ws = []")
      case True
      then show ?thesis
        using Cons.prems step hit by simp
    next
      case False
      then obtain x xs where ws: "ws = x # xs"
        by (cases ws) auto
      have alt: "rx (Seq (grp_opt g (alts (map text_rx (w # ws)))) ?q) (b, v @ u @ s, cs) =
          rx (Seq (grp_opt g (text_rx w)) ?q) (b, v @ u @ s, cs) @
          rx (Seq (grp_opt g (alts (map text_rx ws))) ?q) (b, v @ u @ s, cs)"
        by (simp add: ws rx_grp_Alt)
      show ?thesis
      proof (cases "w = v")
        case True
        obtain ms where "rx (Seq (grp_opt g (text_rx v)) ?q) (b, v @ u @ s, cs) = (rev u @ rev v @ b, s, cs') # ms"
          using step [of b] hit [of b] by auto
        then show ?thesis
          unfolding alt unfolding True by simp
      next
        case w: False
        have none: "rx (Seq (grp_opt g (text_rx w)) ?q) (b, v @ u @ s, cs) = []"
          using Cons.prems w by (intro fails) simp_all
        show ?thesis
          unfolding alt none append_Nil using Cons w by simp
      qed
    qed
  qed simp
  then show ?thesis
    using assms(1, 2) by (simp add: takes_def goes_def)
qed

lemma starts_in_names: "list_all name_ok vs \<Longrightarrow> vs \<noteq> [] \<Longrightarrow> starts_in is_word (alts (map text_rx vs))"
proof (induction vs)
  case (Cons v vs)
  obtain x v' where "v = x # v'" "is_word x"
    using Cons.prems by (cases v) (auto simp: name_ok_def)
  then have v: "starts_in is_word (text_rx v)"
    by (simp add: starts_in_text)
  show ?case
  proof (cases vs)
    case Nil
    then show ?thesis
      using v by simp
  next
    case (Cons w ws)
    then show ?thesis
      using Cons.IH Cons.prems v by (simp add: starts_in_Alt)
  qed
qed simp

subsection \<open>The prices of the text of a tier\<close>

definition pricing_names :: "jstring list" where
  "pricing_names = map bv_key BILLING_PRICING_VARS"

lemma pricing_names: "pricing_names = [lit ''p'', lit ''c'', lit ''cr'', lit ''cc'', lit ''cc1h'', lit ''img'', lit ''img_o'', lit ''ai'', lit ''ao'']"
  by (simp add: pricing_names_def BILLING_PRICING_VARS_def BILLING_VARS_def)

lemma pricing_names_ok: "list_all name_ok pricing_names"
  by (simp add: pricing_names name_ok_def lit_def is_word_def is_digit_def)

definition price_tail :: regex where
  "price_tail = seqs [ws_rx, Grp 2 (plus_rx (Cls num_char))]"

lemma var_regex: "BILLING_VAR_REGEX = Seq WordB (Seq (grp_opt (Some 1) (alts (map text_rx pricing_names))) (Seq ws_rx (Seq (ch 42) price_tail)))"
  by (simp add: BILLING_VAR_REGEX_def pricing_names_def price_tail_def seqs_def grp_opt_def comp_def)

lemma takes_named_price:
  assumes "v \<in> set pricing_names" "N \<noteq> []" "\<forall>c \<in> set N. num_char c" "s = [] \<or> \<not> num_char (hd s)"
  shows "takes (Seq (grp_opt (Some 1) (alts (map text_rx pricing_names))) (Seq ws_rx (Seq (ch 42) price_tail)))
    (v @ lit '' * '' @ N) s [] [(2, N), (1, v)]"
proof -
  have "takes (Seq ws_rx (Seq (ch 42) price_tail)) ([32] @ [42] @ [32] @ N @ []) s [(1, v)] [(2, N), (1, v)]"
    unfolding price_tail_def
    by (rule takes_Seq [OF takes_space takes_Seq [OF takes_ch takes_seqs_Cons [OF takes_space takes_seqs_Cons [OF takes_Grp [OF takes_run1] takes_seqs_Nil]]]])
      (use assms hd_not_ws [OF assms(2, 3) num_char_not_ws] in \<open>simp_all add: is_ws_def [of 42]\<close>)
  then show ?thesis
    using assms(1) by (intro takes_names [OF pricing_names_ok]) (simp_all add: with_cap_def star_text is_word_def is_digit_def is_ws_def)
qed

lemma goes_var_regex:
  assumes "v \<in> set pricing_names" "N \<noteq> []" "\<forall>c \<in> set N. num_char c" "s = [] \<or> \<not> num_char (hd s)" "\<not> word_at b"
  shows "goes BILLING_VAR_REGEX (b, (v @ lit '' * '' @ N) @ s, []) (rev (v @ lit '' * '' @ N) @ b, s, [(2, N), (1, v)])"
proof -
  have "name_ok v"
    using assms(1) pricing_names_ok by (simp add: list_all_iff)
  then have "word_at (v @ u)" for u
    by (cases v) (simp_all add: name_ok_def word_at_def)
  then have "goes WordB (b, (v @ lit '' * '' @ N) @ s, []) (b, (v @ lit '' * '' @ N) @ s, [])"
    using assms(5) by (simp add: goes_def)
  then show ?thesis
    unfolding var_regex using takes_named_price [OF assms(1-4)] unfolding takes_def by (blast intro: goes_Seq)
qed

lemma var_regex_fail: "s = [] \<or> \<not> is_word (hd s) \<Longrightarrow> rx BILLING_VAR_REGEX (b, s, cs) = []"
proof -
  assume s: "s = [] \<or> \<not> is_word (hd s)"
  have "starts_in is_word (grp_opt (Some 1) (alts (map text_rx pricing_names)))"
    by (intro starts_in_grp starts_in_names pricing_names_ok) (simp add: pricing_names)
  then have "rx (grp_opt (Some 1) (alts (map text_rx pricing_names))) (b, s, cs) = []"
    using s by (rule starts_inD)
  then show ?thesis
    by (simp add: var_regex)
qed

definition body_parts :: "visual_tier \<Rightarrow> (jstring \<times> jnum) list" where
  "body_parts t =
     [(lit ''p'', tier_price t (lit ''input_unit_cost'')), (lit ''c'', tier_price t (lit ''output_unit_cost''))] @
     map (\<lambda>(field, v). (v, tier_price t field)) (filter (\<lambda>(field, v). num_truthy (tier_price t field)) BILLING_CACHE_VAR_MAP)"

lemma body_parts_text: "buildTierBodyExpr num t = join (lit '' + '') (map (\<lambda>(v, n). price_part num v n) (body_parts t))"
proof -
  have "concat (map (\<lambda>(field, v). let n = number_or_zero (map_of (vt_costs t) field) in if num_truthy n then [price_part num v n] else []) es) =
    map (\<lambda>(v, n). price_part num v n) (map (\<lambda>(field, v). (v, tier_price t field)) (filter (\<lambda>(field, v). num_truthy (tier_price t field)) es))" for es
    by (induction es) (auto simp: Let_def tier_price_def)
  then show ?thesis
    by (simp add: buildTierBodyExpr_def body_parts_def cost_def tier_price_def del: join.simps)
qed

lemma names_of_map: "pricing_names = lit ''p'' # lit ''c'' # map snd BILLING_CACHE_VAR_MAP"
  by (simp add: pricing_names cache_vars)

lemma body_parts_ok:
  assumes "tier_prices_ok num t" "(v, n) \<in> set (body_parts t)"
  shows "v \<in> set pricing_names" "price_ok num n"
proof -
  have all: "price_ok num (tier_price t k)" if "k \<in> set price_fields" for k
    using assms(1) that by (simp add: tier_prices_ok_def list_all_iff)
  consider "v = lit ''p''" "n = tier_price t (lit ''input_unit_cost'')" | "v = lit ''c''" "n = tier_price t (lit ''output_unit_cost'')"
    | field where "(field, v) \<in> set BILLING_CACHE_VAR_MAP" "n = tier_price t field"
    using assms(2) by (auto simp: body_parts_def)
  then have "v \<in> set pricing_names \<and> price_ok num n"
  proof cases
    case (3 field)
    then have "v \<in> snd ` set BILLING_CACHE_VAR_MAP" "field \<in> set price_fields"
      by (force simp: price_fields_def)+
    then show ?thesis
      using all [of field] 3 by (simp add: names_of_map)
  qed (simp_all add: names_of_map all price_fields_def)
  then show "v \<in> set pricing_names" "price_ok num n"
    by simp_all
qed

lemma body_parts_names: "distinct (map fst (body_parts t))"
  by (simp add: body_parts_def cache_vars)

lemma body_matches:
  assumes "tier_prices_ok num t"
  shows "all_rx BILLING_VAR_REGEX [] (buildTierBodyExpr num t) = map (\<lambda>(v, n). [(2, num_string num n), (1, v)]) (body_parts t)"
proof -
  let ?ps = "map (\<lambda>(v, n). (price_part num v n, [(2::nat, num_string num n), (1, v)])) (body_parts t)"
  have "all_rx BILLING_VAR_REGEX [] (join (lit '' + '') (map fst ?ps) @ []) = map snd ?ps"
  proof (rule all_rx_parts [where B = "\<lambda>b. \<not> word_at b" and S = "\<lambda>s. s = [] \<or> \<not> num_char (hd s)"])
    fix T c b s
    assume part: "(T, c) \<in> set ?ps" and b: "\<not> word_at b" and s: "s = [] \<or> \<not> num_char (hd s)"
    then obtain v n where vn: "(v, n) \<in> set (body_parts t)" "T = v @ lit '' * '' @ num_string num n" "c = [(2, num_string num n), (1, v)]"
      by (auto simp: price_part_def)
    note ok = body_parts_ok [OF assms vn(1)]
    show "T \<noteq> [] \<and> goes BILLING_VAR_REGEX (b, T @ s, []) (rev T @ b, s, c)"
      unfolding vn(2, 3) using goes_var_regex [OF ok(1) price_ok_text(1, 2) [OF ok(2)] s b] by (simp add: star_text)
  next
    fix c s b
    assume "c \<in> set (lit '' + '')"
    then show "rx BILLING_VAR_REGEX (b, c # s, []) = []"
      by (intro var_regex_fail) (auto simp: plus_text is_word_def is_digit_def)
  next
    show "search_rx BILLING_VAR_REGEX b [] = None" for b
      by (rule search_rx_end) (simp add: var_regex_fail)
  qed (simp_all add: plus_text word_at_def is_word_def num_char_def is_digit_def)
  then show ?thesis
    unfolding body_parts_text by (simp add: comp_def split_def)
qed

definition add_coeff :: "captures \<Rightarrow> (jstring \<times> jnum) list \<Rightarrow> (jstring \<times> jnum) list" where
  "add_coeff m cs = (if map_of cs (cap m 1) = None then cs @ [(cap m 1, string_num (cap m 2))] else cs)"

lemma coeffs_of_parts:
  assumes "distinct (map fst ps)" "set (map fst acc) \<inter> set (map fst ps) = {}" "\<forall>(v, n) \<in> set ps. string_num (num_string num n) = n"
  shows "fold add_coeff (map (\<lambda>(v, n). [(2, num_string num n), (1, v)]) ps) acc = acc @ ps"
  using assms
proof (induction ps arbitrary: acc)
  case (Cons p ps)
  obtain v n where p: "p = (v, n)"
    by (cases p)
  have "add_coeff [(2, num_string num n), (1, v)] acc = acc @ [(v, n)]"
    using Cons.prems by (auto simp: add_coeff_def cap_def coalesce_def p map_of_eq_None_iff)
  moreover have "fold add_coeff (map (\<lambda>(v, n). [(2, num_string num n), (1, v)]) ps) (acc @ [(v, n)]) = (acc @ [(v, n)]) @ ps"
    using Cons.prems by (intro Cons.IH) (auto simp: p)
  ultimately show ?case
    by (simp add: p)
qed simp

text \<open>The prices that the price pages show\<close>

definition shown_prices :: "visual_tier \<Rightarrow> (jstring \<times> jnum) list" where
  "shown_prices t = map (\<lambda>v. (coalesce (bv_field v) [], tier_price t (coalesce (bv_tierField v) []))) BILLING_PRICING_VARS"

lemma filtered_none:
  "k \<notin> snd ` set es \<Longrightarrow>
     map_of (map (\<lambda>(field, v). (v, tier_price t field)) (filter (\<lambda>(field, v). num_truthy (tier_price t field)) es)) k = None"
  by (induction es) auto

lemma body_prices:
  assumes "tier_prices_ok num t"
  shows "parseTierBody (buildTierBodyExpr num t) = shown_prices t"
proof -
  have "\<forall>(v, n) \<in> set (body_parts t). string_num (num_string num n) = n"
    using body_parts_ok(2) [OF assms] price_ok_text(3) by auto
  then have "fold add_coeff (all_rx BILLING_VAR_REGEX [] (buildTierBodyExpr num t)) [] = body_parts t"
    unfolding body_matches [OF assms] using coeffs_of_parts [OF body_parts_names, of "[]" t num] by simp
  then have coeffs: "fold (\<lambda>m cs. if map_of cs (cap m 1) = None then cs @ [(cap m 1, string_num (cap m 2))] else cs)
      (all_rx BILLING_VAR_REGEX [] (buildTierBodyExpr num t)) [] = body_parts t"
    unfolding add_coeff_def .
  have extra: "number_or_zero (map_of (map (\<lambda>(field, v). (v, tier_price t field)) (filter (\<lambda>(field, v). num_truthy (tier_price t field)) es)) v) = tier_price t field"
    if "(field, v) \<in> set es" "distinct (map snd es)" for field v es
    using that
  proof (induction es)
    case (Cons e es)
    have none: "map_of (map (\<lambda>(field, v). (v, tier_price t field)) (filter (\<lambda>(field, v). num_truthy (tier_price t field)) es)) (snd e) = None"
      using filtered_none [of "snd e" es] Cons.prems(2) by simp
    show ?case
    proof (cases "e = (field, v)")
      case True
      then show ?thesis
        using none tier_price_falsy [of t field] by (cases "num_truthy (tier_price t field)") (simp_all add: number_or_zero_def)
    next
      case False
      then have "(field, v) \<in> set es"
        using Cons.prems(1) by auto
      moreover have "snd e \<noteq> v"
        using Cons.prems(2) image_eqI [OF _ \<open>(field, v) \<in> set es\<close>, of v snd] by auto
      ultimately show ?thesis
        using Cons by (cases e) simp
    qed
  qed simp
  have base: "map_of (body_parts t) (lit ''p'') = Some (tier_price t (lit ''input_unit_cost''))"
    "map_of (body_parts t) (lit ''c'') = Some (tier_price t (lit ''output_unit_cost''))"
    by (simp_all add: body_parts_def)
  have more: "number_or_zero (map_of (body_parts t) v) = tier_price t field" if "(field, v) \<in> set BILLING_CACHE_VAR_MAP" for field v
  proof -
    have "lit ''p'' \<notin> snd ` set BILLING_CACHE_VAR_MAP" "lit ''c'' \<notin> snd ` set BILLING_CACHE_VAR_MAP"
      by (simp_all add: cache_vars)
    moreover have "v \<in> snd ` set BILLING_CACHE_VAR_MAP"
      using image_eqI [OF _ that, of v snd] by simp
    ultimately have "v \<noteq> lit ''p''" "v \<noteq> lit ''c''"
      by metis+
    moreover have "distinct (map snd BILLING_CACHE_VAR_MAP)"
      by (simp add: cache_vars)
    ultimately show ?thesis
      using extra [OF that] by (simp add: body_parts_def)
  qed
  show ?thesis
    unfolding parseTierBody_def coeffs Let_def
    by (simp add: shown_prices_def BILLING_VAR_KEY_TO_FIELD_def BILLING_PRICING_VARS_def BILLING_VARS_def coalesce_def base
        more cache_vars tier_price_idem)
qed

subsection \<open>The tiers of an expression\<close>

lemma body_no_paren:
  assumes "tier_prices_ok num t"
  shows "\<forall>c \<in> set (buildTierBodyExpr num t). c \<noteq> 41"
proof -
  have part: "c \<noteq> 41" if "(v, n) \<in> set (body_parts t)" "c \<in> set (price_part num v n)" for v n c
  proof -
    have "name_ok v"
      using body_parts_ok(1) [OF assms that(1)] pricing_names_ok by (simp add: list_all_iff)
    then have name: "\<forall>c \<in> set v. is_word c"
      by (simp add: name_ok_def)
    have digits: "\<forall>c \<in> set (num_string num n). num_char c"
      by (rule price_ok_text(2) [OF body_parts_ok(2) [OF assms that(1)]])
    have "\<not> is_word 41" "\<not> num_char 41"
      by (simp_all add: is_word_def num_char_def is_digit_def)
    then show ?thesis
      using that(2) name digits by (auto simp: price_part_def star_text)
  qed
  show ?thesis
  proof
    fix c
    assume "c \<in> set (buildTierBodyExpr num t)"
    then have "c \<in> set (lit '' + '') \<union> (\<Union>x \<in> set (map (\<lambda>(v, n). price_part num v n) (body_parts t)). set x)"
      using set_join unfolding body_parts_text by blast
    then consider "c \<in> set (lit '' + '')" | v n where "(v, n) \<in> set (body_parts t)" "c \<in> set (price_part num v n)"
      by auto
    then show "c \<noteq> 41"
      using part by cases (auto simp: plus_text)
  qed
qed

lemma takes_any_tier:
  assumes "tier_label_ok label" "tier_prices_ok num t"
  shows "takes (seqs [tier_head_rx n, Grp m (plus_rx (Cls (\<lambda>c. c \<noteq> 41))), text_rx (lit '')'')]) (tier_text num label t) s cs
    ((m, buildTierBodyExpr num t) # (n, label) # cs)"
proof -
  have "takes (seqs [tier_head_rx n, Grp m (plus_rx (Cls (\<lambda>c. c \<noteq> 41))), text_rx (lit '')'')])
      ((lit ''tier('' @ 34 # label @ 34 # lit '', '') @ buildTierBodyExpr num t @ lit '')'' @ []) s cs
      ((m, buildTierBodyExpr num t) # (n, label) # cs)"
    by (rule takes_seqs_Cons [OF takes_tier_head takes_seqs_Cons [OF takes_Grp [OF takes_run1] takes_seqs_Cons [OF takes_text takes_seqs_Nil]]])
      (use assms body_text_hd [of num t] body_no_paren [OF assms(2)] in \<open>auto simp: is_ws_def lit_def tier_label_ok_def\<close>)
  then show ?thesis
    by (simp add: tier_text_def lit_def)
qed

lemma takes_shown_piece:
  assumes "piece_ok num p"
  shows "takes tierRe (tier_piece num p) s [] ((3, buildTierBodyExpr num (snd (snd p))) # head_caps num p)"
proof (cases "fst p = []")
  case True
  have "takes (seqs (opt_cond_rx # [tier_head_rx 2, Grp 3 (plus_rx (Cls (\<lambda>c. c \<noteq> 41))), text_rx (lit '')'')]))
      ([] @ tier_text num (fst (snd p)) (snd (snd p))) s []
      ((3, buildTierBodyExpr num (snd (snd p))) # (2, fst (snd p)) # [])"
    by (rule takes_seqs_Cons [OF _ takes_any_tier])
      (use assms takes_no_cond tier_text_hd [of num "fst (snd p)" "snd (snd p)" s] in \<open>simp_all add: piece_ok_def, metis\<close>)
  then show ?thesis
    by (simp add: tierRe_def True tier_piece_def head_caps_def)
next
  case False
  have "takes (seqs (opt_cond_rx # [tier_head_rx 2, Grp 3 (plus_rx (Cls (\<lambda>c. c \<noteq> 41))), text_rx (lit '')'')]))
      ((conds_text num (fst p) @ lit '' ? '') @ tier_text num (fst (snd p)) (snd (snd p))) s []
      ((3, buildTierBodyExpr num (snd (snd p))) # (2, fst (snd p)) # (1, conds_text num (fst p)) # [])"
    by (rule takes_seqs_Cons [OF takes_opt_cond takes_any_tier])
      (use assms False in \<open>simp_all add: piece_ok_def tier_text_def lit_def is_ws_def\<close>)
  then show ?thesis
    by (simp add: tierRe_def False tier_piece_def head_caps_def)
qed

lemma all_shown_tiers:
  assumes "list_all (piece_ok num) ps" "116 \<notin> set tail"
  shows "all_rx tierRe b (join (lit '' : '') (map (tier_piece num) ps) @ tail) =
    map (\<lambda>p. (3, buildTierBodyExpr num (snd (snd p))) # head_caps num p) ps"
proof -
  let ?caps = "\<lambda>p. (3, buildTierBodyExpr num (snd (snd p))) # head_caps num p"
  have skip: "rx tierRe (b, c # s, []) = []" if "c \<in> set (lit '' : '')" for c s b
    unfolding tierRe_def by (rule tier_rx_skip) (use that in \<open>auto simp: lit_def cond_start_def\<close>)
  have none: "search_rx tierRe b tail = None" for b
    unfolding tierRe_def by (rule search_rx_none, rule tier_rx_none) (use assms(2) in auto)
  have piece: "t \<noteq> [] \<and> goes tierRe (b, t @ s, []) (rev t @ b, s, c)"
    if "(t, c) \<in> set (map (\<lambda>p. (tier_piece num p, ?caps p)) ps)" for t c b s
    using that assms(1) takes_shown_piece by (auto simp: tier_piece_nonempty list_all_iff takes_def)
  have "all_rx tierRe b (join (lit '' : '') (map fst (map (\<lambda>p. (tier_piece num p, ?caps p)) ps)) @ tail) =
    map snd (map (\<lambda>p. (tier_piece num p, ?caps p)) ps)"
    by (rule all_rx_parts [where B = "\<lambda>_. True" and S = "\<lambda>_. True"]) (use skip none piece in auto)
  then show ?thesis
    by (simp add: comp_def)
qed

text \<open>
  The price pages show what the visual editor wrote. For every configuration that the editor can hold,
  \<open>parseTiersFromExpr\<close> finds in the composed expression one tier per tier of the configuration, in order,
  with the label of the text (unnamed tiers are numbered), its conditions, and for every priced variable the
  price of the tier: zero for those that the expression leaves out.
\<close>

theorem parseTiersFromExpr_generate:
  assumes "editable_config num cfg"
  shows "map (\<lambda>t. (map visual_condition (pt_conditions t), pt_label t, pt_prices t))
      (parseTiersFromExpr (generateExprFromVisualConfig num (Some cfg))) =
    map (\<lambda>p. (fst p, fst (snd p), shown_prices (snd (snd p)))) (tier_pieces cfg)"
proof -
  let ?E = "generateExprFromVisualConfig num (Some cfg)"
  have nonempty: "?E \<noteq> []" and body: "snd (stripExprVersion ?E) = ?E"
    using generated_body [OF assms] by simp_all
  have "116 \<notin> set (config_tail cfg)"
    by (auto simp: config_tail_def no_tier_tail_def lit_def split: list.split)
  then have all: "all_rx tierRe [] ?E = map (\<lambda>p. (3, buildTierBodyExpr num (snd (snd p))) # head_caps num p) (tier_pieces cfg)"
    unfolding config_text [OF assms] by (rule all_shown_tiers [OF pieces_ok [OF assms]])
  have piece: "map visual_condition (parse_conditions (cap ((3, buildTierBodyExpr num (snd (snd p))) # head_caps num p) 1)) = fst p \<and>
      cap ((3, buildTierBodyExpr num (snd (snd p))) # head_caps num p) 2 = fst (snd p) \<and>
      parseTierBody (cap ((3, buildTierBodyExpr num (snd (snd p))) # head_caps num p) 3) = shown_prices (snd (snd p))"
    if "p \<in> set (tier_pieces cfg)" for p
  proof -
    have p: "list_all (condition_ok num) (fst p)" "tier_prices_ok num (snd (snd p))"
      using pieces_ok [OF assms] that by (simp_all add: list_all_iff piece_ok_def)
    have "cap ((3, buildTierBodyExpr num (snd (snd p))) # head_caps num p) 1 = conds_text num (fst p)"
      by (simp add: cap_def head_caps_def coalesce_def conds_text_def)
    then show ?thesis
      using parse_conditions_text [OF p(1)] body_prices [OF p(2)] by (simp add: cap_def head_caps_def coalesce_def)
  qed
  show ?thesis
    unfolding parseTiersFromExpr_def body all using nonempty piece by (simp add: comp_def)
qed

lemma parseTiersFromExpr_generate_witness:
  "let cfg = [sample_tier ''base'' [\<lparr>tc_var = lit ''len'', tc_op = lit ''<='', tc_value = JNum (Fin 200000)\<rparr>] (Fin 3), sample_tier [] [] (Fin 7)]
   in map pt_label (parseTiersFromExpr (generateExprFromVisualConfig sample_num (Some cfg))) = [lit ''base'', lit ''tier_2'']"
proof -
  let ?cfg = "[sample_tier ''base'' [\<lparr>tc_var = lit ''len'', tc_op = lit ''<='', tc_value = JNum (Fin 200000)\<rparr>] (Fin 3), sample_tier [] [] (Fin 7)]"
  have "editable_config sample_num ?cfg"
    by code_simp
  from arg_cong [OF parseTiersFromExpr_generate [OF this], of "map (\<lambda>t. fst (snd t))"]
  have "map pt_label (parseTiersFromExpr (generateExprFromVisualConfig sample_num (Some ?cfg))) = map (\<lambda>p. fst (snd p)) (tier_pieces ?cfg)"
    by (simp add: comp_def)
  moreover have "map (\<lambda>p. fst (snd p)) (tier_pieces ?cfg) = [lit ''base'', lit ''tier_2'']"
    by code_simp
  ultimately show ?thesis
    by (simp add: Let_def)
qed

end
