(* ===== verification/Tiered_Editor.thy ===== *)
theory Tiered_Editor
  imports Tier_Roundtrip Billing_Roundtrip "HOL-Library.Monad_Syntax" "HOL-Library.AList"
begin

section \<open>The tiered price editor (\<^verbatim>\<open>system-settings/models/tiered-pricing-editor.tsx\<close>)\<close>

text \<open>
  The editor of a tiered price and the sheet that holds the stored texts. A state has the state of the
  component, the ref of its first effect, the values that the effects saw last, and the two texts of the
  sheet; \<open>price_commit\<close> is one rendering with its effects, whose reports reach the component with the next one.
  Handlers change the state, and price_commits follow until nothing changes.
\<close>

subsection \<open>Number fields\<close>

definition unitCostToPrice :: "jnum \<Rightarrow> jnum" where
  "unitCostToPrice uc = number_or_zero (Some uc)"

definition priceToUnitCost :: "jnum \<Rightarrow> jnum" where
  "priceToUnitCost price = number_or_zero (Some price)"

text \<open>A number or a text\<close>

definition formatNumberDraft :: "(rat \<Rightarrow> jstring) \<Rightarrow> jsval \<Rightarrow> jstring" where
  "formatNumberDraft num v =
     (case v of
        JNum n \<Rightarrow> if num_isFinite n then num_string num n else lit ''0''
      | JStr s \<Rightarrow> s
      | _ \<Rightarrow> [])"

definition parseNumberDraft :: "jstring \<Rightarrow> jnum" where
  "parseNumberDraft s =
     (if trim s = [] then Fin 0 else if num_isFinite (string_num s) then string_num s else Fin 0)"

definition isZeroDraft :: "jstring \<Rightarrow> bool" where
  "isZeroDraft s \<longleftrightarrow> trim s \<noteq> [] \<and> num_val (parseNumberDraft s) = Some 0"

definition scaled :: "jnum \<Rightarrow> rat \<Rightarrow> jnum" where
  "scaled n k = (case n of Fin q \<Rightarrow> Fin (q / k) | _ \<Rightarrow> n)"

text \<open>How a number is written in the language of the user is an argument.\<close>

definition formatTokenHint :: "(jnum \<Rightarrow> jstring) \<Rightarrow> jsval \<Rightarrow> jstring" where
  "formatTokenHint loc v =
     (let n = (case v of JNum k \<Rightarrow> k | JStr s \<Rightarrow> string_num s | _ \<Rightarrow> NaN) in
      if is_nullish v \<or> v = JStr [] \<or> n = NaN then []
      else if num_val n = Some 0 then lit ''= 0''
      else if num_less_eq (Fin 1000000) n then lit ''= '' @ loc (scaled n 1000000) @ lit ''M tokens''
      else if num_less_eq (Fin 1000) n then lit ''= '' @ loc (scaled n 1000) @ lit ''K tokens''
      else lit ''= '' @ loc n @ lit '' tokens'')"

record draft_input =
  di_draft :: jstring
  di_focused :: bool

definition draft_mount :: "(rat \<Rightarrow> jstring) \<Rightarrow> jsval \<Rightarrow> draft_input" where
  "draft_mount num v = \<lparr>di_draft = formatNumberDraft num v, di_focused = False\<rparr>"

definition draft_effect :: "(rat \<Rightarrow> jstring) \<Rightarrow> jsval \<Rightarrow> draft_input \<Rightarrow> draft_input" where
  "draft_effect num v d = (if di_focused d then d else d\<lparr>di_draft := formatNumberDraft num v\<rparr>)"

text \<open>The handlers, with the number that they report\<close>

definition draft_handleChange :: "jstring \<Rightarrow> draft_input \<Rightarrow> draft_input \<times> jnum" where
  "draft_handleChange s d = (d\<lparr>di_draft := s\<rparr>, parseNumberDraft s)"

definition draft_handleFocus :: "draft_input \<Rightarrow> draft_input" where
  "draft_handleFocus d = d\<lparr>di_focused := True\<rparr>"

definition draft_handleBlur :: "(rat \<Rightarrow> jstring) \<Rightarrow> jstring \<Rightarrow> draft_input \<Rightarrow> draft_input \<times> jnum" where
  "draft_handleBlur num s d =
     (d\<lparr>di_draft := num_string num (parseNumberDraft s), di_focused := False\<rparr>, parseNumberDraft s)"

subsection \<open>A tier (\<^verbatim>\<open>VisualTierCard\<close>)\<close>

definition without_index :: "nat \<Rightarrow> 'a list \<Rightarrow> 'a list" where
  "without_index k xs = map snd (filter (\<lambda>(i, _). i \<noteq> k) (List.enumerate 0 xs))"

definition tier_handleConditionChange :: "nat \<Rightarrow> tier_condition \<Rightarrow> visual_tier \<Rightarrow> visual_tier" where
  "tier_handleConditionChange k c tier = tier\<lparr>vt_conditions := (vt_conditions tier)[k := c]\<rparr>"

definition handleConditionRemove :: "nat \<Rightarrow> visual_tier \<Rightarrow> visual_tier" where
  "handleConditionRemove k tier = tier\<lparr>vt_conditions := without_index k (vt_conditions tier)\<rparr>"

definition handlePriceChange :: "jstring \<Rightarrow> jnum \<Rightarrow> visual_tier \<Rightarrow> visual_tier" where
  "handlePriceChange field v tier = tier\<lparr>vt_costs := AList.update field v (vt_costs tier)\<rparr>"

definition handleCacheModeChange :: "cache_mode \<Rightarrow> visual_tier \<Rightarrow> visual_tier" where
  "handleCacheModeChange m tier =
     tier\<lparr>vt_cache_mode := m,
       vt_costs := AList.update (lit ''cache_create_1h_unit_cost'')
         (if m = Timed then coalesce (map_of (vt_costs tier) (lit ''cache_create_1h_unit_cost'')) (Fin 0) else Fin 0)
         (vt_costs tier)\<rparr>"

definition handleLabelChange :: "jstring \<Rightarrow> visual_tier \<Rightarrow> visual_tier" where
  "handleLabelChange label tier = tier\<lparr>vt_label := label\<rparr>"

subsection \<open>The list of tiers (\<^verbatim>\<open>VisualEditor\<close>)\<close>

text \<open>Every handler starts from the normal form of the configuration that is shown.\<close>

definition handleTierChange :: "nat \<Rightarrow> visual_tier \<Rightarrow> visual_config option \<Rightarrow> visual_config" where
  "handleTierChange k tier config = (normalizeVisualConfig config)[k := normalizeVisualTier (as_partial tier)]"

definition default_bound :: "jstring \<Rightarrow> tier_condition" where
  "default_bound v = \<lparr>tc_var = v, tc_op = lit ''<'', tc_value = JNum (Fin 200000)\<rparr>"

definition handleAddTier :: "visual_config option \<Rightarrow> visual_config" where
  "handleAddTier config =
     (let tiers = normalizeVisualConfig config;
          bounded = (if tiers \<noteq> [] \<and> vt_conditions (last tiers) = []
            then butlast tiers @ [normalizeVisualTier (as_partial ((last tiers)\<lparr>vt_conditions := [default_bound (lit ''len'')]\<rparr>))]
            else tiers)
      in bounded @ [normalizeVisualTier \<lparr>pv_label = Some (lit ''tier_'' @ show_nat (length tiers + 1)), pv_conditions = Some [],
           pv_cache_mode = None, pv_costs = [(lit ''input_unit_cost'', Fin 0), (lit ''output_unit_cost'', Fin 0)]\<rparr>])"

definition handleRemoveTier :: "nat \<Rightarrow> visual_config option \<Rightarrow> visual_config" where
  "handleRemoveTier k config =
     (let tiers = without_index k (normalizeVisualConfig config) in
      if tiers \<noteq> [] then tiers else normalizeVisualConfig config)"

text \<open>The result is \<open>None\<close> when the tier has two conditions already: nothing is reported.\<close>

definition tier_handleAddCondition :: "nat \<Rightarrow> visual_config option \<Rightarrow> visual_config option" where
  "tier_handleAddCondition k config =
     (let tiers = normalizeVisualConfig config; tier = tiers ! k in
      if length (vt_conditions tier) \<ge> 2 then None
      else
        let nextVar = (if lit ''len'' \<in> set (map tc_var (vt_conditions tier)) then lit ''c'' else lit ''len'')
        in Some (tiers[k := tier\<lparr>vt_conditions := vt_conditions tier @ [default_bound nextVar]\<rparr>]))"

subsection \<open>Request rules\<close>

definition handleSourceChange :: "jstring \<Rightarrow> request_condition \<Rightarrow> request_condition" where
  "handleSourceChange source c =
     (if source = lit ''time'' then createEmptyTimeCondition
      else if source = lit ''header'' \<or> source = lit ''param'' then
        (case createEmptyCondition of PH_condition _ p m v \<Rightarrow> PH_condition source p m v | other \<Rightarrow> other)
      else c)"

definition rule_handleModeChange :: "jstring \<Rightarrow> request_condition \<Rightarrow> request_condition" where
  "rule_handleModeChange mode c =
     (case c of
        Time_condition f tz m v a b \<Rightarrow> Time_condition f tz mode v a b
      | PH_condition src p m v \<Rightarrow> PH_condition src p mode v)"

definition rule_handleConditionChange :: "nat \<Rightarrow> request_condition \<Rightarrow> request_rule_group \<Rightarrow> request_rule_group" where
  "rule_handleConditionChange k c g = g\<lparr>conditions := (conditions g)[k := c]\<rparr>"

definition rule_handleAddCondition :: "bool \<Rightarrow> request_rule_group \<Rightarrow> request_rule_group" where
  "rule_handleAddCondition timeMode g =
     g\<lparr>conditions := conditions g @ [if timeMode then createEmptyTimeCondition else createEmptyCondition]\<rparr>"

definition rule_condition_remove :: "nat \<Rightarrow> request_rule_group \<Rightarrow> request_rule_group" where
  "rule_condition_remove k g = g\<lparr>conditions := without_index k (conditions g)\<rparr>"

definition multiplier_change :: "(rat \<Rightarrow> jstring) \<Rightarrow> jnum \<Rightarrow> request_rule_group \<Rightarrow> request_rule_group" where
  "multiplier_change num v g = g\<lparr>multiplier := num_string num v\<rparr>"

subsection \<open>The editor\<close>

datatype editor_mode = Visual_mode | Raw_mode

record tiered_editor =
  te_mode :: editor_mode
  te_config :: "visual_config option"
  te_raw :: jstring
  te_groups :: "request_rule_group list"
  te_init :: bool
  te_name :: jstring
  te_billing :: jstring
  te_rules :: jstring
  te_seen :: "(jstring \<times> jstring) option"
  te_name_seen :: "jstring option"

text \<open>\<^verbatim>\<open>tryParseRequestRuleExpr(expr) || []\<close>; the result is \<open>None\<close> where it throws.\<close>

definition groups_of :: "(rat \<Rightarrow> jstring) \<Rightarrow> jstring \<Rightarrow> request_rule_group list option" where
  "groups_of num expr =
     (case tryParseRequestRuleExpr (num_string num) expr of Match gs \<Rightarrow> Some gs | No_match \<Rightarrow> Some [] | Throws \<Rightarrow> None)"

definition split_of :: "(rat \<Rightarrow> jstring) \<Rightarrow> jstring \<Rightarrow> split_expr option" where
  "split_of num expr =
     (case splitBillingExprAndRequestRules (num_string num) expr of Match r \<Rightarrow> Some r | _ \<Rightarrow> None)"

definition mount :: "(rat \<Rightarrow> jstring) \<Rightarrow> jstring \<Rightarrow> jstring \<Rightarrow> jstring \<Rightarrow> tiered_editor option" where
  "mount num name E R = do {
     gs \<leftarrow> groups_of num R;
     Some \<lparr>te_mode = Visual_mode, te_config = tryParseVisualConfig num (Some E), te_raw = combineBillingExpr E R,
       te_groups = gs, te_init = False, te_name = name, te_billing = E, te_rules = R, te_seen = None, te_name_seen = None\<rparr>
   }"

definition effectiveExpr :: "(rat \<Rightarrow> jstring) \<Rightarrow> tiered_editor \<Rightarrow> jstring option" where
  "effectiveExpr num s =
     (case te_mode s of
        Visual_mode \<Rightarrow> Some (generateExprFromVisualConfig num (te_config s))
      | Raw_mode \<Rightarrow> map_option billingExpr (split_of num (te_raw s)))"

definition canUseVisualRules :: "(rat \<Rightarrow> jstring) \<Rightarrow> jstring \<Rightarrow> bool" where
  "canUseVisualRules num R \<longleftrightarrow> R = [] \<or> tryParseRequestRuleExpr (num_string num) R \<noteq> No_match"

text \<open>The first effect: it reads the stored texts when they are not the ones it saw, unless the ref forbids it.\<close>

definition init_effect :: "(rat \<Rightarrow> jstring) \<Rightarrow> request_rule_group list \<Rightarrow> tiered_editor \<Rightarrow> tiered_editor" where
  "init_effect num gs s =
     (if te_seen s = Some (te_billing s, te_rules s) then s
      else if te_init s then s\<lparr>te_seen := Some (te_billing s, te_rules s)\<rparr>
      else
        let parsed = tryParseVisualConfig num (Some (te_billing s)) in
        s\<lparr>te_seen := Some (te_billing s, te_rules s),
          te_init := True,
          te_config := (case parsed of Some c \<Rightarrow> Some c
            | None \<Rightarrow> if te_billing s \<noteq> [] then None else Some createDefaultVisualConfig),
          te_mode := (case parsed of Some c \<Rightarrow> Visual_mode
            | None \<Rightarrow> if te_billing s \<noteq> [] then Raw_mode else te_mode s),
          te_raw := combineBillingExpr (te_billing s) (te_rules s),
          te_groups := gs\<rparr>)"

definition name_effect :: "tiered_editor \<Rightarrow> tiered_editor" where
  "name_effect s = (if te_name_seen s = Some (te_name s) then s else s\<lparr>te_name_seen := Some (te_name s), te_init := False\<rparr>)"

text \<open>
  One rendering and its effects. The effects read the rendered state \<open>s\<close>; the sheet gets the reported texts.
  (The other two effects run when one of the values they read has changed; with the same values they do
  nothing, since a text that they reported has become the one they compare with.)
\<close>

definition price_commit :: "(rat \<Rightarrow> jstring) \<Rightarrow> tiered_editor \<Rightarrow> tiered_editor option" where
  "price_commit num s = do {
     expr \<leftarrow> effectiveExpr num s;
     gs \<leftarrow> groups_of num (te_rules s);
     let rules = (if te_mode s = Visual_mode then buildRequestRuleExpr (te_groups s) else te_rules s);
     Some ((name_effect (init_effect num gs s))\<lparr>te_billing := expr, te_rules := rules\<rparr>)
   }"

fun price_commits :: "(rat \<Rightarrow> jstring) \<Rightarrow> nat \<Rightarrow> tiered_editor \<Rightarrow> tiered_editor option" where
  "price_commits num 0 s = Some s"
| "price_commits num (Suc k) s = Option.bind (price_commit num s) (price_commits num k)"

subsection \<open>Handlers of the editor\<close>

definition handleVisualChange :: "visual_config \<Rightarrow> tiered_editor \<Rightarrow> tiered_editor" where
  "handleVisualChange cfg s = s\<lparr>te_config := Some cfg\<rparr>"

definition handleRawChange :: "(rat \<Rightarrow> jstring) \<Rightarrow> jstring \<Rightarrow> tiered_editor \<Rightarrow> tiered_editor option" where
  "handleRawChange num v s = do {
     parts \<leftarrow> split_of num v;
     Some (s\<lparr>te_raw := v, te_rules := requestRuleExpr parts\<rparr>)
   }"

definition handleModeChange :: "(rat \<Rightarrow> jstring) \<Rightarrow> editor_mode \<Rightarrow> tiered_editor \<Rightarrow> tiered_editor option" where
  "handleModeChange num m s =
     (case m of
        Visual_mode \<Rightarrow> do {
          parts \<leftarrow> split_of num (te_raw s);
          gs \<leftarrow> groups_of num (requestRuleExpr parts);
          Some (s\<lparr>te_config := Some (case tryParseVisualConfig num (Some (billingExpr parts)) of Some c \<Rightarrow> c | None \<Rightarrow> createDefaultVisualConfig),
            te_groups := gs, te_rules := requestRuleExpr parts, te_mode := Visual_mode\<rparr>)
        }
      | Raw_mode \<Rightarrow>
          let expr = generateExprFromVisualConfig num (te_config s); ruleExpr = buildRequestRuleExpr (te_groups s)
          in Some (s\<lparr>te_raw := or_str (combineBillingExpr expr ruleExpr) expr, te_mode := Raw_mode\<rparr>))"

definition handleRuleGroupsChange :: "request_rule_group list \<Rightarrow> tiered_editor \<Rightarrow> tiered_editor" where
  "handleRuleGroupsChange gs s = s\<lparr>te_groups := gs\<rparr>"

definition rule_group_change :: "nat \<Rightarrow> request_rule_group \<Rightarrow> tiered_editor \<Rightarrow> tiered_editor" where
  "rule_group_change k g s = handleRuleGroupsChange ((te_groups s)[k := g]) s"

definition rule_group_remove :: "nat \<Rightarrow> tiered_editor \<Rightarrow> tiered_editor" where
  "rule_group_remove k s = handleRuleGroupsChange (without_index k (te_groups s)) s"

definition rule_group_add :: "tiered_editor \<Rightarrow> tiered_editor" where
  "rule_group_add s = handleRuleGroupsChange (te_groups s @ [createEmptyRuleGroup]) s"

text \<open>The sheet renames the model.\<close>

definition rename :: "jstring \<Rightarrow> tiered_editor \<Rightarrow> tiered_editor" where
  "rename name s = s\<lparr>te_name := name\<rparr>"

subsection \<open>Presets\<close>

record preset =
  pr_key :: jstring
  pr_label :: jstring
  pr_expr :: jstring
  pr_requestRules :: "request_rule_group list option"

definition PRESET_GROUPS :: "(jstring \<times> preset list) list" where
  "PRESET_GROUPS =
     [(lit ''Fixed price'',
       [\<lparr>pr_key = lit ''flat'', pr_label = lit ''Flat'',
          pr_expr = lit ''tier('' @ 34 # lit ''base'' @ 34 # lit '', p * 2 + c * 4)'',
          pr_requestRules = None\<rparr>,
        \<lparr>pr_key = lit ''claude-opus'', pr_label = lit ''Claude Opus 4.6'',
          pr_expr = lit ''tier('' @ 34 # lit ''base'' @ 34 # lit '', p * 5 + c * 25 + cr * 0.5 + cc * 6.25 + cc1h * 10)'',
          pr_requestRules = None\<rparr>,
        \<lparr>pr_key = lit ''gpt-5.4'', pr_label = lit ''GPT-5.4'',
          pr_expr = lit ''len <= 272000 ? tier('' @ 34 # lit ''standard'' @ 34 # lit '', p * 2.5 + c * 15 + cr * 0.25) : tier('' @ 34 # lit ''long_context'' @ 34 # lit '', p * 5 + c * 22.5 + cr * 0.5)'',
          pr_requestRules = None\<rparr>]),
      (lit ''Tiered'',
       [\<lparr>pr_key = lit ''claude-sonnet'', pr_label = lit ''Claude Sonnet 4.5'',
          pr_expr = lit ''len <= 200000 ? tier('' @ 34 # lit ''standard'' @ 34 # lit '', p * 3 + c * 15 + cr * 0.3 + cc * 3.75 + cc1h * 6) : tier('' @ 34 # lit ''long_context'' @ 34 # lit '', p * 6 + c * 22.5 + cr * 0.6 + cc * 7.5 + cc1h * 12)'',
          pr_requestRules = None\<rparr>,
        \<lparr>pr_key = lit ''qwen3-max'', pr_label = lit ''Qwen3 Max'',
          pr_expr = lit ''len <= 32000 ? tier('' @ 34 # lit ''short'' @ 34 # lit '', p * 1.2 + c * 6 + cr * 0.24 + cc * 1.5) : len <= 128000 ? tier('' @ 34 # lit ''mid'' @ 34 # lit '', p * 2.4 + c * 12 + cr * 0.48 + cc * 3) : tier('' @ 34 # lit ''long'' @ 34 # lit '', p * 3 + c * 15 + cr * 0.6 + cc * 3.75)'',
          pr_requestRules = None\<rparr>,
        \<lparr>pr_key = lit ''glm-4.5-air'', pr_label = lit ''GLM-4.5 Air'',
          pr_expr = lit ''len < 32000 && c < 200 ? tier('' @ 34 # lit ''short_output'' @ 34 # lit '', p * 0.8 + c * 2 + cr * 0.16) : len < 32000 && c >= 200 ? tier('' @ 34 # lit ''long_output'' @ 34 # lit '', p * 0.8 + c * 6 + cr * 0.16) : tier('' @ 34 # lit ''mid_context'' @ 34 # lit '', p * 1.2 + c * 8 + cr * 0.24)'',
          pr_requestRules = None\<rparr>,
        \<lparr>pr_key = lit ''doubao-seed-1.8'', pr_label = lit ''Doubao Seed 1.8'',
          pr_expr = lit ''len <= 32000 && c <= 200 ? tier('' @ 34 # lit ''discount'' @ 34 # lit '', p * 0.8 + c * 2 + cr * 0.16 + cc * 0.17) : len <= 32000 ? tier('' @ 34 # lit ''short'' @ 34 # lit '', p * 0.8 + c * 8 + cr * 0.16 + cc * 0.17) : len <= 128000 ? tier('' @ 34 # lit ''mid'' @ 34 # lit '', p * 1.2 + c * 16 + cr * 0.16 + cc * 0.17) : tier('' @ 34 # lit ''long'' @ 34 # lit '', p * 2.4 + c * 24 + cr * 0.16 + cc * 0.17)'',
          pr_requestRules = None\<rparr>]),
      (lit ''Multimodal'',
       [\<lparr>pr_key = lit ''gpt-image-1-mini'', pr_label = lit ''GPT Image 1 Mini'',
          pr_expr = lit ''tier('' @ 34 # lit ''base'' @ 34 # lit '', p * 2 + c * 8 + img * 2.5)'',
          pr_requestRules = None\<rparr>,
        \<lparr>pr_key = lit ''gemini-2.5-flash'', pr_label = lit ''Gemini 2.5 Flash'',
          pr_expr = lit ''tier('' @ 34 # lit ''base'' @ 34 # lit '', p * 0.3 + c * 2.5 + cr * 0.03 + ai * 1.0)'',
          pr_requestRules = None\<rparr>,
        \<lparr>pr_key = lit ''gemini-3-pro-image'', pr_label = lit ''Gemini 3 Pro Image'',
          pr_expr = lit ''tier('' @ 34 # lit ''base'' @ 34 # lit '', p * 2 + c * 12 + img_o * 120)'',
          pr_requestRules = None\<rparr>,
        \<lparr>pr_key = lit ''qwen3-omni-flash'', pr_label = lit ''Qwen3 Omni Flash'',
          pr_expr = lit ''tier('' @ 34 # lit ''base'' @ 34 # lit '', p * 0.43 + c * 3.06 + img * 0.78 + ai * 3.81 + ao * 15.11)'',
          pr_requestRules = None\<rparr>]),
      (lit ''Request rule'',
       [\<lparr>pr_key = lit ''claude-opus-fast'', pr_label = lit ''Claude Opus 4.6 Fast'',
          pr_expr = lit ''tier('' @ 34 # lit ''base'' @ 34 # lit '', p * 5 + c * 25 + cr * 0.5 + cc * 6.25 + cc1h * 10)'',
          pr_requestRules = Some [\<lparr>conditions = [PH_condition (lit ''header'') (lit ''anthropic-beta'') (lit ''contains'') (lit ''fast-mode-2026-02-01'')],
            multiplier = lit ''6''\<rparr>]\<rparr>,
        \<lparr>pr_key = lit ''gpt-5.4-tiers'', pr_label = lit ''GPT-5.4 Priority/Flex'',
          pr_expr = lit ''len <= 272000 ? tier('' @ 34 # lit ''standard'' @ 34 # lit '', p * 2.5 + c * 15 + cr * 0.25) : tier('' @ 34 # lit ''long_context'' @ 34 # lit '', p * 5 + c * 22.5 + cr * 0.5)'',
          pr_requestRules = Some [\<lparr>conditions = [PH_condition (lit ''param'') (lit ''service_tier'') (lit ''eq'') (lit ''priority'')],
            multiplier = lit ''2''\<rparr>,
          \<lparr>conditions = [PH_condition (lit ''param'') (lit ''service_tier'') (lit ''eq'') (lit ''flex'')],
            multiplier = lit ''0.5''\<rparr>]\<rparr>]),
      (lit ''Time-based'',
       [\<lparr>pr_key = lit ''night-discount'', pr_label = lit ''Night discount (50%)'',
          pr_expr = lit ''tier('' @ 34 # lit ''base'' @ 34 # lit '', p * 3 + c * 15)'',
          pr_requestRules = Some [\<lparr>conditions = [Time_condition (lit ''hour'') (lit ''Asia/Shanghai'') (lit ''range'') [] (lit ''21'') (lit ''6'')],
            multiplier = lit ''0.5''\<rparr>]\<rparr>,
        \<lparr>pr_key = lit ''weekend-discount'', pr_label = lit ''Weekend discount (80%)'',
          pr_expr = lit ''tier('' @ 34 # lit ''base'' @ 34 # lit '', p * 3 + c * 15)'',
          pr_requestRules = Some [\<lparr>conditions = [Time_condition (lit ''weekday'') (lit ''Asia/Shanghai'') (lit ''eq'') (lit ''0'') [] []],
            multiplier = lit ''0.8''\<rparr>,
          \<lparr>conditions = [Time_condition (lit ''weekday'') (lit ''Asia/Shanghai'') (lit ''eq'') (lit ''6'') [] []],
            multiplier = lit ''0.8''\<rparr>]\<rparr>])]"

definition applyPreset :: "(rat \<Rightarrow> jstring) \<Rightarrow> preset \<Rightarrow> tiered_editor \<Rightarrow> tiered_editor" where
  "applyPreset num p s =
     (let presetGroups = coalesce (pr_requestRules p) [];
          ruleExpr = buildRequestRuleExpr presetGroups;
          parsed = tryParseVisualConfig num (Some (pr_expr p))
      in s\<lparr>te_raw := or_str (combineBillingExpr (pr_expr p) ruleExpr) (pr_expr p),
           te_config := parsed,
           te_mode := (case parsed of Some c \<Rightarrow> Visual_mode | None \<Rightarrow> Raw_mode),
           te_groups := presetGroups, te_rules := ruleExpr\<rparr>)"

text \<open>The groups that are shown before the list is unfolded\<close>

definition visible_presets :: "bool \<Rightarrow> (jstring \<times> preset list) list" where
  "visible_presets expanded = (if expanded then PRESET_GROUPS else take 2 PRESET_GROUPS)"

end
