(* ===== verification/Tiered_Stability.thy ===== *)
theory Tiered_Stability
  imports Tiered_Editor
begin

section \<open>What the tiered price editor does to a stored price\<close>

text \<open>
  The effects of the editor come to rest (\<open>editor_settles\<close>); a price that the visual editor wrote is left
  alone when it is opened (\<open>open_unchanged\<close>), and a price that it cannot read is replaced
  (\<open>unread_price_replaced\<close>).
\<close>

subsection \<open>Commits\<close>

lemma commits_right: "price_commits num (Suc k) s = Option.bind (price_commits num k s) (price_commit num)"
proof (induction k arbitrary: s)
  case 0
  then show ?case
    by (cases "price_commit num s") simp_all
next
  case (Suc k)
  have IH: "price_commits num (Suc k) = (\<lambda>t. Option.bind (price_commits num k t) (price_commit num))"
    by (rule ext) (rule Suc.IH)
  have "price_commits num (Suc (Suc k)) s = Option.bind (price_commit num s) (price_commits num (Suc k))"
    by simp
  also have "\<dots> = Option.bind (price_commit num s) (\<lambda>t. Option.bind (price_commits num k t) (price_commit num))"
    unfolding IH ..
  also have "\<dots> = Option.bind (price_commits num (Suc k) s) (price_commit num)"
    by (cases "price_commit num s") simp_all
  finally show ?case .
qed

lemma commits_stay: "price_commits num (Suc k) s = price_commits num k s \<Longrightarrow> price_commits num (j + k) s = price_commits num k s"
  by (induction j) (simp_all add: commits_right del: price_commits.simps)

lemma commits_stable: "price_commit num t = Some t \<Longrightarrow> price_commits num k t = Some t"
  by (induction k) simp_all

text \<open>The texts that are reported\<close>

definition reported_rules :: "tiered_editor \<Rightarrow> jstring" where
  "reported_rules s = (if te_mode s = Visual_mode then buildRequestRuleExpr (te_groups s) else te_rules s)"

lemma commit_Some:
  "effectiveExpr num s = Some e \<Longrightarrow> groups_of num (te_rules s) = Some gs \<Longrightarrow>
     price_commit num s = Some ((name_effect (init_effect num gs s))\<lparr>te_billing := e, te_rules := reported_rules s\<rparr>)"
  by (simp add: price_commit_def reported_rules_def)

lemma commit_None: "effectiveExpr num s = None \<or> groups_of num (te_rules s) = None \<Longrightarrow> price_commit num s = None"
  by (cases "effectiveExpr num s") (auto simp: price_commit_def)

lemma effective_report:
  "effectiveExpr num (s\<lparr>te_seen := x, te_billing := b, te_rules := r\<rparr>) = effectiveExpr num s"
  by (simp add: effectiveExpr_def split: editor_mode.split)

text \<open>A state whose first effect has nothing to do\<close>

definition price_quiet :: "tiered_editor \<Rightarrow> bool" where
  "price_quiet s \<longleftrightarrow> te_name_seen s = Some (te_name s) \<and> (te_init s \<or> te_seen s = Some (te_billing s, te_rules s))"

lemma quiet_commit:
  assumes "price_quiet s" "effectiveExpr num s = Some e" "groups_of num (te_rules s) = Some gs"
  shows "price_commit num s = Some (s\<lparr>te_seen := Some (te_billing s, te_rules s), te_billing := e, te_rules := reported_rules s\<rparr>)"
  using assms(1) by (auto simp: commit_Some [OF assms(2, 3)] price_quiet_def init_effect_def name_effect_def)

lemma reported_idem: "reported_rules (s\<lparr>te_seen := x, te_billing := e, te_rules := reported_rules s\<rparr>) = reported_rules s"
  by (simp add: reported_rules_def)

text \<open>With the ref set, two more price_commits are enough.\<close>

lemma fixed_settles:
  assumes "te_init s" "te_name_seen s = Some (te_name s)"
  shows "price_commits num 3 s = price_commits num 2 s"
proof (cases "effectiveExpr num s = None \<or> groups_of num (te_rules s) = None")
  case True
  then show ?thesis
    by (simp add: commit_None numeral_3_eq_3 numeral_2_eq_2)
next
  case False
  then obtain e gs where e: "effectiveExpr num s = Some e" "groups_of num (te_rules s) = Some gs"
    by auto
  define s1 where "s1 = s\<lparr>te_seen := Some (te_billing s, te_rules s), te_billing := e, te_rules := reported_rules s\<rparr>"
  have s1: "price_commit num s = Some s1"
    unfolding s1_def using assms e by (intro quiet_commit) (simp_all add: price_quiet_def)
  have e1: "effectiveExpr num s1 = Some e" and q1: "price_quiet s1"
    using e(1) assms by (simp_all add: s1_def effective_report price_quiet_def)
  show ?thesis
  proof (cases "groups_of num (te_rules s1)")
    case None
    then show ?thesis
      using s1 by (simp add: commit_None numeral_3_eq_3 numeral_2_eq_2)
  next
    case (Some gs')
    define s2 where "s2 = s1\<lparr>te_seen := Some (te_billing s1, te_rules s1), te_billing := e, te_rules := reported_rules s1\<rparr>"
    have s2: "price_commit num s1 = Some s2"
      unfolding s2_def by (rule quiet_commit [OF q1 e1 Some])
    have same: "te_rules s2 = te_rules s1" "te_billing s2 = te_billing s1"
      by (simp_all add: s2_def s1_def reported_idem)
    have "price_commit num s2 = Some (s2\<lparr>te_seen := Some (te_billing s2, te_rules s2), te_billing := e, te_rules := reported_rules s2\<rparr>)"
      by (rule quiet_commit [where gs = gs']) (use q1 e1 Some same in \<open>simp_all add: s2_def price_quiet_def effective_report s1_def assms\<close>)
    also have "s2\<lparr>te_seen := Some (te_billing s2, te_rules s2), te_billing := e, te_rules := reported_rules s2\<rparr> = s2"
      by (simp add: s2_def s1_def reported_rules_def)
    finally show ?thesis
      using s1 s2 by (simp add: numeral_3_eq_3 numeral_2_eq_2)
  qed
qed

lemma commits_after: "price_commit num s = Some t \<Longrightarrow> price_commits num (Suc k) s = price_commits num k t"
  by simp

lemma name_seen_after: "price_commit num s = Some t \<Longrightarrow> te_name_seen t = Some (te_name t)"
  by (auto simp: price_commit_def name_effect_def init_effect_def Let_def split: Option.bind_splits if_splits option.splits)

lemma loud_commit:
  assumes "\<not> price_quiet s" "te_name_seen s = Some (te_name s)" "price_commit num s = Some t"
  shows "te_init t"
  using assms by (auto simp: price_quiet_def price_commit_def name_effect_def init_effect_def Let_def split: Option.bind_splits if_splits option.splits)

lemma named_settles:
  assumes "te_name_seen s = Some (te_name s)"
  shows "price_commits num 5 s = price_commits num 4 s"
proof -
  have init: "price_commits num (Suc (j + 2)) u = price_commits num (j + 2) u" if "te_init u" "te_name_seen u = Some (te_name u)" for u j
    using commits_stay [of num 2 u "Suc j"] commits_stay [of num 2 u j] fixed_settles [OF that, of num]
    by (simp add: numeral_3_eq_3 numeral_2_eq_2)
  show ?thesis
  proof (cases "price_commit num s")
    case None
    then show ?thesis
      by (simp add: numeral_eq_Suc)
  next
    case (Some t)
    note t = name_seen_after [OF Some]
    show ?thesis
    proof (cases "price_quiet s \<and> \<not> te_init s")
      case True
      obtain e gs where e: "effectiveExpr num s = Some e" "groups_of num (te_rules s) = Some gs"
        using Some commit_None [of num s] by (cases "effectiveExpr num s"; cases "groups_of num (te_rules s)") auto
      have "t = s\<lparr>te_seen := Some (te_billing s, te_rules s), te_billing := e, te_rules := reported_rules s\<rparr>"
        using quiet_commit [OF _ e] True Some by simp
      moreover have "te_seen s = Some (te_billing s, te_rules s)"
        using True by (auto simp: price_quiet_def)
      ultimately have t_eq: "t = s\<lparr>te_billing := e, te_rules := reported_rules s\<rparr>"
        by (cases s) simp
      show ?thesis
      proof (cases "e = te_billing s \<and> reported_rules s = te_rules s")
        case True
        then have "price_commit num s = Some s"
          using Some t_eq by simp
        then show ?thesis
          by (simp add: commits_stable)
      next
        case False
        then have loud: "\<not> price_quiet t"
          using True t_eq by (auto simp: price_quiet_def)
        show ?thesis
        proof (cases "price_commit num t")
          case None
          then show ?thesis
            using Some by (simp add: numeral_eq_Suc)
        next
          case (Some u)
          have "price_commits num 3 u = price_commits num 2 u"
            by (rule fixed_settles [OF loud_commit [OF loud t Some] name_seen_after [OF Some]])
          then show ?thesis
            using \<open>price_commit num s = Some t\<close> Some by (simp add: numeral_eq_Suc)
        qed
      qed
    next
      case False
      then have "te_init t"
        using loud_commit [OF _ assms Some] Some
        by (auto simp: price_commit_def name_effect_def init_effect_def assms price_quiet_def Let_def split: Option.bind_splits if_splits)
      then show ?thesis
        using init [of t 1] t Some by (simp add: numeral_eq_Suc)
    qed
  qed
qed

definition price_settle :: "(rat \<Rightarrow> jstring) \<Rightarrow> tiered_editor \<Rightarrow> tiered_editor option" where
  "price_settle num s = price_commits num 5 s"

text \<open>
  The effects of the price editor come to rest. Whatever the editor shows and whatever is stored, five
  renderings are enough: every further one changes nothing, although the effects read the stored texts into
  the editor and report the texts of the editor to the sheet.
\<close>

theorem editor_settles: "price_commits num (k + 5) s = price_settle num s"
proof -
  have "price_commits num (Suc 5) s = price_commits num 5 s"
  proof (cases "price_commit num s")
    case None
    then show ?thesis
      by (simp add: numeral_eq_Suc)
  next
    case (Some t)
    have "price_commits num 5 t = price_commits num 4 t"
      by (rule named_settles [OF name_seen_after [OF Some]])
    then show ?thesis
      using Some by (simp add: numeral_eq_Suc)
  qed
  then show ?thesis
    unfolding price_settle_def by (rule commits_stay)
qed

subsection \<open>A price that the visual editor wrote\<close>

text \<open>Opening the editor: the component is mounted on the stored texts and comes to rest.\<close>

definition open_editor :: "(rat \<Rightarrow> jstring) \<Rightarrow> jstring \<Rightarrow> jstring \<Rightarrow> jstring \<Rightarrow> tiered_editor option" where
  "open_editor num name E R = Option.bind (mount num name E R) (price_settle num)"

lemma groups_of_rules: "list_all group_ok gs \<Longrightarrow> groups_of num (buildRequestRuleExpr gs) = Some gs"
  by (simp add: groups_of_def rules_read list_all_iff group_ok_built)

text \<open>The state in which the editor rests on a configuration and rules\<close>

definition resting :: "(rat \<Rightarrow> jstring) \<Rightarrow> visual_config \<Rightarrow> request_rule_group list \<Rightarrow> tiered_editor \<Rightarrow> bool" where
  "resting num cfg gs s \<longleftrightarrow> te_mode s = Visual_mode \<and> te_config s = Some cfg \<and> te_groups s = gs \<and>
     te_billing s = generateExprFromVisualConfig num (Some cfg) \<and> te_rules s = buildRequestRuleExpr gs \<and>
     te_seen s = Some (te_billing s, te_rules s) \<and> te_name_seen s = Some (te_name s)"

lemma resting_stable:
  assumes "resting num cfg gs s" "list_all group_ok gs"
  shows "price_commit num s = Some s"
proof -
  have s: "te_mode s = Visual_mode" "te_config s = Some cfg" "te_groups s = gs"
    "te_billing s = generateExprFromVisualConfig num (Some cfg)" "te_rules s = buildRequestRuleExpr gs"
    "te_seen s = Some (te_billing s, te_rules s)" "te_name_seen s = Some (te_name s)"
    using assms(1) by (simp_all add: resting_def)
  have "groups_of num (te_rules s) = Some gs"
    using assms(2) s by (simp add: groups_of_rules)
  moreover have "effectiveExpr num s = Some (te_billing s)"
    using s by (simp add: effectiveExpr_def)
  ultimately have "price_commit num s = Some (s\<lparr>te_seen := Some (te_billing s, te_rules s), te_billing := te_billing s, te_rules := reported_rules s\<rparr>)"
    using s by (intro quiet_commit) (simp_all add: price_quiet_def)
  moreover have "reported_rules s = te_rules s"
    using s by (simp add: reported_rules_def)
  ultimately show ?thesis
    using s(6) by (cases s) simp
qed

lemma settle_commits: "price_commits num k s = Some t \<Longrightarrow> k \<le> 5 \<Longrightarrow> price_commit num t = Some t \<Longrightarrow> price_settle num s = Some t"
proof -
  assume k: "price_commits num k s = Some t" "k \<le> 5" "price_commit num t = Some t"
  have "price_commits num (j + k) s = Some t" for j
    using commits_stay [of num k s j] k(1, 3) by (simp add: commits_right del: price_commits.simps)
  from this [of "5 - k"] show ?thesis
    using k(2) by (simp add: price_settle_def)
qed

text \<open>Reading the stored texts of a configuration again\<close>

lemma init_restored:
  assumes "editable_config num cfg" "te_billing s = generateExprFromVisualConfig num (Some cfg)"
  shows "init_effect num gs s =
    (if te_seen s = Some (te_billing s, te_rules s) then s
     else if te_init s then s\<lparr>te_seen := Some (te_billing s, te_rules s)\<rparr>
     else s\<lparr>te_seen := Some (te_billing s, te_rules s), te_init := True, te_config := Some (restored_config cfg),
       te_mode := Visual_mode, te_raw := combineBillingExpr (te_billing s) (te_rules s), te_groups := gs\<rparr>)"
  using read_back_visual [OF assms(1)] assms(2) by (simp add: init_effect_def)

lemma opened_state:
  assumes "editable_config num cfg" "list_all group_ok gs"
  shows "\<exists>s. open_editor num name (generateExprFromVisualConfig num (Some cfg)) (buildRequestRuleExpr gs) = Some s \<and>
    resting num (restored_config cfg) gs s \<and> \<not> te_init s"
proof -
  let ?E = "generateExprFromVisualConfig num (Some cfg)"
  let ?R = "buildRequestRuleExpr gs"
  note restored = restored_generate [OF assms(1)]
  define s0 where "s0 = \<lparr>te_mode = Visual_mode, te_config = Some (restored_config cfg), te_raw = combineBillingExpr ?E ?R, te_groups = gs,
    te_init = False, te_name = name, te_billing = ?E, te_rules = ?R, te_seen = None, te_name_seen = None\<rparr>"
  have mounted: "mount num name ?E ?R = Some s0"
    by (simp add: mount_def groups_of_rules [OF assms(2)] read_back_visual [OF assms(1)] s0_def)
  define s1 where "s1 = s0\<lparr>te_seen := Some (?E, ?R), te_name_seen := Some name\<rparr>"
  have "price_commit num s0 = Some ((name_effect (init_effect num gs s0))\<lparr>te_billing := ?E, te_rules := reported_rules s0\<rparr>)"
    by (rule commit_Some) (simp_all add: s0_def effectiveExpr_def restored groups_of_rules [OF assms(2)])
  also have "(name_effect (init_effect num gs s0))\<lparr>te_billing := ?E, te_rules := reported_rules s0\<rparr> = s1"
    by (subst init_restored [OF assms(1)]) (simp_all add: s0_def s1_def name_effect_def reported_rules_def)
  finally have s1: "price_commit num s0 = Some s1" .
  have rest: "resting num (restored_config cfg) gs s1"
    by (simp add: resting_def s1_def s0_def restored)
  have "price_settle num s0 = Some s1"
    by (rule settle_commits [of num 1]) (simp_all add: s1 resting_stable [OF rest assms(2)])
  then show ?thesis
    using rest by (simp add: open_editor_def mounted s1_def s0_def)
qed

text \<open>
  Opening the price editor on what it wrote changes nothing. For every configuration that the visual
  editor can hold and all rules that it can hold, opening the editor on the stored texts ends in the visual
  mode, showing the tiers of the configuration and the rules, and the stored texts are the same.
\<close>

theorem open_unchanged:
  assumes "editable_config num cfg" "list_all group_ok gs"
  shows "\<exists>s. open_editor num name (generateExprFromVisualConfig num (Some cfg)) (buildRequestRuleExpr gs) = Some s \<and>
    price_commit num s = Some s \<and> te_mode s = Visual_mode \<and> te_config s = Some (restored_config cfg) \<and> te_groups s = gs \<and>
    te_billing s = generateExprFromVisualConfig num (Some cfg) \<and> te_rules s = buildRequestRuleExpr gs"
proof -
  obtain s where s: "open_editor num name (generateExprFromVisualConfig num (Some cfg)) (buildRequestRuleExpr gs) = Some s"
    "resting num (restored_config cfg) gs s"
    using opened_state [OF assms] by blast
  then show ?thesis
    using resting_stable [OF s(2) assms(2)] restored_generate [OF assms(1)] by (auto simp: resting_def)
qed

text \<open>
  A stored price that is an expression of its own, without \<open>tier(...)\<close>: the editor opens in the raw mode,
  but the first rendering was the visual one, without tiers, and its effects have reported the price zero to
  the sheet.
\<close>

lemma unread_price_replaced:
  "map_option (\<lambda>s. (te_mode s, te_billing s)) (open_editor sample_num [] (lit ''p * 3'') []) = Some (Raw_mode, lit ''p * 0 + c * 0'')"
  by code_simp

end
