(* ===== verification/Param_Override.thy ===== *)
theory Param_Override
  imports JS_Convert
begin

section \<open>Parameter overrides (\<^verbatim>\<open>features/channels/components/dialogs/param-override-editor-dialog.tsx\<close>)\<close>

text \<open>
  The rules that rewrite a request before it is relayed, as the editor of a channel reads, checks and
  writes them: tables of modes and templates, normal forms of operations and conditions, the drafts of
  single modes, validation, and the JSON text. Values of a parsed text are \<open>jsval\<close>. Identifiers are
  taken from a counter, which is threaded through (\<open>seed\<close>); \<open>clock n\<close> is the time at which the
  identifier \<open>n\<close> is made. \<open>None\<close> stands for a \<^verbatim>\<open>TypeError\<close>. Arguments are the printing of numbers
  (\<open>num\<close>) and the case mappings of strings.
\<close>

subsection \<open>Types\<close>

record po_condition =
  c_id :: jstring
  c_path :: jstring
  c_mode :: jstring
  c_value_text :: jstring
  c_invert :: bool
  c_pass_missing_key :: bool

record po_operation =
  o_id :: jstring
  o_description :: jstring
  o_path :: jstring
  o_mode :: jstring
  o_from :: jstring
  o_to :: jstring
  o_value_text :: jstring
  o_keep_origin :: bool
  o_logic :: jstring
  o_conditions :: "po_condition list"

subsection \<open>Tables\<close>

text \<open>Labels and values.\<close>

definition OPERATION_MODE_OPTIONS :: "(jstring \<times> jstring) list" where
  "OPERATION_MODE_OPTIONS =
    [(lit ''Set Field'', lit ''set''),
     (lit ''Delete Field'', lit ''delete''),
     (lit ''Append to End'', lit ''append''),
     (lit ''Prepend to Start'', lit ''prepend''),
     (lit ''Copy Field'', lit ''copy''),
     (lit ''Move Field'', lit ''move''),
     (lit ''String Replace'', lit ''replace''),
     (lit ''Regex Replace'', lit ''regex_replace''),
     (lit ''Trim Prefix'', lit ''trim_prefix''),
     (lit ''Trim Suffix'', lit ''trim_suffix''),
     (lit ''Ensure Prefix'', lit ''ensure_prefix''),
     (lit ''Ensure Suffix'', lit ''ensure_suffix''),
     (lit ''Trim Space'', lit ''trim_space''),
     (lit ''To Lowercase'', lit ''to_lower''),
     (lit ''To Uppercase'', lit ''to_upper''),
     (lit ''Return Custom Error'', lit ''return_error''),
     (lit ''Prune Object Items'', lit ''prune_objects''),
     (lit ''Pass Through Headers'', lit ''pass_headers''),
     (lit ''Sync Fields'', lit ''sync_fields''),
     (lit ''Set Request Header'', lit ''set_header''),
     (lit ''Delete Request Header'', lit ''delete_header''),
     (lit ''Copy Request Header'', lit ''copy_header''),
     (lit ''Move Request Header'', lit ''move_header'')]"

definition OPERATION_MODE_VALUES :: "jstring list" where
  "OPERATION_MODE_VALUES = map snd OPERATION_MODE_OPTIONS"

definition OPERATION_MODE_LABEL_MAP :: "(jstring, jstring) jmap" where
  "OPERATION_MODE_LABEL_MAP = fold (\<lambda>(label, value) acc. AList.update value label acc) OPERATION_MODE_OPTIONS []"

definition CONDITION_MODE_OPTIONS :: "(jstring \<times> jstring) list" where
  "CONDITION_MODE_OPTIONS =
    [(lit ''Exact Match'', lit ''full''),
     (lit ''Prefix'', lit ''prefix''),
     (lit ''Suffix'', lit ''suffix''),
     (lit ''Contains'', lit ''contains''),
     (lit ''Greater Than'', lit ''gt''),
     (lit ''Greater Than or Equal'', lit ''gte''),
     (lit ''Less Than'', lit ''lt''),
     (lit ''Less Than or Equal'', lit ''lte'')]"

definition CONDITION_MODE_VALUES :: "jstring list" where
  "CONDITION_MODE_VALUES = map snd CONDITION_MODE_OPTIONS"

record mode_meta =
  m_path :: bool
  m_pathOptional :: bool
  m_value :: bool
  m_from :: bool
  m_to :: bool
  m_keepOrigin :: bool
  m_pathAlias :: bool

definition MODE_META :: "(jstring, mode_meta) jmap" where
  "MODE_META =
    [(lit ''delete'', mode_meta.make True False False False False False False),
     (lit ''set'', mode_meta.make True False True False False True False),
     (lit ''append'', mode_meta.make True False True False False True False),
     (lit ''prepend'', mode_meta.make True False True False False True False),
     (lit ''copy'', mode_meta.make False False False True True False False),
     (lit ''move'', mode_meta.make False False False True True False False),
     (lit ''replace'', mode_meta.make True False False True False False False),
     (lit ''regex_replace'', mode_meta.make True False False True False False False),
     (lit ''trim_prefix'', mode_meta.make True False True False False False False),
     (lit ''trim_suffix'', mode_meta.make True False True False False False False),
     (lit ''ensure_prefix'', mode_meta.make True False True False False False False),
     (lit ''ensure_suffix'', mode_meta.make True False True False False False False),
     (lit ''trim_space'', mode_meta.make True False False False False False False),
     (lit ''to_lower'', mode_meta.make True False False False False False False),
     (lit ''to_upper'', mode_meta.make True False False False False False False),
     (lit ''return_error'', mode_meta.make False False True False False False False),
     (lit ''prune_objects'', mode_meta.make False True True False False False False),
     (lit ''pass_headers'', mode_meta.make False False True False False True False),
     (lit ''sync_fields'', mode_meta.make False False False True True False False),
     (lit ''set_header'', mode_meta.make True False True False False True False),
     (lit ''delete_header'', mode_meta.make True False False False False False False),
     (lit ''copy_header'', mode_meta.make False False False True True True True),
     (lit ''move_header'', mode_meta.make False False False True True True True)]"

definition VALUE_REQUIRED_MODES :: "jstring list" where
  "VALUE_REQUIRED_MODES =
    [lit ''trim_prefix'', lit ''trim_suffix'', lit ''ensure_prefix'', lit ''ensure_suffix'',
     lit ''set_header'', lit ''return_error'', lit ''prune_objects'', lit ''pass_headers'']"

definition FROM_REQUIRED_MODES :: "jstring list" where
  "FROM_REQUIRED_MODES =
    [lit ''copy'', lit ''move'', lit ''replace'', lit ''regex_replace'', lit ''copy_header'',
     lit ''move_header'', lit ''sync_fields'']"

definition TO_REQUIRED_MODES :: "jstring list" where
  "TO_REQUIRED_MODES = [lit ''copy'', lit ''move'', lit ''copy_header'', lit ''move_header'', lit ''sync_fields'']"

definition MODE_DESCRIPTIONS :: "(jstring, jstring) jmap" where
  "MODE_DESCRIPTIONS =
    [(lit ''set'', lit ''Write value to the target field''),
     (lit ''delete'', lit ''Remove the target field''),
     (lit ''append'', lit ''Append value to array / string / object end''),
     (lit ''prepend'', lit ''Prepend value to array / string / object start''),
     (lit ''copy'', lit ''Copy source field to target field''),
     (lit ''move'', lit ''Move source field to target field''),
     (lit ''replace'', lit ''Do string replacement in the target field''),
     (lit ''regex_replace'', lit ''Do regex replacement in the target field''),
     (lit ''trim_prefix'', lit ''Remove string prefix''),
     (lit ''trim_suffix'', lit ''Remove string suffix''),
     (lit ''ensure_prefix'', lit ''Ensure the string has a specified prefix''),
     (lit ''ensure_suffix'', lit ''Ensure the string has a specified suffix''),
     (lit ''trim_space'', lit ''Trim leading/trailing whitespace''),
     (lit ''to_lower'', lit ''Convert string to lowercase''),
     (lit ''to_upper'', lit ''Convert string to uppercase''),
     (lit ''return_error'', lit ''Return a custom error immediately''),
     (lit ''prune_objects'', lit ''Prune object items by conditions''),
     (lit ''pass_headers'', lit ''Pass specified request headers to upstream''),
     (lit ''sync_fields'', lit ''Auto-fill when one field exists and another is missing''),
     (lit ''set_header'', lit ''Set runtime request header: override entire value, or manipulate comma-separated tokens''),
     (lit ''delete_header'', lit ''Delete a runtime request header''),
     (lit ''copy_header'', lit ''Copy a request header''),
     (lit ''move_header'', lit ''Move a request header'')]"

definition SYNC_TARGET_TYPE_OPTIONS :: "(jstring \<times> jstring) list" where
  "SYNC_TARGET_TYPE_OPTIONS =
    [(lit ''Request Body Field'', lit ''json''),
     (lit ''Request Header Field'', lit ''header'')]"

text \<open>\<^verbatim>\<open>MODE_META[mode] || MODE_META.set\<close>\<close>

definition meta_of :: "jstring \<Rightarrow> mode_meta" where
  "meta_of mode =
     (case map_of MODE_META mode of Some m \<Rightarrow> m | None \<Rightarrow> the (map_of MODE_META (lit ''set'')))"

subsection \<open>Templates\<close>

definition LEGACY_TEMPLATE :: jsval where
  "LEGACY_TEMPLATE = JObj [(lit ''temperature'', JNum (Fin 0)), (lit ''max_tokens'', JNum (Fin 1000))]"

definition OPERATION_TEMPLATE :: jsval where
  "OPERATION_TEMPLATE = JObj [(lit ''operations'', JArr
     [JObj
       [(lit ''description'', JStr (lit ''Set default temperature for openai/* models.'')),
        (lit ''path'', JStr (lit ''temperature'')),
        (lit ''mode'', JStr (lit ''set'')),
        (lit ''value'', JNum (Fin (7 / 10))),
        (lit ''conditions'', JArr [JObj
          [(lit ''path'', JStr (lit ''model'')), (lit ''mode'', JStr (lit ''prefix'')), (lit ''value'', JStr (lit ''openai/''))]]),
        (lit ''logic'', JStr (lit ''AND''))]])]"

definition HEADER_PASSTHROUGH_TEMPLATE :: jsval where
  "HEADER_PASSTHROUGH_TEMPLATE = JObj [(lit ''operations'', JArr
     [JObj
       [(lit ''description'', JStr (lit ''Pass through X-Request-Id header to upstream.'')),
        (lit ''mode'', JStr (lit ''pass_headers'')),
        (lit ''value'', JArr [JStr (lit ''X-Request-Id'')]),
        (lit ''keep_origin'', JBool True)]])]"

definition GEMINI_IMAGE_4K_TEMPLATE :: jsval where
  "GEMINI_IMAGE_4K_TEMPLATE = JObj [(lit ''operations'', JArr
     [JObj
       [(lit ''description'', JStr (lit ''Set imageSize to 4K when model contains gemini/image and ends with 4k.'')),
        (lit ''mode'', JStr (lit ''set'')),
        (lit ''path'', JStr (lit ''generationConfig.imageConfig.imageSize'')),
        (lit ''value'', JStr (lit ''4K'')),
        (lit ''conditions'', JArr
          [JObj [(lit ''path'', JStr (lit ''original_model'')), (lit ''mode'', JStr (lit ''contains'')), (lit ''value'', JStr (lit ''gemini''))],
           JObj [(lit ''path'', JStr (lit ''original_model'')), (lit ''mode'', JStr (lit ''contains'')), (lit ''value'', JStr (lit ''image''))],
           JObj [(lit ''path'', JStr (lit ''original_model'')), (lit ''mode'', JStr (lit ''suffix'')), (lit ''value'', JStr (lit ''4k''))]]),
        (lit ''logic'', JStr (lit ''AND''))]])]"

definition CODEX_CLI_HEADER_PASSTHROUGH_HEADERS :: "jstring list" where
  "CODEX_CLI_HEADER_PASSTHROUGH_HEADERS =
    [lit ''Originator'', lit ''Session_id'', lit ''Thread_id'', lit ''Session-Id'',
     lit ''Thread-Id'', lit ''X-Client-Request-Id'', lit ''User-Agent'',
     lit ''X-Codex-Beta-Features'', lit ''X-Codex-Turn-State'', lit ''X-Codex-Turn-Metadata'',
     lit ''X-Codex-Window-Id'', lit ''X-Codex-Parent-Thread-Id'', lit ''X-OpenAI-Subagent'',
     lit ''X-OpenAI-Memgen-Request'', lit ''X-ResponsesAPI-Include-Timing-Metrics'',
     lit ''X-OpenAI-Internal-Codex-Responses-Lite'']"

definition CLAUDE_CLI_HEADER_PASSTHROUGH_HEADERS :: "jstring list" where
  "CLAUDE_CLI_HEADER_PASSTHROUGH_HEADERS =
    [lit ''X-Stainless-Arch'', lit ''X-Stainless-Lang'', lit ''X-Stainless-Os'',
     lit ''X-Stainless-Package-Version'', lit ''X-Stainless-Retry-Count'',
     lit ''X-Stainless-Runtime'', lit ''X-Stainless-Runtime-Version'',
     lit ''X-Stainless-Timeout'', lit ''User-Agent'', lit ''X-App'', lit ''Anthropic-Beta'',
     lit ''Anthropic-Dangerous-Direct-Browser-Access'', lit ''Anthropic-Version'']"

definition buildPassHeadersTemplate :: "jstring list \<Rightarrow> jsval" where
  "buildPassHeadersTemplate headers = JObj [(lit ''operations'', JArr
     [JObj [(lit ''mode'', JStr (lit ''pass_headers'')), (lit ''value'', JArr (map JStr headers)), (lit ''keep_origin'', JBool True)]])]"

definition CODEX_CLI_HEADER_PASSTHROUGH_TEMPLATE :: jsval where
  "CODEX_CLI_HEADER_PASSTHROUGH_TEMPLATE = JObj [(lit ''operations'', JArr
     [JObj [(lit ''mode'', JStr (lit ''pass_headers'')), (lit ''value'', JArr (map JStr CODEX_CLI_HEADER_PASSTHROUGH_HEADERS)),
            (lit ''keep_origin'', JBool True)]])]"

definition CLAUDE_CLI_HEADER_PASSTHROUGH_TEMPLATE :: jsval where
  "CLAUDE_CLI_HEADER_PASSTHROUGH_TEMPLATE = buildPassHeadersTemplate CLAUDE_CLI_HEADER_PASSTHROUGH_HEADERS"

definition OPENCODE_GO_SESSION_HEADERS :: "jstring list" where
  "OPENCODE_GO_SESSION_HEADERS = [lit ''x-opencode-session'', lit ''Session-Id'', lit ''X-Session-Id'']"

definition OPENCODE_GO_SESSION_TEMPLATE :: jsval where
  "OPENCODE_GO_SESSION_TEMPLATE = JObj [(lit ''operations'', JArr
     [JObj
       [(lit ''description'', JStr (lit ''Forward the session identifier the client already sends, if any.'')),
        (lit ''mode'', JStr (lit ''pass_headers'')),
        (lit ''value'', JArr (map JStr OPENCODE_GO_SESSION_HEADERS)),
        (lit ''keep_origin'', JBool True)],
      JObj
       [(lit ''description'', JStr (lit ''Fill x-opencode-session for clients that send no session header.'')),
        (lit ''mode'', JStr (lit ''set_header'')),
        (lit ''path'', JStr (lit ''x-opencode-session'')),
        (lit ''value'', JStr (lit ''opencode-go-fallback'')),
        (lit ''keep_origin'', JBool True)]])]"

definition AWS_BEDROCK_ANTHROPIC_COMPAT_TEMPLATE :: jsval where
  "AWS_BEDROCK_ANTHROPIC_COMPAT_TEMPLATE = JObj [(lit ''operations'', JArr
     [JObj
       [(lit ''description'', JStr (lit ''Normalize anthropic-beta header tokens for Bedrock compatibility.'')),
        (lit ''mode'', JStr (lit ''set_header'')),
        (lit ''path'', JStr (lit ''anthropic-beta'')),
        (lit ''value'', JObj
          [(lit ''advanced-tool-use-2025-11-20'', JStr (lit ''tool-search-tool-2025-10-19'')),
           (lit ''bash_20241022'', Null),
           (lit ''bash_20250124'', Null),
           (lit ''code-execution-2025-08-25'', Null),
           (lit ''compact-2026-01-12'', JStr (lit ''compact-2026-01-12'')),
           (lit ''computer-use-2025-01-24'', JStr (lit ''computer-use-2025-01-24'')),
           (lit ''computer-use-2025-11-24'', JStr (lit ''computer-use-2025-11-24'')),
           (lit ''context-1m-2025-08-07'', JStr (lit ''context-1m-2025-08-07'')),
           (lit ''context-management-2025-06-27'', JStr (lit ''context-management-2025-06-27'')),
           (lit ''effort-2025-11-24'', Null),
           (lit ''fast-mode-2026-02-01'', Null),
           (lit ''files-api-2025-04-14'', Null),
           (lit ''fine-grained-tool-streaming-2025-05-14'', Null),
           (lit ''interleaved-thinking-2025-05-14'', JStr (lit ''interleaved-thinking-2025-05-14'')),
           (lit ''mcp-client-2025-11-20'', Null),
           (lit ''mcp-client-2025-04-04'', Null),
           (lit ''mcp-servers-2025-12-04'', Null),
           (lit ''output-128k-2025-02-19'', Null),
           (lit ''structured-output-2024-03-01'', Null),
           (lit ''prompt-caching-scope-2026-01-05'', Null),
           (lit ''skills-2025-10-02'', Null),
           (lit ''structured-outputs-2025-11-13'', Null),
           (lit ''text_editor_20241022'', Null),
           (lit ''text_editor_20250124'', Null),
           (lit ''token-efficient-tools-2025-02-19'', Null),
           (lit ''tool-search-tool-2025-10-19'', JStr (lit ''tool-search-tool-2025-10-19'')),
           (lit ''web-fetch-2025-09-10'', Null),
           (lit ''web-search-2025-03-05'', Null),
           (lit ''oauth-2025-04-20'', Null)])],
      JObj
       [(lit ''description'', JStr (lit ''Remove all tools[*].custom.input_examples before upstream relay.'')),
        (lit ''mode'', JStr (lit ''delete'')),
        (lit ''path'', JStr (lit ''tools.*.custom.input_examples''))]])]"

record template_preset =
  t_label :: jstring
  t_legacy :: bool
  t_payload :: jsval

definition TEMPLATE_PRESET_CONFIG :: "(jstring, template_preset) jmap" where
  "TEMPLATE_PRESET_CONFIG =
    [(lit ''operations_default'', template_preset.make (lit ''New Format Template'') False OPERATION_TEMPLATE),
     (lit ''legacy_default'', template_preset.make (lit ''Legacy Format Template'') True LEGACY_TEMPLATE),
     (lit ''pass_headers_auth'', template_preset.make (lit ''Header Passthrough (X-Request-Id)'') False HEADER_PASSTHROUGH_TEMPLATE),
     (lit ''gemini_image_4k'', template_preset.make (lit ''Gemini Image 4K'') False GEMINI_IMAGE_4K_TEMPLATE),
     (lit ''claude_cli_headers_passthrough'',
        template_preset.make (lit ''Claude CLI Header Passthrough'') False CLAUDE_CLI_HEADER_PASSTHROUGH_TEMPLATE),
     (lit ''codex_cli_headers_passthrough'',
        template_preset.make (lit ''Codex CLI Header Passthrough'') False CODEX_CLI_HEADER_PASSTHROUGH_TEMPLATE),
     (lit ''opencode_go_session'', template_preset.make (lit ''OpenCode Go Session Header'') False OPENCODE_GO_SESSION_TEMPLATE),
     (lit ''aws_bedrock_anthropic_beta_override'',
        template_preset.make (lit ''AWS Bedrock Claude Compat'') False AWS_BEDROCK_ANTHROPIC_COMPAT_TEMPLATE)]"

subsection \<open>Identifiers and values\<close>

definition nextLocalId :: "(nat \<Rightarrow> nat) \<Rightarrow> nat \<Rightarrow> jstring" where
  "nextLocalId clock n = lit ''po_'' @ show_nat (clock n) @ lit ''_'' @ show_nat n"

definition toValueText :: "(rat \<Rightarrow> jstring) \<Rightarrow> jsval \<Rightarrow> jstring" where
  "toValueText num v =
     (case v of
        Undefined \<Rightarrow> []
      | JStr s \<Rightarrow> s
      | _ \<Rightarrow> coalesce (json_stringify num [] v) [])"

definition parseLooseValue :: "jstring \<Rightarrow> jsval" where
  "parseLooseValue valueText =
     (let raw = trim valueText in if raw = [] then JStr [] else coalesce (json_parse raw) (JStr raw))"

definition verifyJSON :: "jstring \<Rightarrow> bool" where
  "verifyJSON s \<longleftrightarrow> json_parse s \<noteq> None"

subsection \<open>Normal forms\<close>

text \<open>A mode of a table, or the default.\<close>

definition mode_in :: "jstring list \<Rightarrow> jstring \<Rightarrow> jsval \<Rightarrow> jstring" where
  "mode_in modes d v = (case v of JStr m \<Rightarrow> if m \<in> set modes then m else d | _ \<Rightarrow> d)"

definition normalizeCondition ::
  "(rat \<Rightarrow> jstring) \<Rightarrow> (nat \<Rightarrow> nat) \<Rightarrow> nat \<Rightarrow> jsval \<Rightarrow> po_condition option \<times> nat" where
  "normalizeCondition num clock seed condition =
     (if condition = Null then None
      else Some \<lparr>c_id = nextLocalId clock seed,
         c_path = str_or (fld condition ''path'') [],
         c_mode = mode_in CONDITION_MODE_VALUES (lit ''full'') (fld condition ''mode''),
         c_value_text = toValueText num (fld condition ''value''),
         c_invert = (fld condition ''invert'' = JBool True),
         c_pass_missing_key = (fld condition ''pass_missing_key'' = JBool True)\<rparr>, seed + 1)"

text \<open>The elements of an array, in order; an exception stops.\<close>

fun map_seed :: "(nat \<Rightarrow> 'a \<Rightarrow> 'b option \<times> nat) \<Rightarrow> nat \<Rightarrow> 'a list \<Rightarrow> 'b list option \<times> nat" where
  "map_seed f seed [] = (Some [], seed)"
| "map_seed f seed (x # xs) =
     (case f seed x of
        (None, seed1) \<Rightarrow> (None, seed1)
      | (Some y, seed1) \<Rightarrow>
          (case map_seed f seed1 xs of
             (None, seed2) \<Rightarrow> (None, seed2)
           | (Some ys, seed2) \<Rightarrow> (Some (y # ys), seed2)))"


definition createDefaultCondition :: "(rat \<Rightarrow> jstring) \<Rightarrow> (nat \<Rightarrow> nat) \<Rightarrow> nat \<Rightarrow> po_condition option \<times> nat" where
  "createDefaultCondition num clock seed = normalizeCondition num clock seed (JObj [])"

text \<open>\<^verbatim>\<open>String(v || d).toUpperCase() === yes ? yes : no\<close>, \<open>None\<close> when the conversion throws\<close>

definition logic_of :: "(rat \<Rightarrow> jstring) \<Rightarrow> (jstring \<Rightarrow> jstring) \<Rightarrow> jsval \<Rightarrow> jstring \<Rightarrow> jstring \<Rightarrow> jstring \<Rightarrow> jstring option" where
  "logic_of num upper v d yes no =
     map_option (\<lambda>s. if upper s = yes then yes else no) (to_string num (or_val v (JStr d)))"

definition normalizeOperation ::
  "(rat \<Rightarrow> jstring) \<Rightarrow> (jstring \<Rightarrow> jstring) \<Rightarrow> (nat \<Rightarrow> nat) \<Rightarrow> nat \<Rightarrow> jsval \<Rightarrow> po_operation option \<times> nat" where
  "normalizeOperation num upper clock seed operation =
     (if operation = Null then (None, seed + 1)
      else case logic_of num upper (fld operation ''logic'') (lit ''OR'') (lit ''AND'') (lit ''OR'') of
        None \<Rightarrow> (None, seed + 1)
      | Some logic \<Rightarrow>
          (case (case fld operation ''conditions'' of
                   JArr cs \<Rightarrow> map_seed (normalizeCondition num clock) (seed + 1) cs
                 | _ \<Rightarrow> (Some [], seed + 1)) of
             (None, seed1) \<Rightarrow> (None, seed1)
           | (Some conds, seed1) \<Rightarrow>
               (Some \<lparr>o_id = nextLocalId clock seed,
                  o_description = str_or (fld operation ''description'') [],
                  o_path = str_or (fld operation ''path'') [],
                  o_mode = mode_in OPERATION_MODE_VALUES (lit ''set'') (fld operation ''mode''),
                  o_from = str_or (fld operation ''from'') [],
                  o_to = str_or (fld operation ''to'') [],
                  o_value_text = toValueText num (fld operation ''value''),
                  o_keep_origin = (fld operation ''keep_origin'' = JBool True),
                  o_logic = logic,
                  o_conditions = conds\<rparr>, seed1)))"

text \<open>The default operation: normalising it cannot fail.\<close>

definition createDefaultOperation :: "(nat \<Rightarrow> nat) \<Rightarrow> nat \<Rightarrow> po_operation \<times> nat" where
  "createDefaultOperation clock seed =
     (\<lparr>o_id = nextLocalId clock seed, o_description = [], o_path = [], o_mode = lit ''set'', o_from = [], o_to = [],
        o_value_text = [], o_keep_origin = False, o_logic = lit ''OR'', o_conditions = []\<rparr>, seed + 1)"

definition reorderOperations ::
  "po_operation list \<Rightarrow> jstring \<Rightarrow> jstring \<Rightarrow> bool \<Rightarrow> po_operation list" where
  "reorderOperations ops sourceId targetId after =
     (if sourceId = [] \<or> targetId = [] \<or> sourceId = targetId then ops
      else case find_index (\<lambda>op. o_id op = sourceId) ops of
        None \<Rightarrow> ops
      | Some srcIdx \<Rightarrow>
          let moved = ops ! srcIdx; next = take srcIdx ops @ drop (Suc srcIdx) ops in
          (case find_index (\<lambda>op. o_id op = targetId) next of
             None \<Rightarrow> ops
           | Some i \<Rightarrow> let insertIdx = (if after then i + 1 else i) in take insertIdx next @ moved # drop insertIdx next))"

definition isOperationBlank :: "po_operation \<Rightarrow> bool" where
  "isOperationBlank op \<longleftrightarrow>
     (let hasCondition = list_ex (\<lambda>c. trim (c_path c) \<noteq> [] \<or> trim (c_value_text c) \<noteq> [] \<or> c_mode c \<noteq> lit ''full''
            \<or> c_invert c \<or> c_pass_missing_key c) (o_conditions op)
      in o_mode op = lit ''set'' \<and> trim (o_path op) = [] \<and> trim (o_from op) = [] \<and> trim (o_to op) = []
         \<and> trim (o_value_text op) = [] \<and> \<not> o_keep_origin op \<and> \<not> hasCondition)"

subsection \<open>Labels\<close>

definition getOperationSummary :: "po_operation \<Rightarrow> nat \<Rightarrow> jstring" where
  "getOperationSummary op index =
     (let mode = or_str (o_mode op) (lit ''set''); modeLabel = opt_or_str (map_of OPERATION_MODE_LABEL_MAP mode) mode;
          path = trim (o_path op); from = trim (o_from op); to = trim (o_to op);
          name = (if mode = lit ''sync_fields'' then or_str (or_str from to) (lit ''-'')
                  else or_str (or_str (or_str path from) to) (lit ''-''))
      in show_nat (index + 1) @ lit ''. '' @ modeLabel @ [32, 183, 32] @ name)"

definition getModePathLabel :: "jstring \<Rightarrow> jstring" where
  "getModePathLabel mode =
     (if mode = lit ''set_header'' \<or> mode = lit ''delete_header'' then lit ''Header Name''
      else if mode = lit ''prune_objects'' then lit ''Target Path (optional)'' else lit ''Target Field Path'')"

definition getModePathPlaceholder :: "jstring \<Rightarrow> jstring" where
  "getModePathPlaceholder mode =
     (if mode = lit ''set_header'' then lit ''Authorization''
      else if mode = lit ''delete_header'' then lit ''X-Debug-Mode''
      else if mode = lit ''prune_objects'' then lit ''messages'' else lit ''temperature'')"

definition getModeFromLabel :: "jstring \<Rightarrow> jstring" where
  "getModeFromLabel mode =
     (if mode = lit ''replace'' then lit ''Match Text''
      else if mode = lit ''regex_replace'' then lit ''Regex Pattern''
      else if mode = lit ''copy_header'' \<or> mode = lit ''move_header'' then lit ''Source Header'' else lit ''Source Field'')"

definition getModeFromPlaceholder :: "jstring \<Rightarrow> jstring" where
  "getModeFromPlaceholder mode =
     (if mode = lit ''replace'' then lit ''openai/''
      else if mode = lit ''regex_replace'' then lit ''^gpt-''
      else if mode = lit ''copy_header'' \<or> mode = lit ''move_header'' then lit ''Authorization'' else lit ''model'')"

definition getModeToLabel :: "jstring \<Rightarrow> jstring" where
  "getModeToLabel mode =
     (if mode = lit ''replace'' \<or> mode = lit ''regex_replace'' then lit ''Replace With''
      else if mode = lit ''copy_header'' \<or> mode = lit ''move_header'' then lit ''Target Header'' else lit ''Target Field'')"

definition getModeToPlaceholder :: "jstring \<Rightarrow> jstring" where
  "getModeToPlaceholder mode =
     (if mode = lit ''replace'' then lit ''(leave empty to delete)''
      else if mode = lit ''regex_replace'' then lit ''openai/gpt-''
      else if mode = lit ''copy_header'' \<or> mode = lit ''move_header'' then lit ''X-Upstream-Auth'' else lit ''original_model'')"

definition affix_modes :: "jstring list" where
  "affix_modes = [lit ''trim_prefix'', lit ''trim_suffix'', lit ''ensure_prefix'', lit ''ensure_suffix'']"

definition getModeValueLabel :: "jstring \<Rightarrow> jstring" where
  "getModeValueLabel mode =
     (if mode = lit ''set_header'' then lit ''Header Value (supports string or JSON mapping)''
      else if mode = lit ''pass_headers'' then lit ''Pass-through Headers (comma-separated or JSON array)''
      else if mode \<in> set affix_modes then lit ''Prefix/Suffix Text''
      else if mode = lit ''prune_objects'' then lit ''Prune Rule (string or JSON object)''
      else lit ''Value (supports JSON or plain text)'')"

definition getModeValuePlaceholder :: "jstring \<Rightarrow> jstring" where
  "getModeValuePlaceholder mode =
     (if mode = lit ''set_header'' then lit ''Bearer sk-xxx''
      else if mode = lit ''pass_headers'' then lit ''Authorization, X-Request-Id''
      else if mode \<in> set affix_modes then lit ''openai/''
      else if mode = lit ''prune_objects'' then lit ''{'' @ json_quote (lit ''type'') @ lit '':'' @ json_quote (lit ''redacted_thinking'') @ lit ''}''
      else lit ''0.7'')"

subsection \<open>Synchronised fields\<close>

text \<open>The type (\<^verbatim>\<open>json\<close> or \<^verbatim>\<open>header\<close>) and the key.\<close>

definition parseSyncTargetSpec :: "(jstring \<Rightarrow> jstring) \<Rightarrow> jstring \<Rightarrow> jstring \<times> jstring" where
  "parseSyncTargetSpec lower spec =
     (let raw = trim spec in
      if raw = [] then (lit ''json'', [])
      else case index_of raw [58] of
        None \<Rightarrow> (lit ''json'', raw)
      | Some idx \<Rightarrow>
          let prefix = lower (trim (take idx raw)); key = trim (drop (idx + 1) raw) in
          (if prefix = lit ''header'' then lit ''header'' else lit ''json'', key))"

definition buildSyncTargetSpec :: "jstring \<Rightarrow> jstring \<Rightarrow> jstring" where
  "buildSyncTargetSpec type key =
     (let normalizedType = (if type = lit ''header'' then lit ''header'' else lit ''json''); normalizedKey = trim key in
      if normalizedKey = [] then [] else normalizedType @ lit '':'' @ normalizedKey)"

subsection \<open>Custom errors\<close>

record return_error_draft =
  re_message :: jstring
  re_statusCode :: jnum
  re_code :: jstring
  re_type :: jstring
  re_skipRetry :: bool
  re_simpleMode :: bool

definition status_or_400 :: "jnum \<Rightarrow> jnum" where
  "status_or_400 n =
     (if num_isInteger n \<and> num_less_eq (of_int_num 100) n \<and> num_less_eq n (of_int_num 599) then n else of_int_num 400)"

text \<open>A failing conversion inside the \<^verbatim>\<open>try\<close> block leaves the text as a message.\<close>

definition parseReturnErrorDraft :: "(rat \<Rightarrow> jstring) \<Rightarrow> jstring \<Rightarrow> return_error_draft" where
  "parseReturnErrorDraft num valueText =
     (let raw = trim valueText;
          defaults = \<lparr>re_message = [], re_statusCode = of_int_num 400, re_code = [], re_type = [], re_skipRetry = True, re_simpleMode = True\<rparr>;
          plain = defaults\<lparr>re_message := raw, re_simpleMode := True\<rparr>
      in if raw = [] then defaults
         else case json_parse raw of
           None \<Rightarrow> plain
         | Some parsed \<Rightarrow>
             if is_object parsed then
               let statusRaw = (if fld parsed ''status_code'' \<noteq> Undefined then fld parsed ''status_code'' else fld parsed ''status'') in
               (case (to_number num statusRaw,
                      to_string num (or_val (or_val (fld parsed ''message'') (fld parsed ''msg'')) (JStr [])),
                      to_string num (or_val (fld parsed ''code'') (JStr [])),
                      to_string num (or_val (fld parsed ''type'') (JStr []))) of
                  (Some statusValue, Some message, Some code, Some type) \<Rightarrow>
                    \<lparr>re_message = trim message, re_statusCode = status_or_400 statusValue, re_code = trim code, re_type = trim type,
                      re_skipRetry = (fld parsed ''skip_retry'' \<noteq> JBool False), re_simpleMode = False\<rparr>
                | _ \<Rightarrow> plain)
             else plain)"

definition buildReturnErrorValueText :: "(rat \<Rightarrow> jstring) \<Rightarrow> return_error_draft \<Rightarrow> jstring" where
  "buildReturnErrorValueText num draft =
     (let message = trim (re_message draft) in
      if re_simpleMode draft then message
      else
        let code = trim (re_code draft); type = trim (re_type draft);
            payload = [(lit ''message'', JStr message), (lit ''status_code'', JNum (status_or_400 (re_statusCode draft)))]
              @ (if code \<noteq> [] then [(lit ''code'', JStr code)] else [])
              @ (if type \<noteq> [] then [(lit ''type'', JStr type)] else [])
              @ (if \<not> re_skipRetry draft then [(lit ''skip_retry'', JBool False)] else [])
        in coalesce (json_stringify num [] (JObj payload)) [])"


subsection \<open>Pruned objects\<close>

text \<open>A rule has the fields of a condition, under the same names.\<close>

record prune_draft =
  pd_simpleMode :: bool
  pd_typeText :: jstring
  pd_logic :: jstring
  pd_recursive :: bool
  pd_rules :: "po_condition list"

definition normalizePruneRule ::
  "(rat \<Rightarrow> jstring) \<Rightarrow> (nat \<Rightarrow> nat) \<Rightarrow> nat \<Rightarrow> jsval \<Rightarrow> po_condition option \<times> nat" where
  "normalizePruneRule num clock seed rule =
     (Some \<lparr>c_id = nextLocalId clock seed,
        c_path = str_or (fld rule ''path'') [],
        c_mode = mode_in CONDITION_MODE_VALUES (lit ''full'') (fld rule ''mode''),
        c_value_text = toValueText num (fld rule ''value''),
        c_invert = (fld rule ''invert'' = JBool True),
        c_pass_missing_key = (fld rule ''pass_missing_key'' = JBool True)\<rparr>, seed + 1)"

text \<open>The inputs that the two loops give to \<^verbatim>\<open>normalizePruneRule\<close>, in order.\<close>

definition entry_rules :: "jsval \<Rightarrow> jsval list" where
  "entry_rules v =
     (case v of
        JObj ps \<Rightarrow> map (\<lambda>(path, value). JObj [(lit ''path'', JStr path), (lit ''mode'', JStr (lit ''full'')), (lit ''value'', value)]) ps
      | _ \<Rightarrow> [])"

definition prune_inputs :: "jsval \<Rightarrow> jsval list" where
  "prune_inputs parsed =
     entry_rules (fld parsed ''where'')
     @ (case fld parsed ''conditions'' of
          JArr items \<Rightarrow> filter (\<lambda>v. truthy v \<and> typeof_object v) items
        | v \<Rightarrow> entry_rules v)"

text \<open>What the editor falls back to: the text as a type.\<close>

definition prune_text :: "jstring \<Rightarrow> prune_draft" where
  "prune_text s = \<lparr>pd_simpleMode = True, pd_typeText = s, pd_logic = lit ''AND'', pd_recursive = True, pd_rules = []\<rparr>"

definition prune_object ::
  "(rat \<Rightarrow> jstring) \<Rightarrow> (jstring \<Rightarrow> jstring) \<Rightarrow> jsval \<Rightarrow> po_condition list \<Rightarrow> prune_draft option" where
  "prune_object num upper parsed rules =
     (case (if fld parsed ''type'' = Undefined then Some [] else map_option trim (to_string num (fld parsed ''type'')),
            logic_of num upper (fld parsed ''logic'') (lit ''AND'') (lit ''OR'') (lit ''AND'')) of
        (Some typeText, Some logic) \<Rightarrow>
          let hasAdvancedFields = fld parsed ''logic'' \<noteq> Undefined \<or> fld parsed ''recursive'' \<noteq> Undefined
                \<or> fld parsed ''where'' \<noteq> Undefined \<or> fld parsed ''conditions'' \<noteq> Undefined
          in Some \<lparr>pd_simpleMode = \<not> hasAdvancedFields, pd_typeText = typeText, pd_logic = logic,
               pd_recursive = (fld parsed ''recursive'' \<noteq> JBool False), pd_rules = rules\<rparr>
      | _ \<Rightarrow> None)"

definition parsePruneObjectsDraft ::
  "(rat \<Rightarrow> jstring) \<Rightarrow> (jstring \<Rightarrow> jstring) \<Rightarrow> (nat \<Rightarrow> nat) \<Rightarrow> nat \<Rightarrow> jstring \<Rightarrow> prune_draft \<times> nat" where
  "parsePruneObjectsDraft num upper clock seed valueText =
     (let raw = trim valueText in
      if raw = [] then (prune_text [], seed)
      else case json_parse raw of
        None \<Rightarrow> (prune_text raw, seed)
      | Some parsed \<Rightarrow>
          (case as_str parsed of
             Some s \<Rightarrow> (prune_text (trim s), seed)
           | None \<Rightarrow>
               if is_object parsed then
                 (case map_seed (normalizePruneRule num clock) seed (prune_inputs parsed) of
                    (None, seed1) \<Rightarrow> (prune_text raw, seed1)
                  | (Some rules, seed1) \<Rightarrow> (coalesce (prune_object num upper parsed rules) (prune_text raw), seed1))
               else
                 (case to_string num (if is_nullish parsed then JStr [] else parsed) of
                    Some s \<Rightarrow> (prune_text (trim s), seed)
                  | None \<Rightarrow> (prune_text raw, seed))))"

definition prune_condition :: "po_condition \<Rightarrow> jsval" where
  "prune_condition rule =
     JObj ([(lit ''path'', JStr (trim (c_path rule))),
            (lit ''mode'', JStr (if c_mode rule \<in> set CONDITION_MODE_VALUES then c_mode rule else lit ''full''))]
       @ (if trim (c_value_text rule) \<noteq> [] then [(lit ''value'', parseLooseValue (trim (c_value_text rule)))] else [])
       @ (if c_invert rule then [(lit ''invert'', JBool True)] else [])
       @ (if c_pass_missing_key rule then [(lit ''pass_missing_key'', JBool True)] else []))"

definition buildPruneObjectsValueText :: "(rat \<Rightarrow> jstring) \<Rightarrow> (jstring \<Rightarrow> jstring) \<Rightarrow> prune_draft \<Rightarrow> jstring" where
  "buildPruneObjectsValueText num upper draft =
     (let typeText = trim (pd_typeText draft) in
      if pd_simpleMode draft then typeText
      else
        let conditions = map prune_condition (filter (\<lambda>r. trim (c_path r) \<noteq> []) (pd_rules draft));
            payload = (if typeText \<noteq> [] then [(lit ''type'', JStr typeText)] else [])
              @ (if upper (or_str (pd_logic draft) (lit ''AND'')) = lit ''OR'' then [(lit ''logic'', JStr (lit ''OR''))] else [])
              @ (if \<not> pd_recursive draft then [(lit ''recursive'', JBool False)] else [])
              @ (if conditions \<noteq> [] then [(lit ''conditions'', JArr conditions)] else [])
        in coalesce (json_stringify num []
             (if typeText = [] \<and> conditions = [] then JObj [(lit ''logic'', JStr (lit ''AND''))] else JObj payload)) [])"

subsection \<open>Passed headers\<close>

text \<open>\<^verbatim>\<open>items.map((i) => String(i ?? '').trim()).filter(Boolean)\<close>\<close>

definition header_names :: "(rat \<Rightarrow> jstring) \<Rightarrow> jsval list \<Rightarrow> jstring list option" where
  "header_names num items =
     map_option (\<lambda>xs. filter (\<lambda>x. x \<noteq> []) (map trim xs))
       (those (map (\<lambda>i. to_string num (if is_nullish i then JStr [] else i)) items))"

definition parsePassHeaderNames :: "(rat \<Rightarrow> jstring) \<Rightarrow> jsval \<Rightarrow> jstring list option" where
  "parsePassHeaderNames num rawValue =
     (case rawValue of
        JArr items \<Rightarrow> header_names num items
      | JObj _ \<Rightarrow>
          (case fld rawValue ''headers'' of
             JArr items \<Rightarrow> header_names num items
           | _ \<Rightarrow> if fld rawValue ''header'' \<noteq> Undefined then header_names num [fld rawValue ''header''] else Some [])
      | JStr s \<Rightarrow> Some (filter (\<lambda>x. x \<noteq> []) (map trim (split_on 44 s)))
      | _ \<Rightarrow> Some [])"

subsection \<open>Validation\<close>

definition buildConditionPayload :: "po_condition \<Rightarrow> jsval option" where
  "buildConditionPayload condition =
     (let path = trim (c_path condition) in
      if path = [] then None
      else Some (JObj ([(lit ''path'', JStr path), (lit ''mode'', JStr (or_str (c_mode condition) (lit ''full''))),
                        (lit ''value'', parseLooseValue (c_value_text condition))]
             @ (if c_invert condition then [(lit ''invert'', JBool True)] else [])
             @ (if c_pass_missing_key condition then [(lit ''pass_missing_key'', JBool True)] else []))))"

text \<open>The messages with the number of the rule, and an exception of a conversion.\<close>

datatype override_error =
    Missing_target_path nat
  | Missing_source_field nat
  | Missing_target_field nat
  | Missing_value nat
  | Return_error_requires_message nat
  | Prune_objects_missing_conditions nat
  | Pass_headers_missing_names nat
  | Pass_headers_invalid nat
  | Conversion_error
  | Invalid_json
  | Legacy_not_object
  | Legacy_invalid
  | Not_object
  | Json_format_error

definition return_error_check :: "(rat \<Rightarrow> jstring) \<Rightarrow> jstring \<Rightarrow> bool" where
  "return_error_check num raw \<longleftrightarrow>
     (case json_parse raw of
        Some (JObj ps) \<Rightarrow>
          (case to_string num (or_val (fld (JObj ps) ''message'') (JStr [])) of
             Some s \<Rightarrow> trim s \<noteq> []
           | None \<Rightarrow> True)
      | _ \<Rightarrow> True)"

definition validate_operation :: "(rat \<Rightarrow> jstring) \<Rightarrow> nat \<Rightarrow> po_operation \<Rightarrow> override_error option" where
  "validate_operation num line op =
     (let mode = or_str (o_mode op) (lit ''set''); meta = meta_of mode;
          pathValue = trim (o_path op); fromValue = trim (o_from op); toValue = trim (o_to op); raw = trim (o_value_text op)
      in if m_path meta \<and> pathValue = [] then Some (Missing_target_path line)
         else if mode \<in> set FROM_REQUIRED_MODES \<and> fromValue = [] \<and> \<not> (m_pathAlias meta \<and> pathValue \<noteq> []) then Some (Missing_source_field line)
         else if mode \<in> set TO_REQUIRED_MODES \<and> toValue = [] \<and> \<not> (m_pathAlias meta \<and> pathValue \<noteq> []) then Some (Missing_target_field line)
         else if mode \<in> set VALUE_REQUIRED_MODES \<and> raw = [] then Some (Missing_value line)
         else if mode = lit ''return_error'' \<and> raw = [] then Some (Missing_value line)
         else if mode = lit ''return_error'' \<and> \<not> return_error_check num raw then Some (Return_error_requires_message line)
         else if mode = lit ''prune_objects'' \<and> raw = [] then Some (Prune_objects_missing_conditions line)
         else if mode = lit ''pass_headers'' then
           (if raw = [] then Some (Pass_headers_missing_names line)
            else case parsePassHeaderNames num (parseLooseValue raw) of
              None \<Rightarrow> Some Conversion_error
            | Some headers \<Rightarrow> if headers = [] then Some (Pass_headers_invalid line) else None)
         else None)"

fun validate_from :: "(rat \<Rightarrow> jstring) \<Rightarrow> nat \<Rightarrow> po_operation list \<Rightarrow> override_error option" where
  "validate_from num i [] = None"
| "validate_from num i (op # ops) =
     (case validate_operation num (i + 1) op of
        Some e \<Rightarrow> Some e
      | None \<Rightarrow> validate_from num (i + 1) ops)"

definition validateOperations :: "(rat \<Rightarrow> jstring) \<Rightarrow> po_operation list \<Rightarrow> override_error option" where
  "validateOperations num ops = validate_from num 0 ops"

subsection \<open>Reading and writing\<close>

datatype edit_mode = Visual_mode | Json_mode
datatype visual_mode = Operations_mode | Legacy_mode

record editor_state =
  editMode :: edit_mode
  visualMode :: visual_mode
  legacyValue :: jstring
  operations :: "po_operation list"
  jsonText :: jstring
  jsonError :: jstring

definition pretty :: "(rat \<Rightarrow> jstring) \<Rightarrow> jsval \<Rightarrow> jstring" where
  "pretty num v = coalesce (json_stringify num [32, 32] v) []"

text \<open>The operations of a text with an array of them: the default one when it is empty.\<close>

definition load_operations ::
  "(rat \<Rightarrow> jstring) \<Rightarrow> (jstring \<Rightarrow> jstring) \<Rightarrow> (nat \<Rightarrow> nat) \<Rightarrow> nat \<Rightarrow> jsval list \<Rightarrow> po_operation list option \<times> nat" where
  "load_operations num upper clock seed items =
     (if items \<noteq> [] then map_seed (normalizeOperation num upper clock) seed items
      else (Some [fst (createDefaultOperation clock seed)], seed + 1))"

definition parseInitialState ::
  "(rat \<Rightarrow> jstring) \<Rightarrow> (jstring \<Rightarrow> jstring) \<Rightarrow> (nat \<Rightarrow> nat) \<Rightarrow> nat \<Rightarrow> jstring \<Rightarrow> editor_state option \<times> nat" where
  "parseInitialState num upper clock seed rawValue =
     (let trimmed = trim rawValue; d = fst (createDefaultOperation clock seed) in
      if trimmed = [] then
        (Some \<lparr>editMode = Visual_mode, visualMode = Operations_mode, legacyValue = [], operations = [d], jsonText = [], jsonError = []\<rparr>, seed + 1)
      else case json_parse trimmed of
        None \<Rightarrow>
          (Some \<lparr>editMode = Json_mode, visualMode = Operations_mode, legacyValue = [], operations = [d], jsonText = rawValue,
              jsonError = lit ''Invalid JSON format''\<rparr>, seed + 1)
      | Some parsed \<Rightarrow>
          (case (parsed, fld parsed ''operations'') of
             (JObj _, JArr items) \<Rightarrow>
               (case load_operations num upper clock seed items of
                  (None, seed1) \<Rightarrow> (None, seed1)
                | (Some ops, seed1) \<Rightarrow>
                    (Some \<lparr>editMode = Visual_mode, visualMode = Operations_mode, legacyValue = [], operations = ops,
                        jsonText = pretty num parsed, jsonError = []\<rparr>, seed1))
           | (JObj _, _) \<Rightarrow>
               (Some \<lparr>editMode = Visual_mode, visualMode = Legacy_mode, legacyValue = pretty num parsed, operations = [d],
                   jsonText = pretty num parsed, jsonError = []\<rparr>, seed + 1)
           | _ \<Rightarrow>
               (Some \<lparr>editMode = Json_mode, visualMode = Operations_mode, legacyValue = [], operations = [d],
                   jsonText = pretty num parsed, jsonError = []\<rparr>, seed + 1)))"

text \<open>\<^verbatim>\<open>if (!payload[k] && v) payload[k] = v\<close>\<close>

definition set_if_missing :: "string \<Rightarrow> jstring \<Rightarrow> (jstring \<times> jsval) list \<Rightarrow> (jstring \<times> jsval) list" where
  "set_if_missing k v payload =
     (if \<not> truthy (fld (JObj payload) k) \<and> v \<noteq> [] then set_key k (JStr v) payload else payload)"

definition operation_payload :: "po_operation \<Rightarrow> jsval" where
  "operation_payload op =
     (let mode = or_str (o_mode op) (lit ''set''); meta = meta_of mode; descriptionValue = trim (o_description op);
          pathValue = trim (o_path op); fromValue = trim (o_from op); toValue = trim (o_to op);
          p0 = [(lit ''mode'', JStr mode)];
          p1 = (if descriptionValue \<noteq> [] then set_key ''description'' (JStr descriptionValue) p0 else p0);
          p2 = (if m_path meta then set_key ''path'' (JStr pathValue) p1 else p1);
          p3 = (if m_pathOptional meta \<and> pathValue \<noteq> [] then set_key ''path'' (JStr pathValue) p2 else p2);
          p4 = (if m_value meta then set_key ''value'' (parseLooseValue (o_value_text op)) p3 else p3);
          p5 = (if m_keepOrigin meta \<and> o_keep_origin op then set_key ''keep_origin'' (JBool True) p4 else p4);
          p6 = (if m_from meta then set_key ''from'' (JStr fromValue) p5 else p5);
          p7 = (if \<not> m_to meta \<and> toValue \<noteq> [] then set_key ''to'' (JStr toValue) p6 else p6);
          p8 = (if m_to meta then set_key ''to'' (JStr toValue) p7 else p7);
          p9 = (if m_pathAlias meta then set_if_missing ''to'' pathValue (set_if_missing ''from'' pathValue p8) else p8);
          conditions = List.map_filter buildConditionPayload (o_conditions op);
          p10 = (if conditions \<noteq> []
                 then set_key ''logic'' (JStr (if o_logic op = lit ''AND'' then lit ''AND'' else lit ''OR''))
                        (set_key ''conditions'' (JArr conditions) p9)
                 else p9)
      in JObj p10)"

definition buildOperationsJson :: "(rat \<Rightarrow> jstring) \<Rightarrow> po_operation list \<Rightarrow> bool \<Rightarrow> override_error + jstring" where
  "buildOperationsJson num sourceOperations validate =
     (let filteredOps = filter (\<lambda>op. \<not> isOperationBlank op) sourceOperations in
      if filteredOps = [] then Inr []
      else case (if validate then validateOperations num filteredOps else None) of
        Some e \<Rightarrow> Inl e
      | None \<Rightarrow> Inr (pretty num (JObj [(lit ''operations'', JArr (map operation_payload filteredOps))])))"

end
