(* ===== verification/Param_Editor.thy ===== *)
theory Param_Editor
  imports Param_Override
begin

section \<open>The editor of parameter overrides\<close>

text \<open>
  The state and the handlers of the component \<^verbatim>\<open>ParamOverrideEditorDialog\<close>. A handler takes the state
  to the next one; what it reports (a toast, the saved text, closing the dialog) is a list of outputs.
  Updater functions run when they are queued, except that \<^verbatim>\<open>duplicateOperation\<close> reads the result of
  its updater at once: whether it has run by then is the argument \<open>eager\<close>. \<open>msg\<close> is the translated
  text of an error.
\<close>

subsection \<open>State\<close>

record po_editor = editor_state +
  operationSearch :: jstring
  selectedOperationId :: jstring
  expandedConditions :: "(jstring, bool) jmap"
  draggedOperationId :: jstring
  dragOverOperationId :: jstring
  dragOverAfter :: bool
  templatePresetKey :: jstring
  localIdSeed :: nat

datatype po_output = Toast override_error | Saved jstring | Closed

text \<open>The assignments that the controls of the editor make.\<close>

datatype op_patch =
    Set_mode jstring | Set_path jstring | Set_description jstring | Set_value_text jstring
  | Set_keep_origin bool | Set_from jstring | Set_to jstring | Set_logic jstring

fun patch_operation :: "op_patch \<Rightarrow> po_operation \<Rightarrow> po_operation" where
  "patch_operation (Set_mode x) op = op\<lparr>o_mode := x\<rparr>"
| "patch_operation (Set_path x) op = op\<lparr>o_path := x\<rparr>"
| "patch_operation (Set_description x) op = op\<lparr>o_description := x\<rparr>"
| "patch_operation (Set_value_text x) op = op\<lparr>o_value_text := x\<rparr>"
| "patch_operation (Set_keep_origin b) op = op\<lparr>o_keep_origin := b\<rparr>"
| "patch_operation (Set_from x) op = op\<lparr>o_from := x\<rparr>"
| "patch_operation (Set_to x) op = op\<lparr>o_to := x\<rparr>"
| "patch_operation (Set_logic x) op = op\<lparr>o_logic := x\<rparr>"

datatype cond_patch =
    Set_c_path jstring | Set_c_mode jstring | Set_c_value_text jstring | Set_c_invert bool | Set_c_pass_missing_key bool

fun patch_condition :: "cond_patch \<Rightarrow> po_condition \<Rightarrow> po_condition" where
  "patch_condition (Set_c_path x) c = c\<lparr>c_path := x\<rparr>"
| "patch_condition (Set_c_mode x) c = c\<lparr>c_mode := x\<rparr>"
| "patch_condition (Set_c_value_text x) c = c\<lparr>c_value_text := x\<rparr>"
| "patch_condition (Set_c_invert b) c = c\<lparr>c_invert := b\<rparr>"
| "patch_condition (Set_c_pass_missing_key b) c = c\<lparr>c_pass_missing_key := b\<rparr>"

subsection \<open>Effects\<close>

text \<open>The effect that runs when the dialog opens; \<open>None\<close> when it throws.\<close>

definition first_id :: "po_operation list \<Rightarrow> jstring" where
  "first_id ops = (case ops of [] \<Rightarrow> [] | op # _ \<Rightarrow> o_id op)"

definition open_dialog ::
  "(rat \<Rightarrow> jstring) \<Rightarrow> (jstring \<Rightarrow> jstring) \<Rightarrow> (nat \<Rightarrow> nat) \<Rightarrow> jstring \<Rightarrow> nat \<Rightarrow> po_editor option" where
  "open_dialog num upper clock value seed =
     (case parseInitialState num upper clock seed value of
        (None, _) \<Rightarrow> None
      | (Some st, seed1) \<Rightarrow>
          Some (editor_state.extend st
            \<lparr>operationSearch = [], selectedOperationId = first_id (operations st), expandedConditions = [],
              draggedOperationId = [], dragOverOperationId = [], dragOverAfter = False,
              templatePresetKey = (if visualMode st = Legacy_mode then lit ''legacy_default'' else lit ''operations_default''),
              localIdSeed = seed1\<rparr>))"

text \<open>The effect that keeps the selection valid.\<close>

definition keep_selection :: "po_editor \<Rightarrow> po_editor" where
  "keep_selection st =
     (if operations st = [] then st\<lparr>selectedOperationId := []\<rparr>
      else if list_ex (\<lambda>op. o_id op = selectedOperationId st) (operations st) then st
      else st\<lparr>selectedOperationId := o_id (hd (operations st))\<rparr>)"

definition operationCount :: "po_editor \<Rightarrow> nat" where
  "operationCount st = length (filter (\<lambda>op. \<not> isOperationBlank op) (operations st))"

definition filteredOperations :: "(jstring \<Rightarrow> jstring) \<Rightarrow> po_editor \<Rightarrow> po_operation list" where
  "filteredOperations lower st =
     (let keyword = lower (trim (operationSearch st)) in
      if keyword = [] then operations st
      else filter (\<lambda>op. str_includes (lower (join [32] (filter (\<lambda>s. s \<noteq> [])
             [o_description op, o_mode op, o_path op, o_from op, o_to op, o_value_text op]))) keyword) (operations st))"

definition selectedOperation :: "po_editor \<Rightarrow> po_operation option" where
  "selectedOperation st = find (\<lambda>op. o_id op = selectedOperationId st) (operations st)"

definition selectedOperationIndex :: "po_editor \<Rightarrow> nat option" where
  "selectedOperationIndex st = find_index (\<lambda>op. o_id op = selectedOperationId st) (operations st)"

definition returnErrorDraft :: "(rat \<Rightarrow> jstring) \<Rightarrow> po_editor \<Rightarrow> return_error_draft option" where
  "returnErrorDraft num st =
     (case selectedOperation st of
        Some op \<Rightarrow> if o_mode op = lit ''return_error'' then Some (parseReturnErrorDraft num (o_value_text op)) else None
      | None \<Rightarrow> None)"

text \<open>The draft that is shown takes identifiers, too.\<close>

definition pruneObjectsDraft ::
  "(rat \<Rightarrow> jstring) \<Rightarrow> (jstring \<Rightarrow> jstring) \<Rightarrow> (nat \<Rightarrow> nat) \<Rightarrow> po_editor \<Rightarrow> prune_draft option \<times> po_editor" where
  "pruneObjectsDraft num upper clock st =
     (case selectedOperation st of
        Some op \<Rightarrow>
          if o_mode op = lit ''prune_objects'' then
            (case parsePruneObjectsDraft num upper clock (localIdSeed st) (o_value_text op) of
               (d, seed) \<Rightarrow> (Some d, st\<lparr>localIdSeed := seed\<rparr>))
          else (None, st)
      | None \<Rightarrow> (None, st))"

definition count_mode :: "po_operation \<Rightarrow> (jstring, nat) jmap \<Rightarrow> (jstring, nat) jmap" where
  "count_mode op counts = (let mode = or_str (o_mode op) (lit ''set'') in AList.update mode (coalesce (map_of counts mode) 0 + 1) counts)"

definition topOperationModes :: "po_editor \<Rightarrow> (jstring \<times> nat) list" where
  "topOperationModes st =
     take 4 (js_sort (\<lambda>a b. int (snd b) - int (snd a)) (fold count_mode (operations st) []))"

subsection \<open>Operations and conditions\<close>

definition updateOperation :: "jstring \<Rightarrow> op_patch \<Rightarrow> po_editor \<Rightarrow> po_editor" where
  "updateOperation operationId patch st =
     st\<lparr>operations := map (\<lambda>op. if o_id op = operationId then patch_operation patch op else op) (operations st)\<rparr>"

definition addOperation :: "(nat \<Rightarrow> nat) \<Rightarrow> po_editor \<Rightarrow> po_editor" where
  "addOperation clock st =
     (let (created, seed) = createDefaultOperation clock (localIdSeed st) in
      st\<lparr>operations := operations st @ [created], selectedOperationId := o_id created, localIdSeed := seed\<rparr>)"

text \<open>The object that \<^verbatim>\<open>duplicateOperation\<close> normalises.\<close>

definition clone_input :: "po_operation \<Rightarrow> jsval" where
  "clone_input source = JObj
     [(lit ''description'', JStr (o_description source)), (lit ''path'', JStr (o_path source)), (lit ''mode'', JStr (o_mode source)),
      (lit ''value'', parseLooseValue (o_value_text source)), (lit ''keep_origin'', JBool (o_keep_origin source)),
      (lit ''from'', JStr (o_from source)), (lit ''to'', JStr (o_to source)), (lit ''logic'', JStr (o_logic source)),
      (lit ''conditions'', JArr (map (\<lambda>c. JObj
        [(lit ''path'', JStr (c_path c)), (lit ''mode'', JStr (c_mode c)), (lit ''value'', parseLooseValue (c_value_text c)),
         (lit ''invert'', JBool (c_invert c)), (lit ''pass_missing_key'', JBool (c_pass_missing_key c))]) (o_conditions source)))]"

definition duplicateOperation ::
  "(rat \<Rightarrow> jstring) \<Rightarrow> (jstring \<Rightarrow> jstring) \<Rightarrow> (nat \<Rightarrow> nat) \<Rightarrow> bool \<Rightarrow> jstring \<Rightarrow> po_editor \<Rightarrow> po_editor" where
  "duplicateOperation num upper clock eager operationId st =
     (case find_index (\<lambda>op. o_id op = operationId) (operations st) of
        None \<Rightarrow> st
      | Some idx \<Rightarrow>
          (case normalizeOperation num upper clock (localIdSeed st) (clone_input (operations st ! idx)) of
             (None, seed) \<Rightarrow> st\<lparr>localIdSeed := seed\<rparr>
           | (Some cloned, seed) \<Rightarrow>
               st\<lparr>operations := take (idx + 1) (operations st) @ cloned # drop (idx + 1) (operations st),
                  selectedOperationId := (if eager then o_id cloned else selectedOperationId st), localIdSeed := seed\<rparr>))"

definition removeOperation :: "(nat \<Rightarrow> nat) \<Rightarrow> jstring \<Rightarrow> po_editor \<Rightarrow> po_editor" where
  "removeOperation clock operationId st =
     (if length (operations st) \<le> 1
      then (let (d, seed) = createDefaultOperation clock (localIdSeed st) in st\<lparr>operations := [d], localIdSeed := seed\<rparr>)
      else st\<lparr>operations := filter (\<lambda>op. o_id op \<noteq> operationId) (operations st)\<rparr>)"

text \<open>A change of the operation with an identifier.\<close>

abbreviation on_operation :: "jstring \<Rightarrow> (po_operation \<Rightarrow> po_operation) \<Rightarrow> po_editor \<Rightarrow> po_editor" where
  "on_operation operationId f st \<equiv> st\<lparr>operations := map (\<lambda>op. if o_id op = operationId then f op else op) (operations st)\<rparr>"

definition addCondition :: "(rat \<Rightarrow> jstring) \<Rightarrow> (nat \<Rightarrow> nat) \<Rightarrow> jstring \<Rightarrow> po_editor \<Rightarrow> po_editor" where
  "addCondition num clock operationId st =
     (case createDefaultCondition num clock (localIdSeed st) of
        (None, seed) \<Rightarrow> st\<lparr>localIdSeed := seed\<rparr>
      | (Some created, seed) \<Rightarrow>
          (on_operation operationId (\<lambda>op. op\<lparr>o_conditions := o_conditions op @ [created]\<rparr>) st)
            \<lparr>expandedConditions := AList.update (c_id created) True (expandedConditions st), localIdSeed := seed\<rparr>)"

definition updateCondition :: "jstring \<Rightarrow> jstring \<Rightarrow> cond_patch \<Rightarrow> po_editor \<Rightarrow> po_editor" where
  "updateCondition operationId conditionId patch st =
     on_operation operationId (\<lambda>op. op\<lparr>o_conditions :=
       map (\<lambda>c. if c_id c = conditionId then patch_condition patch c else c) (o_conditions op)\<rparr>) st"

definition removeCondition :: "jstring \<Rightarrow> jstring \<Rightarrow> po_editor \<Rightarrow> po_editor" where
  "removeCondition operationId conditionId st =
     on_operation operationId (\<lambda>op. op\<lparr>o_conditions := filter (\<lambda>c. c_id c \<noteq> conditionId) (o_conditions op)\<rparr>) st"

subsection \<open>Drafts\<close>

definition updateReturnErrorDraft ::
  "(rat \<Rightarrow> jstring) \<Rightarrow> jstring \<Rightarrow> (return_error_draft \<Rightarrow> return_error_draft) \<Rightarrow> po_editor \<Rightarrow> po_editor" where
  "updateReturnErrorDraft num operationId patch st =
     on_operation operationId (\<lambda>op. op\<lparr>o_value_text :=
       buildReturnErrorValueText num (patch (parseReturnErrorDraft num (o_value_text op)))\<rparr>) st"

text \<open>The updater may take identifiers; the operations are visited in order.\<close>

fun prune_step ::
  "(rat \<Rightarrow> jstring) \<Rightarrow> (jstring \<Rightarrow> jstring) \<Rightarrow> (nat \<Rightarrow> nat) \<Rightarrow> jstring \<Rightarrow> (nat \<Rightarrow> prune_draft \<Rightarrow> prune_draft \<times> nat)
    \<Rightarrow> nat \<Rightarrow> po_operation list \<Rightarrow> po_operation list \<times> nat" where
  "prune_step num upper clock operationId updater seed [] = ([], seed)"
| "prune_step num upper clock operationId updater seed (op # ops) =
     (if o_id op \<noteq> operationId
      then (case prune_step num upper clock operationId updater seed ops of (ops', seed') \<Rightarrow> (op # ops', seed'))
      else
        (case parsePruneObjectsDraft num upper clock seed (o_value_text op) of
           (draft, seed1) \<Rightarrow>
             (case updater seed1 draft of
                (nextDraft, seed2) \<Rightarrow>
                  (case prune_step num upper clock operationId updater seed2 ops of
                     (ops', seed') \<Rightarrow> (op\<lparr>o_value_text := buildPruneObjectsValueText num upper nextDraft\<rparr> # ops', seed')))))"

definition updatePruneObjectsDraft ::
  "(rat \<Rightarrow> jstring) \<Rightarrow> (jstring \<Rightarrow> jstring) \<Rightarrow> (nat \<Rightarrow> nat) \<Rightarrow> jstring \<Rightarrow> (nat \<Rightarrow> prune_draft \<Rightarrow> prune_draft \<times> nat)
    \<Rightarrow> po_editor \<Rightarrow> po_editor" where
  "updatePruneObjectsDraft num upper clock operationId updater st =
     (case prune_step num upper clock operationId updater (localIdSeed st) (operations st) of
        (ops, seed) \<Rightarrow> st\<lparr>operations := ops, localIdSeed := seed\<rparr>)"

definition addPruneRule ::
  "(rat \<Rightarrow> jstring) \<Rightarrow> (jstring \<Rightarrow> jstring) \<Rightarrow> (nat \<Rightarrow> nat) \<Rightarrow> jstring \<Rightarrow> po_editor \<Rightarrow> po_editor" where
  "addPruneRule num upper clock operationId =
     updatePruneObjectsDraft num upper clock operationId
       (\<lambda>seed draft. case normalizePruneRule num clock seed (JObj []) of
          (r, seed1) \<Rightarrow> (draft\<lparr>pd_simpleMode := False, pd_rules := pd_rules draft @ (case r of Some x \<Rightarrow> [x] | None \<Rightarrow> [])\<rparr>, seed1))"

definition updatePruneRule ::
  "(rat \<Rightarrow> jstring) \<Rightarrow> (jstring \<Rightarrow> jstring) \<Rightarrow> (nat \<Rightarrow> nat) \<Rightarrow> jstring \<Rightarrow> jstring \<Rightarrow> cond_patch \<Rightarrow> po_editor \<Rightarrow> po_editor" where
  "updatePruneRule num upper clock operationId ruleId patch =
     updatePruneObjectsDraft num upper clock operationId
       (\<lambda>seed draft. (draft\<lparr>pd_rules := map (\<lambda>r. if c_id r = ruleId then patch_condition patch r else r) (pd_rules draft)\<rparr>, seed))"

definition removePruneRule ::
  "(rat \<Rightarrow> jstring) \<Rightarrow> (jstring \<Rightarrow> jstring) \<Rightarrow> (nat \<Rightarrow> nat) \<Rightarrow> jstring \<Rightarrow> jstring \<Rightarrow> po_editor \<Rightarrow> po_editor" where
  "removePruneRule num upper clock operationId ruleId =
     updatePruneObjectsDraft num upper clock operationId
       (\<lambda>seed draft. (draft\<lparr>pd_rules := filter (\<lambda>r. c_id r \<noteq> ruleId) (pd_rules draft)\<rparr>, seed))"

subsection \<open>Drag and drop\<close>

definition resetDragState :: "po_editor \<Rightarrow> po_editor" where
  "resetDragState st = st\<lparr>draggedOperationId := [], dragOverOperationId := [], dragOverAfter := False\<rparr>"

definition handleDragStart :: "jstring \<Rightarrow> po_editor \<Rightarrow> po_editor" where
  "handleDragStart operationId st = st\<lparr>draggedOperationId := operationId, selectedOperationId := operationId\<rparr>"

text \<open>\<open>lower_half\<close>: the pointer is in the lower half of the row.\<close>

definition handleDragOver :: "bool \<Rightarrow> jstring \<Rightarrow> po_editor \<Rightarrow> po_editor" where
  "handleDragOver lower_half operationId st =
     (if draggedOperationId st = [] \<or> draggedOperationId st = operationId then st
      else st\<lparr>dragOverOperationId := operationId, dragOverAfter := lower_half\<rparr>)"

text \<open>\<open>transferred\<close>: the text of the drag event.\<close>

definition handleDrop :: "jstring \<Rightarrow> jstring \<Rightarrow> po_editor \<Rightarrow> po_editor" where
  "handleDrop transferred operationId st =
     (let sourceId = or_str (draggedOperationId st) transferred;
          after = (if dragOverOperationId st = operationId then dragOverAfter st else False);
          st1 = (if sourceId \<noteq> [] \<and> operationId \<noteq> [] \<and> sourceId \<noteq> operationId
                 then st\<lparr>operations := reorderOperations (operations st) sourceId operationId after, selectedOperationId := sourceId\<rparr>
                 else st)
      in resetDragState st1)"


subsection \<open>Mode switching and templates\<close>

definition buildVisualJson :: "(rat \<Rightarrow> jstring) \<Rightarrow> po_editor \<Rightarrow> override_error + jstring" where
  "buildVisualJson num st =
     (if visualMode st = Legacy_mode then
        (let trimmed = trim (legacyValue st) in
         if trimmed = [] then Inr []
         else case json_parse trimmed of
           None \<Rightarrow> Inl Invalid_json
         | Some parsed \<Rightarrow> if is_object parsed then Inr (pretty num parsed) else Inl Legacy_not_object)
      else buildOperationsJson num (operations st) True)"

definition switchToJsonMode :: "(rat \<Rightarrow> jstring) \<Rightarrow> (override_error \<Rightarrow> jstring) \<Rightarrow> po_editor \<Rightarrow> po_editor \<times> po_output list" where
  "switchToJsonMode num msg st =
     (if editMode st = Json_mode then (st, [])
      else case buildVisualJson num st of
        Inr s \<Rightarrow> (st\<lparr>jsonText := s, jsonError := [], editMode := Json_mode\<rparr>, [])
      | Inl e \<Rightarrow>
          (st\<lparr>jsonText := (if visualMode st = Legacy_mode then legacyValue st
                          else (case buildOperationsJson num (operations st) False of Inr s \<Rightarrow> s | Inl _ \<Rightarrow> [])),
              jsonError := msg e, editMode := Json_mode\<rparr>, [Toast e]))"

text \<open>A single default operation, which is selected.\<close>

definition fallback_operation :: "(nat \<Rightarrow> nat) \<Rightarrow> po_editor \<Rightarrow> po_editor" where
  "fallback_operation clock st =
     (let (fallback, seed) = createDefaultOperation clock (localIdSeed st) in
      st\<lparr>operations := [fallback], selectedOperationId := o_id fallback, localIdSeed := seed\<rparr>)"

definition switchToVisualMode ::
  "(rat \<Rightarrow> jstring) \<Rightarrow> (jstring \<Rightarrow> jstring) \<Rightarrow> (nat \<Rightarrow> nat) \<Rightarrow> po_editor \<Rightarrow> po_editor \<times> po_output list" where
  "switchToVisualMode num upper clock st =
     (let trimmed = trim (jsonText st) in
      if editMode st = Visual_mode then (st, [])
      else if trimmed = [] then
        ((fallback_operation clock st)\<lparr>visualMode := Operations_mode, legacyValue := [], jsonError := [], editMode := Visual_mode\<rparr>, [])
      else case json_parse trimmed of
        None \<Rightarrow> (st, [Toast Invalid_json])
      | Some parsed \<Rightarrow>
          (case (parsed, fld parsed ''operations'') of
             (JObj _, JArr items) \<Rightarrow>
               (case load_operations num upper clock (localIdSeed st) items of
                  (None, seed) \<Rightarrow> (st\<lparr>localIdSeed := seed\<rparr>, [])
                | (Some nextOps, seed) \<Rightarrow>
                    (st\<lparr>visualMode := Operations_mode, operations := nextOps, selectedOperationId := first_id nextOps,
                        legacyValue := [], jsonError := [], editMode := Visual_mode,
                        templatePresetKey := lit ''operations_default'', localIdSeed := seed\<rparr>, []))
           | (JObj _, _) \<Rightarrow>
               ((fallback_operation clock st)\<lparr>visualMode := Legacy_mode, legacyValue := pretty num parsed, jsonError := [],
                  editMode := Visual_mode, templatePresetKey := lit ''legacy_default''\<rparr>, [])
           | _ \<Rightarrow> (st, [Toast Not_object])))"

text \<open>The properties that spreading a parsed value contributes.\<close>

definition spread :: "jsval \<Rightarrow> (jstring \<times> jsval) list" where
  "spread v =
     (case v of
        JObj ps \<Rightarrow> ps
      | JArr vs \<Rightarrow> map (\<lambda>(i, x). (show_nat i, x)) (enumerate 0 vs)
      | JStr s \<Rightarrow> map (\<lambda>(i, c). (show_nat i, JStr [c])) (enumerate 0 s)
      | _ \<Rightarrow> [])"

definition merge_props :: "(jstring \<times> jsval) list \<Rightarrow> (jstring \<times> jsval) list \<Rightarrow> (jstring \<times> jsval) list" where
  "merge_props a b = fold (\<lambda>(k, v) acc. AList.update k v acc) b a"

definition show_legacy :: "(nat \<Rightarrow> nat) \<Rightarrow> jstring \<Rightarrow> po_editor \<Rightarrow> po_editor" where
  "show_legacy clock s st =
     (let (d, seed) = createDefaultOperation clock (localIdSeed st) in
      st\<lparr>visualMode := Legacy_mode, legacyValue := s, operations := [d], jsonText := s, jsonError := [],
         editMode := Visual_mode, localIdSeed := seed\<rparr>)"

definition preset_of :: "jstring \<Rightarrow> template_preset" where
  "preset_of key =
     (case map_of TEMPLATE_PRESET_CONFIG key of Some p \<Rightarrow> p | None \<Rightarrow> the (map_of TEMPLATE_PRESET_CONFIG (lit ''operations_default'')))"

definition preset_operations :: "jsval \<Rightarrow> jsval list" where
  "preset_operations payload = (case fld payload ''operations'' of JArr items \<Rightarrow> items | _ \<Rightarrow> [])"

definition fillTemplate ::
  "(rat \<Rightarrow> jstring) \<Rightarrow> (jstring \<Rightarrow> jstring) \<Rightarrow> (nat \<Rightarrow> nat) \<Rightarrow> bool \<Rightarrow> po_editor \<Rightarrow> po_editor \<times> po_output list" where
  "fillTemplate num upper clock appending st =
     (let preset = preset_of (templatePresetKey st); payload = t_payload preset in
      if t_legacy preset then
        (if appending \<and> visualMode st = Legacy_mode then
           (let trimmed = trim (legacyValue st);
                current = (if trimmed = [] then Some (JObj []) else json_parse trimmed)
            in case current of
                 None \<Rightarrow> (st, [Toast Legacy_invalid])
               | Some parsedCurrent \<Rightarrow>
                   (show_legacy clock (pretty num (JObj (merge_props (spread payload) (spread parsedCurrent)))) st, []))
         else (show_legacy clock (pretty num payload) st, []))
      else
        (case map_seed (normalizeOperation num upper clock) (localIdSeed st) (preset_operations payload) of
           (None, seed) \<Rightarrow> (st\<lparr>localIdSeed := seed\<rparr>, [])
         | (Some loaded, seed) \<Rightarrow>
             if appending then
               (let existing = (if visualMode st = Operations_mode then filter (\<lambda>op. \<not> isOperationBlank op) (operations st) else []);
                    nextOps = existing @ loaded
                in (st\<lparr>visualMode := Operations_mode, operations := (if nextOps \<noteq> [] then nextOps else loaded),
                       selectedOperationId := or_str (first_id nextOps) (first_id loaded),
                       legacyValue := [], jsonError := [], editMode := Visual_mode, jsonText := [], localIdSeed := seed\<rparr>, []))
             else
               (let (d, seed1) = (if loaded \<noteq> [] then (loaded, seed)
                      else (let (x, s) = createDefaultOperation clock seed in ([x], s)))
                in (st\<lparr>visualMode := Operations_mode, operations := d, selectedOperationId := first_id d,
                       jsonText := pretty num (JObj [(lit ''operations'', JArr (preset_operations payload))]),
                       jsonError := [], editMode := Visual_mode, localIdSeed := seed1\<rparr>, []))))"

definition resetEditorState :: "(nat \<Rightarrow> nat) \<Rightarrow> po_editor \<Rightarrow> po_editor" where
  "resetEditorState clock st =
     (fallback_operation clock st)\<lparr>visualMode := Operations_mode, legacyValue := [], jsonText := [], jsonError := [],
       templatePresetKey := lit ''operations_default'', editMode := Visual_mode\<rparr>"

definition handleJsonChange :: "(override_error \<Rightarrow> jstring) \<Rightarrow> jstring \<Rightarrow> po_editor \<Rightarrow> po_editor" where
  "handleJsonChange msg nextValue st =
     (let trimmed = trim nextValue in
      st\<lparr>jsonText := nextValue,
         jsonError := (if trimmed = [] then [] else if verifyJSON trimmed then [] else msg Json_format_error)\<rparr>)"

definition visualValidationError :: "(rat \<Rightarrow> jstring) \<Rightarrow> po_editor \<Rightarrow> override_error option" where
  "visualValidationError num st =
     (if editMode st \<noteq> Visual_mode then None else case buildVisualJson num st of Inl e \<Rightarrow> Some e | Inr _ \<Rightarrow> None)"

text \<open>Saving: the outputs only.\<close>

definition handleSave :: "(rat \<Rightarrow> jstring) \<Rightarrow> po_editor \<Rightarrow> po_output list" where
  "handleSave num st =
     (case (if editMode st = Json_mode then
              (let trimmed = trim (jsonText st) in
               if trimmed = [] then Inr []
               else case json_parse trimmed of None \<Rightarrow> Inl Invalid_json | Some v \<Rightarrow> Inr (pretty num v))
            else buildVisualJson num st) of
        Inr result \<Rightarrow> [Saved result, Closed]
      | Inl e \<Rightarrow> [Toast e])"

definition expand_conditions :: "bool \<Rightarrow> po_editor \<Rightarrow> po_editor" where
  "expand_conditions b st =
     (case selectedOperation st of
        None \<Rightarrow> st
      | Some op \<Rightarrow> st\<lparr>expandedConditions := fold (\<lambda>c acc. AList.update (c_id c) b acc) (o_conditions op) (expandedConditions st)\<rparr>)"

definition expandAllConditions :: "po_editor \<Rightarrow> po_editor" where
  "expandAllConditions = expand_conditions True"

definition collapseAllConditions :: "po_editor \<Rightarrow> po_editor" where
  "collapseAllConditions = expand_conditions False"

end
