(* ===== verification/Param_Editor_Invariant.thy ===== *)
theory Param_Editor_Invariant
  imports Param_Editor
begin

section \<open>The operations and rules of the override editor\<close>

text \<open>
  What every sequence of edits keeps of the state of \<^verbatim>\<open>ParamOverrideEditorDialog\<close>: the list of operations
  is not empty, its identifiers are distinct and were all issued before, and the selection names one of
  them. The second part shows what editing the rules of a prune operation does, and the third that
  dropping a row moves it and nothing else.
\<close>

subsection \<open>Identifiers\<close>

lemma show_nat_no: "95 \<notin> set (show_nat n)"
  using show_nat_digits [of n] by (auto simp: is_digit_def)

lemma split_unique: "x \<notin> set a \<Longrightarrow> x \<notin> set b \<Longrightarrow> a @ x # r = b @ x # s \<Longrightarrow> a = b \<and> r = s"
  by (induction a arbitrary: b) (auto simp: Cons_eq_append_conv)

lemma nextLocalId_inject [simp]: "nextLocalId clock m = nextLocalId clock n \<longleftrightarrow> m = n"
proof
  assume "nextLocalId clock m = nextLocalId clock n"
  then have "show_nat (clock m) @ 95 # show_nat m = show_nat (clock n) @ 95 # show_nat n"
    by (simp add: nextLocalId_def lit_def del: show_nat.simps)
  then show "m = n" using split_unique [OF show_nat_no show_nat_no] show_nat_inject by blast
qed simp

text \<open>Identifiers that have been given out before a seed.\<close>

definition issued :: "(nat \<Rightarrow> nat) \<Rightarrow> nat \<Rightarrow> jstring \<Rightarrow> bool" where
  "issued clock seed i \<longleftrightarrow> (\<exists>k < seed. i = nextLocalId clock k)"

definition fresh_between :: "(nat \<Rightarrow> nat) \<Rightarrow> nat \<Rightarrow> nat \<Rightarrow> jstring \<Rightarrow> bool" where
  "fresh_between clock lo hi i \<longleftrightarrow> (\<exists>k. lo \<le> k \<and> k < hi \<and> i = nextLocalId clock k)"

lemma issued_mono: "issued clock m i \<Longrightarrow> m \<le> n \<Longrightarrow> issued clock n i"
  by (auto simp: issued_def)

lemma fresh_issued: "fresh_between clock lo hi i \<Longrightarrow> issued clock hi i"
  by (auto simp: issued_def fresh_between_def)

lemma fresh_not_issued: "fresh_between clock lo hi i \<Longrightarrow> \<not> issued clock lo i"
  by (auto simp: issued_def fresh_between_def)

lemma issued_next [simp]: "issued clock (Suc n) (nextLocalId clock n)" "\<not> issued clock n (nextLocalId clock n)"
  by (auto simp: issued_def)

text \<open>A list of things that were made one after the other.\<close>

definition made :: "(nat \<Rightarrow> nat) \<Rightarrow> ('a \<Rightarrow> jstring) \<Rightarrow> nat \<Rightarrow> nat \<Rightarrow> 'a list \<Rightarrow> bool" where
  "made clock ident lo hi xs \<longleftrightarrow> lo \<le> hi \<and> distinct (map ident xs) \<and> (\<forall>x \<in> set xs. fresh_between clock lo hi (ident x))"

lemma made_map_seed:
  assumes "\<And>seed x. case f seed x of (r, seed1) \<Rightarrow> seed < seed1 \<and> (\<forall>y. r = Some y \<longrightarrow> ident y = nextLocalId clock seed)"
  shows "map_seed f seed xs = (r, seed1) \<Longrightarrow> seed \<le> seed1 \<and> (\<forall>ys. r = Some ys \<longrightarrow> made clock ident seed seed1 ys \<and> length ys = length xs)"
proof (induction xs arbitrary: seed r seed1)
  case (Cons x xs)
  obtain y s1 where f: "f seed x = (y, s1)" by force
  note fx = assms [of seed x, unfolded f prod.case]
  show ?case
  proof (cases y)
    case None
    then show ?thesis using Cons.prems f fx by auto
  next
    case (Some y')
    obtain zs s2 where m: "map_seed f s1 xs = (zs, s2)" by force
    note ih = Cons.IH [OF m]
    show ?thesis
    proof (cases zs)
      case None
      then show ?thesis using Cons.prems f fx ih m Some by auto
    next
      case (Some zs')
      have mz: "made clock ident s1 s2 zs'" "length zs' = length xs" using ih Some by auto
      have "ident y' = nextLocalId clock seed" "seed < s1" using fx \<open>y = Some y'\<close> by auto
      then have "made clock ident seed s2 (y' # zs')"
        using mz(1) ih unfolding made_def fresh_between_def by (fastforce intro: less_le_trans)
      then show ?thesis using Cons.prems f m \<open>y = Some y'\<close> Some mz(2) ih fx by auto
    qed
  qed
qed (simp add: made_def)

lemma normalizeCondition_id:
  "case normalizeCondition num clock seed v of (r, seed1) \<Rightarrow> seed < seed1 \<and> (\<forall>y. r = Some y \<longrightarrow> c_id y = nextLocalId clock seed)"
  by (auto simp: normalizeCondition_def)

lemma normalizePruneRule_id:
  "case normalizePruneRule num clock seed v of (r, seed1) \<Rightarrow> seed < seed1 \<and> (\<forall>y. r = Some y \<longrightarrow> c_id y = nextLocalId clock seed)"
  by (auto simp: normalizePruneRule_def)

lemma normalizeOperation_id:
  "case normalizeOperation num upper clock seed v of (r, seed1) \<Rightarrow> seed < seed1 \<and> (\<forall>y. r = Some y \<longrightarrow> o_id y = nextLocalId clock seed)"
proof -
  have c: "seed < snd (map_seed (normalizeCondition num clock) (Suc seed) cs)" for cs
    using made_map_seed [where f = "normalizeCondition num clock" and ident = c_id, OF normalizeCondition_id]
    by (metis Suc_le_eq prod.collapse)
  show ?thesis
  proof (cases "fld v ''conditions''")
    case (JArr cs)
    then show ?thesis using c [of cs]
      by (auto simp: normalizeOperation_def split: option.splits prod.splits)
  qed (auto simp: normalizeOperation_def split: option.splits prod.splits)
qed

lemma load_operations_made:
  assumes "load_operations num upper clock seed items = (Some ops, seed1)"
  shows "made clock o_id seed seed1 ops" and "ops \<noteq> []"
proof -
  have "made clock o_id seed seed1 ops \<and> ops \<noteq> []"
  proof (cases "items = []")
    case True
    then show ?thesis using assms
      by (auto simp: load_operations_def createDefaultOperation_def made_def fresh_between_def)
  next
    case False
    then have "map_seed (normalizeOperation num upper clock) seed items = (Some ops, seed1)"
      using assms by (simp add: load_operations_def)
    from made_map_seed [where f = "normalizeOperation num upper clock" and ident = o_id, OF normalizeOperation_id this]
    show ?thesis using False by auto
  qed
  then show "made clock o_id seed seed1 ops" "ops \<noteq> []" by auto
qed

subsection \<open>Reachable states\<close>

text \<open>
  One action of the user and the effects that follow it. Fields that no operation reads (the search
  text, the expanded conditions, the chosen template, the legacy text) change freely in \<open>Typing\<close>.
\<close>

inductive ed_step ::
  "(rat \<Rightarrow> jstring) \<Rightarrow> (jstring \<Rightarrow> jstring) \<Rightarrow> (nat \<Rightarrow> nat) \<Rightarrow> (override_error \<Rightarrow> jstring) \<Rightarrow> po_editor \<Rightarrow> po_editor \<Rightarrow> bool"
  for num upper clock msg where
  Update: "ed_step num upper clock msg st (keep_selection (updateOperation i p st))"
| Add: "ed_step num upper clock msg st (keep_selection (addOperation clock st))"
| Duplicate: "ed_step num upper clock msg st (keep_selection (duplicateOperation num upper clock eager i st))"
| Remove: "ed_step num upper clock msg st (keep_selection (removeOperation clock i st))"
| Add_condition: "ed_step num upper clock msg st (keep_selection (addCondition num clock i st))"
| Update_condition: "ed_step num upper clock msg st (keep_selection (updateCondition i j c st))"
| Remove_condition: "ed_step num upper clock msg st (keep_selection (removeCondition i j st))"
| Return_error: "ed_step num upper clock msg st (keep_selection (updateReturnErrorDraft num i f st))"
| Add_prune: "ed_step num upper clock msg st (keep_selection (addPruneRule num upper clock i st))"
| Update_prune: "ed_step num upper clock msg st (keep_selection (updatePruneRule num upper clock i j c st))"
| Remove_prune: "ed_step num upper clock msg st (keep_selection (removePruneRule num upper clock i j st))"
| Set_prune: "ed_step num upper clock msg st (keep_selection (updatePruneObjectsDraft num upper clock i (\<lambda>s d. (g d, s)) st))"
| Show_prune: "ed_step num upper clock msg st (snd (pruneObjectsDraft num upper clock st))"
| Drag_start: "ed_step num upper clock msg st (keep_selection (handleDragStart i st))"
| Drag_over: "ed_step num upper clock msg st (keep_selection (handleDragOver h i st))"
| Drop: "ed_step num upper clock msg st (keep_selection (handleDrop x i st))"
| To_json: "ed_step num upper clock msg st (keep_selection (fst (switchToJsonMode num msg st)))"
| To_visual: "ed_step num upper clock msg st (keep_selection (fst (switchToVisualMode num upper clock st)))"
| Fill: "ed_step num upper clock msg st (keep_selection (fst (fillTemplate num upper clock app st)))"
| Reset: "ed_step num upper clock msg st (keep_selection (resetEditorState clock st))"
| Json_change: "ed_step num upper clock msg st (keep_selection (handleJsonChange msg x st))"
| Typing: "ed_step num upper clock msg st
    (st\<lparr>operationSearch := a, expandedConditions := b, templatePresetKey := k, legacyValue := l\<rparr>)"

inductive ed_reachable ::
  "(rat \<Rightarrow> jstring) \<Rightarrow> (jstring \<Rightarrow> jstring) \<Rightarrow> (nat \<Rightarrow> nat) \<Rightarrow> (override_error \<Rightarrow> jstring) \<Rightarrow> po_editor \<Rightarrow> bool"
  for num upper clock msg where
  Open: "open_dialog num upper clock value seed = Some st \<Longrightarrow> ed_reachable num upper clock msg (keep_selection st)"
| Step: "ed_reachable num upper clock msg st \<Longrightarrow> ed_step num upper clock msg st st' \<Longrightarrow> ed_reachable num upper clock msg st'"

definition ops_inv :: "(nat \<Rightarrow> nat) \<Rightarrow> nat \<Rightarrow> po_operation list \<Rightarrow> bool" where
  "ops_inv clock seed ops \<longleftrightarrow> ops \<noteq> [] \<and> distinct (map o_id ops) \<and> (\<forall>op \<in> set ops. issued clock seed (o_id op))"

definition ed_inv :: "(nat \<Rightarrow> nat) \<Rightarrow> po_editor \<Rightarrow> bool" where
  "ed_inv clock st \<longleftrightarrow> ops_inv clock (localIdSeed st) (operations st) \<and> selectedOperationId st \<in> o_id ` set (operations st)"

lemma keep_selection_inv: "ops_inv clock (localIdSeed st) (operations st) \<Longrightarrow> ed_inv clock (keep_selection st)"
  by (auto simp: ed_inv_def keep_selection_def ops_inv_def list_ex_iff intro: rev_image_eqI)

lemma ops_inv_ids:
  assumes "ops_inv clock seed ops" and "map o_id ops' = map o_id ops" and "seed \<le> seed'"
  shows "ops_inv clock seed' ops'"
proof -
  have "o_id ` set ops' = o_id ` set ops" using assms(2) by (metis list.set_map)
  moreover have "ops' \<noteq> []" using assms by (auto simp: ops_inv_def)
  ultimately show ?thesis
    using assms by (auto simp: ops_inv_def) (metis image_iff issued_mono)
qed

lemma ops_inv_made: "made clock o_id lo hi ops \<Longrightarrow> ops \<noteq> [] \<Longrightarrow> ops_inv clock hi ops"
  by (auto simp: made_def ops_inv_def intro: fresh_issued)

lemma ops_inv_append:
  assumes "distinct (map o_id xs)" and "\<forall>op \<in> set xs. issued clock lo (o_id op)" and "made clock o_id lo hi ys" and "xs @ ys \<noteq> []"
  shows "ops_inv clock hi (xs @ ys)"
proof -
  have "o_id ` set xs \<inter> o_id ` set ys = {}"
    using assms(2,3) fresh_not_issued unfolding made_def by fastforce
  then show ?thesis
    using assms unfolding ops_inv_def made_def by (auto intro: fresh_issued issued_mono)
qed

lemma made_default: "createDefaultOperation clock seed = (d, seed1) \<Longrightarrow> made clock o_id seed seed1 [d]"
  by (auto simp: createDefaultOperation_def made_def fresh_between_def)

lemma patch_operation_id [simp]: "o_id (patch_operation p op) = o_id op"
  by (cases p) auto

lemma map_prune_rules:
  obtains rs where "map_seed (normalizePruneRule num clock) seed xs = (Some rs, seed + length xs)"
    and "made clock c_id seed (seed + length xs) rs"
proof -
  have "\<exists>rs. map_seed (normalizePruneRule num clock) seed xs = (Some rs, seed + length xs)" for seed
  proof (induction xs arbitrary: seed)
    case (Cons x xs)
    obtain rs where "map_seed (normalizePruneRule num clock) (seed + 1) xs = (Some rs, seed + 1 + length xs)"
      using Cons.IH by blast
    moreover obtain y where "normalizePruneRule num clock seed x = (Some y, seed + 1)" by (simp add: normalizePruneRule_def)
    ultimately show ?case by simp
  qed simp
  then obtain rs where rs: "map_seed (normalizePruneRule num clock) seed xs = (Some rs, seed + length xs)" by blast
  from made_map_seed [where f = "normalizePruneRule num clock" and ident = c_id, OF normalizePruneRule_id rs]
  show ?thesis using that rs by blast
qed

lemma prune_object_rules: "prune_object num upper v rules = Some d \<Longrightarrow> pd_rules d = rules"
  by (auto simp: prune_object_def Let_def split: option.splits prod.splits)

lemma prune_draft_made:
  assumes "parsePruneObjectsDraft num upper clock seed t = (d, seed1)"
  shows "seed \<le> seed1" and "made clock c_id seed seed1 (pd_rules d)"
proof -
  have nil: "made clock c_id s s' (pd_rules (prune_text x))" if "s \<le> s'" for s s' x
    using that by (simp add: made_def prune_text_def)
  have "seed \<le> seed1 \<and> made clock c_id seed seed1 (pd_rules d)"
  proof (cases "\<exists>v. json_parse (trim t) = Some v \<and> as_str v = None \<and> is_object v \<and> trim t \<noteq> []")
    case True
    then obtain v where v: "json_parse (trim t) = Some v" "as_str v = None" "is_object v" "trim t \<noteq> []" by blast
    obtain rs where rs: "map_seed (normalizePruneRule num clock) seed (prune_inputs v) = (Some rs, seed + length (prune_inputs v))"
      "made clock c_id seed (seed + length (prune_inputs v)) rs"
      by (rule map_prune_rules)
    have d: "d = coalesce (prune_object num upper v rs) (prune_text (trim t))" "seed1 = seed + length (prune_inputs v)"
      using assms v rs(1) by (simp_all add: parsePruneObjectsDraft_def)
    show ?thesis
      using prune_object_rules [of num upper v rs] rs(2) nil d
      by (cases "prune_object num upper v rs") (simp_all add: coalesce_def)
  next
    case False
    then show ?thesis using assms nil
      by (auto simp: parsePruneObjectsDraft_def Let_def split: if_splits option.splits)
  qed
  then show "seed \<le> seed1" "made clock c_id seed seed1 (pd_rules d)" by auto
qed

lemma prune_step_ids:
  assumes "\<And>s d. s \<le> snd (u s d)"
  shows "prune_step num upper clock i u seed ops = (ops', seed') \<Longrightarrow> map o_id ops' = map o_id ops \<and> seed \<le> seed'"
proof (induction ops arbitrary: seed ops' seed')
  case (Cons op ops)
  show ?case
  proof (cases "o_id op = i")
    case False
    then show ?thesis using Cons by (auto split: prod.splits)
  next
    case True
    obtain d s1 where p: "parsePruneObjectsDraft num upper clock seed (o_value_text op) = (d, s1)" by force
    obtain nd s2 where n: "u s1 d = (nd, s2)" by force
    obtain r s3 where q: "prune_step num upper clock i u s2 ops = (r, s3)" by force
    have "seed \<le> s1" "s1 \<le> s2" using prune_draft_made(1) [OF p] assms [of s1 d] n by simp_all
    then show ?thesis using Cons.prems Cons.IH [OF q] True p n q by auto
  qed
qed simp

lemma prune_inv:
  assumes "ops_inv clock (localIdSeed st) (operations st)" and "\<And>s d. s \<le> snd (u s d)"
  shows "ops_inv clock (localIdSeed (updatePruneObjectsDraft num upper clock i u st)) (operations (updatePruneObjectsDraft num upper clock i u st))"
proof -
  obtain ops seed where p: "prune_step num upper clock i u (localIdSeed st) (operations st) = (ops, seed)" by force
  show ?thesis using ops_inv_ids [OF assms(1)] prune_step_ids [OF assms(2) p] by (simp add: updatePruneObjectsDraft_def p)
qed

lemma insert_inv:
  assumes "ops_inv clock lo ops" and "o_id x = nextLocalId clock lo" and "lo < hi"
  shows "ops_inv clock hi (take n ops @ x # drop n ops)"
proof -
  have s: "set (take n ops @ x # drop n ops) = insert x (set ops)"
    by (metis append_take_drop_id list.set(2) set_append Un_insert_right)
  have new: "o_id x \<notin> o_id ` set ops" using assms(1,2) by (auto simp: ops_inv_def) (metis issued_next(2))
  have "distinct (map o_id (take n ops @ x # drop n ops))"
  proof -
    have "distinct (map o_id (take n ops @ drop n ops))" using assms(1) by (simp add: ops_inv_def)
    moreover have "o_id x \<notin> set (map o_id (take n ops)) \<union> set (map o_id (drop n ops))"
      using new by (auto dest: in_set_takeD in_set_dropD)
    ultimately show ?thesis by (auto simp only: map_append distinct_append list.map distinct.simps set_append list.set)
  qed
  moreover have "issued clock hi (o_id x)" using assms(2,3) by (auto simp: issued_def)
  ultimately show ?thesis using assms(1,3) s unfolding ops_inv_def by (auto intro: issued_mono)
qed


lemma reorder_split:
  assumes "sourceId \<noteq> []" and "targetId \<noteq> []" and "sourceId \<noteq> targetId"
    and "find_index (\<lambda>op. o_id op = sourceId) ops = Some i"
    and "find_index (\<lambda>op. o_id op = targetId) (take i ops @ drop (Suc i) ops) = Some j"
  shows "reorderOperations ops sourceId targetId after
    = (let rest = take i ops @ drop (Suc i) ops; k = (if after then j + 1 else j) in take k rest @ ops ! i # drop k rest)"
  using assms by (simp add: reorderOperations_def Let_def)

lemma reorder_mset: "mset (reorderOperations ops s t after) = mset ops"
proof (cases "s = [] \<or> t = [] \<or> s = t \<or> find_index (\<lambda>op. o_id op = s) ops = None")
  case False
  then obtain i where i: "find_index (\<lambda>op. o_id op = s) ops = Some i" by auto
  have len: "i < length ops" using i by (simp add: find_index_Some)
  have all: "mset (take i ops @ ops ! i # drop (Suc i) ops) = mset ops" using len by (simp add: id_take_nth_drop [symmetric])
  have cut: "mset (take k xs @ x # drop k xs) = add_mset x (mset xs)" for k x and xs :: "po_operation list"
    by (metis append_take_drop_id mset.simps(2) mset_append union_mset_add_mset_right)
  show ?thesis
  proof (cases "find_index (\<lambda>op. o_id op = t) (take i ops @ drop (Suc i) ops)")
    case None
    then show ?thesis using False i by (simp add: reorderOperations_def)
  next
    case (Some j)
    have "reorderOperations ops s t after
      = (let rest = take i ops @ drop (Suc i) ops; k = (if after then j + 1 else j) in take k rest @ ops ! i # drop k rest)"
      using False i Some by (intro reorder_split) auto
    then have "mset (reorderOperations ops s t after) = add_mset (ops ! i) (mset (take i ops @ drop (Suc i) ops))"
      by (simp only: Let_def cut)
    then show ?thesis using all by simp
  qed
qed (auto simp: reorderOperations_def)

lemma ops_inv_mset: "ops_inv clock seed ops \<Longrightarrow> mset ops' = mset ops \<Longrightarrow> ops_inv clock seed ops'"
  unfolding ops_inv_def by (metis mset_eq_setD mset_map mset_zero_iff_right distinct_count_atmost_1 mset_eq_imp_distinct_iff)

lemma load_inv: "load_operations num upper clock seed items = (Some ops, seed1) \<Longrightarrow> ops_inv clock seed1 ops"
  using load_operations_made ops_inv_made by blast

lemma open_dialog_inv:
  assumes "open_dialog num upper clock value seed = Some st"
  shows "ops_inv clock (localIdSeed st) (operations st)"
proof -
  obtain e seed1 where p: "parseInitialState num upper clock seed value = (Some e, seed1)"
    and st: "operations st = operations e" "localIdSeed st = seed1"
    using assms by (auto simp: open_dialog_def editor_state.extend_def split: option.splits prod.splits)
  have d: "ops_inv clock (Suc seed) [fst (createDefaultOperation clock seed)]"
    by (simp add: ops_inv_def createDefaultOperation_def)
  have "ops_inv clock seed1 (operations e)"
    using p d by (auto intro: load_inv simp: parseInitialState_def Let_def split: if_splits option.splits jsval.splits prod.splits)
  then show ?thesis by (simp add: st)
qed


lemma fallback_inv: "ops_inv clock (localIdSeed (fallback_operation clock st)) (operations (fallback_operation clock st))"
  by (simp add: fallback_operation_def createDefaultOperation_def ops_inv_def)

lemma on_operation_inv:
  assumes "ops_inv clock (localIdSeed st) (operations st)" and "\<And>op. o_id (f op) = o_id op"
  shows "ops_inv clock (localIdSeed st) (map (\<lambda>op. if o_id op = i then f op else op) (operations st))"
  by (rule ops_inv_ids [OF assms(1)]) (simp_all add: assms(2))

lemma remove_inv:
  assumes "ops_inv clock (localIdSeed st) (operations st)"
  shows "ops_inv clock (localIdSeed (removeOperation clock i st)) (operations (removeOperation clock i st))"
proof (cases "length (operations st) \<le> 1")
  case True
  then show ?thesis by (simp add: removeOperation_def createDefaultOperation_def ops_inv_def)
next
  case False
  let ?ops = "operations st"
  have d: "distinct (map o_id ?ops)" using assms by (simp add: ops_inv_def)
  obtain a b r where ops: "?ops = a # b # r" using False by (cases ?ops; cases "tl ?ops") auto
  have "filter (\<lambda>op. o_id op \<noteq> i) ?ops \<noteq> []" using d by (auto simp: ops)
  then show ?thesis
    using assms False distinct_map_filter [OF d] by (auto simp: removeOperation_def ops_inv_def)
qed

lemma duplicate_inv:
  assumes "ops_inv clock (localIdSeed st) (operations st)"
  shows "ops_inv clock (localIdSeed (duplicateOperation num upper clock eager i st)) (operations (duplicateOperation num upper clock eager i st))"
proof (cases "find_index (\<lambda>op. o_id op = i) (operations st)")
  case None
  then show ?thesis using assms by (simp add: duplicateOperation_def)
next
  case (Some idx)
  obtain r seed where n: "normalizeOperation num upper clock (localIdSeed st) (clone_input (operations st ! idx)) = (r, seed)" by force
  note nid = normalizeOperation_id [where num = num and upper = upper and clock = clock and seed = "localIdSeed st"
      and v = "clone_input (operations st ! idx)", unfolded n prod.case]
  show ?thesis
  proof (cases r)
    case None
    then show ?thesis using assms nid by (auto simp: duplicateOperation_def Some n intro: ops_inv_ids)
  next
    case (Some c)
    then show ?thesis
      using insert_inv [OF assms, of c seed "idx + 1"] nid by (simp add: duplicateOperation_def \<open>find_index _ _ = Some idx\<close> n)
  qed
qed

lemma presets_have_operations:
  "list_all (\<lambda>(k, p). t_legacy p \<or> preset_operations (t_payload p) \<noteq> []) TEMPLATE_PRESET_CONFIG"
  by code_simp

lemma preset_of_config: "\<exists>k. (k, preset_of key) \<in> set TEMPLATE_PRESET_CONFIG"
proof (cases "map_of TEMPLATE_PRESET_CONFIG key")
  case None
  have "map_of TEMPLATE_PRESET_CONFIG (lit ''operations_default'') \<noteq> None" by code_simp
  then obtain p where p: "map_of TEMPLATE_PRESET_CONFIG (lit ''operations_default'') = Some p" by blast
  show ?thesis using map_of_SomeD [OF p] None p by (auto simp: preset_of_def)
next
  case (Some p)
  show ?thesis using map_of_SomeD [OF Some] Some by (auto simp: preset_of_def)
qed

lemma preset_operations_ne: "\<not> t_legacy (preset_of key) \<Longrightarrow> preset_operations (t_payload (preset_of key)) \<noteq> []"
  using presets_have_operations preset_of_config [of key] by (auto simp: list_all_iff)

lemma fill_inv:
  assumes "ops_inv clock (localIdSeed st) (operations st)"
  shows "ops_inv clock (localIdSeed (fst (fillTemplate num upper clock app st))) (operations (fst (fillTemplate num upper clock app st)))"
proof -
  let ?p = "preset_of (templatePresetKey st)"
  have legacy: "ops_inv clock (localIdSeed (show_legacy clock s st)) (operations (show_legacy clock s st))" for s
    by (simp add: show_legacy_def createDefaultOperation_def ops_inv_def)
  show ?thesis
  proof (cases "t_legacy ?p")
    case True
    then show ?thesis using assms legacy by (auto simp: fillTemplate_def Let_def split: option.splits)
  next
    case False
    obtain r seed where m: "map_seed (normalizeOperation num upper clock) (localIdSeed st) (preset_operations (t_payload ?p)) = (r, seed)" by force
    note md = made_map_seed [where f = "normalizeOperation num upper clock" and ident = o_id, OF normalizeOperation_id m]
    show ?thesis
    proof (cases r)
      case None
      then show ?thesis using assms md False by (auto simp: fillTemplate_def Let_def m intro: ops_inv_ids)
    next
      case (Some loaded)
      have l: "made clock o_id (localIdSeed st) seed loaded" using md Some by simp
      let ?e = "if visualMode st = Operations_mode then filter (\<lambda>op. \<not> isOperationBlank op) (operations st) else []"
      have e: "distinct (map o_id ?e)" "\<forall>op \<in> set ?e. issued clock (localIdSeed st) (o_id op)"
        using assms by (auto simp: ops_inv_def distinct_map_filter)
      have ne: "loaded \<noteq> []" using md Some preset_operations_ne [OF False] by auto
      show ?thesis
        using False ops_inv_append [OF e l] ops_inv_made [OF l ne] ne
        by (simp add: fillTemplate_def Let_def m Some)
    qed
  qed
qed


lemma visual_inv:
  assumes "ops_inv clock (localIdSeed st) (operations st)"
  shows "ops_inv clock (localIdSeed (fst (switchToVisualMode num upper clock st))) (operations (fst (switchToVisualMode num upper clock st)))"
proof -
  have l: "localIdSeed st \<le> seed" if "load_operations num upper clock (localIdSeed st) items = (r, seed)" for items r seed
    using that made_map_seed [where f = "normalizeOperation num upper clock" and ident = o_id, OF normalizeOperation_id]
    by (auto simp: load_operations_def split: if_splits)
  show ?thesis
    using assms fallback_inv [of clock st] l
    by (auto simp: switchToVisualMode_def Let_def split: option.splits jsval.splits prod.splits intro: load_inv ops_inv_ids)
qed

text \<open>
  C30. In every state of the editor that can be reached there is at least one operation, no two
  operations share an identifier, every identifier comes from the counter, and the selected operation
  is one of them.
\<close>

theorem editor_invariant:
  assumes "ed_reachable num upper clock msg st"
  shows "ed_inv clock st"
  using assms
proof (induction rule: ed_reachable.induct)
  case (Open raw seed st)
  then show ?case by (intro keep_selection_inv open_dialog_inv)
next
  case (Step st st')
  then have inv: "ops_inv clock (localIdSeed st) (operations st)" by (simp add: ed_inv_def)
  have default: "ops_inv clock (Suc (localIdSeed st)) (operations st @ [d])"
    if "createDefaultOperation clock (localIdSeed st) = (d, s)" for d s
    using that inv ops_inv_append [of "operations st" clock "localIdSeed st" "Suc (localIdSeed st)" "[d]"] made_default [OF that]
    by (auto simp: ops_inv_def createDefaultOperation_def)
  have mono: "ops_inv clock seed (operations st)" if "localIdSeed st \<le> seed" for seed
    using ops_inv_ids [OF inv refl that] .
  from Step.hyps(2) show ?case
  proof cases
    case (Update i p)
    then show ?thesis using on_operation_inv [OF inv] by (auto intro!: keep_selection_inv simp: updateOperation_def)
  next
    case Add
    then show ?thesis using default by (auto intro!: keep_selection_inv simp: addOperation_def createDefaultOperation_def)
  next
    case (Duplicate eager i)
    then show ?thesis using duplicate_inv [OF inv] by (auto intro!: keep_selection_inv)
  next
    case (Remove i)
    then show ?thesis using remove_inv [OF inv] by (auto intro!: keep_selection_inv)
  next
    case (Add_condition i)
    then show ?thesis using on_operation_inv [OF inv] ops_inv_ids
      by (fastforce intro!: keep_selection_inv simp: addCondition_def createDefaultCondition_def normalizeCondition_def)
  next
    case (Update_condition i j c)
    then show ?thesis using on_operation_inv [OF inv] by (auto intro!: keep_selection_inv simp: updateCondition_def)
  next
    case (Remove_condition i j)
    then show ?thesis using on_operation_inv [OF inv] by (auto intro!: keep_selection_inv simp: removeCondition_def)
  next
    case (Return_error i f)
    then show ?thesis using on_operation_inv [OF inv] by (auto intro!: keep_selection_inv simp: updateReturnErrorDraft_def)
  next
    case (Add_prune i)
    then show ?thesis
      by (simp only: addPruneRule_def) (intro keep_selection_inv prune_inv [OF inv], simp add: normalizePruneRule_def)
  next
    case (Update_prune i j c)
    then show ?thesis by (simp only: updatePruneRule_def) (intro keep_selection_inv prune_inv [OF inv], simp)
  next
    case (Remove_prune i j)
    then show ?thesis by (simp only: removePruneRule_def) (intro keep_selection_inv prune_inv [OF inv], simp)
  next
    case (Set_prune i g)
    then show ?thesis by (simp only: Set_prune) (intro keep_selection_inv prune_inv [OF inv], simp)
  next
    case Show_prune
    then show ?thesis using mono prune_draft_made(1) Step.IH
      by (fastforce simp: pruneObjectsDraft_def ed_inv_def split: option.splits prod.splits)
  next
    case (Drag_start i)
    then show ?thesis using inv by (auto intro!: keep_selection_inv simp: handleDragStart_def)
  next
    case (Drag_over h i)
    then show ?thesis using inv by (auto intro!: keep_selection_inv simp: handleDragOver_def)
  next
    case (Drop x i)
    then show ?thesis using inv ops_inv_mset [OF inv reorder_mset]
      by (auto intro!: keep_selection_inv simp: handleDrop_def resetDragState_def Let_def)
  next
    case To_json
    then show ?thesis using inv by (auto intro!: keep_selection_inv simp: switchToJsonMode_def split: sum.splits)
  next
    case To_visual
    then show ?thesis using visual_inv [OF inv] by (auto intro!: keep_selection_inv)
  next
    case (Fill app)
    then show ?thesis using fill_inv [OF inv] by (auto intro!: keep_selection_inv)
  next
    case Reset
    then show ?thesis using fallback_inv [of clock st] by (auto intro!: keep_selection_inv simp: resetEditorState_def)
  next
    case (Json_change x)
    then show ?thesis using inv by (auto intro!: keep_selection_inv simp: handleJsonChange_def Let_def)
  next
    case (Typing a b k l)
    then show ?thesis using Step.IH by (auto simp: ed_inv_def)
  qed
qed

theorem editor_invariant_witness:
  "ed_inv (\<lambda>_. 7) (keep_selection (addOperation (\<lambda>_. 7)
     (keep_selection (the (open_dialog (\<lambda>_. []) (\<lambda>s. s) (\<lambda>_. 7) (lit ''[1'') 3)))))"
proof -
  have "open_dialog (\<lambda>_. []) (\<lambda>s. s) (\<lambda>_. 7) (lit ''[1'') 3 \<noteq> None" by code_simp
  then have "ed_reachable (\<lambda>_. []) (\<lambda>s. s) (\<lambda>_. 7) (\<lambda>_. []) (keep_selection (the (open_dialog (\<lambda>_. []) (\<lambda>s. s) (\<lambda>_. 7) (lit ''[1'') 3)))"
    by (intro ed_reachable.Open) (auto simp: option.collapse)
  then show ?thesis by (intro editor_invariant [OF ed_reachable.Step [OF _ ed_step.Add]])
qed

text \<open>Two updaters that build the same text from every draft that is parsed have the same effect.\<close>

lemma prune_step_cong:
  assumes "\<And>s t d s1. seed \<le> s \<Longrightarrow> parsePruneObjectsDraft num upper clock s t = (d, s1) \<Longrightarrow>
      buildPruneObjectsValueText num upper (fst (u s1 d)) = buildPruneObjectsValueText num upper (fst (v s1 d))
      \<and> snd (u s1 d) = snd (v s1 d) \<and> s1 \<le> snd (v s1 d)"
  shows "prune_step num upper clock i u seed ops = prune_step num upper clock i v seed ops"
proof -
  have "seed \<le> s \<Longrightarrow> prune_step num upper clock i u s ops = prune_step num upper clock i v s ops" for s
  proof (induction ops arbitrary: s)
    case (Cons op ops)
    obtain d s1 where p: "parsePruneObjectsDraft num upper clock s (o_value_text op) = (d, s1)" by force
    obtain x s2 where u: "u s1 d = (x, s2)" by force
    obtain y s3 where v: "v s1 d = (y, s3)" by force
    have "buildPruneObjectsValueText num upper x = buildPruneObjectsValueText num upper y" "s2 = s3" "s1 \<le> s3"
      using assms [OF Cons.prems p] by (simp_all add: u v)
    moreover have "s \<le> s1" by (rule prune_draft_made(1) [OF p])
    ultimately show ?case using Cons.IH [of s] Cons.IH [of s2] Cons.prems by (simp add: p u v)
  qed simp
  then show ?thesis by simp
qed

lemma fresh_rule_id:
  assumes "parsePruneObjectsDraft num upper clock s t = (d, s1)" and "seed \<le> s" and "issued clock seed ruleId" and "r \<in> set (pd_rules d)"
  shows "c_id r \<noteq> ruleId"
proof -
  have "fresh_between clock s s1 (c_id r)" using prune_draft_made(2) [OF assms(1)] assms(4) by (simp add: made_def)
  then show ?thesis using fresh_not_issued [of clock s s1 "c_id r"] issued_mono [OF assms(3,2)] by auto
qed

text \<open>
  C32. The rules of a prune operation cannot be edited: the editor parses the text of the operation anew
  for every change, with new identifiers, so that a change or a removal that names a rule on the screen
  finds no rule and only writes the text again; and a rule that is added has no path yet and is dropped
  when the text is written.
\<close>

theorem prune_rules_not_editable:
  assumes "issued clock (localIdSeed st) ruleId"
  shows "updatePruneRule num upper clock i ruleId patch st = updatePruneObjectsDraft num upper clock i (\<lambda>s d. (d, s)) st
    \<and> removePruneRule num upper clock i ruleId st = updatePruneObjectsDraft num upper clock i (\<lambda>s d. (d, s)) st
    \<and> addPruneRule num upper clock i st = updatePruneObjectsDraft num upper clock i (\<lambda>s d. (d\<lparr>pd_simpleMode := False\<rparr>, s + 1)) st"
proof (intro conjI)
  show "updatePruneRule num upper clock i ruleId patch st = updatePruneObjectsDraft num upper clock i (\<lambda>s d. (d, s)) st"
  proof -
    have "map (\<lambda>r. if c_id r = ruleId then patch_condition patch r else r) (pd_rules d) = pd_rules d"
      if "parsePruneObjectsDraft num upper clock s t = (d, s1)" "localIdSeed st \<le> s" for s t d s1
      using fresh_rule_id [OF that assms] by (intro map_idI) auto
    then show ?thesis
      unfolding updatePruneRule_def updatePruneObjectsDraft_def
      by (subst prune_step_cong [where v = "\<lambda>s d. (d, s)"]) auto
  qed
  show "removePruneRule num upper clock i ruleId st = updatePruneObjectsDraft num upper clock i (\<lambda>s d. (d, s)) st"
  proof -
    have "filter (\<lambda>r. c_id r \<noteq> ruleId) (pd_rules d) = pd_rules d"
      if "parsePruneObjectsDraft num upper clock s t = (d, s1)" "localIdSeed st \<le> s" for s t d s1
      using fresh_rule_id [OF that assms] by (intro filter_True) auto
    then show ?thesis
      unfolding removePruneRule_def updatePruneObjectsDraft_def
      by (subst prune_step_cong [where v = "\<lambda>s d. (d, s)"]) auto
  qed
  have "trim (c_path (the (fst (normalizePruneRule num clock s (JObj []))))) = []" for s
    by (simp add: normalizePruneRule_def str_or_def coalesce_def)
  then show "addPruneRule num upper clock i st
    = updatePruneObjectsDraft num upper clock i (\<lambda>s d. (d\<lparr>pd_simpleMode := False\<rparr>, s + 1)) st"
    unfolding addPruneRule_def updatePruneObjectsDraft_def
    by (subst prune_step_cong [where v = "\<lambda>s d. (d\<lparr>pd_simpleMode := False\<rparr>, s + 1)"])
      (auto simp: normalizePruneRule_def buildPruneObjectsValueText_def)
qed

theorem prune_rules_not_editable_witness:
  "let st = the (open_dialog (\<lambda>_. []) (\<lambda>s. s) (\<lambda>_. 7) [] 3) in
   removePruneRule (\<lambda>_. []) (\<lambda>s. s) (\<lambda>_. 7) (lit ''po_7_3'') (lit ''po_7_3'') st
     = updatePruneObjectsDraft (\<lambda>_. []) (\<lambda>s. s) (\<lambda>_. 7) (lit ''po_7_3'') (\<lambda>s d. (d, s)) st"
proof -
  let ?st = "the (open_dialog (\<lambda>_. []) (\<lambda>s. s) (\<lambda>_. 7) [] 3)"
  have "3 < localIdSeed ?st" "lit ''po_7_3'' = nextLocalId (\<lambda>_. 7) 3" by code_simp+
  then have "issued (\<lambda>_. 7) (localIdSeed ?st) (lit ''po_7_3'')" unfolding issued_def by blast
  from prune_rules_not_editable [OF this] show ?thesis by (simp add: Let_def)
qed

text \<open>
  Dropping an operation on another one keeps all operations and the order of the others, and puts
  it right before or right after the target.
\<close>

theorem reorderOperations_moves:
  assumes "distinct (map o_id ops)" and "a \<in> set ops" and "b \<in> set ops" and "o_id a \<noteq> o_id b" and "o_id a \<noteq> []" and "o_id b \<noteq> []"
  shows "\<exists>xs ys. filter (\<lambda>op. op \<noteq> a) ops = xs @ b # ys
    \<and> reorderOperations ops (o_id a) (o_id b) after = (if after then xs @ b # a # ys else xs @ a # b # ys)"
proof -
  have fi: "\<exists>us vs. xs = us @ x # vs \<and> find_index (\<lambda>op. o_id op = o_id x) xs = Some (length us)"
    if d: "distinct (map o_id xs)" and m: "x \<in> set xs" for x xs
  proof -
    obtain us vs where xs: "xs = us @ x # vs" using m by (meson split_list)
    have "\<forall>j < length us. o_id (xs ! j) \<noteq> o_id x" using d unfolding xs by (auto simp: nth_append) (metis imageI nth_mem)
    then have "find_index (\<lambda>op. o_id op = o_id x) xs = Some (length us)" by (auto simp: find_index_Some xs nth_append)
    then show ?thesis using xs by blast
  qed
  obtain us vs where ops: "ops = us @ a # vs" and i: "find_index (\<lambda>op. o_id op = o_id a) ops = Some (length us)"
    using fi [OF assms(1,2)] by blast
  have rest: "take (length us) ops @ drop (Suc (length us)) ops = us @ vs" by (simp add: ops)
  have f: "filter (\<lambda>op. op \<noteq> a) ops = us @ vs"
    using assms(1) unfolding ops by (auto simp: filter_id_conv intro!: arg_cong2 [where f = "(@)"])
  have "distinct (map o_id (us @ vs))" "b \<in> set (us @ vs)" using assms unfolding ops by auto
  then obtain xs ys where r: "us @ vs = xs @ b # ys" and j: "find_index (\<lambda>op. o_id op = o_id b) (us @ vs) = Some (length xs)"
    using fi [of "us @ vs" b] by blast
  have "reorderOperations ops (o_id a) (o_id b) after
    = (let rest = us @ vs; k = (if after then length xs + 1 else length xs) in take k rest @ a # drop k rest)"
    using reorder_split [OF assms(5,6,4) i, of "length xs" after] j rest by (simp add: ops nth_append)
  then have "reorderOperations ops (o_id a) (o_id b) after = (if after then xs @ b # a # ys else xs @ a # b # ys)"
    unfolding r by (cases after) (simp_all add: Let_def)
  then show ?thesis using f r by auto
qed

definition sample_operation :: "jstring \<Rightarrow> po_operation" where
  "sample_operation i = \<lparr>o_id = i, o_description = lit '' cap '', o_path = lit ''n '', o_mode = lit ''set'', o_from = lit ''x'', o_to = [],
     o_value_text = lit ''[null]'', o_keep_origin = True, o_logic = lit ''AND'',
     o_conditions = [\<lparr>c_id = lit ''c'', c_path = lit ''m'', c_mode = lit ''prefix'', c_value_text = lit ''gpt'', c_invert = True, c_pass_missing_key = False\<rparr>]\<rparr>"

theorem reorderOperations_moves_witness:
  "map o_id (reorderOperations (map sample_operation [lit ''a'', lit ''b'', lit ''c'']) (lit ''a'') (lit ''c'') True) = [lit ''b'', lit ''c'', lit ''a'']"
proof -
  let ?ops = "map sample_operation [lit ''a'', lit ''b'', lit ''c'']"
  have "distinct (map o_id ?ops)" "o_id (sample_operation (lit ''a'')) \<noteq> o_id (sample_operation (lit ''c''))"
    "o_id (sample_operation (lit ''a'')) \<noteq> []" "o_id (sample_operation (lit ''c'')) \<noteq> []" by code_simp+
  moreover have "sample_operation (lit ''a'') \<in> set ?ops" "sample_operation (lit ''c'') \<in> set ?ops" by simp_all
  ultimately obtain xs ys where x: "filter (\<lambda>op. op \<noteq> sample_operation (lit ''a'')) ?ops = xs @ sample_operation (lit ''c'') # ys"
    and r: "reorderOperations ?ops (o_id (sample_operation (lit ''a''))) (o_id (sample_operation (lit ''c''))) True
      = xs @ sample_operation (lit ''c'') # sample_operation (lit ''a'') # ys"
    using reorderOperations_moves [of ?ops "sample_operation (lit ''a'')" "sample_operation (lit ''c'')" True] by auto
  have "map o_id (filter (\<lambda>op. op \<noteq> sample_operation (lit ''a'')) ?ops) = [lit ''b'', lit ''c'']" by code_simp
  then have "map o_id xs = [lit ''b''] \<and> ys = []"
    unfolding x by (auto simp: sample_operation_def append_eq_Cons_conv)
  then show ?thesis using r by (simp add: sample_operation_def)
qed

end
