(* ===== verification/Param_Roundtrip.thy ===== *)
theory Param_Roundtrip
  imports Param_Editor_Invariant
begin

section \<open>Saving and reopening parameter overrides\<close>

text \<open>
  \<^verbatim>\<open>buildOperationsJson\<close> and \<^verbatim>\<open>parseInitialState\<close> fit together: reopening a saved text gives
  operations that are valid and have the same payload. The values of the operations are texts that are
  parsed when they are JSON, which is lossless except for the text of a quoted string.
\<close>

subsection \<open>Values that survive\<close>

text \<open>
  The text of a value is read again as the same value when it is not the text of a quoted string; its
  numbers have to be printed in a way that is read back, and \<^verbatim>\<open>-0\<close> is excluded.
\<close>

definition text_ok :: "(rat \<Rightarrow> jstring) \<Rightarrow> jstring \<Rightarrow> bool" where
  "text_ok num t \<longleftrightarrow>
     (let raw = trim t in
      raw = [] \<or> (case json_parse raw of None \<Rightarrow> True | Some (JStr _) \<Rightarrow> False | Some v \<Rightarrow> json_ok num v \<and> json_view v = Some v))"

lemma json_wrap_ends: "a \<notin> {9, 10, 13, 32} \<Longrightarrow> json_wrap a b gap ind ps \<noteq> [] \<and> hd (json_wrap a b gap ind ps) = a \<and> last (json_wrap a b gap ind ps) = b"
  by (simp add: json_wrap_def)

lemma stringify_trim:
  assumes "is_object v \<or> (\<exists>vs. v = JArr vs)"
  shows "\<exists>s. json_stringify num gap v = Some s \<and> s \<noteq> [] \<and> trim s = s"
proof -
  have w: "trim (json_wrap a b gap ind ps) = json_wrap a b gap ind ps" if "a \<in> {91, 123}" "b \<in> {93, 125}" for a b gap ind ps
    using json_wrap_ends [of a b gap ind ps] that by (intro trim_id) (auto simp: is_ws_def)
  show ?thesis using assms
  proof
    assume "is_object v"
    then obtain ps where "v = JObj ps" by (cases v) auto
    then show ?thesis using w [of 123 125] json_wrap_ends [of 123 125] by (simp add: json_stringify_def)
  next
    assume "\<exists>vs. v = JArr vs"
    then obtain vs where "v = JArr vs" by blast
    then show ?thesis using w [of 91 93] json_wrap_ends [of 91 93] by (simp add: json_stringify_def)
  qed
qed

text \<open>The characters that a number consumes.\<close>

definition numeral_char :: "nat \<Rightarrow> bool" where
  "numeral_char c \<longleftrightarrow> is_digit c \<or> c \<in> {43, 45, 46, 69, 101}"

definition consumed :: "jstring \<Rightarrow> jstring \<Rightarrow> bool" where
  "consumed s r \<longleftrightarrow> (\<exists>p. s = p @ r \<and> (\<forall>c \<in> set p. numeral_char c))"

lemma consumed_refl: "consumed s s"
  by (auto simp: consumed_def)

lemma consumed_trans: "consumed s r \<Longrightarrow> consumed r t \<Longrightarrow> consumed s t"
  unfolding consumed_def by (metis Un_iff append.assoc set_append)

lemma consumed_Cons: "numeral_char c \<Longrightarrow> consumed s r \<Longrightarrow> consumed (c # s) r"
  unfolding consumed_def by (metis append_Cons set_ConsD)

lemma consumed_digits: "digits_prefix s = (ds, r) \<Longrightarrow> consumed s r"
  using set_takeWhileD [of _ is_digit s] takeWhile_dropWhile_id [of is_digit s]
  unfolding digits_prefix_def consumed_def numeral_char_def by (metis prod.inject)

lemma consumed_exponent: "parse_exponent s = Some (e, r) \<Longrightarrow> consumed s r"
  by (auto simp: parse_exponent_def Let_def numeral_char_def split: list.splits if_splits prod.splits
      intro!: consumed_Cons consumed_refl dest!: consumed_digits)

lemma consumed_number:
  assumes "parse_number s = Some (x, r)"
  shows "consumed s r"
proof -
  obtain neg s1 where n: "(case s of c # s' \<Rightarrow> if c = 45 then (True, s') else (False, s) | [] \<Rightarrow> (False, s)) = (neg, s1)" by force
  have a: "consumed s s1" using n by (cases s) (auto simp: numeral_char_def split: if_splits intro!: consumed_Cons consumed_refl)
  obtain ds s2 where d: "digits_prefix s1 = (ds, s2)" by force
  obtain fs s5 where f: "(case s2 of
                      c # s3 \<Rightarrow> if c = 46 then (let (fs, s4) = digits_prefix s3 in if fs = [] then None else Some (fs, s4))
                               else Some ([], s2)
                    | [] \<Rightarrow> Some ([], s2)) = Some (fs, s5)"
    using assms n d by (force simp: parse_number_def split: option.splits if_splits)
  have c: "consumed s2 s5"
    using f by (cases s2) (auto simp: numeral_char_def split: if_splits prod.splits intro!: consumed_Cons consumed_refl dest: consumed_digits)
  obtain e where "parse_exponent s5 = Some (e, r)"
    using assms n d f by (force simp: parse_number_def Let_def split: option.splits if_splits)
  then show ?thesis using a c consumed_digits [OF d] consumed_exponent consumed_trans by blast
qed

lemma prints_num_trim:
  assumes "prints_num num q"
  shows "trim (num q) = num q" and "num q \<noteq> []"
proof -
  show ne: "num q \<noteq> []" using assms by (simp add: prints_num_def)
  have "parse_number (num q @ []) = Some (Fin q, [])" using assms unfolding prints_num_def delim_def by blast
  then have "consumed (num q) []" using consumed_number by simp
  then have "\<forall>c \<in> set (num q). \<not> is_ws c" by (auto simp: consumed_def numeral_char_def is_ws_def is_digit_def)
  then show "trim (num q) = num q" by (rule trim_no_ws)
qed

lemma text_stable:
  assumes "text_ok num t"
  shows "parseLooseValue (toValueText num (parseLooseValue t)) = parseLooseValue t"
    and "trim (toValueText num (parseLooseValue t)) = [] \<longleftrightarrow> trim t = []"
    and "json_ok num (parseLooseValue t)" and "json_view (parseLooseValue t) = Some (parseLooseValue t)"
    and "trim t \<noteq> [] \<Longrightarrow> json_parse (trim (toValueText num (parseLooseValue t))) = json_parse (trim t)"
proof -
  let ?raw = "trim t"
  have "parseLooseValue (toValueText num (parseLooseValue t)) = parseLooseValue t
    \<and> (trim (toValueText num (parseLooseValue t)) = [] \<longleftrightarrow> trim t = [])
    \<and> json_ok num (parseLooseValue t) \<and> json_view (parseLooseValue t) = Some (parseLooseValue t)
    \<and> (trim t \<noteq> [] \<longrightarrow> json_parse (trim (toValueText num (parseLooseValue t))) = json_parse (trim t))"
  proof (cases "?raw = [] \<or> json_parse ?raw = None")
    case True
    then have "parseLooseValue x = JStr ?raw" if "trim x = ?raw" for x
      using that by (auto simp: parseLooseValue_def coalesce_def Let_def)
    then show ?thesis by (simp add: toValueText_def)
  next
    case False
    then obtain v where v: "json_parse ?raw = Some v" and ne: "?raw \<noteq> []" by auto
    have ok: "json_ok num v" "json_view v = Some v" and ns: "\<forall>s. v \<noteq> JStr s"
      using assms v ne by (auto simp: text_ok_def Let_def split: jsval.splits)
    have p: "parseLooseValue t = v" using v ne by (simp add: parseLooseValue_def coalesce_def)
    obtain s where s: "json_stringify num [] v = Some s" "s \<noteq> []" "trim s = s"
    proof (cases v)
      case Undefined
      then show ?thesis using ok(2) by simp
    next
      case (JNum n)
      obtain q where q: "n = Fin q" using ok(2) JNum by (cases n) auto
      then show ?thesis using that prints_num_trim [of num q] ok(1) JNum by (simp add: json_stringify_def)
    next
      case (JArr vs)
      then show ?thesis using stringify_trim [of v num "[]"] that by auto
    next
      case (JObj ps)
      then show ?thesis using stringify_trim [of v num "[]"] that by auto
    next
      case (JStr s)
      then show ?thesis using ns by simp
    qed (use that in \<open>simp_all add: json_stringify_def lit_def trim_def trim_start_def trim_end_def is_ws_def\<close>)
    have "toValueText num v = s" using s(1) ns ok(2) by (cases v) (auto simp: toValueText_def coalesce_def)
    moreover have "json_parse s = Some v" using json_parse_stringify [of "[]" num v s] ok s(1) by simp
    ultimately show ?thesis using s p ok ne v by (simp add: parseLooseValue_def coalesce_def)
  qed
  then show "parseLooseValue (toValueText num (parseLooseValue t)) = parseLooseValue t"
    "trim (toValueText num (parseLooseValue t)) = [] \<longleftrightarrow> trim t = []"
    "json_ok num (parseLooseValue t)" "json_view (parseLooseValue t) = Some (parseLooseValue t)"
    "trim t \<noteq> [] \<Longrightarrow> json_parse (trim (toValueText num (parseLooseValue t))) = json_parse (trim t)" by blast+
qed


subsection \<open>The payload of an operation\<close>

definition opt_key :: "bool \<Rightarrow> string \<Rightarrow> jsval \<Rightarrow> (jstring \<times> jsval) list" where
  "opt_key b k v = (if b then [(lit k, v)] else [])"

lemma map_of_opt_key [simp]:
  "map_of (opt_key b k v) (lit k') = (if b \<and> k = k' then Some v else None)"
  "map_of (opt_key b k v @ r) (lit k') = (if b \<and> k = k' then Some v else map_of r (lit k'))"
  by (auto simp: opt_key_def)

lemma keys_opt_key: "fst ` set (opt_key b k v) = (if b then {lit k} else {})"
  by (simp add: opt_key_def)

lemma update_append: "k \<notin> fst ` set ps \<Longrightarrow> AList.update k v ps = ps @ [(k, v)]"
  by (induction ps) auto

lemma update_opt: "lit k \<notin> fst ` set ps \<Longrightarrow> (if b then set_key k v ps else ps) = ps @ opt_key b k v"
  by (simp add: opt_key_def update_append)

lemma update_last: "lit k \<notin> fst ` set ps \<Longrightarrow> set_key k v (ps @ opt_key True k w) = ps @ opt_key True k v"
  by (induction ps) (auto simp: opt_key_def)

lemma update_twice:
  assumes "lit k \<notin> fst ` set ps"
  shows "(if b then set_key k v (if a then set_key k v ps else ps) else (if a then set_key k v ps else ps)) = ps @ opt_key (a \<or> b) k v"
  using assms update_append [OF assms] update_last [OF assms, of v v] by (cases a; cases b) (simp_all add: opt_key_def)

lemma set_alias:
  assumes "lit ''from'' \<notin> fst ` set ps" and "lit ''to'' \<notin> fst ` set ps"
  shows "set_if_missing ''to'' path (set_if_missing ''from'' path (ps @ opt_key True ''from'' (JStr f) @ opt_key True ''to'' (JStr t)))
    = ps @ opt_key True ''from'' (JStr (if f = [] then path else f)) @ opt_key True ''to'' (JStr (if t = [] then path else t))"
proof -
  have n: "map_of ps (lit ''from'') = None" "map_of ps (lit ''to'') = None" using assms by (simp_all add: map_of_eq_None_iff)
  have "AList.update (lit ''from'') w (ps @ [(lit ''from'', x), (lit ''to'', y)]) = ps @ [(lit ''from'', w), (lit ''to'', y)]" for w x y
    using assms by (induction ps) auto
  moreover have "AList.update (lit ''to'') w (ps @ [(lit ''from'', x), (lit ''to'', y)]) = ps @ [(lit ''from'', x), (lit ''to'', w)]" for w x y
    using assms by (induction ps) auto
  ultimately show ?thesis using n by (auto simp: set_if_missing_def opt_key_def map_add_def)
qed

lemma alias_meta: "m_pathAlias (meta_of mode) \<Longrightarrow> m_from (meta_of mode) \<and> m_to (meta_of mode) \<and> \<not> m_path (meta_of mode) \<and> \<not> m_pathOptional (meta_of mode)"
proof -
  have "list_all (\<lambda>(k, m). m_pathAlias m \<longrightarrow> m_from m \<and> m_to m \<and> \<not> m_path m \<and> \<not> m_pathOptional m) MODE_META" by code_simp
  moreover have "\<exists>k. (k, meta_of mode) \<in> set MODE_META"
  proof (cases "map_of MODE_META mode")
    case None
    have "map_of MODE_META (lit ''set'') \<noteq> None" by code_simp
    then obtain m where m: "map_of MODE_META (lit ''set'') = Some m" by blast
    show ?thesis using map_of_SomeD [OF m] None m by (auto simp: meta_of_def)
  next
    case (Some m)
    show ?thesis using map_of_SomeD [OF Some] Some by (auto simp: meta_of_def)
  qed
  ultimately show "m_pathAlias (meta_of mode) \<Longrightarrow> m_from (meta_of mode) \<and> m_to (meta_of mode) \<and> \<not> m_path (meta_of mode) \<and> \<not> m_pathOptional (meta_of mode)"
    by (auto simp: list_all_iff)
qed

text \<open>The source and target that are written: for headers the path stands in for what is missing.\<close>

definition alias_text :: "mode_meta \<Rightarrow> jstring \<Rightarrow> jstring \<Rightarrow> jstring" where
  "alias_text meta path s = (if m_pathAlias meta \<and> s = [] then path else s)"

definition cond_payloads :: "po_operation \<Rightarrow> jsval list" where
  "cond_payloads op = List.map_filter buildConditionPayload (o_conditions op)"

lemma operation_payload_eq:
  fixes op :: po_operation
  defines "mode \<equiv> or_str (o_mode op) (lit ''set'')" and "path \<equiv> trim (o_path op)"
  defines "meta \<equiv> meta_of mode"
  shows "operation_payload op = JObj
    (opt_key True ''mode'' (JStr mode)
     @ opt_key (trim (o_description op) \<noteq> []) ''description'' (JStr (trim (o_description op)))
     @ opt_key (m_path meta \<or> m_pathOptional meta \<and> path \<noteq> []) ''path'' (JStr path)
     @ opt_key (m_value meta) ''value'' (parseLooseValue (o_value_text op))
     @ opt_key (m_keepOrigin meta \<and> o_keep_origin op) ''keep_origin'' (JBool True)
     @ opt_key (m_from meta) ''from'' (JStr (alias_text meta path (trim (o_from op))))
     @ opt_key (m_to meta \<or> trim (o_to op) \<noteq> []) ''to'' (JStr (alias_text meta path (trim (o_to op))))
     @ opt_key (cond_payloads op \<noteq> []) ''conditions'' (JArr (cond_payloads op))
     @ opt_key (cond_payloads op \<noteq> []) ''logic'' (JStr (if o_logic op = lit ''AND'' then lit ''AND'' else lit ''OR'')))"
proof -
  let ?d = "trim (o_description op)" and ?f = "trim (o_from op)" and ?t = "trim (o_to op)" and ?v = "parseLooseValue (o_value_text op)"
  note keys = keys_opt_key image_Un set_append
  define p1 where "p1 = opt_key True ''mode'' (JStr mode) @ opt_key (?d \<noteq> []) ''description'' (JStr ?d)"
  define p3 where "p3 = p1 @ opt_key (m_path meta \<or> m_pathOptional meta \<and> path \<noteq> []) ''path'' (JStr path)"
  define p5 where "p5 = p3 @ opt_key (m_value meta) ''value'' ?v @ opt_key (m_keepOrigin meta \<and> o_keep_origin op) ''keep_origin'' (JBool True)"
  define p8 where "p8 = p5 @ opt_key (m_from meta) ''from'' (JStr ?f) @ opt_key (m_to meta \<or> ?t \<noteq> []) ''to'' (JStr ?t)"
  define p9 where "p9 = p5 @ opt_key (m_from meta) ''from'' (JStr (alias_text meta path ?f))
     @ opt_key (m_to meta \<or> ?t \<noteq> []) ''to'' (JStr (alias_text meta path ?t))"
  have e1: "(if ?d \<noteq> [] then set_key ''description'' (JStr ?d) [(lit ''mode'', JStr mode)] else [(lit ''mode'', JStr mode)]) = p1"
    unfolding p1_def by (simp add: opt_key_def)
  have e3: "(if m_pathOptional meta \<and> path \<noteq> [] then set_key ''path'' (JStr path) (if m_path meta then set_key ''path'' (JStr path) p1 else p1)
      else (if m_path meta then set_key ''path'' (JStr path) p1 else p1)) = p3"
    unfolding p3_def by (rule update_twice) (simp add: p1_def keys)
  have e4: "(if m_value meta then set_key ''value'' ?v p3 else p3) = p3 @ opt_key (m_value meta) ''value'' ?v"
    by (rule update_opt) (simp add: p1_def p3_def keys)
  have e5: "(if m_keepOrigin meta \<and> o_keep_origin op then set_key ''keep_origin'' (JBool True) (p3 @ opt_key (m_value meta) ''value'' ?v)
      else p3 @ opt_key (m_value meta) ''value'' ?v) = p5"
    unfolding p5_def by (subst update_opt) (simp_all add: p1_def p3_def keys)
  have e6: "(if m_from meta then set_key ''from'' (JStr ?f) p5 else p5) = p5 @ opt_key (m_from meta) ''from'' (JStr ?f)"
    by (rule update_opt) (simp add: p1_def p3_def p5_def keys)
  have k6: "lit ''to'' \<notin> fst ` set (p5 @ opt_key (m_from meta) ''from'' (JStr ?f))" by (simp add: p1_def p3_def p5_def keys)
  have to: "(m_to meta \<or> ?t \<noteq> []) = (\<not> m_to meta \<and> ?t \<noteq> [] \<or> m_to meta)" by blast
  have e8: "(if m_to meta then set_key ''to'' (JStr ?t) (if \<not> m_to meta \<and> ?t \<noteq> [] then set_key ''to'' (JStr ?t) (p5 @ opt_key (m_from meta) ''from'' (JStr ?f))
        else p5 @ opt_key (m_from meta) ''from'' (JStr ?f))
      else (if \<not> m_to meta \<and> ?t \<noteq> [] then set_key ''to'' (JStr ?t) (p5 @ opt_key (m_from meta) ''from'' (JStr ?f))
        else p5 @ opt_key (m_from meta) ''from'' (JStr ?f))) = p8"
    unfolding p8_def to by (subst update_twice [OF k6]) simp
  have k5: "lit ''from'' \<notin> fst ` set p5" "lit ''to'' \<notin> fst ` set p5" by (simp_all add: p1_def p3_def p5_def keys)
  have e9: "(if m_pathAlias meta then set_if_missing ''to'' path (set_if_missing ''from'' path p8) else p8) = p9"
  proof (cases "m_pathAlias meta")
    case True
    then have "m_from meta" "m_to meta" using alias_meta [of mode] by (simp_all add: meta_def)
    then show ?thesis using True k5 by (simp add: p8_def p9_def alias_text_def set_alias)
  qed (simp add: p8_def p9_def alias_text_def)
  have k9: "lit ''conditions'' \<notin> fst ` set p9" "lit ''logic'' \<notin> fst ` set p9" by (simp_all add: p1_def p3_def p5_def p9_def keys)
  have "operation_payload op = JObj (if cond_payloads op \<noteq> []
      then set_key ''logic'' (JStr (if o_logic op = lit ''AND'' then lit ''AND'' else lit ''OR''))
        (set_key ''conditions'' (JArr (cond_payloads op)) p9) else p9)"
    unfolding operation_payload_def Let_def mode_def [symmetric] meta_def [symmetric] path_def [symmetric] cond_payloads_def [symmetric]
      e1 e3 e4 e5 e6 e8 e9 ..
  also have "\<dots> = JObj (p9 @ opt_key (cond_payloads op \<noteq> []) ''conditions'' (JArr (cond_payloads op))
     @ opt_key (cond_payloads op \<noteq> []) ''logic'' (JStr (if o_logic op = lit ''AND'' then lit ''AND'' else lit ''OR'')))"
    using k9 by (auto simp: update_append opt_key_def)
  finally show ?thesis by (simp add: p9_def p5_def p3_def p1_def)
qed

subsection \<open>Loading what was saved\<close>

declare map_of_append [simp del]

definition cond_text_ok :: "(rat \<Rightarrow> jstring) \<Rightarrow> po_condition \<Rightarrow> bool" where
  "cond_text_ok num c \<longleftrightarrow> (trim (c_path c) \<noteq> [] \<longrightarrow> c_mode c \<in> set CONDITION_MODE_VALUES \<and> text_ok num (c_value_text c))"

definition op_text_ok :: "(rat \<Rightarrow> jstring) \<Rightarrow> po_operation \<Rightarrow> bool" where
  "op_text_ok num op \<longleftrightarrow> o_mode op \<in> set OPERATION_MODE_VALUES \<and> (m_value (meta_of (o_mode op)) \<longrightarrow> text_ok num (o_value_text op))
     \<and> list_all (cond_text_ok num) (o_conditions op)"

lemma modes_not_Nil: "[] \<notin> set CONDITION_MODE_VALUES" "[] \<notin> set OPERATION_MODE_VALUES"
  by code_simp+

lemma buildConditionPayload_eq:
  "buildConditionPayload c = (if trim (c_path c) = [] then None else Some (JObj
     (opt_key True ''path'' (JStr (trim (c_path c))) @ opt_key True ''mode'' (JStr (or_str (c_mode c) (lit ''full'')))
      @ opt_key True ''value'' (parseLooseValue (c_value_text c))
      @ opt_key (c_invert c) ''invert'' (JBool True) @ opt_key (c_pass_missing_key c) ''pass_missing_key'' (JBool True))))"
  by (simp add: buildConditionPayload_def Let_def opt_key_def)

lemma distinct_opt_keys:
  "distinct (map fst (opt_key b k v))"
  "distinct (map fst (opt_key b k v @ r)) \<longleftrightarrow> distinct (map fst r) \<and> (b \<longrightarrow> lit k \<notin> fst ` set r)"
  by (auto simp: opt_key_def)

text \<open>Loading a payload gives a condition with the same payload.\<close>

lemma condition_reload:
  assumes "buildConditionPayload c = Some p" and "cond_text_ok num c"
  shows "\<exists>c'. normalizeCondition num clock seed p = (Some c', seed + 1) \<and> buildConditionPayload c' = Some p"
    and "json_ok num p" and "json_view p = Some p"
proof -
  have path: "trim (c_path c) \<noteq> []" using assms(1) by (auto simp: buildConditionPayload_eq split: if_splits)
  have m: "c_mode c \<in> set CONDITION_MODE_VALUES" and v: "text_ok num (c_value_text c)"
    using assms(2) path by (auto simp: cond_text_ok_def)
  have ne: "c_mode c \<noteq> []" using m modes_not_Nil(1) by metis
  note t = text_stable [OF v]
  have p: "p = JObj (opt_key True ''path'' (JStr (trim (c_path c))) @ opt_key True ''mode'' (JStr (c_mode c))
      @ opt_key True ''value'' (parseLooseValue (c_value_text c))
      @ opt_key (c_invert c) ''invert'' (JBool True) @ opt_key (c_pass_missing_key c) ''pass_missing_key'' (JBool True))"
    using assms(1) path ne by (simp add: buildConditionPayload_eq or_str_def)
  show "\<exists>c'. normalizeCondition num clock seed p = (Some c', seed + 1) \<and> buildConditionPayload c' = Some p"
    unfolding p normalizeCondition_def buildConditionPayload_eq
    using path m ne by (auto simp: str_or_def coalesce_def mode_in_def or_str_def t(1))
  show "json_ok num p" unfolding p
    by (simp add: distinct_opt_keys keys_opt_key image_Un del: map_append) (auto simp: opt_key_def t(3))
  show "json_view p = Some p" unfolding p by (auto simp: opt_key_def t(4))
qed

lemma conditions_reload:
  assumes "list_all (cond_text_ok num) cs"
  shows "\<exists>cs' seed'. map_seed (normalizeCondition num clock) seed (List.map_filter buildConditionPayload cs) = (Some cs', seed')
    \<and> List.map_filter buildConditionPayload cs' = List.map_filter buildConditionPayload cs"
  using assms
proof (induction cs arbitrary: seed)
  case (Cons c cs)
  show ?case
  proof (cases "buildConditionPayload c")
    case None
    then show ?thesis using Cons by (simp add: map_filter_simps)
  next
    case (Some p)
    obtain c' where c': "normalizeCondition num clock seed p = (Some c', seed + 1)" "buildConditionPayload c' = Some p"
      using condition_reload(1) [OF Some, of num clock seed] Cons.prems by auto
    obtain cs' seed' where "map_seed (normalizeCondition num clock) (seed + 1) (List.map_filter buildConditionPayload cs) = (Some cs', seed')"
      "List.map_filter buildConditionPayload cs' = List.map_filter buildConditionPayload cs"
      using Cons.IH [of "seed + 1"] Cons.prems by auto
    then show ?thesis using c' Some by (simp add: map_filter_simps)
  qed
qed (simp add: map_filter_simps)

lemma table_facts:
  "mode \<in> set FROM_REQUIRED_MODES \<Longrightarrow> m_from (meta_of mode)"
  "mode \<in> set TO_REQUIRED_MODES \<Longrightarrow> m_to (meta_of mode)"
  "mode \<in> set VALUE_REQUIRED_MODES \<Longrightarrow> m_value (meta_of mode)"
  "m_path (meta_of (lit ''set''))"
  "lit ''return_error'' \<in> set VALUE_REQUIRED_MODES" "lit ''prune_objects'' \<in> set VALUE_REQUIRED_MODES" "lit ''pass_headers'' \<in> set VALUE_REQUIRED_MODES"
proof -
  have "list_all (\<lambda>m. m_from (meta_of m)) FROM_REQUIRED_MODES" "list_all (\<lambda>m. m_to (meta_of m)) TO_REQUIRED_MODES"
    "list_all (\<lambda>m. m_value (meta_of m)) VALUE_REQUIRED_MODES" by code_simp+
  then show "mode \<in> set FROM_REQUIRED_MODES \<Longrightarrow> m_from (meta_of mode)"
    "mode \<in> set TO_REQUIRED_MODES \<Longrightarrow> m_to (meta_of mode)" "mode \<in> set VALUE_REQUIRED_MODES \<Longrightarrow> m_value (meta_of mode)"
    by (auto simp: list_all_iff)
  show "m_path (meta_of (lit ''set''))" by code_simp
  show "lit ''return_error'' \<in> set VALUE_REQUIRED_MODES" "lit ''prune_objects'' \<in> set VALUE_REQUIRED_MODES"
    "lit ''pass_headers'' \<in> set VALUE_REQUIRED_MODES" by code_simp+
qed

text \<open>The fields of an operation after saving and loading.\<close>

definition reloaded :: "(rat \<Rightarrow> jstring) \<Rightarrow> po_operation \<Rightarrow> po_operation \<Rightarrow> bool" where
  "reloaded num op op' \<longleftrightarrow>
     (let meta = meta_of (o_mode op); path = trim (o_path op) in
      o_mode op' = o_mode op \<and> o_description op' = trim (o_description op)
      \<and> o_path op' = (if m_path meta \<or> m_pathOptional meta \<and> path \<noteq> [] then path else [])
      \<and> o_value_text op' = (if m_value meta then toValueText num (parseLooseValue (o_value_text op)) else [])
      \<and> o_keep_origin op' = (m_keepOrigin meta \<and> o_keep_origin op)
      \<and> o_from op' = (if m_from meta then alias_text meta path (trim (o_from op)) else [])
      \<and> o_to op' = (if m_to meta \<or> trim (o_to op) \<noteq> [] then alias_text meta path (trim (o_to op)) else [])
      \<and> o_logic op' = (if cond_payloads op \<noteq> [] \<and> o_logic op = lit ''AND'' then lit ''AND'' else lit ''OR'')
      \<and> cond_payloads op' = cond_payloads op)"

lemma operation_reload:
  assumes "op_text_ok num op" and "upper (lit ''AND'') = lit ''AND''" and "upper (lit ''OR'') = lit ''OR''"
  shows "\<exists>op' seed'. normalizeOperation num upper clock seed (operation_payload op) = (Some op', seed') \<and> reloaded num op op'"
proof -
  have mode: "o_mode op \<in> set OPERATION_MODE_VALUES" "o_mode op \<noteq> []" and cs: "list_all (cond_text_ok num) (o_conditions op)"
    using assms(1) modes_not_Nil(2) by (auto simp: op_text_ok_def)
  obtain cs' seed' where l: "map_seed (normalizeCondition num clock) (seed + 1) (cond_payloads op) = (Some cs', seed')"
    and cp: "List.map_filter buildConditionPayload cs' = cond_payloads op"
    using conditions_reload [OF cs, of clock "seed + 1"] unfolding cond_payloads_def by blast
  note eq = operation_payload_eq [of op]
  have logic: "logic_of num upper (fld (operation_payload op) ''logic'') (lit ''OR'') (lit ''AND'') (lit ''OR'')
    = Some (if cond_payloads op \<noteq> [] \<and> o_logic op = lit ''AND'' then lit ''AND'' else lit ''OR'')"
    unfolding eq using assms(2,3) by (auto simp: logic_of_def or_val_def to_string_def)
  have conds: "(case fld (operation_payload op) ''conditions'' of
        JArr cs \<Rightarrow> map_seed (normalizeCondition num clock) (seed + 1) cs | _ \<Rightarrow> (Some [], seed + 1))
      = (Some cs', seed')"
    unfolding eq using l by (cases "cond_payloads op = []") (auto simp: cond_payloads_def)
  have nn: "operation_payload op \<noteq> Null" unfolding eq by simp
  show ?thesis
    unfolding normalizeOperation_def conds using nn
    by (simp add: logic conds reloaded_def Let_def cond_payloads_def cp [unfolded cond_payloads_def])
      (simp add: eq mode or_str_def str_or_def coalesce_def mode_in_def toValueText_def)
qed


lemma reloaded_payload:
  assumes "reloaded num op op'" and "op_text_ok num op"
  shows "operation_payload op' = operation_payload op"
proof -
  define meta where "meta = meta_of (o_mode op)"
  define path where "path = trim (o_path op)"
  have "o_mode op \<noteq> []" using assms(2) modes_not_Nil(2) by (auto simp: op_text_ok_def)
  then have mode: "or_str (o_mode op) (lit ''set'') = o_mode op" "o_mode op' = o_mode op"
    using assms(1) by (simp_all add: or_str_def reloaded_def Let_def)
  note r = assms(1) [unfolded reloaded_def Let_def, folded meta_def path_def]
  have tp: "trim path = path" by (simp add: path_def)
  have ta: "trim (alias_text meta path (trim x)) = alias_text meta path (trim x)" for x by (simp add: alias_text_def tp)
  have al: "m_pathAlias meta \<Longrightarrow> m_from meta \<and> m_to meta \<and> trim (o_path op') = []"
    using alias_meta [of "o_mode op"] r by (auto simp: meta_def)
  have vt: "m_value meta \<Longrightarrow> parseLooseValue (o_value_text op') = parseLooseValue (o_value_text op)"
    using text_stable(1) [of num "o_value_text op"] assms(2) r by (simp add: op_text_ok_def meta_def)
  have path': "opt_key (m_path meta \<or> m_pathOptional meta \<and> trim (o_path op') \<noteq> []) ''path'' (JStr (trim (o_path op')))
      = opt_key (m_path meta \<or> m_pathOptional meta \<and> path \<noteq> []) ''path'' (JStr path)"
    using r tp by (auto simp: opt_key_def)
  have val': "opt_key (m_value meta) ''value'' (parseLooseValue (o_value_text op')) = opt_key (m_value meta) ''value'' (parseLooseValue (o_value_text op))"
    using vt by (simp add: opt_key_def)
  have same: "alias_text meta (trim (o_path op')) (alias_text meta path (trim x)) = alias_text meta path (trim x)" for x
    using al by (auto simp: alias_text_def)
  have from': "opt_key (m_from meta) ''from'' (JStr (alias_text meta (trim (o_path op')) (trim (o_from op'))))
      = opt_key (m_from meta) ''from'' (JStr (alias_text meta path (trim (o_from op))))"
    using r ta same by (simp add: opt_key_def)
  have to': "opt_key (m_to meta \<or> trim (o_to op') \<noteq> []) ''to'' (JStr (alias_text meta (trim (o_path op')) (trim (o_to op'))))
      = opt_key (m_to meta \<or> trim (o_to op) \<noteq> []) ''to'' (JStr (alias_text meta path (trim (o_to op))))"
  proof (cases "m_to meta")
    case True
    then show ?thesis using r ta same by (simp add: opt_key_def)
  next
    case False
    then have "\<not> m_pathAlias meta" using al by blast
    then show ?thesis using r False by (auto simp: opt_key_def alias_text_def)
  qed
  have logic: "opt_key (cond_payloads op' \<noteq> []) ''logic'' (JStr (if o_logic op' = lit ''AND'' then lit ''AND'' else lit ''OR''))
    = opt_key (cond_payloads op \<noteq> []) ''logic'' (JStr (if o_logic op = lit ''AND'' then lit ''AND'' else lit ''OR''))"
    using r by (auto simp: opt_key_def)
  have desc: "trim (o_description op') = trim (o_description op)" using r by simp
  have keep: "(m_keepOrigin meta \<and> o_keep_origin op') = (m_keepOrigin meta \<and> o_keep_origin op)" using r by auto
  have cp: "cond_payloads op' = cond_payloads op" using r by simp
  show ?thesis
    unfolding operation_payload_eq [of op'] operation_payload_eq [of op] mode meta_def [symmetric] path_def [symmetric]
      path' val' from' to' logic desc keep unfolding cp ..
qed

lemma parseLooseValue_trim: "parseLooseValue (trim t) = parseLooseValue t"
  by (simp add: parseLooseValue_def)

lemma reloaded_valid:
  assumes "reloaded num op op'" and "op_text_ok num op" and "validate_operation num line op = None"
  shows "validate_operation num line op' = None" and "\<not> isOperationBlank op'"
proof -
  define meta where "meta = meta_of (o_mode op)"
  define path where "path = trim (o_path op)"
  have "o_mode op \<noteq> []" using assms(2) modes_not_Nil(2) by (auto simp: op_text_ok_def)
  then have mode: "or_str (o_mode op) (lit ''set'') = o_mode op" "o_mode op' = o_mode op"
    using assms(1) by (simp_all add: or_str_def reloaded_def Let_def)
  note r = assms(1) [unfolded reloaded_def Let_def, folded meta_def path_def]
  note v = assms(3) [unfolded validate_operation_def Let_def mode, folded meta_def path_def]
  have tp: "trim path = path" by (simp add: path_def)
  have p1: "m_path meta \<Longrightarrow> path \<noteq> []" using v by (auto split: if_splits)
  have f1: "o_mode op \<in> set FROM_REQUIRED_MODES \<Longrightarrow> trim (o_from op) \<noteq> [] \<or> m_pathAlias meta \<and> path \<noteq> []" using v by (auto split: if_splits)
  have t1: "o_mode op \<in> set TO_REQUIRED_MODES \<Longrightarrow> trim (o_to op) \<noteq> [] \<or> m_pathAlias meta \<and> path \<noteq> []" using v by (auto split: if_splits)
  have v1: "o_mode op \<in> set VALUE_REQUIRED_MODES \<Longrightarrow> trim (o_value_text op) \<noteq> []" using v by (auto split: if_splits)
  have re: "o_mode op = lit ''return_error'' \<Longrightarrow> return_error_check num (trim (o_value_text op))" using v by (auto split: if_splits)
  have ph: "o_mode op = lit ''pass_headers'' \<Longrightarrow> \<exists>h hs. parsePassHeaderNames num (parseLooseValue (o_value_text op)) = Some (h # hs)"
    using v by (auto simp: parseLooseValue_trim neq_Nil_conv split: if_splits option.splits list.splits)
  have path': "m_path meta \<Longrightarrow> trim (o_path op') \<noteq> []" using r p1 tp by simp
  have from': "o_mode op \<in> set FROM_REQUIRED_MODES \<Longrightarrow> trim (o_from op') \<noteq> []"
    using r f1 table_facts(1) [of "o_mode op"] tp by (auto simp: meta_def alias_text_def)
  have to': "o_mode op \<in> set TO_REQUIRED_MODES \<Longrightarrow> trim (o_to op') \<noteq> []"
    using r t1 table_facts(2) [of "o_mode op"] tp by (auto simp: meta_def alias_text_def)
  have ok: "o_mode op \<in> set VALUE_REQUIRED_MODES \<Longrightarrow> text_ok num (o_value_text op) \<and> o_value_text op' = toValueText num (parseLooseValue (o_value_text op))"
    using table_facts(3) [of "o_mode op"] assms(2) r by (auto simp: op_text_ok_def meta_def)
  have val': "o_mode op \<in> set VALUE_REQUIRED_MODES \<Longrightarrow> trim (o_value_text op') \<noteq> []"
    using ok v1 text_stable(2) by simp
  have re': "o_mode op = lit ''return_error'' \<Longrightarrow> return_error_check num (trim (o_value_text op'))"
    using re ok table_facts(5) v1 text_stable(5) [of num "o_value_text op"] by (simp add: return_error_check_def)
  have ph': "o_mode op = lit ''pass_headers'' \<Longrightarrow> \<exists>h hs. parsePassHeaderNames num (parseLooseValue (o_value_text op')) = Some (h # hs)"
    using ph ok table_facts(7) text_stable(1) [of num "o_value_text op"] by simp
  show "validate_operation num line op' = None"
    unfolding validate_operation_def Let_def mode(2) unfolding mode(1) meta_def [symmetric]
    using path' from' to' val' re' ph' table_facts(5-7) by (auto simp: parseLooseValue_trim)
  show "\<not> isOperationBlank op'"
    using path' table_facts(4) r by (auto simp: isOperationBlank_def Let_def meta_def mode)
qed

subsection \<open>Saving and loading\<close>

lemma cond_payloads_json:
  assumes "list_all (cond_text_ok num) (o_conditions op)"
  shows "list_all (\<lambda>p. json_ok num p \<and> json_view p = Some p) (cond_payloads op)"
proof -
  have "json_ok num p \<and> json_view p = Some p" if "c \<in> set (o_conditions op)" "buildConditionPayload c = Some p" for c p
    using condition_reload(2,3) [OF that(2), of num] assms that(1) by (auto simp: list_all_iff)
  then show ?thesis by (auto simp: cond_payloads_def list_all_iff List.map_filter_def)
qed

lemma ball_opt_key [simp]: "(\<forall>x \<in> set (opt_key b k v). P x) \<longleftrightarrow> (b \<longrightarrow> P (lit k, v))"
  by (simp add: opt_key_def)

lemma view_opt_key:
  "(b \<Longrightarrow> json_view v = Some v) \<Longrightarrow>
   concat (map (\<lambda>(k, v). case json_view v of None \<Rightarrow> [] | Some x \<Rightarrow> [(k, x)]) (opt_key b k v)) = opt_key b k v"
  by (simp add: opt_key_def)

lemma payload_json:
  assumes "op_text_ok num op"
  shows "json_ok num (operation_payload op)" and "json_view (operation_payload op) = Some (operation_payload op)"
proof -
  have c: "list_all (\<lambda>p. json_ok num p \<and> json_view p = Some p) (cond_payloads op)"
    using assms by (simp add: op_text_ok_def cond_payloads_json)
  have ne: "o_mode op \<noteq> []" using assms modes_not_Nil(2) by (auto simp: op_text_ok_def)
  then have m: "or_str (o_mode op) (lit ''set'') = o_mode op" by (simp add: or_str_def)
  have v: "m_value (meta_of (o_mode op)) \<Longrightarrow> text_ok num (o_value_text op)" using assms by (simp add: op_text_ok_def)
  show "json_ok num (operation_payload op)"
    unfolding operation_payload_eq m
    using c v text_stable(3)
    by (simp add: distinct_opt_keys keys_opt_key image_Un ball_Un list_all_iff del: map_append)
  have arr: "map (\<lambda>v. coalesce (json_view v) Null) (cond_payloads op) = cond_payloads op"
    using c by (intro map_idI) (auto simp: list_all_iff coalesce_def)
  show "json_view (operation_payload op) = Some (operation_payload op)"
    unfolding operation_payload_eq m
    using text_stable(4) [OF v] by (simp add: view_opt_key arr)
qed

lemma operations_reload:
  assumes "list_all (op_text_ok num) ops" and "upper (lit ''AND'') = lit ''AND''" and "upper (lit ''OR'') = lit ''OR''"
  shows "\<exists>ops' seed'. map_seed (normalizeOperation num upper clock) seed (map operation_payload ops) = (Some ops', seed')
    \<and> list_all2 (reloaded num) ops ops'"
  using assms(1)
proof (induction ops arbitrary: seed)
  case (Cons op ops)
  obtain op' seed' where op': "normalizeOperation num upper clock seed (operation_payload op) = (Some op', seed')" "reloaded num op op'"
    using operation_reload [of num op upper clock seed] assms(2,3) Cons.prems by auto
  obtain ops' seed'' where "map_seed (normalizeOperation num upper clock) seed' (map operation_payload ops) = (Some ops', seed'')"
    "list_all2 (reloaded num) ops ops'"
    using Cons.IH [of seed'] Cons.prems by auto
  then show ?case using op' by simp
qed simp

lemma reloaded_list:
  assumes "list_all2 (reloaded num) ops ops'" and "list_all (op_text_ok num) ops" and "validate_from num i ops = None"
  shows "map operation_payload ops' = map operation_payload ops" and "validate_from num i ops' = None"
    and "filter (\<lambda>op. \<not> isOperationBlank op) ops' = ops'"
  using assms
proof (induction arbitrary: i rule: list_all2_induct)
  case (Cons op ops op' ops')
  {
    case 1
    then show ?case using Cons reloaded_payload by (simp split: option.splits)
  next
    case 2
    then show ?case using Cons reloaded_valid(1) [of num op op' "i + 1"] by (auto split: option.splits)
  next
    case 3
    then show ?case using Cons reloaded_valid(2) [of num op op' "i + 1"] by (auto split: option.splits)
  }
qed simp_all

text \<open>
  C31. The texts that the override editor saves in its operations mode. Take operations with modes of the
  menus, in whose value texts no quoted JSON string is typed (a text without quotes, a number, an object
  and so on are) and whose numbers are read back as they are printed (so no -0). Reopening the editor on
  the text that was saved for them shows operations and no error and keeps the text, and saving again gives
  the same text: nothing that the valid operations hold is lost. Texts of the other two modes are saved as
  they were typed and are not part of this claim; for a quoted string it does not hold.
\<close>

theorem override_text_roundtrip:
  assumes "buildOperationsJson num ops True = Inr s" and "s \<noteq> []" and "list_all (op_text_ok num) ops"
    and "upper (lit ''AND'') = lit ''AND''" and "upper (lit ''OR'') = lit ''OR''"
  shows "\<exists>st seed1. parseInitialState num upper clock seed s = (Some st, seed1)
    \<and> editMode st = Visual_mode \<and> visualMode st = Operations_mode \<and> jsonText st = s \<and> jsonError st = []
    \<and> buildOperationsJson num (operations st) True = Inr s"
proof -
  define fs where "fs = filter (\<lambda>op. \<not> isOperationBlank op) ops"
  define v where "v = JObj [(lit ''operations'', JArr (map operation_payload fs))]"
  have ne: "fs \<noteq> []" and valid: "validate_from num 0 fs = None" and s: "s = pretty num v"
    using assms(1,2) by (auto simp: buildOperationsJson_def fs_def v_def validateOperations_def Let_def split: if_splits option.splits)
  have ok: "list_all (op_text_ok num) fs" using assms(3) by (auto simp: fs_def list_all_iff)
  obtain t where t: "json_stringify num [32, 32] v = Some t" "t \<noteq> []" "trim t = t"
    using stringify_trim [of v num "[32, 32]"] by (auto simp: v_def)
  have "json_ok num v" "json_view v = Some v"
    using ok payload_json by (auto simp: v_def list_all_iff coalesce_def)
  then have parse: "json_parse t = Some v" using json_parse_stringify [of "[32, 32]" num v t] t(1) by (simp add: is_json_ws_def)
  have st: "s = t" using s t(1) by (simp add: pretty_def coalesce_def)
  obtain ops' seed' where l: "map_seed (normalizeOperation num upper clock) seed (map operation_payload fs) = (Some ops', seed')"
    and r: "list_all2 (reloaded num) fs ops'"
    using operations_reload [OF ok assms(4,5)] by blast
  note re = reloaded_list [OF r ok valid]
  have "ops' \<noteq> []" using r ne by auto
  then have "buildOperationsJson num ops' True = Inr s"
    using re by (simp add: buildOperationsJson_def validateOperations_def s v_def)
  moreover have "parseInitialState num upper clock seed s = (Some \<lparr>editMode = Visual_mode, visualMode = Operations_mode,
      legacyValue = [], operations = ops', jsonText = s, jsonError = []\<rparr>, seed')"
    using t parse st ne l s by (simp add: parseInitialState_def load_operations_def v_def Let_def)
  ultimately show ?thesis by simp
qed

theorem override_text_roundtrip_witness:
  "\<exists>s st seed1. buildOperationsJson (\<lambda>_. []) [sample_operation (lit ''a'')] True = Inr s
    \<and> parseInitialState (\<lambda>_. []) (\<lambda>s. s) (\<lambda>_. 7) 3 s = (Some st, seed1)
    \<and> buildOperationsJson (\<lambda>_. []) (operations st) True = Inr s"
proof -
  let ?num = "\<lambda>_. []" and ?ops = "[sample_operation (lit ''a'')]"
  have "case buildOperationsJson ?num ?ops True of Inr s \<Rightarrow> s \<noteq> [] | _ \<Rightarrow> False" by code_simp
  then obtain s where s: "buildOperationsJson ?num ?ops True = Inr s" "s \<noteq> []" by (auto split: sum.splits)
  have "json_parse (trim (lit ''[null]'')) = Some (JArr [Null])" "json_parse (trim (lit ''gpt'')) = None"
    "m_value (meta_of (lit ''set''))" "lit ''set'' \<in> set OPERATION_MODE_VALUES" "lit ''prefix'' \<in> set CONDITION_MODE_VALUES" by code_simp+
  then have "list_all (op_text_ok ?num) ?ops"
    by (simp add: sample_operation_def op_text_ok_def cond_text_ok_def text_ok_def coalesce_def)
  from override_text_roundtrip [OF s this, of "\<lambda>s. s" "\<lambda>_. 7" 3] s(1) show ?thesis by auto
qed

end
