(* ===== verification/Channel_Form.thy ===== *)
theory Channel_Form
  imports Advanced_Custom
begin

section \<open>Channel forms (\<^verbatim>\<open>features/channels/lib/channel-form.ts\<close>)\<close>

text \<open>
  The form that creates and edits a channel: its checks, the values it starts from, loading a channel
  into it and the payloads it is saved as. Two texts of a channel, \<^verbatim>\<open>setting\<close> and \<^verbatim>\<open>settings\<close>, are JSON
  objects whose properties are fields of the form; a field that is read from them without a check is a
  value of unknown type. A function whose code may throw returns an option, \<open>None\<close> standing for the
  exception. Arguments: the URL parser of the platform, the lower case of a text (\<open>lower\<close>) and the
  printing of numbers (\<open>num\<close>).
\<close>

subsection \<open>Checks of single fields\<close>

definition SUPPORTED_PROXY_PROTOCOLS :: "jstring list" where
  "SUPPORTED_PROXY_PROTOCOLS = [lit ''http:'', lit ''https:'', lit ''socks5:'', lit ''socks5h:'']"

text \<open>\<open>parse_url\<close> gives the protocol, the host name and the port of a URL.\<close>

definition isOptionalProxyURL :: "(jstring \<Rightarrow> (jstring \<times> jstring \<times> jstring) option) \<Rightarrow> jstring option \<Rightarrow> bool" where
  "isOptionalProxyURL parse_url value =
     (let trimmedValue = trim (coalesce value []) in
      if trimmedValue = [] then True
      else case index_of trimmedValue (lit ''://'') of
        None \<Rightarrow> False
      | Some i \<Rightarrow>
          if i = 0 then False
          else
            let authorityAndSuffix = drop (i + 3) trimmedValue;
                suffix = dropWhile (\<lambda>c. c \<notin> {47, 63, 35}) authorityAndSuffix
            in if suffix \<noteq> [] \<and> suffix \<noteq> [47] then False
               else case parse_url trimmedValue of
                 None \<Rightarrow> False
               | Some (protocol, hostname, port) \<Rightarrow>
                   protocol \<in> set SUPPORTED_PROXY_PROTOCOLS \<and> hostname \<noteq> [] \<and> port \<noteq> lit ''0'')"

definition HTTP_PROTOCOL_AUTO :: jstring where
  "HTTP_PROTOCOL_AUTO = lit ''auto''"

definition HTTP_PROTOCOL_HTTP1 :: jstring where
  "HTTP_PROTOCOL_HTTP1 = lit ''http1''"

definition MAX_HTTP2_CONNECTION_SHARDS :: rat where
  "MAX_HTTP2_CONNECTION_SHARDS = 8"

definition normalizeHttpProtocol :: "(rat \<Rightarrow> jstring) \<Rightarrow> (jstring \<Rightarrow> jstring) \<Rightarrow> jsval \<Rightarrow> jstring option" where
  "normalizeHttpProtocol num lower value =
     map_option (\<lambda>s. if lower (trim s) = HTTP_PROTOCOL_HTTP1 then HTTP_PROTOCOL_HTTP1 else HTTP_PROTOCOL_AUTO)
       (to_string num (or_val value (JStr [])))"

definition normalizeHttp2ConnectionShards :: "(rat \<Rightarrow> jstring) \<Rightarrow> jsval \<Rightarrow> jsval option" where
  "normalizeHttp2ConnectionShards num value =
     (if is_nullish value \<or> value = JNum NaN \<or> value = JNum (Fin 0) \<or> value = JNum NegZero then Some (JNum (Fin 1))
      else case to_number num value of
        None \<Rightarrow> None
      | Some n \<Rightarrow>
          if num_less n (Fin 1) then Some (JNum (Fin 1))
          else if num_less (Fin MAX_HTTP2_CONNECTION_SHARDS) n then Some (JNum (Fin MAX_HTTP2_CONNECTION_SHARDS))
          else Some value)"

definition parseOptionalJson :: "jstring option \<Rightarrow> jsval option" where
  "parseOptionalJson value =
     (case value of
        None \<Rightarrow> Some Undefined
      | Some s \<Rightarrow> if trim s = [] then Some Undefined else json_parse s)"

definition isJsonObjectValue :: "jsval \<Rightarrow> bool" where
  "isJsonObjectValue value = is_object value"

definition isOptionalJsonObject :: "jstring option \<Rightarrow> bool" where
  "isOptionalJsonObject value =
     (case parseOptionalJson value of
        None \<Rightarrow> False
      | Some parsed \<Rightarrow> parsed = Undefined \<or> isJsonObjectValue parsed)"

definition isOptionalModelMapping :: "jstring option \<Rightarrow> bool" where
  "isOptionalModelMapping value =
     (case parseOptionalJson value of
        None \<Rightarrow> False
      | Some Undefined \<Rightarrow> True
      | Some (JObj ps) \<Rightarrow> list_all (\<lambda>(k, item). as_str item \<noteq> None) ps
      | Some _ \<Rightarrow> False)"

definition status_code :: "jnum \<Rightarrow> bool" where
  "status_code n \<longleftrightarrow> num_isInteger n \<and> num_less_eq (Fin 100) n \<and> num_less_eq n (Fin 599)"

definition isOptionalStatusCodeMapping :: "(rat \<Rightarrow> jstring) \<Rightarrow> jstring option \<Rightarrow> bool" where
  "isOptionalStatusCodeMapping num value =
     (case parseOptionalJson value of
        None \<Rightarrow> False
      | Some Undefined \<Rightarrow> True
      | Some (JObj ps) \<Rightarrow>
          list_all (\<lambda>(from, to). case to_number num to of
              None \<Rightarrow> False
            | Some toCode \<Rightarrow> status_code (string_num from) \<and> status_code toCode) ps
      | Some _ \<Rightarrow> False)"

definition isCodexCredential :: "jstring option \<Rightarrow> bool" where
  "isCodexCredential value =
     (case parseOptionalJson value of
        None \<Rightarrow> False
      | Some Undefined \<Rightarrow> True
      | Some parsed \<Rightarrow>
          isJsonObjectValue parsed
          \<and> (case as_str (fld parsed ''access_token'') of None \<Rightarrow> False | Some s \<Rightarrow> trim s \<noteq> [])
          \<and> (case as_str (fld parsed ''account_id'') of None \<Rightarrow> False | Some s \<Rightarrow> trim s \<noteq> []))"

definition isVertexJsonKey :: "jstring option \<Rightarrow> bool" where
  "isVertexJsonKey value =
     (case parseOptionalJson value of
        None \<Rightarrow> False
      | Some Undefined \<Rightarrow> True
      | Some (JArr items) \<Rightarrow> list_all isJsonObjectValue items
      | Some parsed \<Rightarrow> isJsonObjectValue parsed)"

subsection \<open>Form values\<close>

datatype multi_key_mode = Single_key | Batch_keys | Multi_to_single

text \<open>
  The fields of the form. \<open>None\<close> and \<open>Undefined\<close> are fields that are missing; for a flag that the code
  only compares with \<^verbatim>\<open>true\<close>, a missing one is \<open>False\<close>.
\<close>

record channel_form =
  cf_name :: jstring
  cf_type :: nat
  cf_base_url :: "jstring option"
  cf_key :: jstring
  cf_openai_organization :: "jstring option"
  cf_models :: jstring
  cf_group :: "jstring list"
  cf_model_mapping :: "jstring option"
  cf_priority :: "rat option"
  cf_weight :: "rat option"
  cf_test_model :: "jstring option"
  cf_auto_ban :: "rat option"
  cf_status :: rat
  cf_status_code_mapping :: "jstring option"
  cf_tag :: "jstring option"
  cf_remark :: "jstring option"
  cf_setting :: "jstring option"
  cf_param_override :: "jstring option"
  cf_header_override :: "jstring option"
  cf_settings :: "jstring option"
  cf_advanced_custom :: "jstring option"
  cf_other :: "jstring option"
  cf_multi_key_mode :: "multi_key_mode option"
  cf_multi_key_type :: "jstring option"
  cf_batch_add_set_key_prefix_2_name :: "bool option"
  cf_key_mode :: "jstring option"
  cf_force_format :: jsval
  cf_thinking_to_content :: jsval
  cf_proxy :: jsval
  cf_http_protocol :: jsval
  cf_http2_connection_shards :: jsval
  cf_pass_through_body_enabled :: jsval
  cf_system_prompt :: jsval
  cf_system_prompt_override :: jsval
  cf_is_enterprise_account :: bool
  cf_vertex_key_type :: jsval
  cf_aws_key_type :: jsval
  cf_azure_responses_version :: jsval
  cf_allow_service_tier :: bool
  cf_disable_store :: bool
  cf_allow_safety_identifier :: bool
  cf_allow_include_obfuscation :: bool
  cf_allow_inference_geo :: bool
  cf_allow_speed :: bool
  cf_claude_beta_query :: bool
  cf_disable_task_polling_sleep :: bool
  cf_upstream_model_update_check_enabled :: bool
  cf_upstream_model_update_auto_sync_enabled :: bool
  cf_upstream_model_update_ignored_models :: "jstring option"

definition CHANNEL_FORM_DEFAULT_VALUES :: channel_form where
  "CHANNEL_FORM_DEFAULT_VALUES =
     \<lparr>cf_name = [], cf_type = 1, cf_base_url = Some [], cf_key = [], cf_openai_organization = Some [], cf_models = [],
      cf_group = [lit ''default''], cf_model_mapping = Some [], cf_priority = Some 0, cf_weight = Some 0,
      cf_test_model = Some [], cf_auto_ban = Some 1, cf_status = 1, cf_status_code_mapping = Some [], cf_tag = Some [],
      cf_remark = Some [], cf_setting = Some [], cf_param_override = Some [], cf_header_override = Some [],
      cf_settings = Some (lit ''{}''), cf_advanced_custom = Some [], cf_other = Some [],
      cf_multi_key_mode = Some Single_key, cf_multi_key_type = Some (lit ''random''),
      cf_batch_add_set_key_prefix_2_name = Some False, cf_key_mode = Some (lit ''append''),
      cf_force_format = JBool False, cf_thinking_to_content = JBool False, cf_proxy = JStr [],
      cf_http_protocol = JStr HTTP_PROTOCOL_AUTO, cf_http2_connection_shards = JNum (Fin 1),
      cf_pass_through_body_enabled = JBool False, cf_system_prompt = JStr [], cf_system_prompt_override = JBool False,
      cf_is_enterprise_account = False, cf_vertex_key_type = JStr (lit ''json''), cf_aws_key_type = JStr (lit ''ak_sk''),
      cf_azure_responses_version = JStr [], cf_allow_service_tier = False, cf_disable_store = False,
      cf_allow_safety_identifier = False, cf_allow_include_obfuscation = False, cf_allow_inference_geo = False,
      cf_allow_speed = False, cf_claude_beta_query = False, cf_disable_task_polling_sleep = False,
      cf_upstream_model_update_check_enabled = False, cf_upstream_model_update_auto_sync_enabled = False,
      cf_upstream_model_update_ignored_models = Some []\<rparr>"

subsection \<open>The schema\<close>

text \<open>An issue: the field and the message; \<open>None\<close> for a message of the schema library.\<close>

type_synonym form_issue = "jstring \<times> jstring option"

definition required_issue :: "string \<Rightarrow> string \<Rightarrow> form_issue" where
  "required_issue path message = (lit path, Some (lit message))"

text \<open>Optional fields of the declared types\<close>

definition opt_bool :: "jsval \<Rightarrow> bool" where
  "opt_bool v \<longleftrightarrow> v = Undefined \<or> as_bool v \<noteq> None"

definition opt_string :: "jsval \<Rightarrow> bool" where
  "opt_string v \<longleftrightarrow> v = Undefined \<or> as_str v \<noteq> None"

definition opt_enum :: "string list \<Rightarrow> jsval \<Rightarrow> bool" where
  "opt_enum xs v \<longleftrightarrow> v = Undefined \<or> (case as_str v of None \<Rightarrow> False | Some s \<Rightarrow> s \<in> set (map lit xs))"

definition opt_integer :: "jsval \<Rightarrow> bool" where
  "opt_integer v \<longleftrightarrow> v = Undefined \<or> (case as_num v of None \<Rightarrow> False | Some n \<Rightarrow> num_isInteger n)"

definition issue_unless :: "bool \<Rightarrow> form_issue \<Rightarrow> form_issue list" where
  "issue_unless b i = (if b then [] else [i])"

definition field_issues ::
  "(jstring \<Rightarrow> (jstring \<times> jstring \<times> jstring) option) \<Rightarrow> (rat \<Rightarrow> jstring) \<Rightarrow> channel_form \<Rightarrow> form_issue list" where
  "field_issues parse_url num f =
     concat
      [issue_unless (cf_name f \<noteq> []) (required_issue ''name'' ''Channel name is required''),
       issue_unless (cf_models f \<noteq> []) (required_issue ''models'' ''Models are required''),
       issue_unless (cf_group f \<noteq> []) (required_issue ''group'' ''Group is required''),
       issue_unless (isOptionalModelMapping (cf_model_mapping f))
         (required_issue ''model_mapping'' ''Model mapping must be a JSON object with string values''),
       issue_unless (isOptionalStatusCodeMapping num (cf_status_code_mapping f))
         (required_issue ''status_code_mapping'' ''Status code mapping must use valid HTTP status codes''),
       issue_unless (length (coalesce (cf_remark f) []) \<le> 255) (required_issue ''remark'' ''Remark must be less than 255 characters''),
       issue_unless (isOptionalJsonObject (cf_setting f)) (required_issue ''setting'' ''Invalid JSON format''),
       issue_unless (isOptionalJsonObject (cf_param_override f)) (required_issue ''param_override'' ''Invalid JSON format''),
       issue_unless (isOptionalJsonObject (cf_header_override f)) (required_issue ''header_override'' ''Invalid JSON format''),
       issue_unless (isOptionalJsonObject (cf_settings f)) (required_issue ''settings'' ''Invalid JSON format''),
       issue_unless (cf_multi_key_type f \<in> insert None (Some ` {lit ''random'', lit ''polling''})) (lit ''multi_key_type'', None),
       issue_unless (cf_key_mode f \<in> insert None (Some ` {lit ''append'', lit ''replace''})) (lit ''key_mode'', None),
       issue_unless (opt_bool (cf_force_format f)) (lit ''force_format'', None),
       issue_unless (opt_bool (cf_thinking_to_content f)) (lit ''thinking_to_content'', None),
       issue_unless (opt_string (cf_proxy f)) (lit ''proxy'', None),
       issue_unless (isOptionalProxyURL parse_url (as_str (cf_proxy f)))
         (required_issue ''proxy'' ''Proxy address must use HTTP, HTTPS, SOCKS5, or SOCKS5H and include a valid host''),
       issue_unless (opt_enum [''auto'', ''http1''] (cf_http_protocol f)) (lit ''http_protocol'', None),
       issue_unless (opt_integer (cf_http2_connection_shards f)) (lit ''http2_connection_shards'', None),
       issue_unless (opt_bool (cf_pass_through_body_enabled f)) (lit ''pass_through_body_enabled'', None),
       issue_unless (opt_string (cf_system_prompt f)) (lit ''system_prompt'', None),
       issue_unless (opt_bool (cf_system_prompt_override f)) (lit ''system_prompt_override'', None),
       issue_unless (opt_enum [''json'', ''api_key''] (cf_vertex_key_type f)) (lit ''vertex_key_type'', None),
       issue_unless (opt_enum [''ak_sk'', ''api_key''] (cf_aws_key_type f)) (lit ''aws_key_type'', None),
       issue_unless (opt_string (cf_azure_responses_version f)) (lit ''azure_responses_version'', None)]"

text \<open>\<^verbatim>\<open>!value?.trim()\<close>\<close>

definition blank :: "jstring option \<Rightarrow> bool" where
  "blank v \<longleftrightarrow> trim (coalesce v []) = []"

definition advanced_issues ::
  "(jstring \<Rightarrow> (jstring \<times> jstring) option) \<Rightarrow> channel_form \<Rightarrow> form_issue list option" where
  "advanced_issues parse_url f =
     (let config = parseAdvancedCustomConfig (cf_advanced_custom f) in
      case (validateAdvancedCustomConfig parse_url config, advancedCustomConfigUsesRelativeUpstreamPath config,
            if cf_upstream_model_update_check_enabled f then hasValidAdvancedCustomModelListRoute parse_url config else Some True) of
        (Raised, _, _) \<Rightarrow> None
      | (_, None, _) \<Rightarrow> None
      | (_, _, None) \<Rightarrow> None
      | (verdict, Some relative, Some model_list) \<Rightarrow>
          Some ((case verdict of Rejected _ message \<Rightarrow> [(lit ''advanced_custom'', Some message)] | _ \<Rightarrow> [])
            @ issue_unless (\<not> (relative \<and> blank (cf_base_url f)))
                (required_issue ''base_url'' ''Base URL is required when an advanced route uses an upstream path'')
            @ issue_unless model_list
                (required_issue ''upstream_model_update_check_enabled''
                   ''OpenAI Models route is required to enable upstream model checks'')))"

definition codex_issues :: "channel_form \<Rightarrow> form_issue list" where
  "codex_issues f =
     issue_unless (cf_multi_key_mode f \<in> {None, Some Single_key})
       (required_issue ''multi_key_mode'' ''Codex channels do not support batch creation'')
     @ issue_unless (trim (cf_key f) = [] \<or> isCodexCredential (Some (cf_key f)))
       (required_issue ''key'' ''Codex credential must be a JSON object with access_token and account_id'')"

definition transport_issues :: "(rat \<Rightarrow> jstring) \<Rightarrow> (jstring \<Rightarrow> jstring) \<Rightarrow> channel_form \<Rightarrow> form_issue list option" where
  "transport_issues num lower f =
     (let shards = (if is_nullish (cf_http2_connection_shards f) then JNum (Fin 1) else cf_http2_connection_shards f) in
      case (normalizeHttpProtocol num lower (cf_http_protocol f), to_number num shards) of
        (Some protocol, Some n) \<Rightarrow>
          Some (issue_unless (\<not> (num_less n (Fin 1) \<or> num_less (Fin MAX_HTTP2_CONNECTION_SHARDS) n))
                 (required_issue ''http2_connection_shards'' ''HTTP/2 connection shards must be between 1 and 8'')
            @ issue_unless (\<not> (protocol = HTTP_PROTOCOL_HTTP1 \<and> num_less (Fin 1) n))
                 (required_issue ''http2_connection_shards'' ''HTTP/2 connection shards must be 1 when HTTP/1.1 is selected''))
      | _ \<Rightarrow> None)"

definition CHANNEL_TYPE_NEW_API :: nat where
  "CHANNEL_TYPE_NEW_API = 60"

text \<open>\<^verbatim>\<open>superRefine\<close>: the conditions between fields.\<close>

definition refine_issues ::
  "(jstring \<Rightarrow> (jstring \<times> jstring) option) \<Rightarrow> (rat \<Rightarrow> jstring) \<Rightarrow> (jstring \<Rightarrow> jstring) \<Rightarrow> channel_form \<Rightarrow> form_issue list option" where
  "refine_issues parse_url num lower f =
     (case (if cf_type f = CHANNEL_TYPE_ADVANCED_CUSTOM then advanced_issues parse_url f else Some [],
            transport_issues num lower f) of
        (Some advanced, Some transport) \<Rightarrow>
          Some (issue_unless (\<not> (cf_type f \<in> {3, 8, 36, 45, CHANNEL_TYPE_NEW_API} \<and> blank (cf_base_url f)))
                 (required_issue ''base_url'' ''Base URL is required for this channel type'')
            @ advanced
            @ issue_unless (\<not> (cf_type f \<in> {3, 18, 21, 39, 41, 49} \<and> blank (cf_other f)))
                 (required_issue ''other'' ''This channel type requires additional configuration'')
            @ (if cf_type f = 57 then codex_issues f else [])
            @ issue_unless (\<not> (cf_type f = 41 \<and> cf_vertex_key_type f = JStr (lit ''json'') \<and> trim (cf_key f) \<noteq> []
                 \<and> \<not> isVertexJsonKey (Some (cf_key f))))
                 (required_issue ''key'' ''Vertex AI service account key must be valid JSON'')
            @ issue_unless (\<not> (cf_type f = 41 \<and> cf_vertex_key_type f = JStr (lit ''api_key'')
                 \<and> cf_multi_key_mode f \<notin> {None, Some Single_key}))
                 (required_issue ''multi_key_mode'' ''Vertex AI API Key mode does not support batch creation'')
            @ transport)
      | _ \<Rightarrow> None)"

text \<open>The schema accepts a form when neither kind of check reports an issue.\<close>

definition channelFormSchema ::
  "(jstring \<Rightarrow> (jstring \<times> jstring \<times> jstring) option) \<Rightarrow> (jstring \<Rightarrow> (jstring \<times> jstring) option) \<Rightarrow> (rat \<Rightarrow> jstring)
    \<Rightarrow> (jstring \<Rightarrow> jstring) \<Rightarrow> channel_form \<Rightarrow> bool" where
  "channelFormSchema parse_proxy parse_url num lower f \<longleftrightarrow>
     field_issues parse_proxy num f = [] \<and> refine_issues parse_url num lower f = Some []"

subsection \<open>Groups\<close>

definition parseGroups :: "jstring \<Rightarrow> jstring list" where
  "parseGroups groups = (if groups = [] then [] else filter (\<lambda>g. g \<noteq> []) (map trim (split_on 44 groups)))"

definition formatGroups :: "jstring list \<Rightarrow> jstring" where
  "formatGroups groups = join [44] groups"

subsection \<open>Loading a channel\<close>

record channel =
  ch_id :: nat
  ch_type :: nat
  ch_name :: jstring
  ch_status :: rat
  ch_openai_organization :: "jstring option"
  ch_test_model :: "jstring option"
  ch_weight :: "rat option"
  ch_priority :: "rat option"
  ch_base_url :: "jstring option"
  ch_other :: jstring
  ch_models :: jstring
  ch_group :: jstring
  ch_model_mapping :: "jstring option"
  ch_status_code_mapping :: "jstring option"
  ch_auto_ban :: "rat option"
  ch_tag :: "jstring option"
  ch_setting :: "jstring option"
  ch_param_override :: "jstring option"
  ch_header_override :: "jstring option"
  ch_remark :: jstring
  ch_settings :: jstring
  ch_multi_key_mode :: jstring

record extra_settings =
  es_force_format :: jsval
  es_thinking_to_content :: jsval
  es_proxy :: jsval
  es_http_protocol :: jstring
  es_http2_connection_shards :: jsval
  es_pass_through_body_enabled :: jsval
  es_system_prompt :: jsval
  es_system_prompt_override :: jsval

definition default_extra :: extra_settings where
  "default_extra =
     \<lparr>es_force_format = JBool False, es_thinking_to_content = JBool False, es_proxy = JStr [],
      es_http_protocol = HTTP_PROTOCOL_AUTO, es_http2_connection_shards = JNum (Fin 1),
      es_pass_through_body_enabled = JBool False, es_system_prompt = JStr [], es_system_prompt_override = JBool False\<rparr>"

text \<open>The object that is assigned at the end of the \<^verbatim>\<open>try\<close> block; \<open>None\<close> when the block throws before.\<close>

definition parsed_extra :: "(rat \<Rightarrow> jstring) \<Rightarrow> (jstring \<Rightarrow> jstring) \<Rightarrow> jsval \<Rightarrow> extra_settings option" where
  "parsed_extra num lower parsed =
     (if is_nullish parsed then None
      else case (normalizeHttpProtocol num lower (fld parsed ''http_protocol''),
                 normalizeHttp2ConnectionShards num (fld parsed ''http2_connection_shards'')) of
        (Some protocol, Some shards) \<Rightarrow>
          Some \<lparr>es_force_format = or_val (fld parsed ''force_format'') (JBool False),
            es_thinking_to_content = or_val (fld parsed ''thinking_to_content'') (JBool False),
            es_proxy = or_val (fld parsed ''proxy'') (JStr []),
            es_http_protocol = protocol,
            es_http2_connection_shards = (if protocol = HTTP_PROTOCOL_HTTP1 then JNum (Fin 1) else shards),
            es_pass_through_body_enabled = or_val (fld parsed ''pass_through_body_enabled'') (JBool False),
            es_system_prompt = or_val (fld parsed ''system_prompt'') (JStr []),
            es_system_prompt_override = or_val (fld parsed ''system_prompt_override'') (JBool False)\<rparr>
      | _ \<Rightarrow> None)"

definition load_extra :: "(rat \<Rightarrow> jstring) \<Rightarrow> (jstring \<Rightarrow> jstring) \<Rightarrow> jstring option \<Rightarrow> extra_settings" where
  "load_extra num lower setting =
     (let s = coalesce setting [] in
      if s = [] then default_extra
      else case json_parse s of
        None \<Rightarrow> default_extra
      | Some parsed \<Rightarrow> coalesce (parsed_extra num lower parsed) default_extra)"

record type_settings =
  ts_vertexKeyType :: jsval
  ts_azureResponsesVersion :: jsval
  ts_isEnterpriseAccount :: bool
  ts_awsKeyType :: jsval
  ts_allowServiceTier :: bool
  ts_disableStore :: bool
  ts_allowSafetyIdentifier :: bool
  ts_allowIncludeObfuscation :: bool
  ts_allowInferenceGeo :: bool
  ts_allowSpeed :: bool
  ts_claudeBetaQuery :: bool
  ts_disableTaskPollingSleep :: bool
  ts_upstreamModelUpdateCheckEnabled :: bool
  ts_upstreamModelUpdateAutoSyncEnabled :: bool
  ts_upstreamModelUpdateIgnoredModels :: jstring
  ts_advancedCustom :: jstring

definition default_types :: type_settings where
  "default_types =
     \<lparr>ts_vertexKeyType = JStr (lit ''json''), ts_azureResponsesVersion = JStr [], ts_isEnterpriseAccount = False,
      ts_awsKeyType = JStr (lit ''ak_sk''), ts_allowServiceTier = False, ts_disableStore = False,
      ts_allowSafetyIdentifier = False, ts_allowIncludeObfuscation = False, ts_allowInferenceGeo = False,
      ts_allowSpeed = False, ts_claudeBetaQuery = False, ts_disableTaskPollingSleep = False,
      ts_upstreamModelUpdateCheckEnabled = False, ts_upstreamModelUpdateAutoSyncEnabled = False,
      ts_upstreamModelUpdateIgnoredModels = [], ts_advancedCustom = []\<rparr>"

text \<open>
  The assignments of the \<^verbatim>\<open>try\<close> block: what was assigned before an exception stays.
\<close>

definition parsed_types :: "(rat \<Rightarrow> jstring) \<Rightarrow> jsval \<Rightarrow> type_settings" where
  "parsed_types num parsed =
     (if is_nullish parsed then default_types
      else
        let ts = default_types
             \<lparr>ts_vertexKeyType := or_val (fld parsed ''vertex_key_type'') (JStr (lit ''json'')),
              ts_azureResponsesVersion := or_val (fld parsed ''azure_responses_version'') (JStr []),
              ts_isEnterpriseAccount := (fld parsed ''openrouter_enterprise'' = JBool True),
              ts_awsKeyType := or_val (fld parsed ''aws_key_type'') (JStr (lit ''ak_sk'')),
              ts_allowServiceTier := (fld parsed ''allow_service_tier'' = JBool True),
              ts_disableStore := (fld parsed ''disable_store'' = JBool True),
              ts_allowSafetyIdentifier := (fld parsed ''allow_safety_identifier'' = JBool True),
              ts_allowIncludeObfuscation := (fld parsed ''allow_include_obfuscation'' = JBool True),
              ts_allowInferenceGeo := (fld parsed ''allow_inference_geo'' = JBool True),
              ts_allowSpeed := (fld parsed ''allow_speed'' = JBool True),
              ts_claudeBetaQuery := (fld parsed ''claude_beta_query'' = JBool True),
              ts_disableTaskPollingSleep := (fld parsed ''disable_task_polling_sleep'' = JBool True),
              ts_upstreamModelUpdateCheckEnabled := (fld parsed ''upstream_model_update_check_enabled'' = JBool True),
              ts_upstreamModelUpdateAutoSyncEnabled := (fld parsed ''upstream_model_update_auto_sync_enabled'' = JBool True)\<rparr>
        in case (case fld parsed ''upstream_model_update_ignored_models'' of JArr vs \<Rightarrow> to_string num (JArr vs) | _ \<Rightarrow> Some []) of
             None \<Rightarrow> ts
           | Some ignored \<Rightarrow>
               let ts1 = ts\<lparr>ts_upstreamModelUpdateIgnoredModels := ignored\<rparr> in
               if truthy (fld parsed ''advanced_custom'') then
                 (case stringifyAdvancedCustomConfig num (fld parsed ''advanced_custom'') of
                    None \<Rightarrow> ts1
                  | Some t \<Rightarrow> ts1\<lparr>ts_advancedCustom := t\<rparr>)
               else ts1)"

definition load_types :: "(rat \<Rightarrow> jstring) \<Rightarrow> jstring \<Rightarrow> type_settings" where
  "load_types num settings =
     (if settings = [] then default_types
      else case json_parse settings of None \<Rightarrow> default_types | Some parsed \<Rightarrow> parsed_types num parsed)"

definition transformChannelToFormDefaults ::
  "(rat \<Rightarrow> jstring) \<Rightarrow> (jstring \<Rightarrow> jstring) \<Rightarrow> channel \<Rightarrow> channel_form" where
  "transformChannelToFormDefaults num lower c =
     (let es = load_extra num lower (ch_setting c); ts = load_types num (ch_settings c); txt_or = (\<lambda>v. Some (coalesce v [])) in
      \<lparr>cf_name = ch_name c, cf_type = ch_type c, cf_base_url = txt_or (ch_base_url c), cf_key = [],
       cf_openai_organization = txt_or (ch_openai_organization c), cf_models = ch_models c,
       cf_group = parseGroups (or_str (ch_group c) (lit ''default'')), cf_model_mapping = txt_or (ch_model_mapping c),
       cf_priority = Some (coalesce (ch_priority c) 0), cf_weight = Some (coalesce (ch_weight c) 0),
       cf_test_model = txt_or (ch_test_model c), cf_auto_ban = Some (coalesce (ch_auto_ban c) 1), cf_status = ch_status c,
       cf_status_code_mapping = txt_or (ch_status_code_mapping c), cf_tag = txt_or (ch_tag c), cf_remark = Some (ch_remark c),
       cf_setting = txt_or (ch_setting c), cf_param_override = txt_or (ch_param_override c),
       cf_header_override = txt_or (ch_header_override c), cf_settings = Some (or_str (ch_settings c) (lit ''{}'')),
       cf_advanced_custom = Some (ts_advancedCustom ts), cf_other = Some (ch_other c),
       cf_multi_key_mode = Some Single_key, cf_multi_key_type = Some (or_str (ch_multi_key_mode c) (lit ''random'')),
       cf_batch_add_set_key_prefix_2_name = Some False, cf_key_mode = Some (lit ''append''),
       cf_force_format = es_force_format es, cf_thinking_to_content = es_thinking_to_content es, cf_proxy = es_proxy es,
       cf_http_protocol = JStr (es_http_protocol es), cf_http2_connection_shards = es_http2_connection_shards es,
       cf_pass_through_body_enabled = es_pass_through_body_enabled es, cf_system_prompt = es_system_prompt es,
       cf_system_prompt_override = es_system_prompt_override es,
       cf_is_enterprise_account = ts_isEnterpriseAccount ts, cf_vertex_key_type = ts_vertexKeyType ts,
       cf_aws_key_type = ts_awsKeyType ts, cf_azure_responses_version = ts_azureResponsesVersion ts,
       cf_allow_service_tier = ts_allowServiceTier ts, cf_disable_store = ts_disableStore ts,
       cf_allow_safety_identifier = ts_allowSafetyIdentifier ts, cf_allow_include_obfuscation = ts_allowIncludeObfuscation ts,
       cf_allow_inference_geo = ts_allowInferenceGeo ts, cf_allow_speed = ts_allowSpeed ts,
       cf_claude_beta_query = ts_claudeBetaQuery ts, cf_disable_task_polling_sleep = ts_disableTaskPollingSleep ts,
       cf_upstream_model_update_check_enabled = ts_upstreamModelUpdateCheckEnabled ts,
       cf_upstream_model_update_auto_sync_enabled = ts_upstreamModelUpdateAutoSyncEnabled ts,
       cf_upstream_model_update_ignored_models = Some (ts_upstreamModelUpdateIgnoredModels ts)\<rparr>)"

subsection \<open>Saving\<close>

text \<open>\<^verbatim>\<open>formData.proxy?.trim() || ''\<close>\<close>

definition proxy_text :: "jsval \<Rightarrow> jstring option" where
  "proxy_text v = (if is_nullish v then Some [] else map_option trim (as_str v))"

definition buildSettingJSON :: "(rat \<Rightarrow> jstring) \<Rightarrow> (jstring \<Rightarrow> jstring) \<Rightarrow> channel_form \<Rightarrow> jstring option" where
  "buildSettingJSON num lower f =
     (case (proxy_text (cf_proxy f), normalizeHttpProtocol num lower (cf_http_protocol f)) of
        (Some proxy, Some protocol) \<Rightarrow>
          (case (if protocol = HTTP_PROTOCOL_HTTP1 then Some (JNum (Fin 1))
                 else normalizeHttp2ConnectionShards num (cf_http2_connection_shards f)) of
             None \<Rightarrow> None
           | Some shards \<Rightarrow>
               let settingObj =
                     [(lit ''force_format'', or_val (cf_force_format f) (JBool False)),
                      (lit ''thinking_to_content'', or_val (cf_thinking_to_content f) (JBool False)),
                      (lit ''proxy'', JStr proxy),
                      (lit ''pass_through_body_enabled'', or_val (cf_pass_through_body_enabled f) (JBool False)),
                      (lit ''system_prompt'', or_val (cf_system_prompt f) (JStr [])),
                      (lit ''system_prompt_override'', or_val (cf_system_prompt_override f) (JBool False))];
                   more = (case to_number num shards of None \<Rightarrow> False | Some n \<Rightarrow> num_less (Fin 1) n)
               in json_stringify num []
                    (JObj (if protocol = HTTP_PROTOCOL_HTTP1 then set_key ''http_protocol'' (JStr HTTP_PROTOCOL_HTTP1) settingObj
                           else if more then set_key ''http2_connection_shards'' shards settingObj
                           else settingObj)))
      | _ \<Rightarrow> None)"

definition MODEL_FETCHABLE_TYPES :: "nat list" where
  "MODEL_FETCHABLE_TYPES = [1, 4, 14, 17, 20, 23, 24, 25, 26, 27, 31, 34, 35, 40, 42, 43, 47, 48, 57, 58, 59, 60]"

text \<open>\<^verbatim>\<open>if (b) obj[k] = v; else if (k in obj) delete obj[k]\<close>\<close>

definition put_or_delete :: "bool \<Rightarrow> string \<Rightarrow> jsval \<Rightarrow> (jstring \<times> jsval) list \<Rightarrow> (jstring \<times> jsval) list" where
  "put_or_delete b k v ps = (if b then set_key k v ps else del_key k ps)"

definition ignored_models :: "channel_form \<Rightarrow> jstring list" where
  "ignored_models f =
     uniq (filter (\<lambda>m. m \<noteq> []) (map trim (split_on 44 (coalesce (cf_upstream_model_update_ignored_models f) []))))"

definition type_fields :: "channel_form \<Rightarrow> (jstring \<times> jsval) list \<Rightarrow> (jstring \<times> jsval) list" where
  "type_fields f ps0 =
     (let t = cf_type f;
          ps1 = put_or_delete (t = 41) ''vertex_key_type'' (or_val (cf_vertex_key_type f) (JStr (lit ''json''))) ps0;
          ps2 = put_or_delete (t = 3 \<and> truthy (cf_azure_responses_version f)) ''azure_responses_version'' (cf_azure_responses_version f) ps1;
          ps3 = put_or_delete (t = 20) ''openrouter_enterprise'' (JBool (cf_is_enterprise_account f)) ps2;
          ps4 = put_or_delete (t = 33) ''aws_key_type'' (or_val (cf_aws_key_type f) (JStr (lit ''ak_sk''))) ps3;
          ps5 = put_or_delete (t = 1 \<or> t = 14 \<or> t = 57) ''allow_service_tier'' (JBool (cf_allow_service_tier f)) ps4;
          openai = (t = 1 \<or> t = 57);
          ps6 = put_or_delete openai ''disable_store'' (JBool (cf_disable_store f)) ps5;
          ps7 = put_or_delete openai ''allow_safety_identifier'' (JBool (cf_allow_safety_identifier f)) ps6;
          ps8 = put_or_delete openai ''allow_include_obfuscation'' (JBool (cf_allow_include_obfuscation f)) ps7;
          ps9 = (if openai then set_key ''allow_inference_geo'' (JBool (cf_allow_inference_geo f)) ps8
                 else if t \<noteq> 14 then del_key ''allow_inference_geo'' ps8 else ps8);
          ps10 = (if t = 14 then set_key ''allow_inference_geo'' (JBool (cf_allow_inference_geo f)) ps9 else ps9);
          ps11 = put_or_delete (t = 14) ''allow_speed'' (JBool (cf_allow_speed f)) ps10;
          ps12 = put_or_delete (t = 14) ''claude_beta_query'' (JBool (cf_claude_beta_query f)) ps11
      in set_key ''disable_task_polling_sleep'' (JBool (cf_disable_task_polling_sleep f)) ps12)"

definition update_fields :: "channel_form \<Rightarrow> (jstring \<times> jsval) list \<Rightarrow> (jstring \<times> jsval) list" where
  "update_fields f ps0 =
     (if cf_type f \<in> set MODEL_FETCHABLE_TYPES then
        let check = cf_upstream_model_update_check_enabled f;
            ps1 = set_key ''upstream_model_update_check_enabled'' (JBool check) ps0;
            ps2 = set_key ''upstream_model_update_auto_sync_enabled'' (JBool (check \<and> cf_upstream_model_update_auto_sync_enabled f)) ps1;
            ps3 = set_key ''upstream_model_update_ignored_models'' (JArr (map JStr (ignored_models f))) ps2;
            ps4 = (case fld (JObj ps3) ''upstream_model_update_last_detected_models'' of
                     JArr _ \<Rightarrow> if check then ps3 else set_key ''upstream_model_update_last_detected_models'' (JArr []) ps3
                   | _ \<Rightarrow> set_key ''upstream_model_update_last_detected_models'' (JArr []) ps3)
        in case as_num (fld (JObj ps4) ''upstream_model_update_last_check_time'') of
             None \<Rightarrow> set_key ''upstream_model_update_last_check_time'' (JNum (Fin 0)) ps4
           | Some _ \<Rightarrow> ps4
      else ps0)"

definition advanced_field :: "channel_form \<Rightarrow> (jstring \<times> jsval) list \<Rightarrow> (jstring \<times> jsval) list" where
  "advanced_field f ps =
     (if cf_type f = CHANNEL_TYPE_ADVANCED_CUSTOM then
        (case parseAdvancedCustomConfig (cf_advanced_custom f) of
           Some config \<Rightarrow> set_key ''advanced_custom'' config ps
         | None \<Rightarrow> ps)
      else del_key ''advanced_custom'' ps)"

text \<open>The settings that the form starts from\<close>

definition existing_settings :: "channel_form \<Rightarrow> jsval" where
  "existing_settings f =
     (let s = coalesce (cf_settings f) [] in
      if s \<noteq> [] \<and> s \<noteq> lit ''{}'' then coalesce (json_parse s) (JObj []) else JObj [])"

text \<open>
  On an array the assignments make properties that \<^verbatim>\<open>JSON.stringify\<close> ignores; on a value that is not
  an object they throw.
\<close>

definition buildSettingsJSON :: "(rat \<Rightarrow> jstring) \<Rightarrow> channel_form \<Rightarrow> jstring option" where
  "buildSettingsJSON num f =
     (case existing_settings f of
        JObj ps \<Rightarrow> json_stringify num [] (JObj (advanced_field f (update_fields f (type_fields f ps))))
      | JArr vs \<Rightarrow> json_stringify num [] (JArr vs)
      | _ \<Rightarrow> None)"

definition normalizeBaseUrl :: "jstring option \<Rightarrow> jstring" where
  "normalizeBaseUrl value = rev (dropWhile (\<lambda>c. c = 47) (rev (trim (coalesce value []))))"

text \<open>\<^verbatim>\<open>s || null\<close>\<close>

definition text_or_null :: "jstring option \<Rightarrow> jsval" where
  "text_or_null v = (if coalesce v [] = [] then Null else JStr (coalesce v []))"

text \<open>The loop that turns empty strings into \<^verbatim>\<open>null\<close>\<close>

definition empty_to_null :: "(jstring \<times> jsval) list \<Rightarrow> (jstring \<times> jsval) list" where
  "empty_to_null ps = map (\<lambda>(k, v). (k, if v = JStr [] then Null else v)) ps"

definition jnum_of :: "rat \<Rightarrow> jsval" where
  "jnum_of q = JNum (Fin q)"

definition num_or_null :: "rat option \<Rightarrow> jsval" where
  "num_or_null q = (if coalesce q 0 = 0 then Null else jnum_of (coalesce q 0))"

record create_payload =
  cp_mode :: multi_key_mode
  cp_multi_key_mode :: "jstring option"
  cp_batch_add_set_key_prefix_2_name :: "bool option"
  cp_channel :: "(jstring \<times> jsval) list"

definition transformFormDataToCreatePayload ::
  "(rat \<Rightarrow> jstring) \<Rightarrow> (jstring \<Rightarrow> jstring) \<Rightarrow> channel_form \<Rightarrow> create_payload option" where
  "transformFormDataToCreatePayload num lower f =
     (case (buildSettingJSON num lower f, buildSettingsJSON num f) of
        (Some setting, Some settings) \<Rightarrow>
          let mode = coalesce (cf_multi_key_mode f) Single_key;
              ch =
                [(lit ''name'', JStr (cf_name f)), (lit ''type'', jnum_of (of_nat (cf_type f))),
                 (lit ''base_url'', text_or_null (Some (normalizeBaseUrl (cf_base_url f)))), (lit ''key'', JStr (cf_key f)),
                 (lit ''openai_organization'', text_or_null (cf_openai_organization f)), (lit ''models'', JStr (cf_models f)),
                 (lit ''group'', JStr (formatGroups (cf_group f))), (lit ''model_mapping'', text_or_null (cf_model_mapping f)),
                 (lit ''priority'', num_or_null (cf_priority f)), (lit ''weight'', num_or_null (cf_weight f)),
                 (lit ''test_model'', text_or_null (cf_test_model f)), (lit ''auto_ban'', jnum_of (coalesce (cf_auto_ban f) 1)),
                 (lit ''status'', jnum_of (cf_status f)), (lit ''status_code_mapping'', text_or_null (cf_status_code_mapping f)),
                 (lit ''tag'', text_or_null (cf_tag f)), (lit ''remark'', JStr (coalesce (cf_remark f) [])),
                 (lit ''setting'', JStr setting), (lit ''param_override'', text_or_null (cf_param_override f)),
                 (lit ''header_override'', text_or_null (cf_header_override f)), (lit ''settings'', JStr settings),
                 (lit ''other'', JStr (coalesce (cf_other f) []))]
          in Some \<lparr>cp_mode = mode,
               cp_multi_key_mode = (if mode = Multi_to_single then cf_multi_key_type f else None),
               cp_batch_add_set_key_prefix_2_name = (if mode = Batch_keys then cf_batch_add_set_key_prefix_2_name f else None),
               cp_channel = empty_to_null ch\<rparr>
      | _ \<Rightarrow> None)"

definition transformFormDataToUpdatePayload ::
  "(rat \<Rightarrow> jstring) \<Rightarrow> (jstring \<Rightarrow> jstring) \<Rightarrow> channel_form \<Rightarrow> nat \<Rightarrow> (jstring \<times> jsval) list option" where
  "transformFormDataToUpdatePayload num lower f channelId =
     (case (buildSettingJSON num lower f, buildSettingsJSON num f) of
        (Some setting, Some settings) \<Rightarrow>
          let payload =
                [(lit ''id'', jnum_of (of_nat channelId)), (lit ''name'', JStr (cf_name f)), (lit ''type'', jnum_of (of_nat (cf_type f))),
                 (lit ''base_url'', text_or_null (Some (normalizeBaseUrl (cf_base_url f)))),
                 (lit ''openai_organization'', text_or_null (cf_openai_organization f)), (lit ''models'', JStr (cf_models f)),
                 (lit ''group'', JStr (formatGroups (cf_group f))), (lit ''model_mapping'', text_or_null (cf_model_mapping f)),
                 (lit ''priority'', jnum_of (coalesce (cf_priority f) 0)), (lit ''weight'', jnum_of (coalesce (cf_weight f) 0)),
                 (lit ''test_model'', text_or_null (cf_test_model f)), (lit ''auto_ban'', jnum_of (coalesce (cf_auto_ban f) 1)),
                 (lit ''status_code_mapping'', text_or_null (cf_status_code_mapping f)), (lit ''tag'', text_or_null (cf_tag f)),
                 (lit ''remark'', JStr (coalesce (cf_remark f) [])), (lit ''setting'', JStr setting),
                 (lit ''param_override'', text_or_null (cf_param_override f)),
                 (lit ''header_override'', text_or_null (cf_header_override f)), (lit ''settings'', JStr settings),
                 (lit ''other'', JStr (coalesce (cf_other f) []))]
                @ (if cf_key f \<noteq> [] \<and> trim (cf_key f) \<noteq> [] then [(lit ''key'', JStr (cf_key f))] else []);
              txt = (\<lambda>v. JStr (coalesce v []))
          in Some
               (fold (\<lambda>(k, v) ps. AList.update (lit k) v ps)
                 [(''base_url'', JStr (normalizeBaseUrl (cf_base_url f))), (''openai_organization'', txt (cf_openai_organization f)),
                  (''test_model'', txt (cf_test_model f)), (''tag'', txt (cf_tag f)), (''remark'', txt (cf_remark f)),
                  (''model_mapping'', txt (cf_model_mapping f)), (''status_code_mapping'', txt (cf_status_code_mapping f)),
                  (''param_override'', txt (cf_param_override f)), (''header_override'', txt (cf_header_override f))]
                 (empty_to_null payload))
      | _ \<Rightarrow> None)"

end
