(* ===== verification/Channel_Roundtrip.thy ===== *)
theory Channel_Roundtrip
  imports Channel_Form
begin

section \<open>Saving and opening channel forms\<close>

text \<open>
  What the texts \<^verbatim>\<open>setting\<close> and \<^verbatim>\<open>settings\<close> of a saved form hold, and that a form which is opened on them
  is saved as the same texts. The object of \<^verbatim>\<open>settings\<close> is followed through its assignments and deletions
  as a map; assignments of what is there change nothing.
\<close>

subsection \<open>What the settings of a type hold\<close>

lemma map_of_put_or_delete: "map_of (put_or_delete b k v ps) = (map_of ps)(lit k := if b then Some v else None)"
  by (simp add: put_or_delete_def update_conv' delete_conv')

lemma type_fields_lookup:
  fixes f :: channel_form
  defines "t \<equiv> cf_type f"
  shows "map_of (type_fields f ps) = (map_of ps)
    (lit ''vertex_key_type'' := if t = 41 then Some (or_val (cf_vertex_key_type f) (JStr (lit ''json''))) else None,
     lit ''azure_responses_version'' := if t = 3 \<and> truthy (cf_azure_responses_version f) then Some (cf_azure_responses_version f) else None,
     lit ''openrouter_enterprise'' := if t = 20 then Some (JBool (cf_is_enterprise_account f)) else None,
     lit ''aws_key_type'' := if t = 33 then Some (or_val (cf_aws_key_type f) (JStr (lit ''ak_sk''))) else None,
     lit ''allow_service_tier'' := if t = 1 \<or> t = 14 \<or> t = 57 then Some (JBool (cf_allow_service_tier f)) else None,
     lit ''disable_store'' := if t = 1 \<or> t = 57 then Some (JBool (cf_disable_store f)) else None,
     lit ''allow_safety_identifier'' := if t = 1 \<or> t = 57 then Some (JBool (cf_allow_safety_identifier f)) else None,
     lit ''allow_include_obfuscation'' := if t = 1 \<or> t = 57 then Some (JBool (cf_allow_include_obfuscation f)) else None,
     lit ''allow_inference_geo'' := if t = 1 \<or> t = 57 \<or> t = 14 then Some (JBool (cf_allow_inference_geo f)) else None,
     lit ''allow_speed'' := if t = 14 then Some (JBool (cf_allow_speed f)) else None,
     lit ''claude_beta_query'' := if t = 14 then Some (JBool (cf_claude_beta_query f)) else None,
     lit ''disable_task_polling_sleep'' := Some (JBool (cf_disable_task_polling_sleep f)))"
proof -
  have geo: "map_of (if t = 14 then set_key k v (if t = 1 \<or> t = 57 then set_key k v qs else if t \<noteq> 14 then del_key k qs else qs)
       else (if t = 1 \<or> t = 57 then set_key k v qs else if t \<noteq> 14 then del_key k qs else qs))
    = (map_of qs)(lit k := if t = 1 \<or> t = 57 \<or> t = 14 then Some v else None)" for k v qs
    by (auto simp: update_conv' delete_conv' fun_eq_iff)
  show ?thesis
    unfolding type_fields_def Let_def t_def [symmetric] update_conv' map_of_put_or_delete geo ..
qed

lemma detected_lookup:
  "map_of (case fld (JObj ps) k of JArr _ \<Rightarrow> if c then ps else set_key k (JArr []) ps | _ \<Rightarrow> set_key k (JArr []) ps)
    = (map_of ps)(lit k \<mapsto> (case map_of ps (lit k) of Some (JArr vs) \<Rightarrow> JArr (if c then vs else []) | _ \<Rightarrow> JArr []))"
proof (cases "map_of ps (lit k)")
  case (Some v)
  then show ?thesis by (cases v) (auto simp: update_conv' fun_eq_iff)
qed (simp add: update_conv')

lemma time_lookup:
  "map_of (case as_num (fld (JObj ps) k) of None \<Rightarrow> set_key k (JNum (Fin 0)) ps | Some _ \<Rightarrow> ps)
    = (map_of ps)(lit k \<mapsto> (case map_of ps (lit k) of Some (JNum n) \<Rightarrow> JNum n | _ \<Rightarrow> JNum (Fin 0)))"
proof (cases "map_of ps (lit k)")
  case (Some v)
  then show ?thesis by (cases v) (auto simp: update_conv' fun_eq_iff)
qed (simp add: update_conv')

lemma update_fields_lookup:
  "map_of (update_fields f ps) =
     (if cf_type f \<in> set MODEL_FETCHABLE_TYPES then (map_of ps)
       (lit ''upstream_model_update_check_enabled'' \<mapsto> JBool (cf_upstream_model_update_check_enabled f),
        lit ''upstream_model_update_auto_sync_enabled'' \<mapsto>
          JBool (cf_upstream_model_update_check_enabled f \<and> cf_upstream_model_update_auto_sync_enabled f),
        lit ''upstream_model_update_ignored_models'' \<mapsto> JArr (map JStr (ignored_models f)),
        lit ''upstream_model_update_last_detected_models'' \<mapsto>
          (case map_of ps (lit ''upstream_model_update_last_detected_models'') of
             Some (JArr vs) \<Rightarrow> JArr (if cf_upstream_model_update_check_enabled f then vs else []) | _ \<Rightarrow> JArr []),
        lit ''upstream_model_update_last_check_time'' \<mapsto>
          (case map_of ps (lit ''upstream_model_update_last_check_time'') of Some (JNum n) \<Rightarrow> JNum n | _ \<Rightarrow> JNum (Fin 0)))
      else map_of ps)"
  unfolding update_fields_def Let_def if_distrib [of map_of] time_lookup detected_lookup update_conv' by simp

subsection \<open>Accepted forms\<close>

lemma opt_cases:
  "opt_bool v \<Longrightarrow> \<exists>b. or_val v (JBool False) = JBool b"
  "opt_string v \<Longrightarrow> \<exists>s. or_val v (JStr []) = JStr s"
  "opt_enum xs v \<Longrightarrow> d \<noteq> [] \<Longrightarrow> \<exists>s. or_val v (JStr d) = JStr s \<and> s \<noteq> []"
  by (cases v; auto simp: opt_bool_def opt_string_def opt_enum_def or_val_def)+

lemma issue_unless_Nil [simp]: "issue_unless b i = [] \<longleftrightarrow> b"
  by (simp add: issue_unless_def)

lemma schema_fields:
  assumes "channelFormSchema parse_proxy parse_url num lower f"
  shows "opt_bool (cf_force_format f)" and "opt_bool (cf_thinking_to_content f)" and "opt_string (cf_proxy f)"
    and "opt_enum [''auto'', ''http1''] (cf_http_protocol f)" and "opt_integer (cf_http2_connection_shards f)"
    and "opt_bool (cf_pass_through_body_enabled f)" and "opt_string (cf_system_prompt f)" and "opt_bool (cf_system_prompt_override f)"
    and "opt_enum [''json'', ''api_key''] (cf_vertex_key_type f)" and "opt_enum [''ak_sk'', ''api_key''] (cf_aws_key_type f)"
    and "opt_string (cf_azure_responses_version f)" and "isOptionalJsonObject (cf_settings f)"
    and "transport_issues num lower f = Some []"
    and "cf_type f = CHANNEL_TYPE_ADVANCED_CUSTOM \<Longrightarrow> advanced_issues parse_url f = Some []"
  using assms unfolding channelFormSchema_def field_issues_def
  by (simp_all add: refine_issues_def split: option.splits if_splits)

subsection \<open>The text \<^verbatim>\<open>setting\<close>\<close>

definition setting_props ::
  "bool \<Rightarrow> bool \<Rightarrow> jstring \<Rightarrow> bool \<Rightarrow> jstring \<Rightarrow> bool \<Rightarrow> bool \<Rightarrow> rat \<Rightarrow> (jstring \<times> jsval) list" where
  "setting_props ff tc proxy pt sp so http1 q =
     [(lit ''force_format'', JBool ff), (lit ''thinking_to_content'', JBool tc), (lit ''proxy'', JStr proxy),
      (lit ''pass_through_body_enabled'', JBool pt), (lit ''system_prompt'', JStr sp), (lit ''system_prompt_override'', JBool so)]
     @ (if http1 then [(lit ''http_protocol'', JStr HTTP_PROTOCOL_HTTP1)]
        else if q > 1 then [(lit ''http2_connection_shards'', JNum (Fin q))] else [])"

lemma protocols_differ [simp]: "HTTP_PROTOCOL_AUTO \<noteq> HTTP_PROTOCOL_HTTP1" "HTTP_PROTOCOL_HTTP1 \<noteq> HTTP_PROTOCOL_AUTO"
  by (simp_all add: HTTP_PROTOCOL_AUTO_def HTTP_PROTOCOL_HTTP1_def)

lemma protocol_texts [simp]:
  "trim HTTP_PROTOCOL_AUTO = HTTP_PROTOCOL_AUTO" "trim HTTP_PROTOCOL_HTTP1 = HTTP_PROTOCOL_HTTP1"
  "HTTP_PROTOCOL_AUTO \<noteq> []" "HTTP_PROTOCOL_HTTP1 \<noteq> []" "[] \<noteq> HTTP_PROTOCOL_HTTP1"
  by code_simp+

lemma json_parse_Nil: "json_parse [] = None"
  by code_simp

lemma build_setting:
  assumes "or_val (cf_force_format f) (JBool False) = JBool ff" and "or_val (cf_thinking_to_content f) (JBool False) = JBool tc"
    and "proxy_text (cf_proxy f) = Some p" and "or_val (cf_pass_through_body_enabled f) (JBool False) = JBool pt"
    and "or_val (cf_system_prompt f) (JStr []) = JStr sp" and "or_val (cf_system_prompt_override f) (JBool False) = JBool so"
    and "normalizeHttpProtocol num lower (cf_http_protocol f) = Some (if h then HTTP_PROTOCOL_HTTP1 else HTTP_PROTOCOL_AUTO)"
    and "\<not> h \<Longrightarrow> normalizeHttp2ConnectionShards num (cf_http2_connection_shards f) = Some (JNum (Fin q))"
  shows "buildSettingJSON num lower f = json_stringify num [] (JObj (setting_props ff tc p pt sp so h q))"
  using assms by (cases h) (simp_all add: buildSettingJSON_def setting_props_def to_number_def)

lemma load_setting:
  assumes "lower [] = []" and "lower HTTP_PROTOCOL_HTTP1 = HTTP_PROTOCOL_HTTP1" and "1 \<le> q" and "q \<le> 8"
  shows "parsed_extra num lower (JObj (setting_props ff tc p pt sp so h q)) =
    Some \<lparr>es_force_format = JBool ff, es_thinking_to_content = JBool tc, es_proxy = JStr p,
      es_http_protocol = (if h then HTTP_PROTOCOL_HTTP1 else HTTP_PROTOCOL_AUTO),
      es_http2_connection_shards = JNum (Fin (if h then 1 else q)), es_pass_through_body_enabled = JBool pt,
      es_system_prompt = JStr sp, es_system_prompt_override = JBool so\<rparr>"
proof -
  let ?v = "JObj (setting_props ff tc p pt sp so h q)"
  have get: "fld ?v ''force_format'' = JBool ff" "fld ?v ''thinking_to_content'' = JBool tc" "fld ?v ''proxy'' = JStr p"
    "fld ?v ''pass_through_body_enabled'' = JBool pt" "fld ?v ''system_prompt'' = JStr sp" "fld ?v ''system_prompt_override'' = JBool so"
    "fld ?v ''http_protocol'' = (if h then JStr HTTP_PROTOCOL_HTTP1 else Undefined)"
    "fld ?v ''http2_connection_shards'' = (if \<not> h \<and> q > 1 then JNum (Fin q) else Undefined)"
    by (simp_all add: setting_props_def)
  have proto: "normalizeHttpProtocol num lower (fld ?v ''http_protocol'') = Some (if h then HTTP_PROTOCOL_HTTP1 else HTTP_PROTOCOL_AUTO)"
    unfolding get using assms(1,2)
    by (simp add: normalizeHttpProtocol_def or_val_def to_string_def)
  have shards: "normalizeHttp2ConnectionShards num (fld ?v ''http2_connection_shards'') = Some (JNum (Fin (if h then 1 else q)))"
    unfolding get using assms(3,4)
    by (auto simp: normalizeHttp2ConnectionShards_def is_nullish_def to_number_def MAX_HTTP2_CONNECTION_SHARDS_def)
  show ?thesis
    unfolding parsed_extra_def proto shards unfolding get
    by (auto simp: is_nullish_def or_val_def)
qed

lemma setting_props_json:
  assumes "\<not> h \<Longrightarrow> q > 1 \<Longrightarrow> prints_num num q"
  shows "json_ok num (JObj (setting_props ff tc p pt sp so h q))"
    and "json_view (JObj (setting_props ff tc p pt sp so h q)) = Some (JObj (setting_props ff tc p pt sp so h q))"
  using assms by (auto simp: setting_props_def)

lemma transport_accepted:
  assumes "opt_enum [''auto'', ''http1''] (cf_http_protocol f)" and "opt_integer (cf_http2_connection_shards f)"
    and "transport_issues num lower f = Some []"
  shows "\<exists>q. normalizeHttp2ConnectionShards num (cf_http2_connection_shards f) = Some (JNum (Fin q)) \<and> q \<in> of_nat ` {1..8}"
proof (cases "cf_http2_connection_shards f")
  case Undefined
  then show ?thesis by (auto simp: normalizeHttp2ConnectionShards_def is_nullish_def intro: rev_image_eqI [of 1])
next
  case (JNum n)
  then have i: "num_isInteger n" using assms(2) by (simp add: opt_integer_def)
  have r: "\<not> num_less n (Fin 1)" "\<not> num_less (Fin 8) n"
    using assms(3) JNum by (auto simp: transport_issues_def Let_def is_nullish_def to_number_def MAX_HTTP2_CONNECTION_SHARDS_def
        split: option.splits if_splits)
  obtain q where q: "n = Fin q" "1 \<le> q" "q \<le> 8" using i r by (cases n) (auto simp: num_isInteger_def)
  have "q = of_int \<lfloor>q\<rfloor>" using i q(1) by (simp add: num_isInteger_def)
  moreover have "1 \<le> \<lfloor>q\<rfloor>" "\<lfloor>q\<rfloor> \<le> 8" using q by (simp_all add: floor_le_iff le_floor_iff)
  ultimately have "q \<in> of_nat ` {1..8}"
    by (intro rev_image_eqI [of "nat \<lfloor>q\<rfloor>"]) (auto simp: nat_le_iff le_nat_iff)
  then show ?thesis using JNum q
    by (auto simp: normalizeHttp2ConnectionShards_def is_nullish_def to_number_def MAX_HTTP2_CONNECTION_SHARDS_def)
qed (use assms(2) in \<open>auto simp: opt_integer_def\<close>)

text \<open>The object that an accepted form is saved as\<close>

lemma setting_object:
  assumes "channelFormSchema parse_proxy parse_url num lower f"
  obtains ff tc p pt sp so h q where
    "buildSettingJSON num lower f = json_stringify num [] (JObj (setting_props ff tc p pt sp so h q))"
    "trim p = p" "q \<in> of_nat ` {1..8}"
proof -
  note t = schema_fields [OF assms]
  obtain ff tc pt so where b: "or_val (cf_force_format f) (JBool False) = JBool ff" "or_val (cf_thinking_to_content f) (JBool False) = JBool tc"
      "or_val (cf_pass_through_body_enabled f) (JBool False) = JBool pt" "or_val (cf_system_prompt_override f) (JBool False) = JBool so"
    using opt_cases(1) [OF t(1)] opt_cases(1) [OF t(2)] opt_cases(1) [OF t(6)] opt_cases(1) [OF t(8)] by blast
  obtain sp where sp: "or_val (cf_system_prompt f) (JStr []) = JStr sp" using opt_cases(2) [OF t(7)] by blast
  obtain p where p: "proxy_text (cf_proxy f) = Some p" "trim p = p"
    using t(3) by (cases "cf_proxy f") (auto simp: proxy_text_def opt_string_def is_nullish_def)
  obtain q where q: "normalizeHttp2ConnectionShards num (cf_http2_connection_shards f) = Some (JNum (Fin q))" "q \<in> of_nat ` {1..8}"
    using transport_accepted [OF t(4,5,13)] by blast
  obtain h where h: "normalizeHttpProtocol num lower (cf_http_protocol f) = Some (if h then HTTP_PROTOCOL_HTTP1 else HTTP_PROTOCOL_AUTO)"
  proof -
    obtain x where "to_string num (or_val (cf_http_protocol f) (JStr [])) = Some x"
      using t(4) by (cases "cf_http_protocol f") (auto simp: opt_enum_def or_val_def to_string_def)
    then show ?thesis using that by (auto simp: normalizeHttpProtocol_def)
  qed
  show thesis using that build_setting [OF b(1,2) p(1) b(3) sp b(4) h q(1)] p(2) q(2) by blast
qed

text \<open>What a form that is loaded from this object is saved as\<close>

lemma setting_reload:
  assumes "channelFormSchema parse_proxy parse_url num lower f" and "\<forall>s \<in> {[], HTTP_PROTOCOL_AUTO, HTTP_PROTOCOL_HTTP1}. lower s = s"
    and "\<forall>n \<in> {0..8::nat}. prints_num num (of_nat n)"
  shows "\<exists>s. buildSettingJSON num lower f = Some s \<and>
    (ch_setting c = Some s \<longrightarrow> buildSettingJSON num lower (transformChannelToFormDefaults num lower c) = Some s)"
proof -
  obtain ff tc p pt sp so h q where build: "buildSettingJSON num lower f = json_stringify num [] (JObj (setting_props ff tc p pt sp so h q))"
    and p: "trim p = p" and q: "q \<in> of_nat ` {1..8}"
    using setting_object [OF assms(1)] by blast
  have q18: "1 \<le> q" "q \<le> 8" "prints_num num q" using q assms(3) by auto
  let ?o = "JObj (setting_props ff tc p pt sp so h q)"
  obtain s where s: "json_stringify num [] ?o = Some s" by (simp add: json_stringify_def)
  have parse: "json_parse s = Some ?o"
    using json_parse_stringify [of "[]" num ?o s] setting_props_json [of h q num] q18(3) s by simp
  let ?f = "transformChannelToFormDefaults num lower c"
  have "buildSettingJSON num lower ?f = Some s" if c: "ch_setting c = Some s"
  proof -
    have "s \<noteq> []" using parse json_parse_Nil by auto
    then have l: "load_extra num lower (ch_setting c) = \<lparr>es_force_format = JBool ff, es_thinking_to_content = JBool tc, es_proxy = JStr p,
      es_http_protocol = (if h then HTTP_PROTOCOL_HTTP1 else HTTP_PROTOCOL_AUTO),
      es_http2_connection_shards = JNum (Fin (if h then 1 else q)), es_pass_through_body_enabled = JBool pt,
      es_system_prompt = JStr sp, es_system_prompt_override = JBool so\<rparr>"
      using c parse load_setting [of lower q num] assms(2) q18 by (simp add: load_extra_def coalesce_def)
    have "buildSettingJSON num lower ?f = json_stringify num [] (JObj (setting_props ff tc p pt sp so h q))"
      by (rule build_setting)
        (use l assms(2) p q18 in \<open>auto simp: transformChannelToFormDefaults_def Let_def or_val_def proxy_text_def is_nullish_def
           normalizeHttpProtocol_def to_string_def normalizeHttp2ConnectionShards_def to_number_def MAX_HTTP2_CONNECTION_SHARDS_def\<close>)
    then show ?thesis using s by simp
  qed
  then show ?thesis using build s by auto
qed

subsection \<open>The text \<^verbatim>\<open>settings\<close>\<close>

definition saved_settings :: "channel_form \<Rightarrow> (jstring \<times> jsval) list \<Rightarrow> (jstring \<times> jsval) list" where
  "saved_settings f ps = advanced_field f (update_fields f (type_fields f ps))"

definition props_ok :: "(jsval \<Rightarrow> bool) \<Rightarrow> (jstring \<times> jsval) list \<Rightarrow> bool" where
  "props_ok P ps \<longleftrightarrow> distinct (map fst ps) \<and> (\<forall>(k, v) \<in> set ps. P v)"

lemma props_ok_update: "props_ok P ps \<Longrightarrow> P v \<Longrightarrow> props_ok P (AList.update k v ps)"
proof -
  have "set (AList.update k v ps) \<subseteq> insert (k, v) (set ps)" by (induction ps) auto
  then show "props_ok P ps \<Longrightarrow> P v \<Longrightarrow> props_ok P (AList.update k v ps)"
    unfolding props_ok_def using distinct_update by fastforce
qed

lemma props_ok_delete: "props_ok P ps \<Longrightarrow> props_ok P (AList.delete k ps)"
  by (auto simp: props_ok_def AList.delete_eq distinct_map inj_on_def)

lemma props_ok_put: "props_ok P ps \<Longrightarrow> (b \<Longrightarrow> P v) \<Longrightarrow> props_ok P (put_or_delete b k v ps)"
  by (simp add: put_or_delete_def props_ok_update props_ok_delete)

lemmas props_ok_intros = props_ok_update props_ok_delete props_ok_put

lemma type_fields_ok:
  assumes "props_ok P ps" and "\<And>b. P (JBool b)" and "P (or_val (cf_vertex_key_type f) (JStr (lit ''json'')))"
    and "P (or_val (cf_aws_key_type f) (JStr (lit ''ak_sk'')))"
    and "truthy (cf_azure_responses_version f) \<Longrightarrow> P (cf_azure_responses_version f)"
  shows "props_ok P (type_fields f ps)"
proof -
  have geo: "props_ok P (if t = 14 then set_key k v (if o' then set_key k v qs else if t \<noteq> (14::nat) then del_key k qs else qs)
       else (if o' then set_key k v qs else if t \<noteq> 14 then del_key k qs else qs))"
    if "props_ok P qs" "P v" for t k v o' qs
    using that by (auto intro!: props_ok_intros)
  show ?thesis
    unfolding type_fields_def Let_def
    by (intro props_ok_intros geo assms) (use assms in auto)
qed

lemma update_fields_ok:
  assumes "props_ok P ps" and "\<And>b. P (JBool b)" and "\<And>xs. P (JArr (map JStr xs))" and "P (JNum (Fin 0))"
  shows "props_ok P (update_fields f ps)"
proof -
  have detected: "props_ok P (case v of JArr _ \<Rightarrow> if c then qs else set_key k (JArr []) qs | _ \<Rightarrow> set_key k (JArr []) qs)"
    if "props_ok P qs" for v c k qs
    using that assms(3) [of "[]"] by (cases v) (auto intro: props_ok_update)
  have time: "props_ok P (case m of None \<Rightarrow> set_key k (JNum (Fin 0)) qs | Some (_ :: jnum) \<Rightarrow> qs)" if "props_ok P qs" for m k qs
    using that assms(4) by (cases m) (auto intro: props_ok_update)
  show ?thesis
  proof (cases "cf_type f \<in> set MODEL_FETCHABLE_TYPES")
    case True
    show ?thesis unfolding update_fields_def Let_def if_P [OF True] by (intro time detected props_ok_update assms)
  qed (simp add: update_fields_def assms)
qed

lemma advanced_field_ok:
  assumes "props_ok P ps" and "\<And>n. cf_type f = CHANNEL_TYPE_ADVANCED_CUSTOM \<Longrightarrow> parseAdvancedCustomConfig (cf_advanced_custom f) = Some n \<Longrightarrow> P n"
  shows "props_ok P (advanced_field f ps)"
  using assms by (auto simp: advanced_field_def intro!: props_ok_intros split: option.split)

text \<open>Assignments that change nothing\<close>

lemma update_same: "map_of ps k = Some v \<Longrightarrow> AList.update k v ps = ps"
  by (induction ps) (auto split: if_splits)

lemma delete_absent: "map_of ps k = None \<Longrightarrow> AList.delete k ps = ps"
  by (simp add: AList.delete_eq map_of_eq_None_iff filter_id_conv) force

lemma put_same: "map_of ps (lit k) = (if b then Some v else None) \<Longrightarrow> put_or_delete b k v ps = ps"
  by (auto simp: put_or_delete_def update_same delete_absent)

text \<open>What loading reads from the object\<close>

lemma parsed_types_simps:
  fixes ps :: "(jstring \<times> jsval) list" and num :: "rat \<Rightarrow> jstring"
  defines "v \<equiv> JObj ps" and "ts \<equiv> parsed_types num (JObj ps)"
  shows "ts_vertexKeyType ts = or_val (fld v ''vertex_key_type'') (JStr (lit ''json''))"
    and "ts_azureResponsesVersion ts = or_val (fld v ''azure_responses_version'') (JStr [])"
    and "ts_isEnterpriseAccount ts = (fld v ''openrouter_enterprise'' = JBool True)"
    and "ts_awsKeyType ts = or_val (fld v ''aws_key_type'') (JStr (lit ''ak_sk''))"
    and "ts_allowServiceTier ts = (fld v ''allow_service_tier'' = JBool True)"
    and "ts_disableStore ts = (fld v ''disable_store'' = JBool True)"
    and "ts_allowSafetyIdentifier ts = (fld v ''allow_safety_identifier'' = JBool True)"
    and "ts_allowIncludeObfuscation ts = (fld v ''allow_include_obfuscation'' = JBool True)"
    and "ts_allowInferenceGeo ts = (fld v ''allow_inference_geo'' = JBool True)"
    and "ts_allowSpeed ts = (fld v ''allow_speed'' = JBool True)"
    and "ts_claudeBetaQuery ts = (fld v ''claude_beta_query'' = JBool True)"
    and "ts_disableTaskPollingSleep ts = (fld v ''disable_task_polling_sleep'' = JBool True)"
    and "ts_upstreamModelUpdateCheckEnabled ts = (fld v ''upstream_model_update_check_enabled'' = JBool True)"
    and "ts_upstreamModelUpdateAutoSyncEnabled ts = (fld v ''upstream_model_update_auto_sync_enabled'' = JBool True)"
  unfolding v_def ts_def parsed_types_def Let_def
  by (simp_all add: is_nullish_def del: get_prop.simps split: option.split)

lemma ignored_models_clean: "x \<in> set (ignored_models f) \<Longrightarrow> trim x = x \<and> x \<noteq> [] \<and> 44 \<notin> set x"
  unfolding ignored_models_def using set_trim split_on_sep_free by fastforce

lemma ignored_models_text:
  assumes "cf_upstream_model_update_ignored_models g = Some (join [44] (ignored_models f))"
  shows "ignored_models g = ignored_models f"
proof (cases "ignored_models f = []")
  case True
  then show ?thesis using assms by (simp add: ignored_models_def coalesce_def)
next
  case False
  then have "split_on 44 (join [44] (ignored_models f)) = ignored_models f"
    using ignored_models_clean by (intro split_on_join) auto
  moreover have "map trim (ignored_models f) = ignored_models f" "filter (\<lambda>m. m \<noteq> []) (ignored_models f) = ignored_models f"
    using ignored_models_clean by (auto intro!: map_idI filter_True)
  moreover have "uniq (ignored_models f) = ignored_models f" by (simp add: ignored_models_def)
  ultimately show ?thesis using assms by (simp add: ignored_models_def [of g] coalesce_def)
qed

lemma string_list_text: "to_string num (JArr (map JStr xs)) = Some (join [44] xs)"
proof -
  have "\<not> list_ex string_throws (map JStr xs)" by (auto simp: list_ex_iff)
  then show ?thesis by (simp add: to_string_def is_nullish_def comp_def)
qed

definition update_keys :: "jstring list" where
  "update_keys = map lit [''upstream_model_update_check_enabled'', ''upstream_model_update_auto_sync_enabled'',
     ''upstream_model_update_ignored_models'', ''upstream_model_update_last_detected_models'',
     ''upstream_model_update_last_check_time'']"

lemma advanced_field_lookup:
  "map_of (advanced_field f ps) = (map_of ps)(lit ''advanced_custom'' :=
     (if cf_type f = CHANNEL_TYPE_ADVANCED_CUSTOM
      then (case parseAdvancedCustomConfig (cf_advanced_custom f) of Some n \<Rightarrow> Some n | None \<Rightarrow> map_of ps (lit ''advanced_custom''))
      else None))"
  by (auto simp: advanced_field_def update_conv' delete_conv' split: option.split)

definition type_keys :: "jstring list" where
  "type_keys = map lit [''vertex_key_type'', ''azure_responses_version'', ''openrouter_enterprise'', ''aws_key_type'',
     ''allow_service_tier'', ''disable_store'', ''allow_safety_identifier'', ''allow_include_obfuscation'',
     ''allow_inference_geo'', ''allow_speed'', ''claude_beta_query'', ''disable_task_polling_sleep'']"

lemma other_keys:
  "k \<notin> set type_keys \<Longrightarrow> map_of (type_fields f ps) k = map_of ps k"
  "k \<notin> set update_keys \<Longrightarrow> map_of (update_fields f ps) k = map_of ps k"
  "k \<noteq> lit ''advanced_custom'' \<Longrightarrow> map_of (advanced_field f ps) k = map_of ps k"
  by (simp_all add: type_fields_lookup update_fields_lookup advanced_field_lookup type_keys_def update_keys_def)

lemma keys_disjoint:
  "lit ''advanced_custom'' \<notin> set type_keys" "lit ''advanced_custom'' \<notin> set update_keys" "set type_keys \<inter> set update_keys = {}"
  by (simp_all add: type_keys_def update_keys_def)

lemma saved_lookup:
  "map_of (saved_settings f ps) (lit ''advanced_custom'') =
     (if cf_type f = CHANNEL_TYPE_ADVANCED_CUSTOM
      then (case parseAdvancedCustomConfig (cf_advanced_custom f) of Some n \<Rightarrow> Some n | None \<Rightarrow> map_of ps (lit ''advanced_custom''))
      else None)"
  "k \<in> set update_keys \<Longrightarrow> map_of (saved_settings f ps) k = map_of (update_fields f (type_fields f ps)) k"
  "k \<in> set type_keys \<Longrightarrow> map_of (saved_settings f ps) k = map_of (type_fields f ps) k"
  "k \<notin> set update_keys \<Longrightarrow> k \<notin> set type_keys \<Longrightarrow> k \<noteq> lit ''advanced_custom'' \<Longrightarrow> map_of (saved_settings f ps) k = map_of ps k"
proof -
  show "map_of (saved_settings f ps) (lit ''advanced_custom'') =
     (if cf_type f = CHANNEL_TYPE_ADVANCED_CUSTOM
      then (case parseAdvancedCustomConfig (cf_advanced_custom f) of Some n \<Rightarrow> Some n | None \<Rightarrow> map_of ps (lit ''advanced_custom''))
      else None)"
    unfolding saved_settings_def advanced_field_lookup using keys_disjoint by (simp add: other_keys split: option.split)
  show "k \<in> set update_keys \<Longrightarrow> map_of (saved_settings f ps) k = map_of (update_fields f (type_fields f ps)) k"
    unfolding saved_settings_def using keys_disjoint by (intro other_keys) auto
  show "k \<in> set type_keys \<Longrightarrow> map_of (saved_settings f ps) k = map_of (type_fields f ps) k"
    unfolding saved_settings_def using keys_disjoint by (subst other_keys, force)+ auto
  show "k \<notin> set update_keys \<Longrightarrow> k \<notin> set type_keys \<Longrightarrow> k \<noteq> lit ''advanced_custom'' \<Longrightarrow> map_of (saved_settings f ps) k = map_of ps k"
    unfolding saved_settings_def by (simp add: other_keys)
qed

text \<open>The properties of the types and of the upstream checks, read from the saved settings\<close>

lemma saved_type_settings:
  "map_of (saved_settings f ps) (lit ''vertex_key_type'') = (if cf_type f = 41 then Some (or_val (cf_vertex_key_type f) (JStr (lit ''json''))) else None)"
  "map_of (saved_settings f ps) (lit ''azure_responses_version'') =
     (if cf_type f = 3 \<and> truthy (cf_azure_responses_version f) then Some (cf_azure_responses_version f) else None)"
  "map_of (saved_settings f ps) (lit ''openrouter_enterprise'') = (if cf_type f = 20 then Some (JBool (cf_is_enterprise_account f)) else None)"
  "map_of (saved_settings f ps) (lit ''aws_key_type'') = (if cf_type f = 33 then Some (or_val (cf_aws_key_type f) (JStr (lit ''ak_sk''))) else None)"
  "map_of (saved_settings f ps) (lit ''allow_service_tier'') = (if cf_type f \<in> {1, 14, 57} then Some (JBool (cf_allow_service_tier f)) else None)"
  "map_of (saved_settings f ps) (lit ''disable_store'') = (if cf_type f \<in> {1, 57} then Some (JBool (cf_disable_store f)) else None)"
  "map_of (saved_settings f ps) (lit ''allow_safety_identifier'') = (if cf_type f \<in> {1, 57} then Some (JBool (cf_allow_safety_identifier f)) else None)"
  "map_of (saved_settings f ps) (lit ''allow_include_obfuscation'') = (if cf_type f \<in> {1, 57} then Some (JBool (cf_allow_include_obfuscation f)) else None)"
  "map_of (saved_settings f ps) (lit ''allow_inference_geo'') = (if cf_type f \<in> {1, 14, 57} then Some (JBool (cf_allow_inference_geo f)) else None)"
  "map_of (saved_settings f ps) (lit ''allow_speed'') = (if cf_type f = 14 then Some (JBool (cf_allow_speed f)) else None)"
  "map_of (saved_settings f ps) (lit ''claude_beta_query'') = (if cf_type f = 14 then Some (JBool (cf_claude_beta_query f)) else None)"
  "map_of (saved_settings f ps) (lit ''disable_task_polling_sleep'') = Some (JBool (cf_disable_task_polling_sleep f))"
  by (subst saved_lookup(3); auto simp: type_keys_def type_fields_lookup)+

lemma type_fields_update_key: "k \<in> set update_keys \<Longrightarrow> map_of (type_fields f ps) k = map_of ps k"
  using keys_disjoint(3) by (intro other_keys) auto

lemma saved_update_settings:
  "if cf_type f \<in> set MODEL_FETCHABLE_TYPES then
     map_of (saved_settings f ps) (lit ''upstream_model_update_check_enabled'') = Some (JBool (cf_upstream_model_update_check_enabled f))
     \<and> map_of (saved_settings f ps) (lit ''upstream_model_update_auto_sync_enabled'') =
         Some (JBool (cf_upstream_model_update_check_enabled f \<and> cf_upstream_model_update_auto_sync_enabled f))
     \<and> map_of (saved_settings f ps) (lit ''upstream_model_update_ignored_models'') = Some (JArr (map JStr (ignored_models f)))
     \<and> map_of (saved_settings f ps) (lit ''upstream_model_update_last_detected_models'') =
         Some (case map_of ps (lit ''upstream_model_update_last_detected_models'') of
                 Some (JArr vs) \<Rightarrow> JArr (if cf_upstream_model_update_check_enabled f then vs else []) | _ \<Rightarrow> JArr [])
     \<and> map_of (saved_settings f ps) (lit ''upstream_model_update_last_check_time'') =
         Some (case map_of ps (lit ''upstream_model_update_last_check_time'') of Some (JNum n) \<Rightarrow> JNum n | _ \<Rightarrow> JNum (Fin 0))
   else \<forall>k \<in> set update_keys. map_of (saved_settings f ps) k = map_of ps k"
proof -
  have upd: "lit k \<in> set update_keys"
    if "k \<in> {''upstream_model_update_check_enabled'', ''upstream_model_update_auto_sync_enabled'',
      ''upstream_model_update_ignored_models'', ''upstream_model_update_last_detected_models'',
      ''upstream_model_update_last_check_time''}" for k
    using that by (auto simp: update_keys_def)
  show ?thesis
  proof (cases "cf_type f \<in> set MODEL_FETCHABLE_TYPES")
    case True
    note look = saved_lookup(2) [OF upd] type_fields_update_key [OF upd] update_fields_lookup [of f "type_fields f ps", unfolded if_P [OF True]]
    show ?thesis
      unfolding if_P [OF True] by (simp add: look)
  next
    case False
    then show ?thesis
      by (simp add: saved_lookup(2) update_fields_lookup type_fields_update_key)
  qed
qed

lemma type_fields_same:
  assumes same: "map_of (type_fields f ps) = map_of ps"
  shows "type_fields f ps = ps"
proof -
  note look = same [unfolded type_fields_lookup, symmetric, THEN fun_cong]
  let ?t = "cf_type f"
  have "put_or_delete (?t = 41) ''vertex_key_type'' (or_val (cf_vertex_key_type f) (JStr (lit ''json''))) ps = ps"
    by (rule put_same) (use look [of "lit ''vertex_key_type''"] in simp)
  moreover have "put_or_delete (?t = 3 \<and> truthy (cf_azure_responses_version f)) ''azure_responses_version'' (cf_azure_responses_version f) ps = ps"
    by (rule put_same) (use look [of "lit ''azure_responses_version''"] in simp)
  moreover have "put_or_delete (?t = 20) ''openrouter_enterprise'' (JBool (cf_is_enterprise_account f)) ps = ps"
    by (rule put_same) (use look [of "lit ''openrouter_enterprise''"] in simp)
  moreover have "put_or_delete (?t = 33) ''aws_key_type'' (or_val (cf_aws_key_type f) (JStr (lit ''ak_sk''))) ps = ps"
    by (rule put_same) (use look [of "lit ''aws_key_type''"] in simp)
  moreover have "put_or_delete (?t = 1 \<or> ?t = 14 \<or> ?t = 57) ''allow_service_tier'' (JBool (cf_allow_service_tier f)) ps = ps"
    by (rule put_same) (use look [of "lit ''allow_service_tier''"] in simp)
  moreover have "put_or_delete (?t = 1 \<or> ?t = 57) ''disable_store'' (JBool (cf_disable_store f)) ps = ps"
    by (rule put_same) (use look [of "lit ''disable_store''"] in simp)
  moreover have "put_or_delete (?t = 1 \<or> ?t = 57) ''allow_safety_identifier'' (JBool (cf_allow_safety_identifier f)) ps = ps"
    by (rule put_same) (use look [of "lit ''allow_safety_identifier''"] in simp)
  moreover have "put_or_delete (?t = 1 \<or> ?t = 57) ''allow_include_obfuscation'' (JBool (cf_allow_include_obfuscation f)) ps = ps"
    by (rule put_same) (use look [of "lit ''allow_include_obfuscation''"] in simp)
  moreover have "(if ?t = 1 \<or> ?t = 57 then set_key ''allow_inference_geo'' (JBool (cf_allow_inference_geo f)) ps
      else if ?t \<noteq> 14 then del_key ''allow_inference_geo'' ps else ps) = ps"
    using look [of "lit ''allow_inference_geo''"] by (auto simp: update_same delete_absent)
  moreover have "(if ?t = 14 then set_key ''allow_inference_geo'' (JBool (cf_allow_inference_geo f)) ps else ps) = ps"
    using look [of "lit ''allow_inference_geo''"] by (auto simp: update_same)
  moreover have "put_or_delete (?t = 14) ''allow_speed'' (JBool (cf_allow_speed f)) ps = ps"
    by (rule put_same) (use look [of "lit ''allow_speed''"] in simp)
  moreover have "put_or_delete (?t = 14) ''claude_beta_query'' (JBool (cf_claude_beta_query f)) ps = ps"
    by (rule put_same) (use look [of "lit ''claude_beta_query''"] in simp)
  moreover have "set_key ''disable_task_polling_sleep'' (JBool (cf_disable_task_polling_sleep f)) ps = ps"
    by (rule update_same) (use look [of "lit ''disable_task_polling_sleep''"] in simp)
  ultimately show ?thesis unfolding type_fields_def Let_def by (simp only:)
qed

lemma detected_same:
  assumes "m = Some (case m of Some (JArr vs) \<Rightarrow> JArr (if c then vs else []) | _ \<Rightarrow> JArr [])"
  shows "\<exists>vs. m = Some (JArr vs) \<and> (\<not> c \<longrightarrow> vs = [])"
proof (cases m)
  case (Some v)
  then show ?thesis using assms by (cases v) (auto split: if_splits)
qed (use assms in simp)

lemma time_same:
  assumes "m = Some (case m of Some (JNum n) \<Rightarrow> JNum n | _ \<Rightarrow> JNum (Fin 0))"
  shows "\<exists>n. m = Some (JNum n)"
proof (cases m)
  case (Some v)
  then show ?thesis using assms by (cases v) auto
qed (use assms in simp)

lemma update_fields_same:
  assumes same: "map_of (update_fields f ps) = map_of ps"
  shows "update_fields f ps = ps"
proof (cases "cf_type f \<in> set MODEL_FETCHABLE_TYPES")
  case True
  note look = same [unfolded update_fields_lookup if_P [OF True], symmetric, THEN fun_cong]
  let ?c = "cf_upstream_model_update_check_enabled f"
  have 1: "set_key ''upstream_model_update_check_enabled'' (JBool ?c) ps = ps"
    by (rule update_same) (use look [of "lit ''upstream_model_update_check_enabled''"] in simp)
  have 2: "set_key ''upstream_model_update_auto_sync_enabled'' (JBool (?c \<and> cf_upstream_model_update_auto_sync_enabled f)) ps = ps"
    by (rule update_same) (use look [of "lit ''upstream_model_update_auto_sync_enabled''"] in simp)
  have 3: "set_key ''upstream_model_update_ignored_models'' (JArr (map JStr (ignored_models f))) ps = ps"
    by (rule update_same) (use look [of "lit ''upstream_model_update_ignored_models''"] in simp)
  obtain vs where d: "map_of ps (lit ''upstream_model_update_last_detected_models'') = Some (JArr vs)" "\<not> ?c \<longrightarrow> vs = []"
    using detected_same [of "map_of ps (lit ''upstream_model_update_last_detected_models'')" ?c]
      trans [OF look [of "lit ''upstream_model_update_last_detected_models''"]] by auto
  obtain n where t: "map_of ps (lit ''upstream_model_update_last_check_time'') = Some (JNum n)"
    using time_same [of "map_of ps (lit ''upstream_model_update_last_check_time'')"]
      trans [OF look [of "lit ''upstream_model_update_last_check_time''"]] by auto
  show ?thesis
    unfolding update_fields_def Let_def if_P [OF True] 1 2 3 using d t update_same [OF d(1)] by (cases ?c) simp_all
qed (simp add: update_fields_def)

definition typed_custom :: "channel_form \<Rightarrow> bool" where
  "typed_custom f \<longleftrightarrow>
     (case json_parse (coalesce (cf_advanced_custom f) []) of
        Some c \<Rightarrow> list_all typed_route (config_routes c)
      | None \<Rightarrow> True)"

lemma custom_config_reload:
  assumes "advanced_issues parse_url f = Some []" and "typed_custom f"
  shows "\<exists>n v t. parseAdvancedCustomConfig (cf_advanced_custom f) = Some n \<and> json_ok num n \<and> json_view n = Some v \<and> truthy v
    \<and> stringifyAdvancedCustomConfig num v = Some t \<and> parseAdvancedCustomConfig (Some t) = Some n"
proof -
  have "parseAdvancedCustomConfig (cf_advanced_custom f) \<noteq> None"
    using assms(1) by (auto simp: advanced_issues_def validateAdvancedCustomConfig_def Let_def split: option.splits if_splits)
  then obtain n where n: "parseAdvancedCustomConfig (cf_advanced_custom f) = Some n" by blast
  then obtain s ps where s: "cf_advanced_custom f = Some s" "json_parse s = Some (JObj ps)" "normalizeAdvancedCustomConfig (JObj ps) = Some n"
    by (auto simp: parseAdvancedCustomConfig_def split: option.splits if_splits jsval.splits)
  then have "list_all typed_route (config_routes (JObj ps))" using assms(2) by (simp add: typed_custom_def coalesce_def)
  from typed_config_text [OF this, of num] show ?thesis
    using n s(3) by (auto simp: stringifyAdvancedCustomConfig_def)
qed

lemma loaded_types:
  fixes num lower c ts
  defines "g \<equiv> transformChannelToFormDefaults num lower c" and "ts \<equiv> load_types num (ch_settings c)"
  shows "cf_type g = ch_type c" "cf_settings g = Some (or_str (ch_settings c) (lit ''{}''))"
    "cf_vertex_key_type g = ts_vertexKeyType ts" "cf_azure_responses_version g = ts_azureResponsesVersion ts"
    "cf_is_enterprise_account g = ts_isEnterpriseAccount ts" "cf_aws_key_type g = ts_awsKeyType ts"
    "cf_allow_service_tier g = ts_allowServiceTier ts" "cf_disable_store g = ts_disableStore ts"
    "cf_allow_safety_identifier g = ts_allowSafetyIdentifier ts" "cf_allow_include_obfuscation g = ts_allowIncludeObfuscation ts"
    "cf_allow_inference_geo g = ts_allowInferenceGeo ts" "cf_allow_speed g = ts_allowSpeed ts"
    "cf_claude_beta_query g = ts_claudeBetaQuery ts" "cf_disable_task_polling_sleep g = ts_disableTaskPollingSleep ts"
    "cf_upstream_model_update_check_enabled g = ts_upstreamModelUpdateCheckEnabled ts"
    "cf_upstream_model_update_auto_sync_enabled g = ts_upstreamModelUpdateAutoSyncEnabled ts"
    "cf_upstream_model_update_ignored_models g = Some (ts_upstreamModelUpdateIgnoredModels ts)"
    "cf_advanced_custom g = Some (ts_advancedCustom ts)"
  by (simp_all add: g_def ts_def transformChannelToFormDefaults_def Let_def)

text \<open>A form that agrees with the saved properties writes them again.\<close>

lemma type_fields_reload:
  assumes "cf_type g = cf_type f"
    and q: "map_of qs = map_option (\<lambda>v. coalesce (json_view v) Null) \<circ> map_of (saved_settings f ps)"
    and enum: "opt_enum xs (cf_vertex_key_type f)" "opt_enum ys (cf_aws_key_type f)" "opt_string (cf_azure_responses_version f)"
    and g: "cf_vertex_key_type g = or_val (fld (JObj qs) ''vertex_key_type'') (JStr (lit ''json''))"
      "cf_azure_responses_version g = or_val (fld (JObj qs) ''azure_responses_version'') (JStr [])"
      "cf_is_enterprise_account g = (fld (JObj qs) ''openrouter_enterprise'' = JBool True)"
      "cf_aws_key_type g = or_val (fld (JObj qs) ''aws_key_type'') (JStr (lit ''ak_sk''))"
      "cf_allow_service_tier g = (fld (JObj qs) ''allow_service_tier'' = JBool True)"
      "cf_disable_store g = (fld (JObj qs) ''disable_store'' = JBool True)"
      "cf_allow_safety_identifier g = (fld (JObj qs) ''allow_safety_identifier'' = JBool True)"
      "cf_allow_include_obfuscation g = (fld (JObj qs) ''allow_include_obfuscation'' = JBool True)"
      "cf_allow_inference_geo g = (fld (JObj qs) ''allow_inference_geo'' = JBool True)"
      "cf_allow_speed g = (fld (JObj qs) ''allow_speed'' = JBool True)"
      "cf_claude_beta_query g = (fld (JObj qs) ''claude_beta_query'' = JBool True)"
      "cf_disable_task_polling_sleep g = (fld (JObj qs) ''disable_task_polling_sleep'' = JBool True)"
  shows "type_fields g qs = qs"
proof (rule type_fields_same)
  obtain a where a: "or_val (cf_vertex_key_type f) (JStr (lit ''json'')) = JStr a" "a \<noteq> []"
    using opt_cases(3) [OF enum(1), of "lit ''json''"] by auto
  obtain b where b: "or_val (cf_aws_key_type f) (JStr (lit ''ak_sk'')) = JStr b" "b \<noteq> []"
    using opt_cases(3) [OF enum(2), of "lit ''ak_sk''"] by auto
  have z: "truthy (cf_azure_responses_version f) \<Longrightarrow> \<exists>s. cf_azure_responses_version f = JStr s \<and> s \<noteq> []"
    using enum(3) by (cases "cf_azure_responses_version f") (auto simp: opt_string_def)
  have look: "map_of qs (lit k) = map_option (\<lambda>v. coalesce (json_view v) Null) (map_of (type_fields f ps) (lit k))"
    if "lit k \<in> set type_keys" for k
    unfolding q comp_def saved_lookup(3) [OF that] ..
  let ?t = "cf_type f"
  have vertex: "map_of qs (lit ''vertex_key_type'') = (if ?t = 41 then Some (JStr a) else None)"
    by (subst look) (simp_all add: type_fields_lookup type_keys_def a coalesce_def)
  have azure: "map_of qs (lit ''azure_responses_version'') = (if ?t = 3 \<and> truthy (cf_azure_responses_version f) then Some (cf_azure_responses_version f) else None)"
    by (subst look) (use z in \<open>auto simp: type_fields_lookup type_keys_def coalesce_def\<close>)
  have aws: "map_of qs (lit ''aws_key_type'') = (if ?t = 33 then Some (JStr b) else None)"
    by (subst look) (simp_all add: type_fields_lookup type_keys_def b coalesce_def)
  have flag: "map_of qs (lit k) = (if P then Some (JBool x) else None)"
    if "lit k \<in> set type_keys" "map_of (type_fields f ps) (lit k) = (if P then Some (JBool x) else None)" for k P x
    by (subst look [OF that(1)]) (simp add: that(2) coalesce_def)
  have enterprise: "map_of qs (lit ''openrouter_enterprise'') = (if ?t = 20 then Some (JBool (cf_is_enterprise_account f)) else None)"
    by (rule flag) (simp_all add: type_fields_lookup type_keys_def)
  have tier: "map_of qs (lit ''allow_service_tier'') = (if ?t = 1 \<or> ?t = 14 \<or> ?t = 57 then Some (JBool (cf_allow_service_tier f)) else None)"
    by (rule flag) (simp_all add: type_fields_lookup type_keys_def)
  have store: "map_of qs (lit ''disable_store'') = (if ?t = 1 \<or> ?t = 57 then Some (JBool (cf_disable_store f)) else None)"
    by (rule flag) (simp_all add: type_fields_lookup type_keys_def)
  have safety: "map_of qs (lit ''allow_safety_identifier'') = (if ?t = 1 \<or> ?t = 57 then Some (JBool (cf_allow_safety_identifier f)) else None)"
    by (rule flag) (simp_all add: type_fields_lookup type_keys_def)
  have obfuscation: "map_of qs (lit ''allow_include_obfuscation'') = (if ?t = 1 \<or> ?t = 57 then Some (JBool (cf_allow_include_obfuscation f)) else None)"
    by (rule flag) (simp_all add: type_fields_lookup type_keys_def)
  have geo: "map_of qs (lit ''allow_inference_geo'') = (if ?t = 1 \<or> ?t = 57 \<or> ?t = 14 then Some (JBool (cf_allow_inference_geo f)) else None)"
    by (rule flag) (simp_all add: type_fields_lookup type_keys_def)
  have speed: "map_of qs (lit ''allow_speed'') = (if ?t = 14 then Some (JBool (cf_allow_speed f)) else None)"
    by (rule flag) (simp_all add: type_fields_lookup type_keys_def)
  have beta: "map_of qs (lit ''claude_beta_query'') = (if ?t = 14 then Some (JBool (cf_claude_beta_query f)) else None)"
    by (rule flag) (simp_all add: type_fields_lookup type_keys_def)
  have sleep: "map_of qs (lit ''disable_task_polling_sleep'') = Some (JBool (cf_disable_task_polling_sleep f))"
    using flag [of "''disable_task_polling_sleep''" True] by (simp add: type_fields_lookup type_keys_def)
  have flag': "(if P then Some (JBool (fld (JObj qs) k = JBool True)) else None) = map_of qs (lit k)"
    if "map_of qs (lit k) = (if P then Some (JBool x) else None)" for k P x
    using that by simp
  have vertex': "(if ?t = 41 then Some (or_val (cf_vertex_key_type g) (JStr (lit ''json''))) else None) = map_of qs (lit ''vertex_key_type'')"
    unfolding g(1) using vertex a(2) by (simp add: or_val_def)
  have aws': "(if ?t = 33 then Some (or_val (cf_aws_key_type g) (JStr (lit ''ak_sk''))) else None) = map_of qs (lit ''aws_key_type'')"
    unfolding g(4) using aws b(2) by (simp add: or_val_def)
  have azure': "(if ?t = 3 \<and> truthy (cf_azure_responses_version g) then Some (cf_azure_responses_version g) else None)
      = map_of qs (lit ''azure_responses_version'')"
    unfolding g(2) using azure by (simp add: or_val_def)
  have sleep': "Some (JBool (cf_disable_task_polling_sleep g)) = map_of qs (lit ''disable_task_polling_sleep'')"
    unfolding g(12) using sleep by simp
  show "map_of (type_fields g qs) = map_of qs"
    unfolding type_fields_lookup assms(1) vertex' aws' azure' sleep' unfolding g
      flag' [OF enterprise] flag' [OF tier] flag' [OF store] flag' [OF safety] flag' [OF obfuscation] flag' [OF geo] flag' [OF speed] flag' [OF beta]
    by (simp only: fun_upd_triv)
qed

lemma update_fields_reload:
  assumes "cf_type g = cf_type f"
    and q: "map_of qs = map_option (\<lambda>v. coalesce (json_view v) Null) \<circ> map_of (saved_settings f ps)"
    and g: "cf_upstream_model_update_check_enabled g = (fld (JObj qs) ''upstream_model_update_check_enabled'' = JBool True)"
      "cf_upstream_model_update_auto_sync_enabled g = (fld (JObj qs) ''upstream_model_update_auto_sync_enabled'' = JBool True)"
      "cf_type f \<in> set MODEL_FETCHABLE_TYPES \<Longrightarrow> ignored_models g = ignored_models f"
    and time: "\<And>n. map_of ps (lit ''upstream_model_update_last_check_time'') = Some (JNum n) \<Longrightarrow> num_val n \<noteq> None"
  shows "update_fields g qs = qs"
proof (cases "cf_type f \<in> set MODEL_FETCHABLE_TYPES")
  case True
  let ?c = "cf_upstream_model_update_check_enabled f" and ?a = "cf_upstream_model_update_auto_sync_enabled f"
  let ?ts = "map_of (type_fields f ps)"
  have look: "map_of qs (lit k) = map_option (\<lambda>v. coalesce (json_view v) Null) (map_of (update_fields f (type_fields f ps)) (lit k))"
    if "lit k \<in> set update_keys" for k
    unfolding q comp_def saved_lookup(2) [OF that] ..
  note upd = update_fields_lookup [of f "type_fields f ps", unfolded if_P [OF True]]
  have check: "map_of qs (lit ''upstream_model_update_check_enabled'') = Some (JBool ?c)"
    by (subst look) (simp_all add: upd update_keys_def coalesce_def)
  have auto: "map_of qs (lit ''upstream_model_update_auto_sync_enabled'') = Some (JBool (?c \<and> ?a))"
    by (subst look) (simp_all add: upd update_keys_def coalesce_def)
  have ignored: "map_of qs (lit ''upstream_model_update_ignored_models'') = Some (JArr (map JStr (ignored_models f)))"
    by (subst look) (simp_all add: upd update_keys_def coalesce_def)
  obtain ws where detected: "map_of qs (lit ''upstream_model_update_last_detected_models'') = Some (JArr ws)" "\<not> ?c \<Longrightarrow> ws = []"
  proof -
    have "map_of (update_fields f (type_fields f ps)) (lit ''upstream_model_update_last_detected_models'')
      = Some (case ?ts (lit ''upstream_model_update_last_detected_models'') of Some (JArr vs) \<Rightarrow> JArr (if ?c then vs else []) | _ \<Rightarrow> JArr [])"
      by (simp add: upd)
    then obtain vs where "map_of (update_fields f (type_fields f ps)) (lit ''upstream_model_update_last_detected_models'') = Some (JArr vs)" "\<not> ?c \<longrightarrow> vs = []"
      by (auto split: option.splits jsval.splits)
    then show ?thesis using that look [of "''upstream_model_update_last_detected_models''"] by (simp add: update_keys_def coalesce_def)
  qed
  obtain m where m: "map_of qs (lit ''upstream_model_update_last_check_time'') = Some (JNum m)"
  proof -
    have p: "?ts (lit ''upstream_model_update_last_check_time'') = map_of ps (lit ''upstream_model_update_last_check_time'')"
      by (rule other_keys) (simp add: type_keys_def)
    have "map_of (update_fields f (type_fields f ps)) (lit ''upstream_model_update_last_check_time'')
      = Some (case map_of ps (lit ''upstream_model_update_last_check_time'') of Some (JNum n) \<Rightarrow> JNum n | _ \<Rightarrow> JNum (Fin 0))"
      by (simp add: upd p)
    then obtain x where "map_of (update_fields f (type_fields f ps)) (lit ''upstream_model_update_last_check_time'') = Some (JNum x)" "num_val x \<noteq> None"
      using time by (auto split: option.splits jsval.splits)
    then show ?thesis using that look [of "''upstream_model_update_last_check_time''"] by (auto simp: update_keys_def coalesce_def)
  qed
  have gc: "cf_upstream_model_update_check_enabled g = ?c" "cf_upstream_model_update_auto_sync_enabled g = (?c \<and> ?a)"
    using g check auto by simp_all
  show ?thesis
  proof (rule update_fields_same)
    have "cf_type g \<in> set MODEL_FETCHABLE_TYPES" using True assms(1) by simp
    then have "map_of (update_fields g qs) = (map_of qs)
       (lit ''upstream_model_update_check_enabled'' \<mapsto> JBool ?c, lit ''upstream_model_update_auto_sync_enabled'' \<mapsto> JBool (?c \<and> ?a),
        lit ''upstream_model_update_ignored_models'' \<mapsto> JArr (map JStr (ignored_models f)),
        lit ''upstream_model_update_last_detected_models'' \<mapsto> JArr ws, lit ''upstream_model_update_last_check_time'' \<mapsto> JNum m)"
      using detected(2) unfolding update_fields_lookup gc g(3) [OF True] detected(1) m by (cases ?c) simp_all
    also have "\<dots> = map_of qs"
      unfolding check [symmetric] auto [symmetric] ignored [symmetric] detected(1) [symmetric] m [symmetric] by (simp only: fun_upd_triv)
    finally show "map_of (update_fields g qs) = map_of qs" .
  qed
qed (simp add: update_fields_def assms)

lemma settings_reload:
  assumes schema: "channelFormSchema parse_proxy parse_url num lower f" and "prints_num num 0" and "typed_custom f"
    and ps: "existing_settings f = JObj ps" "json_ok num (JObj ps)" "json_view (JObj ps) = Some (JObj ps)"
  shows "\<exists>t. buildSettingsJSON num f = Some t \<and>
    (ch_settings c = t \<longrightarrow> ch_type c = cf_type f \<longrightarrow> buildSettingsJSON num (transformChannelToFormDefaults num lower c) = Some t)"
proof -
  note t = schema_fields [OF schema]
  define P where "P = (\<lambda>v. json_ok num v \<and> v \<noteq> Undefined)"
  define S where "S = saved_settings f ps"
  define Q where "Q = view_props S"
  let ?adv = "cf_type f = CHANNEL_TYPE_ADVANCED_CUSTOM"
  have config: "\<exists>n v t. parseAdvancedCustomConfig (cf_advanced_custom f) = Some n \<and> json_ok num n \<and> json_view n = Some v \<and> truthy v
    \<and> stringifyAdvancedCustomConfig num v = Some t \<and> parseAdvancedCustomConfig (Some t) = Some n" if ?adv
    using custom_config_reload [OF t(14) [OF that] assms(3)] by blast
  have "props_ok P ps"
  proof -
    have "P v" if "(k, v) \<in> set ps" for k v using that ps(2) view_props_id [OF ps(3) that] by (auto simp: P_def)
    then show ?thesis using ps(2) by (auto simp: props_ok_def)
  qed
  moreover have "P (or_val (cf_vertex_key_type f) (JStr (lit ''json'')))" "P (or_val (cf_aws_key_type f) (JStr (lit ''ak_sk'')))"
    using opt_cases(3) [OF t(9), of "lit ''json''"] opt_cases(3) [OF t(10), of "lit ''ak_sk''"] by (auto simp: P_def)
  moreover have "truthy (cf_azure_responses_version f) \<Longrightarrow> P (cf_azure_responses_version f)"
    using t(11) by (cases "cf_azure_responses_version f") (auto simp: P_def opt_string_def)
  ultimately have "props_ok P (type_fields f ps)" by (intro type_fields_ok) (auto simp: P_def)
  then have "props_ok P (update_fields f (type_fields f ps))" using assms(2) by (intro update_fields_ok) (auto simp: P_def)
  then have S: "props_ok P S" unfolding S_def saved_settings_def
  proof (rule advanced_field_ok)
    fix n assume ?adv "parseAdvancedCustomConfig (cf_advanced_custom f) = Some n"
    then obtain v where "json_ok num n" "json_view n = Some v" using config by auto
    then show "P n" by (cases n) (auto simp: P_def)
  qed
  have ok: "json_ok num (JObj S)" and view: "json_view (JObj S) = Some (JObj Q)"
    using S json_view_props [of S] unfolding props_ok_def P_def Q_def by fastforce+
  obtain s where s: "json_stringify num [] (JObj S) = Some s" by (simp add: json_stringify_def)
  have build: "buildSettingsJSON num f = Some s" using s ps(1) by (simp add: buildSettingsJSON_def S_def saved_settings_def)
  have parse: "json_parse s = Some (JObj Q)" using json_parse_stringify [OF _ ok s] view by simp
  have q: "map_of Q = map_option (\<lambda>v. coalesce (json_view v) Null) \<circ> map_of (saved_settings f ps)"
    by (simp add: fun_eq_iff Q_def map_of_view_props S_def)
  have "buildSettingsJSON num (transformChannelToFormDefaults num lower c) = Some s" if c: "ch_settings c = s" "ch_type c = cf_type f"
  proof -
    define g where "g = transformChannelToFormDefaults num lower c"
    have ne: "s \<noteq> []" using parse json_parse_Nil by auto
    have lt: "load_types num s = parsed_types num (JObj Q)" using parse ne by (simp add: load_types_def)
    note lg = loaded_types [of num lower c, folded g_def, unfolded c, unfolded lt]
    have empty: "json_parse (lit ''{}'') = Some (JObj [])" by code_simp
    have ex: "existing_settings g = JObj Q"
      using parse ne empty by (auto simp: existing_settings_def lg(2) or_str_def coalesce_def)
    have types: "type_fields g Q = Q"
      by (rule type_fields_reload [OF lg(1) q t(9,10,11)]) (simp_all only: lg parsed_types_simps)
    have ign: "ts_upstreamModelUpdateIgnoredModels (parsed_types num (JObj Q)) = join [44] (ignored_models f)"
      and adv: "ts_advancedCustom (parsed_types num (JObj Q)) =
        (if truthy (fld (JObj Q) ''advanced_custom'') then coalesce (stringifyAdvancedCustomConfig num (fld (JObj Q) ''advanced_custom'')) [] else [])"
      if "cf_type f \<in> set MODEL_FETCHABLE_TYPES"
    proof -
      have "map_of S (lit ''upstream_model_update_ignored_models'') = Some (JArr (map JStr (ignored_models f)))"
        unfolding S_def using that by (subst saved_lookup(2)) (simp_all add: update_keys_def update_fields_lookup)
      then have "fld (JObj Q) ''upstream_model_update_ignored_models'' = JArr (map JStr (ignored_models f))"
        by (simp add: q S_def coalesce_def)
      then show "ts_upstreamModelUpdateIgnoredModels (parsed_types num (JObj Q)) = join [44] (ignored_models f)"
        "ts_advancedCustom (parsed_types num (JObj Q)) =
          (if truthy (fld (JObj Q) ''advanced_custom'') then coalesce (stringifyAdvancedCustomConfig num (fld (JObj Q) ''advanced_custom'')) [] else [])"
        by (simp_all add: parsed_types_def Let_def is_nullish_def string_list_text default_types_def coalesce_def del: get_prop.simps split: option.split)
    qed
    have updates: "update_fields g Q = Q"
    proof (rule update_fields_reload [OF lg(1) q])
      show "cf_type f \<in> set MODEL_FETCHABLE_TYPES \<Longrightarrow> ignored_models g = ignored_models f"
        using ign by (intro ignored_models_text) (simp add: lg)
      fix n assume "map_of ps (lit ''upstream_model_update_last_check_time'') = Some (JNum n)"
      then have "json_view (JNum n) = Some (JNum n)" using view_props_id [OF ps(3)] map_of_SomeD by metis
      then show "num_val n \<noteq> None" by (auto split: option.splits)
    qed (simp_all only: lg parsed_types_simps)
    have "json_view (JObj (advanced_field g Q)) = Some (JObj Q)"
    proof (cases ?adv)
      case False
      then have "map_of Q (lit ''advanced_custom'') = None" by (simp add: q saved_lookup(1))
      then have "advanced_field g Q = Q" using False by (simp add: advanced_field_def lg delete_absent)
      then show ?thesis using json_view_idem [OF view] by (simp only:)
    next
      case True
      obtain n v x where n: "parseAdvancedCustomConfig (cf_advanced_custom f) = Some n" "json_view n = Some v" "truthy v"
        "stringifyAdvancedCustomConfig num v = Some x" "parseAdvancedCustomConfig (Some x) = Some n" using config [OF True] by blast
      have mq: "map_of Q (lit ''advanced_custom'') = Some v" using True n by (simp add: q saved_lookup(1) coalesce_def)
      have "cf_type f \<in> set MODEL_FETCHABLE_TYPES" unfolding True by code_simp
      then have "cf_advanced_custom g = Some x" using adv mq n by (simp add: lg coalesce_def)
      then have "advanced_field g Q = set_key ''advanced_custom'' n Q" using True n(5) by (simp add: advanced_field_def lg)
      moreover have "view_props (set_key ''advanced_custom'' n Q) = Q"
        using mq n(2) by (simp add: view_props_update Q_def view_props_idem coalesce_def update_same)
      moreover have "props_ok (\<lambda>v. v \<noteq> Undefined) (set_key ''advanced_custom'' n Q)"
      proof (rule props_ok_update)
        show "n \<noteq> Undefined" using n(2) by auto
        have "coalesce (json_view v) Null \<noteq> Undefined" for v
          using json_view_idem [of v] by (cases "json_view v") (auto simp: coalesce_def)
        then show "props_ok (\<lambda>v. v \<noteq> Undefined) Q"
          using S unfolding props_ok_def Q_def view_props_def by (auto simp: comp_def case_prod_unfold)
      qed
      ultimately show ?thesis using json_view_props [of "set_key ''advanced_custom'' n Q"] by (auto simp: props_ok_def)
    qed
    then have "json_stringify num [] (JObj (advanced_field g Q)) = Some s"
      using json_stringify_view [OF view, of num "[]"] json_stringify_view [of "JObj (advanced_field g Q)" "JObj Q" num "[]"] s by simp
    then show ?thesis unfolding g_def [symmetric] by (simp add: buildSettingsJSON_def ex types updates)
  qed
  then show ?thesis using build by blast
qed

subsection \<open>A sample form\<close>

lemma prints_digit:
  assumes "n < 10" and "num (of_nat n) = [48 + n]"
  shows "prints_num num (of_nat n)"
proof -
  have "parse_number ((48 + n) # r) = Some (Fin (of_nat n), r)" if "delim r" for r
  proof (cases r)
    case Nil
    then show ?thesis using assms(1)
      by (simp add: parse_number_def digits_prefix_def is_digit_def parse_exponent_def read_nat_def power10_def)
  next
    case (Cons c r')
    then have "c \<in> {44, 93, 125, 32, 9, 10, 13}" using that by (auto simp: delim_def is_json_ws_def)
    then show ?thesis using assms(1) Cons
      by (auto simp: parse_number_def digits_prefix_def is_digit_def parse_exponent_def read_nat_def power10_def)
  qed
  then show ?thesis using assms by (simp add: prints_num_def is_digit_def)
qed

definition digit_num :: "rat \<Rightarrow> jstring" where
  "digit_num q = show_nat (nat \<lfloor>q\<rfloor>)"

definition sample_form :: channel_form where
  "sample_form = CHANNEL_FORM_DEFAULT_VALUES
     \<lparr>cf_name := lit ''a'', cf_models := lit ''m'', cf_settings := Some (lit ''{}''),
      cf_http2_connection_shards := JNum (Fin 4), cf_upstream_model_update_check_enabled := True,
      cf_upstream_model_update_ignored_models := Some (lit ''x, y,x'')\<rparr>"

definition sample_channel :: "jstring \<Rightarrow> jstring \<Rightarrow> channel" where
  "sample_channel s t = \<lparr>ch_id = 1, ch_type = 1, ch_name = lit ''a'', ch_status = 1, ch_openai_organization = None, ch_test_model = None,
     ch_weight = None, ch_priority = None, ch_base_url = None, ch_other = [], ch_models = lit ''m'', ch_group = [], ch_model_mapping = None,
     ch_status_code_mapping = None, ch_auto_ban = None, ch_tag = None, ch_setting = Some s, ch_param_override = None,
     ch_header_override = None, ch_remark = [], ch_settings = t, ch_multi_key_mode = []\<rparr>"

lemma digit_num_prints: "\<forall>n \<in> {0..8::nat}. prints_num digit_num (of_nat n)"
  by (auto intro!: prints_digit simp: digit_num_def) (subst show_nat.simps, simp)

text \<open>
  C33. A channel form that the schema accepts is saved without an exception, and the settings it is saved
  with are stable: opening the channel with the saved texts and saving it again without a change writes
  the same two texts. So what is set for the type of the channel, the transport and the upstream checks
  survives, and every property of the settings that the form does not know is kept.
\<close>

theorem channel_settings_roundtrip:
  assumes "channelFormSchema parse_proxy parse_url num lower f" and "typed_custom f"
    and "\<forall>s \<in> {[], HTTP_PROTOCOL_AUTO, HTTP_PROTOCOL_HTTP1}. lower s = s"
    and "\<forall>n \<in> {0..8::nat}. prints_num num (of_nat n)"
    and "existing_settings f = JObj ps" and "json_ok num (JObj ps)" and "json_view (JObj ps) = Some (JObj ps)"
  shows "\<exists>s t. buildSettingJSON num lower f = Some s \<and> buildSettingsJSON num f = Some t \<and>
    (ch_setting c = Some s \<and> ch_settings c = t \<and> ch_type c = cf_type f \<longrightarrow>
      buildSettingJSON num lower (transformChannelToFormDefaults num lower c) = Some s
      \<and> buildSettingsJSON num (transformChannelToFormDefaults num lower c) = Some t)"
proof -
  have "prints_num num 0" using assms(4) by force
  then show ?thesis
    using setting_reload [OF assms(1,3,4), of c] settings_reload [OF assms(1) _ assms(2,5,6,7), of c] by blast
qed

theorem channel_settings_roundtrip_witness:
  "\<exists>s t. buildSettingJSON digit_num (\<lambda>s. s) sample_form = Some s \<and> buildSettingsJSON digit_num sample_form = Some t
    \<and> buildSettingJSON digit_num (\<lambda>s. s) (transformChannelToFormDefaults digit_num (\<lambda>s. s) (sample_channel s t)) = Some s
    \<and> buildSettingsJSON digit_num (transformChannelToFormDefaults digit_num (\<lambda>s. s) (sample_channel s t)) = Some t"
proof -
  have "buildSettingJSON digit_num (\<lambda>s. s) sample_form \<noteq> None" "buildSettingsJSON digit_num sample_form \<noteq> None" by code_simp+
  then obtain s t where st: "buildSettingJSON digit_num (\<lambda>s. s) sample_form = Some s" "buildSettingsJSON digit_num sample_form = Some t" by auto
  have "channelFormSchema (\<lambda>_. None) (\<lambda>_. None) digit_num (\<lambda>s. s) sample_form" "typed_custom sample_form"
    "existing_settings sample_form = JObj []" "cf_type sample_form = 1" by code_simp+
  then show ?thesis
    using channel_settings_roundtrip [of "\<lambda>_. None" "\<lambda>_. None" digit_num "\<lambda>s. s" sample_form "[]" "sample_channel s t"]
      digit_num_prints st by (simp add: sample_channel_def)
qed

text \<open>
  C34. What the settings of a channel hold after saving, property by property. Each of the twelve
  properties that belong to some types is there with the value of the form when the channel has such a
  type (the version of Azure: when it is not empty) and is gone otherwise. The custom routes are there for the advanced custom type alone. The
  five properties of the upstream model checks are written for the types whose models can be fetched;
  for the other types they stay as they were. A property that the form does not manage stays as it was.
\<close>

theorem settings_match_type:
  assumes "existing_settings f = JObj ps"
  shows "\<exists>qs. buildSettingsJSON num f = json_stringify num [] (JObj qs)
    \<and> map_of qs (lit ''vertex_key_type'') = (if cf_type f = 41 then Some (or_val (cf_vertex_key_type f) (JStr (lit ''json''))) else None)
    \<and> map_of qs (lit ''azure_responses_version'') =
        (if cf_type f = 3 \<and> truthy (cf_azure_responses_version f) then Some (cf_azure_responses_version f) else None)
    \<and> map_of qs (lit ''openrouter_enterprise'') = (if cf_type f = 20 then Some (JBool (cf_is_enterprise_account f)) else None)
    \<and> map_of qs (lit ''aws_key_type'') = (if cf_type f = 33 then Some (or_val (cf_aws_key_type f) (JStr (lit ''ak_sk''))) else None)
    \<and> map_of qs (lit ''allow_service_tier'') = (if cf_type f \<in> {1, 14, 57} then Some (JBool (cf_allow_service_tier f)) else None)
    \<and> map_of qs (lit ''disable_store'') = (if cf_type f \<in> {1, 57} then Some (JBool (cf_disable_store f)) else None)
    \<and> map_of qs (lit ''allow_safety_identifier'') = (if cf_type f \<in> {1, 57} then Some (JBool (cf_allow_safety_identifier f)) else None)
    \<and> map_of qs (lit ''allow_include_obfuscation'') = (if cf_type f \<in> {1, 57} then Some (JBool (cf_allow_include_obfuscation f)) else None)
    \<and> map_of qs (lit ''allow_inference_geo'') = (if cf_type f \<in> {1, 14, 57} then Some (JBool (cf_allow_inference_geo f)) else None)
    \<and> map_of qs (lit ''allow_speed'') = (if cf_type f = 14 then Some (JBool (cf_allow_speed f)) else None)
    \<and> map_of qs (lit ''claude_beta_query'') = (if cf_type f = 14 then Some (JBool (cf_claude_beta_query f)) else None)
    \<and> map_of qs (lit ''disable_task_polling_sleep'') = Some (JBool (cf_disable_task_polling_sleep f))
    \<and> map_of qs (lit ''advanced_custom'') =
        (if cf_type f = CHANNEL_TYPE_ADVANCED_CUSTOM
         then (case parseAdvancedCustomConfig (cf_advanced_custom f) of Some n \<Rightarrow> Some n | None \<Rightarrow> map_of ps (lit ''advanced_custom''))
         else None)
    \<and> (if cf_type f \<in> set MODEL_FETCHABLE_TYPES then
         map_of qs (lit ''upstream_model_update_check_enabled'') = Some (JBool (cf_upstream_model_update_check_enabled f))
         \<and> map_of qs (lit ''upstream_model_update_auto_sync_enabled'') =
             Some (JBool (cf_upstream_model_update_check_enabled f \<and> cf_upstream_model_update_auto_sync_enabled f))
         \<and> map_of qs (lit ''upstream_model_update_ignored_models'') = Some (JArr (map JStr (ignored_models f)))
         \<and> map_of qs (lit ''upstream_model_update_last_detected_models'') =
             Some (case map_of ps (lit ''upstream_model_update_last_detected_models'') of
                     Some (JArr vs) \<Rightarrow> JArr (if cf_upstream_model_update_check_enabled f then vs else []) | _ \<Rightarrow> JArr [])
         \<and> map_of qs (lit ''upstream_model_update_last_check_time'') =
             Some (case map_of ps (lit ''upstream_model_update_last_check_time'') of Some (JNum n) \<Rightarrow> JNum n | _ \<Rightarrow> JNum (Fin 0))
       else \<forall>k \<in> set update_keys. map_of qs k = map_of ps k)
    \<and> (\<forall>k. k \<notin> set type_keys \<longrightarrow> k \<notin> set update_keys \<longrightarrow> k \<noteq> lit ''advanced_custom'' \<longrightarrow> map_of qs k = map_of ps k)"
proof (intro exI conjI)
  let ?S = "saved_settings f ps"
  show "buildSettingsJSON num f = json_stringify num [] (JObj ?S)"
    by (simp add: buildSettingsJSON_def assms saved_settings_def)
  show "\<forall>k. k \<notin> set type_keys \<longrightarrow> k \<notin> set update_keys \<longrightarrow> k \<noteq> lit ''advanced_custom'' \<longrightarrow> map_of ?S k = map_of ps k"
    by (simp add: saved_lookup(4))
qed (rule saved_type_settings saved_lookup(1) saved_update_settings)+

theorem settings_match_type_witness:
  "\<exists>qs. buildSettingsJSON digit_num sample_form = json_stringify digit_num [] (JObj qs)
    \<and> map_of qs (lit ''disable_store'') = Some (JBool False) \<and> map_of qs (lit ''allow_service_tier'') = Some (JBool False)
    \<and> map_of qs (lit ''claude_beta_query'') = None \<and> map_of qs (lit ''upstream_model_update_check_enabled'') = Some (JBool True)
    \<and> map_of qs (lit ''x'') = None"
proof -
  have f: "existing_settings sample_form = JObj []" "cf_type sample_form = 1" "cf_disable_store sample_form = False"
    "cf_allow_service_tier sample_form = False" "cf_upstream_model_update_check_enabled sample_form = True"
    "1 \<in> set MODEL_FETCHABLE_TYPES" "lit ''x'' \<notin> set type_keys" "lit ''x'' \<notin> set update_keys" "lit ''x'' \<noteq> lit ''advanced_custom''"
    by code_simp+
  from settings_match_type [of sample_form "[]" digit_num, OF f(1)] show ?thesis
    by (rule ex_forward) (use f in simp)
qed

text \<open>Parsing never gives \<^verbatim>\<open>undefined\<close>, and a blank text is not JSON.\<close>

lemma parse_shape:
  "(\<forall>acc s v r. parse_elements n acc s = Some (v, r) \<longrightarrow> v \<noteq> Undefined)
   \<and> (\<forall>acc s v r. parse_members n acc s = Some (v, r) \<longrightarrow> v \<noteq> Undefined)"
proof (induction n)
  case (Suc n)
  then show ?case by (auto split: option.splits list.splits if_splits)
qed simp

lemma json_parse_defined: "json_parse s \<noteq> Some Undefined"
proof -
  have "parse_value n s \<noteq> Some (Undefined, r)" for n r
    using parse_shape [of "n - 1"]
    by (cases n) (auto simp: expect_def split: list.splits if_splits, blast+)
  then show ?thesis by (auto simp: json_parse_def simp del: parse_value.simps split: option.splits if_splits)
qed

lemma json_parse_blank:
  assumes "trim s = []"
  shows "json_parse s = None"
proof -
  have "parse_value (Suc n) s = None" for n
  proof (cases "skip_ws s")
    case (Cons c s')
    then have "c \<in> set s" using set_dropWhileD [of c is_json_ws s] by (simp add: skip_ws_def)
    then have c: "is_ws c" using trim_not_Nil assms by blast
    then have "parse_number (c # s') = None" by (auto simp: parse_number_def digits_prefix_def is_ws_def is_digit_def)
    then show ?thesis using Cons c by (auto simp: is_ws_def)
  qed simp
  from this [of "2 * length s + 1"] show ?thesis by (simp add: json_parse_def)
qed

lemma schema_settings:
  assumes "isOptionalJsonObject (cf_settings f)"
  shows "\<exists>ps. existing_settings f = JObj ps"
proof (cases "cf_settings f")
  case (Some s)
  show ?thesis
  proof (cases "json_parse s")
    case v: (Some v)
    then have "trim s \<noteq> []" using json_parse_blank by auto
    then have "is_object v"
      using assms Some v json_parse_defined [of s] by (auto simp: isOptionalJsonObject_def parseOptionalJson_def isJsonObjectValue_def)
    then obtain ps where "v = JObj ps" by (cases v) auto
    then show ?thesis using Some v by (simp add: existing_settings_def coalesce_def Let_def)
  qed (simp add: existing_settings_def Some coalesce_def)
qed (simp add: existing_settings_def coalesce_def)

text \<open>
  C35. Saving an accepted form never throws. The payload of a new channel has no empty text. The payload
  of an update clears each of the nine optional texts by an empty text instead of a missing value, and
  carries the key only when a new one was entered.
\<close>

theorem accepted_form_payloads:
  assumes "channelFormSchema parse_proxy parse_url num lower f"
  shows "\<exists>p u. transformFormDataToCreatePayload num lower f = Some p \<and> transformFormDataToUpdatePayload num lower f i = Some u
    \<and> JStr [] \<notin> snd ` set (cp_channel p)
    \<and> map_of u (lit ''key'') = (if trim (cf_key f) = [] then None else Some (JStr (cf_key f)))
    \<and> map (\<lambda>k. map_of u (lit k)) [''base_url'', ''openai_organization'', ''test_model'', ''tag'', ''remark'', ''model_mapping'',
         ''status_code_mapping'', ''param_override'', ''header_override'']
      = map (\<lambda>v. Some (JStr (coalesce v [])))
         [Some (normalizeBaseUrl (cf_base_url f)), cf_openai_organization f, cf_test_model f, cf_tag f, cf_remark f, cf_model_mapping f,
          cf_status_code_mapping f, cf_param_override f, cf_header_override f]"
proof -
  obtain s where s: "buildSettingJSON num lower f = Some s"
    using setting_object [OF assms] by (metis json_ser_None(1) json_stringify_def jsval.distinct(11) not_None_eq)
  obtain t where t: "buildSettingsJSON num f = Some t"
    using schema_settings [OF schema_fields(12) [OF assms]] by (auto simp: buildSettingsJSON_def json_stringify_def)
  obtain p where p: "transformFormDataToCreatePayload num lower f = Some p" "\<exists>ps. cp_channel p = empty_to_null ps"
    using s t by (simp add: transformFormDataToCreatePayload_def Let_def) blast
  obtain u where u: "transformFormDataToUpdatePayload num lower f i = Some u"
    using s t by (simp add: transformFormDataToUpdatePayload_def Let_def)
  have "JStr [] \<notin> snd ` set (cp_channel p)" using p(2) by (auto simp: empty_to_null_def split: if_splits)
  moreover have "map_of u (lit ''key'') = (if trim (cf_key f) = [] then None else Some (JStr (cf_key f)))"
    using u s t by (auto simp: transformFormDataToUpdatePayload_def Let_def update_conv' empty_to_null_def)
  moreover have "map (\<lambda>k. map_of u (lit k)) [''base_url'', ''openai_organization'', ''test_model'', ''tag'', ''remark'', ''model_mapping'',
         ''status_code_mapping'', ''param_override'', ''header_override'']
      = map (\<lambda>v. Some (JStr (coalesce v [])))
         [Some (normalizeBaseUrl (cf_base_url f)), cf_openai_organization f, cf_test_model f, cf_tag f, cf_remark f, cf_model_mapping f,
          cf_status_code_mapping f, cf_param_override f, cf_header_override f]"
    using u s t by (auto simp: transformFormDataToUpdatePayload_def Let_def update_conv' coalesce_def)
  ultimately show ?thesis using p(1) u by blast
qed

theorem accepted_form_payloads_witness:
  "\<exists>p u. transformFormDataToCreatePayload digit_num (\<lambda>s. s) sample_form = Some p
    \<and> transformFormDataToUpdatePayload digit_num (\<lambda>s. s) sample_form 4 = Some u
    \<and> JStr [] \<notin> snd ` set (cp_channel p) \<and> map_of u (lit ''key'') = None \<and> map_of u (lit ''tag'') = Some (JStr [])"
proof -
  have "channelFormSchema (\<lambda>_. None) (\<lambda>_. None) digit_num (\<lambda>s. s) sample_form" "trim (cf_key sample_form) = []"
    "coalesce (cf_tag sample_form) [] = []" by code_simp+
  then show ?thesis using accepted_form_payloads [of "\<lambda>_. None" "\<lambda>_. None" digit_num "\<lambda>s. s" sample_form 4] by auto
qed

end
