(* ===== verification/Table_Url.thy ===== *)
theory Table_Url
  imports JS_Convert
begin

section \<open>Tables and the URL (\<^verbatim>\<open>hooks/use-table-url-state.ts\<close>)\<close>

text \<open>
  The hook that keeps the page, the page size and the filters of a table in the search parameters of
  the URL, and the tables and routes that use it. The state has the search parameters (the properties
  of an object), the stored page size (the text under a key of the local storage, which can be read and
  written) and the two React states of the hook. The router is an argument: from the search parameters
  it shows and the ones a call of \<^verbatim>\<open>navigate\<close> asks for it gives the ones it shows next, and whether they
  are a new object. The effect of the hook on a new object is part of each operation.
\<close>

subsection \<open>Numbers\<close>

text \<open>\<^verbatim>\<open>Number.parseInt(s, 10)\<close>: white space, a sign, the longest run of digits; what follows is ignored.\<close>

definition parse_int10 :: "jstring \<Rightarrow> int option" where
  "parse_int10 s =
     (let t = trim_start s;
          neg = (t \<noteq> [] \<and> hd t = 45);
          ds = takeWhile is_digit (if t \<noteq> [] \<and> (hd t = 45 \<or> hd t = 43) then tl t else t)
      in if ds = [] then None else Some (if neg then - int (read_nat ds) else int (read_nat ds)))"

text \<open>\<^verbatim>\<open>Math.max(0, n - 1)\<close>\<close>

definition page_index :: "jnum \<Rightarrow> jnum" where
  "page_index n =
     (case n of
        NaN \<Rightarrow> NaN
      | Infinity \<Rightarrow> Infinity
      | NegInfinity \<Rightarrow> Fin 0
      | NegZero \<Rightarrow> Fin 0
      | Fin q \<Rightarrow> Fin (max 0 (q - 1)))"

text \<open>\<^verbatim>\<open>n + 1\<close> and \<^verbatim>\<open>a === b\<close> on numbers\<close>

definition num_succ :: "jnum \<Rightarrow> jnum" where
  "num_succ n = (case n of Fin q \<Rightarrow> Fin (q + 1) | NegZero \<Rightarrow> Fin 1 | _ \<Rightarrow> n)"

definition num_same :: "jnum \<Rightarrow> jnum \<Rightarrow> bool" where
  "num_same a b \<longleftrightarrow> num_less_eq a b \<and> num_less_eq b a"

subsection \<open>Configuration and state\<close>

record column_cfg =
  columnId :: jstring
  searchKey :: jstring
  string_type :: bool
  serialize :: "jsval \<Rightarrow> jsval"
  deserialize :: "jsval \<Rightarrow> jsval"

text \<open>\<open>string_type\<close>: \<^verbatim>\<open>cfg.type === 'string'\<close>. A missing transformer is the identity.\<close>

record table_cfg =
  pageKey :: jstring
  pageSizeKey :: jstring
  defaultPage :: rat
  defaultPageSize :: rat
  globalFilterKey :: jstring
  globalFilterEnabled :: bool
  trimGlobal :: bool
  columnFiltersCfg :: "column_cfg list"

definition default_table :: table_cfg where
  "default_table = \<lparr>pageKey = lit ''page'', pageSizeKey = lit ''pageSize'', defaultPage = 1, defaultPageSize = 20,
     globalFilterKey = lit ''filter'', globalFilterEnabled = True, trimGlobal = True, columnFiltersCfg = []\<rparr>"

type_synonym column_filter = "jstring \<times> jsval"
type_synonym search_params = "(jstring \<times> jsval) list"
type_synonym router = "search_params \<Rightarrow> search_params \<Rightarrow> search_params \<times> bool"

record table_state =
  search :: search_params
  stored_size :: "jstring option"
  columnFilters :: "column_filter list"
  globalFilter :: "jstring option"

record pagination_state =
  pageIndex :: jnum
  pageSize :: jnum

subsection \<open>The stored page size\<close>

definition getStoredPageSize :: "jstring option \<Rightarrow> rat option" where
  "getStoredPageSize stored =
     (case parse_int10 (coalesce stored []) of
        None \<Rightarrow> None
      | Some n \<Rightarrow> if n > 0 then Some (of_int n) else None)"

definition setStoredPageSize :: "(rat \<Rightarrow> jstring) \<Rightarrow> jnum \<Rightarrow> table_state \<Rightarrow> table_state" where
  "setStoredPageSize num sz st = st\<lparr>stored_size := Some (num_string num sz)\<rparr>"

subsection \<open>Reading the URL\<close>

definition sparam :: "search_params \<Rightarrow> jstring \<Rightarrow> jsval" where
  "sparam s k = get_prop (JObj s) k"

definition param :: "table_state \<Rightarrow> jstring \<Rightarrow> jsval" where
  "param st k = sparam (search st) k"

definition nullish_or :: "jsval \<Rightarrow> jsval \<Rightarrow> jsval" where
  "nullish_or a b = (if is_nullish a then b else a)"

definition initial_filter :: "column_cfg \<Rightarrow> jsval \<Rightarrow> column_filter option" where
  "initial_filter cfg raw =
     (if string_type cfg then
        (case nullish_or (deserialize cfg raw) (JStr []) of
           JStr s \<Rightarrow> if trim s \<noteq> [] then Some (columnId cfg, JStr s) else None
         | _ \<Rightarrow> None)
      else
        (case nullish_or (deserialize cfg raw) (JArr []) of
           JArr vs \<Rightarrow> if vs \<noteq> [] then Some (columnId cfg, JArr vs) else None
         | _ \<Rightarrow> None))"

definition initialColumnFilters :: "table_cfg \<Rightarrow> table_state \<Rightarrow> column_filter list" where
  "initialColumnFilters cfg st = List.map_filter (\<lambda>c. initial_filter c (param st (searchKey c))) (columnFiltersCfg cfg)"

definition page_number :: "table_cfg \<Rightarrow> table_state \<Rightarrow> jnum" where
  "page_number cfg st = coalesce (as_num (param st (pageKey cfg))) (Fin (defaultPage cfg))"

definition pagination :: "table_cfg \<Rightarrow> table_state \<Rightarrow> pagination_state" where
  "pagination cfg st =
     \<lparr>pageIndex = page_index (page_number cfg st),
      pageSize = coalesce (as_num (param st (pageSizeKey cfg)))
        (Fin (coalesce (getStoredPageSize (stored_size st)) (defaultPageSize cfg)))\<rparr>"

definition initial_globalFilter :: "table_cfg \<Rightarrow> (jstring \<times> jsval) list \<Rightarrow> jstring option" where
  "initial_globalFilter cfg s =
     (if globalFilterEnabled cfg then Some (str_or (sparam s (globalFilterKey cfg)) []) else None)"

text \<open>The hook on its first render\<close>

definition useTableUrlState :: "table_cfg \<Rightarrow> (jstring \<times> jsval) list \<Rightarrow> jstring option \<Rightarrow> table_state" where
  "useTableUrlState cfg s stored =
     (let st = \<lparr>search = s, stored_size = stored, columnFilters = [], globalFilter = initial_globalFilter cfg s\<rparr>
      in st\<lparr>columnFilters := initialColumnFilters cfg st\<rparr>)"

subsection \<open>Changing the URL\<close>

text \<open>\<^verbatim>\<open>navigate({ search: (prev) => ({ ...prev, ...patch }) })\<close>, followed by the effect on \<^verbatim>\<open>search\<close>\<close>

definition navigate :: "router \<Rightarrow> table_cfg \<Rightarrow> search_params \<Rightarrow> table_state \<Rightarrow> table_state" where
  "navigate router cfg patch st =
     (let (s, changed) = router (search st) (fold (\<lambda>(k, v) ps. AList.update k v ps) patch (search st));
          st1 = st\<lparr>search := s\<rparr>
      in if changed then st1\<lparr>columnFilters := initialColumnFilters cfg st1\<rparr> else st1)"

definition onPaginationChange ::
  "router \<Rightarrow> (rat \<Rightarrow> jstring) \<Rightarrow> table_cfg \<Rightarrow> (pagination_state \<Rightarrow> pagination_state) \<Rightarrow> table_state \<Rightarrow> table_state" where
  "onPaginationChange router num cfg updater st =
     (let nextp = updater (pagination cfg st);
          nextPage = num_succ (pageIndex nextp);
          nextPageSize = pageSize nextp;
          st1 = (if \<not> num_same nextPageSize (pageSize (pagination cfg st)) then setStoredPageSize num nextPageSize st else st)
      in navigate router cfg
           [(pageKey cfg, if num_less_eq nextPage (Fin (defaultPage cfg)) then Undefined else JNum nextPage),
            (pageSizeKey cfg, JNum nextPageSize)] st1)"

definition onGlobalFilterChange :: "router \<Rightarrow> table_cfg \<Rightarrow> (jstring \<Rightarrow> jstring) \<Rightarrow> table_state \<Rightarrow> table_state" where
  "onGlobalFilterChange router cfg updater st =
     (if \<not> globalFilterEnabled cfg then st
      else
        let nextText = updater (coalesce (globalFilter st) []);
            filterText = (if trimGlobal cfg then trim nextText else nextText)
        in navigate router cfg
             [(pageKey cfg, Undefined), (globalFilterKey cfg, if filterText \<noteq> [] then JStr filterText else Undefined)]
             (st\<lparr>globalFilter := Some filterText\<rparr>))"

definition filter_param :: "column_cfg \<Rightarrow> column_filter list \<Rightarrow> jsval" where
  "filter_param cfg fs =
     (let found = map_of fs (columnId cfg) in
      if string_type cfg then
        (let v = str_or (coalesce found Undefined) [] in if trim v \<noteq> [] then serialize cfg (JStr v) else Undefined)
      else
        (let vs = (case found of Some (JArr vs) \<Rightarrow> vs | _ \<Rightarrow> []) in if vs \<noteq> [] then serialize cfg (JArr vs) else Undefined))"

definition onColumnFiltersChange ::
  "router \<Rightarrow> table_cfg \<Rightarrow> (column_filter list \<Rightarrow> column_filter list) \<Rightarrow> table_state \<Rightarrow> table_state" where
  "onColumnFiltersChange router cfg updater st =
     (let nextFilters = updater (columnFilters st);
          patch = map (\<lambda>c. (searchKey c, filter_param c nextFilters)) (columnFiltersCfg cfg)
      in navigate router cfg ((pageKey cfg, Undefined) # patch) (st\<lparr>columnFilters := nextFilters\<rparr>))"

definition ensurePageInRange :: "router \<Rightarrow> table_cfg \<Rightarrow> nat \<Rightarrow> bool \<Rightarrow> table_state \<Rightarrow> table_state" where
  "ensurePageInRange router cfg pageCount reset_to_last st =
     (if pageCount > 0 \<and> num_less (Fin (of_nat pageCount)) (page_number cfg st)
      then navigate router cfg [(pageKey cfg, if reset_to_last then JNum (Fin (of_nat pageCount)) else Undefined)] st
      else st)"

subsection \<open>The tables\<close>

definition array_column :: "string \<Rightarrow> string \<Rightarrow> column_cfg" where
  "array_column c k = \<lparr>columnId = lit c, searchKey = lit k, string_type = False, serialize = (\<lambda>v. v), deserialize = (\<lambda>v. v)\<rparr>"

definition string_column :: "string \<Rightarrow> string \<Rightarrow> column_cfg" where
  "string_column c k = \<lparr>columnId = lit c, searchKey = lit k, string_type = True, serialize = (\<lambda>v. v), deserialize = (\<lambda>v. v)\<rparr>"

definition usersTable :: "bool \<Rightarrow> table_cfg" where
  "usersTable isMobile = default_table\<lparr>defaultPageSize := if isMobile then 10 else 20,
     columnFiltersCfg := [array_column ''status'' ''status'', array_column ''role'' ''role'', string_column ''group'' ''group'']\<rparr>"

definition redemptionsTable :: "bool \<Rightarrow> table_cfg" where
  "redemptionsTable isMobile = default_table\<lparr>defaultPageSize := if isMobile then 10 else 20,
     columnFiltersCfg := [array_column ''status'' ''status'']\<rparr>"

definition modelsTable :: "bool \<Rightarrow> table_cfg" where
  "modelsTable isMobile = default_table\<lparr>defaultPageSize := if isMobile then 10 else 20,
     columnFiltersCfg :=
       [array_column ''status'' ''status'', array_column ''vendor_id'' ''vendor'', array_column ''sync_official'' ''sync'']\<rparr>"

definition deploymentsTable :: "bool \<Rightarrow> table_cfg" where
  "deploymentsTable isMobile = default_table\<lparr>pageKey := lit ''dPage'', pageSizeKey := lit ''dPageSize'',
     defaultPageSize := if isMobile then 8 else 10, globalFilterKey := lit ''dFilter'',
     columnFiltersCfg := [array_column ''status'' ''dStatus'']\<rparr>"

definition apiKeysTable :: table_cfg where
  "apiKeysTable = default_table\<lparr>
     columnFiltersCfg := [array_column ''status'' ''status'', string_column ''_tokenSearch'' ''token'']\<rparr>"

definition deserializeLogTypeFilter :: "(rat \<Rightarrow> jstring) \<Rightarrow> jsval \<Rightarrow> jsval" where
  "deserializeLogTypeFilter num v =
     (let vs = (case v of JArr vs \<Rightarrow> vs | _ \<Rightarrow> if truthy v then [v] else [])
      in JArr (filter (\<lambda>item. js_string (num_string num) item \<noteq> lit ''0'') vs))"

definition usageLogsTable :: "(rat \<Rightarrow> jstring) \<Rightarrow> bool \<Rightarrow> bool \<Rightarrow> table_cfg" where
  "usageLogsTable num isMobile isAdmin = default_table\<lparr>defaultPageSize := if isMobile then 20 else 100,
     globalFilterEnabled := False,
     columnFiltersCfg :=
       [(array_column ''created_at'' ''type'')\<lparr>deserialize := deserializeLogTypeFilter num\<rparr>,
        string_column ''model_name'' ''model'', string_column ''token_name'' ''token'', string_column ''group'' ''group''] @
       (if isAdmin then [string_column ''channel'' ''channel'', string_column ''username'' ''username''] else [])\<rparr>"

text \<open>The channels table falls back to the status under a key of the local storage (\<open>stored\<close>).\<close>

definition channelStatus :: "jstring option \<Rightarrow> jsval \<Rightarrow> jsval" where
  "channelStatus stored v =
     (if v \<noteq> Undefined then v
      else if stored = Some (lit ''enabled'') \<or> stored = Some (lit ''disabled'') then JArr [JStr (the stored)] else JArr [])"

definition channelsTable :: "bool \<Rightarrow> jstring option \<Rightarrow> table_cfg" where
  "channelsTable isMobile stored = default_table\<lparr>defaultPageSize := if isMobile then 10 else 20,
     columnFiltersCfg :=
       [(array_column ''status'' ''status'')\<lparr>deserialize := channelStatus stored\<rparr>,
        array_column ''type'' ''type'', array_column ''group'' ''group'', string_column ''model'' ''model'']\<rparr>"

definition first_item :: "jsval \<Rightarrow> jsval" where
  "first_item v =
     (case v of
        JArr (x # _) \<Rightarrow> x
      | JStr (c # _) \<Rightarrow> JStr [c]
      | JObj ps \<Rightarrow> get_prop (JObj ps) (lit ''0'')
      | _ \<Rightarrow> Undefined)"

definition handleColumnFiltersChange ::
  "router \<Rightarrow> (rat \<Rightarrow> jstring) \<Rightarrow> bool \<Rightarrow> (column_filter list \<Rightarrow> column_filter list) \<Rightarrow>
     table_state \<times> jstring option \<Rightarrow> table_state \<times> jstring option" where
  "handleColumnFiltersChange router num isMobile updater p =
     (let st = fst p;
          nextFilters = updater (columnFilters st);
          status = first_item (coalesce (map_of nextFilters (lit ''status'')) Undefined);
          stored' = Some (if is_nullish status then lit ''all'' else js_string (num_string num) status)
      in (onColumnFiltersChange router (channelsTable isMobile stored') (\<lambda>_. nextFilters) st, stored'))"

type_synonym sorting_state = "(jstring \<times> bool) list"

definition handleSortingChange ::
  "router \<Rightarrow> (rat \<Rightarrow> jstring) \<Rightarrow> table_cfg \<Rightarrow> (sorting_state \<Rightarrow> sorting_state) \<Rightarrow>
     sorting_state \<times> table_state \<Rightarrow> sorting_state \<times> table_state" where
  "handleSortingChange router num cfg updater p =
     (let (sorting, st) = p
      in (updater sorting,
          if num_less (Fin 0) (pageIndex (pagination cfg st))
          then onPaginationChange router num cfg (\<lambda>_. (pagination cfg st)\<lparr>pageIndex := Fin 0\<rparr>) st
          else st))"

subsection \<open>The routes\<close>

text \<open>
  What a route accepts for a search parameter: the type of the field, every field being optional, and
  the value that \<^verbatim>\<open>.catch\<close> puts in the place of another (\<open>None\<close> without \<^verbatim>\<open>.catch\<close>: the route fails).
\<close>

datatype field_type = NumberField | StringField | StringsField | EnumsField "jstring list" | LogTypesField "jstring list"

type_synonym search_schema = "(jstring \<times> field_type \<times> jsval option) list"

definition channelsSearchSchema :: search_schema where
  "channelsSearchSchema =
     [(lit ''page'', NumberField, Some (JNum (Fin 1))), (lit ''pageSize'', NumberField, Some Undefined),
      (lit ''filter'', StringField, Some (JStr [])), (lit ''status'', StringsField, Some (JArr [])),
      (lit ''type'', StringsField, Some (JArr [])), (lit ''group'', StringsField, Some (JArr [])),
      (lit ''model'', StringField, Some (JStr []))]"

definition usersSearchSchema :: search_schema where
  "usersSearchSchema =
     [(lit ''page'', NumberField, Some (JNum (Fin 1))), (lit ''pageSize'', NumberField, Some Undefined),
      (lit ''filter'', StringField, Some (JStr [])),
      (lit ''status'', EnumsField [lit ''-1'', lit ''1'', lit ''2''], Some (JArr [])),
      (lit ''role'', EnumsField [lit ''1'', lit ''10'', lit ''100''], Some (JArr [])),
      (lit ''group'', StringField, Some (JStr []))]"

definition REDEMPTION_FILTER_VALUES :: "jstring list" where
  "REDEMPTION_FILTER_VALUES = [lit ''1'', lit ''2'', lit ''3'', lit ''expired'']"

definition redemptionsSearchSchema :: search_schema where
  "redemptionsSearchSchema =
     [(lit ''page'', NumberField, Some (JNum (Fin 1))), (lit ''pageSize'', NumberField, Some (JNum (Fin 10))),
      (lit ''filter'', StringField, Some (JStr [])),
      (lit ''status'', EnumsField REDEMPTION_FILTER_VALUES, Some (JArr []))]"

definition apiKeySearchSchema :: search_schema where
  "apiKeySearchSchema =
     [(lit ''page'', NumberField, Some (JNum (Fin 1))), (lit ''pageSize'', NumberField, Some Undefined),
      (lit ''status'', EnumsField [lit ''1'', lit ''2'', lit ''3'', lit ''4''], Some (JArr [])),
      (lit ''filter'', StringField, Some (JStr [])), (lit ''token'', StringField, Some (JStr []))]"

definition modelsSearchSchema :: search_schema where
  "modelsSearchSchema =
     [(lit ''page'', NumberField, Some (JNum (Fin 1))), (lit ''pageSize'', NumberField, Some (JNum (Fin 10))),
      (lit ''filter'', StringField, Some (JStr [])), (lit ''vendor'', StringsField, Some (JArr [])),
      (lit ''status'', StringsField, Some (JArr [])), (lit ''sync'', StringsField, Some (JArr [])),
      (lit ''dPage'', NumberField, Some (JNum (Fin 1))), (lit ''dPageSize'', NumberField, Some (JNum (Fin 10))),
      (lit ''dFilter'', StringField, Some (JStr [])), (lit ''dStatus'', StringsField, Some (JArr []))]"

definition logTypeValues :: "jstring list" where
  "logTypeValues = [lit ''0'', lit ''1'', lit ''2'', lit ''3'', lit ''4'', lit ''5'', lit ''6'', lit ''7'']"

definition usageLogsSearchSchema :: search_schema where
  "usageLogsSearchSchema =
     [(lit ''page'', NumberField, Some (JNum (Fin 1))), (lit ''pageSize'', NumberField, Some Undefined),
      (lit ''type'', LogTypesField logTypeValues, Some (JArr [])),
      (lit ''filter'', StringField, Some (JStr [])), (lit ''model'', StringField, Some (JStr [])),
      (lit ''token'', StringField, Some (JStr [])), (lit ''channel'', StringField, Some (JStr [])),
      (lit ''group'', StringField, Some (JStr [])), (lit ''username'', StringField, Some (JStr [])),
      (lit ''requestId'', StringField, Some (JStr [])), (lit ''upstreamRequestId'', StringField, Some (JStr [])),
      (lit ''startTime'', NumberField, None), (lit ''endTime'', NumberField, None)]"

text \<open>The preprocessing of \<^verbatim>\<open>logTypeSearchSchema\<close>\<close>

definition preprocess_types :: "jsval \<Rightarrow> jsval" where
  "preprocess_types v =
     (if is_nullish v \<or> v = JStr [] then Undefined else (case v of JArr vs \<Rightarrow> JArr vs | _ \<Rightarrow> JArr [v]))"

definition in_enum :: "jstring list \<Rightarrow> jsval \<Rightarrow> bool" where
  "in_enum es v \<longleftrightarrow> list_ex (\<lambda>e. v = JStr e) es"

fun field_accepts :: "field_type \<Rightarrow> jsval \<Rightarrow> bool" where
  "field_accepts _ Undefined = True"
| "field_accepts NumberField (JNum n) = num_isFinite n"
| "field_accepts StringField (JStr s) = True"
| "field_accepts StringsField (JArr vs) = list_all (\<lambda>v. as_str v \<noteq> None) vs"
| "field_accepts (EnumsField es) (JArr vs) = list_all (in_enum es) vs"
| "field_accepts (LogTypesField es) (JArr vs) = list_all (in_enum es) vs"
| "field_accepts _ _ = False"

definition field_value :: "field_type \<times> jsval option \<Rightarrow> jsval \<Rightarrow> jsval option" where
  "field_value f v =
     (let w = (case fst f of LogTypesField _ \<Rightarrow> preprocess_types v | _ \<Rightarrow> v)
      in if field_accepts (fst f) w then Some w else snd f)"

text \<open>Search parameters that the route accepts as they are; \<open>carried\<close>: the values that the URL can carry.\<close>

definition field_kept :: "(jsval \<Rightarrow> bool) \<Rightarrow> field_type \<times> jsval option \<Rightarrow> jsval \<Rightarrow> bool" where
  "field_kept carried f v \<longleftrightarrow> carried v \<and> field_value f v = Some v"

definition search_ok :: "search_schema \<Rightarrow> (jsval \<Rightarrow> bool) \<Rightarrow> search_params \<Rightarrow> bool" where
  "search_ok sch carried s \<longleftrightarrow> list_all (\<lambda>(k, f). field_kept carried f (sparam s k)) sch"

text \<open>
  What the router promises: parameters that the URL carries and the route accepts are shown as they are
  asked for, and an object that is not new is the one shown before.
\<close>

definition router_ok :: "search_schema \<Rightarrow> (jsval \<Rightarrow> bool) \<Rightarrow> router \<Rightarrow> bool" where
  "router_ok sch carried router \<longleftrightarrow>
     carried Undefined \<and>
     (\<forall>old new. search_ok sch carried new \<longrightarrow> (\<forall>(k, f) \<in> set sch. sparam (fst (router old new)) k = sparam new k)) \<and>
     (\<forall>old new. \<not> snd (router old new) \<longrightarrow> fst (router old new) = old)"

definition url_tables :: "(rat \<Rightarrow> jstring) \<Rightarrow> bool \<Rightarrow> bool \<Rightarrow> jstring option \<Rightarrow> (table_cfg \<times> search_schema) list" where
  "url_tables num isMobile isAdmin stored =
     [(channelsTable isMobile stored, channelsSearchSchema), (usersTable isMobile, usersSearchSchema),
      (redemptionsTable isMobile, redemptionsSearchSchema), (apiKeysTable, apiKeySearchSchema),
      (modelsTable isMobile, modelsSearchSchema), (deploymentsTable isMobile, modelsSearchSchema),
      (usageLogsTable num isMobile isAdmin, usageLogsSearchSchema)]"

subsection \<open>What a table shows\<close>

definition shown_value :: "column_cfg \<Rightarrow> jsval \<Rightarrow> bool" where
  "shown_value c v =
     (if string_type c then (case v of JStr s \<Rightarrow> trim s \<noteq> [] | _ \<Rightarrow> False)
      else (case v of JArr vs \<Rightarrow> vs \<noteq> [] | _ \<Rightarrow> False))"

text \<open>The filter of a column, when it is not blank.\<close>

definition shown_filter :: "column_cfg \<Rightarrow> column_filter list \<Rightarrow> column_filter option" where
  "shown_filter c fs =
     (case map_of fs (columnId c) of
        Some v \<Rightarrow> if shown_value c v then Some (columnId c, v) else None
      | None \<Rightarrow> None)"

definition shown_filters :: "table_cfg \<Rightarrow> column_filter list \<Rightarrow> column_filter list" where
  "shown_filters cfg fs = List.map_filter (\<lambda>c. shown_filter c fs) (columnFiltersCfg cfg)"

text \<open>The URL is accepted and the filters of the table are those of the URL.\<close>

definition table_inv :: "search_schema \<Rightarrow> (jsval \<Rightarrow> bool) \<Rightarrow> table_cfg \<Rightarrow> table_state \<Rightarrow> bool" where
  "table_inv sch carried cfg st \<longleftrightarrow>
     search_ok sch carried (search st) \<and> shown_filters cfg (columnFilters st) = initialColumnFilters cfg st"

text \<open>A table and the schema of its route fit together.\<close>

definition table_fits :: "table_cfg \<Rightarrow> search_schema \<Rightarrow> bool" where
  "table_fits cfg sch \<longleftrightarrow>
     distinct (map columnId (columnFiltersCfg cfg)) \<and>
     distinct (pageKey cfg # pageSizeKey cfg # globalFilterKey cfg # map searchKey (columnFiltersCfg cfg)) \<and>
     list_all (\<lambda>k. map_of sch k \<noteq> None) (map searchKey (columnFiltersCfg cfg)) \<and>
     distinct (map fst sch) \<and>
     map_of sch (pageKey cfg) = Some (NumberField, Some (JNum (Fin 1))) \<and>
     map_option fst (map_of sch (pageSizeKey cfg)) = Some NumberField \<and>
     map_option fst (map_of sch (globalFilterKey cfg)) = Some StringField \<and> defaultPage cfg = 1"

text \<open>Filters that the columns of a table read back and its route accepts\<close>

definition filters_accepted :: "search_schema \<Rightarrow> (jsval \<Rightarrow> bool) \<Rightarrow> table_cfg \<Rightarrow> column_filter list \<Rightarrow> bool" where
  "filters_accepted sch carried cfg fs \<longleftrightarrow>
     list_all (\<lambda>c. filter_param c fs = Undefined \<or> deserialize c (filter_param c fs) = filter_param c fs) (columnFiltersCfg cfg) \<and>
     list_all (\<lambda>c. list_all (\<lambda>(k, f). k \<noteq> searchKey c \<or> field_kept carried f (filter_param c fs)) sch) (columnFiltersCfg cfg)"

subsection \<open>Columns\<close>

text \<open>A column gives back the values that it wrote to the URL; a codec also reads an absent one as no filter.\<close>

locale column_reader =
  fixes c :: column_cfg and ok :: "jsval \<Rightarrow> bool"
  assumes read_present: "ok v \<Longrightarrow> shown_value c v \<Longrightarrow> initial_filter c (serialize c v) = Some (columnId c, v)"
begin

lemma read_shown:
  assumes "map_of fs (columnId c) = Some v" "shown_value c v" "ok v"
  shows "initial_filter c (filter_param c fs) = shown_filter c fs"
proof -
  from assms have "filter_param c fs = serialize c v"
    by (auto simp: filter_param_def shown_value_def str_or_def coalesce_def split: if_splits jsval.splits)
  with read_present [of v] assms show ?thesis
    by (simp add: shown_filter_def)
qed

end

locale column_codec = column_reader +
  assumes read_absent: "initial_filter c Undefined = None"
begin

lemma read_filter:
  assumes "\<And>v. map_of fs (columnId c) = Some v \<Longrightarrow> shown_value c v \<Longrightarrow> ok v"
  shows "initial_filter c (filter_param c fs) = shown_filter c fs"
proof (cases "\<exists>v. map_of fs (columnId c) = Some v \<and> shown_value c v")
  case True
  then show ?thesis
    using read_shown assms by blast
next
  case False
  then have n: "shown_filter c fs = None"
    by (auto simp: shown_filter_def split: option.split)
  from False have "filter_param c fs = Undefined"
    by (auto simp: filter_param_def shown_value_def str_or_def coalesce_def Let_def
        split: if_splits option.splits jsval.splits)
  with n read_absent show ?thesis
    by simp
qed

end

lemma initial_filter_shown:
  assumes "initial_filter c raw = Some (k, v)"
  shows "k = columnId c" "shown_value c v"
  using assms by (auto simp: initial_filter_def shown_value_def split: if_splits jsval.splits)

interpretation arrays: column_codec "array_column a k" "\<lambda>_. True" for a k
  by unfold_locales
    (auto simp: initial_filter_def array_column_def shown_value_def nullish_or_def is_nullish_def split: jsval.splits)

interpretation strings: column_codec "string_column a k" "\<lambda>_. True" for a k
  by unfold_locales
    (auto simp: initial_filter_def string_column_def shown_value_def nullish_or_def is_nullish_def split: jsval.splits)

interpretation log_types: column_codec "array_column a k\<lparr>deserialize := deserializeLogTypeFilter num\<rparr>"
    "\<lambda>v. deserializeLogTypeFilter num v = v" for num a k
  by unfold_locales
    (auto simp: initial_filter_def array_column_def shown_value_def nullish_or_def is_nullish_def deserializeLogTypeFilter_def split: jsval.splits)

interpretation stored_status: column_reader "array_column a k\<lparr>deserialize := channelStatus stored\<rparr>" "\<lambda>_. True"
  for stored a k
  by unfold_locales
    (auto simp: initial_filter_def array_column_def shown_value_def nullish_or_def is_nullish_def channelStatus_def split: jsval.splits)

interpretation all_status: column_codec "array_column a k\<lparr>deserialize := channelStatus (Some (lit ''all''))\<rparr>" "\<lambda>_. True"
  for a k
  by unfold_locales
    (auto simp: initial_filter_def array_column_def nullish_or_def is_nullish_def channelStatus_def)

subsection \<open>The URL after a navigation\<close>

lemma param_fold_update:
  "map_of (fold (\<lambda>(k, v) ps. AList.update k v ps) patch s) = map_of s ++ map_of (rev patch)"
proof (induction patch arbitrary: s)
  case (Cons p patch)
  then show ?case
    by (cases p) (simp add: update_conv' map_add_upd_left fun_upd_def map_add_def fun_eq_iff split: option.split)
qed simp

definition patched :: "search_params \<Rightarrow> search_params \<Rightarrow> search_params" where
  "patched s patch = fold (\<lambda>(k, v) ps. AList.update k v ps) patch s"

lemma sparam_patched:
  assumes "distinct (map fst patch)"
  shows "sparam (patched s patch) k = (case map_of patch k of Some v \<Rightarrow> v | None \<Rightarrow> sparam s k)"
proof -
  have "map_of (rev patch) = map_of patch"
    using assms by (metis distinct_rev map_of_inject_set rev_map set_rev)
  then show ?thesis
    by (simp add: sparam_def patched_def param_fold_update map_add_def split: option.split)
qed

lemma field_value_Undefined [simp]: "field_value f Undefined = Some Undefined"
  by (cases f) (simp add: field_value_def preprocess_types_def is_nullish_def split: field_type.split)

lemma search_ok_iff: "search_ok sch carried s \<longleftrightarrow> (\<forall>(k, f) \<in> set sch. field_kept carried f (sparam s k))"
  by (simp add: search_ok_def list_all_iff)

lemma search_ok_patched:
  assumes "search_ok sch carried s" "distinct (map fst patch)"
    "\<And>k v f. (k, v) \<in> set patch \<Longrightarrow> (k, f) \<in> set sch \<Longrightarrow> field_kept carried f v"
  shows "search_ok sch carried (patched s patch)"
proof -
  have "field_kept carried f (sparam (patched s patch) k)" if kf: "(k, f) \<in> set sch" for k f
  proof (cases "map_of patch k")
    case None
    have "field_kept carried f (sparam s k)"
      using assms(1) kf by (auto simp: search_ok_iff)
    with None show ?thesis
      by (simp add: sparam_patched [OF assms(2)])
  next
    case (Some v)
    then show ?thesis
      using assms(3) [OF map_of_SomeD kf] by (simp add: sparam_patched [OF assms(2)])
  qed
  then show ?thesis
    by (auto simp: search_ok_iff)
qed

lemma search_navigate: "search (navigate router cfg patch st) = fst (router (search st) (patched (search st) patch))"
  by (simp add: navigate_def patched_def Let_def split: prod.split)

lemma sparam_navigate:
  assumes "router_ok sch carried router" "search_ok sch carried (patched (search st) patch)" "distinct (map fst patch)"
    "k \<in> fst ` set sch"
  shows "sparam (search (navigate router cfg patch st)) k =
    (case map_of patch k of Some v \<Rightarrow> v | None \<Rightarrow> sparam (search st) k)"
  using assms(1, 2, 4) unfolding search_navigate sparam_patched [OF assms(3), symmetric] router_ok_def by fastforce

lemma search_ok_navigate:
  assumes "router_ok sch carried router" "search_ok sch carried (patched (search st) patch)"
  shows "search_ok sch carried (search (navigate router cfg patch st))"
proof -
  have "sparam (search (navigate router cfg patch st)) k = sparam (patched (search st) patch) k"
    if "(k, f) \<in> set sch" for k f
    using assms that by (fastforce simp: search_navigate router_ok_def)
  with assms(2) show ?thesis
    by (auto simp: search_ok_iff)
qed

lemma map_filter_cong:
  assumes "\<And>c. c \<in> set cs \<Longrightarrow> g c = h c"
  shows "List.map_filter g cs = List.map_filter h cs"
  using assms by (induction cs) (simp_all add: List.map_filter_simps cong: option.case_cong)

lemma map_of_map_filter_none:
  assumes "\<And>c k v. c \<in> set cs \<Longrightarrow> g c = Some (k, v) \<Longrightarrow> k \<noteq> i"
  shows "map_of (List.map_filter g cs) i = None"
  using assms
proof (induction cs)
  case (Cons c cs)
  have "map_of (List.map_filter g cs) i = None"
    by (rule Cons.IH) (use Cons.prems in force)
  with Cons.prems [of c] show ?case
    by (cases "g c") (auto simp: List.map_filter_simps)
qed (simp add: List.map_filter_simps)

lemma map_of_map_filter:
  assumes "distinct (map columnId cs)" "\<And>c k v. c \<in> set cs \<Longrightarrow> g c = Some (k, v) \<Longrightarrow> k = columnId c" "c \<in> set cs"
  shows "map_of (List.map_filter g cs) (columnId c) = map_option snd (g c)"
  using assms
proof (induction cs)
  case (Cons d cs)
  have kd: "k = columnId d" if "g d = Some (k, v)" for k v
    using Cons.prems(2) [of d k v] that by simp
  show ?case
  proof (cases "c = d")
    case True
    have "map_of (List.map_filter g cs) (columnId d) = None"
    proof (rule map_of_map_filter_none)
      fix c' k v
      assume c': "c' \<in> set cs" "g c' = Some (k, v)"
      then have "k = columnId c'"
        using Cons.prems(2) [of c' k v] by simp
      moreover have "columnId c' \<in> columnId ` set cs"
        using c'(1) by (rule imageI)
      ultimately show "k \<noteq> columnId d"
        using Cons.prems(1) by auto
    qed
    with True kd [of "fst (the (g d))" "snd (the (g d))"] show ?thesis
      by (cases "g d") (simp_all add: List.map_filter_simps split: prod.split)
  next
    case False
    with Cons.prems(3) have c: "c \<in> set cs"
      by simp
    have neq: "columnId c \<noteq> columnId d"
      using Cons.prems(1) imageI [OF c, of columnId] by auto
    have "map_of (List.map_filter g cs) (columnId c) = map_option snd (g c)"
    proof (rule Cons.IH [OF _ _ c])
      show "distinct (map columnId cs)"
        using Cons.prems(1) by simp
      show "k = columnId c'" if "c' \<in> set cs" "g c' = Some (k, v)" for c' k v
        using Cons.prems(2) [of c' k v] that by simp
    qed
    with kd [of "fst (the (g d))" "snd (the (g d))"] neq show ?thesis
      by (cases "g d") (auto simp: List.map_filter_simps)
  qed
qed simp

lemma shown_map_filter:
  assumes "distinct (map columnId (columnFiltersCfg cfg))"
    "\<And>c k v. c \<in> set (columnFiltersCfg cfg) \<Longrightarrow> g c = Some (k, v) \<Longrightarrow> k = columnId c \<and> shown_value c v"
  shows "shown_filters cfg (List.map_filter g (columnFiltersCfg cfg)) = List.map_filter g (columnFiltersCfg cfg)"
proof -
  have "shown_filter c (List.map_filter g (columnFiltersCfg cfg)) = g c" if c: "c \<in> set (columnFiltersCfg cfg)" for c
  proof -
    have "map_of (List.map_filter g (columnFiltersCfg cfg)) (columnId c) = map_option snd (g c)"
      using assms c by (intro map_of_map_filter) blast+
    then show ?thesis
      using assms(2) [OF c] by (cases "g c") (auto simp: shown_filter_def)
  qed
  then show ?thesis
    unfolding shown_filters_def by (intro map_filter_cong)
qed

lemma shown_initial:
  assumes "distinct (map columnId (columnFiltersCfg cfg))"
  shows "shown_filters cfg (initialColumnFilters cfg st) = initialColumnFilters cfg st"
  unfolding initialColumnFilters_def using assms initial_filter_shown by (intro shown_map_filter) blast+

lemma shown_idem:
  assumes "distinct (map columnId (columnFiltersCfg cfg))"
  shows "shown_filters cfg (shown_filters cfg fs) = shown_filters cfg fs"
  by (subst (2 3) shown_filters_def, rule shown_map_filter [OF assms])
    (auto simp: shown_filter_def split: option.splits if_splits)

text \<open>A navigation that asks for the filters that the table has keeps the invariant.\<close>

lemma navigate_inv:
  assumes fits: "table_fits cfg sch" and rt: "router_ok sch carried router"
    and ok: "search_ok sch carried (patched (search st) patch)" and dist: "distinct (map fst patch)"
    and sync: "\<And>c. c \<in> set (columnFiltersCfg cfg) \<Longrightarrow>
      initial_filter c (case map_of patch (searchKey c) of Some v \<Rightarrow> v | None \<Rightarrow> param st (searchKey c)) =
        shown_filter c (columnFilters st)"
  shows "table_inv sch carried cfg (navigate router cfg patch st)"
    and "shown_filters cfg (columnFilters (navigate router cfg patch st)) = shown_filters cfg (columnFilters st)"
proof -
  let ?st = "navigate router cfg patch st"
  have keys: "searchKey c \<in> fst ` set sch" if "c \<in> set (columnFiltersCfg cfg)" for c
    using fits that by (fastforce simp: table_fits_def list_all_iff map_of_eq_None_iff)
  have dcols: "distinct (map columnId (columnFiltersCfg cfg))"
    using fits by (simp add: table_fits_def)
  have init: "initialColumnFilters cfg ?st = shown_filters cfg (columnFilters st)"
    unfolding initialColumnFilters_def shown_filters_def
    by (intro map_filter_cong) (simp add: param_def sparam_navigate [OF rt ok dist keys] sync [unfolded param_def, symmetric])
  moreover have "shown_filters cfg (columnFilters ?st) = shown_filters cfg (columnFilters st)"
  proof (cases "snd (router (search st) (patched (search st) patch))")
    case True
    then have "columnFilters ?st = initialColumnFilters cfg ?st"
      by (auto simp: navigate_def patched_def Let_def initialColumnFilters_def param_def split: prod.splits)
    then show ?thesis
      using init shown_initial [OF dcols, of ?st] by (simp only:)
  next
    case False
    then have "columnFilters ?st = columnFilters st"
      by (auto simp: navigate_def patched_def Let_def split: prod.splits)
    then show ?thesis
      by simp
  qed
  ultimately show "table_inv sch carried cfg ?st"
    and "shown_filters cfg (columnFilters ?st) = shown_filters cfg (columnFilters st)"
    using search_ok_navigate [OF rt ok] by (simp_all add: table_inv_def)
qed

subsection \<open>Every operation keeps the invariant\<close>

lemma router_carried: "router_ok sch carried router \<Longrightarrow> carried Undefined"
  by (simp add: router_ok_def)

lemma field_kept_Undefined: "router_ok sch carried router \<Longrightarrow> field_kept carried f Undefined"
  by (simp add: field_kept_def router_carried)

lemma table_fits_keys:
  assumes "table_fits cfg sch"
  shows "distinct (pageKey cfg # pageSizeKey cfg # globalFilterKey cfg # map searchKey (columnFiltersCfg cfg))"
    "pageKey cfg \<in> fst ` set sch" "pageSizeKey cfg \<in> fst ` set sch" "globalFilterKey cfg \<in> fst ` set sch"
    "defaultPage cfg = 1" "distinct (map columnId (columnFiltersCfg cfg))"
  using assms by (auto simp: table_fits_def map_of_eq_None_iff [symmetric])

lemma search_key_other:
  assumes "table_fits cfg sch" "c \<in> set (columnFiltersCfg cfg)"
  shows "searchKey c \<noteq> pageKey cfg" "searchKey c \<noteq> pageSizeKey cfg" "searchKey c \<noteq> globalFilterKey cfg"
  using table_fits_keys(1) [OF assms(1)] imageI [OF assms(2), of searchKey] by auto

lemma number_key_kept:
  assumes "table_fits cfg sch" "(k, f) \<in> set sch" "k = pageKey cfg \<or> k = pageSizeKey cfg" "carried (JNum n)" "num_isFinite n"
  shows "field_kept carried f (JNum n)"
proof -
  have "distinct (map fst sch)"
    using assms(1) by (simp add: table_fits_def)
  then have "map_of sch k = Some f"
    using assms(2) by simp
  then have "fst f = NumberField"
    using assms(1, 3) by (auto simp: table_fits_def)
  then show ?thesis
    using assms(4, 5) by (simp add: field_kept_def field_value_def)
qed

lemma onColumnFiltersChange_inv:
  assumes fs: "fs = updater (columnFilters st)"
    and fits: "table_fits cfg sch" and rt: "router_ok sch carried router" and ok: "search_ok sch carried (search st)"
    and read: "\<And>c. c \<in> set (columnFiltersCfg cfg) \<Longrightarrow> initial_filter c (filter_param c fs) = shown_filter c fs"
    and kept: "\<And>c f. c \<in> set (columnFiltersCfg cfg) \<Longrightarrow> (searchKey c, f) \<in> set sch \<Longrightarrow> field_kept carried f (filter_param c fs)"
  shows "table_inv sch carried cfg (onColumnFiltersChange router cfg updater st)"
    and "shown_filters cfg (columnFilters (onColumnFiltersChange router cfg updater st)) = shown_filters cfg fs"
    and "page_number cfg (onColumnFiltersChange router cfg updater st) = Fin 1"
proof -
  let ?cs = "columnFiltersCfg cfg"
  let ?patch = "(pageKey cfg, Undefined) # map (\<lambda>c. (searchKey c, filter_param c fs)) ?cs"
  let ?st = "st\<lparr>columnFilters := fs\<rparr>"
  have eq: "onColumnFiltersChange router cfg updater st = navigate router cfg ?patch ?st"
    by (simp add: onColumnFiltersChange_def fs Let_def)
  have dist: "distinct (map fst ?patch)"
    using table_fits_keys(1) [OF fits] by (simp add: comp_def)
  have ok': "search_ok sch carried (patched (search ?st) ?patch)"
  proof (rule search_ok_patched [OF _ dist])
    show "search_ok sch carried (search ?st)"
      using ok by simp
    show "field_kept carried f v" if "(k, v) \<in> set ?patch" "(k, f) \<in> set sch" for k v f
    proof (cases "k = pageKey cfg \<and> v = Undefined")
      case True
      then show ?thesis
        by (simp only: field_kept_Undefined [OF rt])
    next
      case False
      with that(1) obtain c where "c \<in> set ?cs" "k = searchKey c" "v = filter_param c fs"
        by auto
      then show ?thesis
        using kept that(2) by (simp only:)
    qed
  qed
  have find: "map_of ?patch (searchKey c) = Some (filter_param c fs)" if "c \<in> set ?cs" for c
    by (rule map_of_is_SomeI [OF dist]) (use that in auto)
  have sync: "initial_filter c (case map_of ?patch (searchKey c) of Some v \<Rightarrow> v | None \<Rightarrow> param ?st (searchKey c)) =
      shown_filter c (columnFilters ?st)" if "c \<in> set ?cs" for c
    using that by (simp add: find read del: map_of.simps)
  show "table_inv sch carried cfg (onColumnFiltersChange router cfg updater st)"
    unfolding eq by (rule navigate_inv(1) [OF fits rt ok' dist sync])
  show "shown_filters cfg (columnFilters (onColumnFiltersChange router cfg updater st)) = shown_filters cfg fs"
    unfolding eq using navigate_inv(2) [OF fits rt ok' dist sync] by simp
  show "page_number cfg (onColumnFiltersChange router cfg updater st) = Fin 1"
    unfolding eq using sparam_navigate [OF rt ok' dist table_fits_keys(2) [OF fits]] table_fits_keys(5) [OF fits]
    by (simp add: page_number_def param_def coalesce_def)
qed

lemma inv_sync:
  assumes "table_inv sch carried cfg st" "distinct (map columnId (columnFiltersCfg cfg))" "c \<in> set (columnFiltersCfg cfg)"
  shows "initial_filter c (param st (searchKey c)) = shown_filter c (columnFilters st)"
proof -
  let ?cs = "columnFiltersCfg cfg"
  have "map_of (initialColumnFilters cfg st) (columnId c) = map_option snd (initial_filter c (param st (searchKey c)))"
    unfolding initialColumnFilters_def using assms(2, 3) initial_filter_shown by (intro map_of_map_filter) blast+
  moreover have "map_of (shown_filters cfg (columnFilters st)) (columnId c) = map_option snd (shown_filter c (columnFilters st))"
    unfolding shown_filters_def using assms(2, 3)
    by (intro map_of_map_filter) (auto simp: shown_filter_def split: option.splits if_splits)
  ultimately have "map_option snd (initial_filter c (param st (searchKey c))) = map_option snd (shown_filter c (columnFilters st))"
    using assms(1) by (simp add: table_inv_def)
  moreover have fst: "map_option fst p = map_option (\<lambda>_. columnId c) p"
    if "p = initial_filter c (param st (searchKey c)) \<or> p = shown_filter c (columnFilters st)" for p
    using that initial_filter_shown(1) [of c "param st (searchKey c)" "fst (the p)" "snd (the p)"]
    by (cases p) (auto simp: shown_filter_def split: option.splits if_splits)
  ultimately show ?thesis
    using fst [of "initial_filter c (param st (searchKey c))"] fst [of "shown_filter c (columnFilters st)"]
    by (cases "initial_filter c (param st (searchKey c))"; cases "shown_filter c (columnFilters st)")
      (simp_all add: prod_eq_iff del: split_paired_All)
qed

text \<open>A navigation that leaves the parameters of the columns alone\<close>

lemma navigate_other_inv:
  assumes fits: "table_fits cfg sch" and rt: "router_ok sch carried router" and inv: "table_inv sch carried cfg st"
    and dist: "distinct (map fst patch)"
    and kept: "\<forall>k v f. (k, v) \<in> set patch \<longrightarrow> (k, f) \<in> set sch \<longrightarrow> field_kept carried f v"
    and other: "\<forall>c \<in> set (columnFiltersCfg cfg). searchKey c \<notin> fst ` set patch"
  shows "table_inv sch carried cfg (navigate router cfg patch st)"
    and "shown_filters cfg (columnFilters (navigate router cfg patch st)) = shown_filters cfg (columnFilters st)"
    and "k \<in> fst ` set sch \<Longrightarrow> param (navigate router cfg patch st) k =
      (case map_of patch k of Some v \<Rightarrow> v | None \<Rightarrow> param st k)"
proof -
  have ok: "search_ok sch carried (search st)"
    using inv by (simp add: table_inv_def)
  have ok': "search_ok sch carried (patched (search st) patch)"
    by (rule search_ok_patched [OF ok dist]) (use kept in blast)
  have sync: "initial_filter c (case map_of patch (searchKey c) of Some v \<Rightarrow> v | None \<Rightarrow> param st (searchKey c)) =
      shown_filter c (columnFilters st)" if "c \<in> set (columnFiltersCfg cfg)" for c
  proof -
    have "map_of patch (searchKey c) = None"
      using other that by (simp add: map_of_eq_None_iff)
    then show ?thesis
      using inv_sync [OF inv table_fits_keys(6) [OF fits] that] by simp
  qed
  show "table_inv sch carried cfg (navigate router cfg patch st)"
    by (rule navigate_inv(1) [OF fits rt ok' dist sync])
  show "shown_filters cfg (columnFilters (navigate router cfg patch st)) = shown_filters cfg (columnFilters st)"
    by (rule navigate_inv(2) [OF fits rt ok' dist sync])
  show "param (navigate router cfg patch st) k = (case map_of patch k of Some v \<Rightarrow> v | None \<Rightarrow> param st k)"
    if "k \<in> fst ` set sch"
    unfolding param_def by (rule sparam_navigate [OF rt ok' dist that])
qed

subsection \<open>The tables fit their routes\<close>

lemmas table_defs =
  default_table_def channelsTable_def usersTable_def redemptionsTable_def apiKeysTable_def modelsTable_def
  deploymentsTable_def usageLogsTable_def array_column_def string_column_def

lemmas schema_defs =
  channelsSearchSchema_def usersSearchSchema_def redemptionsSearchSchema_def apiKeySearchSchema_def
  modelsSearchSchema_def usageLogsSearchSchema_def

lemma tables_fit_each:
  "table_fits (channelsTable isMobile stored) channelsSearchSchema"
  "table_fits (usersTable isMobile) usersSearchSchema"
  "table_fits (redemptionsTable isMobile) redemptionsSearchSchema"
  "table_fits apiKeysTable apiKeySearchSchema"
  "table_fits (modelsTable isMobile) modelsSearchSchema"
  "table_fits (deploymentsTable isMobile) modelsSearchSchema"
  by (simp_all add: table_fits_def table_defs schema_defs)

lemma usage_logs_fit: "table_fits (usageLogsTable num isMobile isAdmin) usageLogsSearchSchema"
  by (cases isAdmin) (simp_all add: table_fits_def table_defs schema_defs)

lemma tables_fit:
  assumes "(cfg, sch) \<in> set (url_tables num isMobile isAdmin stored)"
  shows "table_fits cfg sch"
  using assms tables_fit_each usage_logs_fit by (auto simp: url_tables_def)

lemma columns_of:
  "columnFiltersCfg (channelsTable isMobile stored) =
     [array_column ''status'' ''status''\<lparr>deserialize := channelStatus stored\<rparr>,
      array_column ''type'' ''type'', array_column ''group'' ''group'', string_column ''model'' ''model'']"
  "columnFiltersCfg (usersTable isMobile) =
     [array_column ''status'' ''status'', array_column ''role'' ''role'', string_column ''group'' ''group'']"
  "columnFiltersCfg (redemptionsTable isMobile) = [array_column ''status'' ''status'']"
  "columnFiltersCfg apiKeysTable = [array_column ''status'' ''status'', string_column ''_tokenSearch'' ''token'']"
  "columnFiltersCfg (modelsTable isMobile) =
     [array_column ''status'' ''status'', array_column ''vendor_id'' ''vendor'', array_column ''sync_official'' ''sync'']"
  "columnFiltersCfg (deploymentsTable isMobile) = [array_column ''status'' ''dStatus'']"
  "columnFiltersCfg (usageLogsTable num isMobile isAdmin) =
     [array_column ''created_at'' ''type''\<lparr>deserialize := deserializeLogTypeFilter num\<rparr>,
      string_column ''model_name'' ''model'', string_column ''token_name'' ''token'', string_column ''group'' ''group''] @
     (if isAdmin then [string_column ''channel'' ''channel'', string_column ''username'' ''username''] else [])"
  by (simp_all add: channelsTable_def usersTable_def redemptionsTable_def apiKeysTable_def modelsTable_def
      deploymentsTable_def usageLogsTable_def)

lemma column_codec_weaken: "column_codec c (\<lambda>_. True) \<Longrightarrow> column_codec c ok"
  by (simp add: column_codec_def column_reader_def column_codec_axioms_def)

lemmas column_codecs = log_types.column_codec_axioms arrays.column_codec_axioms [THEN column_codec_weaken]
  strings.column_codec_axioms [THEN column_codec_weaken] all_status.column_codec_axioms [THEN column_codec_weaken]

lemma table_columns:
  assumes "(cfg, sch) \<in> set (url_tables num isMobile isAdmin (Some (lit ''all'')))" "c \<in> set (columnFiltersCfg cfg)"
  shows "column_codec c (\<lambda>v. deserialize c v = v)"
  using assms unfolding url_tables_def
  by (auto simp: columns_of column_codecs split: if_splits)

lemma filter_param_shown:
  assumes "serialize c = (\<lambda>v. v)" "map_of fs (columnId c) = Some v" "shown_value c v"
  shows "filter_param c fs = v" "v \<noteq> Undefined"
  using assms by (auto simp: filter_param_def shown_value_def str_or_def coalesce_def split: if_splits jsval.splits)

lemma table_serialize:
  assumes "(cfg, sch) \<in> set (url_tables num isMobile isAdmin stored)" "c \<in> set (columnFiltersCfg cfg)"
  shows "serialize c = (\<lambda>v. v)"
  using assms unfolding url_tables_def by (auto simp: columns_of array_column_def string_column_def split: if_splits)

lemma table_reads:
  assumes "(cfg, sch) \<in> set (url_tables num isMobile isAdmin (Some (lit ''all'')))" "filters_accepted sch carried cfg fs"
    "c \<in> set (columnFiltersCfg cfg)"
  shows "initial_filter c (filter_param c fs) = shown_filter c fs"
proof (rule column_codec.read_filter [OF table_columns [OF assms(1, 3)]])
  fix v
  assume v: "map_of fs (columnId c) = Some v" "shown_value c v"
  have "filter_param c fs = Undefined \<or> deserialize c (filter_param c fs) = filter_param c fs"
    using assms(2, 3) by (auto simp: filters_accepted_def list_all_iff)
  then show "deserialize c v = v"
    using filter_param_shown [OF table_serialize [OF assms(1, 3)] v] by auto
qed

lemma other_deserialize [simp]:
  "filter_param (c\<lparr>deserialize := f\<rparr>) fs = filter_param c fs"
  "shown_filter (c\<lparr>deserialize := f\<rparr>) fs = shown_filter c fs"
  by (simp_all add: filter_param_def shown_filter_def shown_value_def cong: if_cong option.case_cong)

lemma accepted_kept:
  assumes "filters_accepted sch carried cfg fs" "c \<in> set (columnFiltersCfg cfg)" "(searchKey c, f) \<in> set sch"
  shows "field_kept carried f (filter_param c fs)"
  using assms by (fastforce simp: filters_accepted_def list_all_iff)

lemma pageIndex_first: "page_number cfg st = Fin 1 \<Longrightarrow> pageIndex (pagination cfg st) = Fin 0"
  by (simp add: pagination_def page_index_def)

lemma accepted_change:
  assumes "(cfg, sch) \<in> set (url_tables num isMobile isAdmin (Some (lit ''all'')))"
    and "router_ok sch carried router" and "search_ok sch carried (search st)"
    and "filters_accepted sch carried cfg (updater (columnFilters st))"
  shows "table_inv sch carried cfg (onColumnFiltersChange router cfg updater st)"
    and "shown_filters cfg (columnFilters (onColumnFiltersChange router cfg updater st)) =
      shown_filters cfg (updater (columnFilters st))"
    and "page_number cfg (onColumnFiltersChange router cfg updater st) = Fin 1"
  by (intro onColumnFiltersChange_inv [OF refl tables_fit [OF assms(1)] assms(2, 3)] table_reads [OF assms(1, 4)]
      accepted_kept [OF assms(4)]; assumption)+

text \<open>
  Changing the filters of a table (users, redemption codes, keys, models, deployments, usage logs)
  to filters that its route accepts shows these filters, without the blank ones, on the first page, and
  leaves the filters of the table and those of the URL in agreement.
\<close>

theorem onColumnFiltersChange_shows:
  assumes "(cfg, sch) \<in> set (url_tables num isMobile isAdmin (Some (lit ''all'')))"
    and "router_ok sch carried router" and "search_ok sch carried (search st)"
    and "filters_accepted sch carried cfg (updater (columnFilters st))"
  shows "shown_filters cfg (columnFilters (onColumnFiltersChange router cfg updater st)) =
      shown_filters cfg (updater (columnFilters st)) \<and>
    pageIndex (pagination cfg (onColumnFiltersChange router cfg updater st)) = Fin 0 \<and>
    table_inv sch carried cfg (onColumnFiltersChange router cfg updater st)"
  by (intro conjI accepted_change [where updater = updater, OF assms] pageIndex_first)

text \<open>
  C37. The handler of the channels table does the same whatever status the browser remembers: a status
  filter that is cleared stays cleared, because the handler replaces the remembered status first.
\<close>

theorem handleColumnFiltersChange_shows:
  assumes fs: "fs = updater (columnFilters st)"
    and r_def: "r = handleColumnFiltersChange router num isMobile updater (st, stored)"
    and "router_ok channelsSearchSchema carried router" and "search_ok channelsSearchSchema carried (search st)"
    and "filters_accepted channelsSearchSchema carried (channelsTable isMobile (Some (lit ''all''))) fs"
    and "case map_of fs (lit ''status'') of Some (JArr vs) \<Rightarrow> True | Some v \<Rightarrow> False | None \<Rightarrow> True"
  shows "shown_filters (channelsTable isMobile (snd r)) (columnFilters (fst r)) = shown_filters (channelsTable isMobile (snd r)) fs \<and>
    pageIndex (pagination (channelsTable isMobile (snd r)) (fst r)) = Fin 0 \<and>
    table_inv channelsSearchSchema carried (channelsTable isMobile (snd r)) (fst r)"
proof -
  let ?cfg = "\<lambda>s. channelsTable isMobile s"
  have r: "fst r = onColumnFiltersChange router (?cfg (snd r)) updater st"
    by (simp add: r_def handleColumnFiltersChange_def onColumnFiltersChange_def Let_def)
  have all: "(?cfg (Some (lit ''all'')), channelsSearchSchema) \<in> set (url_tables num isMobile True (Some (lit ''all'')))"
    by (simp add: url_tables_def)
  let ?status = "\<lambda>s. array_column ''status'' ''status''\<lparr>deserialize := channelStatus s\<rparr>"
  have col: "c = ?status (snd r) \<or> c \<in> set (columnFiltersCfg (?cfg (Some (lit ''all''))))"
    if "c \<in> set (columnFiltersCfg (?cfg (snd r)))" for c
    using that by (auto simp: columns_of)
  have kept: "field_kept carried f (filter_param c fs)"
    if c: "c \<in> set (columnFiltersCfg (?cfg (snd r)))" and f: "(searchKey c, f) \<in> set channelsSearchSchema" for c f
  proof (cases "c = ?status (snd r)")
    case True
    with f have "(searchKey (?status (Some (lit ''all''))), f) \<in> set channelsSearchSchema"
      by simp
    then have "field_kept carried f (filter_param (?status (Some (lit ''all''))) fs)"
      by (intro accepted_kept [OF assms(5)]) (simp_all add: columns_of)
    with True show ?thesis
      by simp
  next
    case False
    with col [OF c] f show ?thesis
      by (intro accepted_kept [OF assms(5)]) blast+
  qed
  have status: "initial_filter c (filter_param c fs) = shown_filter c fs"
    if c: "c = array_column ''status'' ''status''\<lparr>deserialize := channelStatus (snd r)\<rparr>" for c
  proof (cases "\<exists>v. map_of fs (columnId c) = Some v \<and> shown_value c v")
    case True
    then show ?thesis
      using column_reader.read_shown [OF stored_status.column_reader_axioms] unfolding c by blast
  next
    case False
    then have "map_of fs (lit ''status'') = None \<or> map_of fs (lit ''status'') = Some (JArr [])"
      using assms(6) unfolding c by (cases "map_of fs (lit ''status'')")
        (auto simp: array_column_def shown_value_def split: jsval.splits)
    then have "first_item (coalesce (map_of fs (lit ''status'')) Undefined) = Undefined"
      by (auto simp: first_item_def coalesce_def)
    then have "snd r = Some (lit ''all'')"
      by (simp add: r_def handleColumnFiltersChange_def Let_def fs is_nullish_def)
    then show ?thesis
      unfolding c using column_codec.read_filter [OF all_status.column_codec_axioms] by simp
  qed
  have read: "initial_filter c (filter_param c fs) = shown_filter c fs"
    if c: "c \<in> set (columnFiltersCfg (?cfg (snd r)))" for c
    using col [OF c] table_reads [OF all assms(5)] status by blast
  note inv = onColumnFiltersChange_inv [where cfg = "?cfg (snd r)" and updater = updater and st = st,
      OF fs tables_fit_each(1) assms(3, 4) read kept]
  show ?thesis
    unfolding r using inv(1, 2) pageIndex_first [OF inv(3)] by (simp add: fs)
qed

subsection \<open>Pages\<close>

lemma global_key_kept:
  assumes "table_fits cfg sch" "(globalFilterKey cfg, f) \<in> set sch" "carried (JStr s)"
  shows "field_kept carried f (JStr s)"
proof -
  have "distinct (map fst sch)"
    using assms(1) by (simp add: table_fits_def)
  then have "map_of sch (globalFilterKey cfg) = Some f"
    using assms(2) by simp
  then have "fst f = StringField"
    using assms(1) by (auto simp: table_fits_def)
  then show ?thesis
    using assms(3) by (simp add: field_kept_def field_value_def)
qed

text \<open>A page and a page size that can be written to the URL\<close>

definition page_kept :: "(jsval \<Rightarrow> bool) \<Rightarrow> pagination_state \<Rightarrow> bool" where
  "page_kept carried p \<longleftrightarrow>
     num_isFinite (num_succ (pageIndex p)) \<and> carried (JNum (num_succ (pageIndex p))) \<and>
     num_isFinite (pageSize p) \<and> carried (JNum (pageSize p))"

lemma onPaginationChange_inv:
  assumes fits: "table_fits cfg sch" and rt: "router_ok sch carried router" and inv: "table_inv sch carried cfg st"
    and upd: "nextp = updater (pagination cfg st)" and kept: "page_kept carried nextp"
  shows "table_inv sch carried cfg (onPaginationChange router num cfg updater st)"
    and "shown_filters cfg (columnFilters (onPaginationChange router num cfg updater st)) = shown_filters cfg (columnFilters st)"
    and "page_number cfg (onPaginationChange router num cfg updater st) =
      (if num_less_eq (num_succ (pageIndex nextp)) (Fin 1) then Fin 1 else num_succ (pageIndex nextp))"
    and "pageSize (pagination cfg (onPaginationChange router num cfg updater st)) = pageSize nextp"
proof -
  let ?page = "if num_less_eq (num_succ (pageIndex nextp)) (Fin (defaultPage cfg)) then Undefined
    else JNum (num_succ (pageIndex nextp))"
  let ?patch = "[(pageKey cfg, ?page), (pageSizeKey cfg, JNum (pageSize nextp))]"
  define st1 where "st1 = (if \<not> num_same (pageSize nextp) (pageSize (pagination cfg st))
    then setStoredPageSize num (pageSize nextp) st else st)"
  have eq: "onPaginationChange router num cfg updater st = navigate router cfg ?patch st1"
    by (simp add: onPaginationChange_def st1_def upd Let_def)
  have st1: "search st1 = search st" "columnFilters st1 = columnFilters st" "initialColumnFilters cfg st1 = initialColumnFilters cfg st"
    by (simp_all add: st1_def setStoredPageSize_def initialColumnFilters_def param_def)
  have inv1: "table_inv sch carried cfg st1"
    using inv by (simp add: table_inv_def st1)
  note keys = table_fits_keys [OF fits]
  have dist: "distinct (map fst ?patch)"
    using keys(1) by simp
  have kept': "field_kept carried f v" if kv: "(k, v) \<in> set ?patch" and kf: "(k, f) \<in> set sch" for k v f
  proof -
    consider "v = Undefined" | n where "v = JNum n" "carried (JNum n)" "num_isFinite n" "k = pageKey cfg \<or> k = pageSizeKey cfg"
      using kv kept by (auto simp: page_kept_def split: if_splits)
    then show ?thesis
    proof cases
      case 1
      then show ?thesis
        by (simp only: field_kept_Undefined [OF rt])
    next
      case 2
      then show ?thesis
        using number_key_kept [where carried = carried, OF fits kf] by simp
    qed
  qed
  have other: "searchKey c \<notin> fst ` set ?patch" if "c \<in> set (columnFiltersCfg cfg)" for c
    using search_key_other [OF fits that] by simp
  have all: "\<forall>k v f. (k, v) \<in> set ?patch \<longrightarrow> (k, f) \<in> set sch \<longrightarrow> field_kept carried f v"
    "\<forall>c \<in> set (columnFiltersCfg cfg). searchKey c \<notin> fst ` set ?patch"
    using kept' other by blast+
  note nav = navigate_other_inv [OF fits rt inv1 dist all]
  show "table_inv sch carried cfg (onPaginationChange router num cfg updater st)"
    unfolding eq by (rule nav(1))
  show "shown_filters cfg (columnFilters (onPaginationChange router num cfg updater st)) = shown_filters cfg (columnFilters st)"
    unfolding eq using nav(2) by (simp only: st1(2))
  show "page_number cfg (onPaginationChange router num cfg updater st) =
      (if num_less_eq (num_succ (pageIndex nextp)) (Fin 1) then Fin 1 else num_succ (pageIndex nextp))"
    unfolding eq page_number_def nav(3) [OF keys(2)] by (simp add: coalesce_def keys(5))
  show "pageSize (pagination cfg (onPaginationChange router num cfg updater st)) = pageSize nextp"
    unfolding eq pagination_def nav(3) [OF keys(3)] using keys(1) by (auto simp: coalesce_def)
qed

lemma stored_onPaginationChange:
  "stored_size (onPaginationChange router num cfg updater st) =
     (if num_same (pageSize (updater (pagination cfg st))) (pageSize (pagination cfg st)) then stored_size st
      else Some (num_string num (pageSize (updater (pagination cfg st)))))"
  by (simp add: onPaginationChange_def navigate_def setStoredPageSize_def Let_def split: prod.split)

lemma parse_int10_show_nat: "parse_int10 (show_nat n) = Some (int n)"
proof -
  have d: "\<forall>c \<in> set (show_nat n). is_digit c"
    by (rule show_nat_digits)
  obtain c s where cs: "show_nat n = c # s"
    by (cases "show_nat n") simp_all
  have c: "is_digit c" "\<not> is_ws c"
    using d cs digit_not_ws by auto
  have "trim_start (show_nat n) = show_nat n"
    using c cs by (simp add: trim_start_Cons)
  moreover have "c \<noteq> 45 \<and> c \<noteq> 43"
    using c(1) by (auto simp: is_digit_def)
  moreover have "takeWhile is_digit (show_nat n) = show_nat n"
    using d by (simp add: takeWhile_eq_all_conv)
  ultimately show ?thesis
    using cs by (simp add: parse_int10_def Let_def) (metis read_show_nat)
qed

text \<open>
  C38. Going to a page writes it to the URL so that the table shows that page with that page size and
  the same filters; a new page size is the one that the next table starts with.
\<close>

theorem onPaginationChange_roundtrip:
  assumes "(cfg, sch) \<in> set (url_tables num isMobile isAdmin stored)"
    and "router_ok sch carried router" and "table_inv sch carried cfg st"
    and "0 \<le> i" and "page_kept carried \<lparr>pageIndex = Fin i, pageSize = Fin (of_nat n)\<rparr>"
    and "0 < n" and "num (of_nat n) = show_nat n"
  shows "pagination cfg (onPaginationChange router num cfg (\<lambda>_. \<lparr>pageIndex = Fin i, pageSize = Fin (of_nat n)\<rparr>) st) =
      \<lparr>pageIndex = Fin i, pageSize = Fin (of_nat n)\<rparr> \<and>
    shown_filters cfg (columnFilters (onPaginationChange router num cfg (\<lambda>_. \<lparr>pageIndex = Fin i, pageSize = Fin (of_nat n)\<rparr>) st)) =
      shown_filters cfg (columnFilters st) \<and>
    (num_same (Fin (of_nat n)) (pageSize (pagination cfg st)) \<or>
     getStoredPageSize (stored_size (onPaginationChange router num cfg
       (\<lambda>_. \<lparr>pageIndex = Fin i, pageSize = Fin (of_nat n)\<rparr>) st)) = Some (of_nat n))"
proof -
  let ?st = "onPaginationChange router num cfg (\<lambda>_. \<lparr>pageIndex = Fin i, pageSize = Fin (of_nat n)\<rparr>) st"
  note inv = onPaginationChange_inv [where updater = "\<lambda>_. \<lparr>pageIndex = Fin i, pageSize = Fin (of_nat n)\<rparr>" and num = num,
      OF tables_fit [OF assms(1)] assms(2, 3) refl assms(5)]
  have "pageIndex (pagination cfg ?st) = Fin i"
    using inv(3) assms(4) by (simp add: pagination_def page_index_def num_succ_def split: if_splits)
  moreover have "getStoredPageSize (Some (num_string num (Fin (of_nat n)))) = Some (of_nat n)"
    using assms(6, 7) by (simp add: getStoredPageSize_def num_string_def coalesce_def parse_int10_show_nat)
  ultimately show ?thesis
    using inv(2, 4) by (auto simp: stored_onPaginationChange)
qed

lemma ensurePageInRange_inv:
  assumes fits: "table_fits cfg sch" and rt: "router_ok sch carried router" and inv: "table_inv sch carried cfg st"
    and kept: "carried (JNum (Fin (of_nat n)))" and pos: "0 < n"
  shows "table_inv sch carried cfg (ensurePageInRange router cfg n b st)"
    and "shown_filters cfg (columnFilters (ensurePageInRange router cfg n b st)) = shown_filters cfg (columnFilters st)"
    and "\<not> num_less (Fin (of_nat n)) (page_number cfg (ensurePageInRange router cfg n b st))"
proof -
  let ?patch = "[(pageKey cfg, if b then JNum (Fin (of_nat n)) else Undefined)]"
  note keys = table_fits_keys [OF fits]
  have kept': "field_kept carried f v" if "(k, v) \<in> set ?patch" "(k, f) \<in> set sch" for k v f
    using that number_key_kept [where carried = carried, OF fits that(2) _ kept] field_kept_Undefined [OF rt, of f]
    by (auto simp: num_isFinite_def simp del: split_paired_All split: if_splits)
  have other: "searchKey c \<notin> fst ` set ?patch" if "c \<in> set (columnFiltersCfg cfg)" for c
    using search_key_other [OF fits that] by simp
  have dist: "distinct (map fst ?patch)"
    by simp
  have all: "\<forall>k v f. (k, v) \<in> set ?patch \<longrightarrow> (k, f) \<in> set sch \<longrightarrow> field_kept carried f v"
    "\<forall>c \<in> set (columnFiltersCfg cfg). searchKey c \<notin> fst ` set ?patch"
    using kept' other by blast+
  note nav = navigate_other_inv [OF fits rt inv dist all]
  have "page_number cfg (navigate router cfg ?patch st) = (if b then Fin (of_nat n) else Fin 1)"
    unfolding page_number_def nav(3) [OF keys(2)] by (simp add: coalesce_def keys(5))
  then show "\<not> num_less (Fin (of_nat n)) (page_number cfg (ensurePageInRange router cfg n b st))"
    using pos by (simp add: ensurePageInRange_def)
  show "table_inv sch carried cfg (ensurePageInRange router cfg n b st)"
    using nav(1) inv by (simp add: ensurePageInRange_def)
  show "shown_filters cfg (columnFilters (ensurePageInRange router cfg n b st)) = shown_filters cfg (columnFilters st)"
    using nav(2) by (simp add: ensurePageInRange_def)
qed

text \<open>
  When the server has fewer pages than the page shown, the table goes to a page that exists with
  the same filters; a page that exists is not touched, so a second call changes nothing.
\<close>

theorem ensurePageInRange_in_range:
  assumes "(cfg, sch) \<in> set (url_tables num isMobile isAdmin stored)"
    and "router_ok sch carried router" and "table_inv sch carried cfg st"
    and "carried (JNum (Fin (of_nat n)))" and "0 < n"
  shows "\<not> num_less (Fin (of_nat n)) (page_number cfg (ensurePageInRange router cfg n b st)) \<and>
    shown_filters cfg (columnFilters (ensurePageInRange router cfg n b st)) = shown_filters cfg (columnFilters st) \<and>
    ensurePageInRange router cfg n b' (ensurePageInRange router cfg n b st) = ensurePageInRange router cfg n b st"
proof -
  note inv = ensurePageInRange_inv [where b = b, OF tables_fit [OF assms(1)] assms(2-5)]
  have "ensurePageInRange router cfg n b' (ensurePageInRange router cfg n b st) = ensurePageInRange router cfg n b st"
    unfolding ensurePageInRange_def [of _ _ _ b'] using inv(3) by simp
  with inv(2, 3) show ?thesis
    by blast
qed

lemma onGlobalFilterChange_inv:
  assumes fits: "table_fits cfg sch" and rt: "router_ok sch carried router" and inv: "table_inv sch carried cfg st"
    and kept: "\<And>s. s \<in> {updater (coalesce (globalFilter st) []), trim (updater (coalesce (globalFilter st) []))} \<Longrightarrow> carried (JStr s)"
  shows "table_inv sch carried cfg (onGlobalFilterChange router cfg updater st) \<and>
    shown_filters cfg (columnFilters (onGlobalFilterChange router cfg updater st)) = shown_filters cfg (columnFilters st)"
proof (cases "globalFilterEnabled cfg")
  case True
  define s where "s = (if trimGlobal cfg then trim (updater (coalesce (globalFilter st) [])) else updater (coalesce (globalFilter st) []))"
  let ?patch = "[(pageKey cfg, Undefined), (globalFilterKey cfg, if s \<noteq> [] then JStr s else Undefined)]"
  let ?st = "st\<lparr>globalFilter := Some s\<rparr>"
  have inv1: "table_inv sch carried cfg ?st"
    using inv by (simp add: table_inv_def initialColumnFilters_def param_def)
  have cs: "carried (JStr s)"
    unfolding s_def by (rule kept) simp
  have kept': "field_kept carried f v" if "(k, v) \<in> set ?patch" "(k, f) \<in> set sch" for k v f
    using that global_key_kept [where carried = carried, OF fits _ cs, of f] field_kept_Undefined [OF rt, of f]
    by (auto simp del: split_paired_All split: if_splits)
  have other: "searchKey c \<notin> fst ` set ?patch" if "c \<in> set (columnFiltersCfg cfg)" for c
    using search_key_other [OF fits that] by simp
  have dist: "distinct (map fst ?patch)"
    using table_fits_keys(1) [OF fits] by simp
  have all: "\<forall>k v f. (k, v) \<in> set ?patch \<longrightarrow> (k, f) \<in> set sch \<longrightarrow> field_kept carried f v"
    "\<forall>c \<in> set (columnFiltersCfg cfg). searchKey c \<notin> fst ` set ?patch"
    using kept' other by blast+
  have "onGlobalFilterChange router cfg updater st = navigate router cfg ?patch ?st"
    using True by (simp add: onGlobalFilterChange_def s_def Let_def)
  then show ?thesis
    using navigate_other_inv(1, 2) [OF fits rt inv1 dist all] by simp
qed (simp add: onGlobalFilterChange_def inv)

text \<open>The table on its first render with an accepted URL\<close>

lemma first_render_inv:
  assumes "table_fits cfg sch" "search_ok sch carried s"
  shows "table_inv sch carried cfg (useTableUrlState cfg s stored)"
proof -
  let ?st = "useTableUrlState cfg s stored"
  have "initialColumnFilters cfg ?st = columnFilters ?st"
    by (simp add: useTableUrlState_def initialColumnFilters_def param_def Let_def)
  moreover have "search ?st = s"
    by (simp add: useTableUrlState_def Let_def)
  ultimately show ?thesis
    using shown_initial [OF table_fits_keys(6) [OF assms(1)], of ?st] assms(2) by (simp add: table_inv_def)
qed

subsection \<open>Examples\<close>

text \<open>A router that shows the parameters of the schema, always in a new object\<close>

definition plain_router :: "search_schema \<Rightarrow> router" where
  "plain_router sch old new = (map (\<lambda>(k, f). (k, coalesce (field_value f (sparam new k)) Undefined)) sch, True)"

lemma plain_router_ok:
  assumes "distinct (map fst sch)"
  shows "router_ok sch (\<lambda>_. True) (plain_router sch)"
proof -
  have "sparam (fst (plain_router sch old new)) k = sparam new k"
    if ok: "search_ok sch (\<lambda>_. True) new" and kf: "(k, f) \<in> set sch" for old new k f
  proof -
    have "map_of sch k = Some f"
      using assms kf by simp
    moreover have "map_of (map (\<lambda>(k, f). (k, coalesce (field_value f (sparam new k)) Undefined)) sch) k =
        map_option (\<lambda>f. coalesce (field_value f (sparam new k)) Undefined) (map_of sch k)" for k
      by (induction sch) auto
    ultimately have "sparam (fst (plain_router sch old new)) k = coalesce (field_value f (sparam new k)) Undefined"
      by (simp add: sparam_def [of "map _ _"] plain_router_def)
    moreover have "field_value f (sparam new k) = Some (sparam new k)"
      using ok kf by (auto simp: search_ok_iff field_kept_def)
    ultimately show ?thesis
      by (simp add: coalesce_def)
  qed
  then show ?thesis
    by (auto simp: router_ok_def plain_router_def)
qed

definition some_digits :: "rat \<Rightarrow> jstring" where
  "some_digits q = (if q = 50 then show_nat 50 else [])"

abbreviation users_state :: table_state where
  "users_state \<equiv> useTableUrlState (usersTable False) [(lit ''page'', JNum (Fin 7)), (lit ''status'', JArr [JStr (lit ''1'')])] None"

abbreviation users_router :: router where
  "users_router \<equiv> plain_router usersSearchSchema"

lemma users_table: "(usersTable False, usersSearchSchema) \<in> set (url_tables some_digits False True stored)"
  by (simp add: url_tables_def)

lemma users_router_ok: "router_ok usersSearchSchema (\<lambda>_. True) users_router"
  by (rule plain_router_ok) (simp add: usersSearchSchema_def)

lemma users_search: "search_ok usersSearchSchema (\<lambda>_. True) (search users_state)"
  by code_simp

lemma users_inv: "table_inv usersSearchSchema (\<lambda>_. True) (usersTable False) users_state"
  by (rule first_render_inv) (simp_all add: tables_fit_each users_search [unfolded useTableUrlState_def Let_def, simplified])

theorem onColumnFiltersChange_shows_witness:
  "shown_filters (usersTable False) (columnFilters (onColumnFiltersChange users_router (usersTable False)
      (\<lambda>fs. (lit ''role'', JArr [JStr (lit ''10'')]) # fs) users_state)) =
    [(lit ''status'', JArr [JStr (lit ''1'')]), (lit ''role'', JArr [JStr (lit ''10'')])]"
proof -
  have acc: "filters_accepted usersSearchSchema (\<lambda>_. True) (usersTable False)
      ((lit ''role'', JArr [JStr (lit ''10'')]) # columnFilters users_state)"
    by code_simp
  have eval: "shown_filters (usersTable False) ((lit ''role'', JArr [JStr (lit ''10'')]) # columnFilters users_state) =
      [(lit ''status'', JArr [JStr (lit ''1'')]), (lit ''role'', JArr [JStr (lit ''10'')])]"
    by code_simp
  show ?thesis
    using onColumnFiltersChange_shows [where updater = "\<lambda>fs. (lit ''role'', JArr [JStr (lit ''10'')]) # fs",
        OF users_table users_router_ok users_search acc] unfolding eval by blast
qed

text \<open>The remembered status \<^verbatim>\<open>enabled\<close> does not come back when the status filter is cleared.\<close>

theorem handleColumnFiltersChange_shows_witness:
  "shown_filters (channelsTable False (Some (lit ''all'')))
    (columnFilters (fst (handleColumnFiltersChange (plain_router channelsSearchSchema) some_digits False (\<lambda>_. [])
      (useTableUrlState (channelsTable False (Some (lit ''enabled''))) [] None, Some (lit ''enabled''))))) = []"
proof -
  let ?st = "useTableUrlState (channelsTable False (Some (lit ''enabled''))) [] None"
  have rt: "router_ok channelsSearchSchema (\<lambda>_. True) (plain_router channelsSearchSchema)"
    by (rule plain_router_ok) (simp add: channelsSearchSchema_def)
  have ok: "search_ok channelsSearchSchema (\<lambda>_. True) (search ?st)"
    by code_simp
  have acc: "filters_accepted channelsSearchSchema (\<lambda>_. True) (channelsTable False (Some (lit ''all''))) []"
    by code_simp
  have status: "case map_of [] (lit ''status'') of Some (JArr vs) \<Rightarrow> True | Some v \<Rightarrow> False | None \<Rightarrow> True"
    by simp
  have snd: "snd (handleColumnFiltersChange (plain_router channelsSearchSchema) some_digits False (\<lambda>_. [])
      (?st, Some (lit ''enabled''))) = Some (lit ''all'')"
    by (simp add: handleColumnFiltersChange_def Let_def coalesce_def first_item_def is_nullish_def)
  have eval: "shown_filters (channelsTable False (Some (lit ''all''))) [] = []"
    by code_simp
  show ?thesis
    using handleColumnFiltersChange_shows [where updater = "\<lambda>_. []" and st = ?st and num = some_digits and
        stored = "Some (lit ''enabled'')", OF refl refl rt ok acc status]
    unfolding snd eval by blast
qed

theorem onPaginationChange_roundtrip_witness:
  "pagination (usersTable False) (onPaginationChange users_router some_digits (usersTable False)
      (\<lambda>_. \<lparr>pageIndex = Fin 2, pageSize = Fin (of_nat 50)\<rparr>) users_state) = \<lparr>pageIndex = Fin 2, pageSize = Fin (of_nat 50)\<rparr>"
proof -
  have kept: "page_kept (\<lambda>_. True) \<lparr>pageIndex = Fin 2, pageSize = Fin (of_nat 50)\<rparr>"
    by (simp add: page_kept_def num_isFinite_def num_succ_def)
  have digits: "some_digits (of_nat 50) = show_nat 50"
    by (simp add: some_digits_def)
  show ?thesis
    using onPaginationChange_roundtrip [where i = 2, OF users_table [where stored = None] users_router_ok users_inv _ kept _ digits]
    by simp
qed

theorem ensurePageInRange_in_range_witness:
  "\<not> num_less (Fin 3) (page_number (usersTable False) (ensurePageInRange users_router (usersTable False) 3 False users_state)) \<and>
    page_number (usersTable False) users_state = Fin 7"
proof -
  have "page_number (usersTable False) users_state = Fin 7"
    by code_simp
  then show ?thesis
    using ensurePageInRange_in_range [where n = 3 and b = False, OF users_table [where stored = None] users_router_ok users_inv]
    by simp
qed

end
