(* ===== verification/Debounced_Filter.thy ===== *)
theory Debounced_Filter
  imports Table_Url
begin

section \<open>Debounced filter inputs (\<^verbatim>\<open>components/data-table/hooks/use-debounced-column-filter.ts\<close>)\<close>

text \<open>
  The hook behind the text inputs that filter a column: what is typed becomes the filter of the column
  after 500 ms without typing. The filters belong to the table, which the definitions know by two
  arguments: \<open>get\<close> reads the value of the column's filter, \<open>put\<close> replaces it. The state of the hook has
  its React states, the running timer of \<^verbatim>\<open>useDebounce\<close> with the text it will set, and the dependencies
  that the last run of each effect saw. \<open>commit\<close> is one render followed by its effects in their order;
  \<open>settle\<close> renders until no dependency changes.
\<close>

record debounced_input =
  inputValue :: jstring
  pendingValue :: jstring
  isComposing :: bool
  debouncedValue :: jstring
  timer :: "jstring option"
  seenValue :: jstring
  seenPending :: jstring
  seenDebounced :: jstring

text \<open>The hook after its first render\<close>

definition useDebouncedColumnFilter :: "jstring \<Rightarrow> debounced_input" where
  "useDebouncedColumnFilter v =
     \<lparr>inputValue = v, pendingValue = v, isComposing = False, debouncedValue = v, timer = Some v,
      seenValue = v, seenPending = v, seenDebounced = v\<rparr>"

subsection \<open>Effects\<close>

text \<open>\<^verbatim>\<open>useDebounce\<close>: a new pending value restarts the timer; when it ends the text is the debounced value.\<close>

definition restart_timer :: "debounced_input \<Rightarrow> debounced_input" where
  "restart_timer d = (if pendingValue d \<noteq> seenPending d then d\<lparr>timer := Some (pendingValue d)\<rparr> else d)"

definition timeout :: "debounced_input \<Rightarrow> debounced_input" where
  "timeout d = (case timer d of Some t \<Rightarrow> d\<lparr>debouncedValue := t, timer := None\<rparr> | None \<Rightarrow> d)"

definition align_input :: "jstring \<Rightarrow> debounced_input \<Rightarrow> debounced_input" where
  "align_input v d =
     (if v \<noteq> seenValue d then d\<lparr>inputValue := if isComposing d then inputValue d else v, pendingValue := v\<rparr> else d)"

definition apply_filter :: "(jstring \<Rightarrow> 'st \<Rightarrow> 'st) \<Rightarrow> jstring \<Rightarrow> debounced_input \<Rightarrow> 'st \<Rightarrow> 'st" where
  "apply_filter put v d st =
     (if (v \<noteq> seenValue d \<or> debouncedValue d \<noteq> seenDebounced d) \<and> debouncedValue d \<noteq> v
      then put (debouncedValue d) st else st)"

definition commit :: "('st \<Rightarrow> jstring) \<Rightarrow> (jstring \<Rightarrow> 'st \<Rightarrow> 'st) \<Rightarrow> debounced_input \<times> 'st \<Rightarrow> debounced_input \<times> 'st" where
  "commit get put p =
     (let (d, st) = p;
          v = get st
      in ((align_input v (restart_timer d))
            \<lparr>seenValue := v, seenPending := pendingValue d, seenDebounced := debouncedValue d\<rparr>,
          apply_filter put v d st))"

definition quiet :: "('st \<Rightarrow> jstring) \<Rightarrow> debounced_input \<times> 'st \<Rightarrow> bool" where
  "quiet get p \<longleftrightarrow>
     get (snd p) = seenValue (fst p) \<and> pendingValue (fst p) = seenPending (fst p) \<and>
     debouncedValue (fst p) = seenDebounced (fst p)"

fun settle ::
  "nat \<Rightarrow> ('st \<Rightarrow> jstring) \<Rightarrow> (jstring \<Rightarrow> 'st \<Rightarrow> 'st) \<Rightarrow> debounced_input \<times> 'st \<Rightarrow> (debounced_input \<times> 'st) option" where
  "settle fuel get put p =
     (if quiet get p then Some p
      else case fuel of 0 \<Rightarrow> None | Suc n \<Rightarrow> settle n get put (commit get put p))"

declare settle.simps [simp del]

subsection \<open>Handlers\<close>

definition updateInputValue :: "jstring \<Rightarrow> debounced_input \<Rightarrow> debounced_input" where
  "updateInputValue s d = d\<lparr>inputValue := s, pendingValue := if isComposing d then pendingValue d else s\<rparr>"

definition handleCompositionStart :: "debounced_input \<Rightarrow> debounced_input" where
  "handleCompositionStart d = d\<lparr>isComposing := True\<rparr>"

definition handleCompositionEnd :: "jstring \<Rightarrow> debounced_input \<Rightarrow> debounced_input" where
  "handleCompositionEnd s d = d\<lparr>isComposing := False, inputValue := s, pendingValue := s\<rparr>"

definition resetInput :: "debounced_input \<Rightarrow> debounced_input" where
  "resetInput d = d\<lparr>isComposing := False, inputValue := [], pendingValue := []\<rparr>"

text \<open>An event on the input, the end of the timer, and a change of the table from outside\<close>

datatype 'st input_event =
    Typed jstring
  | CompositionStart
  | CompositionEnd jstring
  | ResetInput
  | Timeout
  | Outside "'st \<Rightarrow> 'st"

fun handle_event :: "'st input_event \<Rightarrow> debounced_input \<times> 'st \<Rightarrow> debounced_input \<times> 'st" where
  "handle_event (Typed s) (d, st) = (updateInputValue s d, st)"
| "handle_event CompositionStart (d, st) = (handleCompositionStart d, st)"
| "handle_event (CompositionEnd s) (d, st) = (handleCompositionEnd s d, st)"
| "handle_event ResetInput (d, st) = (resetInput d, st)"
| "handle_event Timeout (d, st) = (timeout d, st)"
| "handle_event (Outside f) (d, st) = (d, f st)"

text \<open>Events one after the other, each followed by the renders it causes\<close>

fun run_events ::
  "nat \<Rightarrow> ('st \<Rightarrow> jstring) \<Rightarrow> (jstring \<Rightarrow> 'st \<Rightarrow> 'st) \<Rightarrow> 'st input_event list \<Rightarrow> debounced_input \<times> 'st \<Rightarrow>
     (debounced_input \<times> 'st) option" where
  "run_events fuel get put [] p = Some p"
| "run_events fuel get put (e # es) p =
     (case settle fuel get put (handle_event e p) of
        None \<Rightarrow> None
      | Some q \<Rightarrow> run_events fuel get put es q)"

subsection \<open>The filter of a table\<close>

definition filter_value :: "jstring \<Rightarrow> column_filter list \<Rightarrow> jstring" where
  "filter_value c fs = str_or (coalesce (map_of fs c) Undefined) []"

definition set_filter :: "jstring \<Rightarrow> jstring \<Rightarrow> column_filter list \<Rightarrow> column_filter list" where
  "set_filter c v fs =
     (let others = filter (\<lambda>f. fst f \<noteq> c) fs
      in if v \<noteq> [] then others @ [(c, JStr v)] else others)"

definition table_filter_value :: "jstring \<Rightarrow> table_state \<Rightarrow> jstring" where
  "table_filter_value c st = filter_value c (columnFilters st)"

definition table_set_filter :: "router \<Rightarrow> table_cfg \<Rightarrow> jstring \<Rightarrow> jstring \<Rightarrow> table_state \<Rightarrow> table_state" where
  "table_set_filter router cfg c v st = onColumnFiltersChange router cfg (set_filter c v) st"

text \<open>The reset button of the toolbar: no column filters and no global filter\<close>

definition handleReset :: "router \<Rightarrow> table_cfg \<Rightarrow> table_state \<Rightarrow> table_state" where
  "handleReset router cfg st = onGlobalFilterChange router cfg (\<lambda>_. []) (onColumnFiltersChange router cfg (\<lambda>_. []) st)"

text \<open>
  On the channels table the toolbar calls the handler of the table, which replaces the remembered status
  first: whatever was remembered, the reset is the one above for a browser that remembers \<^verbatim>\<open>all\<close>.
\<close>

definition channels_handleReset ::
  "router \<Rightarrow> (rat \<Rightarrow> jstring) \<Rightarrow> bool \<Rightarrow> table_state \<times> jstring option \<Rightarrow> table_state \<times> jstring option" where
  "channels_handleReset router num isMobile p =
     (let (st, stored) = handleColumnFiltersChange router num isMobile (\<lambda>_. []) p
      in (onGlobalFilterChange router (channelsTable isMobile stored) (\<lambda>_. []) st, stored))"

lemma channels_reset:
  "channels_handleReset router num isMobile (st, stored) =
     (handleReset router (channelsTable isMobile (Some (lit ''all''))) st, Some (lit ''all''))"
  by (simp add: channels_handleReset_def handleReset_def handleColumnFiltersChange_def onColumnFiltersChange_def
      first_item_def is_nullish_def coalesce_def Let_def)

subsection \<open>The hook over any owner of the filter\<close>

definition blank :: "jstring \<Rightarrow> bool" where
  "blank v \<longleftrightarrow> v \<noteq> [] \<and> trim v = []"

text \<open>The hook at rest: the input applied the filter that the table has.\<close>

definition in_sync :: "('st \<Rightarrow> bool) \<Rightarrow> ('st \<Rightarrow> jstring) \<Rightarrow> jstring \<Rightarrow> debounced_input \<times> 'st \<Rightarrow> bool" where
  "in_sync valid get v p \<longleftrightarrow>
     valid (snd p) \<and> get (snd p) = v \<and> seenValue (fst p) = v \<and> debouncedValue (fst p) = v \<and> seenDebounced (fst p) = v \<and>
     pendingValue (fst p) = seenPending (fst p)"

locale filter_owner =
  fixes valid :: "'st \<Rightarrow> bool" and get :: "'st \<Rightarrow> jstring" and put :: "jstring \<Rightarrow> 'st \<Rightarrow> 'st"
  assumes put_valid: "valid st \<Longrightarrow> valid (put v st)"
    and get_put: "valid st \<Longrightarrow> \<not> blank v \<Longrightarrow> get (put v st) = v"
begin

lemma settle_quiet: "quiet get p \<Longrightarrow> settle n get put p = Some p"
  by (simp add: settle.simps)

lemma settle_step: "\<not> quiet get p \<Longrightarrow> settle (Suc n) get put p = settle n get put (commit get put p)"
  by (subst settle.simps) simp

lemma settle_one: "\<not> quiet get p \<Longrightarrow> commit get put p = q \<Longrightarrow> quiet get q \<Longrightarrow> settle (Suc n) get put p = Some q"
  by (simp add: settle_step settle_quiet)

lemma settle_more:
  "\<not> quiet get p \<Longrightarrow> commit get put p = q \<Longrightarrow> settle n get put q = r \<Longrightarrow> settle (Suc n) get put p = r"
  by (simp add: settle_step)

lemma in_sync_quiet: "in_sync valid get v p \<Longrightarrow> quiet get p"
  by (simp add: in_sync_def quiet_def)

text \<open>What is typed becomes the filter when the timer ends.\<close>

lemma typed_applied:
  assumes sync: "in_sync valid get v (d, st)" and d: "\<not> isComposing d" "pendingValue d \<noteq> s" "\<not> blank s"
  shows "\<exists>d'. run_events (Suc (Suc n)) get put [Typed s, Timeout] (d, st) = Some (d', if s = v then st else put s st) \<and>
    in_sync valid get s (d', if s = v then st else put s st) \<and> inputValue d' = s \<and> pendingValue d' = s \<and> \<not> isComposing d'"
proof -
  obtain i p t where d_eq: "d = \<lparr>inputValue = i, pendingValue = p, isComposing = False, debouncedValue = v, timer = t,
      seenValue = v, seenPending = p, seenDebounced = v\<rparr>"
    using sync d by (cases d) (auto simp: in_sync_def)
  have st: "valid st" "get st = v" and p: "p \<noteq> s"
    using sync d by (auto simp: in_sync_def d_eq)
  define d1 where "d1 = \<lparr>inputValue = s, pendingValue = s, isComposing = False, debouncedValue = v, timer = Some s,
      seenValue = v, seenPending = s, seenDebounced = v\<rparr>"
  have s1: "settle (Suc (Suc n)) get put (handle_event (Typed s) (d, st)) = Some (d1, st)"
    using st p by (intro settle_one)
      (simp_all add: quiet_def d_eq d1_def updateInputValue_def commit_def restart_timer_def align_input_def apply_filter_def)
  have t1: "handle_event Timeout (d1, st) = (d1\<lparr>debouncedValue := s, timer := None\<rparr>, st)"
    by (simp add: timeout_def d1_def)
  define d2 where "d2 = \<lparr>inputValue = s, pendingValue = s, isComposing = False, debouncedValue = s, timer = None,
      seenValue = s, seenPending = s, seenDebounced = s\<rparr>"
  have s2: "settle (Suc (Suc n)) get put (handle_event Timeout (d1, st)) = Some (d2, if s = v then st else put s st)"
  proof (cases "s = v")
    case True
    then show ?thesis
      unfolding t1 using st by (subst settle_quiet) (simp_all add: quiet_def d1_def d2_def)
  next
    case False
    have gp: "get (put s st) = s"
      using st(1) d(3) by (rule get_put)
    show ?thesis
      unfolding t1 using st False gp by (intro settle_more [OF _ refl] settle_one [OF _ refl])
        (simp_all add: settle_quiet quiet_def d1_def d2_def commit_def restart_timer_def align_input_def apply_filter_def)
  qed
  have "in_sync valid get s (d2, if s = v then st else put s st)"
    using st put_valid get_put d(3) by (simp add: in_sync_def d2_def)
  then show ?thesis
    by (intro exI [of _ d2]) (simp add: s1 s2 d2_def del: handle_event.simps)
qed

text \<open>A change of the filter that the input did not make is taken back.\<close>

lemma outside_taken_back:
  assumes sync: "in_sync valid get v (d, st)" and d: "\<not> isComposing d" "\<not> blank v" and st': "valid st'" "get st' \<noteq> v"
  shows "\<exists>d'. settle (Suc (Suc (Suc n))) get put (d\<lparr>inputValue := x, pendingValue := q\<rparr>, st') = Some (d', put v st') \<and>
    in_sync valid get v (d', put v st') \<and> inputValue d' = v"
proof -
  obtain i p t where d_eq: "d = \<lparr>inputValue = i, pendingValue = p, isComposing = False, debouncedValue = v, timer = t,
      seenValue = v, seenPending = p, seenDebounced = v\<rparr>"
    using sync d by (cases d) (auto simp: in_sync_def)
  have gp: "get (put v st') = v"
    using st'(1) d(2) by (rule get_put)
  define d3 where "d3 = \<lparr>inputValue = v, pendingValue = v, isComposing = False, debouncedValue = v, timer = Some v,
      seenValue = v, seenPending = v, seenDebounced = v\<rparr>"
  define w where "w = get st'"
  define d1 where "d1 = \<lparr>inputValue = w, pendingValue = w, isComposing = False, debouncedValue = v,
      timer = (if q = p then t else Some q), seenValue = w, seenPending = q, seenDebounced = v\<rparr>"
  define d2 where "d2 = \<lparr>inputValue = v, pendingValue = v, isComposing = False, debouncedValue = v,
      timer = (if w = q then timer d1 else Some w), seenValue = v, seenPending = w, seenDebounced = v\<rparr>"
  have w: "get st' = w" "w \<noteq> v"
    using st'(2) by (simp_all add: w_def)
  have c1: "commit get put (d\<lparr>inputValue := x, pendingValue := q\<rparr>, st') = (d1, put v st')"
    using w by (simp add: d_eq d1_def commit_def restart_timer_def align_input_def apply_filter_def)
  have c2: "commit get put (d1, put v st') = (d2, put v st')"
    using w gp by (simp add: d1_def d2_def commit_def restart_timer_def align_input_def apply_filter_def)
  have c3: "commit get put (d2, put v st') = (d3, put v st')"
    using w gp by (simp add: d2_def d3_def commit_def restart_timer_def align_input_def apply_filter_def)
  have "settle (Suc (Suc (Suc n))) get put (d\<lparr>inputValue := x, pendingValue := q\<rparr>, st') = Some (d3, put v st')"
    by (rule settle_more [OF _ c1], use w in \<open>simp add: quiet_def d_eq\<close>,
        rule settle_more [OF _ c2], use w gp in \<open>simp add: quiet_def d1_def\<close>,
        rule settle_one [OF _ c3], use w gp in \<open>simp_all add: quiet_def d2_def d3_def\<close>)
  moreover have "in_sync valid get v (d3, put v st')"
    using st'(1) put_valid gp by (simp add: in_sync_def d3_def)
  ultimately show ?thesis
    by (intro exI [of _ d3]) (simp add: d3_def)
qed

text \<open>While a text is being composed the filter does not change.\<close>

lemma composing_unchanged:
  assumes "in_sync valid get v (d, st)" "isComposing d" "timer d = None"
  shows "run_events (Suc (Suc n)) get put [Typed s, Timeout] (d, st) = Some (d\<lparr>inputValue := s\<rparr>, st)"
proof -
  have 1: "handle_event (Typed s) (d, st) = (d\<lparr>inputValue := s\<rparr>, st)"
    using assms(2) by (simp add: updateInputValue_def)
  have 2: "quiet get (d\<lparr>inputValue := s\<rparr>, st)"
    using in_sync_quiet [OF assms(1)] by (simp add: quiet_def)
  have 3: "handle_event Timeout (d\<lparr>inputValue := s\<rparr>, st) = (d\<lparr>inputValue := s\<rparr>, st)"
    using assms(3) by (simp add: timeout_def)
  show ?thesis
    by (simp only: run_events.simps 1 2 3 settle_quiet option.case)
qed

end

subsection \<open>The tables with a debounced filter\<close>

text \<open>The channels table is taken with no remembered status, as it is after a change by its handler or a reset.\<close>

definition debounced_tables :: "bool \<Rightarrow> (table_cfg \<times> search_schema \<times> column_cfg) list" where
  "debounced_tables isMobile =
     [(channelsTable isMobile (Some (lit ''all'')), channelsSearchSchema, string_column ''model'' ''model''),
      (apiKeysTable, apiKeySearchSchema, string_column ''_tokenSearch'' ''token'')]"

lemma debounced_url_table:
  "(cfg, sch, c) \<in> set (debounced_tables isMobile) \<Longrightarrow> (cfg, sch) \<in> set (url_tables num isMobile isAdmin (Some (lit ''all'')))"
  by (auto simp: debounced_tables_def url_tables_def)

lemma debounced_column:
  assumes "(cfg, sch, c) \<in> set (debounced_tables isMobile)"
  shows "c \<in> set (columnFiltersCfg cfg)" "string_type c" "serialize c = (\<lambda>v. v)" "deserialize c = (\<lambda>v. v)"
    "(searchKey c, f) \<in> set sch \<Longrightarrow> fst f = StringField"
  using assms
  by (auto simp: debounced_tables_def columns_of string_column_def channelsSearchSchema_def apiKeySearchSchema_def)

lemma debounced_deserialize:
  assumes "(cfg, sch, c) \<in> set (debounced_tables isMobile)" "d \<in> set (columnFiltersCfg cfg)"
  shows "deserialize d v = v \<or> v = Undefined \<and> deserialize d v = JArr []" "serialize d = (\<lambda>v. v)"
  using assms by (auto simp: debounced_tables_def columns_of array_column_def string_column_def channelStatus_def split: if_splits)

lemma filter_param_not_shown:
  "shown_filter c fs = None \<Longrightarrow> filter_param c fs = Undefined"
  by (auto simp: shown_filter_def shown_value_def filter_param_def str_or_def coalesce_def Let_def
      split: option.splits if_splits jsval.splits)

text \<open>The filters that a table has are filters that its route accepts.\<close>

lemma own_filters_accepted:
  assumes tab: "(cfg, sch, c) \<in> set (debounced_tables isMobile)" and inv: "table_inv sch carried cfg st"
    and rt: "router_ok sch carried router" and d: "d \<in> set (columnFiltersCfg cfg)"
  shows "filter_param d (columnFilters st) = Undefined \<or>
      deserialize d (filter_param d (columnFilters st)) = filter_param d (columnFilters st)"
    and "(searchKey d, f) \<in> set sch \<Longrightarrow> field_kept carried f (filter_param d (columnFilters st))"
proof -
  let ?raw = "param st (searchKey d)"
  have sync: "initial_filter d ?raw = shown_filter d (columnFilters st)"
    by (rule inv_sync [OF inv table_fits_keys(6) [OF tables_fit [OF debounced_url_table [OF tab]]] d])
  have raw: "filter_param d (columnFilters st) = ?raw \<and> ?raw \<noteq> Undefined \<and> deserialize d ?raw = ?raw"
    if sf: "shown_filter d (columnFilters st) = Some q" for q
  proof -
    obtain v where v: "map_of (columnFilters st) (columnId d) = Some v" "shown_value d v" "q = (columnId d, v)"
      using sf by (auto simp: shown_filter_def split: option.splits if_splits)
    have fp: "filter_param d (columnFilters st) = v" "v \<noteq> Undefined"
      using filter_param_shown [OF debounced_deserialize(2) [OF tab d] v(1, 2)] by simp_all
    have "initial_filter d ?raw = Some (columnId d, v)"
      using sync sf v(3) by simp
    then have "deserialize d ?raw = v \<and> deserialize d ?raw \<noteq> JArr []"
      using v(2) by (auto simp: initial_filter_def nullish_or_def is_nullish_def shown_value_def split: if_splits jsval.splits)
    with debounced_deserialize(1) [OF tab d, of ?raw] fp show ?thesis
      by auto
  qed
  show "filter_param d (columnFilters st) = Undefined \<or>
      deserialize d (filter_param d (columnFilters st)) = filter_param d (columnFilters st)"
    using raw filter_param_not_shown [of d "columnFilters st"] by (cases "shown_filter d (columnFilters st)") auto
  show "field_kept carried f (filter_param d (columnFilters st))" if f: "(searchKey d, f) \<in> set sch"
  proof (cases "shown_filter d (columnFilters st)")
    case None
    then show ?thesis
      by (simp only: filter_param_not_shown field_kept_Undefined [OF rt])
  next
    case (Some q)
    have "field_kept carried f ?raw"
      using inv f by (auto simp: table_inv_def search_ok_iff param_def)
    with raw [OF Some] show ?thesis
      by simp
  qed
qed

lemma map_of_set_filter:
  "map_of (set_filter k v fs) i = (if i = k then if v = [] then None else Some (JStr v) else map_of fs i)"
proof -
  have "map_of (filter (\<lambda>f. fst f \<noteq> k) fs) i = (if i = k then None else map_of fs i)"
    by (induction fs) auto
  then show ?thesis
    by (auto simp: set_filter_def Let_def map_add_def split: option.split)
qed

text \<open>A table whose text inputs can be written to the URL\<close>

definition filter_table ::
  "bool \<Rightarrow> table_cfg \<Rightarrow> search_schema \<Rightarrow> column_cfg \<Rightarrow> (jsval \<Rightarrow> bool) \<Rightarrow> router \<Rightarrow> table_state \<Rightarrow> bool" where
  "filter_table isMobile cfg sch c carried router st \<longleftrightarrow>
     (cfg, sch, c) \<in> set (debounced_tables isMobile) \<and> router_ok sch carried router \<and> (\<forall>s. carried (JStr s)) \<and>
     table_inv sch carried cfg st"

lemma set_filter_accepted:
  assumes "filter_table isMobile cfg sch c carried router st"
  shows "filters_accepted sch carried cfg (set_filter (columnId c) v (columnFilters st))"
proof -
  have tab: "(cfg, sch, c) \<in> set (debounced_tables isMobile)" and inv: "table_inv sch carried cfg st"
    and rt: "router_ok sch carried router" and str: "carried (JStr s)" for s
    using assms by (auto simp: filter_table_def)
  have dist: "distinct (map columnId (columnFiltersCfg cfg))"
    by (rule table_fits_keys(6) [OF tables_fit [OF debounced_url_table [OF tab]]])
  let ?fs = "set_filter (columnId c) v (columnFilters st)"
  have own: "filter_param c ?fs = (if trim v \<noteq> [] then JStr v else Undefined)"
    using debounced_column(2, 3) [OF tab] by (auto simp: filter_param_def map_of_set_filter str_or_def coalesce_def)
  have other: "filter_param d ?fs = filter_param d (columnFilters st)" if "d \<in> set (columnFiltersCfg cfg)" "d \<noteq> c" for d
  proof -
    have "columnId d \<noteq> columnId c"
      using dist that debounced_column(1) [OF tab] by (metis distinct_map inj_onD)
    then show ?thesis
      by (simp add: filter_param_def map_of_set_filter)
  qed
  have "filter_param d ?fs = Undefined \<or> deserialize d (filter_param d ?fs) = filter_param d ?fs"
    if d: "d \<in> set (columnFiltersCfg cfg)" for d
    using own_filters_accepted(1) [OF tab inv rt d] other [OF d] own debounced_column(4) [OF tab] by (cases "d = c") auto
  moreover have "field_kept carried f (filter_param d ?fs)"
    if d: "d \<in> set (columnFiltersCfg cfg)" and f: "(searchKey d, f) \<in> set sch" for d f
  proof (cases "d = c")
    case True
    have "fst f = StringField"
      using debounced_column(5) [OF tab] f True by simp
    then have "field_kept carried f (JStr v)"
      using str by (simp add: field_kept_def field_value_def)
    then show ?thesis
      unfolding True own using field_kept_Undefined [OF rt] by simp
  next
    case False
    then show ?thesis
      using other [OF d] own_filters_accepted(2) [OF tab inv rt d f] by simp
  qed
  ultimately show ?thesis
    by (auto simp: filters_accepted_def list_all_iff)
qed

lemma columnFilters_navigate:
  "columnFilters (navigate router cfg patch st) = columnFilters st \<or>
   columnFilters (navigate router cfg patch st) = initialColumnFilters cfg (navigate router cfg patch st)"
  by (auto simp: navigate_def initialColumnFilters_def param_def Let_def split: prod.split)

lemma columnFilters_onColumnFiltersChange:
  "columnFilters (onColumnFiltersChange router cfg u st) = u (columnFilters st) \<or>
   columnFilters (onColumnFiltersChange router cfg u st) = initialColumnFilters cfg (onColumnFiltersChange router cfg u st)"
  using columnFilters_navigate [where st = "st\<lparr>columnFilters := u (columnFilters st)\<rparr>" and router = router and cfg = cfg and
      patch = "(pageKey cfg, Undefined) # map (\<lambda>c. (searchKey c, filter_param c (u (columnFilters st)))) (columnFiltersCfg cfg)"]
  by (simp add: onColumnFiltersChange_def Let_def)

lemma columnFilters_onGlobalFilterChange:
  "columnFilters (onGlobalFilterChange router cfg u st) = columnFilters st \<or>
   columnFilters (onGlobalFilterChange router cfg u st) = initialColumnFilters cfg (onGlobalFilterChange router cfg u st)"
proof (cases "globalFilterEnabled cfg")
  case True
  then obtain patch s where "onGlobalFilterChange router cfg u st = navigate router cfg patch (st\<lparr>globalFilter := s\<rparr>)"
    by (simp add: onGlobalFilterChange_def Let_def)
  then show ?thesis
    using columnFilters_navigate [of router cfg patch "st\<lparr>globalFilter := s\<rparr>"] by simp
qed (simp add: onGlobalFilterChange_def)

lemma initial_filter_value:
  assumes dist: "distinct (map columnId (columnFiltersCfg cfg))" and c: "c \<in> set (columnFiltersCfg cfg)" "string_type c"
  shows "filter_value (columnId c) (initialColumnFilters cfg st) =
    (case shown_filter c (initialColumnFilters cfg st) of Some (k, JStr s) \<Rightarrow> s | _ \<Rightarrow> [])"
proof -
  have m: "map_of (initialColumnFilters cfg st) (columnId c) = map_option snd (initial_filter c (param st (searchKey c)))"
    unfolding initialColumnFilters_def using dist c(1) initial_filter_shown by (intro map_of_map_filter) blast+
  show ?thesis
  proof (cases "initial_filter c (param st (searchKey c))")
    case None
    then show ?thesis
      using m by (simp add: filter_value_def shown_filter_def coalesce_def str_or_def)
  next
    case (Some p)
    have "shown_value c (snd p)"
      using initial_filter_shown(2) [of c _ "fst p" "snd p"] Some by simp
    with Some m c(2) show ?thesis
      by (auto simp: filter_value_def shown_filter_def shown_value_def coalesce_def str_or_def split: jsval.splits)
  qed
qed

text \<open>The value of a column's filter follows from what the table shows, unless it is blank.\<close>

lemma filter_value_shown:
  assumes "string_type c" "\<not> blank (filter_value (columnId c) fs)"
  shows "filter_value (columnId c) fs = (case shown_filter c fs of Some (k, JStr s) \<Rightarrow> s | _ \<Rightarrow> [])"
  using assms by (auto simp: filter_value_def shown_filter_def shown_value_def coalesce_def str_or_def blank_def
      split: option.split jsval.splits)

lemma filter_value_after:
  assumes dist: "distinct (map columnId (columnFiltersCfg cfg))" and c: "c \<in> set (columnFiltersCfg cfg)" "string_type c"
    and fs: "columnFilters st' = fs \<or> columnFilters st' = initialColumnFilters cfg st'"
    and shown: "shown_filters cfg (columnFilters st') = shown_filters cfg fs" and nb: "\<not> blank (filter_value (columnId c) fs)"
  shows "filter_value (columnId c) (columnFilters st') = filter_value (columnId c) fs"
  using fs
proof
  assume init: "columnFilters st' = initialColumnFilters cfg st'"
  have find: "map_of (shown_filters cfg gs) (columnId c) = map_option snd (shown_filter c gs)" for gs
    unfolding shown_filters_def using dist c(1)
    by (intro map_of_map_filter) (auto simp: shown_filter_def split: option.splits if_splits)
  have "map_option snd (shown_filter c (columnFilters st')) = map_option snd (shown_filter c fs)"
    using find [of fs] find [of "columnFilters st'"] shown by simp
  then have eq: "(case shown_filter c (columnFilters st') of Some (k, JStr s) \<Rightarrow> s | _ \<Rightarrow> []) =
      (case shown_filter c fs of Some (k, JStr s) \<Rightarrow> s | _ \<Rightarrow> [])"
    by (cases "shown_filter c (columnFilters st')"; cases "shown_filter c fs") (auto split: prod.splits)
  show ?thesis
    unfolding filter_value_shown [OF c(2) nb] using initial_filter_value [OF dist c, of st'] eq init by simp
qed simp

interpretation table_filter: filter_owner "filter_table isMobile cfg sch c carried router"
    "table_filter_value (columnId c)" "table_set_filter router cfg (columnId c)"
  for isMobile cfg sch c carried router
proof
  fix st v
  assume valid: "filter_table isMobile cfg sch c carried router st"
  then have tab: "(cfg, sch, c) \<in> set (debounced_tables isMobile)" and rt: "router_ok sch carried router"
    and inv: "table_inv sch carried cfg st"
    by (auto simp: filter_table_def)
  let ?st = "table_set_filter router cfg (columnId c) v st"
  have sh: "shown_filters cfg (columnFilters ?st) = shown_filters cfg (set_filter (columnId c) v (columnFilters st)) \<and>
      table_inv sch carried cfg ?st"
    unfolding table_set_filter_def
    using accepted_change(1, 2) [where updater = "set_filter (columnId c) v" and st = st, OF debounced_url_table [OF tab] rt _ set_filter_accepted [OF valid, of v]] inv
    by (simp add: table_inv_def)
  then show "filter_table isMobile cfg sch c carried router ?st"
    using valid by (simp add: filter_table_def)
  assume nb: "\<not> blank v"
  have own: "filter_value (columnId c) (set_filter (columnId c) v fs) = v" for fs
    by (simp add: filter_value_def map_of_set_filter coalesce_def str_or_def)
  have "columnFilters ?st = set_filter (columnId c) v (columnFilters st) \<or> columnFilters ?st = initialColumnFilters cfg ?st"
    unfolding table_set_filter_def by (rule columnFilters_onColumnFiltersChange)
  then show "table_filter_value (columnId c) ?st = v"
    using filter_value_after [OF table_fits_keys(6) [OF tables_fit [OF debounced_url_table [OF tab]]] debounced_column(1, 2) [OF tab],
        of ?st "set_filter (columnId c) v (columnFilters st)"] sh nb own
    by (simp add: table_filter_value_def)
qed

subsection \<open>Typing and resetting\<close>

text \<open>
  C39. On the channels and keys tables, a text that is typed into a filter input at rest is the filter of
  the column once the timer ends, the input shows it, and the input and the table are at rest again.
\<close>

theorem debounced_text_applied:
  assumes "in_sync (filter_table isMobile cfg sch c carried router) (table_filter_value (columnId c)) v (d, st)"
    and "\<not> isComposing d" and "pendingValue d \<noteq> s" and "\<not> blank s"
  shows "\<exists>d' st'. run_events 2 (table_filter_value (columnId c)) (table_set_filter router cfg (columnId c)) [Typed s, Timeout] (d, st) =
      Some (d', st') \<and> table_filter_value (columnId c) st' = s \<and> inputValue d' = s \<and>
    in_sync (filter_table isMobile cfg sch c carried router) (table_filter_value (columnId c)) s (d', st')"
proof -
  obtain d' where d': "run_events (Suc (Suc 0)) (table_filter_value (columnId c)) (table_set_filter router cfg (columnId c))
      [Typed s, Timeout] (d, st) = Some (d', if s = v then st else table_set_filter router cfg (columnId c) s st)"
    "in_sync (filter_table isMobile cfg sch c carried router) (table_filter_value (columnId c)) s
      (d', if s = v then st else table_set_filter router cfg (columnId c) s st)" "inputValue d' = s"
    using table_filter.typed_applied [OF assms] by blast
  then have "table_filter_value (columnId c) (if s = v then st else table_set_filter router cfg (columnId c) s st) = s"
    by (simp add: in_sync_def del: if_image_distrib)
  with d' show ?thesis
    by (intro exI [of _ d'] exI [of _ "if s = v then st else table_set_filter router cfg (columnId c) s st"])
      (simp only: numeral_2_eq_2 simp_thms)
qed

lemma handleReset_valid:
  assumes valid: "filter_table isMobile cfg sch c carried router st"
  shows "filter_table isMobile cfg sch c carried router (handleReset router cfg st)"
    and "table_filter_value (columnId c) (handleReset router cfg st) = []"
proof -
  have tab: "(cfg, sch, c) \<in> set (debounced_tables isMobile)" and rt: "router_ok sch carried router"
    and inv: "table_inv sch carried cfg st" and str: "carried (JStr s)" for s
    using valid by (auto simp: filter_table_def)
  note fits = tables_fit [OF debounced_url_table [OF tab]]
  let ?st1 = "onColumnFiltersChange router cfg (\<lambda>_. []) st"
  let ?st2 = "handleReset router cfg st"
  have empty: "filter_param d [] = Undefined" for d
    by (simp add: filter_param_not_shown shown_filter_def)
  have "filters_accepted sch carried cfg []"
    using field_kept_Undefined [OF rt] by (auto simp: filters_accepted_def list_all_iff empty)
  then have st1: "table_inv sch carried cfg ?st1" "shown_filters cfg (columnFilters ?st1) = shown_filters cfg []"
    using accepted_change(1, 2) [where updater = "\<lambda>_. []" and st = st, OF debounced_url_table [OF tab] rt] inv
    by (simp_all add: table_inv_def)
  have st2: "table_inv sch carried cfg ?st2" "shown_filters cfg (columnFilters ?st2) = shown_filters cfg (columnFilters ?st1)"
    unfolding handleReset_def using onGlobalFilterChange_inv [OF fits rt st1(1), of "\<lambda>_. []"] str by blast+
  then show "filter_table isMobile cfg sch c carried router ?st2"
    using valid by (simp add: filter_table_def)
  note after = filter_value_after [OF table_fits_keys(6) [OF fits] debounced_column(1, 2) [OF tab]]
  have "columnFilters ?st1 = [] \<or> columnFilters ?st1 = initialColumnFilters cfg ?st1"
    using columnFilters_onColumnFiltersChange [of router cfg "\<lambda>_. []" st] by simp
  from after [OF this st1(2)] have v1: "filter_value (columnId c) (columnFilters ?st1) = []"
    by (simp add: filter_value_def coalesce_def str_or_def blank_def)
  have "columnFilters ?st2 = columnFilters ?st1 \<or> columnFilters ?st2 = initialColumnFilters cfg ?st2"
    unfolding handleReset_def by (rule columnFilters_onGlobalFilterChange)
  from after [OF this st2(2)] v1 show "table_filter_value (columnId c) ?st2 = []"
    by (simp add: table_filter_value_def blank_def)
qed

text \<open>
  C40. Resetting a table whose debounced filter is set does not reset that filter: the hook still has the
  old text as its debounced value, sees that the filter differs, and sets it again. Clearing the input
  along with the reset, as the channels table does, makes no difference.
\<close>

theorem reset_taken_back:
  assumes "in_sync (filter_table isMobile cfg sch c carried router) (table_filter_value (columnId c)) v (d, st)"
    and "\<not> isComposing d" and "\<not> blank v" and "v \<noteq> []" and "e = d \<or> e = resetInput d"
  shows "table_filter_value (columnId c) (handleReset router cfg st) = [] \<and>
    (\<exists>d' st'. settle 3 (table_filter_value (columnId c)) (table_set_filter router cfg (columnId c)) (e, handleReset router cfg st) =
      Some (d', st') \<and> table_filter_value (columnId c) st' = v \<and> inputValue d' = v \<and>
    in_sync (filter_table isMobile cfg sch c carried router) (table_filter_value (columnId c)) v (d', st'))"
proof -
  let ?st = "handleReset router cfg st"
  have "filter_table isMobile cfg sch c carried router st"
    using assms(1) by (simp add: in_sync_def)
  note reset = handleReset_valid [OF this]
  have neq: "table_filter_value (columnId c) ?st \<noteq> v"
    using reset(2) assms(4) by simp
  have e: "e = d\<lparr>inputValue := inputValue e, pendingValue := pendingValue e\<rparr>"
    using assms(2, 5) by (cases d) (auto simp: resetInput_def)
  obtain d' where "settle (Suc (Suc (Suc 0))) (table_filter_value (columnId c)) (table_set_filter router cfg (columnId c)) (e, ?st) =
      Some (d', table_set_filter router cfg (columnId c) v ?st)"
    "in_sync (filter_table isMobile cfg sch c carried router) (table_filter_value (columnId c)) v
      (d', table_set_filter router cfg (columnId c) v ?st)" "inputValue d' = v"
    using table_filter.outside_taken_back [OF assms(1-3) reset(1) neq, where n = 0 and x = "inputValue e" and q = "pendingValue e"]
    unfolding e [symmetric] by blast
  moreover from this(2) have "table_filter_value (columnId c) (table_set_filter router cfg (columnId c) v ?st) = v"
    by (simp add: in_sync_def)
  ultimately show ?thesis
    using reset(2) by (auto simp: numeral_3_eq_3)
qed

subsection \<open>Examples\<close>

abbreviation channels_cfg :: table_cfg where
  "channels_cfg \<equiv> channelsTable False (Some (lit ''all''))"

abbreviation channels_router :: router where
  "channels_router \<equiv> plain_router channelsSearchSchema"

abbreviation model_column :: column_cfg where
  "model_column \<equiv> string_column ''model'' ''model''"

abbreviation channels_state :: "string \<Rightarrow> table_state" where
  "channels_state m \<equiv> useTableUrlState channels_cfg [(lit ''model'', JStr (lit m))] None"

lemma channels_in_sync:
  assumes "search_ok channelsSearchSchema (\<lambda>_. True) (search (channels_state m))"
    "table_filter_value (columnId model_column) (channels_state m) = lit m"
  shows "in_sync (filter_table False channels_cfg channelsSearchSchema model_column (\<lambda>_. True) channels_router)
    (table_filter_value (columnId model_column)) (lit m) (useDebouncedColumnFilter (lit m), channels_state m)"
proof -
  have "table_inv channelsSearchSchema (\<lambda>_. True) channels_cfg (channels_state m)"
    by (rule first_render_inv [OF tables_fit_each(1)]) (use assms(1) in \<open>simp add: useTableUrlState_def Let_def\<close>)
  moreover have "router_ok channelsSearchSchema (\<lambda>_. True) channels_router"
    by (rule plain_router_ok) (simp add: channelsSearchSchema_def)
  ultimately show ?thesis
    using assms(2) by (simp add: in_sync_def filter_table_def useDebouncedColumnFilter_def debounced_tables_def)
qed

lemma channels_in_sync_gpt:
  "in_sync (filter_table False channels_cfg channelsSearchSchema model_column (\<lambda>_. True) channels_router)
    (table_filter_value (columnId model_column)) (lit ''gpt'') (useDebouncedColumnFilter (lit ''gpt''), channels_state ''gpt'')"
  by (rule channels_in_sync) code_simp+

theorem debounced_text_applied_witness:
  "\<exists>d' st'. run_events 2 (table_filter_value (columnId model_column)) (table_set_filter channels_router channels_cfg (columnId model_column))
      [Typed (lit ''o3''), Timeout] (useDebouncedColumnFilter (lit ''gpt''), channels_state ''gpt'') = Some (d', st') \<and>
    table_filter_value (columnId model_column) st' = lit ''o3''"
proof -
  have "\<not> isComposing (useDebouncedColumnFilter (lit ''gpt''))" "pendingValue (useDebouncedColumnFilter (lit ''gpt'')) \<noteq> lit ''o3''"
    by (simp_all add: useDebouncedColumnFilter_def)
  moreover have "\<not> blank (lit ''o3'')"
    by code_simp
  ultimately show ?thesis
    using debounced_text_applied [OF channels_in_sync_gpt] by blast
qed

theorem reset_taken_back_witness:
  "table_filter_value (columnId model_column) (handleReset channels_router channels_cfg (channels_state ''gpt'')) = [] \<and>
    (\<exists>d' st'. settle 3 (table_filter_value (columnId model_column)) (table_set_filter channels_router channels_cfg (columnId model_column))
        (resetInput (useDebouncedColumnFilter (lit ''gpt'')), handleReset channels_router channels_cfg (channels_state ''gpt'')) =
      Some (d', st') \<and> table_filter_value (columnId model_column) st' = lit ''gpt'' \<and> inputValue d' = lit ''gpt'')"
proof -
  have "\<not> isComposing (useDebouncedColumnFilter (lit ''gpt''))"
    by (simp add: useDebouncedColumnFilter_def)
  moreover have "\<not> blank (lit ''gpt'')"
    by code_simp
  ultimately show ?thesis
    using reset_taken_back [where e = "resetInput (useDebouncedColumnFilter (lit ''gpt''))", OF channels_in_sync_gpt] by auto
qed

end
