(* ===== verification/Table_Reach.thy ===== *)
theory Table_Reach
  imports Debounced_Filter
begin

section \<open>The tables a user can reach\<close>

text \<open>
  The seven tables that keep their state in the URL as a state machine: a table is opened on a URL, and
  then its handlers run, its debounced input sets a filter, or the URL is changed from outside (a link,
  the filter bar of the usage logs, going back in the history). The steps say which values the menus
  and inputs can give; that the route accepts what is written is proved. The status that the browser
  remembers for the channels table is part of the state.
\<close>

subsection \<open>Tables, routes and menus\<close>

datatype url_table = Channels | Users | Redemptions | Api_Keys | Models | Deployments | Usage_Logs

fun table_config :: "(rat \<Rightarrow> jstring) \<Rightarrow> bool \<Rightarrow> bool \<Rightarrow> url_table \<Rightarrow> jstring option \<Rightarrow> table_cfg" where
  "table_config num isMobile isAdmin Channels stored = channelsTable isMobile stored"
| "table_config num isMobile isAdmin Users stored = usersTable isMobile"
| "table_config num isMobile isAdmin Redemptions stored = redemptionsTable isMobile"
| "table_config num isMobile isAdmin Api_Keys stored = apiKeysTable"
| "table_config num isMobile isAdmin Models stored = modelsTable isMobile"
| "table_config num isMobile isAdmin Deployments stored = deploymentsTable isMobile"
| "table_config num isMobile isAdmin Usage_Logs stored = usageLogsTable num isMobile isAdmin"

fun table_route :: "url_table \<Rightarrow> search_schema" where
  "table_route Channels = channelsSearchSchema"
| "table_route Users = usersSearchSchema"
| "table_route Redemptions = redemptionsSearchSchema"
| "table_route Api_Keys = apiKeySearchSchema"
| "table_route Models = modelsSearchSchema"
| "table_route Deployments = modelsSearchSchema"
| "table_route Usage_Logs = usageLogsSearchSchema"

text \<open>What the columns' filters can be set to: the options of the menus, any strings for the other columns\<close>

definition getUserStatusOptions :: "jstring list" where
  "getUserStatusOptions = [lit ''1'', lit ''2'', lit ''-1'']"

definition getUserRoleOptions :: "jstring list" where
  "getUserRoleOptions = [lit ''1'', lit ''10'', lit ''100'']"

definition getRedemptionStatusOptions :: "jstring list" where
  "getRedemptionStatusOptions = [lit ''1'', lit ''2'', lit ''3'', lit ''expired'']"

definition API_KEY_STATUS_OPTIONS :: "jstring list" where
  "API_KEY_STATUS_OPTIONS = [lit ''1'', lit ''2'', lit ''3'', lit ''4'']"

definition menu_options :: "url_table \<Rightarrow> jstring \<Rightarrow> jstring list option" where
  "menu_options t k =
     (if t = Users \<and> k = lit ''status'' then Some getUserStatusOptions
      else if t = Users \<and> k = lit ''role'' then Some getUserRoleOptions
      else if t = Redemptions then Some getRedemptionStatusOptions
      else if t = Api_Keys then Some API_KEY_STATUS_OPTIONS
      else if t = Usage_Logs then Some []
      else None)"

definition menu_value :: "url_table \<Rightarrow> column_cfg \<Rightarrow> jsval \<Rightarrow> bool" where
  "menu_value t c v \<longleftrightarrow>
     (if string_type c then as_str v \<noteq> None
      else (case v of
          JArr vs \<Rightarrow>
            list_all (\<lambda>v. case as_str v of
                None \<Rightarrow> False
              | Some s \<Rightarrow> (case menu_options t (columnId c) of None \<Rightarrow> True | Some os \<Rightarrow> s \<in> set os)) vs
        | _ \<Rightarrow> False))"

text \<open>A change of the filters: each column keeps its filter, loses it, or gets one from its menu or input.\<close>

definition filter_edit :: "url_table \<Rightarrow> table_cfg \<Rightarrow> column_filter list \<Rightarrow> column_filter list \<Rightarrow> bool" where
  "filter_edit t cfg fs gs \<longleftrightarrow>
     list_all (\<lambda>c. map_of gs (columnId c) = map_of fs (columnId c) \<or>
       (case map_of gs (columnId c) of None \<Rightarrow> True | Some v \<Rightarrow> menu_value t c v)) (columnFiltersCfg cfg)"

subsection \<open>The URL from outside\<close>

text \<open>What a route makes of a URL: every parameter as it is, or the value of \<^verbatim>\<open>.catch\<close>; \<open>None\<close>: the route fails.\<close>

definition route_search :: "search_schema \<Rightarrow> search_params \<Rightarrow> search_params option" where
  "route_search sch raw =
     (if list_all (\<lambda>(k, f). field_value f (sparam raw k) \<noteq> None) sch
      then Some (map (\<lambda>(k, f). (k, coalesce (field_value f (sparam raw k)) Undefined)) sch)
      else None)"

text \<open>The table when the router shows other parameters, in a new object\<close>

definition goto_search :: "table_cfg \<Rightarrow> search_params \<Rightarrow> table_state \<Rightarrow> table_state" where
  "goto_search cfg s st =
     (let st1 = st\<lparr>search := s\<rparr> in st1\<lparr>columnFilters := initialColumnFilters cfg st1\<rparr>)"

text \<open>The URL carries numbers, strings and lists of strings.\<close>

definition url_carries :: "(jsval \<Rightarrow> bool) \<Rightarrow> bool" where
  "url_carries carried \<longleftrightarrow>
     carried Undefined \<and> (\<forall>q. carried (JNum (Fin q))) \<and> (\<forall>s. carried (JStr s)) \<and> (\<forall>ss. carried (JArr (map JStr ss)))"

subsection \<open>Handlers and steps\<close>

text \<open>The handler of the table for its column filters; the channels table also remembers the status.\<close>

definition changeFilters ::
  "router \<Rightarrow> (rat \<Rightarrow> jstring) \<Rightarrow> bool \<Rightarrow> bool \<Rightarrow> url_table \<Rightarrow> (column_filter list \<Rightarrow> column_filter list) \<Rightarrow>
     table_state \<times> jstring option \<Rightarrow> table_state \<times> jstring option" where
  "changeFilters router num isMobile isAdmin t updater p =
     (if t = Channels then handleColumnFiltersChange router num isMobile updater p
      else (onColumnFiltersChange router (table_config num isMobile isAdmin t (snd p)) updater (fst p), snd p))"

text \<open>The columns with a debounced input, which call the hook's handler\<close>

definition debounced_columns :: "url_table \<Rightarrow> jstring list" where
  "debounced_columns t =
     (if t = Channels then [lit ''model''] else if t = Api_Keys then [lit ''_tokenSearch''] else [])"

definition finite_page :: "pagination_state \<Rightarrow> bool" where
  "finite_page p \<longleftrightarrow>
     (case (pageIndex p, pageSize p) of (Fin i, Fin n) \<Rightarrow> True | _ \<Rightarrow> False)"

text \<open>
  \<open>table_reach \<dots> own st stored\<close>: a state that a user can bring a table into. \<open>own\<close>: since the table was
  opened or its global filter was changed, no change from outside altered the global filter in the URL.
\<close>

inductive table_reach ::
  "(jsval \<Rightarrow> bool) \<Rightarrow> router \<Rightarrow> (rat \<Rightarrow> jstring) \<Rightarrow> bool \<Rightarrow> bool \<Rightarrow> url_table \<Rightarrow> bool \<Rightarrow> table_state \<Rightarrow> jstring option \<Rightarrow> bool"
  for carried router num isMobile isAdmin t where
  opened: "route_search (table_route t) raw = Some s \<Longrightarrow> \<forall>k \<in> fst ` set (table_route t). carried (sparam raw k) \<Longrightarrow>
    table_reach carried router num isMobile isAdmin t True
      (useTableUrlState (table_config num isMobile isAdmin t stored) s sz) stored"
| filters: "table_reach carried router num isMobile isAdmin t own st stored \<Longrightarrow>
    filter_edit t (table_config num isMobile isAdmin t stored) (columnFilters st) (updater (columnFilters st)) \<Longrightarrow>
    changeFilters router num isMobile isAdmin t updater (st, stored) = (st', stored') \<Longrightarrow>
    table_reach carried router num isMobile isAdmin t own st' stored'"
| input: "table_reach carried router num isMobile isAdmin t own st stored \<Longrightarrow> k \<in> set (debounced_columns t) \<Longrightarrow>
    table_reach carried router num isMobile isAdmin t own
      (table_set_filter router (table_config num isMobile isAdmin t stored) k v st) stored"
| page: "table_reach carried router num isMobile isAdmin t own st stored \<Longrightarrow>
    finite_page (updater (pagination (table_config num isMobile isAdmin t stored) st)) \<Longrightarrow>
    table_reach carried router num isMobile isAdmin t own
      (onPaginationChange router num (table_config num isMobile isAdmin t stored) updater st) stored"
| global: "table_reach carried router num isMobile isAdmin t own st stored \<Longrightarrow>
    table_reach carried router num isMobile isAdmin t (own \<or> globalFilterEnabled (table_config num isMobile isAdmin t stored))
      (onGlobalFilterChange router (table_config num isMobile isAdmin t stored) updater st) stored"
| range: "table_reach carried router num isMobile isAdmin t own st stored \<Longrightarrow>
    table_reach carried router num isMobile isAdmin t own
      (ensurePageInRange router (table_config num isMobile isAdmin t stored) n b st) stored"
| sorting: "table_reach carried router num isMobile isAdmin t own st stored \<Longrightarrow> t = Channels \<Longrightarrow>
    table_reach carried router num isMobile isAdmin t own
      (snd (handleSortingChange router num (table_config num isMobile isAdmin t stored) updater (order, st))) stored"
| outside: "table_reach carried router num isMobile isAdmin t own st stored \<Longrightarrow>
    route_search (table_route t) raw = Some s \<Longrightarrow> \<forall>k \<in> fst ` set (table_route t). carried (sparam raw k) \<Longrightarrow>
    table_reach carried router num isMobile isAdmin t
      (own \<and> sparam s (globalFilterKey (table_config num isMobile isAdmin t stored)) =
         param st (globalFilterKey (table_config num isMobile isAdmin t stored)))
      (goto_search (table_config num isMobile isAdmin t stored) s st) stored"

subsection \<open>Values that a route accepts\<close>

lemma table_in_url: "(table_config num isMobile isAdmin t stored, table_route t) \<in> set (url_tables num isMobile isAdmin stored)"
  by (cases t) (simp_all add: url_tables_def)

lemmas table_config_fits = tables_fit [OF table_in_url]

lemma column_cases:
  assumes "c \<in> set (columnFiltersCfg (table_config num isMobile isAdmin t stored))"
  obtains (plain) "deserialize c = (\<lambda>v. v)"
  | (status) "t = Channels" "c = array_column ''status'' ''status''\<lparr>deserialize := channelStatus stored\<rparr>"
  | (log_types) "t = Usage_Logs" "c = array_column ''created_at'' ''type''\<lparr>deserialize := deserializeLogTypeFilter num\<rparr>"
  using assms by (cases t) (auto simp: columns_of array_column_def string_column_def split: if_splits)

lemma column_field:
  assumes "c \<in> set (columnFiltersCfg (table_config num isMobile isAdmin t stored))" "(searchKey c, f) \<in> set (table_route t)"
  shows "string_type c \<Longrightarrow> fst f = StringField"
    and "\<not> string_type c \<Longrightarrow> menu_options t (columnId c) = None \<Longrightarrow> fst f = StringsField"
    and "\<not> string_type c \<Longrightarrow> menu_options t (columnId c) = Some os \<Longrightarrow>
      \<exists>es. (fst f = EnumsField es \<or> fst f = LogTypesField es) \<and> set os \<subseteq> set es"
  using assms
  by (cases t; auto simp: columns_of array_column_def string_column_def schema_defs menu_options_def
      getUserStatusOptions_def getUserRoleOptions_def getRedemptionStatusOptions_def API_KEY_STATUS_OPTIONS_def
      REDEMPTION_FILTER_VALUES_def split: if_splits)+

lemma string_list: "list_all (\<lambda>v. as_str v \<noteq> None) vs \<Longrightarrow> \<exists>ss. vs = map JStr ss"
proof (induction vs)
  case (Cons v vs)
  then obtain s ss where "v = JStr s" "vs = map JStr ss"
    by (cases v) auto
  then show ?case
    by (intro exI [of _ "s # ss"]) simp
qed simp

lemma list_field_kept:
  assumes "url_carries carried" "list_all (\<lambda>v. as_str v \<noteq> None) vs"
    and "fst f = StringsField \<or> (\<exists>es. (fst f = EnumsField es \<or> fst f = LogTypesField es) \<and> list_all (in_enum es) vs)"
  shows "field_kept carried f (JArr vs)"
proof -
  obtain ss where "vs = map JStr ss"
    using string_list [OF assms(2)] by blast
  then have "carried (JArr vs)"
    using assms(1) by (simp add: url_carries_def)
  then show ?thesis
    using assms(2, 3) by (auto simp: field_kept_def field_value_def preprocess_types_def is_nullish_def)
qed

lemma in_enum_str: "in_enum es v \<Longrightarrow> as_str v \<noteq> None"
  by (auto simp: in_enum_def list_ex_iff)

lemma menu_kept:
  assumes url: "url_carries carried" and c: "c \<in> set (columnFiltersCfg (table_config num isMobile isAdmin t stored))"
    and f: "(searchKey c, f) \<in> set (table_route t)" and menu: "menu_value t c v"
  shows "field_kept carried f v"
proof (cases "string_type c")
  case True
  then obtain s where "v = JStr s"
    using menu by (cases v) (simp_all add: menu_value_def)
  then show ?thesis
    using column_field(1) [OF c f True] url by (simp add: field_kept_def field_value_def url_carries_def)
next
  case False
  then obtain vs where v: "v = JArr vs"
    using menu by (cases v) (simp_all add: menu_value_def)
  have strs: "list_all (\<lambda>v. as_str v \<noteq> None) vs"
    using menu False unfolding v menu_value_def by (auto simp: list_all_iff split: option.splits)
  show ?thesis
  proof (cases "menu_options t (columnId c)")
    case None
    show ?thesis
      unfolding v using column_field(2) [OF c f False None] by (intro list_field_kept [OF url strs]) simp
  next
    case (Some os)
    obtain es where es: "fst f = EnumsField es \<or> fst f = LogTypesField es" "set os \<subseteq> set es"
      using column_field(3) [OF c f False Some] by blast
    have "in_enum es w" if "w \<in> set vs" for w
    proof -
      have "case as_str w of None \<Rightarrow> False | Some s \<Rightarrow> s \<in> set os"
        using menu False Some unfolding v menu_value_def by (auto simp: list_all_iff dest!: bspec [OF _ that] split: option.splits)
      then obtain s where "w = JStr s" "s \<in> set os"
        by (cases w) auto
      then show ?thesis
        using es(2) by (auto simp: in_enum_def list_ex_iff)
    qed
    then show ?thesis
      unfolding v using es(1) by (intro list_field_kept [OF url strs]) (auto simp: list_all_iff)
  qed
qed

text \<open>The URL that a route shows is one that it accepts as it is.\<close>

definition catches_kept :: "(jsval \<Rightarrow> bool) \<Rightarrow> search_schema \<Rightarrow> bool" where
  "catches_kept carried sch \<longleftrightarrow>
     list_all (\<lambda>(k, f). case snd f of None \<Rightarrow> True | Some d \<Rightarrow> carried d \<and> field_value f d = Some d) sch"

lemma route_catches: "url_carries carried \<Longrightarrow> catches_kept carried (table_route t)"
proof -
  assume url: "url_carries carried"
  then have "carried (JArr [])"
    unfolding url_carries_def by (metis list.simps(8))
  with url have "carried (JArr [])" "carried (JStr [])" "carried Undefined" "carried (JNum (Fin q))" for q
    by (simp_all add: url_carries_def)
  then show ?thesis
    by (cases t) (simp_all add: catches_kept_def schema_defs field_value_def preprocess_types_def is_nullish_def num_isFinite_def)
qed

lemma field_value_kept:
  assumes url: "url_carries carried" and v: "carried v" and w: "field_value f v = Some w"
    and "case snd f of None \<Rightarrow> True | Some d \<Rightarrow> carried d \<and> field_value f d = Some d"
  shows "field_kept carried f w"
proof (cases "field_accepts (fst f) (case fst f of LogTypesField _ \<Rightarrow> preprocess_types v | _ \<Rightarrow> v)")
  case False
  then have "snd f = Some w"
    using w by (simp add: field_value_def Let_def)
  then show ?thesis
    using assms(4) by (simp add: field_kept_def)
next
  case True
  then have w': "w = (case fst f of LogTypesField _ \<Rightarrow> preprocess_types v | _ \<Rightarrow> v)"
    using w by (simp add: field_value_def Let_def)
  show ?thesis
  proof (cases "\<exists>es. fst f = LogTypesField es")
    case False
    then have "w = v"
      using w' by (auto split: field_type.splits)
    then show ?thesis
      using v w by (simp add: field_kept_def)
  next
    case logs: True
    then obtain es where es: "fst f = LogTypesField es"
      by blast
    consider "w = Undefined" | vs where "w = JArr vs"
      using w' es by (auto simp: preprocess_types_def split: if_splits jsval.splits)
    then show ?thesis
    proof cases
      case 1
      then show ?thesis
        using url by (simp add: field_kept_def url_carries_def)
    next
      case (2 vs)
      then have "list_all (in_enum es) vs"
        using True w' es by simp
      then show ?thesis
        unfolding 2 using es in_enum_str by (intro list_field_kept [OF url]) (auto simp: list_all_iff)
    qed
  qed
qed

lemma distinct_route: "distinct (map fst (table_route t))"
  using table_config_fits by (simp add: table_fits_def)

lemma route_search_ok:
  assumes "url_carries carried" "route_search (table_route t) raw = Some s"
    and "\<forall>k \<in> fst ` set (table_route t). carried (sparam raw k)"
  shows "search_ok (table_route t) carried s"
proof -
  have "field_kept carried f (sparam s k)" if kf: "(k, f) \<in> set (table_route t)" for k f
  proof -
    have "map_of (map (\<lambda>(k, f). (k, coalesce (field_value f (sparam raw k)) Undefined)) sch) k =
        map_option (\<lambda>f. coalesce (field_value f (sparam raw k)) Undefined) (map_of sch k)" for sch :: search_schema and k
      by (induction sch) auto
    then have "sparam s k = coalesce (field_value f (sparam raw k)) Undefined"
      using assms(2) distinct_route kf by (auto simp: route_search_def sparam_def split: if_splits)
    moreover have "field_value f (sparam raw k) \<noteq> None"
      using assms(2) kf by (auto simp: route_search_def list_all_iff split: if_splits)
    ultimately have "field_value f (sparam raw k) = Some (sparam s k)"
      by (auto simp: coalesce_def)
    moreover have "carried (sparam raw k)"
      using assms(3) kf by force
    moreover have "case snd f of None \<Rightarrow> True | Some d \<Rightarrow> carried d \<and> field_value f d = Some d"
      using route_catches [OF assms(1), of t] kf by (auto simp: catches_kept_def list_all_iff)
    ultimately show ?thesis
      by (intro field_value_kept [OF assms(1)])
  qed
  then show ?thesis
    by (auto simp: search_ok_iff)
qed

subsection \<open>Changing the filters\<close>

lemma config_serialize:
  "c \<in> set (columnFiltersCfg (table_config num isMobile isAdmin t stored)) \<Longrightarrow> serialize c = (\<lambda>v. v)"
  by (rule table_serialize [OF table_in_url])

lemma log_value:
  assumes "field_value (LogTypesField es, Some (JArr [])) raw = Some raw"
    and "deserializeLogTypeFilter num raw = JArr vs"
  shows "vs = [] \<or> list_all (in_enum es) vs"
proof (cases raw)
  case (JArr ws)
  then have "ws = [] \<or> list_all (in_enum es) ws"
    using assms(1) by (auto simp: field_value_def preprocess_types_def is_nullish_def split: if_splits)
  moreover have "vs = filter (\<lambda>item. js_string (num_string num) item \<noteq> lit ''0'') ws"
    using assms(2) JArr by (simp add: deserializeLogTypeFilter_def)
  ultimately show ?thesis
    by (auto simp: list_all_iff)
qed (use assms in \<open>auto simp: field_value_def preprocess_types_def is_nullish_def deserializeLogTypeFilter_def split: if_splits\<close>)

text \<open>The filters that a table has are filters that its route accepts.\<close>

lemma own_filter_kept:
  assumes url: "url_carries carried" and inv: "table_inv (table_route t) carried (table_config num isMobile isAdmin t stored) st"
    and c: "c \<in> set (columnFiltersCfg (table_config num isMobile isAdmin t stored))"
    and f: "(searchKey c, f) \<in> set (table_route t)"
  shows "field_kept carried f (filter_param c (columnFilters st))"
proof (cases "shown_filter c (columnFilters st)")
  case None
  then show ?thesis
    using url by (simp add: filter_param_not_shown field_kept_def url_carries_def)
next
  case (Some q)
  let ?raw = "param st (searchKey c)"
  obtain v where v: "map_of (columnFilters st) (columnId c) = Some v" "shown_value c v" "q = (columnId c, v)"
    using Some by (auto simp: shown_filter_def split: option.splits if_splits)
  have fp: "filter_param c (columnFilters st) = v"
    by (rule filter_param_shown(1) [OF config_serialize [OF c] v(1, 2)])
  have init: "initial_filter c ?raw = Some (columnId c, v)"
    using inv_sync [OF inv table_fits_keys(6) [OF table_config_fits] c] Some v(3) by simp
  have raw: "field_kept carried f ?raw"
    using inv f by (auto simp: table_inv_def search_ok_iff param_def)
  have v': "v = deserialize c ?raw"
    using init v(2) by (auto simp: initial_filter_def nullish_or_def shown_value_def split: if_splits jsval.splits)
  from c show ?thesis
  proof (cases rule: column_cases)
    case plain
    then show ?thesis
      using raw v' fp by simp
  next
    case status
    then have t: "fst f = StringsField"
      using f by (auto simp: array_column_def channelsSearchSchema_def)
    show ?thesis
    proof (cases "?raw = Undefined")
      case True
      then have "v = JArr [] \<or> v = JArr [JStr (the stored)]"
        using v' status by (simp add: channelStatus_def)
      then show ?thesis
        unfolding fp using t by (auto intro!: list_field_kept [OF url])
    next
      case False
      then show ?thesis
        using raw v' fp status by (simp add: channelStatus_def)
    qed
  next
    case log_types
    then have t: "f = (LogTypesField logTypeValues, Some (JArr []))"
      using f by (auto simp: array_column_def usageLogsSearchSchema_def)
    obtain vs where vs: "v = JArr vs"
      using v(2) log_types by (cases v) (auto simp: shown_value_def array_column_def)
    have "list_all (in_enum logTypeValues) vs"
      using log_value [of logTypeValues ?raw num vs] raw v' vs log_types by (auto simp: field_kept_def t)
    then show ?thesis
      unfolding fp vs using in_enum_str by (intro list_field_kept [OF url]) (auto simp: t list_all_iff)
  qed
qed

lemma filter_edit_cases:
  assumes "filter_edit t cfg fs gs" "c \<in> set (columnFiltersCfg cfg)"
  obtains "map_of gs (columnId c) = map_of fs (columnId c)" | "map_of gs (columnId c) = None"
  | v where "map_of gs (columnId c) = Some v" "menu_value t c v"
  using bspec [OF assms(1) [unfolded filter_edit_def list_all_iff] assms(2)]
  by (cases "map_of gs (columnId c)") auto

lemma edit_kept:
  assumes url: "url_carries carried" and inv: "table_inv (table_route t) carried (table_config num isMobile isAdmin t stored) st"
    and edit: "filter_edit t (table_config num isMobile isAdmin t stored) (columnFilters st) fs"
    and c: "c \<in> set (columnFiltersCfg (table_config num isMobile isAdmin t stored))" and f: "(searchKey c, f) \<in> set (table_route t)"
  shows "field_kept carried f (filter_param c fs)"
proof -
  have undef: "field_kept carried f Undefined"
    using url by (simp add: field_kept_def url_carries_def)
  from edit c show ?thesis
  proof (cases rule: filter_edit_cases)
    case 1
    then have "filter_param c fs = filter_param c (columnFilters st)"
      by (simp add: filter_param_def)
    then show ?thesis
      using own_filter_kept [OF url inv c f] by simp
  next
    case 2
    then show ?thesis
      using undef by (simp add: filter_param_def coalesce_def str_or_def)
  next
    case (3 v)
    show ?thesis
    proof (cases "shown_value c v")
      case True
      then show ?thesis
        using menu_kept [OF url c f 3(2)] filter_param_shown(1) [OF config_serialize [OF c] 3(1)] by simp
    next
      case False
      then have "filter_param c fs = Undefined"
        using 3(1) by (intro filter_param_not_shown) (simp add: shown_filter_def)
      then show ?thesis
        using undef by simp
    qed
  qed
qed

subsection \<open>Every step keeps the invariant\<close>

text \<open>
  After a navigation to parameters that the route accepts, either the router shows a new object and the
  effect of the hook has read the filters from it, or nothing in the URL changed.
\<close>

lemma navigate_synced:
  assumes fits: "table_fits cfg sch" and rt: "router_ok sch carried router"
    and ok: "search_ok sch carried (patched (search st) patch)"
    and same: "(\<And>k. k \<in> fst ` set sch \<Longrightarrow> sparam (patched (search st) patch) k = param st k) \<Longrightarrow>
      shown_filters cfg (columnFilters st) = initialColumnFilters cfg st"
  shows "table_inv sch carried cfg (navigate router cfg patch st)"
proof -
  let ?st = "navigate router cfg patch st"
  have dcols: "distinct (map columnId (columnFiltersCfg cfg))"
    by (rule table_fits_keys(6) [OF fits])
  have "shown_filters cfg (columnFilters ?st) = initialColumnFilters cfg ?st"
  proof (cases "snd (router (search st) (patched (search st) patch))")
    case True
    then have "columnFilters ?st = initialColumnFilters cfg ?st"
      by (auto simp: navigate_def patched_def Let_def initialColumnFilters_def param_def split: prod.splits)
    then show ?thesis
      using shown_initial [OF dcols, of ?st] by simp
  next
    case False
    then have old: "fst (router (search st) (patched (search st) patch)) = search st"
      using rt by (auto simp: router_ok_def)
    then have "?st = st"
      using False by (auto simp: navigate_def patched_def Let_def split: prod.splits)
    moreover have "sparam (patched (search st) patch) k = param st k" if key: "k \<in> fst ` set sch" for k
    proof -
      obtain p where "p \<in> set sch" "k = fst p"
        using key by blast
      then have "sparam (fst (router (search st) (patched (search st) patch))) k = sparam (patched (search st) patch) k"
        using rt ok by (fastforce simp: router_ok_def)
      then show ?thesis
        using old by (simp add: param_def)
    qed
    ultimately show ?thesis
      using same by simp
  qed
  then show ?thesis
    using search_ok_navigate [OF rt ok] by (simp add: table_inv_def)
qed

lemma navigate_frame:
  "globalFilter (navigate router cfg patch st) = globalFilter st"
  "columnFilters (navigate router cfg patch st) = columnFilters st \<or>
   columnFilters (navigate router cfg patch st) = initialColumnFilters cfg (navigate router cfg patch st)"
  by (auto simp: navigate_def initialColumnFilters_def param_def Let_def split: prod.split)

definition value_typed :: "column_cfg \<Rightarrow> jsval \<Rightarrow> bool" where
  "value_typed c v \<longleftrightarrow> (if string_type c then as_str v \<noteq> None else (case v of JArr _ \<Rightarrow> True | _ \<Rightarrow> False))"

definition filters_typed :: "table_cfg \<Rightarrow> column_filter list \<Rightarrow> bool" where
  "filters_typed cfg fs \<longleftrightarrow>
     list_all (\<lambda>c. case map_of fs (columnId c) of None \<Rightarrow> True | Some v \<Rightarrow> value_typed c v) (columnFiltersCfg cfg)"

lemma value_typed_deserialize [simp]: "value_typed (c\<lparr>deserialize := f\<rparr>) v = value_typed c v"
  by (simp add: value_typed_def)

lemma filters_typed_iff:
  "filters_typed cfg fs \<longleftrightarrow>
     (\<forall>c \<in> set (columnFiltersCfg cfg). \<forall>v. map_of fs (columnId c) = Some v \<longrightarrow> value_typed c v)"
  by (simp add: filters_typed_def list_all_iff split: option.split)

lemma value_typed: "menu_value t c v \<Longrightarrow> value_typed c v" "shown_value c v \<Longrightarrow> value_typed c v"
  by (cases "string_type c"; cases v; simp add: menu_value_def shown_value_def value_typed_def)+

lemma edit_typed:
  assumes "filters_typed cfg fs" "filter_edit t cfg fs gs"
  shows "filters_typed cfg gs"
  unfolding filters_typed_iff
proof (intro ballI allI impI)
  fix c v
  assume c: "c \<in> set (columnFiltersCfg cfg)" and v: "map_of gs (columnId c) = Some v"
  from assms(2) c show "value_typed c v"
    by (cases rule: filter_edit_cases) (use assms(1) c v value_typed(1) in \<open>auto simp: filters_typed_iff\<close>)
qed

lemma initial_typed:
  assumes "distinct (map columnId (columnFiltersCfg cfg))"
  shows "filters_typed cfg (initialColumnFilters cfg st)"
  unfolding filters_typed_iff
proof (intro ballI allI impI)
  fix c v
  assume c: "c \<in> set (columnFiltersCfg cfg)" and v: "map_of (initialColumnFilters cfg st) (columnId c) = Some v"
  have "map_of (initialColumnFilters cfg st) (columnId c) = map_option snd (initial_filter c (param st (searchKey c)))"
    unfolding initialColumnFilters_def using assms c initial_filter_shown by (intro map_of_map_filter) blast+
  then obtain k where "initial_filter c (param st (searchKey c)) = Some (k, v)"
    using v by (cases "initial_filter c (param st (searchKey c))") auto
  then show "value_typed c v"
    using initial_filter_shown(2) value_typed(2) by blast
qed

text \<open>The filters of the table are those of the URL, and so is the global filter when \<open>own\<close> holds.\<close>

definition reach_inv ::
  "(jsval \<Rightarrow> bool) \<Rightarrow> search_schema \<Rightarrow> table_cfg \<Rightarrow> bool \<Rightarrow> table_state \<Rightarrow> bool" where
  "reach_inv carried sch cfg own st \<longleftrightarrow>
     table_inv sch carried cfg st \<and> filters_typed cfg (columnFilters st) \<and>
     (own \<longrightarrow> globalFilter st = initial_globalFilter cfg (search st))"

text \<open>What any navigation of a table keeps\<close>

lemma navigate_reach:
  assumes fits: "table_fits cfg sch" and rt: "router_ok sch carried router"
    and ok: "search_ok sch carried (patched (search st) patch)" and dist: "distinct (map fst patch)"
    and same: "(\<And>k. k \<in> fst ` set sch \<Longrightarrow> sparam (patched (search st) patch) k = param st k) \<Longrightarrow>
      shown_filters cfg (columnFilters st) = initialColumnFilters cfg st"
    and typed: "filters_typed cfg (columnFilters st)"
    and own: "own \<Longrightarrow> globalFilter st =
      (if globalFilterEnabled cfg
       then Some (str_or (case map_of patch (globalFilterKey cfg) of Some v \<Rightarrow> v | None \<Rightarrow> param st (globalFilterKey cfg)) []) else None)"
  shows "reach_inv carried sch cfg own (navigate router cfg patch st)"
proof -
  let ?st = "navigate router cfg patch st"
  have "filters_typed cfg (columnFilters ?st)"
    using navigate_frame(2) [of router cfg patch st] typed initial_typed [OF table_fits_keys(6) [OF fits]] by metis
  moreover have "initial_globalFilter cfg (search ?st) =
      (if globalFilterEnabled cfg
       then Some (str_or (case map_of patch (globalFilterKey cfg) of Some v \<Rightarrow> v | None \<Rightarrow> param st (globalFilterKey cfg)) []) else None)"
    unfolding initial_globalFilter_def sparam_navigate [OF rt ok dist table_fits_keys(4) [OF fits]] param_def ..
  ultimately show ?thesis
    using navigate_synced [OF fits rt ok same] own by (simp add: reach_inv_def navigate_frame(1))
qed

lemma onColumnFiltersChange_reach:
  assumes fits: "table_fits cfg sch" and rt: "router_ok sch carried router"
    and ok: "search_ok sch carried (search st)" and fs: "fs = updater (columnFilters st)"
    and kept: "\<And>c f. c \<in> set (columnFiltersCfg cfg) \<Longrightarrow> (searchKey c, f) \<in> set sch \<Longrightarrow> field_kept carried f (filter_param c fs)"
    and read: "\<And>c. c \<in> set (columnFiltersCfg cfg) \<Longrightarrow> param st (searchKey c) = filter_param c fs \<Longrightarrow>
      initial_filter c (filter_param c fs) = shown_filter c fs"
    and typed: "filters_typed cfg fs" and own: "own \<Longrightarrow> globalFilter st = initial_globalFilter cfg (search st)"
  shows "reach_inv carried sch cfg own (onColumnFiltersChange router cfg updater st)"
proof -
  let ?cs = "columnFiltersCfg cfg"
  let ?patch = "(pageKey cfg, Undefined) # map (\<lambda>c. (searchKey c, filter_param c fs)) ?cs"
  let ?st = "st\<lparr>columnFilters := fs\<rparr>"
  note keys = table_fits_keys [OF fits]
  have eq: "onColumnFiltersChange router cfg updater st = navigate router cfg ?patch ?st"
    by (simp add: onColumnFiltersChange_def fs Let_def)
  have dist: "distinct (map fst ?patch)"
    using keys(1) by (simp add: comp_def)
  have "field_kept carried f v" if "(k, v) \<in> set ?patch" "(k, f) \<in> set sch" for k v f
    using that kept [where f = f] field_kept_Undefined [OF rt, of f] by auto
  then have ok': "search_ok sch carried (patched (search ?st) ?patch)"
    using ok by (intro search_ok_patched [OF _ dist]) (simp_all del: split_paired_All)
  have find: "map_of ?patch (searchKey c) = Some (filter_param c fs)" if "c \<in> set ?cs" for c
    by (rule map_of_is_SomeI [OF dist]) (use that in auto)
  have global: "map_of ?patch (globalFilterKey cfg) = None"
    using keys(1) by (auto simp: map_of_eq_None_iff)
  show ?thesis
    unfolding eq
  proof (rule navigate_reach [OF fits rt ok' dist])
    show "shown_filters cfg (columnFilters ?st) = initialColumnFilters cfg ?st"
      if same: "\<And>k. k \<in> fst ` set sch \<Longrightarrow> sparam (patched (search ?st) ?patch) k = param ?st k"
      unfolding shown_filters_def initialColumnFilters_def
    proof (rule map_filter_cong)
      fix c
      assume c: "c \<in> set ?cs"
      have "searchKey c \<in> fst ` set sch"
        using fits c by (fastforce simp: table_fits_def list_all_iff map_of_eq_None_iff)
      from same [OF this] have "param st (searchKey c) = filter_param c fs"
        unfolding sparam_patched [OF dist] find [OF c] by (simp add: param_def)
      with read [OF c this] show "shown_filter c (columnFilters ?st) = initial_filter c (param ?st (searchKey c))"
        by (simp add: param_def)
    qed
    show "filters_typed cfg (columnFilters ?st)"
      using typed by simp
    show "globalFilter ?st = (if globalFilterEnabled cfg
        then Some (str_or (case map_of ?patch (globalFilterKey cfg) of Some v \<Rightarrow> v | None \<Rightarrow> param ?st (globalFilterKey cfg)) []) else None)"
      if own
      unfolding global using assms(8) [OF that] by (simp add: initial_globalFilter_def param_def)
  qed
qed

lemma log_types_idem: "deserializeLogTypeFilter num (deserializeLogTypeFilter num v) = deserializeLogTypeFilter num v"
  by (simp add: deserializeLogTypeFilter_def)

lemma read_shown_value:
  "deserialize c v = v \<Longrightarrow> shown_value c v \<Longrightarrow> initial_filter c v = Some (columnId c, v)"
  by (auto simp: initial_filter_def shown_value_def nullish_or_def is_nullish_def split: if_splits jsval.splits)

lemma edit_shown:
  assumes inv: "table_inv (table_route t) carried (table_config num isMobile isAdmin t stored) st"
    and edit: "filter_edit t (table_config num isMobile isAdmin t stored) (columnFilters st) fs"
    and c: "c \<in> set (columnFiltersCfg (table_config num isMobile isAdmin t stored))"
    and v: "map_of fs (columnId c) = Some v" "shown_value c v"
  shows "deserialize c v = v"
  using c
proof (cases rule: column_cases)
  case status
  then show ?thesis
    using v(2) by (auto simp: channelStatus_def shown_value_def array_column_def)
next
  case log_types
  from edit c show ?thesis
  proof (cases rule: filter_edit_cases)
    case 1
    have "initial_filter c (param st (searchKey c)) = shown_filter c (columnFilters st)"
      by (rule inv_sync [OF inv table_fits_keys(6) [OF table_config_fits] c])
    then have "initial_filter c (param st (searchKey c)) = Some (columnId c, v)"
      using v 1 by (simp add: shown_filter_def)
    then have "v = deserialize c (param st (searchKey c))"
      using v(2) by (auto simp: initial_filter_def nullish_or_def shown_value_def split: if_splits jsval.splits)
    then show ?thesis
      using log_types by (simp add: log_types_idem)
  next
    case (3 w)
    then show ?thesis
      using v log_types by (cases w) (auto simp: menu_value_def shown_value_def array_column_def menu_options_def list_all_iff neq_Nil_conv
          split: option.splits)
  qed (use v in simp)
qed simp

lemma edit_read:
  assumes inv: "table_inv (table_route t) carried (table_config num isMobile isAdmin t stored) st"
    and edit: "filter_edit t (table_config num isMobile isAdmin t stored) (columnFilters st) fs"
    and c: "c \<in> set (columnFiltersCfg (table_config num isMobile isAdmin t stored))"
    and absent: "shown_filter c fs = None \<Longrightarrow> filter_param c fs = Undefined \<Longrightarrow> initial_filter c Undefined = None"
  shows "initial_filter c (filter_param c fs) = shown_filter c fs"
proof (cases "shown_filter c fs")
  case None
  then show ?thesis
    using absent filter_param_not_shown by simp
next
  case (Some q)
  then obtain v where v: "map_of fs (columnId c) = Some v" "shown_value c v" "q = (columnId c, v)"
    by (auto simp: shown_filter_def split: option.splits if_splits)
  have "filter_param c fs = v"
    by (rule filter_param_shown(1) [OF config_serialize [OF c] v(1, 2)])
  then show ?thesis
    using read_shown_value [OF edit_shown [OF inv edit c v(1, 2)] v(2)] Some v(3) by simp
qed

lemma navigate_other_reach:
  assumes fits: "table_fits cfg sch" and rt: "router_ok sch carried router" and dist: "distinct (map fst patch)"
    and inv: "table_inv sch carried cfg st" "filters_typed cfg (columnFilters st)"
    and kept: "\<forall>(k, v) \<in> set patch. \<forall>f. (k, f) \<in> set sch \<longrightarrow> field_kept carried f v"
    and own: "own \<Longrightarrow> globalFilter st =
      (if globalFilterEnabled cfg
       then Some (str_or (case map_of patch (globalFilterKey cfg) of Some v \<Rightarrow> v | None \<Rightarrow> param st (globalFilterKey cfg)) []) else None)"
  shows "reach_inv carried sch cfg own (navigate router cfg patch st)"
proof (rule navigate_reach [OF fits rt _ dist _ inv(2) own])
  show "search_ok sch carried (patched (search st) patch)"
    by (rule search_ok_patched [OF _ dist]) (use inv(1) kept in \<open>auto simp: table_inv_def\<close>)
  show "shown_filters cfg (columnFilters st) = initialColumnFilters cfg st"
    using inv(1) by (simp add: table_inv_def)
qed

lemma own_global:
  "reach_inv carried sch cfg own st \<Longrightarrow> own \<Longrightarrow> map_of patch (globalFilterKey cfg) = None \<Longrightarrow>
    globalFilter st =
      (if globalFilterEnabled cfg
       then Some (str_or (case map_of patch (globalFilterKey cfg) of Some v \<Rightarrow> v | None \<Rightarrow> param st (globalFilterKey cfg)) []) else None)"
  by (simp add: reach_inv_def initial_globalFilter_def param_def)

lemma onPaginationChange_reach:
  assumes fits: "table_fits cfg sch" and rt: "router_ok sch carried router" and inv: "reach_inv carried sch cfg own st"
    and kept: "page_kept carried (updater (pagination cfg st))"
  shows "reach_inv carried sch cfg own (onPaginationChange router num cfg updater st)"
proof -
  let ?p = "updater (pagination cfg st)"
  let ?page = "if num_less_eq (num_succ (pageIndex ?p)) (Fin (defaultPage cfg)) then Undefined else JNum (num_succ (pageIndex ?p))"
  let ?patch = "[(pageKey cfg, ?page), (pageSizeKey cfg, JNum (pageSize ?p))]"
  define st1 where "st1 = (if \<not> num_same (pageSize ?p) (pageSize (pagination cfg st)) then setStoredPageSize num (pageSize ?p) st else st)"
  have eq: "onPaginationChange router num cfg updater st = navigate router cfg ?patch st1"
    by (simp add: onPaginationChange_def st1_def Let_def)
  have st1: "reach_inv carried sch cfg own st1"
    using inv by (simp add: st1_def setStoredPageSize_def reach_inv_def table_inv_def initialColumnFilters_def param_def)
  note keys = table_fits_keys [OF fits]
  have dist: "distinct (map fst ?patch)" and global: "map_of ?patch (globalFilterKey cfg) = None"
    using keys(1) by auto
  have "field_kept carried f (JNum n)" if "(k, f) \<in> set sch" "k = pageKey cfg \<or> k = pageSizeKey cfg"
    "n = num_succ (pageIndex ?p) \<or> n = pageSize ?p" for k f n
    using number_key_kept [where carried = carried, OF fits that(1, 2)] kept that(3) by (auto simp: page_kept_def)
  then have kept': "\<forall>(k, v) \<in> set ?patch. \<forall>f. (k, f) \<in> set sch \<longrightarrow> field_kept carried f v"
    using field_kept_Undefined [OF rt] by simp
  show ?thesis
    unfolding eq using st1
    by (intro navigate_other_reach [OF fits rt dist _ _ kept'] own_global [OF st1 _ global]) (simp_all add: reach_inv_def)
qed

lemma ensurePageInRange_reach:
  assumes fits: "table_fits cfg sch" and rt: "router_ok sch carried router" and inv: "reach_inv carried sch cfg own st"
    and url: "url_carries carried"
  shows "reach_inv carried sch cfg own (ensurePageInRange router cfg n b st)"
proof -
  let ?patch = "[(pageKey cfg, if b then JNum (Fin (of_nat n)) else Undefined)]"
  note keys = table_fits_keys [OF fits]
  have dist: "distinct (map fst ?patch)" and global: "map_of ?patch (globalFilterKey cfg) = None"
    using keys(1) by auto
  have "field_kept carried f (JNum (Fin (of_nat n)))" if "(pageKey cfg, f) \<in> set sch" for f
    using number_key_kept [where carried = carried, OF fits that] url by (simp add: url_carries_def num_isFinite_def)
  then have kept: "\<forall>(k, v) \<in> set ?patch. \<forall>f. (k, f) \<in> set sch \<longrightarrow> field_kept carried f v"
    using field_kept_Undefined [OF rt] by simp
  have "reach_inv carried sch cfg own (navigate router cfg ?patch st)"
    using inv by (intro navigate_other_reach [OF fits rt dist _ _ kept] own_global [OF inv _ global]) (simp_all add: reach_inv_def)
  then show ?thesis
    using inv by (simp add: ensurePageInRange_def)
qed

lemma onGlobalFilterChange_reach:
  assumes fits: "table_fits cfg sch" and rt: "router_ok sch carried router" and inv: "reach_inv carried sch cfg own st"
    and url: "url_carries carried"
  shows "reach_inv carried sch cfg (own \<or> globalFilterEnabled cfg) (onGlobalFilterChange router cfg updater st)"
proof (cases "globalFilterEnabled cfg")
  case True
  define s where "s = (if trimGlobal cfg then trim (updater (coalesce (globalFilter st) [])) else updater (coalesce (globalFilter st) []))"
  let ?patch = "[(pageKey cfg, Undefined), (globalFilterKey cfg, if s \<noteq> [] then JStr s else Undefined)]"
  let ?st = "st\<lparr>globalFilter := Some s\<rparr>"
  have eq: "onGlobalFilterChange router cfg updater st = navigate router cfg ?patch ?st"
    using True by (simp add: onGlobalFilterChange_def s_def Let_def)
  have st: "table_inv sch carried cfg ?st" "filters_typed cfg (columnFilters ?st)"
    using inv by (simp_all add: reach_inv_def table_inv_def initialColumnFilters_def param_def)
  have dist: "distinct (map fst ?patch)"
    using table_fits_keys(1) [OF fits] by simp
  have "field_kept carried f (JStr s)" if "(globalFilterKey cfg, f) \<in> set sch" for f
    using global_key_kept [where carried = carried, OF fits that] url by (simp add: url_carries_def)
  then have kept: "\<forall>(k, v) \<in> set ?patch. \<forall>f. (k, f) \<in> set sch \<longrightarrow> field_kept carried f v"
    using field_kept_Undefined [OF rt] by simp
  show ?thesis
    unfolding eq by (rule navigate_other_reach [OF fits rt dist st kept])
      (use True table_fits_keys(1) [OF fits] in \<open>auto simp: str_or_def coalesce_def\<close>)
qed (use inv in \<open>simp add: onGlobalFilterChange_def\<close>)

lemma absent_read:
  "deserialize c = (\<lambda>v. v) \<or> deserialize c = deserializeLogTypeFilter num \<Longrightarrow> initial_filter c Undefined = None"
  by (auto simp: initial_filter_def nullish_or_def is_nullish_def deserializeLogTypeFilter_def trim_Nil)

lemma edit_of_input:
  assumes "k \<in> set (debounced_columns t)"
  shows "filter_edit t (table_config num isMobile isAdmin t stored) fs (set_filter k v fs)"
proof -
  have "string_type c" if "c \<in> set (columnFiltersCfg (table_config num isMobile isAdmin t stored))" "columnId c = k" for c
    using assms that by (cases t) (auto simp: debounced_columns_def columns_of array_column_def string_column_def)
  then show ?thesis
    by (auto simp: filter_edit_def list_all_iff map_of_set_filter menu_value_def)
qed

lemma input_reach:
  assumes rt: "router_ok (table_route t) carried router" and url: "url_carries carried"
    and inv: "reach_inv carried (table_route t) (table_config num isMobile isAdmin t stored) own st"
    and k: "k \<in> set (debounced_columns t)"
  shows "reach_inv carried (table_route t) (table_config num isMobile isAdmin t stored) own
    (table_set_filter router (table_config num isMobile isAdmin t stored) k v st)"
proof -
  let ?cfg = "table_config num isMobile isAdmin t stored"
  let ?fs = "set_filter k v (columnFilters st)"
  note fits = table_config_fits [of num isMobile isAdmin t stored]
  have tab: "table_inv (table_route t) carried ?cfg st" and typed: "filters_typed ?cfg (columnFilters st)"
    using inv by (simp_all add: reach_inv_def)
  note edit = edit_of_input [OF k, of num isMobile isAdmin stored "columnFilters st" v]
  have read: "initial_filter c (filter_param c ?fs) = shown_filter c ?fs"
    if c: "c \<in> set (columnFiltersCfg ?cfg)" and same: "param st (searchKey c) = filter_param c ?fs" for c
  proof (rule edit_read [OF tab edit c])
    assume none: "shown_filter c ?fs = None" "filter_param c ?fs = Undefined"
    from c show "initial_filter c Undefined = None"
    proof (cases rule: column_cases)
      case status
      then have "columnId c \<noteq> k"
        using k by (simp add: debounced_columns_def array_column_def)
      then have "shown_filter c ?fs = shown_filter c (columnFilters st)"
        by (simp add: shown_filter_def map_of_set_filter)
      then show ?thesis
        using inv_sync [OF tab table_fits_keys(6) [OF fits] c] none same by simp
    qed (auto intro: absent_read)
  qed
  show ?thesis
    unfolding table_set_filter_def
    by (rule onColumnFiltersChange_reach [where updater = "set_filter k v" and st = st and fs = ?fs, OF fits rt _ refl edit_kept [OF url tab edit] read edit_typed [OF typed edit]])
      (use inv in \<open>auto simp: reach_inv_def table_inv_def\<close>)
qed

lemma status_columns:
  assumes "c \<in> set (columnFiltersCfg (channelsTable isMobile stored'))"
  shows "c = array_column ''status'' ''status''\<lparr>deserialize := channelStatus stored'\<rparr> \<or>
    c \<in> set (columnFiltersCfg (channelsTable isMobile stored)) \<and> deserialize c = (\<lambda>v. v)"
  using assms by (auto simp: columns_of array_column_def string_column_def)

lemma status_column: "array_column ''status'' ''status''\<lparr>deserialize := channelStatus stored\<rparr> \<in> set (columnFiltersCfg (channelsTable isMobile stored))"
  by (simp add: columns_of)

lemma channels_reach:
  assumes rt: "router_ok channelsSearchSchema carried router" and url: "url_carries carried"
    and inv: "reach_inv carried channelsSearchSchema (channelsTable isMobile stored) own st"
    and edit: "filter_edit Channels (channelsTable isMobile stored) (columnFilters st) (updater (columnFilters st))"
    and eq: "handleColumnFiltersChange router num isMobile updater (st, stored) = (st', stored')"
  shows "reach_inv carried channelsSearchSchema (channelsTable isMobile stored') own st'"
proof -
  let ?cfg = "channelsTable isMobile" and ?fs = "updater (columnFilters st)"
  let ?status = "\<lambda>s. array_column ''status'' ''status''\<lparr>deserialize := channelStatus s\<rparr>"
  have st': "st' = onColumnFiltersChange router (?cfg stored') updater st"
    and stored': "stored' = Some (let s = first_item (coalesce (map_of ?fs (lit ''status'')) Undefined)
      in if is_nullish s then lit ''all'' else js_string (num_string num) s)"
    using eq by (auto simp: handleColumnFiltersChange_def onColumnFiltersChange_def Let_def)
  have tab: "table_inv (table_route Channels) carried (table_config num isMobile isAdmin Channels stored) st"
    and typed: "filters_typed (?cfg stored) ?fs" for isAdmin
    using inv edit_typed [OF _ edit] by (simp_all add: reach_inv_def)
  note edit' = edit [folded table_config.simps(1) [of num isMobile undefined stored]]
  have same: "filters_typed (?cfg stored') ?fs"
    using typed by (simp add: filters_typed_def columns_of cong: option.case_cong)
  have kept: "field_kept carried f (filter_param c ?fs)"
    if c: "c \<in> set (columnFiltersCfg (?cfg stored'))" and f: "(searchKey c, f) \<in> set channelsSearchSchema" for c f
    using edit_kept [OF url tab edit', of _ f] status_columns [OF c, of stored] status_column [of stored isMobile] f by fastforce
  have read: "initial_filter c (filter_param c ?fs) = shown_filter c ?fs"
    if c: "c \<in> set (columnFiltersCfg (?cfg stored'))" for c
    using status_columns [OF c, of stored]
  proof (elim disjE conjE)
    assume "c \<in> set (columnFiltersCfg (?cfg stored))" "deserialize c = (\<lambda>v. v)"
    then show ?thesis
      by (intro edit_read [OF tab edit']) (simp_all add: absent_read)
  next
    assume c: "c = ?status stored'"
    show ?thesis
    proof (cases "shown_filter c ?fs")
      case (Some q)
      then show ?thesis
        using column_reader.read_shown [OF stored_status.column_reader_axioms, where fs = ?fs] unfolding c
        by (auto simp: shown_filter_def split: option.splits if_splits)
    next
      case None
      have "value_typed (?status stored) v" if "map_of ?fs (lit ''status'') = Some v" for v
        using typed that status_column [of stored isMobile] by (fastforce simp: filters_typed_iff array_column_def)
      then have "map_of ?fs (lit ''status'') = None \<or> map_of ?fs (lit ''status'') = Some (JArr [])"
        using None unfolding c by (cases "map_of ?fs (lit ''status'')")
          (auto simp: shown_filter_def shown_value_def array_column_def value_typed_def split: jsval.splits if_splits)
      then have "stored' = Some (lit ''all'')"
        unfolding stored' by (auto simp: coalesce_def first_item_def is_nullish_def)
      then show ?thesis
        unfolding c using column_codec.read_filter [OF all_status.column_codec_axioms] by simp
    qed
  qed
  have "globalFilter st = initial_globalFilter (?cfg stored') (search st)" if own
    using inv that by (simp add: reach_inv_def initial_globalFilter_def channelsTable_def default_table_def)
  then show ?thesis
    unfolding st' using inv
    by (intro onColumnFiltersChange_reach [where updater = updater and st = st and fs = ?fs, OF tables_fit_each(1) rt _ refl kept read same]) (auto simp: reach_inv_def table_inv_def)
qed

lemma changeFilters_reach:
  assumes rt: "router_ok (table_route t) carried router" and url: "url_carries carried"
    and inv: "reach_inv carried (table_route t) (table_config num isMobile isAdmin t stored) own st"
    and edit: "filter_edit t (table_config num isMobile isAdmin t stored) (columnFilters st) (updater (columnFilters st))"
    and eq: "changeFilters router num isMobile isAdmin t updater (st, stored) = (st', stored')"
  shows "reach_inv carried (table_route t) (table_config num isMobile isAdmin t stored') own st'"
proof (cases "t = Channels")
  case True
  then show ?thesis
    using channels_reach [of carried router isMobile stored own st updater num st' stored'] assms by (simp add: changeFilters_def)
next
  case False
  let ?cfg = "table_config num isMobile isAdmin t stored" and ?fs = "updater (columnFilters st)"
  have st': "st' = onColumnFiltersChange router ?cfg updater st" "stored' = stored"
    using eq False by (auto simp: changeFilters_def)
  have tab: "table_inv (table_route t) carried ?cfg st" and typed: "filters_typed ?cfg ?fs"
    using inv edit_typed [OF _ edit] by (simp_all add: reach_inv_def)
  have read: "initial_filter c (filter_param c ?fs) = shown_filter c ?fs" if c: "c \<in> set (columnFiltersCfg ?cfg)" for c
  proof (rule edit_read [OF tab edit c])
    from c show "initial_filter c Undefined = None"
      by (cases rule: column_cases) (use False in \<open>auto intro: absent_read\<close>)
  qed
  show ?thesis
    unfolding st' using inv
    by (intro onColumnFiltersChange_reach [where updater = updater and st = st and fs = ?fs,
          OF table_config_fits rt _ refl edit_kept [OF url tab edit] read typed])
      (auto simp: reach_inv_def table_inv_def)
qed

lemma page_of_channels_kept:
  assumes inv: "reach_inv carried channelsSearchSchema (channelsTable isMobile stored) own st" and url: "url_carries carried"
  shows "page_kept carried ((pagination (channelsTable isMobile stored) st)\<lparr>pageIndex := Fin 0\<rparr>)"
proof -
  let ?cfg = "channelsTable isMobile stored"
  have "(pageSizeKey ?cfg, NumberField, Some Undefined) \<in> set channelsSearchSchema"
    by (simp add: channelsSearchSchema_def channelsTable_def default_table_def)
  then have "field_kept carried (NumberField, Some Undefined) (param st (pageSizeKey ?cfg))"
    using inv by (auto simp: reach_inv_def table_inv_def search_ok_iff param_def)
  then have "num_isFinite n \<and> carried (JNum n)" if "as_num (param st (pageSizeKey ?cfg)) = Some n" for n
    using that by (cases "param st (pageSizeKey ?cfg)") (auto simp: field_kept_def field_value_def split: if_splits)
  then show ?thesis
    using url by (cases "as_num (param st (pageSizeKey ?cfg))")
      (auto simp: page_kept_def pagination_def num_succ_def num_isFinite_def url_carries_def coalesce_def)
qed

lemma shown_state_inv:
  assumes fits: "table_fits cfg sch" and ok: "search_ok sch carried (search st)"
    and fs: "columnFilters st = initialColumnFilters cfg st"
  shows "table_inv sch carried cfg st" "filters_typed cfg (columnFilters st)"
  using shown_initial [OF table_fits_keys(6) [OF fits], of st] initial_typed [OF table_fits_keys(6) [OF fits], of st] ok
  by (simp_all add: table_inv_def fs)

lemma table_reach_invariant:
  assumes "table_reach carried router num isMobile isAdmin t own st stored"
    and rt: "router_ok (table_route t) carried router" and url: "url_carries carried"
  shows "reach_inv carried (table_route t) (table_config num isMobile isAdmin t stored) own st"
  using assms(1)
proof induction
  case (opened raw s stored sz)
  let ?cfg = "table_config num isMobile isAdmin t stored"
  have st: "search (useTableUrlState ?cfg s sz) = s"
    "columnFilters (useTableUrlState ?cfg s sz) = initialColumnFilters ?cfg (useTableUrlState ?cfg s sz)"
    "globalFilter (useTableUrlState ?cfg s sz) = initial_globalFilter ?cfg s"
    by (simp_all add: useTableUrlState_def initialColumnFilters_def param_def Let_def)
  have "search_ok (table_route t) carried (search (useTableUrlState ?cfg s sz))"
    unfolding st(1) by (rule route_search_ok [OF url opened])
  from shown_state_inv [OF table_config_fits this st(2)] show ?case
    unfolding reach_inv_def st(1, 3) by simp
next
  case (filters own st stored updater st' stored')
  then show ?case
    using changeFilters_reach [OF rt url] by blast
next
  case (input own st stored k v)
  then show ?case
    using input_reach [OF rt url] by blast
next
  case (page own st stored updater)
  then have "page_kept carried (updater (pagination (table_config num isMobile isAdmin t stored) st))"
    using url by (auto simp: finite_page_def page_kept_def url_carries_def num_succ_def num_isFinite_def split: jnum.splits)
  then show ?case
    by (rule onPaginationChange_reach [OF table_config_fits rt page.IH])
next
  case (global own st stored updater)
  show ?case
    by (rule onGlobalFilterChange_reach [OF table_config_fits rt global.IH url])
next
  case (range own st stored n b)
  show ?case
    by (rule ensurePageInRange_reach [OF table_config_fits rt range.IH url])
next
  case (sorting own st stored updater order)
  then have "page_kept carried ((pagination (table_config num isMobile isAdmin t stored) st)\<lparr>pageIndex := Fin 0\<rparr>)"
    using page_of_channels_kept [of carried isMobile stored own st] url by simp
  then show ?case
    using onPaginationChange_reach [OF table_config_fits rt sorting.IH,
        where updater = "\<lambda>_. (pagination (table_config num isMobile isAdmin t stored) st)\<lparr>pageIndex := Fin 0\<rparr>"] sorting.IH
    by (simp add: handleSortingChange_def)
next
  case (outside own st stored raw s)
  let ?cfg = "table_config num isMobile isAdmin t stored"
  have st: "search (goto_search ?cfg s st) = s"
    "columnFilters (goto_search ?cfg s st) = initialColumnFilters ?cfg (goto_search ?cfg s st)"
    "globalFilter (goto_search ?cfg s st) = globalFilter st"
    by (simp_all add: goto_search_def initialColumnFilters_def param_def Let_def)
  have "initial_globalFilter ?cfg s = initial_globalFilter ?cfg (search st)"
    if "sparam s (globalFilterKey ?cfg) = param st (globalFilterKey ?cfg)"
    using that by (simp add: initial_globalFilter_def param_def)
  then have "own \<and> sparam s (globalFilterKey ?cfg) = param st (globalFilterKey ?cfg) \<longrightarrow> globalFilter st = initial_globalFilter ?cfg s"
    using outside.IH by (simp add: reach_inv_def)
  moreover have "search_ok (table_route t) carried (search (goto_search ?cfg s st))"
    unfolding st(1) by (rule route_search_ok [OF url outside.hyps(2, 3)])
  note shown_state_inv [OF table_config_fits this st(2)]
  ultimately show ?case
    unfolding reach_inv_def st(1, 3) by simp
qed

text \<open>
  C36. However a user brings one of the seven tables into a state (opening any URL that its route does not
  fail on, the menus and inputs of the column filters, pages, page sizes, the global filter, sorting, the
  correction of the page, and changes of the URL from outside), the route accepts the search parameters
  as they are, and the table opened again on them in the same browser has the same column filters (without
  blank ones), page and page size. It has the same global filter as long as no change from outside
  altered the one in the URL since the table was opened or its global filter was last set.
\<close>

theorem table_reach_reopened:
  assumes "table_reach carried router num isMobile isAdmin t own st stored"
    and "router_ok (table_route t) carried router" and "url_carries carried"
  shows "search_ok (table_route t) carried (search st) \<and>
    (let cfg = table_config num isMobile isAdmin t stored;
         again = useTableUrlState cfg (search st) (stored_size st)
     in columnFilters again = shown_filters cfg (columnFilters st) \<and> pagination cfg again = pagination cfg st \<and>
        (own \<longrightarrow> globalFilter again = globalFilter st))"
proof -
  let ?cfg = "table_config num isMobile isAdmin t stored"
  have inv: "reach_inv carried (table_route t) ?cfg own st"
    by (rule table_reach_invariant [OF assms])
  have "columnFilters (useTableUrlState ?cfg (search st) (stored_size st)) = initialColumnFilters ?cfg st"
    "pagination ?cfg (useTableUrlState ?cfg (search st) (stored_size st)) = pagination ?cfg st"
    "globalFilter (useTableUrlState ?cfg (search st) (stored_size st)) = initial_globalFilter ?cfg (search st)"
    by (simp_all add: useTableUrlState_def initialColumnFilters_def pagination_def page_number_def param_def Let_def)
  then show ?thesis
    using inv by (simp add: reach_inv_def table_inv_def Let_def)
qed

subsection \<open>Examples\<close>

abbreviation channels_route :: router where
  "channels_route \<equiv> plain_router channelsSearchSchema"

abbreviation enabled_channels :: table_cfg where
  "enabled_channels \<equiv> channelsTable False (Some (lit ''enabled''))"

definition no_params :: search_params where
  "no_params = coalesce (route_search channelsSearchSchema []) []"

text \<open>A channels table that opens with the remembered status, and its model input\<close>

definition typed_model :: table_state where
  "typed_model = table_set_filter channels_route enabled_channels (lit ''model'') (lit ''gpt'')
     (useTableUrlState enabled_channels no_params None)"

lemma channels_route_ok: "router_ok (table_route Channels) (\<lambda>_. True) channels_route"
  unfolding table_route.simps by (rule plain_router_ok) (simp add: channelsSearchSchema_def)

lemma typed_model_reach:
  "table_reach (\<lambda>_. True) channels_route some_digits False True Channels True typed_model (Some (lit ''enabled''))"
proof -
  have "route_search (table_route Channels) [] = Some no_params"
    by code_simp
  then have "table_reach (\<lambda>_. True) channels_route some_digits False True Channels True
      (useTableUrlState enabled_channels no_params None) (Some (lit ''enabled''))"
    using table_reach.opened [where carried = "\<lambda>_. True" and t = Channels and stored = "Some (lit ''enabled'')"] by simp
  then show ?thesis
    unfolding typed_model_def using table_reach.input [where t = Channels and k = "lit ''model''" and stored = "Some (lit ''enabled'')"]
    by (simp add: debounced_columns_def)
qed

theorem table_reach_reopened_witness:
  "columnFilters (useTableUrlState enabled_channels (search typed_model) (stored_size typed_model)) =
    [(lit ''status'', JArr [JStr (lit ''enabled'')]), (lit ''model'', JStr (lit ''gpt''))]"
proof -
  have "shown_filters enabled_channels (columnFilters typed_model) =
      [(lit ''status'', JArr [JStr (lit ''enabled'')]), (lit ''model'', JStr (lit ''gpt''))]"
    by code_simp
  then show ?thesis
    using table_reach_reopened [OF typed_model_reach channels_route_ok] by (simp add: url_carries_def Let_def)
qed

text \<open>
  Going back in the history does not bring the global filter back: the hook reads it from the URL when it
  is first rendered only. The table below was opened with the filter \<^verbatim>\<open>a\<close>; the URL now has none.
\<close>

lemma global_filter_not_followed:
  "globalFilter (goto_search (usersTable False) [] (useTableUrlState (usersTable False) [(lit ''filter'', JStr (lit ''a''))] None)) =
     Some (lit ''a'')"
  "globalFilter (useTableUrlState (usersTable False) [] None) = Some []"
  by code_simp+

end
