(* ===== verification/Spec2Isabelle.thy ===== *)
theory Spec2Isabelle
  imports Http_Status_Rules Auth_Refresh Chat_Handler Stream_Refinement Flow_Display Update_Check Json_Clone Advanced_Custom Ratio_Sync Model_Mapping Billing_Roundtrip Tier_Prices Tiered_Stability Param_Roundtrip Channel_Roundtrip Table_Reach
begin

text \<open>
  Verification of the web client of New API, a gateway for AI providers.

  \<^bold>\<open>The program.\<close> The repository holds a server in Go and a web client in TypeScript
  (\<^verbatim>\<open>src/web/src\<close>). This development models the logic of the client that does not depend on
  rendering: what it keeps in memory, how it reacts to responses, events and user actions, and how it
  checks, converts and summarises data. The parts and how they meet:
  \<^item> The \<^emph>\<open>session\<close> of a tab holds a token that is refreshed against the server, while other tabs sign
    in and out. Every request takes its headers from it, the streaming requests of the playground too.
  \<^item> The \<^emph>\<open>playground\<close> sends a conversation, receives an answer as a stream, collects its chunks, and
    lets the user stop, edit, regenerate and delete. The chat handler drives the streaming controller
    and the functions on messages.
  \<^item> The \<^emph>\<open>dashboard\<close> turns usage rows into a flow graph.
  \<^item> The \<^emph>\<open>settings\<close> pages check status code rules, compare versions and watch a restart.
  \<^item> The \<^emph>\<open>channel\<close> pages edit and validate configurations of custom routes, which are copied as JSON,
    the lists and mappings of models, the form of a channel and the overrides of request parameters.
  \<^item> The \<^emph>\<open>tables\<close> of the console keep their page and filters in the URL; routes check the URL.
  \<^item> The \<^emph>\<open>pricing\<close> pages read and write billing expressions and take over prices from upstream.

  \<^bold>\<open>Foundations.\<close>
  \<^item> \<^verbatim>\<open>JS_Prelude\<close>: strings as lists of code units, splitting, trimming, joining, numbers as text,
    arrays, stable sorting (locale \<open>js_comparator\<close>) and maps in insertion order (locale \<open>js_map\<close>).
  \<^item> \<^verbatim>\<open>JS_Value\<close>: values of unknown type and the special numbers of the language.
  \<^item> \<^verbatim>\<open>JS_Json\<close>: \<^verbatim>\<open>JSON.parse\<close>. It recurses on fuel, twice the length of the text plus two;
    \<open>parse_value_fuel\<close> shows that more fuel never changes the result.
  \<^item> \<^verbatim>\<open>JS_Stringify\<close>: \<^verbatim>\<open>JSON.stringify\<close>, and \<open>json_parse_stringify\<close>: parsing what was printed gives the
    JSON view of the value.
  \<^item> \<^verbatim>\<open>JS_Convert\<close>: conversions between types (\<^verbatim>\<open>String\<close>, \<^verbatim>\<open>Number\<close>), setting and removing properties,
    defaults with \<^verbatim>\<open>||\<close> and \<^verbatim>\<open>??\<close>.

  \<^bold>\<open>Components.\<close> Each theory has the definitions of its source file in the order of the code, under the
  names of the code.
  \<^item> \<^verbatim>\<open>Http_Status_Rules\<close> (\<^verbatim>\<open>lib/http-status-code-rules.ts\<close>): parser and normal form of status code
    rules. The merged ranges are the canonical form of a set of codes, the printed form parses back,
    and the errors are exactly the invalid segments.
  \<^item> \<^verbatim>\<open>Auth_Session\<close> (\<^verbatim>\<open>stores/auth-store.ts\<close>, \<^verbatim>\<open>lib/auth-session.ts\<close>, \<^verbatim>\<open>lib/auth-session-sync.ts\<close>, the
    listener of \<^verbatim>\<open>routes/__root.tsx\<close>): the store as a record, its setters, checks of payloads, events
    between tabs. A sign-out reaches the other tabs, and a rotation is applied to its own session only.
  \<^item> \<^verbatim>\<open>Auth_Refresh\<close> (\<^verbatim>\<open>lib/auth-session.ts\<close>): the refresh runner against an arbitrary runtime (locale
    \<open>refresh_contract\<close>), interpreted on the runtime of a tab with arbitrary events at every suspension.
    It sends at most 8 requests and waits at most 1560 ms; its outcome determines the state of the
    store; headers and bootstrap agree with the store. The states that a tab reaches, by events and by the
    single steps of refreshes and of the bootstrap, are an inductive predicate (interface
    \<open>tab_refresh_reach\<close>), and the store is consistent in all of them.
  \<^item> \<^verbatim>\<open>Playground_Messages\<close> (\<^verbatim>\<open>features/playground/lib/message\<close>): versions, think tags, streaming chunks,
    finishing, editing, regenerating, sanitising on load.
  \<^item> \<^verbatim>\<open>Stream_Controller\<close> (\<^verbatim>\<open>features/playground/lib/streaming\<close>): the request controller as a state
    machine over all interleavings of header responses, source events, stops and disposals, with an
    invariant, ordered callbacks and the rule that the latest request wins.
  \<^item> \<^verbatim>\<open>Stream_Refinement\<close>: an abstract machine for the newest request and the proof (locale \<open>simulation\<close>,
    interpreted on the controller) that the controller refines it.
  \<^item> \<^verbatim>\<open>Chat_Handler\<close> (\<^verbatim>\<open>hooks/use-chat-handler.ts\<close>, \<^verbatim>\<open>hooks/use-playground-conversation.ts\<close>): the chat
    hook with its queued state updates. A streamed question ends in one complete answer with the text
    that the buffer received (a chunk that repeats the pending text counts once, which loses text), and
    after a stop no event of an old request has an effect.
  \<^item> \<^verbatim>\<open>Flow_Graph\<close>, \<^verbatim>\<open>Flow_Display\<close> (\<^verbatim>\<open>features/dashboard/lib/flow.ts\<close>): rows to paths to nodes and links
    (locale \<open>accumulator\<close>, interpreted for nodes and for links). Flow is conserved at inner nodes, the
    columns add up to the sum of the rows that are kept (the total, unless nodes are hidden beyond a
    limit), columns respect the limit, shares add up to one, the mask hides
    sensitive names.
  \<^item> \<^verbatim>\<open>Update_Check\<close> (\<^verbatim>\<open>system-settings/utils/version-compare.ts\<close>, \<^verbatim>\<open>maintenance/restart-watcher.ts\<close>):
    comparing releases is their numeric order; the watcher is a partial function that returns for
    every clock that a sleep moves forward, after at most \<open>max_probes\<close> probes; a page is not reloaded
    twice in a row for one version.
  \<^item> \<^verbatim>\<open>Json_Clone\<close> (\<^verbatim>\<open>lib/json-clone.ts\<close>): copies of object graphs in an explicit heap, cycles included,
    compared with \<^verbatim>\<open>JSON.parse(JSON.stringify(v))\<close> of the language standard on the same heaps: equal up to
    properties called \<^verbatim>\<open>__proto__\<close>, outside two divergences that are proved too. The recursion ends because its stack of ancestors never
    repeats an object.
  \<^item> \<^verbatim>\<open>Advanced_Custom\<close> (\<^verbatim>\<open>features/channels/lib/advanced-custom.ts\<close>): configurations of custom routes.
    The validation loop accepts exactly the configurations of a declarative condition, typed
    configurations never raise an exception, saving and loading is a round trip, everything the
    editor offers is valid.
  \<^item> \<^verbatim>\<open>Model_Mapping\<close> (\<^verbatim>\<open>features/channels/lib/model-mapping-validation.ts\<close>): model lists of a channel
    and the mapping of model names; the missing models complete a list, which survives printing.
  \<^item> \<^verbatim>\<open>Ratio_Sync\<close> (\<^verbatim>\<open>system-settings/models/upstream-ratio-sync-helpers.ts\<close>): selections of upstream
    prices; no model ends with both a price and ratios.
  \<^item> \<^verbatim>\<open>Billing_Expr\<close>, \<^verbatim>\<open>Billing_Roundtrip\<close> (\<^verbatim>\<open>features/pricing/lib/billing-expr.ts\<close>): request rules of a
    billing expression as text. Of the rules that the editor builds on plain texts, exactly those without a guarded
    parameter are read back from their text and split from the base price.
  \<^item> \<^verbatim>\<open>Channel_Form\<close>, \<^verbatim>\<open>Channel_Roundtrip\<close> (\<^verbatim>\<open>features/channels/lib/channel-form.ts\<close>): the form of a channel,
    the schema that checks it, loading and saving. An accepted form is saved without an exception, its
    settings hold each property that the type of the channel asks for, and opening and saving again changes nothing.
  \<^item> \<^verbatim>\<open>Param_Override\<close>, \<^verbatim>\<open>Param_Editor\<close> (\<^verbatim>\<open>channels/components/dialogs/param-override-editor-dialog.tsx\<close>):
    operations on request parameters, their tables, templates, normal forms, drafts, validation and
    text, and the dialog that edits them: its state is a record, every handler a function on it.
    Identifiers are issued from a counter that the state holds.
  \<^item> \<^verbatim>\<open>Param_Editor_Invariant\<close>: over all sequences of edits the operations are not empty and have distinct
    identifiers, and the selection names one of them; dropping a row only moves it; the rules of a prune
    operation cannot be edited.
  \<^item> \<^verbatim>\<open>Param_Roundtrip\<close>: a text saved in the operations mode is shown again as valid operations and saved
    as the same text, unless a value is typed as a quoted string.
  \<^item> \<^verbatim>\<open>Table_Url\<close> (\<^verbatim>\<open>hooks/use-table-url-state.ts\<close>, the tables and routes that use it): page, page size and
    filters of a table as search parameters. The router is an argument with its promise as a hypothesis
    (\<open>router_ok\<close>); columns are interfaces (locales \<open>column_reader\<close>, \<open>column_codec\<close>, interpreted on the columns
    of all tables). Filters and pages are read back, and every table fits the schema of its route.
  \<^item> \<^verbatim>\<open>Debounced_Filter\<close> (\<^verbatim>\<open>data-table/hooks/use-debounced-column-filter.ts\<close>): a text input that filters a
    column, as a state machine of renders, effects and a timer over any owner of the filter (locale
    \<open>filter_owner\<close>, interpreted on the tables). Typing is applied within two renders (the fuel); a reset
    from outside is taken back within three, which is a fault of the code.
  \<^item> \<^verbatim>\<open>Table_Reach\<close>: the seven tables as a state machine over menus, inputs, pages, the global filter and
    changes of the URL from outside. What the menus offer is accepted by the routes, a table opened again
    on its URL is the same table, but the global filter does not follow the URL.

  \<^bold>\<open>Conventions.\<close> Exceptions and \<open>null\<close> results are values (\<open>None\<close>, sums, or a datatype of verdicts).
  Asynchronous code is cut at its suspension points; what happens there is universally quantified.
  Locale-dependent comparison, the clock, the network, translation and the URL parser are arguments.
  Numbers are exact integers or rationals; where a double is converted from digits (\<^verbatim>\<open>Number(s)\<close> in
  \<^verbatim>\<open>Update_Check\<close>) the rounding is written out. The order in which an engine lists integer-like property
  names is not modelled.

  \<^bold>\<open>Not modelled.\<close> The Go server (another language); React components, hooks and routes, which render
  and wire the modelled functions; network, storage and browser interfaces; chart specifications and
  style helpers; translations and generated files. Of the session, the browser lock and the sharing of
  one in-flight promise are left out: a refresh is one call with arbitrary events around it.
\<close>

end
